(* ===== verification/Prelude.thy ===== *)
theory Prelude
  imports Main "HOL-Library.Word"
begin

unbundle bit_operations_syntax

text \<open>
  Shared material of the development: the machine types of \<^verbatim>\<open>include/lib/types.h\<close>, the
  list-level counterpart of the intrusive-list scans of the code, and the order interface
  that every sorted queue of the hypervisor (timer list, run queues) instantiates.
\<close>

section \<open>Machine types\<close>

type_synonym u8 = "8 word"
type_synonym u16 = "16 word"
type_synonym u32 = "32 word"
type_synonym u64 = "64 word"
type_synonym i32 = "32 word"  \<comment> \<open>two's complement, read with \<open>sint\<close> and compared with \<open><s\<close>\<close>
type_synonym i64 = "64 word"

text \<open>A physical CPU number indexes the per-CPU areas and is never computed with.\<close>

type_synonym pcpu = nat

abbreviation UINT64_MAX :: u64 where "UINT64_MAX \<equiv> - 1"
abbreviation UINT32_MAX :: u32 where "UINT32_MAX \<equiv> - 1"

named_theorems sched_defs \<open>the small operations of the scheduler model, unfolded together\<close>
named_theorems frame_simps \<open>what an operation leaves unchanged\<close>

section \<open>Word arithmetic without wrap-around\<close>

lemma unat_lt_64 [simp]: "unat (x :: u64) < 2 ^ 64"
  using unsigned_less [of x, where ?'a = nat] by simp

lemma unat_add_nowrap:
  "unat a + unat b < 2 ^ LENGTH('a) \<Longrightarrow> unat ((a :: 'a::len word) + b) = unat a + unat b"
  by (simp add: unat_add_lem)

lemma unat_mult_nowrap:
  "unat a * unat b < 2 ^ LENGTH('a) \<Longrightarrow> unat ((a :: 'a::len word) * b) = unat a * unat b"
  by (simp add: unat_mult_lem)

lemma unat_sub_le: "b \<le> a \<Longrightarrow> unat ((a :: 'a::len word) - b) = unat a - unat b"
  by (simp add: unat_sub_if' word_le_nat_alt)

lemma unat_Suc_nowrap:
  "Suc (unat a) < 2 ^ LENGTH('a) \<Longrightarrow> unat ((a :: 'a::len word) + 1) = Suc (unat a)"
  using unat_add_nowrap [of a 1] by simp

lemma unat_ucast_small:
  "unat (w :: 'a::len word) < 2 ^ LENGTH('b) \<Longrightarrow> unat (ucast w :: 'b::len word) = unat w"
  by (simp add: unsigned_ucast_eq take_bit_nat_eq_self)

lemma unat_ucast_up:
  "LENGTH('a) \<le> LENGTH('b) \<Longrightarrow> unat (ucast (w :: 'a::len word) :: 'b::len word) = unat w"
  by (rule unat_ucast_small) (rule less_le_trans [OF unsigned_less], simp)

text \<open>Signed addition and subtraction of 64-bit values that stay in range.\<close>

lemma sint_range_64: "- (2 ^ 63) \<le> sint (x :: i64)" "sint (x :: i64) < 2 ^ 63"
  using sint_ge [of x] sint_lt [of x] by simp_all

lemma sint_add_nowrap:
  assumes "- (2 ^ 63) \<le> sint (a :: i64) + sint b" and "sint a + sint b < 2 ^ 63"
  shows "sint (a + b) = sint a + sint b"
  using assms by (simp add: sint_word_ariths signed_take_bit_int_eq_self)

lemma sint_diff_nowrap:
  assumes "- (2 ^ 63) \<le> sint (a :: i64) - sint b" and "sint a - sint b < 2 ^ 63"
  shows "sint (a - b) = sint a - sint b"
  using assms by (simp add: sint_word_ariths signed_take_bit_int_eq_self)

lemma sint_unat_small: 
  assumes "unat (x :: i64) < 2 ^ 63"
  shows "sint x = int (unat x)"
proof -
  have "uint x = int (unat x)" by (rule uint_nat)
  moreover have "signed_take_bit 63 (int (unat x)) = int (unat x)"
  proof (rule signed_take_bit_int_eq_self)
    show "- (2 ^ 63) \<le> int (unat x)" by (rule order_trans [of _ 0]) simp_all
    show "int (unat x) < 2 ^ 63" using assms by (metis of_nat_less_iff of_nat_numeral of_nat_power)
  qed
  ultimately show ?thesis by (simp add: sint_uint del: uint_nat)
qed

lemma unat_sint_nonneg:
  assumes "0 \<le> sint (x :: i64)"
  shows "unat x = nat (sint x)"
proof -
  have "uint x = take_bit 64 (sint x)" using uint_sint [of x] by simp
  also have "\<dots> = sint x" using assms sint_range_64(2) [of x] by (intro take_bit_int_eq_self) auto
  finally show ?thesis by (simp add: unat_eq_nat_uint)
qed

section \<open>Insertion before the first element that stops the scan\<close>

text \<open>
  The run queues and the timer list are filled by walking the list to the first element that
  satisfies a test and linking the new node in front of it, or at the tail when no element does.
\<close>

fun insert_before :: "('a \<Rightarrow> bool) \<Rightarrow> 'a \<Rightarrow> 'a list \<Rightarrow> 'a list" where
  "insert_before stop x [] = [x]"
| "insert_before stop x (y # ys) =
     (if stop y then x # y # ys else y # insert_before stop x ys)"

lemma set_insert_before [simp]: "set (insert_before stop x xs) = insert x (set xs)"
  by (induction xs) auto

lemma insert_before_not_Nil [simp]: "insert_before stop x xs \<noteq> []"
  by (cases xs) auto

lemma distinct_insert_before [simp]:
  "distinct (insert_before stop x xs) \<longleftrightarrow> x \<notin> set xs \<and> distinct xs"
  by (induction xs) auto

lemma length_insert_before [simp]: "length (insert_before stop x xs) = Suc (length xs)"
  by (induction xs) auto

lemma insert_before_split:
  "insert_before stop x xs =
     takeWhile (\<lambda>y. \<not> stop y) xs @ x # dropWhile (\<lambda>y. \<not> stop y) xs"
  by (induction xs) auto

lemma remove1_insert_before [simp]: "x \<notin> set xs \<Longrightarrow> remove1 x (insert_before stop x xs) = xs"
  by (induction xs) auto

lemma insert_before_cong:
  "(\<And>y. y \<in> set xs \<Longrightarrow> stop y = stop' y) \<Longrightarrow> insert_before stop x xs = insert_before stop' x xs"
  by (induction xs) auto

lemma removeAll_insert_before [simp]: "removeAll x (insert_before stop x xs) = removeAll x xs"
  by (induction xs) auto

lemma distinct_single: "distinct xs \<Longrightarrow> set xs = {c} \<Longrightarrow> xs = [c]"
  by (cases xs; cases "tl xs") auto

section \<open>Ordered queues\<close>

text \<open>
  What a client of a sorted queue relies on: in state \<open>s\<close> every element has a \<open>key\<close>, and the
  scan test \<open>stop s x y\<close> (\<open>y\<close> is the first element that must come after \<open>x\<close>) agrees with the
  order of the keys. Whether equal keys stop the scan is left to the instance: the run queues
  are first-in first-out among equals, the timer list is last-in first-out.
\<close>

locale ordered_queue =
  fixes key :: "'s \<Rightarrow> 'a \<Rightarrow> 'k::linorder"
    and stop :: "'s \<Rightarrow> 'a \<Rightarrow> 'a \<Rightarrow> bool"
  assumes stop_le: "stop s x y \<Longrightarrow> key s x \<le> key s y"
    and go_le: "\<not> stop s x y \<Longrightarrow> key s y \<le> key s x"
begin

lemma sorted_insert:
  "sorted (map (key s) xs) \<Longrightarrow> sorted (map (key s) (insert_before (stop s x) x xs))"
proof (induction xs)
  case Nil
  show ?case by simp
next
  case (Cons y ys)
  then show ?case
    using stop_le [of s x y] go_le [of s x y] by (auto intro: order_trans)
qed

lemma sorted_remove: "sorted (map (key s) xs) \<Longrightarrow> sorted (map (key s) (remove1 x xs))"
  by (rule sorted_map_remove1)

text \<open>Re-sorting one element: its key may change, the keys of the others may not.\<close>

lemma sorted_reinsert:
  assumes "sorted (map (key s) (remove1 x xs))" and "distinct xs"
    and "\<And>y. y \<in> set xs \<Longrightarrow> y \<noteq> x \<Longrightarrow> key s' y = key s y"
  shows "sorted (map (key s') (insert_before (stop s' x) x (remove1 x xs)))"
proof -
  have "map (key s') (remove1 x xs) = map (key s) (remove1 x xs)"
    using assms(2,3) by (intro map_cong) auto
  then show ?thesis using assms(1) by (metis sorted_insert)
qed

lemma hd_least:
  assumes "sorted (map (key s) xs)" and "xs \<noteq> []" and "y \<in> set xs"
  shows "key s (hd xs) \<le> key s y"
  using assms by (cases xs) auto

end

section \<open>Cursor loops\<close>

text \<open>
  \<^verbatim>\<open>pos->next\<close> on a queue held as a list: the successor inside the queue, \<open>None\<close> when the
  successor is the list head, and the node itself when it was unlinked by
  \<^verbatim>\<open>list_del_init\<close> (its links then point to itself).
\<close>

fun succ_in :: "'a list \<Rightarrow> 'a \<Rightarrow> 'a option" where
  "succ_in [] x = Some x"
| "succ_in (y # ys) x = (if y = x then (case ys of [] \<Rightarrow> None | z # _ \<Rightarrow> Some z) else succ_in ys x)"

definition first_in :: "'a list \<Rightarrow> 'a option" where
  "first_in xs = (case xs of [] \<Rightarrow> None | x # _ \<Rightarrow> Some x)"

lemma succ_in_append:
  "x \<notin> set as \<Longrightarrow> succ_in (as @ x # bs) x = first_in bs"
  by (induction as) (auto simp: first_in_def split: list.splits)

lemma first_in_simps [simp]: "first_in [] = None" "first_in (x # xs) = Some x"
  by (simp_all add: first_in_def)

text \<open>
  \<^verbatim>\<open>list_for_each_safe\<close> over the queue \<open>q s\<close>: the cursor \<open>n\<close> is read before the body runs, so the
  body may unlink or relink the current node. \<open>None\<close> as a result: the loop does not end.
\<close>

definition cursor_next :: "'a list \<Rightarrow> 'a option \<Rightarrow> 'a option" where
  "cursor_next xs c = (case c of None \<Rightarrow> first_in xs | Some x \<Rightarrow> succ_in xs x)"

partial_function (option) for_each_safe ::
  "('s \<Rightarrow> 'a list) \<Rightarrow> ('a \<Rightarrow> 's \<Rightarrow> 's) \<Rightarrow> 'a option \<Rightarrow> 'a option \<Rightarrow> 's \<Rightarrow> 's option" where
  "for_each_safe q body pos n s =
     (case pos of None \<Rightarrow> Some s
      | Some x \<Rightarrow> for_each_safe q body n (cursor_next (q (body x s)) n) (body x s))"

lemma for_each_safe_None [simp]: "for_each_safe q body None n s = Some s"
  by (subst for_each_safe.simps) simp

definition list_for_each_safe :: "('s \<Rightarrow> 'a list) \<Rightarrow> ('a \<Rightarrow> 's \<Rightarrow> 's) \<Rightarrow> 's \<Rightarrow> 's option" where
  "list_for_each_safe q body s =
     for_each_safe q body (first_in (q s)) (cursor_next (q s) (first_in (q s))) s"

text \<open>
  What a body may do for the loop to be a pass over the queue as it was found: it moves or
  unlinks at most the current node, and leaves it finished; a finished node that is met (again)
  is left as it is.
\<close>

locale safe_pass =
  fixes q :: "'s \<Rightarrow> 'a list" and body :: "'a \<Rightarrow> 's \<Rightarrow> 's"
    and ok :: "'s \<Rightarrow> bool" and fin :: "'a \<Rightarrow> 's \<Rightarrow> bool"
  assumes ok_distinct: "ok s \<Longrightarrow> distinct (q s)"
    and ok_body: "ok s \<Longrightarrow> x \<in> set (q s) \<Longrightarrow> ok (body x s)"
    and order_kept: "ok s \<Longrightarrow> x \<in> set (q s) \<Longrightarrow> removeAll x (q (body x s)) = removeAll x (q s)"
    and fin_body: "ok s \<Longrightarrow> x \<in> set (q s) \<Longrightarrow> x \<in> set (q (body x s)) \<Longrightarrow> fin x (body x s)"
    and fin_noop: "ok s \<Longrightarrow> x \<in> set (q s) \<Longrightarrow> fin x s \<Longrightarrow> body x s = s"
    and fin_stable: "ok s \<Longrightarrow> x \<in> set (q s) \<Longrightarrow> y \<in> set (q s) \<Longrightarrow> y \<noteq> x \<Longrightarrow> fin y s \<Longrightarrow> fin y (body x s)"
begin

lemma removeAll_split:
  assumes "removeAll x zs = as @ y # bs" and "distinct zs" and "y \<noteq> x"
  obtains us vs where "zs = us @ y # vs" and "removeAll x vs = bs"
proof -
  have "y \<in> set zs" using assms(1) by (metis in_set_conv_decomp removeAll_id set_removeAll Diff_iff)
  then obtain us vs where z: "zs = us @ y # vs" by (meson split_list)
  have "removeAll x us @ y # removeAll x vs = as @ y # bs" using assms(1,3) z by simp
  moreover have "y \<notin> set (removeAll x us)" "y \<notin> set (removeAll x vs)" using assms(2) z by auto
  moreover have "y \<notin> set as" "y \<notin> set bs"
    using assms(1,2) distinct_removeAll [of zs x] by auto
  ultimately have "removeAll x vs = bs" using append_Cons_eq_iff [of y "removeAll x us" "removeAll x vs" as bs] by blast
  then show thesis using that z by blast
qed

lemma loop_from:
  assumes "ok s" and "q s = as @ bs" and "\<And>y. y \<in> set bs \<Longrightarrow> y \<notin> T \<Longrightarrow> fin y s"
  shows "for_each_safe q body (first_in bs) (cursor_next (q s) (first_in bs)) s =
    Some (fold body (filter (\<lambda>y. y \<in> T) bs) s)"
  using assms
proof (induction "length (filter (\<lambda>y. y \<in> T) bs)" arbitrary: s as bs T rule: less_induct)
  case less
  from less.prems less.hyps show ?case
  proof (induction bs arbitrary: as)
    case Nil
    then show ?case by simp
  next
    case (Cons x bs)
    note hyp = Cons.prems(4)
    have d: "distinct (as @ x # bs)" using ok_distinct [OF Cons.prems(1)] Cons.prems(2) by simp
    have x: "x \<in> set (q s)" using Cons.prems(2) by simp
    have n: "cursor_next (q s) (Some x) = first_in bs"
      using d Cons.prems(2) by (simp add: cursor_next_def succ_in_append)
    have step: "for_each_safe q body (first_in (x # bs)) (cursor_next (q s) (first_in (x # bs))) s =
        for_each_safe q body (first_in bs) (cursor_next (q (body x s)) (first_in bs)) (body x s)"
      by (subst for_each_safe.simps) (simp add: n)
    show ?case
    proof (cases "x \<in> T")
      case False
      have "body x s = s" using fin_noop [OF Cons.prems(1) x] Cons.prems(3) False by simp
      moreover have "for_each_safe q body (first_in bs) (cursor_next (q s) (first_in bs)) s =
          Some (fold body (filter (\<lambda>y. y \<in> T) bs) s)"
        by (rule Cons.IH [of "as @ [x]"]) (use Cons.prems False in auto)
      ultimately show ?thesis using step False by simp
    next
      case True
      let ?s = "body x s"
      have ok': "ok ?s" by (rule ok_body [OF Cons.prems(1) x])
      have ord: "removeAll x (q ?s) = as @ bs"
        using order_kept [OF Cons.prems(1) x] Cons.prems(2) d by (simp add: removeAll_id)
      show ?thesis
      proof (cases bs)
        case Nil
        then show ?thesis using step True by simp
      next
        case (Cons y bs')
        have yx: "y \<noteq> x" using d Cons by auto
        obtain us vs where z: "q ?s = us @ y # vs" and vs: "removeAll x vs = bs'"
          using removeAll_split [OF _ ok_distinct [OF ok'] yx] ord Cons by metis
        have fr: "filter (\<lambda>z. z \<in> T - {x}) zs = filter (\<lambda>z. z \<in> T) (removeAll x zs)" for zs
          by (induction zs) auto
        have f: "filter (\<lambda>z. z \<in> T - {x}) (y # vs) = filter (\<lambda>z. z \<in> T) bs"
          unfolding fr using vs yx Cons by simp
        have "for_each_safe q body (first_in (y # vs)) (cursor_next (q ?s) (first_in (y # vs))) ?s =
            Some (fold body (filter (\<lambda>z. z \<in> T - {x}) (y # vs)) ?s)"
        proof (rule hyp)
          show "length (filter (\<lambda>z. z \<in> T - {x}) (y # vs)) < length (filter (\<lambda>y. y \<in> T) (x # bs))"
            using f True by simp
          show "ok ?s" "q ?s = us @ y # vs" by (fact ok', fact z)
          fix w assume w: "w \<in> set (y # vs)" "w \<notin> T - {x}"
          show "fin w ?s"
          proof (cases "w = x")
            case True
            then show ?thesis using fin_body [OF \<open>ok s\<close> x] w(1) z by auto
          next
            case False
            have "w \<in> set bs" using w(1) False vs Cons by auto
            then show ?thesis
              using fin_stable [OF \<open>ok s\<close> x, of w] \<open>\<And>y. y \<in> set (x # bs) \<Longrightarrow> y \<notin> T \<Longrightarrow> fin y s\<close> [of w]
                False w(2) \<open>q s = as @ x # bs\<close> by auto
          qed
        qed
        then show ?thesis using step f True Cons by simp
      qed
    qed
  qed
qed

theorem loop_is_fold:
  assumes "ok s"
  shows "list_for_each_safe q body s = Some (fold body (q s) s)"
  using loop_from [OF assms, of "[]" "q s" UNIV] by (simp add: list_for_each_safe_def)

lemma fold_ok:
  assumes "ok s" and "distinct xs" and "set xs \<subseteq> set (q s)"
  shows "ok (fold body xs s)"
  using assms
proof (induction xs arbitrary: s)
  case (Cons x xs)
  have x: "x \<in> set (q s)" using Cons.prems by simp
  have "set (q (body x s)) - {x} = set (q s) - {x}"
    using arg_cong [OF order_kept [OF Cons.prems(1) x], of set] by simp
  then have "set xs \<subseteq> set (q (body x s))" using Cons.prems(2,3) by auto
  then show ?case using Cons ok_body [OF Cons.prems(1) x] by simp
qed simp

lemma body_others:
  assumes "ok s" and "x \<in> set (q s)" and "y \<noteq> x"
  shows "y \<in> set (q (body x s)) \<longleftrightarrow> y \<in> set (q s)"
proof -
  have "set (q (body x s)) - {x} = set (q s) - {x}"
    using arg_cong [OF order_kept [OF assms(1,2)], of set] by simp
  then show ?thesis using assms(3) by auto
qed

lemma body_subset:
  assumes "ok s" and "distinct (x # xs)" and "set (x # xs) \<subseteq> set (q s)"
  shows "set xs \<subseteq> set (q (body x s))"
proof
  fix y assume y: "y \<in> set xs"
  then have "y \<noteq> x" "y \<in> set (q s)" using assms(2,3) by auto
  then show "y \<in> set (q (body x s))" using body_others [OF assms(1), of x y] assms(3) by simp
qed

lemma fold_fin_kept:
  assumes "ok s" and "distinct xs" and "set xs \<subseteq> set (q s)" and "y \<notin> set xs"
  shows "(y \<in> set (q (fold body xs s)) \<longleftrightarrow> y \<in> set (q s)) \<and>
    (y \<in> set (q s) \<longrightarrow> fin y s \<longrightarrow> fin y (fold body xs s))"
  using assms
proof (induction xs arbitrary: s)
  case (Cons x xs)
  have x: "x \<in> set (q s)" and yx: "y \<noteq> x" using Cons.prems by simp_all
  have y: "y \<in> set (q (body x s)) \<longleftrightarrow> y \<in> set (q s)" by (rule body_others [OF Cons.prems(1) x yx])
  have "y \<notin> set xs" "distinct xs" using Cons.prems by simp_all
  note ih = Cons.IH [OF ok_body [OF Cons.prems(1) x] this(2) body_subset [OF Cons.prems(1-3)] this(1)]
  have "y \<in> set (q s) \<Longrightarrow> fin y s \<Longrightarrow> fin y (body x s)" by (rule fin_stable [OF Cons.prems(1) x _ yx])
  then show ?case using ih y by simp
qed simp

text \<open>After the pass every node that is still queued is finished.\<close>

lemma fold_fin:
  assumes "ok s" and "distinct xs" and "set xs \<subseteq> set (q s)" and "y \<in> set xs"
    and "y \<in> set (q (fold body xs s))"
  shows "fin y (fold body xs s)"
  using assms
proof (induction xs arbitrary: s)
  case (Cons x xs)
  have x: "x \<in> set (q s)" and d: "x \<notin> set xs" "distinct xs" using Cons.prems by simp_all
  note ok' = ok_body [OF Cons.prems(1) x] and sub = body_subset [OF Cons.prems(1-3)]
  show ?case
  proof (cases "y = x")
    case True
    note kept = fold_fin_kept [OF ok' d(2) sub d(1)]
    then have "x \<in> set (q (body x s))" using Cons.prems(5) True by simp
    then show ?thesis using kept fin_body [OF Cons.prems(1) x] True by simp
  next
    case False
    then show ?thesis using Cons.IH [OF ok' d(2) sub] Cons.prems(4,5) by simp
  qed
qed simp

lemma pass_fin:
  assumes "ok s" and "y \<in> set (q (fold body (q s) s))"
  shows "fin y (fold body (q s) s)"
proof -
  note d = ok_distinct [OF assms(1)]
  have "y \<in> set (q s)" using fold_fin_kept [OF assms(1) d order_refl, of y] assms(2) by blast
  then show ?thesis by (rule fold_fin [OF assms(1) d order_refl _ assms(2)])
qed

lemma pass_ok: "ok s \<Longrightarrow> ok (fold body (q s) s)"
  by (rule fold_ok) (simp_all add: ok_distinct)

end

end
