(* ===== verification/Bits.thy ===== *)
theory Bits
  imports Prelude
begin

text \<open>
  Bit searches and bitmaps: \<^verbatim>\<open>include/arch/arm64/asm/lib/bits.h\<close> (the architecture primitives),
  \<^verbatim>\<open>include/lib/bits.h\<close> (the common names) and \<^verbatim>\<open>lib/bits.c\<close>. A bitmap word is a 64-bit or
  32-bit word; an operation that writes through a pointer returns the new word, and the
  test-and-modify operations return the old bit together with it. The atomic and the
  non-atomic variants compute the same word.
\<close>

section \<open>Bit searches\<close>

abbreviation INVALID_BIT_INDEX :: u16 where "INVALID_BIT_INDEX \<equiv> 0xffff"

text \<open>The compiler intrinsics, defined for a non-zero argument.\<close>

definition ctz :: "'a::len word \<Rightarrow> nat" where
  "ctz x = (case find (bit x) [0..<LENGTH('a)] of Some n \<Rightarrow> n | None \<Rightarrow> LENGTH('a))"

definition clz :: "'a::len word \<Rightarrow> nat" where
  "clz x = (case find (\<lambda>n. bit x (LENGTH('a) - 1 - n)) [0..<LENGTH('a)] of
      Some n \<Rightarrow> n | None \<Rightarrow> LENGTH('a))"

definition popcount :: "'a::len word \<Rightarrow> nat" where
  "popcount x = length (filter (bit x) [0..<LENGTH('a)])"

definition arch_ffs64 :: "u64 \<Rightarrow> u16" where
  "arch_ffs64 x = (if x = 0 then INVALID_BIT_INDEX else of_nat (ctz x))"

definition arch_fls64 :: "u64 \<Rightarrow> u16" where
  "arch_fls64 x = (if x = 0 then INVALID_BIT_INDEX else of_nat (64 - 1 - clz x))"

definition arch_fls32 :: "u32 \<Rightarrow> 16 word" where
  "arch_fls32 x = (if x = 0 then INVALID_BIT_INDEX else of_nat (31 - clz x))"

definition fls32 :: "u32 \<Rightarrow> 16 word" where "fls32 x = arch_fls32 x"
definition fls64 :: "u64 \<Rightarrow> u16" where "fls64 x = arch_fls64 x"
definition ffs64 :: "u64 \<Rightarrow> u16" where "ffs64 x = arch_ffs64 x"
definition ffz64 :: "u64 \<Rightarrow> u16" where "ffz64 x = arch_ffs64 (NOT x)"

text \<open>
  \<^verbatim>\<open>ffz64_ex\<close>: the array is a function of the word index, \<open>nbits\<close> counts bits. The index and the
  nbits are natural numbers: an array whose bits are numbered by 64-bit integers cannot be so
  long that \<open>idx << 6\<close> wraps.
\<close>

function ffz64_ex_loop :: "(nat \<Rightarrow> u64) \<Rightarrow> nat \<Rightarrow> nat \<Rightarrow> nat" where
  "ffz64_ex_loop addr nbits idx =
     (if 64 * idx < nbits then
        (if addr idx \<noteq> NOT 0 then 64 * idx + unat (ffz64 (addr idx))
         else ffz64_ex_loop addr nbits (Suc idx))
      else nbits)"
  by pat_completeness auto
termination
  by (relation "measure (\<lambda>(addr, nbits, idx). nbits - 64 * idx)") auto

declare ffz64_ex_loop.simps [simp del]

definition ffz64_ex :: "(nat \<Rightarrow> u64) \<Rightarrow> nat \<Rightarrow> nat" where
  "ffz64_ex addr nbits = ffz64_ex_loop addr nbits 0"

definition clz32 :: "u32 \<Rightarrow> u16" where
  "clz32 x = (if x \<noteq> 0 then 31 - fls32 x else 32)"

definition clz64 :: "u64 \<Rightarrow> u16" where
  "clz64 x = (if x \<noteq> 0 then 63 - fls64 x else 64)"

definition bitmap_weight :: "u64 \<Rightarrow> u16" where
  "bitmap_weight bits = of_nat (popcount bits)"

section \<open>Bitmaps\<close>

definition mask64 :: "u32 \<Rightarrow> u64" where
  "mask64 nr = push_bit (unat (nr AND (8 * 8 - 1))) 1"

definition mask32 :: "u32 \<Rightarrow> u32" where
  "mask32 nr = push_bit (unat (nr AND (8 * 4 - 1))) 1"

definition arch_bitmap_test :: "u32 \<Rightarrow> u64 \<Rightarrow> bool" where
  "arch_bitmap_test nr w \<longleftrightarrow> w AND push_bit (unat (nr AND 63)) 1 \<noteq> 0"

definition arch_bitmap32_test :: "u32 \<Rightarrow> u32 \<Rightarrow> bool" where
  "arch_bitmap32_test nr w \<longleftrightarrow> w AND push_bit (unat (nr AND 31)) 1 \<noteq> 0"

definition arch_bitmap_set :: "u32 \<Rightarrow> u64 \<Rightarrow> u64" where
  "arch_bitmap_set nr w = w OR push_bit (unat (nr AND 63)) 1"

definition arch_bitmap32_set :: "u32 \<Rightarrow> u32 \<Rightarrow> u32" where
  "arch_bitmap32_set nr w = w OR push_bit (unat (nr AND 31)) 1"

definition arch_bitmap_clear :: "u32 \<Rightarrow> u64 \<Rightarrow> u64" where
  "arch_bitmap_clear nr w = w AND NOT (push_bit (unat (nr AND 63)) 1)"

definition arch_bitmap32_clear :: "u32 \<Rightarrow> u32 \<Rightarrow> u32" where
  "arch_bitmap32_clear nr w = w AND NOT (push_bit (unat (nr AND 31)) 1)"

definition arch_bitmap_test_and_set :: "u32 \<Rightarrow> u64 \<Rightarrow> bool \<times> u64" where
  "arch_bitmap_test_and_set nr w =
     (let m = push_bit (unat (nr AND 63)) 1 in (w AND m \<noteq> 0, w OR m))"

definition arch_bitmap32_test_and_set :: "u32 \<Rightarrow> u32 \<Rightarrow> bool \<times> u32" where
  "arch_bitmap32_test_and_set nr w =
     (let m = push_bit (unat (nr AND 31)) 1 in (w AND m \<noteq> 0, w OR m))"

definition arch_bitmap_test_and_clear :: "u32 \<Rightarrow> u64 \<Rightarrow> bool \<times> u64" where
  "arch_bitmap_test_and_clear nr w =
     (let m = push_bit (unat (nr AND 63)) 1 in (w AND m \<noteq> 0, w AND NOT m))"

definition arch_bitmap32_test_and_clear :: "u32 \<Rightarrow> u32 \<Rightarrow> bool \<times> u32" where
  "arch_bitmap32_test_and_clear nr w =
     (let m = push_bit (unat (nr AND 31)) 1 in (w AND m \<noteq> 0, w AND NOT m))"

definition bitmap_set :: "u32 \<Rightarrow> u64 \<Rightarrow> u64" where "bitmap_set nr w = arch_bitmap_set nr w"
definition bitmap_clear :: "u32 \<Rightarrow> u64 \<Rightarrow> u64" where "bitmap_clear nr w = arch_bitmap_clear nr w"
definition bitmap_test :: "u32 \<Rightarrow> u64 \<Rightarrow> bool" where "bitmap_test nr w = arch_bitmap_test nr w"

definition bitmap32_set :: "u32 \<Rightarrow> u32 \<Rightarrow> u32" where "bitmap32_set nr w = arch_bitmap32_set nr w"
definition bitmap32_clear :: "u32 \<Rightarrow> u32 \<Rightarrow> u32" where "bitmap32_clear nr w = arch_bitmap32_clear nr w"
definition bitmap32_test :: "u32 \<Rightarrow> u32 \<Rightarrow> bool" where "bitmap32_test nr w = arch_bitmap32_test nr w"

definition bitmap_test_and_set :: "u32 \<Rightarrow> u64 \<Rightarrow> bool \<times> u64" where
  "bitmap_test_and_set nr w = arch_bitmap_test_and_set nr w"

definition bitmap32_test_and_set :: "u32 \<Rightarrow> u32 \<Rightarrow> bool \<times> u32" where
  "bitmap32_test_and_set nr w = arch_bitmap32_test_and_set nr w"

definition bitmap_test_and_clear :: "u32 \<Rightarrow> u64 \<Rightarrow> bool \<times> u64" where
  "bitmap_test_and_clear nr w = arch_bitmap_test_and_clear nr w"

definition bitmap32_test_and_clear :: "u32 \<Rightarrow> u32 \<Rightarrow> bool \<times> u32" where
  "bitmap32_test_and_clear nr w = arch_bitmap32_test_and_clear nr w"

definition bitmap_set_non_atomic :: "u32 \<Rightarrow> u64 \<Rightarrow> u64" where
  "bitmap_set_non_atomic nr w = w OR mask64 nr"

definition bitmap32_set_non_atomic :: "u32 \<Rightarrow> u32 \<Rightarrow> u32" where
  "bitmap32_set_non_atomic nr w = w OR mask32 nr"

definition bitmap_clear_non_atomic :: "u32 \<Rightarrow> u64 \<Rightarrow> u64" where
  "bitmap_clear_non_atomic nr w = w AND NOT (mask64 nr)"

definition bitmap32_clear_non_atomic :: "u32 \<Rightarrow> u32 \<Rightarrow> u32" where
  "bitmap32_clear_non_atomic nr w = w AND NOT (mask32 nr)"

definition bitmap_test_and_set_non_atomic :: "u32 \<Rightarrow> u64 \<Rightarrow> bool \<times> u64" where
  "bitmap_test_and_set_non_atomic nr w = (w AND mask64 nr \<noteq> 0, w OR mask64 nr)"

definition bitmap32_test_and_set_non_atomic :: "u32 \<Rightarrow> u32 \<Rightarrow> bool \<times> u32" where
  "bitmap32_test_and_set_non_atomic nr w = (w AND mask32 nr \<noteq> 0, w OR mask32 nr)"

definition bitmap_test_and_clear_non_atomic :: "u32 \<Rightarrow> u64 \<Rightarrow> bool \<times> u64" where
  "bitmap_test_and_clear_non_atomic nr w = (w AND mask64 nr \<noteq> 0, w AND NOT (mask64 nr))"

definition bitmap32_test_and_clear_non_atomic :: "u32 \<Rightarrow> u32 \<Rightarrow> bool \<times> u32" where
  "bitmap32_test_and_clear_non_atomic nr w = (w AND mask32 nr \<noteq> 0, w AND NOT (mask32 nr))"

section \<open>What the operations do, bit by bit\<close>

lemma unat_and_mask: "unat ((x :: 'a::len word) AND mask n) = unat x mod 2 ^ n"
  by (simp only: unsigned_take_bit_eq flip: take_bit_eq_mask) (simp add: take_bit_eq_mod)

lemma and_63_mod [simp]: "unat ((nr :: u32) AND 63) = unat nr mod 64"
  using unat_and_mask [of nr 6] by (simp add: mask_eq_exp_minus_1)

lemma and_31_mod [simp]: "unat ((nr :: u32) AND 31) = unat nr mod 32"
  using unat_and_mask [of nr 5] by (simp add: mask_eq_exp_minus_1)

lemma bit_or_exp:
  "bit ((w :: 'a::len word) OR 2 ^ n) i \<longleftrightarrow> bit w i \<or> i = n \<and> n < LENGTH('a)"
  by (auto simp: bit_simps)

lemma bit_and_not_exp: "bit ((w :: 'a::len word) AND NOT (2 ^ n)) i \<longleftrightarrow> bit w i \<and> i \<noteq> n"
  by (auto simp: bit_simps dest: bit_imp_le_length)

lemma bitmap_test_bit: "bitmap_test nr w \<longleftrightarrow> bit w (unat nr mod 64)"
  by (simp add: bitmap_test_def arch_bitmap_test_def and_exp_eq_0_iff_not_bit)

lemma bit_bitmap_set: "bit (bitmap_set nr w) i \<longleftrightarrow> bit w i \<or> i = unat nr mod 64"
  by (auto simp: bitmap_set_def arch_bitmap_set_def bit_or_exp)

lemma bit_bitmap_clear: "bit (bitmap_clear nr w) i \<longleftrightarrow> bit w i \<and> i \<noteq> unat nr mod 64"
  by (auto simp: bitmap_clear_def arch_bitmap_clear_def bit_and_not_exp)

lemma bitmap_set_non_atomic_eq: "bitmap_set_non_atomic nr w = bitmap_set nr w"
  by (simp add: bitmap_set_non_atomic_def bitmap_set_def arch_bitmap_set_def mask64_def)

lemma bitmap_clear_non_atomic_eq: "bitmap_clear_non_atomic nr w = bitmap_clear nr w"
  by (simp add: bitmap_clear_non_atomic_def bitmap_clear_def arch_bitmap_clear_def mask64_def)

lemma bitmap_test_and_set_bits:
  "bitmap_test_and_set nr w = (bitmap_test nr w, bitmap_set nr w)"
  "bitmap_test_and_clear nr w = (bitmap_test nr w, bitmap_clear nr w)"
  by (simp_all add: bitmap_test_and_set_def arch_bitmap_test_and_set_def bitmap_test_and_clear_def
      arch_bitmap_test_and_clear_def bitmap_test_def arch_bitmap_test_def bitmap_set_def arch_bitmap_set_def
      bitmap_clear_def arch_bitmap_clear_def Let_def)

lemmas bitmap_bits = bitmap_test_bit bit_bitmap_set bit_bitmap_clear bitmap_test_and_set_bits
  bitmap_set_non_atomic_eq bitmap_clear_non_atomic_eq

lemma ctz_props:
  assumes "(x :: 'a::len word) \<noteq> 0"
  shows "bit x (ctz x)" "ctz x < LENGTH('a)" "\<And>m. m < ctz x \<Longrightarrow> \<not> bit x m"
proof -
  have "\<exists>n < LENGTH('a). bit x n"
    using assms bit_imp_le_length by (metis bit_eqI bit_0_eq bot_apply bot_bool_def)
  then obtain n where n: "find (bit x) [0..<LENGTH('a)] = Some n"
    by (cases "find (bit x) [0..<LENGTH('a)]") (auto simp: find_None_iff)
  then have "ctz x = n" by (simp add: ctz_def)
  then show "bit x (ctz x)" "ctz x < LENGTH('a)" "\<And>m. m < ctz x \<Longrightarrow> \<not> bit x m"
    using n by (auto simp: find_Some_iff)
qed

lemma ffs64_props:
  assumes "x \<noteq> 0"
  shows "bit x (unat (ffs64 x))" "unat (ffs64 x) < 64" "\<And>m. m < unat (ffs64 x) \<Longrightarrow> \<not> bit x m"
proof -
  have "unat (ffs64 x) = ctz x"
    using assms ctz_props(2) [OF assms] by (simp add: ffs64_def arch_ffs64_def unat_of_nat)
  then show "bit x (unat (ffs64 x))" "unat (ffs64 x) < 64" "\<And>m. m < unat (ffs64 x) \<Longrightarrow> \<not> bit x m"
    using ctz_props [OF assms] by auto
qed

lemma ffs64_zero [simp]: "ffs64 0 = INVALID_BIT_INDEX"
  by (simp add: ffs64_def arch_ffs64_def)

text \<open>The bit numbered \<open>i\<close> of an array of words.\<close>

definition array_bit :: "(nat \<Rightarrow> u64) \<Rightarrow> nat \<Rightarrow> bool" where
  "array_bit addr i \<longleftrightarrow> bit (addr (i div 64)) (i mod 64)"

lemma ffz64_props:
  assumes "w \<noteq> NOT 0"
  shows "\<not> bit w (unat (ffz64 w))" "unat (ffz64 w) < 64" "\<And>m. m < unat (ffz64 w) \<Longrightarrow> bit w m"
proof -
  have nz: "NOT w \<noteq> 0" using assms by (metis bit.double_compl)
  have eq: "ffz64 w = ffs64 (NOT w)" by (simp add: ffz64_def ffs64_def)
  show "unat (ffz64 w) < 64" using ffs64_props(2) [OF nz] eq by simp
  show "\<not> bit w (unat (ffz64 w))" using ffs64_props(1) [OF nz] eq by (simp add: bit_not_iff)
  show "bit w m" if "m < unat (ffz64 w)" for m
    using ffs64_props(2,3) [OF nz] that eq by (auto simp: bit_simps)
qed

lemma ffz64_ex_loop_spec:
  assumes "\<And>j. j < 64 * idx \<Longrightarrow> array_bit addr j"
  shows "(let r = ffz64_ex_loop addr nbits idx in
      (\<forall>j < min r nbits. array_bit addr j) \<and> (r < nbits \<longrightarrow> \<not> array_bit addr r))"
  using assms
proof (induction addr nbits idx rule: ffz64_ex_loop.induct)
  case (1 addr nbits idx)
  consider (out) "\<not> 64 * idx < nbits" | (found) "64 * idx < nbits" "addr idx \<noteq> NOT 0"
    | (full) "64 * idx < nbits" "addr idx = NOT 0" by blast
  then show ?case
  proof cases
    case out
    then show ?thesis using "1.prems" by (simp add: ffz64_ex_loop.simps [of addr nbits idx])
  next
    case found
    let ?b = "unat (ffz64 (addr idx))"
    have b: "?b < 64" using ffz64_props(2) [OF found(2)] .
    have "array_bit addr j" if "j < 64 * idx + ?b" for j
    proof (cases "j < 64 * idx")
      case False
      then have "j div 64 = idx" using that b by auto
      moreover from this have "j mod 64 < ?b"
        using that mult_div_mod_eq [of 64 j] by linarith
      ultimately have "j div 64 = idx" "j mod 64 < ?b" .
      then show ?thesis using ffz64_props(3) [OF found(2)] by (simp add: array_bit_def)
    qed (use "1.prems" in auto)
    moreover have "\<not> array_bit addr (64 * idx + ?b)"
      using ffz64_props(1) [OF found(2)] b by (simp add: array_bit_def)
    ultimately show ?thesis using found by (simp add: ffz64_ex_loop.simps [of addr nbits idx])
  next
    case full
    have "array_bit addr j" if "j < 64 * Suc idx" for j
    proof (cases "j < 64 * idx")
      case False
      then have "j div 64 = idx" using that by auto
      then show ?thesis using full by (simp add: array_bit_def bit_simps)
    qed (use "1.prems" in auto)
    then show ?thesis
      using "1.IH" full by (simp add: ffz64_ex_loop.simps [of addr nbits idx])
  qed
qed

text \<open>
  The search returns the first clear bit of the array; a result at or past \<open>nbits\<close> means that
  every bit below \<open>nbits\<close> is set.
\<close>

lemma ffz64_ex_first_zero:
  assumes "ffz64_ex addr nbits < nbits"
  shows "\<not> array_bit addr (ffz64_ex addr nbits)"
    and "\<And>j. j < ffz64_ex addr nbits \<Longrightarrow> array_bit addr j"
  using ffz64_ex_loop_spec [of 0 addr nbits] assms by (auto simp: ffz64_ex_def Let_def)

lemma ffz64_ex_full:
  "nbits \<le> ffz64_ex addr nbits \<Longrightarrow> j < nbits \<Longrightarrow> array_bit addr j"
  using ffz64_ex_loop_spec [of 0 addr nbits] by (auto simp: ffz64_ex_def Let_def)

text \<open>
  C30: The search for a free bit in a bitmap array is exact: a result below the size is a clear
  bit with every earlier bit set, and a result at or above the size means that every bit of the
  bitmap is set.
\<close>

theorem ffz64_ex_exact:
  "(if ffz64_ex addr nbits < nbits
    then \<not> array_bit addr (ffz64_ex addr nbits) \<and> (\<forall>j < ffz64_ex addr nbits. array_bit addr j)
    else (\<forall>j < nbits. array_bit addr j))"
  using ffz64_ex_first_zero [of addr nbits] ffz64_ex_full [of nbits addr] by (simp add: not_less)

text \<open>Bits 0 to 66 set, bit 67 clear.\<close>

theorem ffz64_ex_exact_witness:
  "ffz64_ex (\<lambda>i. if i = 0 then NOT 0 else 0x7) 128 = 67 \<and>
   \<not> array_bit (\<lambda>i. if i = 0 then NOT 0 else 0x7) 67"
proof -
  have "ffz64 0x7 = 3" by (simp add: ffz64_def arch_ffs64_def ctz_def bit_simps upt_rec)
  then have r: "ffz64_ex (\<lambda>i. if i = 0 then NOT 0 else 0x7) 128 = 67"
    by (simp add: ffz64_ex_def ffz64_ex_loop.simps [of _ 128 0] ffz64_ex_loop.simps [of _ 128 "Suc 0"])
  then show ?thesis
    using ffz64_ex_exact [of "\<lambda>i. if i = 0 then NOT 0 else 0x7" 128] by simp
qed

end
