(* ===== verification/Pgtable.thy ===== *)
theory Pgtable
  imports Bits
begin

text \<open>
  The address arithmetic of the page tables: \<^verbatim>\<open>include/common/pgtable.h\<close> with the ARM64 constants of
  \<^verbatim>\<open>include/arch/arm64/asm/{page,pgtable,mm_common}.h\<close> and \<^verbatim>\<open>arch/arm64/pgtable.c\<close>.  Addresses
  are 64-bit words as in the code.  The lemmas read every operation as division with remainder on
  natural numbers, in terms of \<open>lsz k\<close>, the number of bytes one entry of a level-\<open>k\<close> table covers,
  and \<open>lidx k va\<close>, the entry that translates \<open>va\<close>; no later proof looks at bits of an address.
\<close>

section \<open>Constants\<close>

definition PAGE_SHIFT :: nat where "PAGE_SHIFT = 12"
definition PAGE_SIZE :: u64 where "PAGE_SIZE = push_bit PAGE_SHIFT 1"
definition PAGE_MASK :: u64 where "PAGE_MASK = 0xFFFFFFFFFFFFF000"
definition PG_TABLE_SHIFT :: nat where "PG_TABLE_SHIFT = 9"
definition PG_TABLE_ENTRIES :: u64 where "PG_TABLE_ENTRIES = push_bit PG_TABLE_SHIFT 1"
definition PGD_SHIFT :: nat where "PGD_SHIFT = PAGE_SHIFT + 3 * PG_TABLE_SHIFT"
definition PUD_SHIFT :: nat where "PUD_SHIFT = PAGE_SHIFT + 2 * PG_TABLE_SHIFT"
definition PMD_SHIFT :: nat where "PMD_SHIFT = PAGE_SHIFT + PG_TABLE_SHIFT"

definition PAGE_PFN_OFFSET :: nat where "PAGE_PFN_OFFSET = 12"
definition PFN_MASK :: u64 where "PFN_MASK = 0x0000FFFFFFFFF000"
definition INVALID_HPA :: u64 where "INVALID_HPA = push_bit 52 1"
definition PAGE_TABLE_DESC :: u64 where "PAGE_TABLE_DESC = 3"
definition PAGE_BLOCK_DESC :: u64 where "PAGE_BLOCK_DESC = 1"
definition PAGE_PAGE_DESC :: u64 where "PAGE_PAGE_DESC = 3"
definition PAGE_DESC_VALID :: u64 where "PAGE_DESC_VALID = 1"
definition PAGE_DESC_TYPE_MASK :: u64 where "PAGE_DESC_TYPE_MASK = 3"

definition PGTL3_SHIFT :: nat where "PGTL3_SHIFT = PGD_SHIFT"
definition PGTL3_SIZE :: u64 where "PGTL3_SIZE = push_bit PGTL3_SHIFT 1"
definition PGTL3_MASK :: u64 where "PGTL3_MASK = NOT (PGTL3_SIZE - 1)"
definition PGTL2_SHIFT :: nat where "PGTL2_SHIFT = PUD_SHIFT"
definition PGTL2_SIZE :: u64 where "PGTL2_SIZE = push_bit PGTL2_SHIFT 1"
definition PGTL2_MASK :: u64 where "PGTL2_MASK = NOT (PGTL2_SIZE - 1)"
definition PGTL1_SHIFT :: nat where "PGTL1_SHIFT = PMD_SHIFT"
definition PGTL1_SIZE :: u64 where "PGTL1_SIZE = push_bit PGTL1_SHIFT 1"
definition PGTL1_MASK :: u64 where "PGTL1_MASK = NOT (PGTL1_SIZE - 1)"
definition PGTL0_SHIFT :: nat where "PGTL0_SHIFT = PAGE_SHIFT"
definition PGTL0_SIZE :: u64 where "PGTL0_SIZE = push_bit PGTL0_SHIFT 1"
definition PTRS_PER_PGTL3E :: u64 where "PTRS_PER_PGTL3E = PG_TABLE_ENTRIES"
definition PTRS_PER_PGTL2E :: u64 where "PTRS_PER_PGTL2E = PG_TABLE_ENTRIES"
definition PTRS_PER_PGTL1E :: u64 where "PTRS_PER_PGTL1E = PG_TABLE_ENTRIES"
definition PTRS_PER_PGTL0E :: u64 where "PTRS_PER_PGTL0E = PG_TABLE_ENTRIES"

lemmas shift_defs = PAGE_SHIFT_def PG_TABLE_SHIFT_def PGD_SHIFT_def PUD_SHIFT_def PMD_SHIFT_def
  PGTL3_SHIFT_def PGTL2_SHIFT_def PGTL1_SHIFT_def PGTL0_SHIFT_def PAGE_PFN_OFFSET_def

section \<open>Operations\<close>

definition hpa2hva :: "u64 \<Rightarrow> u64" where "hpa2hva hpa = hpa"
definition hva2hpa :: "u64 \<Rightarrow> u64" where "hva2hpa va = va"

definition arch_pgtl_large :: "u64 \<Rightarrow> bool" where
  "arch_pgtl_large pgtle \<longleftrightarrow>
     pgtle AND PAGE_DESC_VALID \<noteq> 0 \<and> pgtle AND PAGE_DESC_TYPE_MASK = PAGE_BLOCK_DESC"

definition arch_pgtl_page_paddr :: "u64 \<Rightarrow> u64" where
  "arch_pgtl_page_paddr pgtle = pgtle AND PFN_MASK"

definition round_page_up :: "u64 \<Rightarrow> u64" where
  "round_page_up addr = (addr + PAGE_SIZE - 1) AND PAGE_MASK"

definition round_page_down :: "u64 \<Rightarrow> u64" where
  "round_page_down addr = addr AND PAGE_MASK"

definition pgtl3e_index :: "u64 \<Rightarrow> u64" where
  "pgtl3e_index address = drop_bit PGTL3_SHIFT address AND (PTRS_PER_PGTL3E - 1)"

definition pgtl2e_index :: "u64 \<Rightarrow> u64" where
  "pgtl2e_index address = drop_bit PGTL2_SHIFT address AND (PTRS_PER_PGTL2E - 1)"

definition pgtl1e_index :: "u64 \<Rightarrow> u64" where
  "pgtl1e_index address = drop_bit PGTL1_SHIFT address AND (PTRS_PER_PGTL1E - 1)"

definition pgtl0e_index :: "u64 \<Rightarrow> u64" where
  "pgtl0e_index address = drop_bit PGTL0_SHIFT address AND (PTRS_PER_PGTL0E - 1)"

definition page_addr :: "u64 \<Rightarrow> u64" where
  "page_addr pgtle = hpa2hva (arch_pgtl_page_paddr pgtle)"

definition is_pgtl_large :: "u64 \<Rightarrow> bool" where
  "is_pgtl_large pgtle = arch_pgtl_large pgtle"

definition pfn2paddr :: "u64 \<Rightarrow> u64" where
  "pfn2paddr pfn = push_bit PAGE_SHIFT (drop_bit PAGE_PFN_OFFSET pfn)"

definition paddr2pfn :: "u64 \<Rightarrow> u64" where
  "paddr2pfn paddr = push_bit PAGE_PFN_OFFSET (drop_bit PAGE_SHIFT paddr)"

definition mem_aligned_check :: "u64 \<Rightarrow> u64 \<Rightarrow> bool" where
  "mem_aligned_check value req_align \<longleftrightarrow> value AND (req_align - 1) = 0"

section \<open>Levels as natural numbers\<close>

definition lsz :: "nat \<Rightarrow> nat" where "lsz k = 2 ^ (12 + 9 * k)"
definition lidx :: "nat \<Rightarrow> nat \<Rightarrow> nat" where "lidx k va = va div lsz k mod 512"
definition lnext :: "nat \<Rightarrow> nat \<Rightarrow> nat" where "lnext k va = (va div lsz k + 1) * lsz k"

text \<open>The number of slots of size \<open>lsz k\<close> a non-empty range touches.\<close>

definition slots :: "nat \<Rightarrow> nat \<Rightarrow> nat \<Rightarrow> nat" where
  "slots k a b = (b - 1) div lsz k + 1 - a div lsz k"

lemma lsz_0: "lsz 0 = 4096" and lsz_Suc: "lsz (Suc k) = 512 * lsz k" and lsz_pos [simp]: "0 < lsz k"
  by (simp_all add: lsz_def power_add power_mult)

lemma lsz_nz [simp]: "lsz k \<noteq> 0"
  using lsz_pos [of k] by simp

lemma lidx_less [simp]: "lidx k va < 512"
  by (simp add: lidx_def)

lemma va_parts: "va mod lsz (Suc k) = lidx k va * lsz k + va mod lsz k"
  by (simp add: lsz_Suc lidx_def mult.commute [of 512] mod_mult2_eq)

lemma same_slot_up: "a div lsz k = b div lsz k \<Longrightarrow> a div lsz (Suc k) = b div lsz (Suc k)"
  by (simp add: lsz_Suc mult.commute [of 512] div_mult2_eq)

lemma same_slot_iff:
  "a div lsz (Suc k) = b div lsz (Suc k) \<Longrightarrow> a div lsz k = b div lsz k \<longleftrightarrow> lidx k a = lidx k b"
  unfolding lidx_def lsz_Suc mult.commute [of 512] div_mult2_eq
  by (metis div_mult_mod_eq)

lemma lnext_gt: "va < lnext k va" and lnext_le: "lnext k va \<le> va + lsz k"
proof -
  have "va = va div lsz k * lsz k + va mod lsz k" and "va mod lsz k < lsz k" by simp_all
  then show "va < lnext k va" "lnext k va \<le> va + lsz k"
    unfolding lnext_def distrib_right mult_1 by linarith+
qed

lemma lnext_mult [simp]: "lnext k va mod lsz k = 0"
  by (simp add: lnext_def)

lemma lnext_div: "lnext k va div lsz k = Suc (va div lsz k)"
  by (simp add: lnext_def)

lemma below_lnext: "va < lnext k v \<longleftrightarrow> va div lsz k \<le> v div lsz k"
  unfolding lnext_def by (simp only: div_less_iff_less_mult [OF lsz_pos, symmetric] Suc_eq_plus1 [symmetric] less_Suc_eq_le)

lemma in_slot_bounds:
  "va div lsz k = v div lsz k \<Longrightarrow> va < lnext k v"
  "v \<le> va \<Longrightarrow> va < lnext k v \<Longrightarrow> va div lsz k = v div lsz k"
  by (simp_all add: below_lnext le_antisym div_le_mono)

lemma lidx_lnext:
  "Suc (lidx k v) < 512 \<Longrightarrow> lidx k (lnext k v) = Suc (lidx k v)"
  by (simp add: lidx_def lnext_div mod_Suc)

lemma lnext_same_table:
  "Suc (lidx k v) < 512 \<Longrightarrow> lnext k v div lsz (Suc k) = v div lsz (Suc k)"
  unfolding lsz_Suc mult.commute [of 512] div_mult2_eq lnext_div lidx_def
  by (simp add: div_Suc mod_Suc)

lemma lnext_end_of_table:
  "\<not> Suc (lidx k v) < 512 \<Longrightarrow> lnext k v = lnext (Suc k) v"
  unfolding lnext_def lsz_Suc mult.commute [of 512] div_mult2_eq lidx_def
proof -
  assume a: "\<not> Suc (v div lsz k mod 512) < 512"
  moreover have "v div lsz k mod 512 < 512" by simp
  ultimately have "Suc (v div lsz k mod 512) = 512" by linarith
  then have "v div lsz k + 1 = (v div lsz k div 512 + 1) * 512"
    by (metis Suc_eq_plus1 add_Suc_right distrib_right div_mult_mod_eq mult_1)
  then show "(v div lsz k + 1) * lsz k = (v div lsz k div 512 + 1) * (lsz k * 512)"
    by (simp only: mult.assoc mult.commute [of "lsz k" 512])
qed

lemma aligned_up: "v mod lsz (Suc k) = 0 \<Longrightarrow> v mod lsz k = 0"
  by (simp add: va_parts)

lemma aligned_down: "j \<le> k \<Longrightarrow> v mod lsz k = 0 \<Longrightarrow> v mod lsz j = 0"
proof (induction k)
  case (Suc k)
  then show ?case using aligned_up [of v k] by (cases "j = Suc k") (auto simp only: le_Suc_eq)
qed simp

lemma lnext_0: "v mod lsz 0 = 0 \<Longrightarrow> lnext 0 v = v + lsz 0"
  by (auto simp: lnext_def mod_eq_0_iff_dvd)

lemma lnext_pos: "0 < lnext k v"
  using lnext_gt [of v k] by simp

lemma slot_multiple:
  assumes "a < n" "n mod lsz k = 0"
  shows "(n - 1) div lsz k = n div lsz k - 1" "a div lsz k < n div lsz k"
proof -
  obtain m where m: "n = m * lsz k" using div_mult_mod_eq [of n "lsz k"] assms(2) by (metis add_0_right)
  then obtain m' where m': "m = Suc m'" using assms(1) by (cases m) auto
  have "n = lsz k + m' * lsz k" using m m' by simp
  then have "n - 1 = m' * lsz k + (lsz k - 1)" using lsz_pos [of k] by linarith
  then have n1: "(n - 1) div lsz k = m'" by simp
  show "(n - 1) div lsz k = n div lsz k - 1" using n1 m m' by simp
  have "a div lsz k \<le> (n - 1) div lsz k" using assms(1) by (intro div_le_mono) simp
  then show "a div lsz k < n div lsz k" using n1 m m' by simp
qed

lemma slots_split:
  assumes "a < n" "n < b" "n mod lsz k = 0"
  shows "slots k a b = slots k a n + slots k n b"
proof -
  note an = slot_multiple [OF assms(1,3)]
  have "n div lsz k \<le> (b - 1) div lsz k" using assms(2) by (intro div_le_mono) simp
  then show ?thesis using an unfolding slots_def by linarith
qed

lemma slots_pos: "a < b \<Longrightarrow> 0 < slots k a b"
  using div_le_mono [of a "b - 1" "lsz k"] unfolding slots_def by linarith

section \<open>The operations read as division with remainder\<close>

lemma unat_less_48: "a < 2 ^ 48 \<Longrightarrow> unat (of_nat a :: u64) = a"
  by (simp add: unsigned_of_nat take_bit_nat_eq_self)

lemma pow_mask: "push_bit n 1 - 1 = (mask n :: u64)"
  by (simp add: mask_eq_exp_minus_1)

lemma unat_and_not_mask: "unat ((v :: u64) AND NOT (mask n)) = unat v div 2 ^ n * 2 ^ n"
proof -
  have "unat (v AND NOT (mask n)) = push_bit n (drop_bit n (unat v))"
    by (rule bit_eqI) (auto simp: bit_simps bit_unsigned_iff dest: bit_imp_le_length)
  then show ?thesis by (simp add: push_bit_eq_mult drop_bit_eq_div)
qed

lemma page_mask: "PAGE_MASK = NOT (mask 12)"
  by (simp add: PAGE_MASK_def mask_eq_exp_minus_1)

lemma push_drop: "push_bit n (drop_bit n (v :: u64)) = v AND NOT (mask n)"
  by (rule bit_eqI) (auto simp: bit_simps)

lemmas level_defs = PGTL3_SIZE_def PGTL2_SIZE_def PGTL1_SIZE_def PGTL0_SIZE_def
  PGTL3_MASK_def PGTL2_MASK_def PGTL1_MASK_def
  PTRS_PER_PGTL3E_def PTRS_PER_PGTL2E_def PTRS_PER_PGTL1E_def PTRS_PER_PGTL0E_def
  PG_TABLE_ENTRIES_def shift_defs

lemma PTRS_512 [simp]:
  "unat PTRS_PER_PGTL0E = 512" "unat PTRS_PER_PGTL1E = 512" "unat PTRS_PER_PGTL2E = 512" "unat PTRS_PER_PGTL3E = 512"
  by (simp_all add: level_defs)

lemma unat_lsizes:
  "unat PGTL0_SIZE = lsz 0" "unat PGTL1_SIZE = lsz 1" "unat PGTL2_SIZE = lsz 2" "unat PGTL3_SIZE = lsz 3"
  by (simp_all add: level_defs lsz_def)

lemma unat_page_size: "unat PAGE_SIZE = lsz 0"
  by (simp add: PAGE_SIZE_def level_defs lsz_def)

lemma index_is_lidx:
  "unat (pgtl0e_index v) = lidx 0 (unat v)" "unat (pgtl1e_index v) = lidx 1 (unat v)"
  "unat (pgtl2e_index v) = lidx 2 (unat v)" "unat (pgtl3e_index v) = lidx 3 (unat v)"
  unfolding pgtl0e_index_def pgtl1e_index_def pgtl2e_index_def pgtl3e_index_def level_defs pow_mask
    unat_and_mask unat_drop_bit_eq
  by (simp_all add: lidx_def lsz_def drop_bit_eq_div)

lemma unat_mask_down:
  "unat (v AND PGTL1_MASK) = unat v div lsz 1 * lsz 1"
  "unat (v AND PGTL2_MASK) = unat v div lsz 2 * lsz 2"
  "unat (v AND PGTL3_MASK) = unat v div lsz 3 * lsz 3"
  unfolding level_defs pow_mask unat_and_not_mask by (simp_all add: lsz_def)

lemma next_bound: "v < 2 ^ 48 \<Longrightarrow> k \<le> 3 \<Longrightarrow> v div lsz k * lsz k + lsz k < 2 ^ 64"
proof -
  assume v: "v < 2 ^ 48" and "k \<le> 3"
  then have "lsz k \<le> 2 ^ 39" unfolding lsz_def by (intro power_increasing) simp_all
  moreover have "v div lsz k * lsz k \<le> v" by simp
  ultimately have "v div lsz k * lsz k + lsz k < 2 ^ 48 + 2 ^ 39" using v by linarith
  then show ?thesis by simp
qed

lemma next_is_lnext:
  assumes "unat v < 2 ^ 48"
  shows "unat ((v AND PGTL1_MASK) + PGTL1_SIZE) = lnext 1 (unat v)"
    "unat ((v AND PGTL2_MASK) + PGTL2_SIZE) = lnext 2 (unat v)"
    "unat ((v AND PGTL3_MASK) + PGTL3_SIZE) = lnext 3 (unat v)"
  using next_bound [OF assms, of 1] next_bound [OF assms, of 2] next_bound [OF assms, of 3]
  by (subst unat_add_nowrap; simp add: unat_lsizes unat_mask_down lnext_def)+

lemma aligned_is_mod:
  "mem_aligned_check v PGTL1_SIZE \<longleftrightarrow> unat v mod lsz 1 = 0"
  "mem_aligned_check v PGTL2_SIZE \<longleftrightarrow> unat v mod lsz 2 = 0"
  unfolding mem_aligned_check_def level_defs pow_mask unat_eq_0 [symmetric] unat_and_mask
  by (simp_all add: lsz_def)

lemma unat_round_page_down: "unat (round_page_down v) = unat v div lsz 0 * lsz 0"
  by (simp add: round_page_down_def page_mask unat_and_not_mask lsz_def)

lemma unat_round_page_up:
  assumes "unat v < 2 ^ 48"
  shows "unat (round_page_up v) = (unat v + (lsz 0 - 1)) div lsz 0 * lsz 0"
proof -
  have "v + PAGE_SIZE - 1 = v + (PAGE_SIZE - 1)" by simp
  also have "PAGE_SIZE - 1 = 4095" by (simp add: PAGE_SIZE_def PAGE_SHIFT_def)
  finally have "v + PAGE_SIZE - 1 = v + 4095" .
  moreover have "unat (v + 4095) = unat v + 4095" using assms by (subst unat_add_nowrap) simp_all
  ultimately show ?thesis by (simp only: round_page_up_def) (simp add: page_mask unat_and_not_mask lsz_def)
qed

lemma paddr2pfn_aligned: "unat p mod lsz 0 = 0 \<Longrightarrow> paddr2pfn p = p"
proof -
  assume "unat p mod lsz 0 = 0"
  then have "unat (paddr2pfn p) = unat p"
    using div_mult_mod_eq [of "unat p" "lsz 0"]
    by (simp add: paddr2pfn_def shift_defs push_drop unat_and_not_mask lsz_def)
  then show ?thesis by (simp add: word_unat_eq_iff)
qed

lemma PFN_MASK_bits: "bit PFN_MASK n \<longleftrightarrow> 12 \<le> n \<and> n < 48"
proof -
  have m: "PFN_MASK = mask 48 AND NOT (mask 12)" by (simp add: PFN_MASK_def mask_eq_exp_minus_1)
  show ?thesis unfolding m by (auto simp: bit_simps)
qed

lemma pfn2paddr_masked: "pfn2paddr (e AND PFN_MASK) = e AND PFN_MASK"
  unfolding pfn2paddr_def shift_defs push_drop by (rule bit_eqI) (auto simp: bit_simps PFN_MASK_bits)

lemma unat_pfn: "unat (e AND PFN_MASK) < 2 ^ 48" "unat (e AND PFN_MASK) mod lsz 0 = 0"
proof -
  have m: "PFN_MASK = mask 48 AND NOT (mask 12)" by (simp add: PFN_MASK_def mask_eq_exp_minus_1)
  have "unat (e AND PFN_MASK) = unat ((e AND NOT (mask 12)) AND mask 48)"
    by (simp add: m ac_simps)
  then show "unat (e AND PFN_MASK) < 2 ^ 48" unfolding unat_and_mask by simp
  have "unat (e AND PFN_MASK) = unat ((e AND mask 48) AND NOT (mask 12))"
    by (simp add: m ac_simps)
  then show "unat (e AND PFN_MASK) mod lsz 0 = 0" by (simp add: unat_and_not_mask lsz_def)
qed

lemma pfn_mask_aligned:
  assumes "unat p < 2 ^ 48" "unat p mod lsz 0 = 0"
  shows "p AND PFN_MASK = p"
proof -
  have m: "PFN_MASK = mask 48 AND NOT (mask 12)" by (simp add: PFN_MASK_def mask_eq_exp_minus_1)
  have "unat (p AND PFN_MASK) = unat ((p AND NOT (mask 12)) AND mask 48)" by (simp add: m ac_simps)
  also have "\<dots> = unat p div lsz 0 * lsz 0 mod 2 ^ 48"
    by (simp only: unat_and_mask unat_and_not_mask) (simp add: lsz_def)
  also have "unat p div lsz 0 * lsz 0 = unat p" using div_mult_mod_eq [of "unat p" "lsz 0"] assms(2) by linarith
  finally show ?thesis using assms(1) by (simp add: word_unat_eq_iff)
qed

end
