(* ===== verification/Page_Pool.thy ===== *)
theory Page_Pool
  imports Pgtable
begin

text \<open>
  The pool that page-table pages come from (\<^verbatim>\<open>core/mmu.c\<close>: \<open>init_page_pool\<close>, \<open>alloc_page\<close>,
  \<open>free_page\<close>, \<open>sanitize_pte\<close>) and the memory the page tables live in.  A page-table page is
  known by its address; \<open>cell s pg i\<close> is entry \<open>i\<close> of the page at \<open>pg\<close>, and a \<^verbatim>\<open>uint64_t *\<close> into a
  table is the pair of the two.  The pool's bitmap is a list of 64-bit words.  \<^verbatim>\<open>panic\<close>, which spins
  for ever, is the value \<open>None\<close>.  Cache maintenance (\<open>flush_cache_pagewalk\<close>) has no effect on the
  state described here.
\<close>

section \<open>State\<close>

record page_pool =
  start_page :: u64
  bitmap :: "u64 list"
  bitmap_size :: nat
  last_hint_id :: nat
  dummy_page :: u64

record mm =
  pool :: page_pool
  cell :: "u64 \<Rightarrow> nat \<Rightarrow> u64"
  sanitized_page_hpa :: u64

type_synonym pte_ptr = "u64 \<times> nat"

definition get_pgentry :: "pte_ptr \<Rightarrow> mm \<Rightarrow> u64" where
  "get_pgentry pte s = cell s (fst pte) (snd pte)"

definition write_pte :: "pte_ptr \<Rightarrow> u64 \<Rightarrow> mm \<Rightarrow> mm" where
  "write_pte pte e s = s\<lparr>cell := (cell s)(fst pte := (cell s (fst pte))(snd pte := e))\<rparr>"

section \<open>Operations\<close>

definition init_page_pool :: "u64 \<Rightarrow> nat \<Rightarrow> page_pool \<Rightarrow> page_pool" where
  "init_page_pool page_base page_num pl =
     (let bytes = page_num div 8 in
      pl\<lparr>start_page := page_base, bitmap_size := bytes div 8, dummy_page := 0,
        bitmap := replicate (bytes div 8) 0\<rparr>)"

definition sanitize_pte_entry :: "pte_ptr \<Rightarrow> mm \<Rightarrow> mm" where
  "sanitize_pte_entry ptep s = write_pte ptep (sanitized_page_hpa s) s"

definition sanitize_pte :: "u64 \<Rightarrow> mm \<Rightarrow> mm" where
  "sanitize_pte pt_page s =
     fold (\<lambda>i. sanitize_pte_entry (pt_page, i)) [0..<unat PTRS_PER_PGTL0E] s"

definition init_sanitized_page :: "u64 \<Rightarrow> u64 \<Rightarrow> mm \<Rightarrow> mm" where
  "init_sanitized_page sanitized_page hpa s =
     (let s = s\<lparr>sanitized_page_hpa := hpa\<rparr> in
      fold (\<lambda>i s. write_pte (sanitized_page, i) (sanitized_page_hpa s) s) [0..<unat PTRS_PER_PGTL0E] s)"

function alloc_scan :: "page_pool \<Rightarrow> nat \<Rightarrow> nat option" where
  "alloc_scan pl loop_idx =
     (if loop_idx < last_hint_id pl + bitmap_size pl then
        let idx = loop_idx mod bitmap_size pl in
        if bitmap pl ! idx \<noteq> NOT 0 then Some idx else alloc_scan pl (loop_idx + 1)
      else None)"
  by auto
termination
  by (relation "measure (\<lambda>(pl, i). last_hint_id pl + bitmap_size pl - i)") auto

declare alloc_scan.simps [simp del]

definition alloc_page :: "mm \<Rightarrow> (u64 \<times> mm) option" where
  "alloc_page s =
     (let pl = pool s;
          (page, pl) =
            (case alloc_scan pl (last_hint_id pl) of
               Some idx \<Rightarrow>
                 let b = ffz64 (bitmap pl ! idx) in
                 (start_page pl + PAGE_SIZE * of_nat (push_bit 6 idx + unat b),
                  pl\<lparr>bitmap := (bitmap pl)[idx := bitmap_set_non_atomic (ucast b) (bitmap pl ! idx)],
                    last_hint_id := idx\<rparr>)
             | None \<Rightarrow> (0, pl));
          page = (if page \<noteq> 0 then page else dummy_page pl)
      in if page = 0 then None else Some (page, sanitize_pte page (s\<lparr>pool := pl\<rparr>)))"

definition free_page :: "u64 \<Rightarrow> mm \<Rightarrow> mm" where
  "free_page page s =
     (let pl = pool s; n = unat (page - start_page pl) div unat PAGE_SIZE;
          idx = drop_bit 6 n; b = n AND 0x3f
      in s\<lparr>pool := pl\<lparr>bitmap := (bitmap pl)[idx := bitmap_clear_non_atomic (of_nat b) (bitmap pl ! idx)]\<rparr>\<rparr>)"

section \<open>Memory\<close>

lemma write_pte_simps [simp]:
  "pool (write_pte p e s) = pool s" "sanitized_page_hpa (write_pte p e s) = sanitized_page_hpa s"
  "cell (write_pte (pg, i) e s) q = (if q = pg then (cell s pg)(i := e) else cell s q)"
  by (simp_all add: write_pte_def)

lemma sanitize_fold:
  "fold (\<lambda>i. sanitize_pte_entry (pg, i)) is s =
     s\<lparr>cell := (cell s)(pg := (\<lambda>i. if i \<in> set is then sanitized_page_hpa s else cell s pg i))\<rparr>"
  by (induction "is" arbitrary: s)
     (auto simp: sanitize_pte_entry_def write_pte_def fun_eq_iff intro!: mm.equality)

lemma sanitize_pte_simps [simp]:
  "pool (sanitize_pte pg s) = pool s" "sanitized_page_hpa (sanitize_pte pg s) = sanitized_page_hpa s"
  "cell (sanitize_pte pg s) q =
     (if q = pg then (\<lambda>i. if i < 512 then sanitized_page_hpa s else cell s pg i) else cell s q)"
  by (simp_all add: sanitize_pte_def sanitize_fold)

section \<open>The pool as a set of pages\<close>

definition pool_pages :: "page_pool \<Rightarrow> nat" where
  "pool_pages pl = 64 * bitmap_size pl"

definition pool_page :: "page_pool \<Rightarrow> nat \<Rightarrow> u64" where
  "pool_page pl n = start_page pl + PAGE_SIZE * of_nat n"

definition pool_bit :: "page_pool \<Rightarrow> nat \<Rightarrow> bool" where
  "pool_bit pl n \<longleftrightarrow> bit (bitmap pl ! (n div 64)) (n mod 64)"

definition pool_ok :: "page_pool \<Rightarrow> bool" where
  "pool_ok pl \<longleftrightarrow> length (bitmap pl) = bitmap_size pl \<and> last_hint_id pl < bitmap_size pl \<and>
     start_page pl \<noteq> 0 \<and> unat (start_page pl) mod lsz 0 = 0 \<and>
     unat (start_page pl) + lsz 0 * pool_pages pl \<le> 2 ^ 48 \<and> dummy_page pl = 0"

definition region :: "page_pool \<Rightarrow> u64 set" where
  "region pl = pool_page pl ` {..<pool_pages pl}"

definition used :: "page_pool \<Rightarrow> u64 set" where
  "used pl = pool_page pl ` {n. n < pool_pages pl \<and> pool_bit pl n}"

definition nfree :: "page_pool \<Rightarrow> nat" where
  "nfree pl = card {n. n < pool_pages pl \<and> \<not> pool_bit pl n}"

lemma used_region: "used pl \<subseteq> region pl"
  by (auto simp: used_def region_def)

lemma pool_bound:
  assumes "pool_ok pl" "n < pool_pages pl"
  shows "unat (start_page pl) + lsz 0 * n < 2 ^ 48"
proof -
  have "lsz 0 * n < lsz 0 * pool_pages pl" using assms(2) by simp
  moreover have "unat (start_page pl) + lsz 0 * pool_pages pl \<le> 2 ^ 48" using assms(1) by (simp add: pool_ok_def)
  ultimately show ?thesis by linarith
qed

lemma unat_pool_page:
  assumes "pool_ok pl" "n < pool_pages pl"
  shows "unat (pool_page pl n) = unat (start_page pl) + lsz 0 * n"
proof -
  have b: "unat (start_page pl) + lsz 0 * n < 2 ^ 48"
    using pool_bound [OF assms] .
  have n: "unat (of_nat n :: u64) = n" using b by (intro unat_less_48) (simp add: lsz_0)
  have p: "unat (PAGE_SIZE * of_nat n :: u64) = lsz 0 * n"
    using b by (subst unat_mult_nowrap; simp only: unat_page_size n; simp)
  show ?thesis unfolding pool_page_def using b by (subst unat_add_nowrap; simp only: p; simp)
qed

lemma pool_page_inj:
  assumes "pool_ok pl" "n < pool_pages pl" "m < pool_pages pl" "pool_page pl n = pool_page pl m"
  shows "n = m"
proof -
  have "unat (start_page pl) + lsz 0 * n = unat (start_page pl) + lsz 0 * m"
    unfolding unat_pool_page [OF assms(1,2), symmetric] unat_pool_page [OF assms(1,3), symmetric] assms(4) ..
  then show ?thesis by simp
qed

lemma region_page:
  assumes "pool_ok pl" "pg \<in> region pl"
  shows "pg \<noteq> 0" "unat pg < 2 ^ 48" "unat pg mod lsz 0 = 0"
proof -
  obtain n where n: "n < pool_pages pl" "pg = pool_page pl n" using assms(2) by (auto simp: region_def)
  note u = unat_pool_page [OF assms(1) n(1)]
  have s: "0 < unat (start_page pl)" using assms(1) by (simp add: pool_ok_def unat_gt_0)
  show "unat pg < 2 ^ 48" using u n pool_bound [OF assms(1) n(1)] by simp
  show "pg \<noteq> 0" using u s n(2) by auto
  show "unat pg mod lsz 0 = 0" using u n(2) assms(1) by (simp add: pool_ok_def)
qed

lemma page_addr_region: "pool_ok pl \<Longrightarrow> pg \<in> region pl \<Longrightarrow> pg AND PFN_MASK = pg"
  using region_page by (intro pfn_mask_aligned) blast+

lemma used_iff: "pool_ok pl \<Longrightarrow> n < pool_pages pl \<Longrightarrow> pool_page pl n \<in> used pl \<longleftrightarrow> pool_bit pl n"
  by (auto simp: used_def dest: pool_page_inj)

text \<open>Setting or clearing the bit of one page.\<close>

definition set_page_bit :: "bool \<Rightarrow> nat \<Rightarrow> page_pool \<Rightarrow> page_pool" where
  "set_page_bit b n pl = pl\<lparr>bitmap := (bitmap pl)[n div 64 :=
     (if b then bitmap_set_non_atomic (of_nat (n mod 64)) (bitmap pl ! (n div 64))
      else bitmap_clear_non_atomic (of_nat (n mod 64)) (bitmap pl ! (n div 64)))]\<rparr>"

lemma set_page_bit_simps [simp]:
  "start_page (set_page_bit b n pl) = start_page pl" "bitmap_size (set_page_bit b n pl) = bitmap_size pl"
  "last_hint_id (set_page_bit b n pl) = last_hint_id pl" "dummy_page (set_page_bit b n pl) = dummy_page pl"
  "length (bitmap (set_page_bit b n pl)) = length (bitmap pl)"
  "pool_pages (set_page_bit b n pl) = pool_pages pl" "pool_page (set_page_bit b n pl) = pool_page pl"
  "region (set_page_bit b n pl) = region pl" "pool_ok (set_page_bit b n pl) = pool_ok pl"
  by (auto simp: set_page_bit_def pool_pages_def pool_page_def region_def pool_ok_def fun_eq_iff)

lemma pool_bit_set_page_bit:
  assumes "pool_ok pl" "n < pool_pages pl" "m < pool_pages pl"
  shows "pool_bit (set_page_bit b n pl) m = (if m = n then b else pool_bit pl m)"
proof -
  have len: "n div 64 < length (bitmap pl)" "m div 64 < length (bitmap pl)"
    using assms by (simp_all add: pool_ok_def pool_pages_def div_less_iff_less_mult mult.commute)
  have u: "unat (of_nat (n mod 64) :: u32) mod 64 = n mod 64"
    by (simp add: unsigned_of_nat take_bit_eq_mod mod_mod_cancel)
  have same: "m = n" if "m div 64 = n div 64" "m mod 64 = n mod 64"
    using that by (metis div_mult_mod_eq)
  show ?thesis
  proof (cases "m div 64 = n div 64")
    case True
    then show ?thesis using len(1) u same
      by (cases b; cases "m mod 64 = n mod 64") (auto simp: pool_bit_def set_page_bit_def bitmap_bits)
  next
    case False
    then have "m \<noteq> n" by auto
    then show ?thesis using False by (simp add: pool_bit_def set_page_bit_def)
  qed
qed

lemma used_set_page_bit:
  assumes "pool_ok pl" "n < pool_pages pl"
  shows "used (set_page_bit True n pl) = insert (pool_page pl n) (used pl)"
    and "used (set_page_bit False n pl) = used pl - {pool_page pl n}"
proof -
  note pb = pool_bit_set_page_bit [OF assms]
  have "{m. m < pool_pages pl \<and> pool_bit (set_page_bit True n pl) m} = insert n {m. m < pool_pages pl \<and> pool_bit pl m}"
    using assms(2) pb [of _ True] by (auto split: if_splits)
  then show "used (set_page_bit True n pl) = insert (pool_page pl n) (used pl)"
    by (simp add: used_def)
  have "{m. m < pool_pages pl \<and> pool_bit (set_page_bit False n pl) m} = {m. m < pool_pages pl \<and> pool_bit pl m} - {n}"
    using pb [of _ False] by (auto split: if_splits)
  moreover have "inj_on (pool_page pl) {m. m < pool_pages pl}"
    using pool_page_inj [OF assms(1)] by (auto intro: inj_onI)
  ultimately show "used (set_page_bit False n pl) = used pl - {pool_page pl n}"
    using assms(2) unfolding used_def
    by (simp, subst inj_on_image_set_diff [where C = "{m. m < pool_pages pl}"]) auto
qed

lemma nfree_set_page_bit:
  assumes "pool_ok pl" "n < pool_pages pl"
  shows "\<not> pool_bit pl n \<Longrightarrow> Suc (nfree (set_page_bit True n pl)) = nfree pl"
    and "pool_bit pl n \<Longrightarrow> nfree (set_page_bit False n pl) = Suc (nfree pl)"
proof -
  show "Suc (nfree (set_page_bit True n pl)) = nfree pl" if nb: "\<not> pool_bit pl n"
  proof -
    have "{m. m < pool_pages pl \<and> \<not> pool_bit (set_page_bit True n pl) m} =
        {m. m < pool_pages pl \<and> \<not> pool_bit pl m} - {n}"
      using assms by (auto simp: pool_bit_set_page_bit split: if_splits)
    moreover have "n \<in> {m. m < pool_pages pl \<and> \<not> pool_bit pl m}" using assms nb by simp
    moreover have "finite {m. m < pool_pages pl \<and> \<not> pool_bit pl m}" by simp
    ultimately show ?thesis unfolding nfree_def set_page_bit_simps by (metis card_Suc_Diff1)
  qed
  show "nfree (set_page_bit False n pl) = Suc (nfree pl)" if "pool_bit pl n"
  proof -
    have "{m. m < pool_pages pl \<and> \<not> pool_bit (set_page_bit False n pl) m} =
        insert n {m. m < pool_pages pl \<and> \<not> pool_bit pl m}"
      using assms by (auto simp: pool_bit_set_page_bit split: if_splits)
    then show ?thesis using that by (simp add: nfree_def)
  qed
qed

text \<open>The scan visits every word of the bitmap once, starting at the hint.\<close>

lemma alloc_scan_Some:
  "alloc_scan pl j = Some idx \<Longrightarrow> 0 < bitmap_size pl \<Longrightarrow> idx < bitmap_size pl \<and> bitmap pl ! idx \<noteq> NOT 0"
proof (induction pl j rule: alloc_scan.induct)
  case (1 pl j)
  then show ?case by (subst (asm) (2) alloc_scan.simps) (auto simp: Let_def split: if_splits)
qed

lemma alloc_scan_None:
  "alloc_scan pl j = None \<Longrightarrow> j \<le> i \<Longrightarrow> i < last_hint_id pl + bitmap_size pl \<Longrightarrow>
   bitmap pl ! (i mod bitmap_size pl) = NOT 0"
proof (induction pl j rule: alloc_scan.induct)
  case (1 pl j)
  from 1(2-4) have j: "j < last_hint_id pl + bitmap_size pl" by simp
  with 1(2) have w: "bitmap pl ! (j mod bitmap_size pl) = NOT 0" and n: "alloc_scan pl (j + 1) = None"
    by (subst (asm) alloc_scan.simps, simp add: Let_def split: if_splits)+
  show ?case
  proof (cases "i = j")
    case True
    then show ?thesis using w by simp
  next
    case False
    then show ?thesis using 1(1) [OF j refl _ n] w 1(3,4) by simp
  qed
qed

lemma alloc_scan_full:
  assumes "alloc_scan pl (last_hint_id pl) = None" "pool_ok pl" "w < bitmap_size pl"
  shows "bitmap pl ! w = NOT 0"
proof (cases "w < last_hint_id pl")
  case True
  then show ?thesis
    using alloc_scan_None [OF assms(1), of "w + bitmap_size pl"] assms(2,3) by (simp add: pool_ok_def)
next
  case False
  then show ?thesis using alloc_scan_None [OF assms(1), of w] assms(3) by simp
qed

lemma full_nfree:
  assumes "\<And>w. w < bitmap_size pl \<Longrightarrow> bitmap pl ! w = NOT 0"
  shows "nfree pl = 0"
proof -
  have "pool_bit pl n" if "n < pool_pages pl" for n
    using that assms [of "n div 64"]
    by (simp add: pool_bit_def pool_pages_def div_less_iff_less_mult mult.commute bit_simps)
  then have "{n. n < pool_pages pl \<and> \<not> pool_bit pl n} = {}" by auto
  then show ?thesis by (simp add: nfree_def)
qed

lemma alloc_found:
  assumes ok: "pool_ok pl" and idx: "idx < bitmap_size pl" "bitmap pl ! idx \<noteq> NOT 0"
  defines "b \<equiv> ffz64 (bitmap pl ! idx)" and "n \<equiv> 64 * idx + unat (ffz64 (bitmap pl ! idx))"
  shows "n < pool_pages pl" "\<not> pool_bit pl n"
    "start_page pl + PAGE_SIZE * of_nat (push_bit 6 idx + unat b) = pool_page pl n"
    "pl\<lparr>bitmap := (bitmap pl)[idx := bitmap_set_non_atomic (ucast b) (bitmap pl ! idx)], last_hint_id := idx\<rparr> =
       (set_page_bit True n pl)\<lparr>last_hint_id := idx\<rparr>"
proof -
  have b: "unat b < 64" and nb: "\<not> bit (bitmap pl ! idx) (unat b)"
    using ffz64_props [of "bitmap pl ! idx"] idx(2) by (simp_all add: b_def)
  have dm: "n div 64 = idx" "n mod 64 = unat b" using b by (simp_all add: n_def b_def)
  show "n < pool_pages pl" using b idx(1) by (simp add: n_def b_def pool_pages_def)
  show "\<not> pool_bit pl n" using nb by (simp add: pool_bit_def dm)
  show "start_page pl + PAGE_SIZE * of_nat (push_bit 6 idx + unat b) = pool_page pl n"
    by (simp add: pool_page_def n_def b_def push_bit_eq_mult mult.commute)
  have "(ucast b :: u32) = of_nat (n mod 64)" using dm by (simp add: word_unat_eq_iff unat_ucast_up unsigned_of_nat take_bit_nat_eq_self)
  then show "pl\<lparr>bitmap := (bitmap pl)[idx := bitmap_set_non_atomic (ucast b) (bitmap pl ! idx)], last_hint_id := idx\<rparr> =
       (set_page_bit True n pl)\<lparr>last_hint_id := idx\<rparr>"
    by (simp add: set_page_bit_def dm)
qed

definition same_pool :: "page_pool \<Rightarrow> page_pool \<Rightarrow> bool" where
  "same_pool a b \<longleftrightarrow> start_page a = start_page b \<and> bitmap_size a = bitmap_size b"

lemma same_pool_region: "same_pool a b \<Longrightarrow> region a = region b"
  by (simp add: same_pool_def region_def pool_page_def pool_pages_def image_def)

lemma same_pool_trans: "same_pool a b \<Longrightarrow> same_pool b c \<Longrightarrow> same_pool a c"
  and same_pool_refl [simp]: "same_pool a a"
  by (simp_all add: same_pool_def)

lemma hint_simps:
  "j < bitmap_size pl \<Longrightarrow> pool_ok pl \<Longrightarrow> pool_ok (pl\<lparr>last_hint_id := j\<rparr>)"
  "used (pl\<lparr>last_hint_id := j\<rparr>) = used pl" "nfree (pl\<lparr>last_hint_id := j\<rparr>) = nfree pl"
  by (simp_all add: pool_ok_def used_def nfree_def pool_pages_def pool_bit_def pool_page_def)

text \<open>
  A page is handed out exactly when one is free; it is one that was not in use, it is in use from
  then on, and all its 512 entries are the sanitized entry.
\<close>

lemma alloc_page_free:
  assumes ok: "pool_ok (pool s)" and free: "0 < nfree (pool s)"
  obtains pg s' where "alloc_page s = Some (pg, s')" "pg \<in> region (pool s)" "pg \<notin> used (pool s)"
    "used (pool s') = insert pg (used (pool s))" "Suc (nfree (pool s')) = nfree (pool s)"
    "pool_ok (pool s')" "same_pool (pool s) (pool s')" "sanitized_page_hpa s' = sanitized_page_hpa s"
    "\<And>i. i < 512 \<Longrightarrow> cell s' pg i = sanitized_page_hpa s" "\<And>q. q \<noteq> pg \<Longrightarrow> cell s' q = cell s q"
proof -
  let ?pl = "pool s"
  obtain idx where scan: "alloc_scan ?pl (last_hint_id ?pl) = Some idx"
    using alloc_scan_full [OF _ ok] full_nfree [of ?pl] free by fastforce
  have i: "idx < bitmap_size ?pl" "bitmap ?pl ! idx \<noteq> NOT 0"
    using alloc_scan_Some [OF scan] ok by (auto simp: pool_ok_def)
  let ?n = "64 * idx + unat (ffz64 (bitmap ?pl ! idx))"
  note f = alloc_found [OF ok i]
  let ?pl' = "(set_page_bit True ?n ?pl)\<lparr>last_hint_id := idx\<rparr>"
  have reg: "pool_page ?pl ?n \<in> region ?pl" using f(1) by (simp add: region_def)
  show thesis
  proof
    show "alloc_page s = Some (pool_page ?pl ?n, sanitize_pte (pool_page ?pl ?n) (s\<lparr>pool := ?pl'\<rparr>))"
      using f region_page(1) [OF ok reg] by (simp add: alloc_page_def scan Let_def)
  qed (use f reg ok i(1) in \<open>simp_all add: used_iff used_set_page_bit nfree_set_page_bit hint_simps same_pool_def\<close>)
qed

lemma alloc_page_full:
  assumes ok: "pool_ok (pool s)" and full: "nfree (pool s) = 0"
  shows "alloc_page s = None"
proof (cases "alloc_scan (pool s) (last_hint_id (pool s))")
  case None
  then show ?thesis using ok by (simp add: alloc_page_def pool_ok_def)
next
  case (Some idx)
  then have "idx < bitmap_size (pool s)" "bitmap (pool s) ! idx \<noteq> NOT 0"
    using alloc_scan_Some [OF Some] ok by (auto simp: pool_ok_def)
  then have "{n. n < pool_pages (pool s) \<and> \<not> pool_bit (pool s) n} \<noteq> {}"
    using alloc_found(1,2) [OF ok] by blast
  moreover have "finite {n. n < pool_pages (pool s) \<and> \<not> pool_bit (pool s) n}" by simp
  ultimately have "nfree (pool s) \<noteq> 0" unfolding nfree_def by (metis card_eq_0_iff)
  then show ?thesis using full by contradiction
qed

lemma alloc_pageD:
  assumes ok: "pool_ok (pool s)" and al: "alloc_page s = Some (pg, s')"
  shows "pg \<in> region (pool s)" "pg \<notin> used (pool s)"
    "used (pool s') = insert pg (used (pool s))" "Suc (nfree (pool s')) = nfree (pool s)"
    "pool_ok (pool s')" "same_pool (pool s) (pool s')" "sanitized_page_hpa s' = sanitized_page_hpa s"
    "i < 512 \<Longrightarrow> cell s' pg i = sanitized_page_hpa s" "q \<noteq> pg \<Longrightarrow> cell s' q = cell s q"
proof -
  have "0 < nfree (pool s)" using al alloc_page_full [OF ok] by fastforce
  from alloc_page_free [OF ok this]
  have "pg \<in> region (pool s) \<and> pg \<notin> used (pool s) \<and> used (pool s') = insert pg (used (pool s)) \<and>
      Suc (nfree (pool s')) = nfree (pool s) \<and> pool_ok (pool s') \<and> same_pool (pool s) (pool s') \<and>
      sanitized_page_hpa s' = sanitized_page_hpa s \<and> (i < 512 \<longrightarrow> cell s' pg i = sanitized_page_hpa s) \<and>
      (q \<noteq> pg \<longrightarrow> cell s' q = cell s q)"
    using al by (metis option.inject prod.inject)
  then show "pg \<in> region (pool s)" "pg \<notin> used (pool s)"
    "used (pool s') = insert pg (used (pool s))" "Suc (nfree (pool s')) = nfree (pool s)"
    "pool_ok (pool s')" "same_pool (pool s) (pool s')" "sanitized_page_hpa s' = sanitized_page_hpa s"
    "i < 512 \<Longrightarrow> cell s' pg i = sanitized_page_hpa s" "q \<noteq> pg \<Longrightarrow> cell s' q = cell s q"
    by blast+
qed

lemma free_page_eq:
  assumes "pool_ok (pool s)" "n < pool_pages (pool s)"
  shows "free_page (pool_page (pool s) n) s = s\<lparr>pool := set_page_bit False n (pool s)\<rparr>"
proof -
  have "pool_page (pool s) n - start_page (pool s) = PAGE_SIZE * of_nat n" by (simp add: pool_page_def)
  moreover have "unat (PAGE_SIZE * of_nat n :: u64) = lsz 0 * n"
  proof -
    have b: "lsz 0 * n < 2 ^ 48" using pool_bound [OF assms] by linarith
    then have "unat (of_nat n :: u64) = n" by (intro unat_less_48) (simp add: lsz_0)
    then show ?thesis using b by (subst unat_mult_nowrap; simp only: unat_page_size; simp)
  qed
  ultimately have "unat (pool_page (pool s) n - start_page (pool s)) div unat PAGE_SIZE = n"
    by (simp add: unat_page_size)
  moreover have "n AND 63 = n mod 64"
    using take_bit_eq_mask [of 6 n] take_bit_eq_mod [of 6 n] by (simp add: mask_eq_exp_minus_1)
  ultimately show ?thesis
    by (simp add: free_page_def Let_def set_page_bit_def drop_bit_eq_div)
qed

lemma free_page_used:
  assumes ok: "pool_ok (pool s)" and pg: "pg \<in> used (pool s)"
  shows "used (pool (free_page pg s)) = used (pool s) - {pg}" "nfree (pool (free_page pg s)) = Suc (nfree (pool s))"
    "pool_ok (pool (free_page pg s))" "same_pool (pool s) (pool (free_page pg s))"
    "sanitized_page_hpa (free_page pg s) = sanitized_page_hpa s" "cell (free_page pg s) = cell s"
proof -
  obtain n where n: "n < pool_pages (pool s)" "pool_bit (pool s) n" "pg = pool_page (pool s) n"
    using pg by (auto simp: used_def)
  note e = free_page_eq [OF ok n(1)]
  show "used (pool (free_page pg s)) = used (pool s) - {pg}" "nfree (pool (free_page pg s)) = Suc (nfree (pool s))"
    "pool_ok (pool (free_page pg s))" "same_pool (pool s) (pool (free_page pg s))"
    "sanitized_page_hpa (free_page pg s) = sanitized_page_hpa s" "cell (free_page pg s) = cell s"
    using ok n by (simp_all add: e used_set_page_bit nfree_set_page_bit same_pool_def)
qed

text \<open>A pool that has just been set up has every page free.\<close>

lemma init_page_pool_ok:
  assumes "page_base \<noteq> 0" "unat page_base mod lsz 0 = 0" "unat page_base + lsz 0 * (64 * n) \<le> 2 ^ 48"
    "0 < n" "last_hint_id pl = 0"
  defines "pl' \<equiv> init_page_pool page_base (64 * n) pl"
  shows "pool_ok pl'" "used pl' = {}" "nfree pl' = 64 * n"
proof -
  have pl': "pl' = pl\<lparr>start_page := page_base, bitmap_size := n, dummy_page := 0, bitmap := replicate n 0\<rparr>"
    by (simp add: pl'_def init_page_pool_def)
  show "pool_ok pl'" using assms(1-5) by (simp add: pl' pool_ok_def pool_pages_def)
  have b: "\<not> pool_bit pl' m" if "m < 64 * n" for m
    using that by (simp add: pl' pool_bit_def div_less_iff_less_mult mult.commute)
  have p: "pool_pages pl' = 64 * n" by (simp add: pl' pool_pages_def)
  show "used pl' = {}" using b p by (auto simp: used_def)
  have "{m. m < pool_pages pl' \<and> \<not> pool_bit pl' m} = {..<64 * n}" using b p by auto
  then show "nfree pl' = 64 * n" by (simp add: nfree_def)
qed

end
