(* ===== verification/Mmu.thy ===== *)
theory Mmu
  imports Page_Pool
begin

text \<open>
  The page-table walker of \<^verbatim>\<open>core/mmu.c\<close>: adding a mapping, modifying or deleting one, splitting a
  large page, freeing empty tables and looking an address up.  The architecture hooks are the
  record \<open>pgtable\<close>, passed as in the code.  A loop that may meet \<^verbatim>\<open>panic\<close> (the page pool is empty)
  returns an option.  The two outer loops, whose variable is an address, are partial functions:
  they do not return when that address stops advancing.
\<close>

section \<open>The page-table interface of \<^verbatim>\<open>include/common/mmu.h\<close>\<close>

datatype page_table_level = PGT_LVL3 | PGT_LVL2 | PGT_LVL1 | PGT_LVL0

primrec level_plus_1 :: "page_table_level \<Rightarrow> page_table_level" where
  "level_plus_1 PGT_LVL3 = PGT_LVL2"
| "level_plus_1 PGT_LVL2 = PGT_LVL1"
| "level_plus_1 PGT_LVL1 = PGT_LVL0"
| "level_plus_1 PGT_LVL0 = PGT_LVL0"

record pgtable =
  pgentry_present :: "u64 \<Rightarrow> u64"
  large_page_support :: "page_table_level \<Rightarrow> u64 \<Rightarrow> bool"
  set_pgentry :: "pte_ptr \<Rightarrow> u64 \<Rightarrow> u64 \<Rightarrow> page_table_level \<Rightarrow> bool \<Rightarrow> mm \<Rightarrow> mm"

primrec get_level_size :: "page_table_level \<Rightarrow> u64" where
  "get_level_size PGT_LVL3 = PGTL3_SIZE"
| "get_level_size PGT_LVL2 = PGTL2_SIZE"
| "get_level_size PGT_LVL1 = PGTL1_SIZE"
| "get_level_size PGT_LVL0 = PGTL0_SIZE"

definition make_pgentry :: "pte_ptr \<Rightarrow> u64 \<Rightarrow> u64 \<Rightarrow> mm \<Rightarrow> mm" where
  "make_pgentry pte page prot s = write_pte pte (prot OR paddr2pfn page) s"

definition MR_ADD :: u32 where "MR_ADD = 0"
definition MR_DEL :: u32 where "MR_DEL = 2"
definition MR_MODIFY :: u32 where "MR_MODIFY = 3"

section \<open>Freeing, splitting and changing entries\<close>

definition try_to_free_pgtable_page :: "pgtable \<Rightarrow> pte_ptr \<Rightarrow> u64 \<Rightarrow> u32 \<Rightarrow> mm \<Rightarrow> mm" where
  "try_to_free_pgtable_page table pgte pt_page type s =
     (if type = MR_DEL then
        case find (\<lambda>index. pgentry_present table (cell s pt_page index) \<noteq> 0) [0..<unat PTRS_PER_PGTL0E] of
          None \<Rightarrow> sanitize_pte_entry pgte (free_page pt_page s)
        | Some _ \<Rightarrow> s
      else s)"

definition split_large_page :: "pte_ptr \<Rightarrow> page_table_level \<Rightarrow> pgtable \<Rightarrow> mm \<Rightarrow> mm option" where
  "split_large_page pte level table s =
     (let paddrinc = get_level_size (level_plus_1 level);
          ref_paddr = get_pgentry pte s AND PFN_MASK;
          ref_prot = get_pgentry pte s AND NOT PFN_MASK;
          paddr = pfn2paddr ref_paddr
      in case alloc_page s of
           None \<Rightarrow> None
         | Some (pbase, s) \<Rightarrow>
             let (paddr, s) =
               fold (\<lambda>i (paddr, s).
                   (paddr + paddrinc, set_pgentry table (pbase, i) paddr ref_prot (level_plus_1 level) True s))
                 [0..<unat PTRS_PER_PGTL0E] (paddr, s)
             in Some (set_pgentry table pte (hva2hpa pbase) 0 level False s))"

definition local_modify_or_del_pte :: "pte_ptr \<Rightarrow> u64 \<Rightarrow> u64 \<Rightarrow> u32 \<Rightarrow> mm \<Rightarrow> mm" where
  "local_modify_or_del_pte pte prot_set prot_clr type s =
     (if type = MR_MODIFY then
        let new_pte = get_pgentry pte s; new_pte = new_pte AND NOT prot_clr; new_pte = new_pte OR prot_set
        in write_pte pte new_pte s
      else sanitize_pte_entry pte s)"

section \<open>Modify or delete\<close>

function modify_or_del_pgtl0_loop ::
  "u64 \<Rightarrow> nat \<Rightarrow> u64 \<Rightarrow> u64 \<Rightarrow> u64 \<Rightarrow> u64 \<Rightarrow> pgtable \<Rightarrow> u32 \<Rightarrow> mm \<Rightarrow> mm" where
  "modify_or_del_pgtl0_loop pgtl0_page index vaddr vaddr_end prot_set prot_clr table type s =
     (if index < unat PTRS_PER_PGTL0E then
        let s = (if pgentry_present table (cell s pgtl0_page index) = 0 then s
                 else local_modify_or_del_pte (pgtl0_page, index) prot_set prot_clr type s);
            vaddr = vaddr + PGTL0_SIZE
        in if vaddr \<ge> vaddr_end then s
           else modify_or_del_pgtl0_loop pgtl0_page (index + 1) vaddr vaddr_end prot_set prot_clr table type s
      else s)"
  by pat_completeness auto
termination
  by (relation "measure (\<lambda>(_, i, _). unat PTRS_PER_PGTL0E - i)") auto

definition modify_or_del_pgtl0 ::
  "pte_ptr \<Rightarrow> u64 \<Rightarrow> u64 \<Rightarrow> u64 \<Rightarrow> u64 \<Rightarrow> pgtable \<Rightarrow> u32 \<Rightarrow> mm \<Rightarrow> mm" where
  "modify_or_del_pgtl0 pgtl1e vaddr_start vaddr_end prot_set prot_clr table type s =
     (let pgtl0_page = page_addr (get_pgentry pgtl1e s);
          s = modify_or_del_pgtl0_loop pgtl0_page (unat (pgtl0e_index vaddr_start)) vaddr_start vaddr_end
                prot_set prot_clr table type s
      in try_to_free_pgtable_page table pgtl1e pgtl0_page type s)"

text \<open>The body of a loop for one entry; the loop itself moves on to \<open>vaddr_next\<close> or stops.\<close>

definition modify_or_del_pgtl1_entry ::
  "pte_ptr \<Rightarrow> u64 \<Rightarrow> u64 \<Rightarrow> u64 \<Rightarrow> u64 \<Rightarrow> u64 \<Rightarrow> pgtable \<Rightarrow> u32 \<Rightarrow> mm \<Rightarrow> mm option" where
  "modify_or_del_pgtl1_entry pgtl1e vaddr vaddr_next vaddr_end prot_set prot_clr table type s =
     (if pgentry_present table (get_pgentry pgtl1e s) = 0 then Some s
      else if is_pgtl_large (get_pgentry pgtl1e s) then
        if vaddr_next > vaddr_end \<or> \<not> mem_aligned_check vaddr PGTL1_SIZE then
          case split_large_page pgtl1e PGT_LVL1 table s of
            None \<Rightarrow> None
          | Some s \<Rightarrow> Some (modify_or_del_pgtl0 pgtl1e vaddr vaddr_end prot_set prot_clr table type s)
        else Some (local_modify_or_del_pte pgtl1e prot_set prot_clr type s)
      else Some (modify_or_del_pgtl0 pgtl1e vaddr vaddr_end prot_set prot_clr table type s))"

function modify_or_del_pgtl1_loop ::
  "u64 \<Rightarrow> nat \<Rightarrow> u64 \<Rightarrow> u64 \<Rightarrow> u64 \<Rightarrow> u64 \<Rightarrow> pgtable \<Rightarrow> u32 \<Rightarrow> mm \<Rightarrow> mm option" where
  "modify_or_del_pgtl1_loop pgtl1_page index vaddr vaddr_end prot_set prot_clr table type s =
     (if index < unat PTRS_PER_PGTL1E then
        let vaddr_next = (vaddr AND PGTL1_MASK) + PGTL1_SIZE in
        case modify_or_del_pgtl1_entry (pgtl1_page, index) vaddr vaddr_next vaddr_end prot_set prot_clr table type s of
          None \<Rightarrow> None
        | Some s \<Rightarrow>
            if vaddr_next \<ge> vaddr_end then Some s
            else modify_or_del_pgtl1_loop pgtl1_page (index + 1) vaddr_next vaddr_end prot_set prot_clr table type s
      else Some s)"
  by pat_completeness auto
termination
  by (relation "measure (\<lambda>(_, i, _). unat PTRS_PER_PGTL1E - i)") auto

definition modify_or_del_pgtl1 ::
  "pte_ptr \<Rightarrow> u64 \<Rightarrow> u64 \<Rightarrow> u64 \<Rightarrow> u64 \<Rightarrow> pgtable \<Rightarrow> u32 \<Rightarrow> mm \<Rightarrow> mm option" where
  "modify_or_del_pgtl1 pgtl2e vaddr_start vaddr_end prot_set prot_clr table type s =
     (let pgtl1_page = page_addr (get_pgentry pgtl2e s) in
      case modify_or_del_pgtl1_loop pgtl1_page (unat (pgtl1e_index vaddr_start)) vaddr_start vaddr_end
             prot_set prot_clr table type s of
        None \<Rightarrow> None
      | Some s \<Rightarrow> Some (try_to_free_pgtable_page table pgtl2e pgtl1_page type s))"

definition modify_or_del_pgtl2_entry ::
  "pte_ptr \<Rightarrow> u64 \<Rightarrow> u64 \<Rightarrow> u64 \<Rightarrow> u64 \<Rightarrow> u64 \<Rightarrow> pgtable \<Rightarrow> u32 \<Rightarrow> mm \<Rightarrow> mm option" where
  "modify_or_del_pgtl2_entry pgtl2e vaddr vaddr_next vaddr_end prot_set prot_clr table type s =
     (if pgentry_present table (get_pgentry pgtl2e s) = 0 then Some s
      else if is_pgtl_large (get_pgentry pgtl2e s) then
        if vaddr_next > vaddr_end \<or> \<not> mem_aligned_check vaddr PGTL2_SIZE then
          case split_large_page pgtl2e PGT_LVL2 table s of
            None \<Rightarrow> None
          | Some s \<Rightarrow> modify_or_del_pgtl1 pgtl2e vaddr vaddr_end prot_set prot_clr table type s
        else Some (local_modify_or_del_pte pgtl2e prot_set prot_clr type s)
      else modify_or_del_pgtl1 pgtl2e vaddr vaddr_end prot_set prot_clr table type s)"

function modify_or_del_pgtl2_loop ::
  "u64 \<Rightarrow> nat \<Rightarrow> u64 \<Rightarrow> u64 \<Rightarrow> u64 \<Rightarrow> u64 \<Rightarrow> pgtable \<Rightarrow> u32 \<Rightarrow> mm \<Rightarrow> mm option" where
  "modify_or_del_pgtl2_loop pgtl2_page index vaddr vaddr_end prot_set prot_clr table type s =
     (if index < unat PTRS_PER_PGTL2E then
        let vaddr_next = (vaddr AND PGTL2_MASK) + PGTL2_SIZE in
        case modify_or_del_pgtl2_entry (pgtl2_page, index) vaddr vaddr_next vaddr_end prot_set prot_clr table type s of
          None \<Rightarrow> None
        | Some s \<Rightarrow>
            if vaddr_next \<ge> vaddr_end then Some s
            else modify_or_del_pgtl2_loop pgtl2_page (index + 1) vaddr_next vaddr_end prot_set prot_clr table type s
      else Some s)"
  by pat_completeness auto
termination
  by (relation "measure (\<lambda>(_, i, _). unat PTRS_PER_PGTL2E - i)") auto

definition modify_or_del_pgtl2 ::
  "pte_ptr \<Rightarrow> u64 \<Rightarrow> u64 \<Rightarrow> u64 \<Rightarrow> u64 \<Rightarrow> pgtable \<Rightarrow> u32 \<Rightarrow> mm \<Rightarrow> mm option" where
  "modify_or_del_pgtl2 pgtl3e vaddr_start vaddr_end prot_set prot_clr table type s =
     (let pgtl2_page = page_addr (get_pgentry pgtl3e s) in
      modify_or_del_pgtl2_loop pgtl2_page (unat (pgtl2e_index vaddr_start)) vaddr_start vaddr_end
        prot_set prot_clr table type s)"

text \<open>
  The outer loop.  On a level-3 entry that is not present, \<open>MR_MODIFY\<close> meets an assertion; without
  it the address does not advance and the loop repeats the same turn.
\<close>

partial_function (option) modify_or_del_map_loop ::
  "u64 \<Rightarrow> u64 \<Rightarrow> u64 \<Rightarrow> u64 \<Rightarrow> u64 \<Rightarrow> pgtable \<Rightarrow> u32 \<Rightarrow> mm \<Rightarrow> mm option" where
  "modify_or_del_map_loop pgtl3_page vaddr vaddr_end prot_set prot_clr table type s =
     (if vaddr < vaddr_end then
        let vaddr_next = (vaddr AND PGTL3_MASK) + PGTL3_SIZE;
            pgtl3e = (pgtl3_page, unat (pgtl3e_index vaddr))
        in if pgentry_present table (get_pgentry pgtl3e s) = 0 \<and> type = MR_MODIFY then
             modify_or_del_map_loop pgtl3_page vaddr vaddr_end prot_set prot_clr table type s
           else
             Option.bind (modify_or_del_pgtl2 pgtl3e vaddr vaddr_end prot_set prot_clr table type s)
               (\<lambda>s. modify_or_del_map_loop pgtl3_page vaddr_next vaddr_end prot_set prot_clr table type s)
      else Some s)"

definition pgtable_modify_or_del_map ::
  "u64 \<Rightarrow> u64 \<Rightarrow> u64 \<Rightarrow> u64 \<Rightarrow> u64 \<Rightarrow> pgtable \<Rightarrow> u32 \<Rightarrow> mm \<Rightarrow> mm option" where
  "pgtable_modify_or_del_map pgtl3_page vaddr_base sz prot_set prot_clr table type s =
     (let vaddr = round_page_up vaddr_base; vaddr_end = vaddr + round_page_down sz in
      modify_or_del_map_loop pgtl3_page vaddr vaddr_end prot_set prot_clr table type s)"

section \<open>Add\<close>

function add_pgtl0_loop :: "u64 \<Rightarrow> nat \<Rightarrow> u64 \<Rightarrow> u64 \<Rightarrow> u64 \<Rightarrow> u64 \<Rightarrow> pgtable \<Rightarrow> mm \<Rightarrow> mm" where
  "add_pgtl0_loop pgtl0_page index paddr vaddr vaddr_end prot table s =
     (if index < unat PTRS_PER_PGTL0E then
        let s = (if pgentry_present table (cell s pgtl0_page index) \<noteq> 0 then s
                 else set_pgentry table (pgtl0_page, index) paddr prot PGT_LVL0 True s);
            paddr = paddr + PGTL0_SIZE;
            vaddr = vaddr + PGTL0_SIZE
        in if vaddr \<ge> vaddr_end then s
           else add_pgtl0_loop pgtl0_page (index + 1) paddr vaddr vaddr_end prot table s
      else s)"
  by pat_completeness auto
termination
  by (relation "measure (\<lambda>(_, i, _). unat PTRS_PER_PGTL0E - i)") auto

definition add_pgtl0 :: "pte_ptr \<Rightarrow> u64 \<Rightarrow> u64 \<Rightarrow> u64 \<Rightarrow> u64 \<Rightarrow> pgtable \<Rightarrow> mm \<Rightarrow> mm" where
  "add_pgtl0 pgtl1e paddr_start vaddr_start vaddr_end prot table s =
     add_pgtl0_loop (page_addr (get_pgentry pgtl1e s)) (unat (pgtl0e_index vaddr_start))
       paddr_start vaddr_start vaddr_end prot table s"

definition add_pgtl1_entry ::
  "pte_ptr \<Rightarrow> u64 \<Rightarrow> u64 \<Rightarrow> u64 \<Rightarrow> u64 \<Rightarrow> u64 \<Rightarrow> pgtable \<Rightarrow> mm \<Rightarrow> mm option" where
  "add_pgtl1_entry pgtl1e paddr vaddr vaddr_next vaddr_end prot table s =
     (if is_pgtl_large (get_pgentry pgtl1e s) then Some s
      else if pgentry_present table (get_pgentry pgtl1e s) = 0 then
        if large_page_support table PGT_LVL1 prot \<and> mem_aligned_check paddr PGTL1_SIZE \<and>
           mem_aligned_check vaddr PGTL1_SIZE \<and> vaddr_next \<le> vaddr_end then
          Some (set_pgentry table pgtl1e paddr prot PGT_LVL1 True s)
        else
          case alloc_page s of
            None \<Rightarrow> None
          | Some (pgtl0_page, s) \<Rightarrow>
              let s = set_pgentry table pgtl1e (hva2hpa pgtl0_page) 0 PGT_LVL1 False s
              in Some (add_pgtl0 pgtl1e paddr vaddr vaddr_end prot table s)
      else Some (add_pgtl0 pgtl1e paddr vaddr vaddr_end prot table s))"

function add_pgtl1_loop :: "u64 \<Rightarrow> nat \<Rightarrow> u64 \<Rightarrow> u64 \<Rightarrow> u64 \<Rightarrow> u64 \<Rightarrow> pgtable \<Rightarrow> mm \<Rightarrow> mm option" where
  "add_pgtl1_loop pgtl1_page index paddr vaddr vaddr_end prot table s =
     (if index < unat PTRS_PER_PGTL1E then
        let vaddr_next = (vaddr AND PGTL1_MASK) + PGTL1_SIZE in
        case add_pgtl1_entry (pgtl1_page, index) paddr vaddr vaddr_next vaddr_end prot table s of
          None \<Rightarrow> None
        | Some s \<Rightarrow>
            if vaddr_next \<ge> vaddr_end then Some s
            else add_pgtl1_loop pgtl1_page (index + 1) (paddr + (vaddr_next - vaddr)) vaddr_next vaddr_end prot table s
      else Some s)"
  by pat_completeness auto
termination
  by (relation "measure (\<lambda>(_, i, _). unat PTRS_PER_PGTL1E - i)") auto

definition add_pgtl1 :: "pte_ptr \<Rightarrow> u64 \<Rightarrow> u64 \<Rightarrow> u64 \<Rightarrow> u64 \<Rightarrow> pgtable \<Rightarrow> mm \<Rightarrow> mm option" where
  "add_pgtl1 pgtl2e paddr_start vaddr_start vaddr_end prot table s =
     add_pgtl1_loop (page_addr (get_pgentry pgtl2e s)) (unat (pgtl1e_index vaddr_start))
       paddr_start vaddr_start vaddr_end prot table s"

definition add_pgtl2_entry ::
  "pte_ptr \<Rightarrow> u64 \<Rightarrow> u64 \<Rightarrow> u64 \<Rightarrow> u64 \<Rightarrow> u64 \<Rightarrow> pgtable \<Rightarrow> mm \<Rightarrow> mm option" where
  "add_pgtl2_entry pgtl2e paddr vaddr vaddr_next vaddr_end prot table s =
     (if is_pgtl_large (get_pgentry pgtl2e s) then Some s
      else if pgentry_present table (get_pgentry pgtl2e s) = 0 then
        if large_page_support table PGT_LVL2 prot \<and> mem_aligned_check paddr PGTL2_SIZE \<and>
           mem_aligned_check vaddr PGTL2_SIZE \<and> vaddr_next \<le> vaddr_end then
          Some (set_pgentry table pgtl2e paddr prot PGT_LVL2 True s)
        else
          case alloc_page s of
            None \<Rightarrow> None
          | Some (pgtl1_page, s) \<Rightarrow>
              let s = set_pgentry table pgtl2e (hva2hpa pgtl1_page) 0 PGT_LVL2 False s
              in add_pgtl1 pgtl2e paddr vaddr vaddr_end prot table s
      else add_pgtl1 pgtl2e paddr vaddr vaddr_end prot table s)"

function add_pgtl2_loop :: "u64 \<Rightarrow> nat \<Rightarrow> u64 \<Rightarrow> u64 \<Rightarrow> u64 \<Rightarrow> u64 \<Rightarrow> pgtable \<Rightarrow> mm \<Rightarrow> mm option" where
  "add_pgtl2_loop pgtl2_page index paddr vaddr vaddr_end prot table s =
     (if index < unat PTRS_PER_PGTL2E then
        let vaddr_next = (vaddr AND PGTL2_MASK) + PGTL2_SIZE in
        case add_pgtl2_entry (pgtl2_page, index) paddr vaddr vaddr_next vaddr_end prot table s of
          None \<Rightarrow> None
        | Some s \<Rightarrow>
            if vaddr_next \<ge> vaddr_end then Some s
            else add_pgtl2_loop pgtl2_page (index + 1) (paddr + (vaddr_next - vaddr)) vaddr_next vaddr_end prot table s
      else Some s)"
  by pat_completeness auto
termination
  by (relation "measure (\<lambda>(_, i, _). unat PTRS_PER_PGTL2E - i)") auto

definition add_pgtl2 :: "pte_ptr \<Rightarrow> u64 \<Rightarrow> u64 \<Rightarrow> u64 \<Rightarrow> u64 \<Rightarrow> pgtable \<Rightarrow> mm \<Rightarrow> mm option" where
  "add_pgtl2 pgtl3e paddr_start vaddr_start vaddr_end prot table s =
     add_pgtl2_loop (page_addr (get_pgentry pgtl3e s)) (unat (pgtl2e_index vaddr_start))
       paddr_start vaddr_start vaddr_end prot table s"

definition add_map_entry :: "pte_ptr \<Rightarrow> u64 \<Rightarrow> u64 \<Rightarrow> u64 \<Rightarrow> u64 \<Rightarrow> pgtable \<Rightarrow> mm \<Rightarrow> mm option" where
  "add_map_entry pgtl3e paddr vaddr vaddr_end prot table s =
     (if pgentry_present table (get_pgentry pgtl3e s) = 0 then
        case alloc_page s of
          None \<Rightarrow> None
        | Some (pgtl2_page, s) \<Rightarrow>
            let s = set_pgentry table pgtl3e (hva2hpa pgtl2_page) 0 PGT_LVL3 False s
            in add_pgtl2 pgtl3e paddr vaddr vaddr_end prot table s
      else add_pgtl2 pgtl3e paddr vaddr vaddr_end prot table s)"

partial_function (option) add_map_loop ::
  "u64 \<Rightarrow> u64 \<Rightarrow> u64 \<Rightarrow> u64 \<Rightarrow> u64 \<Rightarrow> pgtable \<Rightarrow> mm \<Rightarrow> mm option" where
  "add_map_loop pgtl3_page paddr vaddr vaddr_end prot table s =
     (if vaddr < vaddr_end then
        let vaddr_next = (vaddr AND PGTL3_MASK) + PGTL3_SIZE;
            pgtl3e = (pgtl3_page, unat (pgtl3e_index vaddr))
        in Option.bind (add_map_entry pgtl3e paddr vaddr vaddr_end prot table s)
             (\<lambda>s. add_map_loop pgtl3_page (paddr + (vaddr_next - vaddr)) vaddr_next vaddr_end prot table s)
      else Some s)"

definition pgtable_add_map ::
  "u64 \<Rightarrow> u64 \<Rightarrow> u64 \<Rightarrow> u64 \<Rightarrow> u64 \<Rightarrow> pgtable \<Rightarrow> mm \<Rightarrow> mm option" where
  "pgtable_add_map pgtl3_page paddr_base vaddr_base sz prot table s =
     (let vaddr = round_page_up vaddr_base; paddr = round_page_up paddr_base;
          vaddr_end = vaddr + round_page_down sz
      in add_map_loop pgtl3_page paddr vaddr vaddr_end prot table s)"

definition pgtable_create_root :: "mm \<Rightarrow> (u64 \<times> mm) option" where
  "pgtable_create_root s = alloc_page s"

section \<open>Lookup\<close>

definition pgtl3e_offset :: "u64 \<Rightarrow> u64 \<Rightarrow> pte_ptr" where
  "pgtl3e_offset pgtl3_page addr = (pgtl3_page, unat (pgtl3e_index addr))"

definition pgtl2e_offset :: "pte_ptr \<Rightarrow> u64 \<Rightarrow> mm \<Rightarrow> pte_ptr" where
  "pgtl2e_offset pgtl3e addr s = (page_addr (get_pgentry pgtl3e s), unat (pgtl2e_index addr))"

definition pgtl1e_offset :: "pte_ptr \<Rightarrow> u64 \<Rightarrow> mm \<Rightarrow> pte_ptr" where
  "pgtl1e_offset pgtl2e addr s = (page_addr (get_pgentry pgtl2e s), unat (pgtl1e_index addr))"

definition pgtl0e_offset :: "pte_ptr \<Rightarrow> u64 \<Rightarrow> mm \<Rightarrow> pte_ptr" where
  "pgtl0e_offset pgtl1e addr s = (page_addr (get_pgentry pgtl1e s), unat (pgtl0e_index addr))"

definition pgtable_lookup_entry :: "u64 \<Rightarrow> u64 \<Rightarrow> pgtable \<Rightarrow> mm \<Rightarrow> (pte_ptr \<times> u64) option" where
  "pgtable_lookup_entry pgtl3_page addr table s =
     (let pgtl3e = pgtl3e_offset pgtl3_page addr in
      if pgentry_present table (get_pgentry pgtl3e s) = 0 then None
      else let pgtl2e = pgtl2e_offset pgtl3e addr s in
        if pgentry_present table (get_pgentry pgtl2e s) = 0 then None
        else if is_pgtl_large (get_pgentry pgtl2e s) then Some (pgtl2e, PGTL2_SIZE)
        else let pgtl1e = pgtl1e_offset pgtl2e addr s in
          if pgentry_present table (get_pgentry pgtl1e s) = 0 then None
          else if is_pgtl_large (get_pgentry pgtl1e s) then Some (pgtl1e, PGTL1_SIZE)
          else let pgtl0e = pgtl0e_offset pgtl1e addr s in
            if pgentry_present table (get_pgentry pgtl0e s) = 0 then None
            else Some (pgtl0e, PGTL0_SIZE))"

declare modify_or_del_pgtl0_loop.simps [simp del] modify_or_del_pgtl1_loop.simps [simp del]
  modify_or_del_pgtl2_loop.simps [simp del] add_pgtl0_loop.simps [simp del] add_pgtl1_loop.simps [simp del]
  add_pgtl2_loop.simps [simp del]

end
