(* ===== verification/Page_Walk.thy ===== *)
theory Page_Walk
  imports Mmu
begin

text \<open>
  What a page table means, and when it is well formed.  \<open>walk_slot k s e va\<close> is the translation of
  \<open>va\<close> by the entry \<open>e\<close> of a level-\<open>k\<close> table: the output address and the attributes of the leaf, if
  there is one.  \<open>slot_pages k s e\<close> is the set of table pages below the entry, and \<open>slot_wf\<close> says
  that these pages form a tree and that leaves are aligned.  \<open>slot_step\<close> and \<open>table_step\<close> are what
  every operation on an entry or on a table does to memory and to the pool: nothing outside its own
  pages changes, and the pages in use afterwards are exactly those of the rest and those now below
  it, so no page leaks and none is freed while it is still linked.  The locales \<open>slot_op\<close> and
  \<open>table_op\<close> are the contracts of such operations, and \<open>slot_loop\<close> shows once, for the eight loops
  of the walker, that a loop over entries that each satisfy the first satisfies the second.
\<close>

section \<open>Translation\<close>

definition pbase :: "u64 \<Rightarrow> nat" where "pbase e = unat (e AND PFN_MASK)"
definition attr :: "u64 \<Rightarrow> u64" where "attr e = e AND NOT PFN_MASK AND NOT 3"

type_synonym xlat = "(nat \<times> u64) option"

primrec walk_slot :: "nat \<Rightarrow> mm \<Rightarrow> u64 \<Rightarrow> nat \<Rightarrow> xlat" where
  "walk_slot 0 s e va = (if bit e 0 then Some (pbase e + va mod lsz 0, attr e) else None)"
| "walk_slot (Suc k) s e va =
     (if \<not> bit e 0 then None
      else if \<not> bit e 1 then Some (pbase e + va mod lsz (Suc k), attr e)
      else walk_slot k s (cell s (e AND PFN_MASK) (lidx k va)) va)"

definition walk_table :: "nat \<Rightarrow> mm \<Rightarrow> u64 \<Rightarrow> nat \<Rightarrow> xlat" where
  "walk_table k s pg va = walk_slot k s (cell s pg (lidx k va)) va"

section \<open>Footprint and well-formedness\<close>

primrec slot_pages :: "nat \<Rightarrow> mm \<Rightarrow> u64 \<Rightarrow> u64 set" where
  "slot_pages 0 s e = {}"
| "slot_pages (Suc k) s e =
     (if bit e 0 \<and> bit e 1 then
        insert (e AND PFN_MASK) (\<Union>i<512. slot_pages k s (cell s (e AND PFN_MASK) i))
      else {})"

definition table_pages :: "nat \<Rightarrow> mm \<Rightarrow> u64 \<Rightarrow> u64 set" where
  "table_pages k s pg = insert pg (\<Union>i<512. slot_pages k s (cell s pg i))"

definition tree :: "nat \<Rightarrow> mm \<Rightarrow> u64 \<Rightarrow> bool" where
  "tree k s pg \<longleftrightarrow> (\<forall>i<512. pg \<notin> slot_pages k s (cell s pg i)) \<and>
     (\<forall>i<512. \<forall>j<512. i \<noteq> j \<longrightarrow> slot_pages k s (cell s pg i) \<inter> slot_pages k s (cell s pg j) = {})"

text \<open>\<open>la\<close> completes the attributes of a leaf; those of an existing leaf are complete.\<close>

primrec slot_wf :: "(u64 \<Rightarrow> u64) \<Rightarrow> nat \<Rightarrow> mm \<Rightarrow> u64 \<Rightarrow> bool" where
  "slot_wf la 0 s e \<longleftrightarrow> (bit e 0 \<longrightarrow> bit e 1 \<and> la (attr e) = attr e)"
| "slot_wf la (Suc k) s e \<longleftrightarrow>
     (bit e 0 \<longrightarrow>
        (if bit e 1 then
           tree k s (e AND PFN_MASK) \<and> (\<forall>i<512. slot_wf la k s (cell s (e AND PFN_MASK) i))
         else Suc k \<le> 2 \<and> pbase e mod lsz (Suc k) = 0 \<and> la (attr e) = attr e))"

definition table_wf :: "(u64 \<Rightarrow> u64) \<Rightarrow> nat \<Rightarrow> mm \<Rightarrow> u64 \<Rightarrow> bool" where
  "table_wf la k s pg \<longleftrightarrow> tree k s pg \<and> (\<forall>i<512. slot_wf la k s (cell s pg i))"

definition is_table :: "u64 \<Rightarrow> bool" where "is_table e \<longleftrightarrow> bit e 0 \<and> bit e 1"

lemma walk_slot_table: "is_table e \<Longrightarrow> walk_slot (Suc k) s e va = walk_table k s (e AND PFN_MASK) va"
  and slot_pages_table: "is_table e \<Longrightarrow> slot_pages (Suc k) s e = table_pages k s (e AND PFN_MASK)"
  and slot_wf_table: "is_table e \<Longrightarrow> slot_wf la (Suc k) s e = table_wf la k s (e AND PFN_MASK)"
  by (simp_all add: is_table_def walk_table_def table_pages_def table_wf_def)

lemma absent_slot:
  "\<not> bit e 0 \<Longrightarrow> walk_slot k s e va = None" "\<not> bit e 0 \<Longrightarrow> slot_pages k s e = {}"
  "\<not> bit e 0 \<Longrightarrow> slot_wf la k s e"
  by (cases k; simp)+

lemma not_table_pages: "\<not> is_table e \<Longrightarrow> slot_pages k s e = {}"
  by (cases k) (auto simp: is_table_def)

text \<open>What is below an entry depends only on the pages below it.\<close>

lemma slot_frame:
  "(\<And>q. q \<in> slot_pages k s e \<Longrightarrow> cell s' q = cell s q) \<Longrightarrow>
   slot_pages k s' e = slot_pages k s e \<and> (\<forall>va. walk_slot k s' e va = walk_slot k s e va) \<and>
   slot_wf la k s' e = slot_wf la k s e"
proof (induction k arbitrary: e)
  case (Suc k)
  show ?case
  proof (cases "is_table e")
    case True
    let ?pg = "e AND PFN_MASK"
    have pg: "cell s' ?pg = cell s ?pg" using Suc.prems True by (simp add: is_table_def)
    have sub: "slot_pages k s' (cell s ?pg i) = slot_pages k s (cell s ?pg i) \<and>
        (\<forall>va. walk_slot k s' (cell s ?pg i) va = walk_slot k s (cell s ?pg i) va) \<and>
        slot_wf la k s' (cell s ?pg i) = slot_wf la k s (cell s ?pg i)" if "i < 512" for i
      using Suc.prems True that by (intro Suc.IH) (auto simp: is_table_def)
    have "tree k s' ?pg = tree k s ?pg" unfolding tree_def pg using sub by simp
    then show ?thesis using True sub pg by (simp add: is_table_def)
  qed (auto simp: is_table_def)
qed auto

lemmas slot_pages_frame = slot_frame [THEN conjunct1]
  and walk_slot_frame = slot_frame [THEN conjunct2, THEN conjunct1, rule_format]
  and slot_wf_frame = slot_frame [THEN conjunct2, THEN conjunct2]

declare walk_slot.simps(2) [simp del] slot_pages.simps(2) [simp del] slot_wf.simps(2) [simp del]

section \<open>Steps\<close>

definition mm_ok :: "mm \<Rightarrow> bool" where
  "mm_ok s \<longleftrightarrow> pool_ok (pool s) \<and> \<not> bit (sanitized_page_hpa s) 0"

definition env_step :: "mm \<Rightarrow> mm \<Rightarrow> bool" where
  "env_step s s' \<longleftrightarrow> mm_ok s' \<and> same_pool (pool s) (pool s') \<and>
     sanitized_page_hpa s' = sanitized_page_hpa s \<and> (\<forall>q. q \<notin> region (pool s) \<longrightarrow> cell s' q = cell s q)"

definition tbl :: "(u64 \<Rightarrow> u64) \<Rightarrow> nat \<Rightarrow> mm \<Rightarrow> u64 \<Rightarrow> bool" where
  "tbl la k s pg \<longleftrightarrow> mm_ok s \<and> table_wf la k s pg \<and> table_pages k s pg \<subseteq> used (pool s)"

definition slot_step :: "(u64 \<Rightarrow> u64) \<Rightarrow> nat \<Rightarrow> u64 \<Rightarrow> nat \<Rightarrow> mm \<Rightarrow> mm \<Rightarrow> bool" where
  "slot_step la k pg i s s' \<longleftrightarrow>
     (let below = slot_pages k s (cell s pg i); below' = slot_pages k s' (cell s' pg i);
          rest = used (pool s) - below
      in env_step s s' \<and> (\<forall>j. j \<noteq> i \<longrightarrow> cell s' pg j = cell s pg j) \<and>
         (\<forall>q\<in>rest - {pg}. cell s' q = cell s q) \<and> used (pool s') = rest \<union> below' \<and> rest \<inter> below' = {} \<and>
         slot_wf la k s' (cell s' pg i))"

definition table_step :: "(u64 \<Rightarrow> u64) \<Rightarrow> nat \<Rightarrow> u64 \<Rightarrow> mm \<Rightarrow> mm \<Rightarrow> bool" where
  "table_step la k pg s s' \<longleftrightarrow>
     (let rest = used (pool s) - table_pages k s pg
      in env_step s s' \<and> (\<forall>q\<in>rest. cell s' q = cell s q) \<and>
         used (pool s') = rest \<union> table_pages k s' pg \<and> rest \<inter> table_pages k s' pg = {} \<and>
         table_wf la k s' pg)"

lemma env_step_trans: "env_step s t \<Longrightarrow> env_step t u \<Longrightarrow> env_step s u"
  by (auto simp: env_step_def same_pool_region dest: same_pool_trans)

lemma env_step_refl: "mm_ok s \<Longrightarrow> env_step s s"
  by (simp add: env_step_def)

lemma table_step_tbl: "table_step la k pg s s' \<Longrightarrow> tbl la k s' pg"
  by (auto simp: table_step_def tbl_def env_step_def Let_def)

lemma table_step_refl: "tbl la k s pg \<Longrightarrow> table_step la k pg s s"
  by (auto simp: table_step_def tbl_def env_step_refl Let_def)

lemma table_step_trans:
  assumes "table_step la k pg s t" "table_step la k pg t u"
  shows "table_step la k pg s u"
proof -
  let ?r = "used (pool s) - table_pages k s pg"
  have r: "used (pool t) - table_pages k t pg = ?r"
    using assms(1) unfolding table_step_def Let_def by blast
  show ?thesis
    using assms r env_step_trans unfolding table_step_def Let_def by (metis (no_types, lifting))
qed

lemma slot_step_refl: "tbl la k s pg \<Longrightarrow> i < 512 \<Longrightarrow> slot_step la k pg i s s"
  by (auto simp: slot_step_def tbl_def table_wf_def table_pages_def env_step_refl Let_def)

text \<open>A step of one entry is a step of its table, and it changes only the addresses of the entry.\<close>

lemma slot_step_table:
  assumes t: "tbl la k s pg" and st: "slot_step la k pg i s s'" and i: "i < 512"
  shows "table_step la k pg s s'"
    and "walk_table k s' pg va = (if lidx k va = i then walk_slot k s' (cell s' pg i) va else walk_table k s pg va)"
proof -
  let ?b = "slot_pages k s (cell s pg i)" and ?b' = "slot_pages k s' (cell s' pg i)"
  let ?sp = "\<lambda>j. slot_pages k s (cell s pg j)"
  from st have env: "env_step s s'" and oth: "\<And>j. j \<noteq> i \<Longrightarrow> cell s' pg j = cell s pg j"
    and fr: "\<And>q. q \<in> used (pool s) \<Longrightarrow> q \<notin> ?b \<Longrightarrow> q \<noteq> pg \<Longrightarrow> cell s' q = cell s q"
    and us: "used (pool s') = (used (pool s) - ?b) \<union> ?b'" and dis: "(used (pool s) - ?b) \<inter> ?b' = {}"
    and wf: "slot_wf la k s' (cell s' pg i)"
    by (auto simp: slot_step_def Let_def)
  from t have tr: "tree k s pg" and sub: "\<And>j. j < 512 \<Longrightarrow> ?sp j \<subseteq> used (pool s)" and pg: "pg \<in> used (pool s)"
    and wfj: "\<And>j. j < 512 \<Longrightarrow> slot_wf la k s (cell s pg j)"
    by (auto simp: tbl_def table_wf_def table_pages_def)
  have dj: "?sp j \<inter> ?b = {}" "pg \<notin> ?sp j" if "j < 512" "j \<noteq> i" for j
    using tr that i by (auto simp: tree_def)
  have pgb: "pg \<notin> ?b" using tr i by (auto simp: tree_def)
  have eqj: "cell s' q = cell s q" if "j < 512" "j \<noteq> i" "q \<in> ?sp j" for j q
    using fr [of q] that sub [of j] dj [of j] by blast
  have frame: "slot_pages k s' (cell s pg j) = ?sp j \<and>
      (\<forall>va. walk_slot k s' (cell s pg j) va = walk_slot k s (cell s pg j) va) \<and>
      slot_wf la k s' (cell s pg j) = slot_wf la k s (cell s pg j)" if "j < 512" "j \<noteq> i" for j
    using eqj [OF that] by (rule slot_frame)
  have spj: "slot_pages k s' (cell s' pg j) = ?sp j" if "j < 512" "j \<noteq> i" for j
    using frame [OF that] oth that by simp
  have tp': "table_pages k s' pg = insert pg (?b' \<union> (\<Union>j\<in>{..<512} - {i}. ?sp j))"
    using spj i by (auto simp: table_pages_def)
  have tp: "table_pages k s pg = insert pg (?b \<union> (\<Union>j\<in>{..<512} - {i}. ?sp j))"
    using i by (auto simp: table_pages_def)
  have sib: "(\<Union>j\<in>{..<512} - {i}. ?sp j) \<subseteq> used (pool s) - ?b" using sub dj by blast
  have pgb': "pg \<notin> ?b'" using dis pg pgb by blast
  have "tree k s' pg"
    unfolding tree_def
  proof (intro conjI allI impI)
    fix j assume j: "j < (512 :: nat)"
    show "pg \<notin> slot_pages k s' (cell s' pg j)" using pgb' spj [OF j] dj(2) [OF j] by (cases "j = i") auto
  next
    fix j l assume jl: "j < (512 :: nat)" "l < (512 :: nat)" "j \<noteq> l"
    have "?sp j \<inter> ?sp l = {}" using tr jl by (simp add: tree_def)
    moreover have "?b' \<inter> ?sp m = {}" if "m < 512" "m \<noteq> i" for m using dis sub [OF that(1)] dj(1) [OF that] by blast
    ultimately show "slot_pages k s' (cell s' pg j) \<inter> slot_pages k s' (cell s' pg l) = {}"
      using jl spj by (cases "j = i"; cases "l = i") (auto simp: Int_commute)
  qed
  moreover have "slot_wf la k s' (cell s' pg j)" if "j < 512" for j
    using frame [OF that] oth wfj [OF that] wf by (cases "j = i") simp_all
  ultimately have twf: "table_wf la k s' pg" by (simp add: table_wf_def)
  show "table_step la k pg s s'"
    unfolding table_step_def Let_def
  proof (intro conjI ballI)
    show "used (pool s') = used (pool s) - table_pages k s pg \<union> table_pages k s' pg"
      unfolding us tp tp' using sib pg pgb by blast
    show "(used (pool s) - table_pages k s pg) \<inter> table_pages k s' pg = {}"
      unfolding tp tp' using dis by blast
  qed (use env twf fr tp in auto)
  show "walk_table k s' pg va = (if lidx k va = i then walk_slot k s' (cell s' pg i) va else walk_table k s pg va)"
    using frame [of "lidx k va"] oth by (auto simp: walk_table_def)
qed

text \<open>A step of a table is a step of the entry that points to it.\<close>

lemma table_step_slot:
  assumes t: "tbl la (Suc k) s pg" and i: "i < 512" and e: "is_table (cell s pg i)"
    and st: "table_step la k (cell s pg i AND PFN_MASK) s s'"
  shows "slot_step la (Suc k) pg i s s'" and "cell s' pg = cell s pg"
proof -
  have pg: "pg \<in> used (pool s)" "pg \<notin> slot_pages (Suc k) s (cell s pg i)"
    using t i by (auto simp: tbl_def table_wf_def table_pages_def tree_def)
  then show c: "cell s' pg = cell s pg"
    using st e by (auto simp: table_step_def Let_def slot_pages_table)
  show "slot_step la (Suc k) pg i s s'"
    using st e c
    by (simp add: slot_step_def table_step_def Let_def slot_pages_table slot_wf_table)
qed

lemma tbl_child:
  assumes "tbl la (Suc k) s pg" "i < 512" "is_table (cell s pg i)"
  shows "tbl la k s (cell s pg i AND PFN_MASK)"
proof -
  have w: "slot_wf la (Suc k) s (cell s pg i)"
    using assms(1,2) unfolding tbl_def table_wf_def by (elim conjE allE [where x = i] impE)
  have "slot_pages (Suc k) s (cell s pg i) \<subseteq> table_pages (Suc k) s pg"
    unfolding table_pages_def using assms(2) by blast
  then have p: "slot_pages (Suc k) s (cell s pg i) \<subseteq> used (pool s)"
    using assms(1) unfolding tbl_def by (elim conjE) (rule subset_trans)
  show ?thesis
    unfolding tbl_def using w p assms(1,3) slot_wf_table slot_pages_table tbl_def by metis
qed

lemma slot_step_trans:
  assumes "slot_step la k pg i s t" "slot_step la k pg i t u"
  shows "slot_step la k pg i s u"
proof -
  let ?r = "used (pool s) - slot_pages k s (cell s pg i)"
  have r: "used (pool t) - slot_pages k t (cell t pg i) = ?r"
    using assms(1) unfolding slot_step_def Let_def by blast
  from assms(1) have 1: "env_step s t" "\<And>j. j \<noteq> i \<Longrightarrow> cell t pg j = cell s pg j"
    "\<And>q. q \<in> ?r - {pg} \<Longrightarrow> cell t q = cell s q"
    unfolding slot_step_def Let_def by blast+
  from assms(2) have 2: "env_step t u" "\<And>j. j \<noteq> i \<Longrightarrow> cell u pg j = cell t pg j"
    "\<And>q. q \<in> ?r - {pg} \<Longrightarrow> cell u q = cell t q" "used (pool u) = ?r \<union> slot_pages k u (cell u pg i)"
    "?r \<inter> slot_pages k u (cell u pg i) = {}" "slot_wf la k u (cell u pg i)"
    unfolding slot_step_def Let_def r by blast+
  show ?thesis
    unfolding slot_step_def Let_def using 1(2,3) 2(2-) env_step_trans [OF 1(1) 2(1)] by simp
qed

section \<open>Contracts\<close>

text \<open>
  An upper bound on the table pages that a walk over \<open>[a, b)\<close> in a level-\<open>k\<close> table takes from the
  pool.  Where large entries can be used (\<open>w j\<close>), only the slots of level \<open>j\<close> that the range covers
  in part need a table, and there are at most two of them; elsewhere every slot may need one.
\<close>

definition part :: "nat \<Rightarrow> nat \<Rightarrow> nat \<Rightarrow> nat" where
  "part k a b =
     (if a div lsz k = (b - 1) div lsz k then (if a mod lsz k = 0 \<and> b mod lsz k = 0 then 0 else 1)
      else (if a mod lsz k = 0 then 0 else 1) + (if b mod lsz k = 0 then 0 else 1))"

lemma part_le_2: "part k a b \<le> 2"
  by (simp add: part_def)

lemma part_split:
  assumes "a < n" "n < b" "n mod lsz k = 0"
  shows "part k a b = part k a n + part k n b"
proof -
  note an = slot_multiple [OF assms(1,3)]
  have nb: "n div lsz k \<le> (b - 1) div lsz k" using assms(2) by (intro div_le_mono) simp
  have "part k a n = (if a mod lsz k = 0 then 0 else 1)"
    unfolding part_def using assms(3) by (simp only: simp_thms if_True add_0_right)
      (simp only: if_cancel split: if_split)
  moreover have "part k n b = (if b mod lsz k = 0 then 0 else 1)"
    unfolding part_def using assms(3) by (simp only: simp_thms if_True add_0_left)
      (simp only: if_cancel split: if_split)
  moreover have "a div lsz k \<noteq> (b - 1) div lsz k" using an nb by linarith
  ultimately show ?thesis unfolding part_def by (simp only: if_False)
qed

definition slot_cost :: "(nat \<Rightarrow> bool) \<Rightarrow> nat \<Rightarrow> nat \<Rightarrow> nat \<Rightarrow> nat" where
  "slot_cost w k a b = (if w k then part k a b else slots k a b)"

definition need :: "(nat \<Rightarrow> bool) \<Rightarrow> nat \<Rightarrow> nat \<Rightarrow> nat \<Rightarrow> nat" where
  "need w k a b = (\<Sum>j = 1..k. slot_cost w j a b)"

lemma need_0 [simp]: "need w 0 a b = 0"
  by (simp add: need_def)

lemma need_Suc: "need w (Suc k) a b = need w k a b + slot_cost w (Suc k) a b"
  by (simp add: need_def)

lemma need_split:
  assumes "a < n" "n < b" "n mod lsz k = 0"
  shows "need w k a b = need w k a n + need w k n b"
proof -
  have "slot_cost w j a b = slot_cost w j a n + slot_cost w j n b" if "j \<in> {1..k}" for j
  proof -
    have "n mod lsz j = 0" using that by (intro aligned_down [OF _ assms(3)]) simp
    then show ?thesis
      using slots_split [OF assms(1,2)] part_split [OF assms(1,2)] by (simp add: slot_cost_def)
  qed
  then have "need w k a b = (\<Sum>j = 1..k. slot_cost w j a n + slot_cost w j n b)"
    unfolding need_def by (intro sum.cong refl)
  then show ?thesis by (simp only: need_def sum.distrib)
qed

text \<open>
  The addresses from \<open>v\<close> that an operation starting at \<open>v\<close> changes, in a slot or table whose
  entries have size \<open>lsz k\<close>: \<open>f\<close> is what it does to the translation of one address.
\<close>

definition changed :: "nat \<Rightarrow> nat \<Rightarrow> nat \<Rightarrow> (nat \<Rightarrow> xlat \<Rightarrow> xlat) \<Rightarrow> (nat \<Rightarrow> xlat) \<Rightarrow> (nat \<Rightarrow> xlat) \<Rightarrow> bool" where
  "changed k v ve f x x' \<longleftrightarrow> (\<forall>va. va div lsz k = v div lsz k \<longrightarrow>
     x' va = (if v \<le> va \<and> va < ve then f va (x va) else x va))"

locale walk_range =
  fixes la :: "u64 \<Rightarrow> u64" and w :: "nat \<Rightarrow> bool" and k :: nat and ve :: nat and eff :: "nat \<Rightarrow> xlat \<Rightarrow> xlat"
    and ok :: "u64 \<Rightarrow> nat \<Rightarrow> mm \<Rightarrow> bool"
  assumes ok_range: "ok pg v s \<Longrightarrow> v < ve"

locale slot_op = walk_range +
  fixes op :: "u64 \<Rightarrow> nat \<Rightarrow> mm \<Rightarrow> mm option"
  assumes slot_sound: "ok pg v s \<Longrightarrow> tbl la k s pg \<Longrightarrow> op pg v s = Some s' \<Longrightarrow>
      slot_step la k pg (lidx k v) s s' \<and>
      changed k v ve eff (walk_table k s pg) (walk_slot k s' (cell s' pg (lidx k v)))"
    and slot_total: "ok pg v s \<Longrightarrow> tbl la k s pg \<Longrightarrow> need w k v (min (lnext k v) ve) \<le> nfree (pool s) \<Longrightarrow>
      \<exists>s'. op pg v s = Some s' \<and> nfree (pool s) \<le> nfree (pool s') + need w k v (min (lnext k v) ve)"
    and slot_keeps: "ok pg v s \<Longrightarrow> tbl la k s pg \<Longrightarrow> op pg v s = Some s' \<Longrightarrow>
      slot_step la k pg (lidx k v) s s' \<Longrightarrow> lnext k v < ve \<Longrightarrow> Suc (lidx k v) < 512 \<Longrightarrow> ok pg (lnext k v) s'"

locale table_op = walk_range +
  fixes op :: "u64 \<Rightarrow> nat \<Rightarrow> mm \<Rightarrow> mm option"
  assumes table_sound: "ok pg v s \<Longrightarrow> tbl la k s pg \<Longrightarrow> op pg v s = Some s' \<Longrightarrow>
      table_step la k pg s s' \<and> changed (Suc k) v ve eff (walk_table k s pg) (walk_table k s' pg)"
    and table_total: "ok pg v s \<Longrightarrow> tbl la k s pg \<Longrightarrow>
      need w k v (min (lnext (Suc k) v) ve) \<le> nfree (pool s) \<Longrightarrow>
      \<exists>s'. op pg v s = Some s' \<and> nfree (pool s) \<le> nfree (pool s') + need w k v (min (lnext (Suc k) v) ve)"

locale slot_loop = slot_op +
  fixes loop :: "u64 \<Rightarrow> nat \<Rightarrow> mm \<Rightarrow> mm option"
  assumes loop_eq: "ok pg v s \<Longrightarrow> loop pg v s =
      (case op pg v s of
         None \<Rightarrow> None
       | Some s' \<Rightarrow>
           if lnext k v < ve \<and> Suc (lidx k v) < 512 then loop pg (lnext k v) s' else Some s')"
begin

lemma changed_compose:
  assumes 1: "changed k v ve eff (walk_table k s pg) (walk_slot k s1 (cell s1 pg (lidx k v)))"
    and w: "\<And>va. walk_table k s1 pg va =
      (if lidx k va = lidx k v then walk_slot k s1 (cell s1 pg (lidx k v)) va else walk_table k s pg va)"
  shows "\<not> (lnext k v < ve \<and> Suc (lidx k v) < 512) \<Longrightarrow>
      changed (Suc k) v ve eff (walk_table k s pg) (walk_table k s1 pg)"
    and "Suc (lidx k v) < 512 \<Longrightarrow>
      changed (Suc k) (lnext k v) ve eff (walk_table k s1 pg) x' \<Longrightarrow>
      changed (Suc k) v ve eff (walk_table k s pg) x'"
proof -
  have in_slot: "walk_table k s1 pg va = (if v \<le> va \<and> va < ve then eff va (walk_table k s pg va) else walk_table k s pg va)"
    if "va div lsz k = v div lsz k" for va
    using 1 that w [of va] by (simp add: changed_def lidx_def)
  have off_slot: "walk_table k s1 pg va = walk_table k s pg va"
    if "va div lsz (Suc k) = v div lsz (Suc k)" "va div lsz k \<noteq> v div lsz k" for va
    using that w [of va] same_slot_iff [OF that(1)] by simp
  show "changed (Suc k) v ve eff (walk_table k s pg) (walk_table k s1 pg)"
    if last: "\<not> (lnext k v < ve \<and> Suc (lidx k v) < 512)"
    unfolding changed_def
  proof (intro allI impI)
    fix va assume va: "va div lsz (Suc k) = v div lsz (Suc k)"
    show "walk_table k s1 pg va = (if v \<le> va \<and> va < ve then eff va (walk_table k s pg va) else walk_table k s pg va)"
    proof (cases "va div lsz k = v div lsz k")
      case False
      have "\<not> (v \<le> va \<and> va < ve)"
      proof
        assume r: "v \<le> va \<and> va < ve"
        then have "lnext k v \<le> va" using in_slot_bounds(2) [of v va k] False by force
        moreover have "lnext k v = lnext (Suc k) v" if "\<not> Suc (lidx k v) < 512" using lnext_end_of_table [OF that] .
        moreover have "va < lnext (Suc k) v" using va by (rule in_slot_bounds)
        ultimately show False using last r by linarith
      qed
      then show ?thesis using off_slot [OF va False] by (simp only: if_False)
    qed (rule in_slot)
  qed
  show "changed (Suc k) v ve eff (walk_table k s pg) x'"
    if sm: "Suc (lidx k v) < 512" and c: "changed (Suc k) (lnext k v) ve eff (walk_table k s1 pg) x'"
    unfolding changed_def
  proof (intro allI impI)
    fix va assume va: "va div lsz (Suc k) = v div lsz (Suc k)"
    then have x: "x' va = (if lnext k v \<le> va \<and> va < ve then eff va (walk_table k s1 pg va) else walk_table k s1 pg va)"
      using c lnext_same_table [OF sm] by (simp add: changed_def)
    show "x' va = (if v \<le> va \<and> va < ve then eff va (walk_table k s pg va) else walk_table k s pg va)"
    proof (cases "va div lsz k = v div lsz k")
      case True
      then have "\<not> lnext k v \<le> va" using in_slot_bounds(1) [OF True] by simp
      then show ?thesis using x in_slot [OF True] by simp
    next
      case False
      have "lnext k v \<le> va \<longleftrightarrow> v \<le> va"
        using in_slot_bounds(2) [of v va k] False lnext_gt [of v k] by force
      then show ?thesis using x off_slot [OF va False] by simp
    qed
  qed
qed

lemma loop_cost:
  assumes "lnext k v < ve" "Suc (lidx k v) < 512"
  shows "need w k v (min (lnext (Suc k) v) ve) =
    need w k v (min (lnext k v) ve) + need w k (lnext k v) (min (lnext (Suc k) (lnext k v)) ve)"
proof -
  have n: "lnext (Suc k) (lnext k v) = lnext (Suc k) v"
    using lnext_same_table [OF assms(2)] by (simp add: lnext_def)
  have "lnext k v < lnext (Suc k) v" using lnext_gt [of "lnext k v" "Suc k"] n by simp
  then show ?thesis
    using need_split [of v "lnext k v" "min (lnext (Suc k) v) ve" k w] lnext_gt [of v k] assms(1) n by simp
qed

lemma loop_sound:
  assumes "ok pg v s" "tbl la k s pg" "loop pg v s = Some s'"
  shows "table_step la k pg s s' \<and> changed (Suc k) v ve eff (walk_table k s pg) (walk_table k s' pg)"
  using assms
proof (induction "512 - lidx k v" arbitrary: v s rule: less_induct)
  case less
  from less.prems obtain s1 where s1: "op pg v s = Some s1" by (auto simp: loop_eq split: option.splits)
  have st: "slot_step la k pg (lidx k v) s s1"
    and ch: "changed k v ve eff (walk_table k s pg) (walk_slot k s1 (cell s1 pg (lidx k v)))"
    using slot_sound [OF less.prems(1,2) s1] by blast+
  note ts = slot_step_table [OF less.prems(2) st lidx_less]
  show ?case
  proof (cases "lnext k v < ve \<and> Suc (lidx k v) < 512")
    case True
    then have l: "loop pg (lnext k v) s1 = Some s'"
      using less.prems s1 by (simp add: loop_eq [OF less.prems(1)])
    have "table_step la k pg s1 s' \<and> changed (Suc k) (lnext k v) ve eff (walk_table k s1 pg) (walk_table k s' pg)"
    proof (rule less.hyps)
      show "512 - lidx k (lnext k v) < 512 - lidx k v" using True lidx_lnext [of k v] by linarith
      show "ok pg (lnext k v) s1" using slot_keeps [OF less.prems(1,2) s1 st] True by simp
    qed (use l table_step_tbl [OF ts(1)] in auto)
    then show ?thesis
      using table_step_trans [OF ts(1)] changed_compose(2) [OF ch ts(2)] True by blast
  next
    case False
    then have "s' = s1" using less.prems s1 by (auto simp: loop_eq [OF less.prems(1)])
    then show ?thesis using ts(1) changed_compose(1) [OF ch ts(2) False] by simp
  qed
qed

lemma loop_total:
  assumes "ok pg v s" "tbl la k s pg" "need w k v (min (lnext (Suc k) v) ve) \<le> nfree (pool s)"
  shows "\<exists>s'. loop pg v s = Some s' \<and> nfree (pool s) \<le> nfree (pool s') + need w k v (min (lnext (Suc k) v) ve)"
  using assms
proof (induction "512 - lidx k v" arbitrary: v s rule: less_induct)
  case less
  have sm: "lnext k v \<le> lnext (Suc k) v"
    using lnext_same_table [of k v] lnext_gt [of "lnext k v" "Suc k"] lnext_end_of_table [of k v]
    by (cases "Suc (lidx k v) < 512") (simp_all add: lnext_def)
  have c: "need w k v (min (lnext k v) ve) \<le> need w k v (min (lnext (Suc k) v) ve)"
  proof (cases "lnext k v < ve \<and> Suc (lidx k v) < 512")
    case True
    then show ?thesis using loop_cost [of v] by simp
  next
    case False
    then have "min (lnext k v) ve = min (lnext (Suc k) v) ve" using sm lnext_end_of_table [of k v] by auto
    then show ?thesis by simp
  qed
  obtain s1 where s1: "op pg v s = Some s1" "nfree (pool s) \<le> nfree (pool s1) + need w k v (min (lnext k v) ve)"
    using slot_total [OF less.prems(1,2)] c less.prems(3) by (meson order_trans)
  have st: "slot_step la k pg (lidx k v) s s1" using slot_sound [OF less.prems(1,2) s1(1)] by blast
  show ?case
  proof (cases "lnext k v < ve \<and> Suc (lidx k v) < 512")
    case True
    let ?rest = "need w k (lnext k v) (min (lnext (Suc k) (lnext k v)) ve)"
    note sc = loop_cost [OF True [THEN conjunct1] True [THEN conjunct2]]
    have "\<exists>s'. loop pg (lnext k v) s1 = Some s' \<and> nfree (pool s1) \<le> nfree (pool s') + ?rest"
    proof (rule less.hyps)
      show "512 - lidx k (lnext k v) < 512 - lidx k v" using True lidx_lnext [of k v] by linarith
      show "ok pg (lnext k v) s1" using slot_keeps [OF less.prems(1,2) s1(1) st] True by simp
      show "tbl la k s1 pg" using table_step_tbl [OF slot_step_table(1) [OF less.prems(2) st lidx_less]] .
      show "?rest \<le> nfree (pool s1)" using less.prems(3) s1(2) sc by linarith
    qed
    then show ?thesis using s1 sc True by (auto simp: loop_eq [OF less.prems(1)])
  next
    case False
    then show ?thesis using s1 c by (auto simp: loop_eq [OF less.prems(1)] simp del: not_less)
  qed
qed

text \<open>What every entry operation preserves, the loop preserves.\<close>

lemma loop_keeps:
  assumes op: "\<And>v s s'. ok pg v s \<Longrightarrow> tbl la k s pg \<Longrightarrow> op pg v s = Some s' \<Longrightarrow> R s s'"
    and trans: "\<And>s t u. R s t \<Longrightarrow> R t u \<Longrightarrow> R s u"
    and "ok pg v s" "tbl la k s pg" "loop pg v s = Some s'"
  shows "R s s'"
  using assms(3-)
proof (induction "512 - lidx k v" arbitrary: v s rule: less_induct)
  case less
  from less.prems obtain s1 where s1: "op pg v s = Some s1" by (auto simp: loop_eq split: option.splits)
  have st: "slot_step la k pg (lidx k v) s s1" using slot_sound [OF less.prems(1,2) s1] by blast
  note R1 = op [OF less.prems(1,2) s1]
  show ?case
  proof (cases "lnext k v < ve \<and> Suc (lidx k v) < 512")
    case True
    have "R s1 s'"
    proof (rule less.hyps)
      show "512 - lidx k (lnext k v) < 512 - lidx k v" using True lidx_lnext [of k v] by linarith
      show "ok pg (lnext k v) s1" using slot_keeps [OF less.prems(1,2) s1 st] True by simp
      show "tbl la k s1 pg" using table_step_tbl [OF slot_step_table(1) [OF less.prems(2) st lidx_less]] .
      show "loop pg (lnext k v) s1 = Some s'" using less.prems(3) s1 True by (simp add: loop_eq [OF less.prems(1)])
    qed
    then show ?thesis by (rule trans [OF R1])
  next
    case False
    then show ?thesis using R1 less.prems(3) s1 by (auto simp: loop_eq [OF less.prems(1)])
  qed
qed

end

sublocale slot_loop < looped: table_op la w k ve eff ok loop
  by unfold_locales (use loop_sound loop_total in blast)+

end
