(* ===== verification/Mmu_Map.thy ===== *)
theory Mmu_Map
  imports Page_Walk
begin

text \<open>
  Correctness of the page-table walker.  The locale \<open>pgt_hooks\<close> states what the walker relies on in
  the architecture hooks it is given; the ARM64 host tables and the ARM64 stage-2 tables are its two
  instances.  In it, the loops of each level are shown to satisfy the contract \<open>table_op\<close> of
  \<^verbatim>\<open>Page_Walk\<close>, level by level.
\<close>

section \<open>Entries\<close>

lemma pfn_page_bits:
  assumes "page AND PFN_MASK = page"
  shows "bit page n \<Longrightarrow> 12 \<le> n \<and> n < 48"
  using assms by (metis PFN_MASK_bits bit_and_iff)

lemma no_pfn_bits:
  assumes "(a :: u64) AND PFN_MASK = 0" "bit a n"
  shows "\<not> (12 \<le> n \<and> n < 48)"
  using assms by (metis PFN_MASK_bits bit_and_iff bit_0_eq bot_apply bot_bool_def)

lemma bit_3: "bit (3 :: u64) n \<longleftrightarrow> n = 0 \<or> n = 1"
proof -
  have "(3 :: u64) = mask 2" by (simp add: mask_eq_exp_minus_1)
  then have "bit (3 :: u64) n \<longleftrightarrow> n < 2" by (simp only: bit_mask_iff) auto
  then show ?thesis by (simp add: less_2_cases_iff)
qed

lemma bit_3_num: "bit (3 :: int) n \<longleftrightarrow> n = 0 \<or> n = 1" "bit (3 :: nat) n \<longleftrightarrow> n = 0 \<or> n = 1"
proof -
  have "(3 :: int) = mask 2" "(3 :: nat) = mask 2" by (simp_all add: mask_eq_exp_minus_1)
  then have "bit (3 :: int) n \<longleftrightarrow> n < 2" "bit (3 :: nat) n \<longleftrightarrow> n < 2" by (simp_all only: bit_mask_iff) auto
  then show "bit (3 :: int) n \<longleftrightarrow> n = 0 \<or> n = 1" "bit (3 :: nat) n \<longleftrightarrow> n = 0 \<or> n = 1"
    by (simp_all add: less_2_cases_iff)
qed

lemma no_type_bits: "(a :: u64) AND 3 = 0 \<Longrightarrow> n < 2 \<Longrightarrow> \<not> bit a n"
  by (metis bit_3 bit_and_iff bit_0_eq bot_apply bot_bool_def less_2_cases One_nat_def)

lemma make_entry:
  assumes p: "page AND PFN_MASK = page" and a: "a AND PFN_MASK = 0" "a AND 3 = 0" and ty: "ty \<in> {1, 3}"
  defines "e \<equiv> (a OR ty) OR page"
  shows "e AND PFN_MASK = page" "attr e = a" "bit e 0" "bit e 1 \<longleftrightarrow> ty = 3"
proof -
  have tb: "bit ty n \<longleftrightarrow> n = 0 \<or> (ty = 3 \<and> n = 1)" for n
    using ty bit_3 [of n] by (auto simp: bit_1_iff)
  note b = pfn_page_bits [OF p] no_pfn_bits [OF a(1)] no_type_bits [OF a(2)]
  show "e AND PFN_MASK = page"
    unfolding e_def by (rule bit_eqI) (auto simp: bit_and_iff bit_or_iff PFN_MASK_bits tb dest: b)
  show "attr e = a"
    unfolding e_def attr_def
    using b(3) [of 0] b(3) [of 1]
    by (intro bit_eqI) (auto simp: bit_simps PFN_MASK_bits bit_3_num tb dest: b(1,2) intro!: gr0I)
  show "bit e 0" unfolding e_def by (simp add: bit_or_iff tb)
  show "bit e 1 \<longleftrightarrow> ty = 3"
    unfolding e_def using no_type_bits [OF a(2), of 1] pfn_page_bits [OF p, of 1] by (auto simp: bit_or_iff tb)
qed

lemma present_bit: "e AND PAGE_DESC_VALID = 0 \<longleftrightarrow> \<not> bit e 0"
  by (simp add: PAGE_DESC_VALID_def and_one_eq even_iff_mod_2_eq_zero [symmetric] bit_0)

lemma large_bit: "is_pgtl_large e \<longleftrightarrow> bit e 0 \<and> \<not> bit e 1"
proof -
  have "e AND 3 = 1 \<longleftrightarrow> bit e 0 \<and> \<not> bit e 1"
  proof
    assume "e AND 3 = 1"
    then have "bit (e AND 3) n = bit (1 :: u64) n" for n by simp
    from this [of 0] this [of 1] show "bit e 0 \<and> \<not> bit e 1" by (simp add: bit_and_iff bit_3 bit_1_iff)
  next
    assume "bit e 0 \<and> \<not> bit e 1"
    then show "e AND 3 = 1"
      using bit_3 by (intro bit_eqI) (metis One_nat_def bit_1_iff bit_and_iff possible_bit_word)
  qed
  then show ?thesis
    unfolding is_pgtl_large_def arch_pgtl_large_def present_bit
    by (simp add: PAGE_DESC_TYPE_MASK_def PAGE_BLOCK_DESC_def)
qed

lemma page_addr_pfn: "page_addr e = e AND PFN_MASK"
  by (simp add: page_addr_def hpa2hva_def arch_pgtl_page_paddr_def)

section \<open>What the walker relies on in the architecture hooks\<close>

locale pgt_hooks =
  fixes t :: pgtable and la :: "u64 \<Rightarrow> u64"
  assumes present: "pgentry_present t e = e AND PAGE_DESC_VALID"
    and set_table: "set_pgentry t pte page prot lv False s = write_pte pte (PAGE_TABLE_DESC OR paddr2pfn page) s"
    and set_leaf: "set_pgentry t pte page prot lv True s =
      write_pte pte ((la prot OR (if lv = PGT_LVL0 then PAGE_PAGE_DESC else PAGE_BLOCK_DESC)) OR paddr2pfn page) s"
    and la_pfn: "prot AND PFN_MASK = 0 \<Longrightarrow> la prot AND PFN_MASK = 0"
    and la_type: "la prot AND 3 = 0"
    and la_idem: "la (la prot) = la prot"
    and la_ignores_type: "la (prot AND NOT 3) = la prot"
begin

lemma absent: "pgentry_present t e = 0 \<longleftrightarrow> \<not> bit e 0"
  by (simp add: present present_bit)

definition table_entry :: "u64 \<Rightarrow> u64" where
  "table_entry page = PAGE_TABLE_DESC OR paddr2pfn page"

definition leaf_entry :: "nat \<Rightarrow> u64 \<Rightarrow> u64 \<Rightarrow> u64" where
  "leaf_entry k page prot = (la prot OR (if k = 0 then 3 else 1)) OR page"

lemma table_entry:
  assumes "page AND PFN_MASK = page"
  shows "table_entry page AND PFN_MASK = page" "is_table (table_entry page)"
proof -
  have "unat page mod lsz 0 = 0" using unat_pfn(2) [of page] assms by simp
  then have e: "table_entry page = (0 OR 3) OR page"
    by (simp add: table_entry_def PAGE_TABLE_DESC_def paddr2pfn_aligned)
  show "table_entry page AND PFN_MASK = page" "is_table (table_entry page)"
    unfolding e is_table_def using make_entry [OF assms, of 0 3] by simp_all
qed

lemma leaf_entry:
  assumes "page AND PFN_MASK = page" "prot AND PFN_MASK = 0"
  shows "leaf_entry k page prot AND PFN_MASK = page" "attr (leaf_entry k page prot) = la prot"
    "bit (leaf_entry k page prot) 0" "bit (leaf_entry k page prot) 1 \<longleftrightarrow> k = 0"
  using make_entry [OF assms(1) la_pfn [OF assms(2)] la_type, of "if k = 0 then 3 else 1"]
  by (simp_all add: leaf_entry_def split: if_splits)

lemma leaf_entry_wf:
  assumes "page AND PFN_MASK = page" "prot AND PFN_MASK = 0" "k \<le> 2" "unat page mod lsz k = 0"
  shows "slot_wf la k s (leaf_entry k page prot)" "slot_pages k s' (leaf_entry k page prot) = {}"
    "walk_slot k s'' (leaf_entry k page prot) va = Some (unat page + va mod lsz k, la prot)"
  using leaf_entry [OF assms(1,2), of k] assms(3,4) la_idem
  by (cases k; simp add: slot_wf.simps slot_pages.simps walk_slot.simps pbase_def)+

lemma set_leaf_entry:
  assumes "page AND PFN_MASK = page"
  shows "set_pgentry t pte page prot PGT_LVL0 True s = write_pte pte (leaf_entry 0 page prot) s"
    "k \<noteq> 0 \<Longrightarrow> lv \<noteq> PGT_LVL0 \<Longrightarrow> set_pgentry t pte page prot lv True s = write_pte pte (leaf_entry k page prot) s"
proof -
  have "unat page mod lsz 0 = 0" using unat_pfn(2) [of page] assms by simp
  then have "paddr2pfn page = page" by (rule paddr2pfn_aligned)
  then show "set_pgentry t pte page prot PGT_LVL0 True s = write_pte pte (leaf_entry 0 page prot) s"
    "k \<noteq> 0 \<Longrightarrow> lv \<noteq> PGT_LVL0 \<Longrightarrow> set_pgentry t pte page prot lv True s = write_pte pte (leaf_entry k page prot) s"
    by (simp_all add: set_leaf leaf_entry_def PAGE_PAGE_DESC_def PAGE_BLOCK_DESC_def)
qed

end

section \<open>Writing an entry, linking a new table\<close>

text \<open>Replacing an entry that is not a table by one that is not.\<close>

lemma write_slot:
  assumes t: "tbl la k s pg" and i: "i < 512" and old: "\<not> is_table (cell s pg i) \<or> k = 0"
    and new: "\<not> is_table e \<or> k = 0" and wf: "\<And>s. slot_wf la k s e"
  shows "slot_step la k pg i s (write_pte (pg, i) e s)"
proof -
  have e: "slot_pages k s' (cell s pg i) = {}" "slot_pages k s' e = {}" for s'
    using old new not_table_pages by (cases k; force)+
  have pg: "pg \<in> region (pool s)" using t used_region by (auto simp: tbl_def table_pages_def)
  have "env_step s (write_pte (pg, i) e s)"
    using t pg by (auto simp: env_step_def tbl_def mm_ok_def)
  then show ?thesis by (simp add: slot_step_def Let_def e wf)
qed

text \<open>
  A page just taken from the pool, filled with entries that are not tables and linked into an
  entry that was not a table.
\<close>

lemma link_table:
  assumes t: "tbl la (Suc k) s pg" and i: "i < 512" and old: "\<not> is_table (cell s pg i)"
    and al: "alloc_page s = Some (q, s1)"
    and s2: "pool s2 = pool s1" "sanitized_page_hpa s2 = sanitized_page_hpa s"
      "\<And>j. j < 512 \<Longrightarrow> cell s2 q j = E j" "\<And>j. j \<noteq> i \<Longrightarrow> cell s2 pg j = cell s pg j"
      "\<And>p. p \<noteq> q \<Longrightarrow> p \<noteq> pg \<Longrightarrow> cell s2 p = cell s p"
    and e: "cell s2 pg i = e" "is_table e" "e AND PFN_MASK = q"
    and E: "\<And>j. j < 512 \<Longrightarrow> \<not> is_table (E j) \<or> k = 0" "\<And>j s. j < 512 \<Longrightarrow> slot_wf la k s (E j)"
  shows "slot_step la (Suc k) pg i s s2" "Suc (nfree (pool s2)) = nfree (pool s)"
    "\<And>va. walk_slot (Suc k) s2 e va = walk_slot k s2 (E (lidx k va)) va" "tbl la k s2 q"
proof -
  have ok: "pool_ok (pool s)" using t by (simp add: tbl_def mm_ok_def)
  note reg = alloc_pageD(1) [OF ok al] and nu = alloc_pageD(2) [OF ok al] and us = alloc_pageD(3) [OF ok al]
    and nf = alloc_pageD(4) [OF ok al] and ok1 = alloc_pageD(5) [OF ok al] and sp = alloc_pageD(6) [OF ok al]
  have pg: "pg \<in> used (pool s)" using t by (simp add: tbl_def table_pages_def)
  have Ep: "slot_pages k s2 (E j) = {}" if "j < 512" for j
    using E(1) [OF that] not_table_pages by (cases k) auto
  have tp: "table_pages k s2 q = {q}" using Ep s2(3) by (simp add: table_pages_def)
  have below: "slot_pages (Suc k) s2 e = {q}" using e tp by (simp add: slot_pages_table)
  have none: "slot_pages (Suc k) s (cell s pg i) = {}" using old by (rule not_table_pages)
  have twf: "table_wf la k s2 q" using Ep E(2) s2(3) by (simp add: table_wf_def tree_def)
  have env: "env_step s s2"
    unfolding env_step_def
  proof (intro conjI allI impI)
    show "mm_ok s2" using t ok1 s2 by (simp add: tbl_def mm_ok_def)
    fix p assume "p \<notin> region (pool s)"
    then show "cell s2 p = cell s p" using s2(5) reg pg used_region [of "pool s"] by (metis subsetD)
  qed (use sp s2 in simp_all)
  have "cell s2 p = cell s p" if "p \<in> used (pool s)" "p \<noteq> pg" for p
    using that nu by (intro s2(5)) auto
  then show "slot_step la (Suc k) pg i s s2"
    unfolding slot_step_def Let_def none e(1) below using env us nu s2 e twf by (auto simp: slot_wf_table)
  show "Suc (nfree (pool s2)) = nfree (pool s)" using nf s2 by simp
  show "walk_slot (Suc k) s2 e va = walk_slot k s2 (E (lidx k va)) va" for va
    using e s2(3) by (simp add: walk_slot_table walk_table_def)
  show "tbl la k s2 q" using env twf tp us s2 by (simp add: tbl_def env_step_def)
qed

text \<open>A page just taken from the pool is a well-formed table that maps nothing.\<close>

lemma fresh_root:
  assumes mm: "mm_ok s" and al: "alloc_page s = Some (root, s1)"
  shows "tbl la k s1 root" "walk_table k s1 root va = None" "table_pages k s1 root = {root}"
    "used (pool s1) = insert root (used (pool s))" "root \<notin> used (pool s)" "Suc (nfree (pool s1)) = nfree (pool s)"
    "env_step s s1" "\<And>q. q \<noteq> root \<Longrightarrow> cell s1 q = cell s q"
proof -
  have ok: "pool_ok (pool s)" and san: "\<not> bit (sanitized_page_hpa s) 0" using mm by (simp_all add: mm_ok_def)
  note a = alloc_pageD [OF ok al]
  have e: "\<not> bit (cell s1 root i) 0" if "i < 512" for i using a(8) [OF that] san by simp
  show tp: "table_pages k s1 root = {root}" using e by (simp add: table_pages_def absent_slot)
  show "tbl la k s1 root"
    using a san e tp by (simp add: tbl_def mm_ok_def table_wf_def tree_def absent_slot)
  show "walk_table k s1 root va = None" using e by (simp add: walk_table_def absent_slot)
  show "used (pool s1) = insert root (used (pool s))" "root \<notin> used (pool s)" "Suc (nfree (pool s1)) = nfree (pool s)"
    "\<And>q. q \<noteq> root \<Longrightarrow> cell s1 q = cell s q"
    using a by simp_all
  have "cell s1 q = cell s q" if "q \<notin> region (pool s)" for q using a(1) that by (intro a(9)) auto
  then show "env_step s s1" using a san by (simp add: env_step_def mm_ok_def)
qed

section \<open>Lookup\<close>

text \<open>The translation of an address as software finds it, with \<open>pgtable_lookup_entry\<close>.\<close>

definition xlate :: "pgtable \<Rightarrow> mm \<Rightarrow> u64 \<Rightarrow> u64 \<Rightarrow> xlat" where
  "xlate t s root addr =
     map_option (\<lambda>(pte, sz). (unat (get_pgentry pte s AND PFN_MASK) + unat addr mod unat sz, attr (get_pgentry pte s)))
       (pgtable_lookup_entry root addr t s)"

context pgt_hooks
begin

lemma entry_cases:
  "is_pgtl_large e \<longleftrightarrow> bit e 0 \<and> \<not> is_table e" "pgentry_present t e = 0 \<longleftrightarrow> \<not> bit e 0" "is_table e \<Longrightarrow> bit e 0"
  by (auto simp: large_bit absent is_table_def)

lemma top_entry: "tbl la 3 s pg \<Longrightarrow> i < 512 \<Longrightarrow> bit (cell s pg i) 0 \<Longrightarrow> is_table (cell s pg i)"
  by (auto simp: tbl_def table_wf_def is_table_def numeral_3_eq_3 slot_wf.simps split: if_splits)

text \<open>What \<open>pgtable_lookup_entry\<close> finds is the translation of the table.\<close>

lemma xlate_walk:
  assumes "tbl la 3 s root"
  shows "xlate t s root addr = walk_table 3 s root (unat addr)"
proof -
  let ?va = "unat addr"
  let ?e3 = "cell s root (lidx 3 ?va)"
  let ?e2 = "cell s (?e3 AND PFN_MASK) (lidx 2 ?va)"
  let ?e1 = "cell s (?e2 AND PFN_MASK) (lidx 1 ?va)"
  have w: "walk_slot 3 = walk_slot (Suc 2)" "walk_slot 2 = walk_slot (Suc 1)" "walk_slot 1 = walk_slot (Suc 0)"
    by (simp_all add: eval_nat_numeral)
  have top: "bit ?e3 0 \<Longrightarrow> bit ?e3 1" using top_entry [OF assms lidx_less] by (simp add: is_table_def)
  show ?thesis
    unfolding xlate_def pgtable_lookup_entry_def pgtl3e_offset_def pgtl2e_offset_def pgtl1e_offset_def pgtl0e_offset_def
      get_pgentry_def fst_conv snd_conv page_addr_pfn index_is_lidx absent large_bit Let_def walk_table_def
      w walk_slot.simps pbase_def
    using top by (simp add: unat_lsizes get_pgentry_def eval_nat_numeral)
qed

end

end
