(* ===== verification/Mmu_Add.thy ===== *)
theory Mmu_Add
  imports Mmu_Map
begin

text \<open>
  Adding a mapping: the loops \<open>add_pgtl0\<close>, \<open>add_pgtl1\<close>, \<open>add_pgtl2\<close> and \<open>pgtable_add_map\<close> satisfy
  the contract of a table operation whose effect is to map every address of the range that is not
  mapped yet to its offset from the physical base, and to leave mapped addresses alone.
\<close>

definition add_eff :: "nat \<Rightarrow> nat \<Rightarrow> u64 \<Rightarrow> nat \<Rightarrow> xlat \<Rightarrow> xlat" where
  "add_eff p0 v0 a va x = (case x of None \<Rightarrow> Some (p0 + (va - v0), a) | Some y \<Rightarrow> Some y)"

definition add_ok :: "nat \<Rightarrow> nat \<Rightarrow> nat \<Rightarrow> u64 \<Rightarrow> u64 \<Rightarrow> nat \<Rightarrow> mm \<Rightarrow> bool" where
  "add_ok p0 v0 ve prot pg v s \<longleftrightarrow> v0 \<le> v \<and> v < ve \<and> ve \<le> 2 ^ 48 \<and> p0 + (ve - v0) \<le> 2 ^ 48 \<and>
     v mod lsz 0 = 0 \<and> v0 mod lsz 0 = 0 \<and> ve mod lsz 0 = 0 \<and> p0 mod lsz 0 = 0 \<and> prot AND PFN_MASK = 0"

definition add_pa :: "nat \<Rightarrow> nat \<Rightarrow> nat \<Rightarrow> u64" where
  "add_pa p0 v0 v = of_nat (p0 + (v - v0))"

lemma add_ok_next: "add_ok p0 v0 ve prot pg v s \<Longrightarrow> lnext k v < ve \<Longrightarrow> add_ok p0 v0 ve prot pg (lnext k v) s'"
  using aligned_down [of 0 k "lnext k v"] lnext_gt [of v k] lnext_mult [of k v] unfolding add_ok_def by auto

lemma add_pa_page:
  assumes "add_ok p0 v0 ve prot pg v s"
  shows "unat (add_pa p0 v0 v) = p0 + (v - v0)" "add_pa p0 v0 v AND PFN_MASK = add_pa p0 v0 v"
proof -
  have "v - v0 < ve - v0" "p0 + (ve - v0) \<le> 2 ^ 48" using assms unfolding add_ok_def by linarith+
  then have b: "p0 + (v - v0) < 2 ^ 48" by linarith
  show u: "unat (add_pa p0 v0 v) = p0 + (v - v0)" using b by (simp only: add_pa_def unat_less_48)
  have "(p0 + (v - v0)) mod lsz 0 = 0"
    using assms by (auto simp: add_ok_def intro!: dvd_diff_nat)
  then show "add_pa p0 v0 v AND PFN_MASK = add_pa p0 v0 v"
    using u b by (intro pfn_mask_aligned) simp_all
qed

lemma add_unat: "add_ok p0 v0 ve prot pg v s \<Longrightarrow> unat (of_nat v :: u64) = v"
  "add_ok p0 v0 ve prot pg v s \<Longrightarrow> unat (of_nat ve :: u64) = ve"
  by (simp_all add: add_ok_def unsigned_of_nat take_bit_nat_eq_self)

lemma slots_one: "v < b \<Longrightarrow> b \<le> lnext k v \<Longrightarrow> slots k v b = 1"
  using below_lnext [of "b - 1" k v] div_le_mono [of v "b - 1" "lsz k"]
  unfolding slots_def by (cases b) (auto simp: le_antisym)

text \<open>The whole slot at \<open>v\<close> lies in the range.\<close>

definition whole :: "nat \<Rightarrow> nat \<Rightarrow> nat \<Rightarrow> bool" where
  "whole k v ve \<longleftrightarrow> v mod lsz k = 0 \<and> lnext k v \<le> ve"

lemma part_slot: "v < ve \<Longrightarrow> \<not> whole k v ve \<Longrightarrow> part k v (min (lnext k v) ve) = 1"
proof -
  assume v: "v < ve" and nw: "\<not> whole k v ve"
  let ?b = "min (lnext k v) ve"
  have vb: "v < ?b" "?b \<le> lnext k v" using v lnext_gt [of v k] by auto
  then have same: "v div lsz k = (?b - 1) div lsz k"
    using below_lnext [of "?b - 1" k v] div_le_mono [of v "?b - 1" "lsz k"] by (intro le_antisym) auto
  have "\<not> (v mod lsz k = 0 \<and> ?b mod lsz k = 0)"
  proof
    assume al: "v mod lsz k = 0 \<and> ?b mod lsz k = 0"
    then have lt: "ve < lnext k v" using nw by (auto simp: whole_def)
    then have "?b = ve" by simp
    then have "v div lsz k < ve div lsz k" using slot_multiple(2) [of v ve k] v al by simp
    then show False using below_lnext [of ve k v] lt by simp
  qed
  then show ?thesis unfolding part_def if_P [OF same] by (rule if_not_P)
qed

lemma need_Suc_slot:
  "need w k v b \<le> need w (Suc k) v b"
  "v < ve \<Longrightarrow> \<not> (w (Suc k) \<and> whole (Suc k) v ve) \<Longrightarrow>
    need w (Suc k) v (min (lnext (Suc k) v) ve) = Suc (need w k v (min (lnext (Suc k) v) ve))"
  using lnext_gt [of v "Suc k"] part_slot [of v ve "Suc k"] by (auto simp: need_Suc slot_cost_def slots_one)

section \<open>One entry\<close>

text \<open>
  The body of the loops of levels 1 to 3 in one form: \<open>large\<close> stands for the test that a large page
  can be used, \<open>child\<close> for the walk of the next level.
\<close>

definition add_slot ::
  "pgtable \<Rightarrow> page_table_level \<Rightarrow> bool \<Rightarrow> (u64 \<Rightarrow> nat \<Rightarrow> mm \<Rightarrow> mm option) \<Rightarrow> u64 \<Rightarrow> u64 \<Rightarrow> u64 \<Rightarrow> nat \<Rightarrow> nat \<Rightarrow> mm \<Rightarrow> mm option"
where
  "add_slot t lv large child paddr prot pg i v s =
     (let e = cell s pg i in
      if is_table e then child (e AND PFN_MASK) v s
      else if bit e 0 then Some s
      else if large then Some (set_pgentry t (pg, i) paddr prot lv True s)
      else case alloc_page s of
             None \<Rightarrow> None
           | Some (q, s) \<Rightarrow> child q v (set_pgentry t (pg, i) (hva2hpa q) 0 lv False s))"

context pgt_hooks
begin

lemma link_alloc:
  fixes lv :: page_table_level
  assumes t: "tbl la (Suc k) s pg" and i: "i < 512" and old: "\<not> is_table (cell s pg i)"
    and al: "alloc_page s = Some (q, s1)"
  defines "s2 \<equiv> set_pgentry t (pg, i) (hva2hpa q) 0 lv False s1"
  shows "slot_step la (Suc k) pg i s s2" "Suc (nfree (pool s2)) = nfree (pool s)"
    "is_table (cell s2 pg i)" "cell s2 pg i AND PFN_MASK = q" "tbl la k s2 q"
    "\<And>va. walk_table k s2 q va = None"
proof -
  have ok: "pool_ok (pool s)" using t by (simp add: tbl_def mm_ok_def)
  note q = alloc_pageD(1,2) [OF ok al] and s1 = alloc_pageD(7,8,9) [OF ok al]
  have pgq: "pg \<noteq> q" using t q(2) by (auto simp: tbl_def table_pages_def)
  note te = table_entry [OF page_addr_region [OF ok q(1)]]
  have s2: "s2 = write_pte (pg, i) (table_entry q) s1"
    by (simp add: s2_def set_table hva2hpa_def table_entry_def)
  have san: "\<not> bit (sanitized_page_hpa s) 0" using t by (simp add: tbl_def mm_ok_def)
  have c: "cell s2 pg i = table_entry q" "\<And>j. j < 512 \<Longrightarrow> cell s2 q j = sanitized_page_hpa s"
    using s1 pgq by (simp_all add: s2)
  note l = link_table [where E = "\<lambda>_. sanitized_page_hpa s" and ?s2.0 = s2, OF t i old al]
  have L: "slot_step la (Suc k) pg i s s2 \<and> Suc (nfree (pool s2)) = nfree (pool s) \<and> tbl la k s2 q"
    using s1 pgq san by (intro conjI l [OF _ _ c(2) _ _ c(1) te(2,1)]) (auto simp: s2 is_table_def absent_slot)
  then show "slot_step la (Suc k) pg i s s2" "Suc (nfree (pool s2)) = nfree (pool s)" "tbl la k s2 q" by simp_all
  show "is_table (cell s2 pg i)" "cell s2 pg i AND PFN_MASK = q" using c(1) te by simp_all
  show "walk_table k s2 q va = None" for va using san by (simp add: walk_table_def c(2) absent_slot)
qed

lemma add_slot_child:
  assumes child: "table_op la w k ve (add_eff p0 v0 (la prot)) ok child" and okv: "ok q v s2"
    and t2: "tbl la (Suc k) s2 pg" and i: "i = lidx (Suc k) v"
    and tab: "is_table (cell s2 pg i)" "cell s2 pg i AND PFN_MASK = q"
    and r: "child q v s2 = Some s'"
  shows "slot_step la (Suc k) pg i s2 s'"
    "changed (Suc k) v ve (add_eff p0 v0 (la prot)) (walk_table k s2 q) (walk_slot (Suc k) s' (cell s' pg i))"
proof -
  have i512: "i < 512" using i by simp
  have t: "tbl la k s2 q" using tbl_child [OF t2 i512 tab(1)] tab(2) by simp
  note s = table_op.table_sound [OF child okv t r]
  have st: "table_step la k (cell s2 pg i AND PFN_MASK) s2 s'" using s tab(2) by simp
  note ts = table_step_slot [OF t2 i512 tab(1) st]
  show "slot_step la (Suc k) pg i s2 s'" by (rule ts(1))
  have "walk_slot (Suc k) s' (cell s' pg i) = walk_table k s' q"
    using ts(2) tab by (auto simp: walk_slot_table)
  then show "changed (Suc k) v ve (add_eff p0 v0 (la prot)) (walk_table k s2 q) (walk_slot (Suc k) s' (cell s' pg i))"
    using s by simp
qed

lemma changed_cong:
  assumes "changed k v ve f x x'" "\<And>va. va div lsz k = v div lsz k \<Longrightarrow> x va = y va"
  shows "changed k v ve f y x'"
  using assms by (simp add: changed_def)

lemma walk_in_slot:
  "va div lsz k = v div lsz k \<Longrightarrow> walk_table k s pg va = walk_slot k s (cell s pg (lidx k v)) va"
  by (simp add: walk_table_def lidx_def)

lemma add_leaf:
  assumes ok: "add_ok p0 v0 ve prot pg v s" and t: "tbl la k s pg" and k: "k \<le> 2"
    and e: "\<not> bit (cell s pg (lidx k v)) 0"
    and al: "(p0 + (v - v0)) mod lsz k = 0" "v mod lsz k = 0" "lnext k v \<le> ve"
  defines "s' \<equiv> write_pte (pg, lidx k v) (leaf_entry k (add_pa p0 v0 v) prot) s"
  shows "slot_step la k pg (lidx k v) s s' \<and>
    changed k v ve (add_eff p0 v0 (la prot)) (walk_table k s pg) (walk_slot k s' (cell s' pg (lidx k v)))"
proof -
  have prot: "prot AND PFN_MASK = 0" using ok by (simp add: add_ok_def)
  note pa = add_pa_page [OF ok]
  have wf: "unat (add_pa p0 v0 v) mod lsz k = 0" using pa(1) al(1) by simp
  note le = leaf_entry_wf [OF pa(2) prot k wf] and lb = leaf_entry [OF pa(2) prot, of k]
  have "slot_step la k pg (lidx k v) s s'"
    unfolding s'_def using e lb le(1) by (intro write_slot [OF t]) (auto simp: is_table_def)
  moreover have "changed k v ve (add_eff p0 v0 (la prot)) (walk_table k s pg) (walk_slot k s' (cell s' pg (lidx k v)))"
    unfolding changed_def
  proof (intro allI impI)
    fix va assume va: "va div lsz k = v div lsz k"
    have "v = v div lsz k * lsz k" using al(2) div_mult_mod_eq [of v "lsz k"] by linarith
    then have vam: "va = v + va mod lsz k" using va div_mult_mod_eq [of va "lsz k"] by metis
    have "va < ve" using in_slot_bounds(1) [OF va] al(3) by linarith
    moreover have "v0 \<le> v" using ok by (simp add: add_ok_def)
    then have "p0 + (va - v0) = p0 + (v - v0) + va mod lsz k" using vam by linarith
    ultimately show "walk_slot k s' (cell s' pg (lidx k v)) va =
        (if v \<le> va \<and> va < ve then add_eff p0 v0 (la prot) va (walk_table k s pg va) else walk_table k s pg va)"
      using e le(3) pa(1) vam by (simp add: s'_def walk_in_slot [OF va] absent_slot add_eff_def)
  qed
  ultimately show ?thesis ..
qed

lemma add_slot_op:
  assumes child: "table_op la w k ve (add_eff p0 v0 (la prot)) (add_ok p0 v0 ve prot) child"
    and lg: "\<And>v. large v \<Longrightarrow> k \<le> 1 \<and> lv \<noteq> PGT_LVL0 \<and> (p0 + (v - v0)) mod lsz (Suc k) = 0 \<and>
      v mod lsz (Suc k) = 0 \<and> lnext (Suc k) v \<le> ve"
    and lw: "\<And>pg v s. add_ok p0 v0 ve prot pg v s \<Longrightarrow> w (Suc k) \<Longrightarrow> whole (Suc k) v ve \<Longrightarrow> large v"
  defines "op \<equiv> \<lambda>pg v s. add_slot t lv (large v) child (add_pa p0 v0 v) prot pg (lidx (Suc k) v) v s"
  shows "slot_op la w (Suc k) ve (add_eff p0 v0 (la prot)) (add_ok p0 v0 ve prot) op"
proof
  fix pg v s
  assume "add_ok p0 v0 ve prot pg v s"
  then show "v < ve" by (simp add: add_ok_def)
next
  fix pg v s s'
  let ?i = "lidx (Suc k) v" and ?eff = "add_eff p0 v0 (la prot)"
  assume ok: "add_ok p0 v0 ve prot pg v s" and t: "tbl la (Suc k) s pg" and r: "op pg v s = Some s'"
  have ok': "add_ok p0 v0 ve prot q v u" for q u using ok unfolding add_ok_def .
  let ?goal = "slot_step la (Suc k) pg ?i s s' \<and>
      changed (Suc k) v ve ?eff (walk_table (Suc k) s pg) (walk_slot (Suc k) s' (cell s' pg ?i))"
  consider (table) "is_table (cell s pg ?i)" | (leaf) "\<not> is_table (cell s pg ?i)" "bit (cell s pg ?i) 0"
    | (large) "\<not> bit (cell s pg ?i) 0" "large v" | (new) "\<not> bit (cell s pg ?i) 0" "\<not> large v" by blast
  then show ?goal
  proof cases
    case table
    then have c: "child (cell s pg ?i AND PFN_MASK) v s = Some s'" using r by (simp add: op_def add_slot_def)
    note a = add_slot_child [OF child ok' t refl table refl c]
    show ?thesis
      using a(1) changed_cong [OF a(2), of "walk_table (Suc k) s pg"] walk_in_slot [of _ "Suc k" v s pg] table
      by (simp add: walk_slot_table)
  next
    case leaf
    then have "s' = s" using r by (simp add: op_def add_slot_def)
    moreover have "changed (Suc k) v ve ?eff (walk_table (Suc k) s pg) (walk_slot (Suc k) s (cell s pg ?i))"
      unfolding changed_def
      using leaf by (auto simp: walk_in_slot [of _ "Suc k" v] is_table_def walk_slot.simps add_eff_def)
    ultimately show ?thesis using slot_step_refl [OF t lidx_less] by simp
  next
    case large
    then have "s' = set_pgentry t (pg, ?i) (add_pa p0 v0 v) prot lv True s"
      using r by (simp add: op_def add_slot_def is_table_def)
    then have "s' = write_pte (pg, ?i) (leaf_entry (Suc k) (add_pa p0 v0 v) prot) s"
      using set_leaf_entry(2) [OF add_pa_page(2) [OF ok]] lg [OF large(2)] by simp
    then show ?thesis using add_leaf [OF ok t _ large(1)] lg [OF large(2)] by simp
  next
    case new
    then have nt: "\<not> is_table (cell s pg ?i)" by (simp add: is_table_def)
    obtain q s1 where al: "alloc_page s = Some (q, s1)"
      and c: "child q v (set_pgentry t (pg, ?i) (hva2hpa q) 0 lv False s1) = Some s'"
      using r new nt by (auto simp: op_def add_slot_def split: option.splits)
    define s2 where "s2 = set_pgentry t (pg, ?i) (hva2hpa q) 0 lv False s1"
    note l = link_alloc [OF t lidx_less nt al, where lv = lv, folded s2_def]
    have t2: "tbl la (Suc k) s2 pg" using table_step_tbl [OF slot_step_table(1) [OF t l(1) lidx_less]] .
    note a = add_slot_child [OF child ok' t2 refl l(3,4) c [folded s2_def]]
    have "walk_table (Suc k) s pg va = walk_table k s2 q va" if "va div lsz (Suc k) = v div lsz (Suc k)" for va
      using new l(6) walk_in_slot [OF that] by (simp add: absent_slot)
    then show ?thesis
      using slot_step_trans [OF l(1) a(1)] changed_cong [OF a(2), of "walk_table (Suc k) s pg"] by simp
  qed
next
  fix pg v s
  let ?i = "lidx (Suc k) v" and ?b = "min (lnext (Suc k) v) ve"
  assume ok: "add_ok p0 v0 ve prot pg v s" and t: "tbl la (Suc k) s pg" and n: "need w (Suc k) v ?b \<le> nfree (pool s)"
  have ok': "add_ok p0 v0 ve prot q v u" for q u using ok unfolding add_ok_def .
  note ns = need_Suc_slot(1) [of w k v ?b]
  consider (table) "is_table (cell s pg ?i)" | (same) "\<not> is_table (cell s pg ?i)" "bit (cell s pg ?i) 0 \<or> large v"
    | (new) "\<not> bit (cell s pg ?i) 0" "\<not> large v" by blast
  then show "\<exists>s'. op pg v s = Some s' \<and> nfree (pool s) \<le> nfree (pool s') + need w (Suc k) v ?b"
  proof cases
    case table
    have "need w k v ?b \<le> nfree (pool s)" using n ns by simp
    from table_op.table_total [OF child ok' tbl_child [OF t lidx_less table] this]
    obtain s' where "child (cell s pg ?i AND PFN_MASK) v s = Some s'"
      "nfree (pool s) \<le> nfree (pool s') + need w k v ?b" by blast
    then show ?thesis using table ns by (fastforce simp: op_def add_slot_def)
  next
    case same
    then show ?thesis by (auto simp: op_def add_slot_def set_leaf)
  next
    case new
    then have nt: "\<not> is_table (cell s pg ?i)" by (simp add: is_table_def)
    have ns: "need w (Suc k) v ?b = Suc (need w k v ?b)"
      using new(2) lw [OF ok] add_ok_def ok by (intro need_Suc_slot(2)) blast+
    have "pool_ok (pool s)" "0 < nfree (pool s)" using t n ns by (simp_all add: tbl_def mm_ok_def)
    then obtain q s1 where al: "alloc_page s = Some (q, s1)" by (rule alloc_page_free)
    define s2 where "s2 = set_pgentry t (pg, ?i) (hva2hpa q) 0 lv False s1"
    note l = link_alloc [OF t lidx_less nt al, where lv = lv, folded s2_def]
    have "need w k v ?b \<le> nfree (pool s2)" using n ns l(2) by simp
    from table_op.table_total [OF child ok' l(5) this]
    obtain s' where "child q v s2 = Some s'" "nfree (pool s2) \<le> nfree (pool s') + need w k v ?b" by blast
    then show ?thesis using new nt al l(2) ns by (auto simp: op_def add_slot_def s2_def)
  qed
next
  fix pg v s s'
  assume "add_ok p0 v0 ve prot pg v s" "lnext (Suc k) v < ve"
  then show "add_ok p0 v0 ve prot pg (lnext (Suc k) v) s'" by (rule add_ok_next)
qed

end

lemma slot_op_cong:
  assumes s: "slot_op la w k ve eff ok op" and eq: "\<And>pg v s. ok pg v s \<Longrightarrow> tbl la k s pg \<Longrightarrow> op' pg v s = op pg v s"
  shows "slot_op la w k ve eff ok op'"
proof (intro slot_op.intro slot_op_axioms.intro)
  show "walk_range ve ok" using s by (rule slot_op.axioms)
  fix pg v s s'
  assume a: "ok pg v s" "tbl la k s pg"
  note eq = eq [OF a] and law = slot_op.slot_sound [OF s a] slot_op.slot_total [OF s a] slot_op.slot_keeps [OF s a]
  show "op' pg v s = Some s' \<Longrightarrow> slot_step la k pg (lidx k v) s s' \<and>
      changed k v ve eff (walk_table k s pg) (walk_slot k s' (cell s' pg (lidx k v)))"
    using law(1) eq by simp
  show "need w k v (min (lnext k v) ve) \<le> nfree (pool s) \<Longrightarrow>
      \<exists>s'. op' pg v s = Some s' \<and> nfree (pool s) \<le> nfree (pool s') + need w k v (min (lnext k v) ve)"
    using law(2) eq by simp
  show "op' pg v s = Some s' \<Longrightarrow> slot_step la k pg (lidx k v) s s' \<Longrightarrow> lnext k v < ve \<Longrightarrow>
      Suc (lidx k v) < 512 \<Longrightarrow> ok pg (lnext k v) s'"
    using law(3) eq by simp
qed

section \<open>The loops\<close>

text \<open>Words and natural numbers agree on everything the loops compute.\<close>

lemma lnext_bound: "v < 2 ^ 48 \<Longrightarrow> k \<le> 3 \<Longrightarrow> lnext k v < 2 ^ 64"
  using next_bound [of v k] by (simp add: lnext_def)

lemma unat_of_nat_64: "n < 2 ^ 64 \<Longrightarrow> unat (of_nat n :: u64) = n"
  by (simp add: unsigned_of_nat take_bit_nat_eq_self)

lemma word_le_of_nat: "a < 2 ^ 64 \<Longrightarrow> b < 2 ^ 64 \<Longrightarrow> (of_nat a :: u64) \<le> of_nat b \<longleftrightarrow> a \<le> b"
  and word_less_of_nat: "a < 2 ^ 64 \<Longrightarrow> b < 2 ^ 64 \<Longrightarrow> (of_nat a :: u64) < of_nat b \<longleftrightarrow> a < b"
  by (simp_all only: word_le_nat_alt word_less_nat_alt unat_of_nat_64)

lemma word_next:
  assumes "v < 2 ^ 48"
  shows "((of_nat v :: u64) AND PGTL1_MASK) + PGTL1_SIZE = of_nat (lnext 1 v)"
    "((of_nat v :: u64) AND PGTL2_MASK) + PGTL2_SIZE = of_nat (lnext 2 v)"
    "((of_nat v :: u64) AND PGTL3_MASK) + PGTL3_SIZE = of_nat (lnext 3 v)"
proof -
  have v: "unat (of_nat v :: u64) = v" using assms by (rule unat_less_48)
  then have b: "unat (of_nat v :: u64) < 2 ^ 48" using assms by simp
  have l: "unat (of_nat (lnext k v) :: u64) = lnext k v" if "k \<le> 3" for k
    using lnext_bound [OF assms that] by (rule unat_of_nat_64)
  show "((of_nat v :: u64) AND PGTL1_MASK) + PGTL1_SIZE = of_nat (lnext 1 v)"
    "((of_nat v :: u64) AND PGTL2_MASK) + PGTL2_SIZE = of_nat (lnext 2 v)"
    "((of_nat v :: u64) AND PGTL3_MASK) + PGTL3_SIZE = of_nat (lnext 3 v)"
    unfolding word_unat_eq_iff next_is_lnext [OF b] v by (simp_all add: l)
qed

lemma word_index:
  assumes "v < 2 ^ 48"
  shows "unat (pgtl0e_index (of_nat v)) = lidx 0 v" "unat (pgtl1e_index (of_nat v)) = lidx 1 v"
    "unat (pgtl2e_index (of_nat v)) = lidx 2 v" "unat (pgtl3e_index (of_nat v)) = lidx 3 v"
  using unat_less_48 [OF assms] by (simp_all add: index_is_lidx)

lemma PGTL0_SIZE_of_nat: "PGTL0_SIZE = of_nat (lsz 0)"
  by (simp add: level_defs lsz_def)

lemma word_next0: "v mod lsz 0 = 0 \<Longrightarrow> (of_nat v :: u64) + PGTL0_SIZE = of_nat (lnext 0 v)"
  by (simp add: lnext_0 PGTL0_SIZE_of_nat)

lemma word_aligned:
  assumes "unat x = n"
  shows "mem_aligned_check x PGTL1_SIZE \<longleftrightarrow> n mod lsz 1 = 0" "mem_aligned_check x PGTL2_SIZE \<longleftrightarrow> n mod lsz 2 = 0"
  using assms by (simp_all only: aligned_is_mod)

lemma add_pa_next:
  "v0 \<le> v \<Longrightarrow> v \<le> n \<Longrightarrow> add_pa p0 v0 v + (of_nat n - of_nat v) = add_pa p0 v0 n"
  unfolding add_pa_def of_nat_diff [symmetric] of_nat_add [symmetric] by (rule arg_cong [where f = of_nat]) simp

lemma top_index: "lnext 3 v < ve \<Longrightarrow> ve \<le> 2 ^ 48 \<Longrightarrow> Suc (lidx 3 v) < 512"
proof -
  assume "lnext 3 v < ve" "ve \<le> 2 ^ 48"
  then have "(v div lsz 3 + 1) * lsz 3 < 512 * lsz 3" by (simp add: lnext_def lsz_def)
  then have "v div lsz 3 + 1 < 512" by (simp only: mult_less_cancel2)
  then show "Suc (lidx 3 v) < 512" by (simp add: lidx_def)
qed

lemma add_ok_bounds:
  assumes "add_ok p0 v0 ve prot pg v s"
  shows "v < 2 ^ 48" "v0 \<le> v" "ve < 2 ^ 64" "v mod lsz 0 = 0" "v < 2 ^ 64" "v < ve"
  using assms unfolding add_ok_def by auto

context pgt_hooks
begin

definition add_w :: "nat \<Rightarrow> nat \<Rightarrow> u64 \<Rightarrow> nat \<Rightarrow> bool" where
  "add_w p0 v0 prot j \<longleftrightarrow> p0 mod lsz j = v0 mod lsz j \<and>
     (j = 1 \<and> large_page_support t PGT_LVL1 prot \<or> j = 2 \<and> large_page_support t PGT_LVL2 prot)"

definition add0_op :: "nat \<Rightarrow> nat \<Rightarrow> u64 \<Rightarrow> u64 \<Rightarrow> nat \<Rightarrow> mm \<Rightarrow> mm option" where
  "add0_op p0 v0 prot pg v s =
     Some (if pgentry_present t (cell s pg (lidx 0 v)) \<noteq> 0 then s
           else set_pgentry t (pg, lidx 0 v) (add_pa p0 v0 v) prot PGT_LVL0 True s)"

definition add0 :: "nat \<Rightarrow> nat \<Rightarrow> nat \<Rightarrow> u64 \<Rightarrow> u64 \<Rightarrow> nat \<Rightarrow> mm \<Rightarrow> mm option" where
  "add0 p0 v0 ve prot pg v s =
     Some (add_pgtl0_loop pg (lidx 0 v) (add_pa p0 v0 v) (of_nat v) (of_nat ve) prot t s)"

lemma add0_slot_op:
  "slot_op la (add_w p0 v0 prot) 0 ve (add_eff p0 v0 (la prot)) (add_ok p0 v0 ve prot) (add0_op p0 v0 prot)"
proof
  fix pg v s s'
  assume ok: "add_ok p0 v0 ve prot pg v s" and t: "tbl la 0 s pg" and r: "add0_op p0 v0 prot pg v s = Some s'"
  let ?i = "lidx 0 v"
  show "slot_step la 0 pg ?i s s' \<and>
      changed 0 v ve (add_eff p0 v0 (la prot)) (walk_table 0 s pg) (walk_slot 0 s' (cell s' pg ?i))"
  proof (cases "bit (cell s pg ?i) 0")
    case True
    then have "s' = s" using r absent [of "cell s pg ?i"] by (simp add: add0_op_def)
    then show ?thesis
      using slot_step_refl [OF t lidx_less] True
      by (simp add: changed_def walk_in_slot [of _ 0 v] add_eff_def)
  next
    case False
    then have s': "s' = write_pte (pg, ?i) (leaf_entry 0 (add_pa p0 v0 v) prot) s"
      using r absent set_leaf_entry(1) [OF add_pa_page(2) [OF ok]] by (simp add: add0_op_def)
    have "(p0 + (v - v0)) mod lsz 0 = 0" "v mod lsz 0 = 0" "lnext 0 v \<le> ve"
    proof -
      show "(p0 + (v - v0)) mod lsz 0 = 0"
        using unat_pfn(2) [of "add_pa p0 v0 v"] add_pa_page [OF ok] by simp
      show v: "v mod lsz 0 = 0" using ok by (rule add_ok_bounds)
      have "v < ve" "ve mod lsz 0 = 0" using ok unfolding add_ok_def by auto
      then have "v div lsz 0 < ve div lsz 0" using v by (metis div_mult_mod_eq add_0_right mult_less_cancel2)
      then have "(v div lsz 0 + 1) * lsz 0 \<le> ve div lsz 0 * lsz 0" by (intro mult_le_mono1) simp
      then show "lnext 0 v \<le> ve" using \<open>ve mod lsz 0 = 0\<close> div_mult_mod_eq [of ve "lsz 0"] by (simp add: lnext_def)
    qed
    then show ?thesis unfolding s' using add_leaf [OF ok t _ False] by simp
  qed
qed (use add_ok_next add_ok_bounds set_leaf in \<open>auto simp: add0_op_def\<close>)

end

sublocale pgt_hooks < add0: slot_loop la "add_w p0 v0 prot" 0 ve "add_eff p0 v0 (la prot)" "add_ok p0 v0 ve prot"
    "add0_op p0 v0 prot" "add0 p0 v0 ve prot" for p0 v0 ve prot
proof (intro slot_loop.intro slot_loop_axioms.intro add0_slot_op)
  fix pg v s
  assume ok: "add_ok p0 v0 ve prot pg v s"
  note b = add_ok_bounds [OF ok]
  have nx: "of_nat v + PGTL0_SIZE = (of_nat (lnext 0 v) :: u64)" using b(4) by (rule word_next0)
  have pn: "add_pa p0 v0 v + PGTL0_SIZE = add_pa p0 v0 (lnext 0 v)"
    using add_pa_next [OF b(2), of "lnext 0 v" p0] lnext_gt [of v 0] by (simp flip: nx)
  have le: "(of_nat ve :: u64) \<le> of_nat (lnext 0 v) \<longleftrightarrow> \<not> lnext 0 v < ve"
    unfolding not_less using word_le_of_nat [OF b(3) lnext_bound [OF b(1), of 0]] by simp
  have full: "add_pgtl0_loop pg (Suc (lidx 0 v)) a b c d t u = u" if "\<not> Suc (lidx 0 v) < 512" for a b c d u
    using that by (subst add_pgtl0_loop.simps) simp
  show "add0 p0 v0 ve prot pg v s = (case add0_op p0 v0 prot pg v s of None \<Rightarrow> None
      | Some s' \<Rightarrow> if lnext 0 v < ve \<and> Suc (lidx 0 v) < 512 then add0 p0 v0 ve prot pg (lnext 0 v) s' else Some s')"
    using lidx_lnext [of 0 v] full
    by (subst add0_def, subst add_pgtl0_loop.simps)
       (auto simp: add0_op_def add0_def Let_def nx pn le)
qed

text \<open>Levels 1 and 2 use large pages where they can; level 3 never does.\<close>

context pgt_hooks
begin

definition fits :: "page_table_level \<Rightarrow> nat \<Rightarrow> nat \<Rightarrow> nat \<Rightarrow> nat \<Rightarrow> u64 \<Rightarrow> nat \<Rightarrow> bool" where
  "fits lv k p0 v0 ve prot v \<longleftrightarrow> large_page_support t lv prot \<and> (p0 + (v - v0)) mod lsz k = 0 \<and>
     v mod lsz k = 0 \<and> lnext k v \<le> ve"

lemma fits_whole:
  assumes ok: "add_ok p0 v0 ve prot pg v s" and w: "add_w p0 v0 prot k" "whole k v ve"
    and lv: "k = 1 \<and> lv = PGT_LVL1 \<or> k = 2 \<and> lv = PGT_LVL2"
  shows "fits lv k p0 v0 ve prot v"
proof -
  have "v0 \<le> v" using ok by (simp add: add_ok_def)
  moreover have "p0 mod lsz k = v0 mod lsz k" using w(1) by (simp add: add_w_def)
  moreover have "v mod lsz k = 0" using w(2) by (simp add: whole_def)
  ultimately have "(p0 + (v - v0)) mod lsz k = 0" by (metis le_add_diff_inverse mod_add_left_eq)
  then show ?thesis using w lv by (auto simp: fits_def add_w_def whole_def)
qed

definition add1_op :: "nat \<Rightarrow> nat \<Rightarrow> nat \<Rightarrow> u64 \<Rightarrow> u64 \<Rightarrow> nat \<Rightarrow> mm \<Rightarrow> mm option" where
  "add1_op p0 v0 ve prot pg v s =
     add_pgtl1_entry (pg, lidx 1 v) (add_pa p0 v0 v) (of_nat v) (of_nat (lnext 1 v)) (of_nat ve) prot t s"

definition add1 :: "nat \<Rightarrow> nat \<Rightarrow> nat \<Rightarrow> u64 \<Rightarrow> u64 \<Rightarrow> nat \<Rightarrow> mm \<Rightarrow> mm option" where
  "add1 p0 v0 ve prot pg v s = add_pgtl1_loop pg (lidx 1 v) (add_pa p0 v0 v) (of_nat v) (of_nat ve) prot t s"

definition add2_op :: "nat \<Rightarrow> nat \<Rightarrow> nat \<Rightarrow> u64 \<Rightarrow> u64 \<Rightarrow> nat \<Rightarrow> mm \<Rightarrow> mm option" where
  "add2_op p0 v0 ve prot pg v s =
     add_pgtl2_entry (pg, lidx 2 v) (add_pa p0 v0 v) (of_nat v) (of_nat (lnext 2 v)) (of_nat ve) prot t s"

definition add2 :: "nat \<Rightarrow> nat \<Rightarrow> nat \<Rightarrow> u64 \<Rightarrow> u64 \<Rightarrow> nat \<Rightarrow> mm \<Rightarrow> mm option" where
  "add2 p0 v0 ve prot pg v s = add_pgtl2_loop pg (lidx 2 v) (add_pa p0 v0 v) (of_nat v) (of_nat ve) prot t s"

definition add3_op :: "nat \<Rightarrow> nat \<Rightarrow> nat \<Rightarrow> u64 \<Rightarrow> u64 \<Rightarrow> nat \<Rightarrow> mm \<Rightarrow> mm option" where
  "add3_op p0 v0 ve prot pg v s = add_map_entry (pg, lidx 3 v) (add_pa p0 v0 v) (of_nat v) (of_nat ve) prot t s"

definition add3 :: "nat \<Rightarrow> nat \<Rightarrow> nat \<Rightarrow> u64 \<Rightarrow> u64 \<Rightarrow> nat \<Rightarrow> mm \<Rightarrow> mm option" where
  "add3 p0 v0 ve prot pg v s = add_map_loop pg (add_pa p0 v0 v) (of_nat v) (of_nat ve) prot t s"

lemma new_entry:
  assumes "tbl la (Suc k) s pg" "i < 512" "\<not> is_table (cell s pg i)" "alloc_page s = Some (q, s1)"
  shows "cell (set_pgentry t (pg, i) (hva2hpa q) 0 lv False s1) pg i AND PFN_MASK = q"
  using link_alloc(4) [OF assms] .

lemma add1_eq:
  assumes ok: "add_ok p0 v0 ve prot pg v s" and tb: "tbl la 1 s pg"
  shows "add1_op p0 v0 ve prot pg v s =
    add_slot t PGT_LVL1 (fits PGT_LVL1 1 p0 v0 ve prot v) (add0 p0 v0 ve prot) (add_pa p0 v0 v) prot pg (lidx 1 v) v s"
proof -
  note b = add_ok_bounds [OF ok]
  have lg: "(large_page_support t PGT_LVL1 prot \<and> mem_aligned_check (add_pa p0 v0 v) PGTL1_SIZE \<and>
      mem_aligned_check (of_nat v) PGTL1_SIZE \<and> (of_nat (lnext 1 v) :: u64) \<le> of_nat ve) = fits PGT_LVL1 1 p0 v0 ve prot v"
    using word_aligned [OF add_pa_page(1) [OF ok]] word_aligned [OF unat_less_48 [OF b(1)]]
      word_le_of_nat [OF lnext_bound [OF b(1), of 1] b(3)] by (simp add: fits_def)
  have ch: "Some (add_pgtl0 (pg, lidx 1 v) (add_pa p0 v0 v) (of_nat v) (of_nat ve) prot t u) =
      add0 p0 v0 ve prot (cell u pg (lidx 1 v) AND PFN_MASK) v u" for u
    by (simp add: add_pgtl0_def add0_def page_addr_pfn get_pgentry_def word_index [OF b(1)])
  have ne: "cell (set_pgentry t (pg, lidx 1 v) (hva2hpa q) 0 PGT_LVL1 False s1) pg (lidx 1 v) AND PFN_MASK = q"
    if "\<not> is_table (cell s pg (lidx 1 v))" "alloc_page s = Some (q, s1)" for q s1
    using new_entry [of 0] tb that by simp
  show ?thesis
    unfolding add1_op_def add_pgtl1_entry_def lg ch add_slot_def get_pgentry_def fst_conv snd_conv Let_def entry_cases
    using entry_cases(3) [of "cell s pg (lidx 1 v)"] ne
    by (cases "is_table (cell s pg (lidx 1 v))") (auto split: option.splits)
qed

lemma add2_eq:
  assumes ok: "add_ok p0 v0 ve prot pg v s" and tb: "tbl la 2 s pg"
  shows "add2_op p0 v0 ve prot pg v s =
    add_slot t PGT_LVL2 (fits PGT_LVL2 2 p0 v0 ve prot v) (add1 p0 v0 ve prot) (add_pa p0 v0 v) prot pg (lidx 2 v) v s"
proof -
  note b = add_ok_bounds [OF ok]
  have lg: "(large_page_support t PGT_LVL2 prot \<and> mem_aligned_check (add_pa p0 v0 v) PGTL2_SIZE \<and>
      mem_aligned_check (of_nat v) PGTL2_SIZE \<and> (of_nat (lnext 2 v) :: u64) \<le> of_nat ve) = fits PGT_LVL2 2 p0 v0 ve prot v"
    using word_aligned [OF add_pa_page(1) [OF ok]] word_aligned [OF unat_less_48 [OF b(1)]]
      word_le_of_nat [OF lnext_bound [OF b(1), of 2] b(3)] by (simp add: fits_def)
  have ch: "add_pgtl1 (pg, lidx 2 v) (add_pa p0 v0 v) (of_nat v) (of_nat ve) prot t u =
      add1 p0 v0 ve prot (cell u pg (lidx 2 v) AND PFN_MASK) v u" for u
    by (simp add: add_pgtl1_def add1_def page_addr_pfn get_pgentry_def word_index [OF b(1)])
  have ne: "cell (set_pgentry t (pg, lidx 2 v) (hva2hpa q) 0 PGT_LVL2 False s1) pg (lidx 2 v) AND PFN_MASK = q"
    if "\<not> is_table (cell s pg (lidx 2 v))" "alloc_page s = Some (q, s1)" for q s1
    using new_entry [of 1] tb that by (simp add: numeral_2_eq_2)
  show ?thesis
    unfolding add2_op_def add_pgtl2_entry_def lg ch add_slot_def get_pgentry_def fst_conv snd_conv Let_def entry_cases
    using entry_cases(3) [of "cell s pg (lidx 2 v)"] ne
    by (cases "is_table (cell s pg (lidx 2 v))") (auto split: option.splits)
qed

lemma add3_eq:
  assumes ok: "add_ok p0 v0 ve prot pg v s" and tb: "tbl la 3 s pg"
  shows "add3_op p0 v0 ve prot pg v s =
    add_slot t PGT_LVL3 False (add2 p0 v0 ve prot) (add_pa p0 v0 v) prot pg (lidx 3 v) v s"
proof -
  note b = add_ok_bounds [OF ok]
  have ch: "add_pgtl2 (pg, lidx 3 v) (add_pa p0 v0 v) (of_nat v) (of_nat ve) prot t u =
      add2 p0 v0 ve prot (cell u pg (lidx 3 v) AND PFN_MASK) v u" for u
    by (simp add: add_pgtl2_def add2_def page_addr_pfn get_pgentry_def word_index [OF b(1)])
  have ne: "cell (set_pgentry t (pg, lidx 3 v) (hva2hpa q) 0 PGT_LVL3 False s1) pg (lidx 3 v) AND PFN_MASK = q"
    if "\<not> is_table (cell s pg (lidx 3 v))" "alloc_page s = Some (q, s1)" for q s1
    using new_entry [of 2] tb that by (simp add: numeral_3_eq_3)
  show ?thesis
    unfolding add3_op_def add_map_entry_def ch add_slot_def get_pgentry_def fst_conv snd_conv Let_def entry_cases
    using entry_cases(3) [of "cell s pg (lidx 3 v)"] top_entry [OF tb lidx_less, of 3 v] ne
    by (cases "is_table (cell s pg (lidx 3 v))") (auto split: option.splits)
qed

end

context pgt_hooks
begin

lemma add1_slot_op:
  "slot_op la (add_w p0 v0 prot) 1 ve (add_eff p0 v0 (la prot)) (add_ok p0 v0 ve prot) (add1_op p0 v0 ve prot)"
proof (rule slot_op_cong [OF _ add1_eq])
  have "slot_op la (add_w p0 v0 prot) (Suc 0) ve (add_eff p0 v0 (la prot)) (add_ok p0 v0 ve prot) (\<lambda>pg v s.
      add_slot t PGT_LVL1 (fits PGT_LVL1 1 p0 v0 ve prot v) (add0 p0 v0 ve prot) (add_pa p0 v0 v) prot pg (lidx (Suc 0) v) v s)"
  proof (rule add_slot_op [OF add0.looped.table_op_axioms])
    show "0 \<le> (1 :: nat) \<and> PGT_LVL1 \<noteq> PGT_LVL0 \<and> (p0 + (v - v0)) mod lsz (Suc 0) = 0 \<and>
        v mod lsz (Suc 0) = 0 \<and> lnext (Suc 0) v \<le> ve" if "fits PGT_LVL1 1 p0 v0 ve prot v" for v
      using that by (simp add: fits_def eval_nat_numeral)
    show "fits PGT_LVL1 1 p0 v0 ve prot v"
      if "add_ok p0 v0 ve prot pg v s" "add_w p0 v0 prot (Suc 0)" "whole (Suc 0) v ve" for pg v s
      using fits_whole [OF that(1), of 1] that(2,3) by (simp add: eval_nat_numeral)
  qed
  then show "slot_op la (add_w p0 v0 prot) 1 ve (add_eff p0 v0 (la prot)) (add_ok p0 v0 ve prot) (\<lambda>pg v s.
      add_slot t PGT_LVL1 (fits PGT_LVL1 1 p0 v0 ve prot v) (add0 p0 v0 ve prot) (add_pa p0 v0 v) prot pg (lidx 1 v) v s)"
    by (simp add: eval_nat_numeral)
qed

end

sublocale pgt_hooks < add1: slot_loop la "add_w p0 v0 prot" 1 ve "add_eff p0 v0 (la prot)" "add_ok p0 v0 ve prot"
    "add1_op p0 v0 ve prot" "add1 p0 v0 ve prot" for p0 v0 ve prot
proof (intro slot_loop.intro slot_loop_axioms.intro add1_slot_op)
  fix pg v s
  assume ok: "add_ok p0 v0 ve prot pg v s"
  note b = add_ok_bounds [OF ok]
  have pn: "add_pa p0 v0 v + (of_nat (lnext 1 v) - of_nat v) = add_pa p0 v0 (lnext 1 v)"
    using add_pa_next [OF b(2)] lnext_gt [of v 1] by simp
  have le: "(of_nat ve :: u64) \<le> of_nat (lnext 1 v) \<longleftrightarrow> \<not> lnext 1 v < ve"
    unfolding not_less using word_le_of_nat [OF b(3) lnext_bound [OF b(1), of 1]] by simp
  have full: "add_pgtl1_loop pg (Suc (lidx 1 v)) a b c d t u = Some u" if "\<not> Suc (lidx 1 v) < 512" for a b c d u
    using that by (subst add_pgtl1_loop.simps) simp
  show "add1 p0 v0 ve prot pg v s = (case add1_op p0 v0 ve prot pg v s of None \<Rightarrow> None
      | Some s' \<Rightarrow> if lnext 1 v < ve \<and> Suc (lidx 1 v) < 512 then add1 p0 v0 ve prot pg (lnext 1 v) s' else Some s')"
    using lidx_lnext [of 1 v] full
    by (subst add1_def, subst add_pgtl1_loop.simps)
       (auto simp: add1_op_def add1_def Let_def word_next [OF b(1)] pn le
         Suc_eq_plus1 [symmetric] simp del: One_nat_def Suc_eq_plus1 split: option.splits)
qed

context pgt_hooks
begin

lemma add2_slot_op:
  "slot_op la (add_w p0 v0 prot) 2 ve (add_eff p0 v0 (la prot)) (add_ok p0 v0 ve prot) (add2_op p0 v0 ve prot)"
proof (rule slot_op_cong [OF _ add2_eq])
  have "slot_op la (add_w p0 v0 prot) (Suc 1) ve (add_eff p0 v0 (la prot)) (add_ok p0 v0 ve prot) (\<lambda>pg v s.
      add_slot t PGT_LVL2 (fits PGT_LVL2 2 p0 v0 ve prot v) (add1 p0 v0 ve prot) (add_pa p0 v0 v) prot pg (lidx (Suc 1) v) v s)"
  proof (rule add_slot_op [OF add1.looped.table_op_axioms])
    show "1 \<le> (1 :: nat) \<and> PGT_LVL2 \<noteq> PGT_LVL0 \<and> (p0 + (v - v0)) mod lsz (Suc 1) = 0 \<and>
        v mod lsz (Suc 1) = 0 \<and> lnext (Suc 1) v \<le> ve" if "fits PGT_LVL2 2 p0 v0 ve prot v" for v
      using that by (simp add: fits_def eval_nat_numeral)
    show "fits PGT_LVL2 2 p0 v0 ve prot v"
      if "add_ok p0 v0 ve prot pg v s" "add_w p0 v0 prot (Suc 1)" "whole (Suc 1) v ve" for pg v s
      using fits_whole [OF that(1), of 2] that(2,3) by (simp add: eval_nat_numeral)
  qed
  then show "slot_op la (add_w p0 v0 prot) 2 ve (add_eff p0 v0 (la prot)) (add_ok p0 v0 ve prot) (\<lambda>pg v s.
      add_slot t PGT_LVL2 (fits PGT_LVL2 2 p0 v0 ve prot v) (add1 p0 v0 ve prot) (add_pa p0 v0 v) prot pg (lidx 2 v) v s)"
    by (simp add: eval_nat_numeral)
qed

end

sublocale pgt_hooks < add2: slot_loop la "add_w p0 v0 prot" 2 ve "add_eff p0 v0 (la prot)" "add_ok p0 v0 ve prot"
    "add2_op p0 v0 ve prot" "add2 p0 v0 ve prot" for p0 v0 ve prot
proof (intro slot_loop.intro slot_loop_axioms.intro add2_slot_op)
  fix pg v s
  assume ok: "add_ok p0 v0 ve prot pg v s"
  note b = add_ok_bounds [OF ok]
  have pn: "add_pa p0 v0 v + (of_nat (lnext 2 v) - of_nat v) = add_pa p0 v0 (lnext 2 v)"
    using add_pa_next [OF b(2)] lnext_gt [of v 2] by simp
  have le: "(of_nat ve :: u64) \<le> of_nat (lnext 2 v) \<longleftrightarrow> \<not> lnext 2 v < ve"
    unfolding not_less using word_le_of_nat [OF b(3) lnext_bound [OF b(1), of 2]] by simp
  have full: "add_pgtl2_loop pg (Suc (lidx 2 v)) a b c d t u = Some u" if "\<not> Suc (lidx 2 v) < 512" for a b c d u
    using that by (subst add_pgtl2_loop.simps) simp
  show "add2 p0 v0 ve prot pg v s = (case add2_op p0 v0 ve prot pg v s of None \<Rightarrow> None
      | Some s' \<Rightarrow> if lnext 2 v < ve \<and> Suc (lidx 2 v) < 512 then add2 p0 v0 ve prot pg (lnext 2 v) s' else Some s')"
    using lidx_lnext [of 2 v] full
    by (subst add2_def, subst add_pgtl2_loop.simps)
       (auto simp: add2_op_def add2_def Let_def word_next [OF b(1)] pn le
         Suc_eq_plus1 [symmetric] simp del: One_nat_def Suc_eq_plus1 split: option.splits)
qed

context pgt_hooks
begin

lemma add3_slot_op:
  "slot_op la (add_w p0 v0 prot) 3 ve (add_eff p0 v0 (la prot)) (add_ok p0 v0 ve prot) (add3_op p0 v0 ve prot)"
proof (rule slot_op_cong [OF _ add3_eq])
  have "slot_op la (add_w p0 v0 prot) (Suc 2) ve (add_eff p0 v0 (la prot)) (add_ok p0 v0 ve prot) (\<lambda>pg v s.
      add_slot t PGT_LVL3 (False) (add2 p0 v0 ve prot) (add_pa p0 v0 v) prot pg (lidx (Suc 2) v) v s)"
    by (rule add_slot_op [OF add2.looped.table_op_axioms]) (simp_all add: add_w_def)
  then show "slot_op la (add_w p0 v0 prot) 3 ve (add_eff p0 v0 (la prot)) (add_ok p0 v0 ve prot) (\<lambda>pg v s.
      add_slot t PGT_LVL3 (False) (add2 p0 v0 ve prot) (add_pa p0 v0 v) prot pg (lidx 3 v) v s)"
    by (simp add: eval_nat_numeral)
qed

end

sublocale pgt_hooks < add3: slot_loop la "add_w p0 v0 prot" 3 ve "add_eff p0 v0 (la prot)" "add_ok p0 v0 ve prot"
    "add3_op p0 v0 ve prot" "add3 p0 v0 ve prot" for p0 v0 ve prot
proof (intro slot_loop.intro slot_loop_axioms.intro add3_slot_op)
  fix pg v s
  assume ok: "add_ok p0 v0 ve prot pg v s"
  note b = add_ok_bounds [OF ok]
  have pn: "add_pa p0 v0 v + (of_nat (lnext 3 v) - of_nat v) = add_pa p0 v0 (lnext 3 v)"
    using add_pa_next [OF b(2)] lnext_gt [of v 3] by simp
  have lt: "(of_nat v :: u64) < of_nat ve" using word_less_of_nat [OF b(5,3)] b(6) by simp
  have le: "(of_nat (lnext 3 v) :: u64) < of_nat ve \<longleftrightarrow> lnext 3 v < ve"
    using word_less_of_nat [OF lnext_bound [OF b(1), of 3] b(3)] by simp
  have last: "Suc (lidx 3 v) < 512" if "lnext 3 v < ve"
    using top_index [OF that] ok unfolding add_ok_def by blast
  have stop: "add_map_loop pg p (of_nat (lnext 3 v)) (of_nat ve) prot t u = Some u" if "\<not> lnext 3 v < ve" for p u
    using that le by (subst add_map_loop.simps) simp
  show "add3 p0 v0 ve prot pg v s = (case add3_op p0 v0 ve prot pg v s of None \<Rightarrow> None
      | Some s' \<Rightarrow> if lnext 3 v < ve \<and> Suc (lidx 3 v) < 512 then add3 p0 v0 ve prot pg (lnext 3 v) s' else Some s')"
    using last
    by (subst add3_def, subst add_map_loop.simps)
       (simp add: lt add3_op_def add3_def Let_def word_next [OF b(1)] word_index [OF b(1)] pn stop split: bind_splits option.splits)
qed

section \<open>\<open>pgtable_add_map\<close>\<close>

lemma round_aligned: "unat (round_page_up v) mod lsz 0 = 0" "unat (round_page_down v) mod lsz 0 = 0"
  by (simp_all add: round_page_up_def round_page_down_def page_mask unat_and_not_mask lsz_def)

lemma lsz_4: "lsz 4 = 2 ^ 48"
  by (simp add: lsz_def)

lemma lnext_4: "v < 2 ^ 48 \<Longrightarrow> lnext 4 v = 2 ^ 48"
  by (simp add: lnext_def lsz_4)

lemma changed_48:
  "changed 4 v ve f x x' \<Longrightarrow> v < 2 ^ 48 \<Longrightarrow> va < 2 ^ 48 \<Longrightarrow> x' va = (if v \<le> va \<and> va < ve then f va (x va) else x va)"
  by (simp add: changed_def lsz_4)

context pgt_hooks
begin

lemma add_map_cases:
  fixes vb pb sz :: u64
  defines "v0 \<equiv> unat (round_page_up vb)" and "p0 \<equiv> unat (round_page_up pb)" and "n \<equiv> unat (round_page_down sz)"
  assumes b: "v0 + n \<le> 2 ^ 48" "p0 + n \<le> 2 ^ 48" "prot AND PFN_MASK = 0"
  shows "n = 0 \<Longrightarrow> pgtable_add_map root pb vb sz prot t s = Some s"
    and "0 < n \<Longrightarrow> pgtable_add_map root pb vb sz prot t s = add3 p0 v0 (v0 + n) prot root v0 s"
    and "0 < n \<Longrightarrow> add_ok p0 v0 (v0 + n) prot root v0 s"
proof -
  have vb: "round_page_up vb = of_nat v0" "round_page_up pb = of_nat p0" "round_page_down sz = of_nat n"
    by (simp_all add: v0_def p0_def n_def)
  have small: "v0 + n < 2 ^ 64" "v0 < 2 ^ 64" using b(1) by simp_all
  have lt: "(of_nat v0 :: u64) < of_nat (v0 + n) \<longleftrightarrow> 0 < n"
    using word_less_of_nat [OF small(2,1)] by linarith
  show "pgtable_add_map root pb vb sz prot t s = Some s" if "n = 0"
    using that lt unfolding pgtable_add_map_def vb Let_def by (subst add_map_loop.simps) simp
  show "pgtable_add_map root pb vb sz prot t s = add3 p0 v0 (v0 + n) prot root v0 s" if "0 < n"
    by (simp add: pgtable_add_map_def vb Let_def add3_def add_pa_def)
  show "add_ok p0 v0 (v0 + n) prot root v0 s" if "0 < n"
    using that b round_aligned [of vb] round_aligned(1) [of pb] round_aligned(2) [of sz]
    by (auto simp: add_ok_def v0_def p0_def n_def simp del: mod_0_imp_dvd)
qed

lemma add_map_sound:
  fixes vb pb sz :: u64
  defines "v0 \<equiv> unat (round_page_up vb)" and "p0 \<equiv> unat (round_page_up pb)" and "n \<equiv> unat (round_page_down sz)"
  assumes t: "tbl la 3 s root" and b: "v0 + n \<le> 2 ^ 48" "p0 + n \<le> 2 ^ 48" "prot AND PFN_MASK = 0"
    and r: "pgtable_add_map root pb vb sz prot t s = Some s'"
  shows "table_step la 3 root s s'"
    and "unat va < 2 ^ 48 \<Longrightarrow> xlate t s' root va =
      (if v0 \<le> unat va \<and> unat va < v0 + n then add_eff p0 v0 (la prot) (unat va) (xlate t s root va) else xlate t s root va)"
proof -
  note c = add_map_cases [of vb sz pb, folded v0_def p0_def n_def, OF b]
  have *: "table_step la 3 root s s' \<and> (unat va < 2 ^ 48 \<longrightarrow> walk_table 3 s' root (unat va) =
      (if v0 \<le> unat va \<and> unat va < v0 + n then add_eff p0 v0 (la prot) (unat va) (walk_table 3 s root (unat va))
       else walk_table 3 s root (unat va)))" for va :: u64
  proof (cases "n = 0")
    case True
    then show ?thesis using c(1) [of root s] r table_step_refl [OF t] by auto
  next
    case False
    then have l: "add3 p0 v0 (v0 + n) prot root v0 s = Some s'" and ok: "add_ok p0 v0 (v0 + n) prot root v0 s"
      using c(2) [of root s] c(3) [of root s] r by simp_all
    note ts = add3.looped.table_sound [OF ok t l]
    have "changed 4 v0 (v0 + n) (add_eff p0 v0 (la prot)) (walk_table 3 s root) (walk_table 3 s' root)"
      using ts by simp
    then show ?thesis using ts changed_48 [of v0] b(1) False by simp
  qed
  then show ts: "table_step la 3 root s s'" by blast
  show "unat va < 2 ^ 48 \<Longrightarrow> xlate t s' root va =
      (if v0 \<le> unat va \<and> unat va < v0 + n then add_eff p0 v0 (la prot) (unat va) (xlate t s root va) else xlate t s root va)"
    using * [of va] by (simp add: xlate_walk [OF t] xlate_walk [OF table_step_tbl [OF ts]])
qed

lemma add_map_total:
  fixes vb pb sz :: u64
  defines "v0 \<equiv> unat (round_page_up vb)" and "p0 \<equiv> unat (round_page_up pb)" and "n \<equiv> unat (round_page_down sz)"
  assumes t: "tbl la 3 s root" and b: "v0 + n \<le> 2 ^ 48" "p0 + n \<le> 2 ^ 48" "prot AND PFN_MASK = 0"
    and free: "need (add_w p0 v0 prot) 3 v0 (v0 + n) \<le> nfree (pool s)"
  shows "\<exists>s'. pgtable_add_map root pb vb sz prot t s = Some s' \<and> nfree (pool s) \<le> nfree (pool s') + need (add_w p0 v0 prot) 3 v0 (v0 + n)"
proof -
  note c = add_map_cases [of vb sz pb, folded v0_def p0_def n_def, OF b]
  show ?thesis
  proof (cases "n = 0")
    case False
    then have ok: "add_ok p0 v0 (v0 + n) prot root v0 s" using c(3) by simp
    have m: "min (lnext (Suc 3) v0) (v0 + n) = v0 + n"
      using lnext_4 [of v0] b(1) False by simp
    from False have e: "pgtable_add_map root pb vb sz prot t s = add3 p0 v0 (v0 + n) prot root v0 s" by (intro c(2)) simp
    show ?thesis
      unfolding e by (rule add3.looped.table_total [OF ok t, unfolded m, OF free])
  qed (use c(1) in auto)
qed

end

end
