(* ===== verification/Mmu_Modify.thy ===== *)
theory Mmu_Modify
  imports Mmu_Add
begin

text \<open>
  Modifying and deleting mappings: large pages that the range covers only in part are split without
  changing what they translate, the leaves of the range are changed or removed, and tables that
  become empty go back to the pool.
\<close>

definition mod_eff :: "u32 \<Rightarrow> u64 \<Rightarrow> u64 \<Rightarrow> nat \<Rightarrow> xlat \<Rightarrow> xlat" where
  "mod_eff type prot_set prot_clr va x =
     (if type = MR_MODIFY then map_option (\<lambda>(out, a). (out, (a AND NOT prot_clr) OR prot_set)) x else None)"

text \<open>A change of attributes that touches neither the address nor the type of an entry, and after
  which the attributes of a leaf are still complete.\<close>

definition keeps :: "(u64 \<Rightarrow> u64) \<Rightarrow> u64 \<Rightarrow> u64 \<Rightarrow> bool" where
  "keeps la prot_set prot_clr \<longleftrightarrow>
     prot_set AND PFN_MASK = 0 \<and> prot_set AND 3 = 0 \<and> prot_clr AND PFN_MASK = 0 \<and> prot_clr AND 3 = 0 \<and>
     (\<forall>a. la a = a \<longrightarrow> la ((a AND NOT prot_clr) OR prot_set) = (a AND NOT prot_clr) OR prot_set)"

definition mod_ok :: "(u64 \<Rightarrow> u64) \<Rightarrow> u64 \<Rightarrow> u64 \<Rightarrow> u32 \<Rightarrow> nat \<Rightarrow> u64 \<Rightarrow> nat \<Rightarrow> mm \<Rightarrow> bool" where
  "mod_ok la prot_set prot_clr type ve pg v s \<longleftrightarrow> v < ve \<and> ve \<le> 2 ^ 48 \<and> v mod lsz 0 = 0 \<and> ve mod lsz 0 = 0 \<and>
     (type = MR_DEL \<or> type = MR_MODIFY \<and> keeps la prot_set prot_clr)"

lemma mod_ok_next:
  "mod_ok la a c ty ve pg v s \<Longrightarrow> lnext k v < ve \<Longrightarrow> mod_ok la a c ty ve pg' (lnext k v) s'"
  using aligned_down [of 0 k "lnext k v"] lnext_mult [of k v] unfolding mod_ok_def by auto

lemma mod_ok_bounds:
  assumes "mod_ok la a c ty ve pg v s"
  shows "v < 2 ^ 48" "ve < 2 ^ 64" "v mod lsz 0 = 0" "v < 2 ^ 64" "v < ve"
  using assms unfolding mod_ok_def by auto

lemma aligned_range: "v < ve \<Longrightarrow> v mod lsz 0 = 0 \<Longrightarrow> ve mod lsz 0 = 0 \<Longrightarrow> lnext 0 v \<le> ve"
proof -
  assume a: "v < ve" "v mod lsz 0 = 0" "ve mod lsz 0 = 0"
  then have "v div lsz 0 < ve div lsz 0" by (metis div_mult_mod_eq add_0_right mult_less_cancel2)
  then have "(v div lsz 0 + 1) * lsz 0 \<le> ve div lsz 0 * lsz 0" by (intro mult_le_mono1) simp
  then show "lnext 0 v \<le> ve" using a(3) div_mult_mod_eq [of ve "lsz 0"] by (simp add: lnext_def)
qed

lemma aligned_room:
  assumes "b < m" "m mod z = 0" "b mod z = 0"
  shows "b + z \<le> (m :: nat)"
proof -
  have "b = b div z * z" "m = m div z * z" using assms(2,3) by auto
  moreover from this have "b div z < m div z" using assms(1) by (metis mult_less_cancel2)
  then have "(b div z + 1) * z \<le> m div z * z" by (intro mult_le_mono1) simp
  ultimately show ?thesis by (metis distrib_right mult_1)
qed

section \<open>Changing a leaf\<close>

lemma modified_leaf:
  fixes e :: u64
  assumes "keeps la a c"
  defines "e' \<equiv> (e AND NOT c) OR a"
  shows "e' AND PFN_MASK = e AND PFN_MASK" "attr e' = (attr e AND NOT c) OR a" "bit e' 0 = bit e 0" "bit e' 1 = bit e 1"
proof -
  have z: "a AND PFN_MASK = 0" "c AND PFN_MASK = 0" "a AND 3 = 0" "c AND 3 = 0" using assms(1) by (simp_all add: keeps_def)
  note b = no_pfn_bits [OF z(1)] no_pfn_bits [OF z(2)] no_type_bits [OF z(3)] no_type_bits [OF z(4)]
  show "bit e' 0 = bit e 0" "bit e' 1 = bit e 1"
    using b(3) [of 0] b(3) [of 1] b(4) [of 0] b(4) [of 1] by (auto simp: e'_def bit_simps)
  show "e' AND PFN_MASK = e AND PFN_MASK"
    unfolding e'_def by (rule bit_eqI) (auto simp: bit_simps PFN_MASK_bits dest: b(1,2))
  have lt2: "n < 2" if "bit (3 :: int) n" for n using that bit_3_num(1) [of n] by auto
  show "attr e' = (attr e AND NOT c) OR a"
    unfolding e'_def attr_def
    by (rule bit_eqI) (auto simp: bit_simps PFN_MASK_bits dest: b lt2)
qed

lemma local_modify_leaf:
  assumes t: "tbl la k s pg" and i: "i < 512" and leaf: "bit (cell s pg i) 0" "\<not> is_table (cell s pg i) \<or> k = 0"
    and ty: "type = MR_DEL \<or> type = MR_MODIFY \<and> keeps la a c"
  defines "s' \<equiv> local_modify_or_del_pte (pg, i) a c type s"
  shows "slot_step la k pg i s s'" "walk_slot k s' (cell s' pg i) va = mod_eff type a c va (walk_slot k s (cell s pg i) va)"
    "pool s' = pool s"
proof -
  let ?e = "cell s pg i"
  have wf: "slot_wf la k s ?e" using t i by (simp add: tbl_def table_wf_def)
  have san: "\<not> bit (sanitized_page_hpa s) 0" using t by (simp add: tbl_def mm_ok_def)
  show "pool s' = pool s"
    by (simp add: s'_def local_modify_or_del_pte_def sanitize_pte_entry_def get_pgentry_def Let_def)
  show "slot_step la k pg i s s'"
    and "walk_slot k s' (cell s' pg i) va = mod_eff type a c va (walk_slot k s ?e va)"
  proof (atomize (full), cases "type = MR_MODIFY")
    case True
    then have kp: "keeps la a c" using ty by (auto simp: MR_DEL_def MR_MODIFY_def)
    let ?e' = "(?e AND NOT c) OR a"
    note m = modified_leaf [OF kp, of ?e]
    have s': "s' = write_pte (pg, i) ?e' s" using True by (simp add: s'_def local_modify_or_del_pte_def get_pgentry_def)
    have la: "la (attr ?e') = attr ?e'" if "la (attr ?e) = attr ?e" using that kp m(2) by (simp add: keeps_def)
    have nt: "\<not> is_table ?e' \<or> k = 0" using leaf m(3,4) by (simp add: is_table_def)
    have wf': "slot_wf la k u ?e'" for u
      using wf leaf m la by (cases k) (auto simp: slot_wf.simps is_table_def pbase_def)
    have "slot_step la k pg i s s'" unfolding s' by (rule write_slot [OF t i leaf(2) nt wf'])
    moreover have "walk_slot k s' ?e' va = mod_eff type a c va (walk_slot k s ?e va)"
      using leaf m True by (cases k) (auto simp: walk_slot.simps is_table_def pbase_def mod_eff_def)
    ultimately show "slot_step la k pg i s s' \<and>
        walk_slot k s' (cell s' pg i) va = mod_eff type a c va (walk_slot k s ?e va)" by (simp add: s')
  next
    case False
    then have s': "s' = write_pte (pg, i) (sanitized_page_hpa s) s"
      by (simp add: s'_def local_modify_or_del_pte_def sanitize_pte_entry_def)
    have "slot_step la k pg i s s'"
      unfolding s' using san by (intro write_slot [OF t i leaf(2)]) (auto simp: is_table_def absent_slot)
    then show "slot_step la k pg i s s' \<and>
        walk_slot k s' (cell s' pg i) va = mod_eff type a c va (walk_slot k s ?e va)"
      using san False by (simp add: s' absent_slot mod_eff_def)
  qed
qed

section \<open>Splitting a large page\<close>

context pgt_hooks
begin

lemma split_fold:
  assumes "\<And>j. j < n \<Longrightarrow> (p + of_nat j * inc) AND PFN_MASK = p + of_nat j * inc"
    and lv: "lv = PGT_LVL0 \<and> k = 0 \<or> lv \<noteq> PGT_LVL0 \<and> k \<noteq> 0"
  shows "\<exists>s'. fold (\<lambda>i (paddr, s). (paddr + inc, set_pgentry t (q, i) paddr prot lv True s)) [0..<n] (p, s) =
      (p + of_nat n * inc, s') \<and> pool s' = pool s \<and> sanitized_page_hpa s' = sanitized_page_hpa s \<and>
      (\<forall>j. cell s' q j = (if j < n then leaf_entry k (p + of_nat j * inc) prot else cell s q j)) \<and>
      (\<forall>r. r \<noteq> q \<longrightarrow> cell s' r = cell s r)"
  using assms(1)
proof (induction n)
  case (Suc n)
  have pre: "(p + of_nat j * inc) AND PFN_MASK = p + of_nat j * inc" if "j < n" for j
    using that by (intro Suc.prems) simp
  from Suc.IH [OF pre] obtain s' where IH: "fold (\<lambda>i (paddr, s). (paddr + inc, set_pgentry t (q, i) paddr prot lv True s)) [0..<n] (p, s) =
      (p + of_nat n * inc, s')" "pool s' = pool s" "sanitized_page_hpa s' = sanitized_page_hpa s"
      "\<And>j. cell s' q j = (if j < n then leaf_entry k (p + of_nat j * inc) prot else cell s q j)"
      "\<And>r. r \<noteq> q \<Longrightarrow> cell s' r = cell s r"
    by blast
  have "set_pgentry t (q, n) (p + of_nat n * inc) prot lv True s' =
      write_pte (q, n) (leaf_entry k (p + of_nat n * inc) prot) s'"
    using lv set_leaf_entry [OF Suc.prems [of n]] by auto
  then show ?case using IH by (simp add: less_Suc_eq algebra_simps)
qed simp

lemma split_large:
  assumes t: "tbl la (Suc k) s pg" and i: "i < 512" and k: "k \<le> 1"
    and lv: "lv = (if k = 0 then PGT_LVL1 else PGT_LVL2)"
    and e: "bit (cell s pg i) 0" "\<not> is_table (cell s pg i)"
    and r: "split_large_page (pg, i) lv t s = Some s2"
  shows "slot_step la (Suc k) pg i s s2" "is_table (cell s2 pg i)" "Suc (nfree (pool s2)) = nfree (pool s)"
    "walk_slot (Suc k) s2 (cell s2 pg i) va = walk_slot (Suc k) s (cell s pg i) va"
proof -
  let ?e = "cell s pg i" and ?lv = "level_plus_1 lv"
  let ?p = "?e AND PFN_MASK" and ?prot = "?e AND NOT PFN_MASK" and ?inc = "get_level_size (level_plus_1 lv)"
  have lvk: "?lv = PGT_LVL0 \<and> k = 0 \<or> ?lv \<noteq> PGT_LVL0 \<and> k \<noteq> 0" using lv by simp
  have inc: "unat ?inc = lsz k" using lv k unat_lsizes by (cases k) auto
  have ok: "pool_ok (pool s)" using t by (simp add: tbl_def mm_ok_def)
  have wf: "pbase ?e mod lsz (Suc k) = 0" "la (attr ?e) = attr ?e"
    using t i e by (auto simp: tbl_def table_wf_def slot_wf.simps is_table_def)
  let ?E = "\<lambda>j. leaf_entry k (?p + of_nat j * ?inc) ?prot"
  have pj: "unat (?p + of_nat j * ?inc) = pbase ?e + j * lsz k" "(?p + of_nat j * ?inc) AND PFN_MASK = ?p + of_nat j * ?inc"
    if j: "j < 512" for j
  proof -
    have "pbase ?e < 2 ^ 48" using unat_pfn(1) [of ?e] by (simp add: pbase_def)
    moreover have "(2 :: nat) ^ 48 mod lsz (Suc k) = 0" using k by (auto simp: lsz_def le_Suc_eq)
    ultimately have "pbase ?e + lsz (Suc k) \<le> 2 ^ 48" using wf(1) by (rule aligned_room)
    moreover have jl: "j * lsz k < lsz (Suc k)" using j by (simp add: lsz_Suc)
    ultimately have b: "pbase ?e + j * lsz k < 2 ^ 48" by linarith
    have uj: "unat (of_nat j :: u64) = j" using j by (intro unat_less_48) simp
    have "j * lsz k < 2 ^ 64" using b by simp
    then have m: "unat (of_nat j * ?inc) = j * lsz k" using uj inc by (subst unat_mult_nowrap) simp_all
    show u: "unat (?p + of_nat j * ?inc) = pbase ?e + j * lsz k"
      using b m by (subst unat_add_nowrap) (simp_all add: pbase_def)
    have "(pbase ?e + j * lsz k) mod lsz 0 = 0"
      using unat_pfn(2) [of ?e] aligned_down [of 0 k "j * lsz k"] by (simp add: pbase_def mod_add_eq [symmetric, of "unat ?p"] del: mod_add_eq)
    then show "(?p + of_nat j * ?inc) AND PFN_MASK = ?p + of_nat j * ?inc"
      using u b by (intro pfn_mask_aligned) simp_all
  qed
  obtain q s1 where al: "alloc_page s = Some (q, s1)"
    using r by (auto simp: split_large_page_def Let_def split: option.splits)
  obtain s' where f: "fold (\<lambda>i (paddr, s). (paddr + ?inc, set_pgentry t (q, i) paddr ?prot ?lv True s)) [0..<512] (?p, s1) =
      (?p + of_nat 512 * ?inc, s')" "pool s' = pool s1" "sanitized_page_hpa s' = sanitized_page_hpa s1"
      "\<And>j. j < 512 \<Longrightarrow> cell s' q j = ?E j" "\<And>r. r \<noteq> q \<Longrightarrow> cell s' r = cell s1 r"
    using split_fold [where n = 512 and s = s1 and q = q and prot = ?prot, OF pj(2) lvk] by auto
  have s2: "s2 = write_pte (pg, i) (table_entry q) s'"
    using r f(1) by (simp add: split_large_page_def get_pgentry_def pfn2paddr_masked al set_table hva2hpa_def table_entry_def Let_def)
  note a = alloc_pageD [OF ok al]
  note te = table_entry [OF page_addr_region [OF ok a(1)]]
  have pgq: "pg \<noteq> q" using t a(2) by (auto simp: tbl_def table_pages_def)
  have prot0: "?prot AND PFN_MASK = 0" by (rule bit_eqI) (auto simp: bit_simps)
  have Ewf: "slot_wf la k u (?E j)" "walk_slot k u (?E j) va = Some (pbase ?e + j * lsz k + va mod lsz k, la ?prot)"
    "\<not> is_table (?E j) \<or> k = 0" if j: "j < 512" for j u va
  proof -
    have al: "unat (?p + of_nat j * ?inc) mod lsz k = 0"
      unfolding pj(1) [OF j] using aligned_up [OF wf(1)] by (simp only: mod_mult_self1)
    note l = leaf_entry_wf [OF pj(2) [OF j] prot0 _ al] leaf_entry [OF pj(2) [OF j] prot0, of k]
    show "slot_wf la k u (?E j)" "walk_slot k u (?E j) va = Some (pbase ?e + j * lsz k + va mod lsz k, la ?prot)"
      using l(1,3) k pj(1) [OF j] by simp_all
    show "\<not> is_table (?E j) \<or> k = 0" using l(7) by (auto simp: is_table_def)
  qed
  have cells: "cell s2 q j = ?E j" if "j < 512" for j using that f(4) pgq by (simp add: s2)
  have L: "slot_step la (Suc k) pg i s s2" "Suc (nfree (pool s2)) = nfree (pool s)"
    "\<And>va. walk_slot (Suc k) s2 (table_entry q) va = walk_slot k s2 (?E (lidx k va)) va"
    by (rule link_table [OF t i e(2) al, where E = ?E and ?s2.0 = s2];
        use f(2,3,5) a(7,9) cells pgq te Ewf in \<open>simp add: s2\<close>)+
  show "slot_step la (Suc k) pg i s s2" "Suc (nfree (pool s2)) = nfree (pool s)" using L by simp_all
  have c: "cell s2 pg i = table_entry q" by (simp add: s2)
  then show "is_table (cell s2 pg i)" using te by simp
  have "?prot AND NOT 3 = attr ?e" by (simp only: attr_def and.assoc)
  then have "la ?prot = attr ?e" using la_ignores_type [of ?prot] wf(2) by metis
  then show "walk_slot (Suc k) s2 (cell s2 pg i) va = walk_slot (Suc k) s ?e va"
    unfolding c L(3) Ewf(2) [OF lidx_less] using e va_parts [of va k] by (simp add: walk_slot.simps is_table_def)
qed

lemma split_total:
  assumes "pool_ok (pool s)" "0 < nfree (pool s)"
  shows "\<exists>s2. split_large_page pte lv t s = Some s2"
proof -
  obtain q s1 where "alloc_page s = Some (q, s1)" by (rule alloc_page_free [OF assms])
  then show ?thesis by (simp add: split_large_page_def Let_def split: prod.splits)
qed

section \<open>Freeing an empty table\<close>

lemma try_to_free:
  fixes type :: u32
  assumes tb: "tbl la (Suc k) s pg" and i: "i < 512" and e: "is_table (cell s pg i)"
  defines "s' \<equiv> try_to_free_pgtable_page t (pg, i) (cell s pg i AND PFN_MASK) type s"
  shows "slot_step la (Suc k) pg i s s'" "nfree (pool s) \<le> nfree (pool s')"
    "walk_slot (Suc k) s' (cell s' pg i) va = walk_slot (Suc k) s (cell s pg i) va"
proof -
  let ?e = "cell s pg i" and ?q = "cell s pg i AND PFN_MASK"
  consider (keep) "s' = s" | (free) "\<And>j. j < 512 \<Longrightarrow> \<not> bit (cell s ?q j) 0" "s' = sanitize_pte_entry (pg, i) (free_page ?q s)"
  proof (cases "type = MR_DEL \<and> find (\<lambda>j. pgentry_present t (cell s ?q j) \<noteq> 0) [0..<512] = None")
    case True
    then have "\<not> bit (cell s ?q j) 0" if "j < 512" for j using that by (auto simp: find_None_iff absent)
    moreover have "s' = sanitize_pte_entry (pg, i) (free_page ?q s)"
      using True by (simp add: s'_def try_to_free_pgtable_page_def)
    ultimately show thesis by (rule that(2))
  next
    case False
    then have "s' = s" by (auto simp: s'_def try_to_free_pgtable_page_def split: option.splits)
    then show thesis by (rule that(1))
  qed
  then show "slot_step la (Suc k) pg i s s'" "nfree (pool s) \<le> nfree (pool s')"
    "walk_slot (Suc k) s' (cell s' pg i) va = walk_slot (Suc k) s ?e va"
  proof (atomize (full), cases)
    case keep
    then show "slot_step la (Suc k) pg i s s' \<and> nfree (pool s) \<le> nfree (pool s') \<and>
        walk_slot (Suc k) s' (cell s' pg i) va = walk_slot (Suc k) s ?e va"
      using slot_step_refl [OF tb i] by simp
  next
    case free
    have mm: "mm_ok s" using tb by (simp add: tbl_def)
    have ok: "pool_ok (pool s)" and san: "\<not> bit (sanitized_page_hpa s) 0" using mm by (simp_all add: mm_ok_def)
    have below: "slot_pages (Suc k) s ?e = {?q}"
      using free(1) e by (simp add: slot_pages_table table_pages_def absent_slot)
    have sub: "slot_pages (Suc k) s ?e \<subseteq> used (pool s)" and pgq: "pg \<notin> slot_pages (Suc k) s ?e" and pg: "pg \<in> used (pool s)"
      using tb i by (auto simp: tbl_def table_pages_def table_wf_def tree_def)
    have q: "?q \<in> used (pool s)" and ne: "pg \<noteq> ?q" using sub pgq below by auto
    note f = free_page_used [OF ok q]
    have s': "s' = write_pte (pg, i) (sanitized_page_hpa s) (free_page ?q s)"
      using free(2) f(5) by (simp add: sanitize_pte_entry_def)
    have e': "cell s' pg i = sanitized_page_hpa s" by (simp add: s')
    have env: "env_step s s'"
      using f san pg used_region [of "pool s"] by (auto simp: env_step_def mm_ok_def s')
    have "slot_step la (Suc k) pg i s s'"
      unfolding slot_step_def Let_def e' below
      using env f san by (simp add: s' absent_slot)
    moreover have "walk_slot (Suc k) s ?e va = None"
      using free(1) e by (simp add: walk_slot_table walk_table_def absent_slot)
    ultimately show "slot_step la (Suc k) pg i s s' \<and> nfree (pool s) \<le> nfree (pool s') \<and>
        walk_slot (Suc k) s' (cell s' pg i) va = walk_slot (Suc k) s ?e va"
      using san f(2) by (simp add: e' absent_slot s')
  qed
qed

section \<open>One entry\<close>

text \<open>The walk of the table below an entry, followed by the attempt to free it (\<open>fr\<close>).\<close>

definition below :: "bool \<Rightarrow> u32 \<Rightarrow> (u64 \<Rightarrow> nat \<Rightarrow> mm \<Rightarrow> mm option) \<Rightarrow> u64 \<Rightarrow> nat \<Rightarrow> nat \<Rightarrow> mm \<Rightarrow> mm option" where
  "below fr type child pg i v s =
     (case child (cell s pg i AND PFN_MASK) v s of
        None \<Rightarrow> None
      | Some s' \<Rightarrow> Some (if fr then try_to_free_pgtable_page t (pg, i) (cell s pg i AND PFN_MASK) type s' else s'))"

lemma below_sound:
  assumes child: "table_op la w k ve eff ok child" and okv: "ok (cell s pg i AND PFN_MASK) v s"
    and tb: "tbl la (Suc k) s pg" and i: "i < 512" and e: "is_table (cell s pg i)"
    and r: "below fr type child pg i v s = Some s'"
  shows "slot_step la (Suc k) pg i s s'"
    "changed (Suc k) v ve eff (walk_slot (Suc k) s (cell s pg i)) (walk_slot (Suc k) s' (cell s' pg i))"
proof -
  let ?q = "cell s pg i AND PFN_MASK"
  obtain s1 where c: "child ?q v s = Some s1"
    and s': "s' = (if fr then try_to_free_pgtable_page t (pg, i) ?q type s1 else s1)"
    using r by (auto simp: below_def split: option.splits)
  note ts = table_op.table_sound [OF child okv tbl_child [OF tb i e] c]
  note sl = table_step_slot [OF tb i e ts [THEN conjunct1]]
  have t1: "tbl la (Suc k) s1 pg" using table_step_tbl [OF slot_step_table(1) [OF tb sl(1) i]] .
  have e1: "cell s1 pg i = cell s pg i" using sl(2) by simp
  note f = try_to_free [OF t1 i, unfolded e1, OF e, of type]
  have st: "slot_step la (Suc k) pg i s1 s'"
    using f(1) slot_step_refl [OF t1 i] by (simp add: s')
  show "slot_step la (Suc k) pg i s s'" by (rule slot_step_trans [OF sl(1) st])
  have w: "walk_slot (Suc k) s' (cell s' pg i) = walk_slot (Suc k) s1 (cell s pg i)"
    using f(3) e1 by (auto simp: s')
  show "changed (Suc k) v ve eff (walk_slot (Suc k) s (cell s pg i)) (walk_slot (Suc k) s' (cell s' pg i))"
    unfolding w using ts e by (simp add: changed_def walk_slot_table)
qed

lemma below_total:
  assumes child: "table_op la w k ve eff ok child" and okv: "ok (cell s pg i AND PFN_MASK) v s"
    and tb: "tbl la (Suc k) s pg" and i: "i < 512" and e: "is_table (cell s pg i)"
    and n: "need w k v (min (lnext (Suc k) v) ve) \<le> nfree (pool s)"
  shows "\<exists>s'. below fr type child pg i v s = Some s' \<and> nfree (pool s) \<le> nfree (pool s') + need w k v (min (lnext (Suc k) v) ve)"
proof -
  let ?q = "cell s pg i AND PFN_MASK"
  obtain s1 where c: "child ?q v s = Some s1" and m: "nfree (pool s) \<le> nfree (pool s1) + need w k v (min (lnext (Suc k) v) ve)"
    using table_op.table_total [OF child okv tbl_child [OF tb i e] n] by blast
  note ts = table_op.table_sound [OF child okv tbl_child [OF tb i e] c]
  note sl = table_step_slot [OF tb i e ts [THEN conjunct1]]
  have t1: "tbl la (Suc k) s1 pg" using table_step_tbl [OF slot_step_table(1) [OF tb sl(1) i]] .
  have e1: "cell s1 pg i = cell s pg i" using sl(2) by simp
  note f = try_to_free(2) [OF t1 i, unfolded e1, OF e, of type]
  show ?thesis using c m f by (simp add: below_def)
qed

text \<open>The body of the loops of levels 1 and 2 in one form.\<close>

definition mod_slot ::
  "page_table_level \<Rightarrow> nat \<Rightarrow> u64 \<Rightarrow> u64 \<Rightarrow> u32 \<Rightarrow> nat \<Rightarrow> (u64 \<Rightarrow> nat \<Rightarrow> mm \<Rightarrow> mm option) \<Rightarrow> u64 \<Rightarrow> nat \<Rightarrow> mm \<Rightarrow> mm option"
where
  "mod_slot lv k a c type ve child pg v s =
     (let i = lidx k v; e = cell s pg i in
      if \<not> bit e 0 then Some s
      else if is_table e then below True type child pg i v s
      else if ve < lnext k v \<or> v mod lsz k \<noteq> 0 then
        case split_large_page (pg, i) lv t s of None \<Rightarrow> None | Some s \<Rightarrow> below True type child pg i v s
      else Some (local_modify_or_del_pte (pg, i) a c type s))"

lemma mod_slot_op:
  assumes child: "table_op la (\<lambda>_. True) k ve (mod_eff type a c) (mod_ok la a c type ve) child" and k: "k \<le> 1"
    and lv: "lv = (if k = 0 then PGT_LVL1 else PGT_LVL2)"
  shows "slot_op la (\<lambda>_. True) (Suc k) ve (mod_eff type a c) (mod_ok la a c type ve) (mod_slot lv (Suc k) a c type ve child)"
proof
  fix pg v s
  assume "mod_ok la a c type ve pg v s"
  then show "v < ve" by (simp add: mod_ok_def)
next
  fix pg v s s'
  let ?i = "lidx (Suc k) v" and ?eff = "mod_eff type a c"
  assume ok: "mod_ok la a c type ve pg v s" and tb: "tbl la (Suc k) s pg"
    and r: "mod_slot lv (Suc k) a c type ve child pg v s = Some s'"
  have ok': "mod_ok la a c type ve q v u" for q u using ok unfolding mod_ok_def .
  have ty: "type = MR_DEL \<or> type = MR_MODIFY \<and> keeps la a c" using ok by (simp add: mod_ok_def)
  let ?goal = "slot_step la (Suc k) pg ?i s s' \<and>
      changed (Suc k) v ve ?eff (walk_table (Suc k) s pg) (walk_slot (Suc k) s' (cell s' pg ?i))"
  have goalI: ?goal if "slot_step la (Suc k) pg ?i s s'"
    "changed (Suc k) v ve ?eff (walk_slot (Suc k) s (cell s pg ?i)) (walk_slot (Suc k) s' (cell s' pg ?i))"
    using that walk_in_slot [of _ "Suc k" v s pg] by (auto simp: changed_def)
  consider (absent) "\<not> bit (cell s pg ?i) 0" | (table) "is_table (cell s pg ?i)"
    | (split) "bit (cell s pg ?i) 0" "\<not> is_table (cell s pg ?i)" "ve < lnext (Suc k) v \<or> v mod lsz (Suc k) \<noteq> 0"
    | (whole) "bit (cell s pg ?i) 0" "\<not> is_table (cell s pg ?i)" "lnext (Suc k) v \<le> ve" "v mod lsz (Suc k) = 0"
    by fastforce
  then show ?goal
  proof cases
    case absent
    then have "s' = s" using r by (simp add: mod_slot_def)
    then show ?thesis
      using slot_step_refl [OF tb lidx_less] absent by (intro goalI) (auto simp: changed_def absent_slot mod_eff_def)
  next
    case table
    then have "below True type child pg ?i v s = Some s'"
      using r by (simp add: mod_slot_def is_table_def)
    from below_sound [OF child ok' tb lidx_less table this] show ?thesis by (rule goalI)
  next
    case split
    then obtain s2 where s2: "split_large_page (pg, ?i) lv t s = Some s2" and b: "below True type child pg ?i v s2 = Some s'"
      using r by (auto simp: mod_slot_def Let_def split: option.splits)
    note sp = split_large [OF tb lidx_less k lv split(1,2) s2]
    have t2: "tbl la (Suc k) s2 pg" using table_step_tbl [OF slot_step_table(1) [OF tb sp(1) lidx_less]] .
    note bs = below_sound [OF child ok' t2 lidx_less sp(2) b]
    show ?thesis using slot_step_trans [OF sp(1) bs(1)] bs(2) sp(4) by (intro goalI) (auto simp: changed_def)
  next
    case whole
    then have s': "s' = local_modify_or_del_pte (pg, ?i) a c type s" using r by (simp add: mod_slot_def)
    have nt: "\<not> is_table (cell s pg ?i) \<or> Suc k = 0" using whole(2) by simp
    note l = local_modify_leaf [OF tb lidx_less whole(1) nt ty, folded s']
    show ?thesis
    proof (rule goalI [OF l(1)])
      show "changed (Suc k) v ve ?eff (walk_slot (Suc k) s (cell s pg ?i)) (walk_slot (Suc k) s' (cell s' pg ?i))"
        unfolding changed_def
      proof (intro allI impI)
        fix va assume va: "va div lsz (Suc k) = v div lsz (Suc k)"
        have "v = v div lsz (Suc k) * lsz (Suc k)" using whole(4) by auto
        then have "v \<le> va" using va div_mult_mod_eq [of va "lsz (Suc k)"] by (metis le_add1)
        moreover have "va < ve" using in_slot_bounds(1) [OF va] whole(3) by linarith
        ultimately show "walk_slot (Suc k) s' (cell s' pg ?i) va =
            (if v \<le> va \<and> va < ve then ?eff va (walk_slot (Suc k) s (cell s pg ?i) va) else walk_slot (Suc k) s (cell s pg ?i) va)"
          using l(2) by simp
      qed
    qed
  qed
next
  fix pg v s
  let ?i = "lidx (Suc k) v" and ?b = "min (lnext (Suc k) v) ve"
  assume ok: "mod_ok la a c type ve pg v s" and tb: "tbl la (Suc k) s pg" and n: "need (\<lambda>_. True) (Suc k) v ?b \<le> nfree (pool s)"
  have ok': "mod_ok la a c type ve q v u" for q u using ok unfolding mod_ok_def .
  note ns = need_Suc_slot(1) [of "(\<lambda>_. True)" k v ?b]
  consider (table) "is_table (cell s pg ?i)"
    | (split) "bit (cell s pg ?i) 0" "\<not> is_table (cell s pg ?i)" "ve < lnext (Suc k) v \<or> v mod lsz (Suc k) \<noteq> 0"
    | (other) "\<not> is_table (cell s pg ?i)" "\<not> bit (cell s pg ?i) 0 \<or> \<not> (ve < lnext (Suc k) v \<or> v mod lsz (Suc k) \<noteq> 0)"
    by blast
  then show "\<exists>s'. mod_slot lv (Suc k) a c type ve child pg v s = Some s' \<and>
      nfree (pool s) \<le> nfree (pool s') + need (\<lambda>_. True) (Suc k) v ?b"
  proof cases
    case table
    have "need (\<lambda>_. True) k v ?b \<le> nfree (pool s)" using n ns by simp
    from below_total [OF child ok' tb lidx_less table this, of True type]
    show ?thesis using table ns by (auto simp: mod_slot_def is_table_def)
  next
    case split
    have ns: "need (\<lambda>_. True) (Suc k) v ?b = Suc (need (\<lambda>_. True) k v ?b)"
      using split(3) mod_ok_bounds(5) [OF ok] by (intro need_Suc_slot(2)) (auto simp: whole_def)
    have "pool_ok (pool s)" "0 < nfree (pool s)" using tb n ns by (simp_all add: tbl_def mm_ok_def)
    then obtain s2 where s2: "split_large_page (pg, ?i) lv t s = Some s2" using split_total by blast
    note sp = split_large [OF tb lidx_less k lv split(1,2) s2]
    have t2: "tbl la (Suc k) s2 pg" using table_step_tbl [OF slot_step_table(1) [OF tb sp(1) lidx_less]] .
    have "need (\<lambda>_. True) k v ?b \<le> nfree (pool s2)" using n ns sp(3) by simp
    from below_total [OF child ok' t2 lidx_less sp(2) this, of True type]
    show ?thesis using split s2 sp(3) ns by (auto simp: mod_slot_def)
  next
    case other
    have "pool (local_modify_or_del_pte (pg, ?i) a c type s) = pool s"
      by (simp add: local_modify_or_del_pte_def sanitize_pte_entry_def Let_def)
    then show ?thesis using other by (auto simp: mod_slot_def Let_def)
  qed
next
  fix pg v s s'
  assume "mod_ok la a c type ve pg v s" "lnext (Suc k) v < ve"
  then show "mod_ok la a c type ve pg (lnext (Suc k) v) s'" by (rule mod_ok_next)
qed

end

section \<open>The loops\<close>

context pgt_hooks
begin

definition mod0_op :: "u64 \<Rightarrow> u64 \<Rightarrow> u32 \<Rightarrow> u64 \<Rightarrow> nat \<Rightarrow> mm \<Rightarrow> mm option" where
  "mod0_op a c type pg v s =
     Some (if pgentry_present t (cell s pg (lidx 0 v)) = 0 then s
           else local_modify_or_del_pte (pg, lidx 0 v) a c type s)"

definition mod0 :: "u64 \<Rightarrow> u64 \<Rightarrow> u32 \<Rightarrow> nat \<Rightarrow> u64 \<Rightarrow> nat \<Rightarrow> mm \<Rightarrow> mm option" where
  "mod0 a c type ve pg v s = Some (modify_or_del_pgtl0_loop pg (lidx 0 v) (of_nat v) (of_nat ve) a c t type s)"

lemma mod0_slot_op: "slot_op la (\<lambda>_. True) 0 ve (mod_eff type a c) (mod_ok la a c type ve) (mod0_op a c type)"
proof
  fix pg v s s'
  assume ok: "mod_ok la a c type ve pg v s" and tb: "tbl la 0 s pg" and r: "mod0_op a c type pg v s = Some s'"
  let ?i = "lidx 0 v"
  have ty: "type = MR_DEL \<or> type = MR_MODIFY \<and> keeps la a c" using ok by (simp add: mod_ok_def)
  have ch: "changed 0 v ve (mod_eff type a c) (walk_table 0 s pg) (walk_slot 0 s' (cell s' pg ?i))"
    if w: "\<And>va. walk_slot 0 s' (cell s' pg ?i) va = mod_eff type a c va (walk_slot 0 s (cell s pg ?i) va)"
    unfolding changed_def
  proof (intro allI impI)
    fix va assume va: "va div lsz 0 = v div lsz 0"
    have "v mod lsz 0 = 0" "lnext 0 v \<le> ve" using ok aligned_range [of v ve] unfolding mod_ok_def by auto
    moreover from this have "v \<le> va" using va div_mult_mod_eq [of va "lsz 0"] div_mult_mod_eq [of v "lsz 0"]
      by (metis add_0_right le_add1)
    ultimately show "walk_slot 0 s' (cell s' pg ?i) va =
        (if v \<le> va \<and> va < ve then mod_eff type a c va (walk_table 0 s pg va) else walk_table 0 s pg va)"
      using w in_slot_bounds(1) [OF va] walk_in_slot [OF va, of s pg] by simp
  qed
  show "slot_step la 0 pg ?i s s' \<and> changed 0 v ve (mod_eff type a c) (walk_table 0 s pg) (walk_slot 0 s' (cell s' pg ?i))"
  proof (cases "bit (cell s pg ?i) 0")
    case True
    then have s': "s' = local_modify_or_del_pte (pg, ?i) a c type s" using r absent by (simp add: mod0_op_def)
    note l = local_modify_leaf [OF tb lidx_less True _ ty, folded s']
    show ?thesis using l(1) ch [OF l(2)] by simp
  next
    case False
    then have "s' = s" using r absent by (simp add: mod0_op_def)
    then show ?thesis using slot_step_refl [OF tb lidx_less] ch False by (simp add: mod_eff_def)
  qed
qed (use mod_ok_next mod_ok_bounds in \<open>auto simp: mod0_op_def local_modify_or_del_pte_def sanitize_pte_entry_def Let_def\<close>)

definition mod1_op :: "u64 \<Rightarrow> u64 \<Rightarrow> u32 \<Rightarrow> nat \<Rightarrow> u64 \<Rightarrow> nat \<Rightarrow> mm \<Rightarrow> mm option" where
  "mod1_op a c type ve pg v s =
     modify_or_del_pgtl1_entry (pg, lidx 1 v) (of_nat v) (of_nat (lnext 1 v)) (of_nat ve) a c t type s"

definition mod1 :: "u64 \<Rightarrow> u64 \<Rightarrow> u32 \<Rightarrow> nat \<Rightarrow> u64 \<Rightarrow> nat \<Rightarrow> mm \<Rightarrow> mm option" where
  "mod1 a c type ve pg v s = modify_or_del_pgtl1_loop pg (lidx 1 v) (of_nat v) (of_nat ve) a c t type s"

definition mod2_op :: "u64 \<Rightarrow> u64 \<Rightarrow> u32 \<Rightarrow> nat \<Rightarrow> u64 \<Rightarrow> nat \<Rightarrow> mm \<Rightarrow> mm option" where
  "mod2_op a c type ve pg v s =
     modify_or_del_pgtl2_entry (pg, lidx 2 v) (of_nat v) (of_nat (lnext 2 v)) (of_nat ve) a c t type s"

definition mod2 :: "u64 \<Rightarrow> u64 \<Rightarrow> u32 \<Rightarrow> nat \<Rightarrow> u64 \<Rightarrow> nat \<Rightarrow> mm \<Rightarrow> mm option" where
  "mod2 a c type ve pg v s = modify_or_del_pgtl2_loop pg (lidx 2 v) (of_nat v) (of_nat ve) a c t type s"

definition mod3_op :: "u64 \<Rightarrow> u64 \<Rightarrow> u32 \<Rightarrow> nat \<Rightarrow> u64 \<Rightarrow> nat \<Rightarrow> mm \<Rightarrow> mm option" where
  "mod3_op a c type ve pg v s = modify_or_del_pgtl2 (pg, lidx 3 v) (of_nat v) (of_nat ve) a c t type s"

definition mod3 :: "u64 \<Rightarrow> u64 \<Rightarrow> u32 \<Rightarrow> nat \<Rightarrow> u64 \<Rightarrow> nat \<Rightarrow> mm \<Rightarrow> mm option" where
  "mod3 a c type ve pg v s = modify_or_del_map_loop pg (of_nat v) (of_nat ve) a c t type s"

text \<open>At the top level every entry the range meets has to be present.\<close>

definition mod3_ok :: "u64 \<Rightarrow> u64 \<Rightarrow> u32 \<Rightarrow> nat \<Rightarrow> u64 \<Rightarrow> nat \<Rightarrow> mm \<Rightarrow> bool" where
  "mod3_ok a c type ve pg v s \<longleftrightarrow> mod_ok la a c type ve pg v s \<and>
     (\<forall>va. v \<le> va \<and> va < ve \<longrightarrow> bit (cell s pg (lidx 3 va)) 0)"

lemma mod1_eq:
  assumes ok: "mod_ok la a c type ve pg v s"
  shows "mod1_op a c type ve pg v s = mod_slot PGT_LVL1 1 a c type ve (mod0 a c type ve) pg v s"
proof -
  note b = mod_ok_bounds [OF ok]
  have sp: "((of_nat ve :: u64) < of_nat (lnext 1 v) \<or> \<not> mem_aligned_check (of_nat v) PGTL1_SIZE) \<longleftrightarrow>
      (ve < lnext 1 v \<or> v mod lsz 1 \<noteq> 0)"
    using word_aligned [OF unat_less_48 [OF b(1)]] word_less_of_nat [OF b(2) lnext_bound [OF b(1), of 1]] by simp
  have ch: "Some (modify_or_del_pgtl0 (pg, lidx 1 v) (of_nat v) (of_nat ve) a c t type u) =
      below True type (mod0 a c type ve) pg (lidx 1 v) v u" for u
    by (simp add: modify_or_del_pgtl0_def below_def mod0_def page_addr_pfn get_pgentry_def word_index [OF b(1)] Let_def)
  show ?thesis
    unfolding mod1_op_def modify_or_del_pgtl1_entry_def sp ch mod_slot_def get_pgentry_def fst_conv snd_conv Let_def entry_cases
    by (auto split: option.splits)
qed

lemma mod2_eq:
  assumes ok: "mod_ok la a c type ve pg v s"
  shows "mod2_op a c type ve pg v s = mod_slot PGT_LVL2 2 a c type ve (mod1 a c type ve) pg v s"
proof -
  note b = mod_ok_bounds [OF ok]
  have sp: "((of_nat ve :: u64) < of_nat (lnext 2 v) \<or> \<not> mem_aligned_check (of_nat v) PGTL2_SIZE) \<longleftrightarrow>
      (ve < lnext 2 v \<or> v mod lsz 2 \<noteq> 0)"
    using word_aligned [OF unat_less_48 [OF b(1)]] word_less_of_nat [OF b(2) lnext_bound [OF b(1), of 2]] by simp
  have ch: "modify_or_del_pgtl1 (pg, lidx 2 v) (of_nat v) (of_nat ve) a c t type u =
      below True type (mod1 a c type ve) pg (lidx 2 v) v u" for u
    by (simp add: modify_or_del_pgtl1_def below_def mod1_def page_addr_pfn get_pgentry_def word_index [OF b(1)] Let_def
        split: option.splits)
  show ?thesis
    unfolding mod2_op_def modify_or_del_pgtl2_entry_def sp ch mod_slot_def get_pgentry_def fst_conv snd_conv Let_def entry_cases
    by (auto split: option.splits)
qed

lemma mod3_eq:
  assumes ok: "mod_ok la a c type ve pg v s"
  shows "mod3_op a c type ve pg v s = below False type (mod2 a c type ve) pg (lidx 3 v) v s"
proof -
  note b = mod_ok_bounds [OF ok]
  show ?thesis
    by (simp add: mod3_op_def modify_or_del_pgtl2_def below_def mod2_def page_addr_pfn get_pgentry_def word_index [OF b(1)]
        Let_def split: option.splits)
qed

end

sublocale pgt_hooks < mod0: slot_loop la "\<lambda>_. True" 0 ve "mod_eff type a c" "mod_ok la a c type ve"
    "mod0_op a c type" "mod0 a c type ve" for a c type ve
proof (intro slot_loop.intro slot_loop_axioms.intro mod0_slot_op)
  fix pg v s
  assume ok: "mod_ok la a c type ve pg v s"
  note b = mod_ok_bounds [OF ok]
  have nx: "of_nat v + PGTL0_SIZE = (of_nat (lnext 0 v) :: u64)" using b(3) by (rule word_next0)
  have le: "(of_nat ve :: u64) \<le> of_nat (lnext 0 v) \<longleftrightarrow> \<not> lnext 0 v < ve"
    unfolding not_less using word_le_of_nat [OF b(2) lnext_bound [OF b(1), of 0]] by simp
  have full: "modify_or_del_pgtl0_loop pg (Suc (lidx 0 v)) x y z w t type u = u" if "\<not> Suc (lidx 0 v) < 512" for x y z w u
    using that by (subst modify_or_del_pgtl0_loop.simps) simp
  show "mod0 a c type ve pg v s = (case mod0_op a c type pg v s of None \<Rightarrow> None
      | Some s' \<Rightarrow> if lnext 0 v < ve \<and> Suc (lidx 0 v) < 512 then mod0 a c type ve pg (lnext 0 v) s' else Some s')"
    using lidx_lnext [of 0 v] full
    by (subst mod0_def, subst modify_or_del_pgtl0_loop.simps)
       (auto simp: mod0_op_def mod0_def Let_def nx le)
qed

context pgt_hooks
begin

lemma mod1_slot_op: "slot_op la (\<lambda>_. True) 1 ve (mod_eff type a c) (mod_ok la a c type ve) (mod1_op a c type ve)"
proof (rule slot_op_cong [OF _ mod1_eq])
  have "slot_op la (\<lambda>_. True) (Suc 0) ve (mod_eff type a c) (mod_ok la a c type ve)
      (mod_slot PGT_LVL1 (Suc 0) a c type ve (mod0 a c type ve))"
    by (rule mod_slot_op [OF mod0.looped.table_op_axioms]) simp_all
  then show "slot_op la (\<lambda>_. True) 1 ve (mod_eff type a c) (mod_ok la a c type ve)
      (mod_slot PGT_LVL1 1 a c type ve (mod0 a c type ve))"
    by (simp add: eval_nat_numeral)
qed

end

sublocale pgt_hooks < mod1: slot_loop la "\<lambda>_. True" 1 ve "mod_eff type a c" "mod_ok la a c type ve"
    "mod1_op a c type ve" "mod1 a c type ve" for a c type ve
proof (intro slot_loop.intro slot_loop_axioms.intro mod1_slot_op)
  fix pg v s
  assume ok: "mod_ok la a c type ve pg v s"
  note b = mod_ok_bounds [OF ok]
  have le: "(of_nat ve :: u64) \<le> of_nat (lnext 1 v) \<longleftrightarrow> \<not> lnext 1 v < ve"
    unfolding not_less using word_le_of_nat [OF b(2) lnext_bound [OF b(1), of 1]] by simp
  have full: "modify_or_del_pgtl1_loop pg (Suc (lidx 1 v)) x y z w t type u = Some u"
    if "\<not> Suc (lidx 1 v) < 512" for x y z w u
    using that by (subst modify_or_del_pgtl1_loop.simps) simp
  show "mod1 a c type ve pg v s = (case mod1_op a c type ve pg v s of None \<Rightarrow> None
      | Some s' \<Rightarrow> if lnext 1 v < ve \<and> Suc (lidx 1 v) < 512 then mod1 a c type ve pg (lnext 1 v) s' else Some s')"
    using lidx_lnext [of 1 v] full
    by (subst mod1_def, subst modify_or_del_pgtl1_loop.simps)
       (auto simp: mod1_op_def mod1_def Let_def word_next [OF b(1)] le
         Suc_eq_plus1 [symmetric] simp del: One_nat_def Suc_eq_plus1 split: option.splits)
qed

context pgt_hooks
begin

lemma mod2_slot_op: "slot_op la (\<lambda>_. True) 2 ve (mod_eff type a c) (mod_ok la a c type ve) (mod2_op a c type ve)"
proof (rule slot_op_cong [OF _ mod2_eq])
  have "slot_op la (\<lambda>_. True) (Suc 1) ve (mod_eff type a c) (mod_ok la a c type ve)
      (mod_slot PGT_LVL2 (Suc 1) a c type ve (mod1 a c type ve))"
    by (rule mod_slot_op [OF mod1.looped.table_op_axioms]) simp_all
  then show "slot_op la (\<lambda>_. True) 2 ve (mod_eff type a c) (mod_ok la a c type ve)
      (mod_slot PGT_LVL2 2 a c type ve (mod1 a c type ve))"
    by (simp add: eval_nat_numeral)
qed

end

sublocale pgt_hooks < mod2: slot_loop la "\<lambda>_. True" 2 ve "mod_eff type a c" "mod_ok la a c type ve"
    "mod2_op a c type ve" "mod2 a c type ve" for a c type ve
proof (intro slot_loop.intro slot_loop_axioms.intro mod2_slot_op)
  fix pg v s
  assume ok: "mod_ok la a c type ve pg v s"
  note b = mod_ok_bounds [OF ok]
  have le: "(of_nat ve :: u64) \<le> of_nat (lnext 2 v) \<longleftrightarrow> \<not> lnext 2 v < ve"
    unfolding not_less using word_le_of_nat [OF b(2) lnext_bound [OF b(1), of 2]] by simp
  have full: "modify_or_del_pgtl2_loop pg (Suc (lidx 2 v)) x y z w t type u = Some u"
    if "\<not> Suc (lidx 2 v) < 512" for x y z w u
    using that by (subst modify_or_del_pgtl2_loop.simps) simp
  show "mod2 a c type ve pg v s = (case mod2_op a c type ve pg v s of None \<Rightarrow> None
      | Some s' \<Rightarrow> if lnext 2 v < ve \<and> Suc (lidx 2 v) < 512 then mod2 a c type ve pg (lnext 2 v) s' else Some s')"
    using lidx_lnext [of 2 v] full
    by (subst mod2_def, subst modify_or_del_pgtl2_loop.simps)
       (auto simp: mod2_op_def mod2_def Let_def word_next [OF b(1)] le
         Suc_eq_plus1 [symmetric] simp del: One_nat_def Suc_eq_plus1 split: option.splits)
qed

context pgt_hooks
begin

lemma mod3_slot_op: "slot_op la (\<lambda>_. True) 3 ve (mod_eff type a c) (mod3_ok a c type ve) (mod3_op a c type ve)"
proof
  fix pg v s
  assume "mod3_ok a c type ve pg v s"
  then show "v < ve" by (simp add: mod3_ok_def mod_ok_def)
next
  fix pg v s s'
  assume ok: "mod3_ok a c type ve pg v s" and tb: "tbl la 3 s pg" and r: "mod3_op a c type ve pg v s = Some s'"
  let ?i = "lidx 3 v"
  have mo: "mod_ok la a c type ve pg v s" using ok by (simp add: mod3_ok_def)
  have e: "is_table (cell s pg ?i)" using top_entry [OF tb lidx_less] ok mod_ok_bounds(5) [OF mo] by (simp add: mod3_ok_def)
  have tb': "tbl la (Suc 2) s pg" using tb by simp
  have b: "below False type (mod2 a c type ve) pg ?i v s = Some s'" using r mod3_eq [OF mo] by simp
  have okc: "mod_ok la a c type ve q v u" for q u using mo unfolding mod_ok_def .
  note bs = below_sound [OF mod2.looped.table_op_axioms okc tb' lidx_less e b]
  show "slot_step la 3 pg ?i s s' \<and>
      changed 3 v ve (mod_eff type a c) (walk_table 3 s pg) (walk_slot 3 s' (cell s' pg ?i))"
    using bs walk_in_slot [of _ 3 v s pg] by (simp add: changed_def)
next
  fix pg v s
  let ?b = "min (lnext 3 v) ve"
  assume ok: "mod3_ok a c type ve pg v s" and tb: "tbl la 3 s pg" and n: "need (\<lambda>_. True) 3 v ?b \<le> nfree (pool s)"
  let ?i = "lidx 3 v"
  have mo: "mod_ok la a c type ve pg v s" using ok by (simp add: mod3_ok_def)
  have e: "is_table (cell s pg ?i)" using top_entry [OF tb lidx_less] ok mod_ok_bounds(5) [OF mo] by (simp add: mod3_ok_def)
  have tb': "tbl la (Suc 2) s pg" using tb by simp
  have okc: "mod_ok la a c type ve q v u" for q u using mo unfolding mod_ok_def .
  have ns: "need (\<lambda>_. True) 2 v ?b \<le> need (\<lambda>_. True) 3 v ?b" using need_Suc_slot(1) [of "(\<lambda>_. True)" 2 v ?b] by simp
  have "need (\<lambda>_. True) 2 v (min (lnext (Suc 2) v) ve) \<le> nfree (pool s)" using n ns by simp
  from below_total [OF mod2.looped.table_op_axioms okc tb' lidx_less e this, of False type]
  show "\<exists>s'. mod3_op a c type ve pg v s = Some s' \<and> nfree (pool s) \<le> nfree (pool s') + need (\<lambda>_. True) 3 v ?b"
    using ns mod3_eq [OF mo] by fastforce
next
  fix pg v s s'
  assume ok: "mod3_ok a c type ve pg v s" and st: "slot_step la 3 pg (lidx 3 v) s s'" and nx: "lnext 3 v < ve"
  have "cell s' pg (lidx 3 va) = cell s pg (lidx 3 va)" if va: "lnext 3 v \<le> va" "va < ve" for va
  proof -
    have "ve \<le> 2 ^ 48" using ok by (simp add: mod3_ok_def mod_ok_def)
    then have "v div lsz 3 < 512" "va div lsz 3 < 512"
      using va nx lnext_gt [of v 3] by (auto simp: lsz_def div_less_iff_less_mult)
    moreover have "v div lsz 3 < va div lsz 3"
      using div_le_mono [OF va(1), of "lsz 3"] lnext_div [of 3 v] by simp
    ultimately have "lidx 3 va \<noteq> lidx 3 v" by (simp add: lidx_def)
    then show ?thesis using st by (simp add: slot_step_def Let_def)
  qed
  then show "mod3_ok a c type ve pg (lnext 3 v) s'"
    using ok nx mod_ok_next lnext_gt [of v 3] unfolding mod3_ok_def by (metis less_imp_le_nat order_trans)
qed

end

sublocale pgt_hooks < mod3: slot_loop la "\<lambda>_. True" 3 ve "mod_eff type a c" "mod3_ok a c type ve"
    "mod3_op a c type ve" "mod3 a c type ve" for a c type ve
proof (intro slot_loop.intro slot_loop_axioms.intro mod3_slot_op)
  fix pg v s
  assume ok3: "mod3_ok a c type ve pg v s"
  then have ok: "mod_ok la a c type ve pg v s" and pr: "bit (cell s pg (lidx 3 v)) 0"
    by (simp_all add: mod3_ok_def mod_ok_def)
  note b = mod_ok_bounds [OF ok]
  have lt: "(of_nat v :: u64) < of_nat ve" using word_less_of_nat [OF b(4,2)] b(5) by simp
  have le: "(of_nat (lnext 3 v) :: u64) < of_nat ve \<longleftrightarrow> lnext 3 v < ve"
    using word_less_of_nat [OF lnext_bound [OF b(1), of 3] b(2)] by simp
  have last: "Suc (lidx 3 v) < 512" if "lnext 3 v < ve"
    using top_index [OF that] ok unfolding mod_ok_def by blast
  have stop: "modify_or_del_map_loop pg (of_nat (lnext 3 v)) (of_nat ve) x y t type u = Some u"
    if "\<not> lnext 3 v < ve" for x y u
    using that le by (subst modify_or_del_map_loop.simps) simp
  show "mod3 a c type ve pg v s = (case mod3_op a c type ve pg v s of None \<Rightarrow> None
      | Some s' \<Rightarrow> if lnext 3 v < ve \<and> Suc (lidx 3 v) < 512 then mod3 a c type ve pg (lnext 3 v) s' else Some s')"
    using last pr
    by (subst mod3_def, subst modify_or_del_map_loop.simps)
       (simp add: lt mod3_op_def mod3_def Let_def word_next [OF b(1)] word_index [OF b(1)] stop get_pgentry_def absent
         split: bind_splits option.splits)
qed

section \<open>\<open>pgtable_modify_or_del_map\<close>\<close>

text \<open>Every level-3 entry that the range meets is present.\<close>

definition covered :: "mm \<Rightarrow> u64 \<Rightarrow> nat \<Rightarrow> nat \<Rightarrow> bool" where
  "covered s root v ve \<longleftrightarrow> (\<forall>va. v \<le> va \<and> va < ve \<longrightarrow> bit (cell s root (lidx 3 va)) 0)"

context pgt_hooks
begin

lemma modify_map_cases:
  fixes vb sz :: u64
  defines "v0 \<equiv> unat (round_page_up vb)" and "n \<equiv> unat (round_page_down sz)"
  assumes b: "v0 + n \<le> 2 ^ 48" and ty: "type = MR_DEL \<or> type = MR_MODIFY \<and> keeps la a c"
    and cov: "covered s root v0 (v0 + n)"
  shows "n = 0 \<Longrightarrow> pgtable_modify_or_del_map root vb sz a c t type s = Some s"
    and "pgtable_modify_or_del_map root vb sz a c t type s = mod3 a c type (v0 + n) root v0 s"
    and "0 < n \<Longrightarrow> mod3_ok a c type (v0 + n) root v0 s"
proof -
  have vb: "round_page_up vb = of_nat v0" "round_page_down sz = of_nat n"
    by (simp_all add: v0_def n_def)
  have small: "v0 + n < 2 ^ 64" "v0 < 2 ^ 64" using b by simp_all
  have lt: "(of_nat v0 :: u64) < of_nat (v0 + n) \<longleftrightarrow> 0 < n"
    using word_less_of_nat [OF small(2,1)] by linarith
  show "pgtable_modify_or_del_map root vb sz a c t type s = Some s" if "n = 0"
    using that lt unfolding pgtable_modify_or_del_map_def vb Let_def by (subst modify_or_del_map_loop.simps) simp
  show "pgtable_modify_or_del_map root vb sz a c t type s = mod3 a c type (v0 + n) root v0 s"
    by (simp add: pgtable_modify_or_del_map_def vb Let_def mod3_def)
  show "mod3_ok a c type (v0 + n) root v0 s" if "0 < n"
    using that b ty cov round_aligned(1) [of vb] round_aligned(2) [of sz]
    by (auto simp: mod3_ok_def mod_ok_def v0_def n_def covered_def simp del: mod_0_imp_dvd)
qed

lemma modify_map_sound:
  fixes vb sz :: u64
  defines "v0 \<equiv> unat (round_page_up vb)" and "n \<equiv> unat (round_page_down sz)"
  assumes tb: "tbl la 3 s root" and b: "v0 + n \<le> 2 ^ 48" and ty: "type = MR_DEL \<or> type = MR_MODIFY \<and> keeps la a c"
    and cov: "covered s root v0 (v0 + n)" and r: "pgtable_modify_or_del_map root vb sz a c t type s = Some s'"
  shows "table_step la 3 root s s'"
    and "unat va < 2 ^ 48 \<Longrightarrow> xlate t s' root va =
      (if v0 \<le> unat va \<and> unat va < v0 + n then mod_eff type a c (unat va) (xlate t s root va) else xlate t s root va)"
proof -
  note c = modify_map_cases [of vb sz, folded v0_def n_def, OF b ty cov]
  have *: "table_step la 3 root s s' \<and> (unat va < 2 ^ 48 \<longrightarrow> walk_table 3 s' root (unat va) =
      (if v0 \<le> unat va \<and> unat va < v0 + n then mod_eff type a c (unat va) (walk_table 3 s root (unat va))
       else walk_table 3 s root (unat va)))" for va :: u64
  proof (cases "n = 0")
    case True
    then show ?thesis using c(1) r table_step_refl [OF tb] by auto
  next
    case False
    then have l: "mod3 a c type (v0 + n) root v0 s = Some s'" and ok: "mod3_ok a c type (v0 + n) root v0 s"
      using c(2,3) r by simp_all
    note ts = mod3.looped.table_sound [OF ok tb l]
    have "changed 4 v0 (v0 + n) (mod_eff type a c) (walk_table 3 s root) (walk_table 3 s' root)"
      using ts by simp
    then show ?thesis using ts changed_48 [of v0] b False by simp
  qed
  then show ts: "table_step la 3 root s s'" by blast
  show "unat va < 2 ^ 48 \<Longrightarrow> xlate t s' root va =
      (if v0 \<le> unat va \<and> unat va < v0 + n then mod_eff type a c (unat va) (xlate t s root va) else xlate t s root va)"
    using * [of va] by (simp add: xlate_walk [OF tb] xlate_walk [OF table_step_tbl [OF ts]])
qed

text \<open>The root table itself is never changed.\<close>

lemma mod3_root:
  assumes ok: "mod3_ok a c type ve pg v s" and tb: "tbl la 3 s pg" and r: "mod3_op a c type ve pg v s = Some s'"
  shows "cell s' pg = cell s pg"
proof -
  have mo: "mod_ok la a c type ve pg v s" using ok by (simp add: mod3_ok_def)
  have e: "is_table (cell s pg (lidx 3 v))"
    using top_entry [OF tb lidx_less] ok mod_ok_bounds(5) [OF mo] by (simp add: mod3_ok_def)
  have tb': "tbl la (Suc 2) s pg" using tb by simp
  have okc: "mod_ok la a c type ve q v u" for q u using mo unfolding mod_ok_def .
  have m: "mod2 a c type ve (cell s pg (lidx 3 v) AND PFN_MASK) v s = Some s'"
    using r mod3_eq [OF mo] by (simp add: below_def split: option.splits)
  have ts: "table_step la 2 (cell s pg (lidx 3 v) AND PFN_MASK) s s'"
    using mod2.looped.table_sound [OF okc tbl_child [OF tb' lidx_less e] m] by blast
  show ?thesis by (rule table_step_slot(2) [OF tb' lidx_less e ts])
qed

lemma modify_map_root:
  fixes vb sz :: u64
  defines "v0 \<equiv> unat (round_page_up vb)" and "n \<equiv> unat (round_page_down sz)"
  assumes tb: "tbl la 3 s root" and b: "v0 + n \<le> 2 ^ 48" and ty: "type = MR_DEL \<or> type = MR_MODIFY \<and> keeps la a c"
    and cov: "covered s root v0 (v0 + n)" and r: "pgtable_modify_or_del_map root vb sz a c t type s = Some s'"
  shows "cell s' root = cell s root"
proof -
  note c = modify_map_cases [of vb sz, folded v0_def n_def, OF b ty cov]
  show ?thesis
  proof (cases "n = 0")
    case False
    then have l: "mod3 a c type (v0 + n) root v0 s = Some s'" and ok: "mod3_ok a c type (v0 + n) root v0 s"
      using c(2,3) r by simp_all
    show ?thesis
      by (rule mod3.loop_keeps [where R = "\<lambda>s s'. cell s' root = cell s root", OF mod3_root _ ok tb l]) simp_all
  qed (use c(1) r in auto)
qed

text \<open>An address that is mapped lies below a present entry of the root table.\<close>

lemma covered_mapped:
  assumes tb: "tbl la 3 s root" and b: "ve \<le> 2 ^ 48"
    and m: "\<And>va. v \<le> unat va \<Longrightarrow> unat va < ve \<Longrightarrow> xlate t s root va \<noteq> None"
  shows "covered s root v ve"
  unfolding covered_def
proof (intro allI impI)
  fix va assume va: "v \<le> va \<and> va < ve"
  have u: "unat (of_nat va :: u64) = va" using va b by (intro unat_less_48) simp
  then have "walk_table 3 s root va \<noteq> None"
    using m [of "of_nat va"] va xlate_walk [OF tb, of "of_nat va"] by simp
  then show "bit (cell s root (lidx 3 va)) 0" 
    unfolding walk_table_def by (metis absent_slot(1))
qed

lemma modify_map_total:
  fixes vb sz :: u64
  defines "v0 \<equiv> unat (round_page_up vb)" and "n \<equiv> unat (round_page_down sz)"
  assumes tb: "tbl la 3 s root" and b: "v0 + n \<le> 2 ^ 48" and ty: "type = MR_DEL \<or> type = MR_MODIFY \<and> keeps la a c"
    and cov: "covered s root v0 (v0 + n)" and free: "need (\<lambda>_. True) 3 v0 (v0 + n) \<le> nfree (pool s)"
  shows "\<exists>s'. pgtable_modify_or_del_map root vb sz a c t type s = Some s' \<and>
    nfree (pool s) \<le> nfree (pool s') + need (\<lambda>_. True) 3 v0 (v0 + n)"
proof -
  note c = modify_map_cases [of vb sz, folded v0_def n_def, OF b ty cov]
  show ?thesis
  proof (cases "n = 0")
    case False
    then have ok: "mod3_ok a c type (v0 + n) root v0 s" using c(3) by simp
    have m: "min (lnext (Suc 3) v0) (v0 + n) = v0 + n"
      using lnext_4 [of v0] b False by simp
    show ?thesis
      unfolding c(2) by (rule mod3.looped.table_total [OF ok tb, unfolded m, OF free])
  qed (use c(1) in auto)
qed

end

section \<open>Regions\<close>

text \<open>The addresses that a call with this base and size covers, after rounding to whole pages.\<close>

definition in_range :: "u64 \<Rightarrow> u64 \<Rightarrow> u64 \<Rightarrow> bool" where
  "in_range b n va \<longleftrightarrow> unat (round_page_up b) \<le> unat va \<and> unat va < unat (round_page_up b) + unat (round_page_down n)"

definition range_ok :: "u64 \<Rightarrow> u64 \<Rightarrow> bool" where
  "range_ok b n \<longleftrightarrow> unat (round_page_up b) + unat (round_page_down n) \<le> 2 ^ 48"

text \<open>Table pages that an identity map of the region takes at most: four, and one for each 512 GB.\<close>

definition map_cost :: "u64 \<Rightarrow> u64 \<Rightarrow> nat" where
  "map_cost b n = 4 + slots 3 (unat (round_page_up b)) (unat (round_page_up b) + unat (round_page_down n))"

lemma need_3: "need w 3 a b = slot_cost w 1 a b + slot_cost w 2 a b + slot_cost w 3 a b"
  using need_Suc [of w 2 a b] need_Suc [of w 1 a b] need_Suc [of w 0 a b] by (simp add: numeral_2_eq_2 numeral_3_eq_3)

context pgt_hooks
begin

lemma identity_map:
  assumes tb: "tbl la 3 s root" and ok: "range_ok b n" "prot AND PFN_MASK = 0"
    and r: "pgtable_add_map root b b n prot t s = Some s'"
  shows "table_step la 3 root s s'"
    and "unat va < 2 ^ 48 \<Longrightarrow> xlate t s' root va =
      (case xlate t s root va of Some y \<Rightarrow> Some y | None \<Rightarrow> if in_range b n va then Some (unat va, la prot) else None)"
proof -
  have b: "unat (round_page_up b) + unat (round_page_down n) \<le> 2 ^ 48" using ok by (simp add: range_ok_def)
  note a = add_map_sound [OF tb b b ok(2) r]
  show "table_step la 3 root s s'" by (rule a(1))
  show "unat va < 2 ^ 48 \<Longrightarrow> xlate t s' root va =
      (case xlate t s root va of Some y \<Rightarrow> Some y | None \<Rightarrow> if in_range b n va then Some (unat va, la prot) else None)"
    using a(2) [of va] by (auto simp: in_range_def add_eff_def split: option.splits)
qed

lemma identity_total:
  assumes tb: "tbl la 3 s root" and ok: "range_ok b n" "prot AND PFN_MASK = 0"
    and lp: "large_page_support t PGT_LVL1 prot" "large_page_support t PGT_LVL2 prot"
    and free: "map_cost b n \<le> nfree (pool s)"
  shows "\<exists>s'. pgtable_add_map root b b n prot t s = Some s' \<and> nfree (pool s) \<le> nfree (pool s') + map_cost b n"
proof -
  let ?v = "unat (round_page_up b)" and ?n = "unat (round_page_down n)"
  have b: "?v + ?n \<le> 2 ^ 48" using ok by (simp add: range_ok_def)
  have c: "need (add_w ?v ?v prot) 3 ?v (?v + ?n) \<le> map_cost b n"
    using part_le_2 [of 1 ?v "?v + ?n"] part_le_2 [of 2 ?v "?v + ?n"] lp
    by (simp add: need_3 slot_cost_def add_w_def map_cost_def)
  then have "need (add_w ?v ?v prot) 3 ?v (?v + ?n) \<le> nfree (pool s)" using free by linarith
  from add_map_total [OF tb b b ok(2) this]
  show ?thesis using c by (meson add_left_mono order_trans)
qed

lemma change_map:
  assumes tb: "tbl la 3 s root" and ok: "range_ok b n" "type = MR_DEL \<or> type = MR_MODIFY \<and> keeps la a c"
    and cov: "covered s root (unat (round_page_up b)) (unat (round_page_up b) + unat (round_page_down n))"
    and r: "pgtable_modify_or_del_map root b n a c t type s = Some s'"
  shows "table_step la 3 root s s'" "cell s' root = cell s root"
    and "unat va < 2 ^ 48 \<Longrightarrow> xlate t s' root va =
      (if in_range b n va then mod_eff type a c (unat va) (xlate t s root va) else xlate t s root va)"
proof -
  have b: "unat (round_page_up b) + unat (round_page_down n) \<le> 2 ^ 48" using ok by (simp add: range_ok_def)
  note m = modify_map_sound [OF tb b ok(2) cov r]
  show "table_step la 3 root s s'" by (rule m(1))
  show "cell s' root = cell s root" by (rule modify_map_root [OF tb b ok(2) cov r])
  show "unat va < 2 ^ 48 \<Longrightarrow> xlate t s' root va =
      (if in_range b n va then mod_eff type a c (unat va) (xlate t s root va) else xlate t s root va)"
    using m(2) [of va] by (simp add: in_range_def)
qed

lemma change_total:
  assumes tb: "tbl la 3 s root" and ok: "range_ok b n" "type = MR_DEL \<or> type = MR_MODIFY \<and> keeps la a c"
    and cov: "covered s root (unat (round_page_up b)) (unat (round_page_up b) + unat (round_page_down n))"
    and free: "6 \<le> nfree (pool s)"
  shows "\<exists>s'. pgtable_modify_or_del_map root b n a c t type s = Some s' \<and> nfree (pool s) \<le> nfree (pool s') + 6"
proof -
  let ?v = "unat (round_page_up b)" and ?n = "unat (round_page_down n)"
  have b: "?v + ?n \<le> 2 ^ 48" using ok by (simp add: range_ok_def)
  have c: "need (\<lambda>_. True) 3 ?v (?v + ?n) \<le> 6"
    using part_le_2 [of 1 ?v "?v + ?n"] part_le_2 [of 2 ?v "?v + ?n"] part_le_2 [of 3 ?v "?v + ?n"]
    by (simp add: need_3 slot_cost_def)
  then have "need (\<lambda>_. True) 3 ?v (?v + ?n) \<le> nfree (pool s)" using free by linarith
  from modify_map_total [OF tb b ok(2) cov this]
  show ?thesis using c by (meson add_left_mono order_trans)
qed

end

end
