(* ===== verification/Arm64_Mmu.thy ===== *)
theory Arm64_Mmu
  imports Mmu_Modify
begin

text \<open>
  The EL2 stage-1 translation of the hypervisor itself (\<^verbatim>\<open>arch/arm64/mmu.c\<close>): its descriptor hooks,
  the identity map that \<open>init_hv_mapping\<close> builds over device windows and RAM, and the registers that
  \<open>enable_paging\<close> writes.  The platform's device windows, the RAM window, the reserved regions of
  the device tree and the image of the hypervisor are parameters.
\<close>

section \<open>Descriptor attributes\<close>

definition PAGE_ATTR_IDX_NORMAL :: u64 where "PAGE_ATTR_IDX_NORMAL = push_bit 2 0"
definition PAGE_ATTR_IDX_DEVICE :: u64 where "PAGE_ATTR_IDX_DEVICE = push_bit 2 1"
definition PAGE_SH_INNER :: u64 where "PAGE_SH_INNER = push_bit 8 3"
definition PAGE_AF :: u64 where "PAGE_AF = push_bit 10 1"
definition PAGE_PXN :: u64 where "PAGE_PXN = push_bit 53 1"
definition PAGE_UXN :: u64 where "PAGE_UXN = push_bit 54 1"
definition PAGE_ATTR_NORMAL :: u64 where "PAGE_ATTR_NORMAL = PAGE_ATTR_IDX_NORMAL OR PAGE_SH_INNER OR PAGE_AF"
definition PAGE_ATTR_DEVICE :: u64 where
  "PAGE_ATTR_DEVICE = PAGE_ATTR_IDX_DEVICE OR PAGE_SH_INNER OR PAGE_AF OR PAGE_PXN OR PAGE_UXN"

lemmas host_attrs = PAGE_ATTR_IDX_NORMAL_def PAGE_ATTR_IDX_DEVICE_def PAGE_SH_INNER_def PAGE_AF_def
  PAGE_PXN_def PAGE_UXN_def PAGE_ATTR_NORMAL_def PAGE_ATTR_DEVICE_def

section \<open>The hooks\<close>

definition ppt_large_page_support :: "page_table_level \<Rightarrow> u64 \<Rightarrow> bool" where
  "ppt_large_page_support level prot \<longleftrightarrow> level = PGT_LVL1 \<or> level = PGT_LVL2"

definition ppt_pgentry_present :: "u64 \<Rightarrow> u64" where
  "ppt_pgentry_present pte = pte AND PAGE_DESC_VALID"

definition arm64_leaf_desc_type :: "page_table_level \<Rightarrow> u64" where
  "arm64_leaf_desc_type level = (if level = PGT_LVL0 then PAGE_PAGE_DESC else PAGE_BLOCK_DESC)"

definition ppt_set_pgentry :: "pte_ptr \<Rightarrow> u64 \<Rightarrow> u64 \<Rightarrow> page_table_level \<Rightarrow> bool \<Rightarrow> mm \<Rightarrow> mm" where
  "ppt_set_pgentry pte page prot level is_leaf s =
     (let prot_tmp =
        (if \<not> is_leaf then PAGE_TABLE_DESC
         else
           let prot_tmp = (prot AND NOT PAGE_DESC_TYPE_MASK) OR arm64_leaf_desc_type level OR PAGE_AF in
           if prot_tmp AND (PAGE_ATTR_IDX_DEVICE OR PAGE_ATTR_NORMAL) = 0 then prot_tmp OR PAGE_ATTR_NORMAL
           else prot_tmp)
      in make_pgentry pte page prot_tmp s)"

definition ppt_pgtable :: pgtable where
  "ppt_pgtable = \<lparr>pgentry_present = ppt_pgentry_present, large_page_support = ppt_large_page_support,
     set_pgentry = ppt_set_pgentry\<rparr>"

section \<open>Building the map\<close>

record arm64_mem_region =
  base :: u64
  rsize :: u64

record el2_regs =
  mair_el2 :: u64
  tcr_el2 :: u64
  ttbr0_el2 :: u64
  sctlr_el2 :: u64

definition MAIR_EL2_VALUE :: u64 where "MAIR_EL2_VALUE = 0xff OR push_bit 8 0x04"
definition TCR_EL2_VALUE :: u64 where
  "TCR_EL2_VALUE = 16 OR push_bit 14 0 OR push_bit 12 3 OR push_bit 10 1 OR push_bit 8 1 OR push_bit 16 5"
definition SCTLR_EL2_M :: u64 where "SCTLR_EL2_M = push_bit 0 1"
definition SCTLR_EL2_VALUE :: u64 where
  "SCTLR_EL2_VALUE = SCTLR_EL2_M OR push_bit 2 1 OR push_bit 12 1 OR push_bit 3 1"

definition enable_paging :: "u64 \<Rightarrow> el2_regs \<Rightarrow> el2_regs" where
  "enable_paging init_ttbr0_el2 r =
     (let r = r\<lparr>mair_el2 := MAIR_EL2_VALUE\<rparr>; r = r\<lparr>tcr_el2 := TCR_EL2_VALUE\<rparr>;
          r = r\<lparr>ttbr0_el2 := init_ttbr0_el2\<rparr>; sctlr = sctlr_el2 r; sctlr = sctlr OR SCTLR_EL2_VALUE
      in r\<lparr>sctlr_el2 := sctlr\<rparr>)"

definition arm64_mmu_is_enabled :: "el2_regs \<Rightarrow> bool" where
  "arm64_mmu_is_enabled r \<longleftrightarrow> sctlr_el2 r AND SCTLR_EL2_M \<noteq> 0"

primrec map_mmio_regions :: "u64 \<Rightarrow> arm64_mem_region list \<Rightarrow> mm \<Rightarrow> mm option" where
  "map_mmio_regions root [] s = Some s"
| "map_mmio_regions root (r # rs) s =
     (case pgtable_add_map root (base r) (base r) (rsize r) (PAGE_ATTR_DEVICE OR PAGE_BLOCK_DESC) ppt_pgtable s of
        None \<Rightarrow> None | Some s \<Rightarrow> map_mmio_regions root rs s)"

primrec unmap_rsvd_regions :: "u64 \<Rightarrow> arm64_mem_region list \<Rightarrow> mm \<Rightarrow> mm option" where
  "unmap_rsvd_regions root [] s = Some s"
| "unmap_rsvd_regions root (r # rs) s =
     (case pgtable_modify_or_del_map root (base r) (rsize r) 0 0 ppt_pgtable MR_DEL s of
        None \<Rightarrow> None | Some s \<Rightarrow> unmap_rsvd_regions root rs s)"

record host_layout =
  mmio_regions :: "arm64_mem_region list"
  phys_mem :: arm64_mem_region
  rsvd_regions :: "arm64_mem_region list"
  hv_image :: arm64_mem_region

definition init_hv_mapping :: "host_layout \<Rightarrow> mm \<Rightarrow> el2_regs \<Rightarrow> (u64 \<times> mm \<times> el2_regs) option" where
  "init_hv_mapping h s r =
     Option.bind (alloc_page s) (\<lambda>(root, s).
     Option.bind (map_mmio_regions root (mmio_regions h) s) (\<lambda>s.
     Option.bind (pgtable_add_map root (base (phys_mem h)) (base (phys_mem h)) (rsize (phys_mem h))
         (PAGE_ATTR_NORMAL OR PAGE_BLOCK_DESC) ppt_pgtable s) (\<lambda>s.
     Option.bind (unmap_rsvd_regions root (rsvd_regions h) s) (\<lambda>s.
     Option.bind (pgtable_modify_or_del_map root (base (hv_image h)) (rsize (hv_image h)) 0 (PAGE_PXN OR PAGE_UXN)
         ppt_pgtable MR_MODIFY s) (\<lambda>s.
     Some (root, s, enable_paging root r))))))"

definition PPT_PAGE_NUM :: nat where "PPT_PAGE_NUM = 64"

definition init_paging :: "u64 \<Rightarrow> host_layout \<Rightarrow> mm \<Rightarrow> el2_regs \<Rightarrow> (u64 \<times> mm \<times> el2_regs) option" where
  "init_paging ppt_pages h s r =
     init_hv_mapping h (s\<lparr>pool := init_page_pool ppt_pages PPT_PAGE_NUM (pool s)\<rparr>) r"

definition dummy_pgtable_add_map :: "u64 \<Rightarrow> u64 \<Rightarrow> u64 \<Rightarrow> u64 \<Rightarrow> u64 \<Rightarrow> mm \<Rightarrow> mm option" where
  "dummy_pgtable_add_map ppt_mmu_top_addr paddr_base vaddr_base sz prot s =
     pgtable_add_map ppt_mmu_top_addr paddr_base vaddr_base sz prot ppt_pgtable s"

section \<open>The hooks satisfy what the walker relies on\<close>

text \<open>
  The access flag is one of the bits of \<open>PAGE_ATTR_NORMAL\<close> and is set before the test, so the test
  for a missing memory type never succeeds.
\<close>

definition ppt_leaf :: "u64 \<Rightarrow> u64" where
  "ppt_leaf prot = (prot AND NOT PAGE_DESC_TYPE_MASK) OR PAGE_AF"

lemma AF_exp: "PAGE_AF = 2 ^ 10"
  by (simp add: PAGE_AF_def)

lemma ppt_leaf_bits: "bit (ppt_leaf prot) n \<longleftrightarrow> bit prot n \<and> 2 \<le> n \<or> n = 10"
proof -
  have "bit (NOT (3 :: u64)) n \<longleftrightarrow> n < 64 \<and> 2 \<le> n"
    unfolding bit_not_iff bit_3 by (auto simp: possible_bit_word)
  moreover have "bit prot n \<Longrightarrow> n < 64" by (auto dest: bit_imp_le_length)
  ultimately show ?thesis
    unfolding ppt_leaf_def PAGE_DESC_TYPE_MASK_def AF_exp bit_or_iff bit_and_iff bit_exp_iff possible_bit_word
    by auto
qed

lemma ppt_default_dead: "(x OR PAGE_AF) AND (PAGE_ATTR_IDX_DEVICE OR PAGE_ATTR_NORMAL) \<noteq> 0"
proof -
  have "bit (PAGE_ATTR_IDX_DEVICE OR PAGE_ATTR_NORMAL) 10"
    by (simp add: host_attrs bit_or_iff)
  moreover have "bit (x OR PAGE_AF) 10" by (simp add: AF_exp bit_or_iff bit_exp_iff)
  ultimately show ?thesis by (metis bit_0_eq bit_and_iff bot_apply bot_bool_def)
qed

lemma ppt_set_leaf:
  "ppt_set_pgentry pte page prot lv True s =
     write_pte pte ((ppt_leaf prot OR (if lv = PGT_LVL0 then PAGE_PAGE_DESC else PAGE_BLOCK_DESC)) OR paddr2pfn page) s"
proof -
  let ?x = "(prot AND NOT PAGE_DESC_TYPE_MASK) OR arm64_leaf_desc_type lv"
  have "?x OR PAGE_AF = ppt_leaf prot OR arm64_leaf_desc_type lv" by (simp add: ppt_leaf_def ac_simps)
  moreover have "(?x OR PAGE_AF) AND (PAGE_ATTR_IDX_DEVICE OR PAGE_ATTR_NORMAL) \<noteq> 0" by (rule ppt_default_dead)
  ultimately show ?thesis
    unfolding ppt_set_pgentry_def make_pgentry_def Let_def or.assoc [symmetric] by (simp add: arm64_leaf_desc_type_def)
qed

interpretation ppt: pgt_hooks ppt_pgtable ppt_leaf
proof
  fix e pte page prot lv s
  show "pgentry_present ppt_pgtable e = e AND PAGE_DESC_VALID" by (simp add: ppt_pgtable_def ppt_pgentry_present_def)
  show "set_pgentry ppt_pgtable pte page prot lv False s = write_pte pte (PAGE_TABLE_DESC OR paddr2pfn page) s"
    by (simp add: ppt_pgtable_def ppt_set_pgentry_def make_pgentry_def)
  show "set_pgentry ppt_pgtable pte page prot lv True s =
      write_pte pte ((ppt_leaf prot OR (if lv = PGT_LVL0 then PAGE_PAGE_DESC else PAGE_BLOCK_DESC)) OR paddr2pfn page) s"
    by (simp add: ppt_pgtable_def ppt_set_leaf)
  show "ppt_leaf prot AND PFN_MASK = 0" if "prot AND PFN_MASK = 0"
    using no_pfn_bits [OF that] by (intro bit_eqI) (auto simp: bit_and_iff ppt_leaf_bits PFN_MASK_bits)
  show "ppt_leaf prot AND 3 = 0"
    by (rule bit_eqI) (simp only: bit_and_iff ppt_leaf_bits bit_3 bit_0_eq, auto)
  show "ppt_leaf (ppt_leaf prot) = ppt_leaf prot" by (rule bit_eqI) (auto simp: ppt_leaf_bits)
  show "ppt_leaf (prot AND NOT 3) = ppt_leaf prot" by (simp add: ppt_leaf_def PAGE_DESC_TYPE_MASK_def and.assoc)
qed

section \<open>The map the hypervisor runs on\<close>

abbreviation in_region :: "arm64_mem_region \<Rightarrow> u64 \<Rightarrow> bool" where
  "in_region r va \<equiv> in_range (base r) (rsize r) va"

text \<open>
  Device windows and RAM lie below 2^48.  Reserved regions and the image lie in RAM; reserved regions
  may come in any order and may overlap.
\<close>

definition layout_ok :: "host_layout \<Rightarrow> bool" where
  "layout_ok h \<longleftrightarrow> (\<forall>r\<in>set (mmio_regions h). range_ok (base r) (rsize r)) \<and>
     range_ok (base (phys_mem h)) (rsize (phys_mem h)) \<and>
     (\<forall>r\<in>insert (hv_image h) (set (rsvd_regions h)). range_ok (base r) (rsize r) \<and>
        (\<forall>va. in_region r va \<longrightarrow> in_region (phys_mem h) va))"

definition host_attr :: "host_layout \<Rightarrow> u64 \<Rightarrow> u64 \<Rightarrow> u64" where
  "host_attr h va a = (if in_region (hv_image h) va then a AND NOT (PAGE_PXN OR PAGE_UXN) else a)"

definition host_view :: "host_layout \<Rightarrow> u64 \<Rightarrow> xlat" where
  "host_view h va =
     (if \<exists>r\<in>set (rsvd_regions h). in_region r va then None
      else if \<exists>r\<in>set (mmio_regions h). in_region r va then Some (unat va, host_attr h va PAGE_ATTR_DEVICE)
      else if in_region (phys_mem h) va then Some (unat va, host_attr h va PAGE_ATTR_NORMAL)
      else None)"

lemma host_prots:
  "(PAGE_ATTR_DEVICE OR PAGE_BLOCK_DESC) AND PFN_MASK = 0" "(PAGE_ATTR_NORMAL OR PAGE_BLOCK_DESC) AND PFN_MASK = 0"
  "ppt_leaf (PAGE_ATTR_DEVICE OR PAGE_BLOCK_DESC) = PAGE_ATTR_DEVICE"
  "ppt_leaf (PAGE_ATTR_NORMAL OR PAGE_BLOCK_DESC) = PAGE_ATTR_NORMAL"
  by (simp_all add: host_attrs PAGE_BLOCK_DESC_def PFN_MASK_def ppt_leaf_def PAGE_DESC_TYPE_MASK_def)

lemma image_keeps: "keeps ppt_leaf 0 (PAGE_PXN OR PAGE_UXN)"
  unfolding keeps_def
proof (intro conjI allI impI)
  show "(PAGE_PXN OR PAGE_UXN) AND PFN_MASK = 0" "(PAGE_PXN OR PAGE_UXN) AND 3 = 0"
    by (simp_all add: host_attrs PFN_MASK_def)
  fix a assume a: "ppt_leaf a = a"
  have x: "bit PAGE_PXN n \<longleftrightarrow> n = 53" "bit PAGE_UXN n \<longleftrightarrow> n = 54" for n
    unfolding PAGE_PXN_def PAGE_UXN_def bit_push_bit_iff bit_1_iff by auto
  have "bit a n \<longleftrightarrow> bit a n \<and> 2 \<le> n \<or> n = 10" for n using ppt_leaf_bits [of a n] a by simp
  then show "ppt_leaf (a AND NOT (PAGE_PXN OR PAGE_UXN) OR 0) = a AND NOT (PAGE_PXN OR PAGE_UXN) OR 0"
    by (intro bit_eqI) (auto simp: ppt_leaf_bits bit_and_iff bit_or_iff bit_not_iff x)
qed simp_all

lemma map_mmio_sound:
  assumes "map_mmio_regions root rs s = Some s'" "tbl ppt_leaf 3 s root" "\<forall>r\<in>set rs. range_ok (base r) (rsize r)"
  shows "table_step ppt_leaf 3 root s s' \<and> (\<forall>va. unat va < 2 ^ 48 \<longrightarrow> xlate ppt_pgtable s' root va =
    (case xlate ppt_pgtable s root va of Some y \<Rightarrow> Some y
     | None \<Rightarrow> if \<exists>r\<in>set rs. in_region r va then Some (unat va, PAGE_ATTR_DEVICE) else None))"
  using assms
proof (induction rs arbitrary: s)
  case Nil
  then show ?case by (auto intro: table_step_refl split: option.splits)
next
  case (Cons r rs)
  obtain s1 where s1: "pgtable_add_map root (base r) (base r) (rsize r) (PAGE_ATTR_DEVICE OR PAGE_BLOCK_DESC) ppt_pgtable s = Some s1"
    and rest: "map_mmio_regions root rs s1 = Some s'" using Cons.prems(1) by (auto split: option.splits)
  have ok: "range_ok (base r) (rsize r)" using Cons.prems(3) by simp
  note i = ppt.identity_map [OF Cons.prems(2) ok host_prots(1) s1]
  have IH: "table_step ppt_leaf 3 root s1 s'" "\<And>va. unat va < 2 ^ 48 \<Longrightarrow> xlate ppt_pgtable s' root va =
    (case xlate ppt_pgtable s1 root va of Some y \<Rightarrow> Some y
     | None \<Rightarrow> if \<exists>r\<in>set rs. in_region r va then Some (unat va, PAGE_ATTR_DEVICE) else None)"
    using Cons.IH [OF rest table_step_tbl [OF i(1)]] Cons.prems(3) by simp_all
  show ?case
    using table_step_trans [OF i(1) IH(1)] IH(2) i(2) host_prots(3) by (auto split: option.splits)
qed

lemma unmap_rsvd_sound:
  assumes "unmap_rsvd_regions root rs s = Some s'" "tbl ppt_leaf 3 s root"
    "\<And>r. r \<in> set rs \<Longrightarrow> range_ok (base r) (rsize r)"
    "\<And>r. r \<in> set rs \<Longrightarrow> covered s root (unat (round_page_up (base r))) (unat (round_page_up (base r)) + unat (round_page_down (rsize r)))"
  shows "table_step ppt_leaf 3 root s s' \<and> cell s' root = cell s root \<and>
    (\<forall>va. unat va < 2 ^ 48 \<longrightarrow> xlate ppt_pgtable s' root va =
      (if \<exists>r\<in>set rs. in_region r va then None else xlate ppt_pgtable s root va))"
  using assms
proof (induction rs arbitrary: s)
  case Nil
  then show ?case by (auto intro: table_step_refl)
next
  case (Cons r rs)
  obtain s1 where s1: "pgtable_modify_or_del_map root (base r) (rsize r) 0 0 ppt_pgtable MR_DEL s = Some s1"
    and rest: "unmap_rsvd_regions root rs s1 = Some s'" using Cons.prems(1) by (auto split: option.splits)
  have ok: "range_ok (base r) (rsize r)" using Cons.prems(3) by simp
  note c = ppt.change_map [OF Cons.prems(2) ok _ Cons.prems(4) s1]
  have cov: "covered s1 root v ve = covered s root v ve" for v ve
    using c(2) by (simp add: covered_def)
  have IH: "table_step ppt_leaf 3 root s1 s'" "cell s' root = cell s1 root" "\<And>va. unat va < 2 ^ 48 \<Longrightarrow> xlate ppt_pgtable s' root va =
      (if \<exists>r\<in>set rs. in_region r va then None else xlate ppt_pgtable s1 root va)"
    using Cons.IH [OF rest table_step_tbl [OF c(1)]] Cons.prems(3,4) cov by simp_all
  have "mod_eff MR_DEL 0 0 va x = None" for va x by (simp add: mod_eff_def MR_DEL_def MR_MODIFY_def)
  then show ?case
    using table_step_trans [OF c(1) IH(1)] IH(2,3) c(2,3) by auto
qed

definition ppt_mem_ok :: "u64 \<Rightarrow> mm \<Rightarrow> bool" where
  "ppt_mem_ok ppt_pages s \<longleftrightarrow> ppt_pages \<noteq> 0 \<and> unat ppt_pages mod lsz 0 = 0 \<and>
     unat ppt_pages + lsz 0 * PPT_PAGE_NUM \<le> 2 ^ 48 \<and> last_hint_id (pool s) = 0 \<and> sanitized_page_hpa s = 0"

lemma ppt_pool:
  assumes "ppt_mem_ok ppt_pages s"
  defines "s0 \<equiv> s\<lparr>pool := init_page_pool ppt_pages PPT_PAGE_NUM (pool s)\<rparr>"
  shows "mm_ok s0" "used (pool s0) = {}" "nfree (pool s0) = 64"
  using init_page_pool_ok [of ppt_pages 1 "pool s"] assms(1)
  by (simp_all add: s0_def ppt_mem_ok_def mm_ok_def PPT_PAGE_NUM_def)

lemma layout_region:
  assumes "layout_ok h" "r \<in> insert (hv_image h) (set (rsvd_regions h))" "tbl ppt_leaf 3 s root"
    "\<And>va. unat va < 2 ^ 48 \<Longrightarrow> in_region (phys_mem h) va \<Longrightarrow> xlate ppt_pgtable s root va \<noteq> None"
  shows "range_ok (base r) (rsize r)"
    "covered s root (unat (round_page_up (base r))) (unat (round_page_up (base r)) + unat (round_page_down (rsize r)))"
proof -
  show ok: "range_ok (base r) (rsize r)" using assms(1,2) by (auto simp: layout_ok_def)
  show "covered s root (unat (round_page_up (base r))) (unat (round_page_up (base r)) + unat (round_page_down (rsize r)))"
  proof (rule ppt.covered_mapped [OF assms(3)])
    show "unat (round_page_up (base r)) + unat (round_page_down (rsize r)) \<le> 2 ^ 48" using ok by (simp add: range_ok_def)
    fix va :: u64
    assume "unat (round_page_up (base r)) \<le> unat va" "unat va < unat (round_page_up (base r)) + unat (round_page_down (rsize r))"
    then have "in_region r va" "unat va < 2 ^ 48" using ok by (simp_all add: in_range_def range_ok_def)
    then show "xlate ppt_pgtable s root va \<noteq> None" using assms(1,2,4) unfolding layout_ok_def by blast
  qed
qed

text \<open>The state after the device windows and RAM are mapped.\<close>

lemma mapped_sound:
  assumes h: "layout_ok h" and tb: "tbl ppt_leaf 3 s root" and fresh: "\<And>va. xlate ppt_pgtable s root va = None"
    and m: "map_mmio_regions root (mmio_regions h) s = Some s1"
    and a: "pgtable_add_map root (base (phys_mem h)) (base (phys_mem h)) (rsize (phys_mem h))
      (PAGE_ATTR_NORMAL OR PAGE_BLOCK_DESC) ppt_pgtable s1 = Some s2"
  shows "table_step ppt_leaf 3 root s s2"
    and "unat va < 2 ^ 48 \<Longrightarrow> xlate ppt_pgtable s2 root va =
      (if \<exists>r\<in>set (mmio_regions h). in_region r va then Some (unat va, PAGE_ATTR_DEVICE)
       else if in_region (phys_mem h) va then Some (unat va, PAGE_ATTR_NORMAL) else None)"
proof -
  have ok: "range_ok (base (phys_mem h)) (rsize (phys_mem h))" "\<forall>r\<in>set (mmio_regions h). range_ok (base r) (rsize r)"
    using h by (simp_all add: layout_ok_def)
  note ms = map_mmio_sound [OF m tb ok(2)]
  note i = ppt.identity_map [OF table_step_tbl [OF ms [THEN conjunct1]] ok(1) host_prots(2) a]
  show "table_step ppt_leaf 3 root s s2" using table_step_trans [OF ms [THEN conjunct1] i(1)] .
  show "unat va < 2 ^ 48 \<Longrightarrow> xlate ppt_pgtable s2 root va =
      (if \<exists>r\<in>set (mmio_regions h). in_region r va then Some (unat va, PAGE_ATTR_DEVICE)
       else if in_region (phys_mem h) va then Some (unat va, PAGE_ATTR_NORMAL) else None)"
    using i(2) ms fresh host_prots(4) by simp
qed

lemma init_hv_mapping_sound:
  assumes h: "layout_ok h" and mm: "mm_ok s" and r: "init_hv_mapping h s r = Some (root, s', r')"
  shows "table_step ppt_leaf 3 root (snd (the (alloc_page s))) s'" "r' = enable_paging root r"
    "unat va < 2 ^ 48 \<Longrightarrow> xlate ppt_pgtable s' root va = host_view h va"
    "used (pool s') = used (pool s) \<union> table_pages 3 s' root"
proof -
  obtain s0 s1 s2 s3 where al: "alloc_page s = Some (root, s0)"
    and m: "map_mmio_regions root (mmio_regions h) s0 = Some s1"
    and a: "pgtable_add_map root (base (phys_mem h)) (base (phys_mem h)) (rsize (phys_mem h))
      (PAGE_ATTR_NORMAL OR PAGE_BLOCK_DESC) ppt_pgtable s1 = Some s2"
    and u: "unmap_rsvd_regions root (rsvd_regions h) s2 = Some s3"
    and i: "pgtable_modify_or_del_map root (base (hv_image h)) (rsize (hv_image h)) 0 (PAGE_PXN OR PAGE_UXN)
         ppt_pgtable MR_MODIFY s3 = Some s'"
    and r': "r' = enable_paging root r"
    using r by (auto simp: init_hv_mapping_def bind_eq_Some_conv)
  note f = fresh_root(1) [OF mm al, where la = ppt_leaf and k = 3] fresh_root(2,3) [OF mm al, where k = 3]
    fresh_root(4,5) [OF mm al]
  have fresh: "xlate ppt_pgtable s0 root va = None" for va using ppt.xlate_walk [OF f(1)] f(2) by simp
  note ms = mapped_sound [OF h f(1) fresh m a]
  have tb2: "tbl ppt_leaf 3 s2 root" using table_step_tbl [OF ms(1)] .
  note reg = layout_region [OF h _ tb2]
  have mapped: "xlate ppt_pgtable s2 root va \<noteq> None" if "unat va < 2 ^ 48" "in_region (phys_mem h) va" for va
    using ms(2) [OF that(1)] that(2) by simp
  have us: "table_step ppt_leaf 3 root s2 s3" "cell s3 root = cell s2 root"
    "\<And>va. unat va < 2 ^ 48 \<Longrightarrow> xlate ppt_pgtable s3 root va =
      (if \<exists>r\<in>set (rsvd_regions h). in_region r va then None else xlate ppt_pgtable s2 root va)"
    using unmap_rsvd_sound [OF u tb2 reg(1) reg(2)] mapped by blast+
  have ci: "covered s3 root (unat (round_page_up (base (hv_image h))))
      (unat (round_page_up (base (hv_image h))) + unat (round_page_down (rsize (hv_image h))))"
    using reg(2) [of "hv_image h"] mapped us(2) by (simp add: covered_def)
  have ty: "MR_MODIFY = MR_DEL \<or> MR_MODIFY = MR_MODIFY \<and> keeps ppt_leaf 0 (PAGE_PXN OR PAGE_UXN)"
    using image_keeps by simp
  note cm = ppt.change_map [OF table_step_tbl [OF us(1)] reg(1) [of "hv_image h"] ty ci i]
  have st: "table_step ppt_leaf 3 root s0 s'"
    using table_step_trans [OF table_step_trans [OF ms(1) us(1)] cm(1)] mapped by simp
  then show "table_step ppt_leaf 3 root (snd (the (alloc_page s))) s'" by (simp add: al)
  show "r' = enable_paging root r" by (rule r')
  show "xlate ppt_pgtable s' root va = host_view h va" if "unat va < 2 ^ 48"
    using cm(3) [OF _ _ that] us(3) [OF that] ms(2) [OF that] mapped
    by (simp add: host_view_def host_attr_def mod_eff_def)
  show "used (pool s') = used (pool s) \<union> table_pages 3 s' root"
    using st f(3,4,5) by (simp add: table_step_def Let_def)
qed

text \<open>The 64 pages reserved for the tables are enough.\<close>

definition host_cost :: "host_layout \<Rightarrow> nat" where
  "host_cost h = 1 + sum_list (map (\<lambda>r. map_cost (base r) (rsize r)) (mmio_regions h)) +
     map_cost (base (phys_mem h)) (rsize (phys_mem h)) + 6 * length (rsvd_regions h) + 6"

lemma ppt_large: "large_page_support ppt_pgtable PGT_LVL1 prot" "large_page_support ppt_pgtable PGT_LVL2 prot"
  by (simp_all add: ppt_pgtable_def ppt_large_page_support_def)

lemma map_mmio_total:
  assumes "tbl ppt_leaf 3 s root" "\<forall>r\<in>set rs. range_ok (base r) (rsize r)"
    "sum_list (map (\<lambda>r. map_cost (base r) (rsize r)) rs) \<le> nfree (pool s)"
  shows "\<exists>s'. map_mmio_regions root rs s = Some s' \<and>
    nfree (pool s) \<le> nfree (pool s') + sum_list (map (\<lambda>r. map_cost (base r) (rsize r)) rs)"
  using assms
proof (induction rs arbitrary: s)
  case (Cons r rs)
  have ok: "range_ok (base r) (rsize r)" and c: "map_cost (base r) (rsize r) \<le> nfree (pool s)" using Cons.prems by simp_all
  obtain s1 where s1: "pgtable_add_map root (base r) (base r) (rsize r) (PAGE_ATTR_DEVICE OR PAGE_BLOCK_DESC) ppt_pgtable s = Some s1"
    "nfree (pool s) \<le> nfree (pool s1) + map_cost (base r) (rsize r)"
    using ppt.identity_total [OF Cons.prems(1) ok host_prots(1) ppt_large c] by blast
  have "tbl ppt_leaf 3 s1 root" using table_step_tbl [OF ppt.identity_map(1) [OF Cons.prems(1) ok host_prots(1) s1(1)]] .
  then obtain s' where "map_mmio_regions root rs s1 = Some s'"
    "nfree (pool s1) \<le> nfree (pool s') + sum_list (map (\<lambda>r. map_cost (base r) (rsize r)) rs)"
    using Cons.IH [of s1] Cons.prems(2,3) s1(2) by auto
  then show ?case using s1 by auto
qed simp

lemma unmap_rsvd_total:
  assumes "tbl ppt_leaf 3 s root" "\<And>r. r \<in> set rs \<Longrightarrow> range_ok (base r) (rsize r)"
    "\<And>r. r \<in> set rs \<Longrightarrow> covered s root (unat (round_page_up (base r))) (unat (round_page_up (base r)) + unat (round_page_down (rsize r)))"
    "6 * length rs \<le> nfree (pool s)"
  shows "\<exists>s'. unmap_rsvd_regions root rs s = Some s' \<and> nfree (pool s) \<le> nfree (pool s') + 6 * length rs"
  using assms
proof (induction rs arbitrary: s)
  case (Cons r rs)
  have ok: "range_ok (base r) (rsize r)" using Cons.prems(2) by simp
  have cv: "covered s root (unat (round_page_up (base r))) (unat (round_page_up (base r)) + unat (round_page_down (rsize r)))"
    using Cons.prems(3) by simp
  have ty: "MR_DEL = MR_DEL \<or> MR_DEL = MR_MODIFY \<and> keeps ppt_leaf 0 0" by simp
  have six: "6 \<le> nfree (pool s)" using Cons.prems(4) by simp
  obtain s1 where s1: "pgtable_modify_or_del_map root (base r) (rsize r) 0 0 ppt_pgtable MR_DEL s = Some s1"
    "nfree (pool s) \<le> nfree (pool s1) + 6"
    using ppt.change_total [OF Cons.prems(1) ok ty cv six] by blast
  note c = ppt.change_map [OF Cons.prems(1) ok ty cv s1(1)]
  have cov: "covered s1 root v ve = covered s root v ve" for v ve
    using c(2) by (simp add: covered_def)
  obtain s' where "unmap_rsvd_regions root rs s1 = Some s'" "nfree (pool s1) \<le> nfree (pool s') + 6 * length rs"
    using Cons.IH [OF table_step_tbl [OF c(1)]] Cons.prems(2,3,4) cov s1(2) by auto
  then show ?case using s1 by auto
qed simp

lemma init_hv_mapping_total:
  assumes h: "layout_ok h" and mm: "mm_ok s" and c: "host_cost h \<le> nfree (pool s)"
  shows "\<exists>root s' r'. init_hv_mapping h s r = Some (root, s', r')"
proof -
  let ?mc = "sum_list (map (\<lambda>r. map_cost (base r) (rsize r)) (mmio_regions h))"
  let ?rc = "map_cost (base (phys_mem h)) (rsize (phys_mem h))"
  have ok: "range_ok (base (phys_mem h)) (rsize (phys_mem h))" "\<forall>r\<in>set (mmio_regions h). range_ok (base r) (rsize r)"
    using h by (simp_all add: layout_ok_def)
  have "pool_ok (pool s)" "0 < nfree (pool s)" using mm c by (simp_all add: mm_ok_def host_cost_def)
  then obtain root s0 where al: "alloc_page s = Some (root, s0)" by (rule alloc_page_free)
  note f = fresh_root(1) [OF mm al, where la = ppt_leaf and k = 3] fresh_root(2) [OF mm al, where k = 3] fresh_root(6) [OF mm al]
  have fresh: "xlate ppt_pgtable s0 root va = None" for va using ppt.xlate_walk [OF f(1)] f(2) by simp
  obtain s1 where m: "map_mmio_regions root (mmio_regions h) s0 = Some s1" "nfree (pool s0) \<le> nfree (pool s1) + ?mc"
    using map_mmio_total [OF f(1) ok(2)] c f(3) by (auto simp: host_cost_def)
  have t1: "tbl ppt_leaf 3 s1 root" using map_mmio_sound [OF m(1) f(1) ok(2)] table_step_tbl by blast
  have "?rc \<le> nfree (pool s1)" using c f(3) m(2) by (simp add: host_cost_def)
  then obtain s2 where a: "pgtable_add_map root (base (phys_mem h)) (base (phys_mem h)) (rsize (phys_mem h))
      (PAGE_ATTR_NORMAL OR PAGE_BLOCK_DESC) ppt_pgtable s1 = Some s2" "nfree (pool s1) \<le> nfree (pool s2) + ?rc"
    using ppt.identity_total [OF t1 ok(1) host_prots(2) ppt_large] by blast
  note ms = mapped_sound [OF h f(1) fresh m(1) a(1)]
  have tb2: "tbl ppt_leaf 3 s2 root" using table_step_tbl [OF ms(1)] .
  note reg = layout_region [OF h _ tb2]
  have mapped: "xlate ppt_pgtable s2 root va \<noteq> None" if "unat va < 2 ^ 48" "in_region (phys_mem h) va" for va
    using ms(2) [OF that(1)] that(2) by simp
  have "6 * length (rsvd_regions h) \<le> nfree (pool s2)" using c f(3) m(2) a(2) by (simp add: host_cost_def)
  then obtain s3 where u: "unmap_rsvd_regions root (rsvd_regions h) s2 = Some s3"
      "nfree (pool s2) \<le> nfree (pool s3) + 6 * length (rsvd_regions h)"
    using unmap_rsvd_total [OF tb2 reg(1) reg(2)] mapped by blast
  have us: "table_step ppt_leaf 3 root s2 s3" "cell s3 root = cell s2 root"
    using unmap_rsvd_sound [OF u(1) tb2 reg(1) reg(2)] mapped by blast+
  have ci: "covered s3 root (unat (round_page_up (base (hv_image h))))
      (unat (round_page_up (base (hv_image h))) + unat (round_page_down (rsize (hv_image h))))"
    using reg(2) [of "hv_image h"] mapped us(2) by (simp add: covered_def)
  have ty: "MR_MODIFY = MR_DEL \<or> MR_MODIFY = MR_MODIFY \<and> keeps ppt_leaf 0 (PAGE_PXN OR PAGE_UXN)"
    using image_keeps by simp
  have "6 \<le> nfree (pool s3)" using c f(3) m(2) a(2) u(2) by (simp add: host_cost_def)
  then obtain s4 where "pgtable_modify_or_del_map root (base (hv_image h)) (rsize (hv_image h)) 0 (PAGE_PXN OR PAGE_UXN)
         ppt_pgtable MR_MODIFY s3 = Some s4"
    using ppt.change_total [OF table_step_tbl [OF us(1)] reg(1) [of "hv_image h"] ty ci] mapped by blast
  then show ?thesis using al m a u by (simp add: init_hv_mapping_def)
qed

section \<open>Properties\<close>


text \<open>A layout like that of the QEMU platform, with one reserved region.\<close>

definition sample_layout :: host_layout where
  "sample_layout = \<lparr>mmio_regions = [\<lparr>base = 0x08000000, rsize = 0x02000000\<rparr>],
     phys_mem = \<lparr>base = 0x40000000, rsize = 0x80000000\<rparr>,
     rsvd_regions = [\<lparr>base = 0x5f000000, rsize = 0x00100000\<rparr>],
     hv_image = \<lparr>base = 0x48000000, rsize = 0x00201000\<rparr>\<rparr>"

definition sample_mm :: mm where
  "sample_mm = \<lparr>pool = \<lparr>start_page = 0, bitmap = [], bitmap_size = 0, last_hint_id = 0, dummy_page = 0\<rparr>,
     cell = (\<lambda>_ _. 0), sanitized_page_hpa = 0\<rparr>"

definition sample_regs :: el2_regs where
  "sample_regs = \<lparr>mair_el2 = 0, tcr_el2 = 0, ttbr0_el2 = 0, sctlr_el2 = 0\<rparr>"

lemmas region_eval = in_range_def range_ok_def round_page_up_def round_page_down_def PAGE_SIZE_def PAGE_MASK_def PAGE_SHIFT_def

lemma sample_layout_ok: "layout_ok sample_layout" "host_cost sample_layout \<le> 64" "ppt_mem_ok 0x48100000 sample_mm"
proof -
  show "layout_ok sample_layout" by (auto simp: layout_ok_def sample_layout_def region_eval)
  show "host_cost sample_layout \<le> 64"
    by (simp add: host_cost_def sample_layout_def map_cost_def slots_def lsz_def region_eval)
  show "ppt_mem_ok 0x48100000 sample_mm" by (simp add: ppt_mem_ok_def sample_mm_def lsz_def PPT_PAGE_NUM_def)
qed




end
