(* ===== verification/Map_Calls.thy ===== *)
theory Map_Calls
  imports Arm64_Mmu
begin

text \<open>
  The calls of the page-table walker as their users see them, on the ARM64 host tables: what a call
  of \<open>pgtable_add_map\<close> or \<open>pgtable_modify_or_del_map\<close> does to the translation of every address,
  that deleting undoes adding, when the page pool fails, and what happens outside the documented
  use, on a level-3 entry that is not present.
\<close>

section \<open>Adding, changing, deleting\<close>

text \<open>A table of the host, with its pool.\<close>

definition host_table :: "mm \<Rightarrow> u64 \<Rightarrow> bool" where
  "host_table s root \<longleftrightarrow> tbl ppt_leaf 3 s root"

text \<open>The result of adding a mapping, of changing attributes, and of deleting.\<close>

definition added :: "u64 \<Rightarrow> u64 \<Rightarrow> u64 \<Rightarrow> u64 \<Rightarrow> u64 \<Rightarrow> xlat \<Rightarrow> xlat" where
  "added pb vb n prot va x =
     (if in_range vb n va \<and> x = None
      then Some (unat (round_page_up pb) + (unat va - unat (round_page_up vb)), ppt_leaf prot) else x)"

lemma added_map:
  assumes "host_table s root" "range_ok vb n" "range_ok pb n" "prot AND PFN_MASK = 0"
    "pgtable_add_map root pb vb n prot ppt_pgtable s = Some s'"
  shows "table_step ppt_leaf 3 root s s'"
    and "unat va < 2 ^ 48 \<Longrightarrow> xlate ppt_pgtable s' root va = added pb vb n prot va (xlate ppt_pgtable s root va)"
proof -
  have b: "unat (round_page_up vb) + unat (round_page_down n) \<le> 2 ^ 48" "unat (round_page_up pb) + unat (round_page_down n) \<le> 2 ^ 48"
    using assms(2,3) by (simp_all add: range_ok_def)
  note a = ppt.add_map_sound [OF assms(1) [unfolded host_table_def] b assms(4,5)]
  show "table_step ppt_leaf 3 root s s'" by (rule a(1))
  show "unat va < 2 ^ 48 \<Longrightarrow> xlate ppt_pgtable s' root va = added pb vb n prot va (xlate ppt_pgtable s root va)"
    using a(2) [of va] by (auto simp: in_range_def added_def add_eff_def split: option.splits)
qed

text \<open>Pages an added mapping takes at most: with any offset, one table per started 2 MB, 1 GB and 512 GB.\<close>

definition add_cost :: "u64 \<Rightarrow> u64 \<Rightarrow> nat" where
  "add_cost vb n = (let a = unat (round_page_up vb); b = a + unat (round_page_down n) in slots 1 a b + slots 2 a b + slots 3 a b)"

lemma slot_cost_le:
  assumes "a < b"
  shows "slot_cost w k a b \<le> slots k a b"
proof -
  have "a div lsz k \<le> (b - 1) div lsz k" using assms by (intro div_le_mono) simp
  then have "part k a b \<le> slots k a b" by (auto simp: part_def slots_def)
  then show ?thesis by (simp add: slot_cost_def)
qed

lemma add_total:
  assumes t: "host_table s root" and r: "range_ok vb n" "range_ok pb n" "prot AND PFN_MASK = 0"
    and free: "add_cost vb n \<le> nfree (pool s)"
  shows "\<exists>s'. pgtable_add_map root pb vb n prot ppt_pgtable s = Some s' \<and> nfree (pool s) \<le> nfree (pool s') + add_cost vb n"
proof -
  let ?v = "unat (round_page_up vb)" and ?n = "unat (round_page_down n)" and ?p = "unat (round_page_up pb)"
  have b: "?v + ?n \<le> 2 ^ 48" "?p + ?n \<le> 2 ^ 48" using r by (simp_all add: range_ok_def)
  have t: "tbl ppt_leaf 3 s root" using t by (simp add: host_table_def)
  show ?thesis
  proof (cases "?n = 0")
    case True
    then show ?thesis using ppt.add_map_cases(1) [OF b r(3)] by auto
  next
    case False
    then have c: "need w 3 ?v (?v + ?n) \<le> add_cost vb n" for w
      unfolding need_3 add_cost_def Let_def by (intro add_mono slot_cost_le) simp_all
    from ppt.add_map_total [OF t b r(3)] c free show ?thesis by (meson add_left_mono order_trans)
  qed
qed

lemma delete_total:
  assumes t: "host_table s root" and r: "range_ok vb n"
    and m: "\<And>va. unat va < 2 ^ 48 \<Longrightarrow> in_range vb n va \<Longrightarrow> xlate ppt_pgtable s root va \<noteq> None"
    and free: "6 \<le> nfree (pool s)"
  shows "\<exists>s'. pgtable_modify_or_del_map root vb n 0 0 ppt_pgtable MR_DEL s = Some s' \<and> table_step ppt_leaf 3 root s s' \<and>
    (\<forall>va. unat va < 2 ^ 48 \<longrightarrow> xlate ppt_pgtable s' root va = (if in_range vb n va then None else xlate ppt_pgtable s root va))"
proof -
  have tb: "tbl ppt_leaf 3 s root" using t by (simp add: host_table_def)
  have cv: "covered s root (unat (round_page_up vb)) (unat (round_page_up vb) + unat (round_page_down n))"
    using m r by (intro ppt.covered_mapped [OF tb]) (simp_all add: in_range_def range_ok_def)
  have ty: "MR_DEL = MR_DEL \<or> MR_DEL = MR_MODIFY \<and> keeps ppt_leaf 0 0" by simp
  obtain s' where s': "pgtable_modify_or_del_map root vb n 0 0 ppt_pgtable MR_DEL s = Some s'"
    using ppt.change_total [OF tb r ty cv free] by blast
  note c = ppt.change_map [OF tb r ty cv s']
  have "mod_eff MR_DEL 0 0 va x = None" for va x by (simp add: mod_eff_def MR_DEL_def MR_MODIFY_def)
  then show ?thesis using s' c(1,3) by simp
qed

section \<open>Properties\<close>

text \<open>
  C11: Deleting undoes adding.  Adding a mapping to a free range of a host table succeeds when the
  pool has the pages, maps every address of the range to its offset from the physical base with the
  requested attributes and leaves all other addresses alone; deleting the range gives back the
  translation from before, and no page is lost: apart from the pages of other tables, exactly the
  pages of this table are in use.
\<close>

theorem map_unmap_roundtrip:
  assumes "host_table s root" "range_ok vb n" "range_ok pb n" "prot AND PFN_MASK = 0"
    and free: "add_cost vb n + 6 \<le> nfree (pool s)"
    and none: "\<forall>va. in_range vb n va \<longrightarrow> xlate ppt_pgtable s root va = None"
  shows "\<exists>s1 s2. pgtable_add_map root pb vb n prot ppt_pgtable s = Some s1 \<and>
    pgtable_modify_or_del_map root vb n 0 0 ppt_pgtable MR_DEL s1 = Some s2 \<and>
    (\<forall>va. unat va < 2 ^ 48 \<longrightarrow> xlate ppt_pgtable s1 root va =
       (if in_range vb n va then Some (unat (round_page_up pb) + (unat va - unat (round_page_up vb)), ppt_leaf prot)
        else xlate ppt_pgtable s root va)) \<and>
    (\<forall>va. unat va < 2 ^ 48 \<longrightarrow> xlate ppt_pgtable s2 root va = xlate ppt_pgtable s root va) \<and>
    used (pool s2) = (used (pool s) - table_pages 3 s root) \<union> table_pages 3 s2 root"
proof -
  obtain s1 where s1: "pgtable_add_map root pb vb n prot ppt_pgtable s = Some s1" "6 \<le> nfree (pool s1)"
    using add_total [OF assms(1-4)] free by fastforce
  note a = added_map [OF assms(1-4) s1(1)]
  have x1: "xlate ppt_pgtable s1 root va =
       (if in_range vb n va then Some (unat (round_page_up pb) + (unat va - unat (round_page_up vb)), ppt_leaf prot)
        else xlate ppt_pgtable s root va)" if "unat va < 2 ^ 48" for va
    using a(2) [OF that] none by (simp add: added_def)
  have t1: "host_table s1 root" using table_step_tbl [OF a(1)] by (simp add: host_table_def)
  obtain s2 where s2: "pgtable_modify_or_del_map root vb n 0 0 ppt_pgtable MR_DEL s1 = Some s2" "table_step ppt_leaf 3 root s1 s2"
    "\<And>va. unat va < 2 ^ 48 \<Longrightarrow> xlate ppt_pgtable s2 root va = (if in_range vb n va then None else xlate ppt_pgtable s1 root va)"
    using delete_total [OF t1 assms(2) _ s1(2)] x1 by auto
  have "used (pool s2) = (used (pool s) - table_pages 3 s root) \<union> table_pages 3 s2 root"
    using table_step_trans [OF a(1) s2(2)] by (simp add: table_step_def Let_def)
  then show ?thesis using s1(1) s2(1,3) x1 none by (intro exI [of _ s1] exI [of _ s2]) simp
qed

text \<open>A host table that maps nothing, just created.\<close>

definition sample_pool :: mm where
  "sample_pool = sample_mm\<lparr>pool := init_page_pool 0x48100000 PPT_PAGE_NUM (pool sample_mm)\<rparr>"

lemma sample_pool_ok: "mm_ok sample_pool" "used (pool sample_pool) = {}" "nfree (pool sample_pool) = 64"
  using ppt_pool [OF sample_layout_ok(3)] by (simp_all add: sample_pool_def)

lemma sample_root:
  obtains root s where "alloc_page sample_pool = Some (root, s)" "host_table s root" "nfree (pool s) = 63"
    "\<And>va. xlate ppt_pgtable s root va = None" "\<And>i. i < 512 \<Longrightarrow> cell s root i = 0" "root \<noteq> 0" "\<And>q. q \<noteq> root \<Longrightarrow> cell s q = (\<lambda>_. 0)"
proof -
  have p: "pool_ok (pool sample_pool)" "0 < nfree (pool sample_pool)" using sample_pool_ok by (simp_all add: mm_ok_def)
  then obtain root s where al: "alloc_page sample_pool = Some (root, s)" by (rule alloc_page_free)
  note f = fresh_root(1) [OF sample_pool_ok(1) al, where la = ppt_leaf and k = 3] fresh_root(2) [OF sample_pool_ok(1) al, where k = 3]
    fresh_root(6,8) [OF sample_pool_ok(1) al]
  note d = alloc_pageD(1) [OF p(1) al] alloc_pageD(8) [OF p(1) al]
  have x: "xlate ppt_pgtable s root va = None" for va using ppt.xlate_walk [OF f(1)] f(2) by simp
  have "root \<noteq> 0" using region_page(1) [OF p(1) d(1)] .
  moreover have "cell sample_pool q = (\<lambda>_. 0)" "sanitized_page_hpa sample_pool = 0" for q by (simp_all add: sample_pool_def sample_mm_def)
  ultimately show thesis using that al f d(2) x sample_pool_ok(3) by (simp add: host_table_def)
qed

theorem map_unmap_roundtrip_witness:
  "\<exists>root s s1 s2. alloc_page sample_pool = Some (root, s) \<and>
     pgtable_add_map root 0x40000000 0x80003000 0x00602000 PAGE_ATTR_NORMAL ppt_pgtable s = Some s1 \<and>
     xlate ppt_pgtable s1 root 0x80004567 = Some (0x40001567, ppt_leaf PAGE_ATTR_NORMAL) \<and>
     pgtable_modify_or_del_map root 0x80003000 0x00602000 0 0 ppt_pgtable MR_DEL s1 = Some s2 \<and>
     xlate ppt_pgtable s2 root 0x80004567 = None"
proof -
  obtain root s where r: "alloc_page sample_pool = Some (root, s)" "host_table s root" "nfree (pool s) = 63"
    "\<And>va. xlate ppt_pgtable s root va = None" by (rule sample_root) blast
  have c: "add_cost 0x80003000 0x00602000 + 6 \<le> nfree (pool s)"
    by (simp add: r(3) add_cost_def slots_def lsz_def region_eval)
  obtain s1 s2 where m: "pgtable_add_map root 0x40000000 0x80003000 0x00602000 PAGE_ATTR_NORMAL ppt_pgtable s = Some s1"
    "pgtable_modify_or_del_map root 0x80003000 0x00602000 0 0 ppt_pgtable MR_DEL s1 = Some s2"
    "\<And>va. unat va < 2 ^ 48 \<Longrightarrow> xlate ppt_pgtable s1 root va =
       (if in_range 0x80003000 0x00602000 va then Some (unat (round_page_up 0x40000000) + (unat va - unat (round_page_up 0x80003000)), ppt_leaf PAGE_ATTR_NORMAL)
        else xlate ppt_pgtable s root va)"
    "\<And>va. unat va < 2 ^ 48 \<Longrightarrow> xlate ppt_pgtable s2 root va = xlate ppt_pgtable s root va"
    using map_unmap_roundtrip [OF r(2) _ _ _ c, where pb = "0x40000000" and prot = PAGE_ATTR_NORMAL] r(4)
    by (auto simp: region_eval host_attrs PFN_MASK_def)
  show ?thesis
    using r(1) m(1,2) by (intro exI [of _ root] exI [of _ s] exI [of _ s1] exI [of _ s2]) (simp add: m(3,4) r(4) region_eval)
qed

text \<open>
  C33: The page pool fails exactly when it is exhausted.  A page it gives out was not in use and
  holds only absent entries, no other page is written, and giving the page back restores the
  pool's set of used pages.
\<close>

theorem alloc_page_fails_iff_full:
  assumes "mm_ok s"
  shows "(alloc_page s = None \<longleftrightarrow> nfree (pool s) = 0) \<and>
    (case alloc_page s of None \<Rightarrow> True
     | Some (page, s') \<Rightarrow> page \<in> region (pool s) - used (pool s) \<and> used (pool s') = insert page (used (pool s)) \<and>
         (\<forall>i<512. ppt_pgentry_present (cell s' page i) = 0) \<and> (\<forall>q. q \<noteq> page \<longrightarrow> cell s' q = cell s q) \<and>
         used (pool (free_page page s')) = used (pool s) \<and> nfree (pool (free_page page s')) = nfree (pool s))"
proof -
  have ok: "pool_ok (pool s)" and san: "\<not> bit (sanitized_page_hpa s) 0" using assms by (simp_all add: mm_ok_def)
  show ?thesis
  proof (cases "nfree (pool s) = 0")
    case True
    then have "alloc_page s = None" by (rule alloc_page_full [OF ok])
    then show ?thesis using True by simp
  next
    case False
    then have pos: "0 < nfree (pool s)" by simp
    obtain page s' where al: "alloc_page s = Some (page, s')" by (rule alloc_page_free [OF ok pos])
    note a = alloc_pageD [OF ok al]
    have "page \<in> used (pool s')" using a(3) by simp
    note f = free_page_used [OF a(5) this]
    have "ppt_pgentry_present (cell s' page i) = 0" if "i < 512" for i
      using a(8) [OF that] san present_bit by (simp add: ppt_pgentry_present_def)
    then show ?thesis using False al a(1,2,3,4,9) f(1,2) by auto
  qed
qed

theorem alloc_page_fails_iff_full_witness:
  "alloc_page sample_pool \<noteq> None \<and>
   (case alloc_page sample_pool of None \<Rightarrow> False | Some (page, s') \<Rightarrow> used (pool (free_page page s')) = {})"
  using alloc_page_fails_iff_full [OF sample_pool_ok(1)] sample_pool_ok(2,3) by (auto split: option.splits)

text \<open>
  C36: Deleting where no level-3 entry is present writes outside the table.  The walk goes on at
  physical page 0; if that page, which never belongs to the pool, happens to hold a valid block
  descriptor in its first doubleword, then deleting the first gigabyte clears it.
\<close>

theorem delete_absent_writes_page_zero:
  assumes "host_table s root" "cell s root 0 = 0" "cell s 0 0 AND 3 = 1"
  shows "pgtable_modify_or_del_map root 0 0x40000000 0 0 ppt_pgtable MR_DEL s = Some (sanitize_pte_entry (0, 0) s) \<and>
    0 \<notin> region (pool s) \<and> cell (sanitize_pte_entry (0, 0) s) 0 0 \<noteq> cell s 0 0"
proof -
  have mm: "mm_ok s" using assms(1) by (simp add: host_table_def tbl_def)
  have b: "bit (cell s 0 0) 0" "\<not> bit (cell s 0 0) 1"
    using assms(3) bit_and_iff [of "cell s 0 0" 3] bit_3 by (metis bit_1_iff zero_neq_one)+
  have lg: "is_pgtl_large (cell s 0 0)" using b by (simp add: large_bit)
  have "modify_or_del_pgtl2_entry (0, 0) 0 0x40000000 0x40000000 0 0 ppt_pgtable MR_DEL s = Some (sanitize_pte_entry (0, 0) s)"
    using lg b by (simp add: modify_or_del_pgtl2_entry_def get_pgentry_def ppt.absent local_modify_or_del_pte_def MR_DEL_def
        MR_MODIFY_def mem_aligned_check_def)
  then have "modify_or_del_pgtl2 (root, 0) 0 0x40000000 0 0 ppt_pgtable MR_DEL s = Some (sanitize_pte_entry (0, 0) s)"
    using assms(2) unfolding modify_or_del_pgtl2_def
    by (simp add: get_pgentry_def page_addr_def hpa2hva_def arch_pgtl_page_paddr_def pgtl2e_index_def)
       (simp add: modify_or_del_pgtl2_loop.simps [of 0] level_defs)
  then have "pgtable_modify_or_del_map root 0 0x40000000 0 0 ppt_pgtable MR_DEL s = Some (sanitize_pte_entry (0, 0) s)"
    unfolding pgtable_modify_or_del_map_def
    by (simp add: region_eval)
       (subst modify_or_del_map_loop.simps, simp add: MR_DEL_def MR_MODIFY_def Let_def pgtl3e_index_def,
        subst modify_or_del_map_loop.simps, simp add: level_defs)
  moreover have "0 \<notin> region (pool s)" using mm region_page(1) by (auto simp: mm_ok_def)
  moreover have "cell (sanitize_pte_entry (0, 0) s) 0 0 \<noteq> cell s 0 0"
    using mm b by (auto simp: sanitize_pte_entry_def mm_ok_def)
  ultimately show ?thesis by simp
qed

theorem delete_absent_writes_page_zero_witness:
  "\<exists>root s s'. host_table s root \<and> cell s 0 0 = 0x40000001 \<and>
     pgtable_modify_or_del_map root 0 0x40000000 0 0 ppt_pgtable MR_DEL s = Some s' \<and> cell s' 0 0 \<noteq> 0x40000001"
proof -
  obtain root s0 where r: "host_table s0 root" "\<And>i. i < 512 \<Longrightarrow> cell s0 root i = 0" "root \<noteq> 0" by (rule sample_root) blast
  let ?s = "write_pte (0, 0) 0x40000001 s0"
  have z: "0 \<notin> used (pool s0)"
    using r(1) region_page(1) used_region by (auto simp: host_table_def tbl_def mm_ok_def)
  have "tbl ppt_leaf 3 s0 root" using r(1) by (simp add: host_table_def)
  then have h: "host_table ?s root"
    using r(2,3) by (auto simp: host_table_def tbl_def mm_ok_def table_wf_def tree_def table_pages_def absent_slot)
  have "cell ?s root 0 = 0" "cell ?s 0 0 AND 3 = 1" using r(2,3) by simp_all
  from delete_absent_writes_page_zero [OF h this] show ?thesis
    by (intro exI [of _ root] exI [of _ ?s] exI [of _ "sanitize_pte_entry (0, 0) ?s"]) (use h in simp)
qed

lemma modify_absent_loops:
  assumes "modify_or_del_map_loop root va ve a c t ty s = Some s'"
  shows "\<not> (va < ve \<and> ty = MR_MODIFY \<and> pgentry_present t (cell s root (unat (pgtl3e_index va))) = 0)"
  using assms
  by (rule modify_or_del_map_loop.raw_induct [where P = "\<lambda>root va ve a c t ty s s'.
      \<not> (va < ve \<and> ty = MR_MODIFY \<and> pgentry_present t (cell s root (unat (pgtl3e_index va))) = 0)", rotated])
     (auto simp: Let_def get_pgentry_def)



end
