(* ===== verification/Memory.thy ===== *)
theory Memory
  imports Prelude
begin

text \<open>
  The byte-level memory library of \<^verbatim>\<open>lib/memory.c\<close>.  Memory maps every address to a byte and
  addresses wrap at 2^64; loops read and write one byte at a time, so that overlapping buffers
  behave as in the code.
\<close>

type_synonym phys = "u64 \<Rightarrow> u8"

section \<open>Operations\<close>

primrec memset :: "u64 \<Rightarrow> u8 \<Rightarrow> nat \<Rightarrow> phys \<Rightarrow> phys" where
  "memset p v 0 m = m"
| "memset p v (Suc n) m = memset (p + 1) v n (m(p := v))"

definition memset_s :: "u64 \<Rightarrow> u8 \<Rightarrow> nat \<Rightarrow> phys \<Rightarrow> phys" where
  "memset_s base v n m = (if base \<noteq> 0 \<and> n \<noteq> 0 then memset base v n m else m)"

primrec memcpy :: "u64 \<Rightarrow> u64 \<Rightarrow> nat \<Rightarrow> phys \<Rightarrow> phys" where
  "memcpy dst src 0 m = m"
| "memcpy dst src (Suc n) m = memcpy (dst + 1) (src + 1) n (m(dst := m src))"

text \<open>The loop of \<open>memcpy_backwards\<close>, from the last byte down.\<close>

primrec copy_down :: "u64 \<Rightarrow> u64 \<Rightarrow> nat \<Rightarrow> phys \<Rightarrow> phys" where
  "copy_down dst src 0 m = m"
| "copy_down dst src (Suc n) m = copy_down (dst - 1) (src - 1) n (m(dst := m src))"

definition memcpy_backwards :: "u64 \<Rightarrow> u64 \<Rightarrow> nat \<Rightarrow> phys \<Rightarrow> phys" where
  "memcpy_backwards d s slen m = copy_down (d + of_nat slen - 1) (s + of_nat slen - 1) slen m"

definition memcpy_s :: "u64 \<Rightarrow> nat \<Rightarrow> u64 \<Rightarrow> nat \<Rightarrow> phys \<Rightarrow> i32 \<times> phys" where
  "memcpy_s d dmax s slen m =
     (if d \<noteq> 0 \<and> s \<noteq> 0 \<and> dmax \<ge> slen \<and> (d > s + of_nat slen \<or> s > d + of_nat dmax) then
        (0, if slen \<noteq> 0 then memcpy d s slen m else m)
      else (- 1, memset d 0 dmax m))"

text \<open>The result is the difference of the first two bytes that differ, as unsigned numbers.\<close>

primrec memcmp :: "u64 \<Rightarrow> u64 \<Rightarrow> nat \<Rightarrow> phys \<Rightarrow> int" where
  "memcmp t1 t2 0 m = 0"
| "memcmp t1 t2 (Suc n) m = (if m t1 = m t2 then memcmp (t1 + 1) (t2 + 1) n m else uint (m t1) - uint (m t2))"

definition memmove :: "u64 \<Rightarrow> u64 \<Rightarrow> nat \<Rightarrow> phys \<Rightarrow> phys" where
  "memmove d s slen m =
     (if d = s then m
      else if d < s then memcpy d s slen m
      else copy_down (d + of_nat slen - 1) (s + of_nat slen - 1) slen m)"

primrec memchr :: "u64 \<Rightarrow> u8 \<Rightarrow> nat \<Rightarrow> phys \<Rightarrow> u64" where
  "memchr t c 0 m = 0"
| "memchr t c (Suc n) m = (if c = m t then t else memchr (t + 1) c n m)"

text \<open>The \<open>n\<close> bytes that start at an address.\<close>

definition read_bytes :: "phys \<Rightarrow> u64 \<Rightarrow> nat \<Rightarrow> u8 list" where
  "read_bytes m a n = map (\<lambda>i. m (a + of_nat i)) [0..<n]"

section \<open>Ranges of addresses\<close>

lemma word_unat_of_nat_id: "of_nat (unat (x :: u64)) = x"
  by simp

text \<open>\<open>x\<close> is one of the \<open>n\<close> bytes that start at \<open>a\<close>.\<close>

definition in_buf :: "u64 \<Rightarrow> nat \<Rightarrow> u64 \<Rightarrow> bool" where
  "in_buf a n x \<longleftrightarrow> unat (x - a) < n"

lemma unat_diff_one: "x \<noteq> a \<Longrightarrow> unat (x - a) = Suc (unat (x - (a + 1)))"
proof -
  assume "x \<noteq> a"
  have d: "x - a = 1 + (x - (a + 1))" by simp
  show ?thesis unfolding d by (rule unatSuc) (use \<open>x \<noteq> a\<close> in \<open>simp flip: d\<close>)
qed

lemma unat_minus_one_u64: "unat (- 1 :: u64) = 2 ^ 64 - 1"
  by (simp only: unsigned_minus_1_eq_mask mask_eq_exp_minus_1) simp

lemma in_buf_Suc:
  assumes "n < 2 ^ 64"
  shows "in_buf a (Suc n) x \<longleftrightarrow> x = a \<or> in_buf (a + 1) n x"
proof (cases "x = a")
  case False
  then show ?thesis by (simp add: in_buf_def unat_diff_one)
qed (simp add: in_buf_def)

lemma in_buf_next: "n < 2 ^ 64 \<Longrightarrow> \<not> in_buf (a + 1) n a"
  using unat_minus_one_u64 by (simp add: in_buf_def)

lemma in_buf_0 [simp]: "\<not> in_buf a 0 x"
  by (simp add: in_buf_def)

lemma in_buf_last:
  assumes "n < 2 ^ 64"
  shows "in_buf a (Suc n) x \<longleftrightarrow> x = a + of_nat n \<or> in_buf a n x"
proof -
  have "unat (of_nat n :: u64) = n" using assms by (simp add: unat_of_nat take_bit_nat_eq_self)
  then have "unat (x - a) = n \<longleftrightarrow> x = a + of_nat n"
    by (metis add.commute add_diff_cancel_left' diff_add_cancel word_unat_eq_iff)
  then show ?thesis by (auto simp: in_buf_def less_Suc_eq)
qed

lemma memset_apply:
  "n \<le> 2 ^ 64 \<Longrightarrow> memset p v n m x = (if in_buf p n x then v else m x)"
proof (induction n arbitrary: p m)
  case (Suc n)
  then have n: "n < 2 ^ 64" by simp
  then show ?case by (simp add: Suc.IH in_buf_Suc [OF n])
qed simp

text \<open>
  Copying upwards is right unless the destination starts inside the source, copying downwards
  unless the source starts inside the destination.
\<close>

lemma memcpy_apply:
  "n \<le> 2 ^ 64 \<Longrightarrow> (\<forall>i<n. i \<noteq> 0 \<longrightarrow> d \<noteq> s + of_nat i) \<Longrightarrow>
   memcpy d s n m x = (if in_buf d n x then m (s + (x - d)) else m x)"
proof (induction n arbitrary: d s m)
  case (Suc n)
  then have n: "n < 2 ^ 64" by simp
  have "\<forall>i<n. i \<noteq> 0 \<longrightarrow> d + 1 \<noteq> s + 1 + of_nat i"
    using Suc.prems(2) by (metis (no_types, lifting) add.assoc add.commute add_right_cancel less_SucI)
  from Suc.IH [OF _ this] n
  have ih: "memcpy (d + 1) (s + 1) n (m(d := m s)) x =
      (if in_buf (d + 1) n x then (m(d := m s)) (s + 1 + (x - (d + 1))) else (m(d := m s)) x)" by simp
  have e: "s + 1 + (x - (d + 1)) = s + (x - d)" by simp
  show ?case
  proof (cases "x = d")
    case True
    then show ?thesis using ih in_buf_next [OF n] by (simp add: in_buf_Suc [OF n])
  next
    case False
    have "s + (x - d) \<noteq> d" if "in_buf (d + 1) n x"
    proof -
      have u: "unat (x - d) < Suc n" "unat (x - d) \<noteq> 0"
        using that False unat_diff_one [OF False] by (simp_all add: in_buf_def)
      then show ?thesis using Suc.prems(2) [rule_format, of "unat (x - d)"] by simp
    qed
    then show ?thesis using ih False by (simp add: in_buf_Suc [OF n] e)
  qed
qed simp

lemma copy_down_apply:
  "n \<le> 2 ^ 64 \<Longrightarrow> (\<forall>i<n. i \<noteq> 0 \<longrightarrow> s \<noteq> d + of_nat i) \<Longrightarrow>
   copy_down (d + of_nat n - 1) (s + of_nat n - 1) n m x = (if in_buf d n x then m (s + (x - d)) else m x)"
proof (induction n arbitrary: m)
  case (Suc n)
  then have n: "n < 2 ^ 64" by simp
  have st: "copy_down (d + of_nat (Suc n) - 1) (s + of_nat (Suc n) - 1) (Suc n) m =
      copy_down (d + of_nat n - 1) (s + of_nat n - 1) n (m(d + of_nat n := m (s + of_nat n)))"
    by (simp add: algebra_simps)
  have ih: "copy_down (d + of_nat n - 1) (s + of_nat n - 1) n (m(d + of_nat n := m (s + of_nat n))) x =
      (if in_buf d n x then (m(d + of_nat n := m (s + of_nat n))) (s + (x - d)) else (m(d + of_nat n := m (s + of_nat n))) x)"
    using Suc n by simp
  have un: "unat (of_nat n :: u64) = n" using n by (simp add: unat_of_nat take_bit_nat_eq_self)
  show ?case
  proof (cases "in_buf d n x")
    case True
    have "s + (x - d) \<noteq> d + of_nat n"
    proof
      assume "s + (x - d) = d + of_nat n"
      then have "s = d + (of_nat n - (x - d))" by (metis add_diff_cancel_right' add_diff_eq)
      moreover have "of_nat n - (x - d) = of_nat (n - unat (x - d))"
        using True by (simp only: in_buf_def of_nat_diff less_imp_le word_unat_of_nat_id)
      ultimately have "s = d + of_nat (n - unat (x - d))" by (simp only:)
      moreover have "n - unat (x - d) < Suc n" "n - unat (x - d) \<noteq> 0" using True by (auto simp: in_buf_def)
      ultimately show False using Suc.prems(2) by blast
    qed
    then show ?thesis using True ih unfolding st by (simp add: in_buf_last [OF n])
  next
    case False
    then show ?thesis using ih unfolding st by (auto simp: in_buf_last [OF n])
  qed
qed simp

text \<open>Buffers that do not wrap around the end of the address space.\<close>

definition buf_ok :: "u64 \<Rightarrow> nat \<Rightarrow> bool" where
  "buf_ok a n \<longleftrightarrow> unat a + n < 2 ^ 64"

lemma buf_unat: "buf_ok a n \<Longrightarrow> i \<le> n \<Longrightarrow> unat (a + of_nat i) = unat a + i"
  by (simp add: buf_ok_def unat_add_nowrap unat_of_nat take_bit_nat_eq_self)

lemma buf_add_less: "buf_ok a n \<Longrightarrow> i < n \<Longrightarrow> i \<noteq> 0 \<Longrightarrow> b < a \<Longrightarrow> b \<noteq> a + of_nat i"
  using buf_unat [of a n i] by (auto simp: word_less_nat_alt)

lemma in_buf_iff: "buf_ok a n \<Longrightarrow> in_buf a n x \<longleftrightarrow> unat a \<le> unat x \<and> unat x < unat a + n"
proof (cases "a \<le> x")
  case True
  then show ?thesis by (auto simp: in_buf_def unat_sub_le word_le_nat_alt)
next
  case False
  assume b: "buf_ok a n"
  have "unat (x - a) = unat x + 2 ^ 64 - unat a"
    using False by (simp add: unat_sub_if' word_le_nat_alt)
  then show ?thesis using b False by (auto simp: in_buf_def buf_ok_def word_le_nat_alt)
qed

lemma memcpy_disjoint:
  assumes "buf_ok s n" "buf_ok d n" "d < s \<or> s + of_nat n \<le> d"
  shows "memcpy d s n m x = (if in_buf d n x then m (s + (x - d)) else m x)"
proof (rule memcpy_apply)
  show "n \<le> 2 ^ 64" using assms(1) by (simp add: buf_ok_def)
  show "\<forall>i<n. i \<noteq> 0 \<longrightarrow> d \<noteq> s + of_nat i"
    using assms(3) buf_add_less [OF assms(1)] buf_unat [OF assms(1)]
    by (auto simp: word_le_nat_alt)
qed

section \<open>What the operations do\<close>

text \<open>\<open>memmove\<close> copies as if through a second buffer, however the two buffers overlap.\<close>

lemma memmove_exact:
  assumes "buf_ok d n" "buf_ok s n"
  shows "memmove d s n m x = (if in_buf d n x then m (s + (x - d)) else m x)"
proof -
  have n: "n \<le> 2 ^ 64" using assms(1) by (simp add: buf_ok_def)
  consider "d = s" | "d < s" | "s < d" by fastforce
  then show ?thesis
  proof cases
    case 2
    then show ?thesis using memcpy_apply [OF n] buf_add_less [OF assms(2)] by (simp add: memmove_def)
  next
    case 3
    then have "copy_down (d + of_nat n - 1) (s + of_nat n - 1) n m x = (if in_buf d n x then m (s + (x - d)) else m x)"
      using buf_add_less [OF assms(1)] by (intro copy_down_apply [OF n]) blast
    then show ?thesis using 3 by (auto simp: memmove_def)
  qed (simp add: memmove_def)
qed

text \<open>\<open>memcpy_s\<close> copies or clears the destination, and touches nothing else.\<close>

lemma memcpy_s_exact:
  assumes "buf_ok d dmax" "buf_ok s slen"
  shows "memcpy_s d dmax s slen m =
    (if d \<noteq> 0 \<and> s \<noteq> 0 \<and> slen \<le> dmax \<and> (unat s + slen < unat d \<or> unat d + dmax < unat s)
     then (0, \<lambda>x. if in_buf d slen x then m (s + (x - d)) else m x)
     else (- 1, \<lambda>x. if in_buf d dmax x then 0 else m x))"
proof -
  have g: "d > s + of_nat slen \<longleftrightarrow> unat s + slen < unat d" "s > d + of_nat dmax \<longleftrightarrow> unat d + dmax < unat s"
    using buf_unat [OF assms(2), of slen] buf_unat [OF assms(1), of dmax] by (simp_all add: word_less_nat_alt)
  have z: "memset d 0 dmax m = (\<lambda>x. if in_buf d dmax x then 0 else m x)"
    using assms(1) by (intro ext memset_apply) (simp add: buf_ok_def)
  have c: "memcpy d s slen m = (\<lambda>x. if in_buf d slen x then m (s + (x - d)) else m x)"
    if "slen \<le> dmax" "unat s + slen < unat d \<or> unat d + dmax < unat s"
  proof
    fix x
    have "buf_ok d slen" using assms(1) that(1) by (simp add: buf_ok_def)
    moreover have "d < s \<or> s + of_nat slen \<le> d"
      using that buf_unat [OF assms(2), of slen] by (auto simp: word_less_nat_alt word_le_nat_alt)
    ultimately show "memcpy d s slen m x = (if in_buf d slen x then m (s + (x - d)) else m x)"
      by (rule memcpy_disjoint [OF assms(2)])
  qed
  show ?thesis unfolding memcpy_s_def g z using c by (auto split: if_splits)
qed

lemma read_bytes_frame: "(\<And>x. in_buf a n x \<Longrightarrow> m' x = m x) \<Longrightarrow> n \<le> 2 ^ 64 \<Longrightarrow> read_bytes m' a n = read_bytes m a n"
  by (auto simp: read_bytes_def in_buf_def unat_of_nat intro: le_less_trans [OF take_bit_nat_less_eq_self])

lemma read_bytes_copy:
  "n \<le> 2 ^ 64 \<Longrightarrow> read_bytes (\<lambda>x. if in_buf d n x then m (s + (x - d)) else m x) d n = read_bytes m s n"
  by (auto simp: read_bytes_def in_buf_def unat_of_nat take_bit_nat_eq_self dest: less_le_trans)

lemma in_buf_disjoint:
  assumes "buf_ok a n" "buf_ok b k" "unat a + n \<le> unat b \<or> unat b + k \<le> unat a" "in_buf a n x"
  shows "\<not> in_buf b k x"
  using assms(3,4) unfolding in_buf_iff [OF assms(1)] in_buf_iff [OF assms(2)] by linarith

end
