(* ===== verification/Sbuf.thy ===== *)
theory Sbuf
  imports Memory
begin

text \<open>
  The shared ring buffers of \<^verbatim>\<open>core/sbuf.c\<close>, by which the hypervisor hands trace entries, log
  messages and VM events to a guest.  The fields of the header are a record; the elements are bytes
  of memory behind the header.
\<close>

record shared_buf =
  magic :: u64
  ele_num :: u32
  ele_size :: u32
  head :: u32
  tail :: u32
  flags :: u32
  overrun_cnt :: u32
  sbuf_size :: u32

definition SBUF_HEAD_SIZE :: u64 where "SBUF_HEAD_SIZE = 64"
definition SBUF_MAX_SIZE :: u64 where "SBUF_MAX_SIZE = push_bit 22 1"
definition OVERRUN_CNT_EN :: u32 where "OVERRUN_CNT_EN = push_bit 0 1"
definition OVERWRITE_EN :: u32 where "OVERWRITE_EN = push_bit 1 1"

definition sbuf_next_ptr :: "u32 \<Rightarrow> u32 \<Rightarrow> u32 \<Rightarrow> u32" where
  "sbuf_next_ptr pos span scope =
     (let pos = pos + span; pos = (if pos \<ge> scope then pos - scope else pos) in pos)"

definition sbuf_put :: "u64 \<Rightarrow> u64 \<Rightarrow> u32 \<Rightarrow> shared_buf \<times> phys \<Rightarrow> u32 \<times> shared_buf \<times> phys" where
  "sbuf_put sbuf data max_len = (\<lambda>(b, m).
     let esz = ele_size b; next_tail = sbuf_next_ptr (tail b) esz (sbuf_size b) in
     if next_tail = head b \<and> flags b AND OVERWRITE_EN = 0 then (0, b, m)
     else if esz \<le> max_len then
       let trigger_overwrite = (next_tail = head b);
           b = (if trigger_overwrite then b\<lparr>overrun_cnt := overrun_cnt b + (flags b AND OVERRUN_CNT_EN)\<rparr> else b);
           to = sbuf + SBUF_HEAD_SIZE + ucast (tail b);
           m = snd (memcpy_s to (unat esz) data (unat max_len) m);
           b = (if trigger_overwrite then b\<lparr>head := sbuf_next_ptr (head b) esz (sbuf_size b)\<rparr> else b);
           b = b\<lparr>tail := next_tail\<rparr>
       in (esz, b, m)
     else (UINT32_MAX, b, m))"

text \<open>The loop of \<open>sbuf_put_many\<close> over the elements that are left.\<close>

primrec put_many_loop ::
  "u64 \<Rightarrow> u32 \<Rightarrow> u64 \<Rightarrow> nat \<Rightarrow> u32 \<Rightarrow> u32 \<Rightarrow> shared_buf \<times> phys \<Rightarrow> u32 \<times> shared_buf \<times> phys" where
  "put_many_loop sbuf elem_size data 0 i sent s = (sent, s)"
| "put_many_loop sbuf elem_size data (Suc n) i sent s =
     (let (ret, s) = sbuf_put sbuf (data + ucast (i * elem_size)) elem_size s in
      if ret = elem_size then put_many_loop sbuf elem_size data n (i + 1) (sent + ret) s
      else (if ret = UINT32_MAX then UINT32_MAX else sent, s))"

definition sbuf_put_many :: "u64 \<Rightarrow> u32 \<Rightarrow> u64 \<Rightarrow> u32 \<Rightarrow> shared_buf \<times> phys \<Rightarrow> u32 \<times> shared_buf \<times> phys" where
  "sbuf_put_many sbuf elem_size data data_size s =
     put_many_loop sbuf elem_size data (unat (data_size div elem_size)) 0 0 s"

section \<open>The bounded queue it implements\<close>

definition sbuf_wf :: "u64 \<Rightarrow> shared_buf \<Rightarrow> bool" where
  "sbuf_wf sbuf b \<longleftrightarrow> 0 < ele_size b \<and> 2 \<le> unat (ele_num b) \<and>
     unat (sbuf_size b) = unat (ele_num b) * unat (ele_size b) \<and> unat (sbuf_size b) \<le> unat SBUF_MAX_SIZE \<and>
     unat (head b) mod unat (ele_size b) = 0 \<and> unat (tail b) mod unat (ele_size b) = 0 \<and>
     head b < sbuf_size b \<and> tail b < sbuf_size b \<and> buf_ok sbuf (64 + unat (sbuf_size b))"

text \<open>The slot a position stands for, the number of elements, and the elements.\<close>

definition slot :: "shared_buf \<Rightarrow> u32 \<Rightarrow> nat" where
  "slot b pos = unat pos div unat (ele_size b)"

definition sbuf_count :: "shared_buf \<Rightarrow> nat" where
  "sbuf_count b = (slot b (tail b) + unat (ele_num b) - slot b (head b)) mod unat (ele_num b)"

definition slot_bytes :: "u64 \<Rightarrow> shared_buf \<Rightarrow> phys \<Rightarrow> nat \<Rightarrow> u8 list" where
  "slot_bytes sbuf b m i = read_bytes m (sbuf + SBUF_HEAD_SIZE + of_nat (i * unat (ele_size b))) (unat (ele_size b))"

definition sbuf_elems :: "u64 \<Rightarrow> shared_buf \<times> phys \<Rightarrow> u8 list list" where
  "sbuf_elems sbuf = (\<lambda>(b, m).
     map (\<lambda>i. slot_bytes sbuf b m ((slot b (head b) + i) mod unat (ele_num b))) [0..<sbuf_count b])"

text \<open>The queue: it holds one element less than it has slots.\<close>

definition queue_put :: "nat \<Rightarrow> bool \<Rightarrow> 'a \<Rightarrow> 'a list \<Rightarrow> 'a list option" where
  "queue_put cap overwrite d q =
     (if length q < cap then Some (q @ [d]) else if overwrite then Some (tl q @ [d]) else None)"

lemma slot_props:
  assumes "sbuf_wf sbuf b" "pos = head b \<or> pos = tail b"
  shows "slot b pos < unat (ele_num b)" "unat pos = slot b pos * unat (ele_size b)"
proof -
  have z: "0 < unat (ele_size b)" using assms(1) by (simp add: sbuf_wf_def unat_gt_0 word_gt_0)
  have "unat pos mod unat (ele_size b) = 0" using assms by (auto simp: sbuf_wf_def)
  then show e: "unat pos = slot b pos * unat (ele_size b)"
    unfolding slot_def using div_mult_mod_eq [of "unat pos" "unat (ele_size b)"] by linarith
  have "unat pos < unat (ele_num b) * unat (ele_size b)" using assms by (auto simp: sbuf_wf_def word_less_nat_alt)
  then show "slot b pos < unat (ele_num b)" using z unfolding e by simp
qed

lemma next_slot:
  assumes wf: "sbuf_wf sbuf b" and pos: "pos = head b \<or> pos = tail b"
  defines "next \<equiv> sbuf_next_ptr pos (ele_size b) (sbuf_size b)"
  shows "unat next = (slot b pos + 1) mod unat (ele_num b) * unat (ele_size b)" "next < sbuf_size b"
    "unat next mod unat (ele_size b) = 0" "slot b next = (slot b pos + 1) mod unat (ele_num b)"
proof -
  let ?e = "unat (ele_size b)" and ?n = "unat (ele_num b)" and ?p = "slot b pos"
  note p = slot_props [OF wf pos]
  have z: "0 < ?e" using wf by (simp add: sbuf_wf_def unat_gt_0 word_gt_0)
  have sz: "unat (sbuf_size b) = ?n * ?e" "?n * ?e \<le> 2 ^ 22" using wf by (simp_all add: sbuf_wf_def SBUF_MAX_SIZE_def)
  have le: "(?p + 1) * ?e \<le> ?n * ?e" using p(1) by (intro mult_le_mono1) simp
  have add: "unat (pos + ele_size b) = (?p + 1) * ?e"
  proof -
    have s: "unat pos + unat (ele_size b) = (?p + 1) * ?e" unfolding p(2) by simp
    have "(?p + 1) * ?e \<le> 2 ^ 22" using le sz(2) by linarith
    then have "unat pos + unat (ele_size b) < 2 ^ LENGTH(32)" unfolding s by simp
    from unat_add_nowrap [OF this] show ?thesis unfolding s .
  qed
  have "(?p + 1) mod ?n = (if ?p + 1 = ?n then 0 else ?p + 1)" using p(1) by auto
  moreover have "sbuf_size b \<le> pos + ele_size b \<longleftrightarrow> ?p + 1 = ?n"
    unfolding word_le_nat_alt add sz(1) mult_le_cancel2 using z p(1) by linarith
  ultimately show e: "unat next = (?p + 1) mod ?n * ?e"
    using sz(1) by (auto simp: next_def sbuf_next_ptr_def Let_def add unat_sub_le)
  have "0 < ?n" using p(1) by simp
  then have "(?p + 1) mod ?n * ?e < ?n * ?e" using z by simp
  then show "next < sbuf_size b" by (simp add: word_less_nat_alt e sz(1))
  show "unat next mod ?e = 0" "slot b next = (?p + 1) mod ?n" using z by (simp_all add: e slot_def)
qed

text \<open>Positions in a ring of \<open>n\<close> slots.\<close>

lemma mod_twice: "x < 2 * n \<Longrightarrow> x mod n = (if x < n then x else x - n)" for n :: nat
  by (simp add: mod_if)

lemma ring_count:
  fixes n :: nat
  assumes "h < n" "t < n"
  defines "c \<equiv> (t + n - h) mod n"
  shows "c < n" "(h + c) mod n = t" "i < c \<Longrightarrow> (h + i) mod n \<noteq> t" "(t + 1) mod n = h \<longleftrightarrow> c = n - 1"
    "c < n - 1 \<Longrightarrow> ((t + 1) mod n + n - h) mod n = c + 1"
proof -
  have c: "c = (if h \<le> t then t - h else t + n - h)"
    unfolding c_def using assms(1,2) by (subst mod_twice) auto
  show "c < n" using assms(1,2) by (auto simp: c)
  show "(h + c) mod n = t" using assms(1,2) by (simp add: c)
  show "(h + i) mod n \<noteq> t" if "i < c"
    using that assms(1,2) by (subst mod_twice) (auto simp: c split: if_splits)
  have t1: "(t + 1) mod n = (if t + 1 = n then 0 else t + 1)" using assms(2) by auto
  show "(t + 1) mod n = h \<longleftrightarrow> c = n - 1" unfolding t1 c using assms(1,2) by auto
  show "((t + 1) mod n + n - h) mod n = c + 1" if "c < n - 1"
    using that assms(1,2) unfolding t1 c by (subst mod_twice) (auto split: if_splits)
qed

lemma ring_shift:
  fixes n :: nat
  assumes "h < n" "t < n" "(t + 1) mod n = h" "2 \<le> n"
  shows "((t + 1) mod n + n - (h + 1) mod n) mod n = n - 1" "((h + 1) mod n + i) mod n = (h + (i + 1)) mod n"
proof -
  show "((t + 1) mod n + n - (h + 1) mod n) mod n = n - 1"
    unfolding assms(3) using assms(1,4) by (cases "h + 1 = n") auto
  show "((h + 1) mod n + i) mod n = (h + (i + 1)) mod n" by (simp add: mod_simps)
qed

section \<open>One element\<close>

text \<open>The data lie outside the buffer, and not right before or behind it.\<close>

definition data_ok :: "u64 \<Rightarrow> shared_buf \<Rightarrow> u64 \<Rightarrow> nat \<Rightarrow> bool" where
  "data_ok sbuf b data len \<longleftrightarrow> data \<noteq> 0 \<and> buf_ok data len \<and>
     (unat data + len < unat sbuf + 64 \<or> unat sbuf + 64 + unat (sbuf_size b) < unat data)"

lemma slot_addr:
  assumes "sbuf_wf sbuf b" "i < unat (ele_num b)"
  shows "unat (sbuf + SBUF_HEAD_SIZE + of_nat (i * unat (ele_size b))) = unat sbuf + 64 + i * unat (ele_size b)"
    "unat sbuf + 64 + i * unat (ele_size b) + unat (ele_size b) \<le> unat sbuf + 64 + unat (sbuf_size b)"
    "buf_ok (sbuf + SBUF_HEAD_SIZE + of_nat (i * unat (ele_size b))) (unat (ele_size b))"
proof -
  let ?e = "unat (ele_size b)"
  have b: "buf_ok sbuf (64 + unat (sbuf_size b))" using assms(1) unfolding sbuf_wf_def by blast
  have "(i + 1) * ?e \<le> unat (ele_num b) * ?e" using assms(2) by (intro mult_le_mono1) simp
  then have le: "i * ?e + ?e \<le> unat (sbuf_size b)" using assms(1) by (simp add: sbuf_wf_def)
  show u: "unat (sbuf + SBUF_HEAD_SIZE + of_nat (i * ?e)) = unat sbuf + 64 + i * ?e"
    using buf_unat [OF b, of "64 + i * ?e"] le by (simp add: SBUF_HEAD_SIZE_def add.assoc)
  show "unat sbuf + 64 + i * ?e + ?e \<le> unat sbuf + 64 + unat (sbuf_size b)" using le by simp
  show "buf_ok (sbuf + SBUF_HEAD_SIZE + of_nat (i * ?e)) ?e" using le b unfolding buf_ok_def u by simp
qed

lemma put_bytes:
  fixes m :: phys
  assumes wf: "sbuf_wf sbuf b" and d: "data_ok sbuf b data (unat (ele_size b))"
  defines "m' \<equiv> snd (memcpy_s (sbuf + SBUF_HEAD_SIZE + ucast (tail b)) (unat (ele_size b)) data (unat (ele_size b)) m)"
  shows "i < unat (ele_num b) \<Longrightarrow> slot_bytes sbuf b m' i =
      (if i = slot b (tail b) then read_bytes m data (unat (ele_size b)) else slot_bytes sbuf b m i)"
    and "\<not> in_buf (sbuf + SBUF_HEAD_SIZE) (unat (sbuf_size b)) x \<Longrightarrow> m' x = m x"
proof -
  let ?e = "unat (ele_size b)" and ?t = "slot b (tail b)"
  let ?to = "sbuf + SBUF_HEAD_SIZE + of_nat (?t * ?e)"
  have t: "?t < unat (ele_num b)" "unat (tail b) = ?t * ?e" using slot_props [OF wf] by blast+
  have "(ucast (tail b) :: u64) = of_nat (unat (tail b))" by simp
  then have to: "sbuf + SBUF_HEAD_SIZE + ucast (tail b) = ?to" unfolding t(2) by simp
  note a = slot_addr [OF wf t(1)]
  have e64: "?e \<le> 2 ^ 64" using a(3) by (simp add: buf_ok_def)
  have nz: "?to \<noteq> 0"
  proof
    assume z: "?to = 0"
    have "unat ?to = 0" unfolding z by simp
    then show False unfolding a(1) by simp
  qed
  have "unat data + ?e < unat ?to \<or> unat ?to + ?e < unat data"
    unfolding a(1) using d a(2) by (auto simp: data_ok_def)
  then have m': "m' = (\<lambda>x. if in_buf ?to ?e x then m (data + (x - ?to)) else m x)"
    using nz d unfolding m'_def to by (subst memcpy_s_exact [OF a(3)]) (auto simp: data_ok_def)
  show "slot_bytes sbuf b m' i = (if i = ?t then read_bytes m data ?e else slot_bytes sbuf b m i)" if i: "i < unat (ele_num b)"
  proof (cases "i = ?t")
    case True
    show ?thesis unfolding slot_bytes_def m' True by (simp only: read_bytes_copy [OF e64] simp_thms if_True)
  next
    case False
    note ai = slot_addr [OF wf i]
    have "i * ?e + ?e \<le> ?t * ?e \<or> ?t * ?e + ?e \<le> i * ?e"
    proof (cases "i < ?t")
      case True
      then show ?thesis using mult_le_mono1 [of "Suc i" ?t ?e] by simp
    next
      case False
      then show ?thesis using \<open>i \<noteq> ?t\<close> mult_le_mono1 [of "Suc ?t" i ?e] by simp
    qed
    then have dis: "unat (sbuf + SBUF_HEAD_SIZE + of_nat (i * ?e)) + ?e \<le> unat ?to \<or> unat ?to + ?e \<le> unat (sbuf + SBUF_HEAD_SIZE + of_nat (i * ?e))"
      unfolding ai(1) a(1) by linarith
    have "m' x = m x" if "in_buf (sbuf + SBUF_HEAD_SIZE + of_nat (i * ?e)) ?e x" for x
      unfolding m' using in_buf_disjoint [OF ai(3) a(3) dis that] by (simp only: if_False)
    from read_bytes_frame [OF this e64] show ?thesis using False unfolding slot_bytes_def by (simp only: if_False)
  qed
  have b: "buf_ok (sbuf + SBUF_HEAD_SIZE) (unat (sbuf_size b))"
    and u: "unat (sbuf + SBUF_HEAD_SIZE) = unat sbuf + 64"
    using wf buf_unat [of sbuf "64 + unat (sbuf_size b)" 64] by (simp_all add: sbuf_wf_def buf_ok_def SBUF_HEAD_SIZE_def)
  show "m' x = m x" if "\<not> in_buf (sbuf + SBUF_HEAD_SIZE) (unat (sbuf_size b)) x"
    using that a(2) unfolding m' in_buf_iff [OF b] in_buf_iff [OF a(3)] a(1) u by auto
qed

text \<open>The fields a put leaves as they are, and the two positions it moves.\<close>

lemma sbuf_put_cases:
  fixes m :: phys and data :: u64
  assumes wf: "sbuf_wf sbuf b"
  defines "full \<equiv> sbuf_next_ptr (tail b) (ele_size b) (sbuf_size b) = head b"
    and "m' \<equiv> snd (memcpy_s (sbuf + SBUF_HEAD_SIZE + ucast (tail b)) (unat (ele_size b)) data (unat (ele_size b)) m)"
    and "nt \<equiv> sbuf_next_ptr (tail b) (ele_size b) (sbuf_size b)"
    and "nh \<equiv> sbuf_next_ptr (head b) (ele_size b) (sbuf_size b)"
  shows "sbuf_put sbuf data (ele_size b) (b, m) =
    (if full then
       (if flags b AND OVERWRITE_EN = 0 then (0, b, m)
        else (ele_size b, b\<lparr>overrun_cnt := overrun_cnt b + (flags b AND OVERRUN_CNT_EN), head := nh, tail := nt\<rparr>, m'))
     else (ele_size b, b\<lparr>tail := nt\<rparr>, m'))"
  by (simp add: sbuf_put_def Let_def full_def m'_def nt_def nh_def)

text \<open>Elements only depend on the positions and the memory behind them.\<close>

lemma elems_cong: "ele_size b' = ele_size b \<Longrightarrow> slot_bytes sbuf b' m i = slot_bytes sbuf b m i" "ele_size b' = ele_size b \<Longrightarrow> slot b' p = slot b p"
  by (simp_all add: slot_bytes_def slot_def)

lemma full_count:
  assumes "sbuf_wf sbuf b"
  shows "sbuf_next_ptr (tail b) (ele_size b) (sbuf_size b) = head b \<longleftrightarrow> sbuf_count b = unat (ele_num b) - 1"
    "sbuf_count b < unat (ele_num b)"
proof -
  note h = slot_props [OF assms, of "head b", simplified] and t = slot_props [OF assms, of "tail b", simplified]
  note n = next_slot [OF assms, of "tail b", simplified] and r = ring_count [OF h(1) t(1)]
  have z: "0 < unat (ele_size b)" using assms by (simp add: sbuf_wf_def unat_gt_0 word_gt_0)
  have "sbuf_next_ptr (tail b) (ele_size b) (sbuf_size b) = head b \<longleftrightarrow>
      (slot b (tail b) + 1) mod unat (ele_num b) = slot b (head b)"
    unfolding word_unat_eq_iff using n(1) h(2) z by simp
  then show "sbuf_next_ptr (tail b) (ele_size b) (sbuf_size b) = head b \<longleftrightarrow> sbuf_count b = unat (ele_num b) - 1"
    using r(4) by (simp add: sbuf_count_def)
  show "sbuf_count b < unat (ele_num b)" using r(1) by (simp add: sbuf_count_def)
qed

lemma put_wf:
  assumes "sbuf_wf sbuf b"
  shows "sbuf_wf sbuf (fst (snd (sbuf_put sbuf data (ele_size b) (b, m))))"
  using assms next_slot(2,3) [OF assms, of "tail b"] next_slot(2,3) [OF assms, of "head b"]
  unfolding sbuf_put_cases [OF assms] by (auto simp: sbuf_wf_def simp del: mod_0_imp_dvd)

lemma elems_tail:
  assumes wf: "sbuf_wf sbuf b" and c: "sbuf_count b < unat (ele_num b) - 1" and e: "ele_size b' = ele_size b" "ele_num b' = ele_num b"
    and p: "head b' = head b" "slot b (tail b') = (slot b (tail b) + 1) mod unat (ele_num b)"
    and m': "\<And>i. i < unat (ele_num b) \<Longrightarrow> slot_bytes sbuf b m' i = (if i = slot b (tail b) then d else slot_bytes sbuf b m i)"
  shows "sbuf_elems sbuf (b', m') = sbuf_elems sbuf (b, m) @ [d]"
proof -
  note h = slot_props [OF wf, of "head b", simplified] and t = slot_props [OF wf, of "tail b", simplified]
  note r = ring_count [OF h(1) t(1), folded sbuf_count_def]
  have n: "0 < unat (ele_num b)" using h(1) by simp
  have c': "sbuf_count b' = sbuf_count b + 1"
    using r(5) [OF c] e p by (simp add: sbuf_count_def elems_cong [OF e(1)])
  have old: "slot_bytes sbuf b m' ((slot b (head b) + i) mod unat (ele_num b)) = slot_bytes sbuf b m ((slot b (head b) + i) mod unat (ele_num b))"
    if "i < sbuf_count b" for i using m' n r(3) [OF that] by simp
  have new: "slot_bytes sbuf b m' ((slot b (head b) + sbuf_count b) mod unat (ele_num b)) = d"
    using m' [OF t(1)] r(2) by simp
  show ?thesis
    unfolding sbuf_elems_def prod.case c' using old new e p(1) by (simp add: elems_cong [OF e(1)])
qed

lemma elems_overwrite:
  assumes wf: "sbuf_wf sbuf b" and c: "sbuf_count b = unat (ele_num b) - 1" and e: "ele_size b' = ele_size b" "ele_num b' = ele_num b"
    and p: "slot b (head b') = (slot b (head b) + 1) mod unat (ele_num b)" "slot b (tail b') = (slot b (tail b) + 1) mod unat (ele_num b)"
    and m': "\<And>i. i < unat (ele_num b) \<Longrightarrow> slot_bytes sbuf b m' i = (if i = slot b (tail b) then d else slot_bytes sbuf b m i)"
  shows "sbuf_elems sbuf (b', m') = tl (sbuf_elems sbuf (b, m)) @ [d]"
proof (rule nth_equalityI)
  let ?n = "unat (ele_num b)" and ?h = "slot b (head b)"
  note h = slot_props [OF wf, of "head b", simplified] and t = slot_props [OF wf, of "tail b", simplified]
  note r = ring_count [OF h(1) t(1), folded sbuf_count_def]
  have n: "2 \<le> ?n" using wf by (simp add: sbuf_wf_def)
  have fl: "(slot b (tail b) + 1) mod ?n = ?h" using r(4) c by simp
  note sh = ring_shift [OF h(1) t(1) fl n]
  have c': "sbuf_count b' = ?n - 1"
    using sh(1) e p by (simp add: sbuf_count_def elems_cong [OF e(1)])
  show "length (sbuf_elems sbuf (b', m')) = length (tl (sbuf_elems sbuf (b, m)) @ [d])"
    using c c' n by (simp add: sbuf_elems_def)
  fix i assume "i < length (sbuf_elems sbuf (b', m'))"
  then have i: "i < ?n - 1" using c' by (simp add: sbuf_elems_def)
  have l: "sbuf_elems sbuf (b', m') ! i = slot_bytes sbuf b m' ((?h + (i + 1)) mod ?n)"
    using i c' sh(2) e p(1) by (simp add: sbuf_elems_def elems_cong [OF e(1)])
  show "sbuf_elems sbuf (b', m') ! i = (tl (sbuf_elems sbuf (b, m)) @ [d]) ! i"
  proof (cases "i + 1 < ?n - 1")
    case True
    then have "(?h + (i + 1)) mod ?n \<noteq> slot b (tail b)" using r(3) [of "i + 1"] c by simp
    moreover have "(tl (sbuf_elems sbuf (b, m)) @ [d]) ! i = slot_bytes sbuf b m ((?h + (i + 1)) mod ?n)"
      using True c by (auto simp: sbuf_elems_def nth_append nth_tl)
    ultimately show ?thesis using l m' n by simp
  next
    case False
    then have "i + 1 = sbuf_count b" using i c by simp
    then have "(?h + (i + 1)) mod ?n = slot b (tail b)" using r(2) by simp
    moreover have "(tl (sbuf_elems sbuf (b, m)) @ [d]) ! i = d"
      using \<open>i + 1 = sbuf_count b\<close> by (auto simp: sbuf_elems_def nth_append)
    ultimately show ?thesis using l m' [OF t(1)] by simp
  qed
qed

lemma elems_length: "length (sbuf_elems sbuf (b, m)) = sbuf_count b"
  by (simp add: sbuf_elems_def)

lemma sbuf_put_queue:
  assumes wf: "sbuf_wf sbuf b" and d: "data_ok sbuf b data (unat (ele_size b))"
    and r: "sbuf_put sbuf data (ele_size b) (b, m) = (ret, b', m')"
  shows "case queue_put (unat (ele_num b) - 1) (flags b AND OVERWRITE_EN \<noteq> 0) (read_bytes m data (unat (ele_size b))) (sbuf_elems sbuf (b, m)) of
      None \<Rightarrow> ret = 0 \<and> b' = b \<and> m' = m
    | Some q \<Rightarrow> ret = ele_size b \<and> sbuf_elems sbuf (b', m') = q \<and>
        overrun_cnt b' = overrun_cnt b + (if length (sbuf_elems sbuf (b, m)) = unat (ele_num b) - 1 then flags b AND OVERRUN_CNT_EN else 0) \<and>
        (\<forall>x. m' x \<noteq> m x \<longrightarrow> in_buf (sbuf + SBUF_HEAD_SIZE) (unat (sbuf_size b)) x)"
    "sbuf_wf sbuf b'" "b'\<lparr>head := head b, tail := tail b, overrun_cnt := overrun_cnt b\<rparr> = b"
proof -
  note pb = put_bytes [OF wf d, where m = m]
  note nt = next_slot(4) [OF wf, of "tail b", simplified] and nh = next_slot(4) [OF wf, of "head b", simplified]
  note fc = full_count [OF wf]
  show "sbuf_wf sbuf b'" using put_wf [OF wf, of data m] r by simp
  show "b'\<lparr>head := head b, tail := tail b, overrun_cnt := overrun_cnt b\<rparr> = b"
    using r unfolding sbuf_put_cases [OF wf] by (auto split: if_splits)
  show "case queue_put (unat (ele_num b) - 1) (flags b AND OVERWRITE_EN \<noteq> 0) (read_bytes m data (unat (ele_size b))) (sbuf_elems sbuf (b, m)) of
      None \<Rightarrow> ret = 0 \<and> b' = b \<and> m' = m
    | Some q \<Rightarrow> ret = ele_size b \<and> sbuf_elems sbuf (b', m') = q \<and>
        overrun_cnt b' = overrun_cnt b + (if length (sbuf_elems sbuf (b, m)) = unat (ele_num b) - 1 then flags b AND OVERRUN_CNT_EN else 0) \<and>
        (\<forall>x. m' x \<noteq> m x \<longrightarrow> in_buf (sbuf + SBUF_HEAD_SIZE) (unat (sbuf_size b)) x)"
  proof (cases "sbuf_count b = unat (ele_num b) - 1")
    case False
    then have c: "sbuf_count b < unat (ele_num b) - 1" using fc(2) by simp
    have r': "ret = ele_size b" "b' = b\<lparr>tail := sbuf_next_ptr (tail b) (ele_size b) (sbuf_size b)\<rparr>"
      "m' = snd (memcpy_s (sbuf + SBUF_HEAD_SIZE + ucast (tail b)) (unat (ele_size b)) data (unat (ele_size b)) m)"
      using r False fc(1) unfolding sbuf_put_cases [OF wf] by auto
    have "sbuf_elems sbuf (b', m') = sbuf_elems sbuf (b, m) @ [read_bytes m data (unat (ele_size b))]"
      unfolding r'(3) by (rule elems_tail [OF wf c]) (use r'(2) nt pb(1) in simp_all)
    then show ?thesis
      using c r' pb(2) by (auto simp: queue_put_def elems_length)
  next
    case True
    show ?thesis
    proof (cases "flags b AND OVERWRITE_EN = 0")
      case False
      have r': "ret = ele_size b" "b' = b\<lparr>overrun_cnt := overrun_cnt b + (flags b AND OVERRUN_CNT_EN),
          head := sbuf_next_ptr (head b) (ele_size b) (sbuf_size b), tail := sbuf_next_ptr (tail b) (ele_size b) (sbuf_size b)\<rparr>"
        "m' = snd (memcpy_s (sbuf + SBUF_HEAD_SIZE + ucast (tail b)) (unat (ele_size b)) data (unat (ele_size b)) m)"
        using r True False fc(1) unfolding sbuf_put_cases [OF wf] by auto
      have "sbuf_elems sbuf (b', m') = tl (sbuf_elems sbuf (b, m)) @ [read_bytes m data (unat (ele_size b))]"
        unfolding r'(3) by (rule elems_overwrite [OF wf True]) (use r'(2) nt nh pb(1) in simp_all)
      then show ?thesis
        using True False r' pb(2) by (auto simp: queue_put_def elems_length)
    next
      case Z: True
      then show ?thesis
        using True r fc(1) unfolding sbuf_put_cases [OF wf] by (simp add: queue_put_def elems_length)
    qed
  qed
qed

section \<open>Several elements\<close>

text \<open>Elements are put one after the other until the queue refuses one.\<close>

primrec queue_put_many :: "nat \<Rightarrow> bool \<Rightarrow> 'a list \<Rightarrow> 'a list \<Rightarrow> nat \<times> 'a list" where
  "queue_put_many cap overwrite [] q = (0, q)"
| "queue_put_many cap overwrite (d # ds) q =
     (case queue_put cap overwrite d q of None \<Rightarrow> (0, q)
      | Some q \<Rightarrow> (let (k, q) = queue_put_many cap overwrite ds q in (Suc k, q)))"

text \<open>Without overwriting the queue takes what fits; with it, it keeps the latest elements.\<close>

lemma queue_put_many_keep:
  "length q \<le> cap \<Longrightarrow> queue_put_many cap False ds q =
     (min (length ds) (cap - length q), q @ take (cap - length q) ds)"
proof (induction ds arbitrary: q)
  case (Cons d ds)
  show ?case
  proof (cases "length q < cap")
    case True
    then show ?thesis using Cons.IH [of "q @ [d]"] by (simp add: queue_put_def take_Cons')
  qed (use Cons.prems in \<open>simp add: queue_put_def\<close>)
qed simp

lemma queue_put_many_latest:
  "length q \<le> cap \<Longrightarrow> 0 < cap \<Longrightarrow> queue_put_many cap True ds q = (length ds, drop (length q + length ds - cap) (q @ ds))"
proof (induction ds arbitrary: q)
  case (Cons d ds)
  show ?case
  proof (cases "length q < cap")
    case True
    then show ?thesis using Cons.IH [of "q @ [d]"] Cons.prems(2) by (simp add: queue_put_def)
  next
    case False
    then have q: "length q = cap" "q \<noteq> []" using Cons.prems by auto
    then obtain a q' where "q = a # q'" by (cases q) auto
    then show ?thesis using Cons.IH [of "q' @ [d]"] q Cons.prems(2) by (auto simp: queue_put_def)
  qed
qed simp

text \<open>The elements that \<open>data\<close> holds.\<close>

definition data_elems :: "phys \<Rightarrow> u64 \<Rightarrow> nat \<Rightarrow> nat \<Rightarrow> nat \<Rightarrow> u8 list list" where
  "data_elems m data esz i n = map (\<lambda>j. read_bytes m (data + of_nat (j * esz)) esz) [i..<i + n]"

lemma data_elems_Suc: "data_elems m data esz i (Suc n) = read_bytes m (data + of_nat (i * esz)) esz # data_elems m data esz (Suc i) n"
proof -
  have "[i..<i + Suc n] = i # [Suc i..<Suc i + n]" by (subst upt_conv_Cons) simp_all
  then show ?thesis by (simp only: data_elems_def list.map)
qed

lemma data_elem_ok:
  assumes "data_ok sbuf b data (k * unat (ele_size b))" "i < k"
  shows "data_ok sbuf b (data + of_nat (i * unat (ele_size b))) (unat (ele_size b))"
    "unat (data + of_nat (i * unat (ele_size b))) = unat data + i * unat (ele_size b)"
proof -
  let ?e = "unat (ele_size b)"
  have le: "i * ?e + ?e \<le> k * ?e" using mult_le_mono1 [of "Suc i" k ?e] assms(2) by simp
  have b: "buf_ok data (k * ?e)" "data \<noteq> 0" using assms(1) by (simp_all add: data_ok_def)
  show u: "unat (data + of_nat (i * ?e)) = unat data + i * ?e" by (rule buf_unat [OF b(1)]) (use le in linarith)
  have "unat (data + of_nat (i * ?e)) \<noteq> 0" using u b(2) by (simp add: unat_eq_0)
  then have "data + of_nat (i * ?e) \<noteq> 0" using unat_0 by metis
  then show "data_ok sbuf b (data + of_nat (i * ?e)) ?e"
    using assms(1) le unfolding data_ok_def buf_ok_def u by auto
qed

lemma data_elems_keep:
  assumes wf: "sbuf_wf sbuf b" and d: "data_ok sbuf b data (k * unat (ele_size b))" and i: "i + n \<le> k"
    and m': "\<And>x. m' x \<noteq> m x \<Longrightarrow> in_buf (sbuf + SBUF_HEAD_SIZE) (unat (sbuf_size b)) x"
  shows "data_elems m' data (unat (ele_size b)) i n = data_elems m data (unat (ele_size b)) i n"
proof -
  let ?e = "unat (ele_size b)"
  have b: "buf_ok (sbuf + SBUF_HEAD_SIZE) (unat (sbuf_size b))" "unat (sbuf + SBUF_HEAD_SIZE) = unat sbuf + 64"
    using wf buf_unat [of sbuf "64 + unat (sbuf_size b)" 64] by (simp_all add: sbuf_wf_def buf_ok_def SBUF_HEAD_SIZE_def)
  have "read_bytes m' (data + of_nat (j * ?e)) ?e = read_bytes m (data + of_nat (j * ?e)) ?e" if "j < k" for j
  proof (rule read_bytes_frame)
    note e = data_elem_ok(1) [OF d that]
    have bo: "buf_ok (data + of_nat (j * ?e)) ?e" using e by (simp only: data_ok_def)
    show "?e \<le> 2 ^ 64" using bo by (simp add: buf_ok_def)
    fix x assume x: "in_buf (data + of_nat (j * ?e)) ?e x"
    have "unat (data + of_nat (j * ?e)) + ?e \<le> unat (sbuf + SBUF_HEAD_SIZE) \<or>
        unat (sbuf + SBUF_HEAD_SIZE) + unat (sbuf_size b) \<le> unat (data + of_nat (j * ?e))"
      using e unfolding b(2) data_ok_def by linarith
    from in_buf_disjoint [OF bo b(1) this x] show "m' x = m x" using m' by blast
  qed
  then show ?thesis using i by (simp add: data_elems_def)
qed

lemma put_many_queue:
  assumes "sbuf_wf sbuf b" "data_ok sbuf b data (k * unat (ele_size b))" "unat i + n \<le> k" "k * unat (ele_size b) < 2 ^ 32"
    "unat sent = unat i * unat (ele_size b)"
    "put_many_loop sbuf (ele_size b) data n i sent (b, m) = (ret, b', m')"
  shows "case queue_put_many (unat (ele_num b) - 1) (flags b AND OVERWRITE_EN \<noteq> 0) (data_elems m data (unat (ele_size b)) (unat i) n) (sbuf_elems sbuf (b, m)) of
    (j, q) \<Rightarrow> unat ret = (unat i + j) * unat (ele_size b) \<and> sbuf_elems sbuf (b', m') = q \<and> sbuf_wf sbuf b'"
  using assms
proof (induction n arbitrary: i sent b m)
  case 0
  then show ?case by (auto simp: data_elems_def)
next
  case (Suc n)
  let ?e = "unat (ele_size b)" and ?i = "unat i"
  have z: "0 < ?e" using Suc.prems(1) by (simp add: sbuf_wf_def unat_gt_0 word_gt_0)
  have ik: "?i < k" using Suc.prems(3) by simp
  have le: "Suc ?i * ?e \<le> k * ?e" using ik by (intro mult_le_mono1) simp
  have pos: "ucast (i * ele_size b) = (of_nat (?i * ?e) :: u64)"
  proof -
    have "unat (i * ele_size b) = ?i * ?e" using le Suc.prems(4) z by (intro unat_mult_nowrap) simp
    moreover have "ucast (i * ele_size b) = (of_nat (unat (i * ele_size b)) :: u64)" by simp
    ultimately show ?thesis by (simp only:)
  qed
  obtain r1 b1 m1 where p: "sbuf_put sbuf (data + of_nat (?i * ?e)) (ele_size b) (b, m) = (r1, b1, m1)"
    by (metis prod_cases3)
  note q = sbuf_put_queue [OF Suc.prems(1) data_elem_ok(1) [OF Suc.prems(2) ik] p]
  have loop: "put_many_loop sbuf (ele_size b) data (Suc n) i sent (b, m) =
      (if r1 = ele_size b then put_many_loop sbuf (ele_size b) data n (i + 1) (sent + r1) (b1, m1)
       else (if r1 = UINT32_MAX then UINT32_MAX else sent, (b1, m1)))"
    unfolding put_many_loop.simps pos p by (simp add: Let_def)
  show ?case
  proof (cases "queue_put (unat (ele_num b) - 1) (flags b AND OVERWRITE_EN \<noteq> 0) (read_bytes m (data + of_nat (?i * ?e)) ?e) (sbuf_elems sbuf (b, m))")
    case None
    then have "r1 = 0" "b1 = b" "m1 = m" using q(1) by simp_all
    then have "ret = sent" "b' = b" "m' = m" using Suc.prems(6) z unfolding loop by (auto simp: unat_gt_0)
    then show ?thesis using None Suc.prems(1,5) by (simp add: data_elems_Suc)
  next
    case (Some q')
    then have r: "r1 = ele_size b" "sbuf_elems sbuf (b1, m1) = q'" "\<And>x. m1 x \<noteq> m x \<Longrightarrow> in_buf (sbuf + SBUF_HEAD_SIZE) (unat (sbuf_size b)) x"
      using q(1) by auto
    have same: "ele_size b1 = ele_size b" "ele_num b1 = ele_num b" "flags b1 = flags b" "sbuf_size b1 = sbuf_size b"
      using q(3) by (metis shared_buf.select_convs shared_buf.surjective shared_buf.update_convs)+
    have i1: "unat (i + 1) = Suc ?i"
    proof -
      have "Suc ?i \<le> k" using ik by simp
      moreover have "k * 1 \<le> k * ?e" using z by (intro mult_le_mono2) simp
      ultimately have "Suc ?i < 2 ^ 32" using Suc.prems(4) by linarith
      then have "Suc ?i < 2 ^ LENGTH(32)" by simp
      then show ?thesis by (rule unat_Suc_nowrap)
    qed
    have s1: "unat (sent + r1) = Suc ?i * ?e"
      using le Suc.prems(4,5) unfolding r(1) by (subst unat_add_nowrap) simp_all
    have d1: "data_ok sbuf b1 data (k * unat (ele_size b1))" using Suc.prems(2) same by (simp add: data_ok_def)
    note ih = Suc.IH [OF q(2) d1, of "i + 1" "sent + r1" m1]
    have keep: "data_elems m1 data ?e (Suc ?i) n = data_elems m data ?e (Suc ?i) n"
      using data_elems_keep [OF Suc.prems(1,2) _ r(3), of "Suc ?i" n] Suc.prems(3) by simp
    show ?thesis
      using ih Suc.prems(3,4,6) Some r(1,2) s1 i1 same keep unfolding loop
      by (auto simp: data_elems_Suc split: prod.splits)
  qed
qed

section \<open>Properties\<close>

text \<open>
  C9: A shared buffer is a bounded queue.  Putting an element of the right size appends its bytes
  to the elements that can be read; if the buffer is full it refuses and changes nothing, or, with
  overwriting enabled, drops the oldest element and counts the overrun if asked to.  The buffer
  stays well formed and no byte outside it is written.
\<close>

theorem sbuf_put_refines_queue:
  assumes "sbuf_wf sbuf b" "data_ok sbuf b data (unat (ele_size b))"
  shows "case sbuf_put sbuf data (ele_size b) (b, m) of (ret, b', m') \<Rightarrow> sbuf_wf sbuf b' \<and>
    (case queue_put (unat (ele_num b) - 1) (flags b AND OVERWRITE_EN \<noteq> 0) (read_bytes m data (unat (ele_size b))) (sbuf_elems sbuf (b, m)) of
       None \<Rightarrow> ret = 0 \<and> b' = b \<and> m' = m
     | Some q \<Rightarrow> ret = ele_size b \<and> sbuf_elems sbuf (b', m') = q \<and>
         overrun_cnt b' = overrun_cnt b + (if length (sbuf_elems sbuf (b, m)) = unat (ele_num b) - 1 then flags b AND OVERRUN_CNT_EN else 0) \<and>
         (\<forall>x. m' x \<noteq> m x \<longrightarrow> in_buf (sbuf + SBUF_HEAD_SIZE) (unat (sbuf_size b)) x))"
proof -
  obtain ret b' m' where p: "sbuf_put sbuf data (ele_size b) (b, m) = (ret, b', m')" by (metis prod_cases3)
  show ?thesis unfolding p using sbuf_put_queue(1,2) [OF assms p] by simp
qed

text \<open>A buffer of three slots of two bytes, empty, and data to put into it.\<close>

definition sample_sbuf :: shared_buf where
  "sample_sbuf = \<lparr>magic = 0x5aa57aa71aa13aa3, ele_num = 3, ele_size = 2, head = 4, tail = 4, flags = 0, overrun_cnt = 0, sbuf_size = 6\<rparr>"

definition sample_bytes :: phys where
  "sample_bytes = (\<lambda>a. ucast a)"

lemma sample_sbuf_ok: "sbuf_wf 0x1000 sample_sbuf" "data_ok 0x1000 sample_sbuf 0x2001 2" "data_ok 0x1000 sample_sbuf 0x2001 6"
  by (simp_all add: sbuf_wf_def data_ok_def sample_sbuf_def SBUF_MAX_SIZE_def buf_ok_def)

theorem sbuf_put_refines_queue_witness:
  "case sbuf_put 0x1000 0x2001 2 (sample_sbuf, sample_bytes) of (ret, b', m') \<Rightarrow>
     ret = 2 \<and> sbuf_elems 0x1000 (b', m') = [[1, 2]] \<and> tail b' = 0"
proof -
  have e: "ele_size sample_sbuf = 2" "sbuf_elems 0x1000 (sample_sbuf, sample_bytes) = []"
    by (simp_all add: sample_sbuf_def sbuf_elems_def sbuf_count_def slot_def)
  have d: "read_bytes sample_bytes 0x2001 2 = [1, 2]" by (simp add: read_bytes_def sample_bytes_def upt_rec)
  obtain ret b' m' where p: "sbuf_put 0x1000 0x2001 2 (sample_sbuf, sample_bytes) = (ret, b', m')" by (metis prod_cases3)
  then have "tail b' = 0" by (auto simp: sbuf_put_def sample_sbuf_def sbuf_next_ptr_def Let_def)
  then show ?thesis
    using sbuf_put_refines_queue [OF sample_sbuf_ok(1), of "0x2001" sample_bytes] sample_sbuf_ok(2) p e d
    by (simp add: queue_put_def) (simp add: sample_sbuf_def)
qed

text \<open>
  C38: \<^verbatim>\<open>sbuf_put_many\<close> puts a batch as far as it fits.  Without overwriting exactly the leading
  elements that find room are appended and their size in bytes is returned; with overwriting all
  elements are taken and the buffer holds the latest ones.
\<close>

theorem sbuf_put_many_takes_prefix:
  assumes "sbuf_wf sbuf b" "data_ok sbuf b data (unat data_size)" "unat data_size = k * unat (ele_size b)"
  shows "case sbuf_put_many sbuf (ele_size b) data data_size (b, m) of (ret, b', m') \<Rightarrow>
    let cap = unat (ele_num b) - 1; q = sbuf_elems sbuf (b, m); ds = data_elems m data (unat (ele_size b)) 0 k in
    if flags b AND OVERWRITE_EN = 0
    then unat ret = min k (cap - length q) * unat (ele_size b) \<and> sbuf_elems sbuf (b', m') = q @ take (cap - length q) ds
    else unat ret = unat data_size \<and> sbuf_elems sbuf (b', m') = drop (length q + k - cap) (q @ ds)"
proof -
  let ?e = "unat (ele_size b)"
  have z: "0 < ?e" using assms(1) by (simp add: sbuf_wf_def unat_gt_0 word_gt_0)
  have n: "unat (data_size div ele_size b) = k" using z by (simp add: unat_div assms(3))
  have lt: "k * ?e < 2 ^ 32" using unsigned_less [of data_size, where 'a = nat] assms(3) by simp
  obtain ret b' m' where p: "put_many_loop sbuf (ele_size b) data k 0 0 (b, m) = (ret, b', m')" by (metis prod_cases3)
  have d: "data_ok sbuf b data (k * ?e)" using assms(2,3) by simp
  note q = put_many_queue [OF assms(1) d _ lt _ p]
  have len: "length (sbuf_elems sbuf (b, m)) \<le> unat (ele_num b) - 1" "0 < unat (ele_num b) - 1" "length (data_elems m data ?e 0 k) = k"
    using full_count(2) [OF assms(1)] assms(1) by (simp_all add: elems_length sbuf_wf_def data_elems_def)
  show ?thesis
    unfolding sbuf_put_many_def n p prod.case Let_def
    using q queue_put_many_keep [OF len(1), of "data_elems m data ?e 0 k"]
      queue_put_many_latest [OF len(1,2), of "data_elems m data ?e 0 k"] len(3) assms(3) by auto
qed

theorem sbuf_put_many_takes_prefix_witness:
  "case sbuf_put_many 0x1000 2 0x2001 6 (sample_sbuf, sample_bytes) of (ret, b', m') \<Rightarrow>
     unat ret = 4 \<and> sbuf_elems 0x1000 (b', m') = [[1, 2], [3, 4]]"
proof -
  have e: "ele_size sample_sbuf = 2" "sbuf_elems 0x1000 (sample_sbuf, sample_bytes) = []" "ele_num sample_sbuf = 3" "flags sample_sbuf = 0"
    by (simp_all add: sample_sbuf_def sbuf_elems_def sbuf_count_def slot_def)
  have d: "data_elems sample_bytes 0x2001 2 0 3 = [[1, 2], [3, 4], [5, 6]]"
    by (simp add: data_elems_def read_bytes_def sample_bytes_def upt_rec)
  show ?thesis
    using sbuf_put_many_takes_prefix [OF sample_sbuf_ok(1), of "0x2001" 6 3 sample_bytes] sample_sbuf_ok(3) e d
    by (simp add: Let_def split: prod.splits)
qed

text \<open>
  An element size smaller than the caller's data is accepted, but then \<open>memcpy_s\<close> refuses to copy:
  the put reports success and the element that readers find is all zero.
\<close>

theorem sbuf_put_small_element_zeroed:
  assumes wf: "sbuf_wf sbuf b" and d: "data_ok sbuf b data (unat max_len)" and lt: "ele_size b < max_len"
    and room: "sbuf_count b < unat (ele_num b) - 1"
  shows "case sbuf_put sbuf data max_len (b, m) of (ret, b', m') \<Rightarrow>
    ret = ele_size b \<and> slot_bytes sbuf b m' (slot b (tail b)) = replicate (unat (ele_size b)) 0"
proof -
  let ?e = "unat (ele_size b)" and ?t = "slot b (tail b)"
  have t: "?t < unat (ele_num b)" "unat (tail b) = ?t * ?e" using slot_props [OF wf] by blast+
  note a = slot_addr [OF wf t(1)]
  let ?to = "sbuf + SBUF_HEAD_SIZE + of_nat (?t * ?e)"
  have "(ucast (tail b) :: u64) = of_nat (unat (tail b))" by simp
  then have to: "sbuf + SBUF_HEAD_SIZE + ucast (tail b) = ?to" unfolding t(2) by simp
  have nf: "sbuf_next_ptr (tail b) (ele_size b) (sbuf_size b) \<noteq> head b" using full_count(1) [OF wf] room by simp
  have "\<not> unat max_len \<le> ?e" using lt by (simp add: word_less_nat_alt)
  then have z: "snd (memcpy_s ?to ?e data (unat max_len) m) = (\<lambda>x. if in_buf ?to ?e x then 0 else m x)"
    using d by (subst memcpy_s_exact [OF a(3)]) (simp_all add: data_ok_def)
  have "read_bytes (\<lambda>x. if in_buf ?to ?e x then 0 else m x) ?to ?e = replicate ?e 0"
    using a(3) unfolding read_bytes_def
    by (intro nth_equalityI) (simp_all add: in_buf_def buf_ok_def unat_of_nat take_bit_nat_eq_self)
  then show ?thesis
    using nf less_imp_le [OF lt] unfolding sbuf_put_def slot_bytes_def by (simp add: Let_def to z del: of_nat_mult)
qed

theorem sbuf_put_small_element_zeroed_witness:
  "case sbuf_put 0x1000 0x2001 6 (sample_sbuf, sample_bytes) of (ret, b', m') \<Rightarrow>
     ret = 2 \<and> slot_bytes 0x1000 sample_sbuf m' 2 = [0, 0]"
proof -
  have r: "replicate 2 (0 :: u8) = [0, 0]" by (simp add: numeral_2_eq_2)
  show ?thesis
    using sbuf_put_small_element_zeroed [OF sample_sbuf_ok(1), of "0x2001" 6 sample_bytes] sample_sbuf_ok(3)
    by (simp add: sample_sbuf_def sbuf_count_def slot_def r)
qed

end
