(* ===== verification/Timer.thy ===== *)
theory Timer
  imports Prelude
begin

text \<open>
  The tick counter (\<^verbatim>\<open>core/ticks.c\<close>), the software timers (\<^verbatim>\<open>core/timer.c\<close>,
  \<^verbatim>\<open>include/common/timer.h\<close>) and the ARM64 host timer they program (\<^verbatim>\<open>arch/arm64/timer.c\<close>).

  The free-running counter is an input: \<open>tsc s n\<close> is the value the \<open>n\<close>-th read returns and every
  \<open>cpu_ticks\<close> consumes one reading, so two reads of one function body are two values. Each
  per-CPU \<^verbatim>\<open>timer_list\<close> is a list of timer references and a timer's \<open>node\<close> says which list it is
  linked in (\<open>None\<close>: self-linked). Callbacks are symbolic handles; running one is a parameter of
  the soft-interrupt. The state is an extensible record, so the operations apply unchanged to
  the scheduler state that extends it.
\<close>

section \<open>Ticks\<close>

record clock_env =
  tsc :: "nat \<Rightarrow> u64"
  tsc_reads :: nat
  tickrate :: u32   \<comment> \<open>\<^verbatim>\<open>arch_cpu_tickrate()\<close>, in kHz\<close>
  this_cpu :: pcpu  \<comment> \<open>\<^verbatim>\<open>get_pcpu_id()\<close> of the executing code\<close>

definition cpu_ticks :: "'z clock_env_scheme \<Rightarrow> u64 \<times> 'z clock_env_scheme" where
  "cpu_ticks s = (tsc s (tsc_reads s), s\<lparr>tsc_reads := Suc (tsc_reads s)\<rparr>)"

definition us_to_ticks :: "'z clock_env_scheme \<Rightarrow> u32 \<Rightarrow> u64" where
  "us_to_ticks s us = (ucast us * ucast (tickrate s)) div 1000"

definition ticks_to_us :: "'z clock_env_scheme \<Rightarrow> u64 \<Rightarrow> u64" where
  "ticks_to_us s ticks =
     (let us = 0; khz = ucast (tickrate s)
      in if khz \<noteq> 0 then (ticks * 1000) div khz else us)"

text \<open>\<open>None\<close>: the division by a zero tick rate.\<close>

definition ticks_to_ms :: "'z clock_env_scheme \<Rightarrow> u64 \<Rightarrow> u64 option" where
  "ticks_to_ms s ticks =
     (if tickrate s = 0 then None else Some (ticks div ucast (tickrate s)))"

definition TICKS_PER_MS :: "'z clock_env_scheme \<Rightarrow> u64" where
  "TICKS_PER_MS s = us_to_ticks s 1000"

section \<open>Timers\<close>

datatype timer_ref = BvtTick pcpu | RtdsTick pcpu | IorrTick pcpu | TimerRef nat

datatype tick_mode = TICK_MODE_ONESHOT | TICK_MODE_PERIODIC

datatype timer_handle = BvtTickHandler | RtdsTimerHandler | IorrTickHandler | OtherHandler nat

record hv_timer =
  node :: "pcpu option"
  mode :: tick_mode
  timeout :: u64
  period_in_cycle :: u64
  func :: "timer_handle option"
  priv_data :: nat

record timer_env = clock_env +
  hv_timers :: "timer_ref \<Rightarrow> hv_timer"
  timer_list :: "pcpu \<Rightarrow> timer_ref list"
  host_timer :: "pcpu \<Rightarrow> u64 option"  \<comment> \<open>comparator of the enabled EL2 timer, \<open>None\<close> when disabled\<close>

definition upd_timer ::
  "timer_ref \<Rightarrow> (hv_timer \<Rightarrow> hv_timer) \<Rightarrow> 'z timer_env_scheme \<Rightarrow> 'z timer_env_scheme" where
  "upd_timer t f s = s\<lparr>hv_timers := (hv_timers s)(t := f (hv_timers s t))\<rparr>"

abbreviation MAX_TIMER_ACTIONS :: nat where "MAX_TIMER_ACTIONS \<equiv> 32"
abbreviation MIN_TIMER_PERIOD_US :: u32 where "MIN_TIMER_PERIOD_US \<equiv> 500"
abbreviation EINVAL :: int where "EINVAL \<equiv> 22"
abbreviation ARM64_TIMER_MAX_DELTA :: u64 where "ARM64_TIMER_MAX_DELTA \<equiv> 0xffffffff"

subsection \<open>The host timer\<close>

definition arm64_stop_host_timer :: "'z timer_env_scheme \<Rightarrow> 'z timer_env_scheme" where
  "arm64_stop_host_timer s = s\<lparr>host_timer := (host_timer s)(this_cpu s := None)\<rparr>"

definition arch_set_timer_count :: "u64 \<Rightarrow> 'z timer_env_scheme \<Rightarrow> 'z timer_env_scheme" where
  "arch_set_timer_count tmo s =
     (let (now, s) = cpu_ticks s;
          delta = (if tmo > now then tmo - now else 1);
          delta = (if delta > ARM64_TIMER_MAX_DELTA then ARM64_TIMER_MAX_DELTA else delta);
          s = arm64_stop_host_timer s
      in s\<lparr>host_timer := (host_timer s)(this_cpu s := Some (now + delta))\<rparr>)"

subsection \<open>Operations on one timer\<close>

text \<open>\<^verbatim>\<open>timer_expired\<close>: the verdict and the value stored through \<^verbatim>\<open>delta\<close>.\<close>

definition timer_expired :: "hv_timer \<Rightarrow> u64 \<Rightarrow> bool \<times> u64" where
  "timer_expired t now =
     (if timeout t \<noteq> 0 \<and> now < timeout t then (False, timeout t - now) else (True, 0))"

definition timer_is_started :: "hv_timer \<Rightarrow> bool" where
  "timer_is_started t \<longleftrightarrow> node t \<noteq> None"

definition initialize_timer ::
  "timer_ref option \<Rightarrow> timer_handle option \<Rightarrow> nat \<Rightarrow> u64 \<Rightarrow> u64 \<Rightarrow>
   'z timer_env_scheme \<Rightarrow> 'z timer_env_scheme" where
  "initialize_timer tr f pd tmo period s =
     (case tr of None \<Rightarrow> s
      | Some t \<Rightarrow> upd_timer t (\<lambda>_. \<lparr>node = None,
          mode = (if period > 0 then TICK_MODE_PERIODIC else TICK_MODE_ONESHOT),
          timeout = tmo, period_in_cycle = (if period > 0 then period else 0),
          func = f, priv_data = pd\<rparr>) s)"

definition update_timer ::
  "timer_ref option \<Rightarrow> u64 \<Rightarrow> u64 \<Rightarrow> 'z timer_env_scheme \<Rightarrow> 'z timer_env_scheme" where
  "update_timer tr tmo period s =
     (case tr of None \<Rightarrow> s
      | Some t \<Rightarrow> upd_timer t (\<lambda>tm. tm\<lparr>timeout := tmo,
          mode := (if period > 0 then TICK_MODE_PERIODIC else TICK_MODE_ONESHOT),
          period_in_cycle := (if period > 0 then period else 0)\<rparr>) s)"

definition advance_periodic_timer :: "u64 \<Rightarrow> hv_timer \<Rightarrow> hv_timer" where
  "advance_periodic_timer now t =
     (let next = timeout t + period_in_cycle t;
          next = (if next \<le> now then
                    (let missed = (now - next) div period_in_cycle t + 1;
                         next = next + missed * period_in_cycle t
                     in if next \<le> now then now + period_in_cycle t else next)
                  else next)
      in t\<lparr>timeout := next\<rparr>)"

subsection \<open>Operations on the per-CPU list\<close>

definition update_architecture_timer :: "pcpu \<Rightarrow> 'z timer_env_scheme \<Rightarrow> 'z timer_env_scheme" where
  "update_architecture_timer p s =
     (case timer_list s p of [] \<Rightarrow> s
      | t # _ \<Rightarrow> arch_set_timer_count (timeout (hv_timers s t)) s)"

text \<open>
  The scan moves on while the listed deadline is earlier than the new one. The result says
  whether the timer became the head.
\<close>

definition timer_stop :: "(timer_ref \<Rightarrow> hv_timer) \<Rightarrow> timer_ref \<Rightarrow> timer_ref \<Rightarrow> bool" where
  "timer_stop ts x y \<longleftrightarrow> \<not> timeout (ts y) < timeout (ts x)"

definition local_add_timer ::
  "pcpu \<Rightarrow> timer_ref \<Rightarrow> 'z timer_env_scheme \<Rightarrow> bool \<times> 'z timer_env_scheme" where
  "local_add_timer p t s =
     (let xs = timer_list s p;
          at_head = (case xs of [] \<Rightarrow> True | y # _ \<Rightarrow> timer_stop (hv_timers s) t y);
          s = s\<lparr>timer_list := (timer_list s)(p := insert_before (timer_stop (hv_timers s) t) t xs)\<rparr>
      in (at_head, upd_timer t (\<lambda>tm. tm\<lparr>node := Some p\<rparr>) s))"

definition add_timer :: "timer_ref option \<Rightarrow> 'z timer_env_scheme \<Rightarrow> int \<times> 'z timer_env_scheme" where
  "add_timer tr s =
     (case tr of None \<Rightarrow> (- EINVAL, s)
      | Some t \<Rightarrow>
         if func (hv_timers s t) = None \<or> timeout (hv_timers s t) = 0 then (- EINVAL, s)
         else
           (let s = (if mode (hv_timers s t) = TICK_MODE_PERIODIC
                     then upd_timer t (\<lambda>tm. tm\<lparr>period_in_cycle :=
                            max (period_in_cycle tm) (us_to_ticks s MIN_TIMER_PERIOD_US)\<rparr>) s
                     else s);
                p = this_cpu s;
                (at_head, s) = local_add_timer p t s
            in (0, if at_head then update_architecture_timer p s else s)))"

definition del_timer :: "timer_ref option \<Rightarrow> 'z timer_env_scheme \<Rightarrow> 'z timer_env_scheme" where
  "del_timer tr s =
     (case tr of None \<Rightarrow> s
      | Some t \<Rightarrow>
         (case node (hv_timers s t) of None \<Rightarrow> s
          | Some p \<Rightarrow> upd_timer t (\<lambda>tm. tm\<lparr>node := None\<rparr>)
              (s\<lparr>timer_list := (timer_list s)(p := remove1 t (timer_list s p))\<rparr>)))"

definition init_percpu_timer :: "pcpu \<Rightarrow> 'z timer_env_scheme \<Rightarrow> 'z timer_env_scheme" where
  "init_percpu_timer p s = s\<lparr>timer_list := (timer_list s)(p := [])\<rparr>"

subsection \<open>The timer soft-interrupt\<close>

text \<open>
  \<open>call f d s\<close> is the effect of the callback \<open>f\<close> on its private data \<open>d\<close>. The loop is the
  \<^verbatim>\<open>list_for_each_safe\<close> of the source: \<open>pos\<close> and \<open>n\<close> are its two cursors (\<open>None\<close> is the list
  head), \<open>n\<close> is read before the body runs, and \<open>tries\<close> bounds the number of rounds.
\<close>

definition run_timer ::
  "(timer_handle \<Rightarrow> nat \<Rightarrow> 'z timer_env_scheme \<Rightarrow> 'z timer_env_scheme) \<Rightarrow> hv_timer \<Rightarrow>
   'z timer_env_scheme \<Rightarrow> 'z timer_env_scheme" where
  "run_timer call t s =
     (case func t of None \<Rightarrow> s
      | Some f \<Rightarrow> if timeout t \<noteq> 0 then call f (priv_data t) s else s)"

definition service_timer ::
  "(timer_handle \<Rightarrow> nat \<Rightarrow> 'z timer_env_scheme \<Rightarrow> 'z timer_env_scheme) \<Rightarrow> pcpu \<Rightarrow> timer_ref \<Rightarrow>
   u64 \<Rightarrow> 'z timer_env_scheme \<Rightarrow> u64 \<times> 'z timer_env_scheme" where
  "service_timer call p t current_tsc s =
     (let s = del_timer (Some t) s;
          s = run_timer call (hv_timers s t) s
      in if mode (hv_timers s t) = TICK_MODE_PERIODIC
         then (let (current_tsc, s) = cpu_ticks s;
                   s = upd_timer t (advance_periodic_timer current_tsc) s
               in (current_tsc, snd (local_add_timer p t s)))
         else (current_tsc, upd_timer t (\<lambda>tm. tm\<lparr>timeout := 0\<rparr>) s))"

fun timer_softirq_loop ::
  "(timer_handle \<Rightarrow> nat \<Rightarrow> 'z timer_env_scheme \<Rightarrow> 'z timer_env_scheme) \<Rightarrow> pcpu \<Rightarrow> nat \<Rightarrow>
   timer_ref option \<Rightarrow> timer_ref option \<Rightarrow> u64 \<Rightarrow> 'z timer_env_scheme \<Rightarrow> 'z timer_env_scheme" where
  "timer_softirq_loop call p 0 pos n current_tsc s = s"
| "timer_softirq_loop call p (Suc tries) pos n current_tsc s =
     (case pos of None \<Rightarrow> s
      | Some t \<Rightarrow>
         if timeout (hv_timers s t) \<le> current_tsc \<and> tries \<noteq> 0 then
           (let (current_tsc, s) = service_timer call p t current_tsc s;
                n' = (case n of None \<Rightarrow> first_in (timer_list s p) | Some x \<Rightarrow> succ_in (timer_list s p) x)
            in timer_softirq_loop call p tries n n' current_tsc s)
         else s)"

definition timer_softirq ::
  "(timer_handle \<Rightarrow> nat \<Rightarrow> 'z timer_env_scheme \<Rightarrow> 'z timer_env_scheme) \<Rightarrow> pcpu \<Rightarrow>
   'z timer_env_scheme \<Rightarrow> 'z timer_env_scheme" where
  "timer_softirq call p s =
     (let (current_tsc, s) = cpu_ticks s;
          pos = first_in (timer_list s p);
          n = (case pos of None \<Rightarrow> None | Some t \<Rightarrow> succ_in (timer_list s p) t);
          s = timer_softirq_loop call p MAX_TIMER_ACTIONS pos n current_tsc s
      in update_architecture_timer p s)"

section \<open>Well-formed timer lists\<close>

interpretation tq: ordered_queue "\<lambda>ts t. timeout (ts t)" timer_stop
  by unfold_locales (auto simp: timer_stop_def)

text \<open>Every list is sorted by deadline, holds no timer twice, and agrees with the timers' nodes.\<close>

definition timers_wf :: "'z timer_env_scheme \<Rightarrow> bool" where
  "timers_wf s \<longleftrightarrow>
     (\<forall>p. sorted (map (\<lambda>t. timeout (hv_timers s t)) (timer_list s p)) \<and> distinct (timer_list s p)) \<and>
     (\<forall>p t. t \<in> set (timer_list s p) \<longleftrightarrow> node (hv_timers s t) = Some p)"

lemma timers_wfD:
  assumes "timers_wf s"
  shows "sorted (map (\<lambda>t. timeout (hv_timers s t)) (timer_list s p))" "distinct (timer_list s p)"
    "t \<in> set (timer_list s p) \<longleftrightarrow> node (hv_timers s t) = Some p"
  using assms by (auto simp: timers_wf_def)

lemma timers_wf_cong:
  "hv_timers s' = hv_timers s \<Longrightarrow> timer_list s' = timer_list s \<Longrightarrow> timers_wf s' = timers_wf s"
  by (simp add: timers_wf_def)

lemma arch_set_timer_count_frame [simp, frame_simps]:
  "hv_timers (arch_set_timer_count c s) = hv_timers s"
  "timer_list (arch_set_timer_count c s) = timer_list s"
  "tsc (arch_set_timer_count c s) = tsc s"
  "this_cpu (arch_set_timer_count c s) = this_cpu s"
  "tickrate (arch_set_timer_count c s) = tickrate s"
  "timer_env.more (arch_set_timer_count c s) = timer_env.more s"
  by (simp_all add: arch_set_timer_count_def arm64_stop_host_timer_def cpu_ticks_def Let_def)

lemma update_architecture_timer_frame [simp, frame_simps]:
  "hv_timers (update_architecture_timer p s) = hv_timers s"
  "timer_list (update_architecture_timer p s) = timer_list s"
  "tsc (update_architecture_timer p s) = tsc s"
  "this_cpu (update_architecture_timer p s) = this_cpu s"
  "tickrate (update_architecture_timer p s) = tickrate s"
  "timer_env.more (update_architecture_timer p s) = timer_env.more s"
  by (simp_all add: update_architecture_timer_def split: list.splits)

lemma timer_env_more_ops [simp, frame_simps]:
  "timer_env.more (upd_timer t f s) = timer_env.more s"
  "timer_env.more (del_timer tr s) = timer_env.more s"
  "timer_env.more (update_timer tr c d s) = timer_env.more s"
  "timer_env.more (initialize_timer tr g pd c d s) = timer_env.more s"
  "timer_env.more (snd (local_add_timer p t s)) = timer_env.more s"
  "timer_env.more (snd (add_timer tr s)) = timer_env.more s"
  by (auto simp: upd_timer_def del_timer_def update_timer_def initialize_timer_def
      local_add_timer_def add_timer_def Let_def split: option.splits prod.splits)

lemma this_cpu_timer_ops [simp, frame_simps]:
  "this_cpu (upd_timer t f s) = this_cpu s"
  "this_cpu (del_timer tr s) = this_cpu s"
  "this_cpu (update_timer tr c d s) = this_cpu s"
  "this_cpu (initialize_timer tr g pd c d s) = this_cpu s"
  "this_cpu (snd (local_add_timer p t s)) = this_cpu s"
  "this_cpu (snd (add_timer tr s)) = this_cpu s"
  "tickrate (upd_timer t f s) = tickrate s"
  "tickrate (del_timer tr s) = tickrate s"
  "tickrate (update_timer tr c d s) = tickrate s"
  "tickrate (initialize_timer tr g pd c d s) = tickrate s"
  "tickrate (snd (local_add_timer p t s)) = tickrate s"
  "tickrate (snd (add_timer tr s)) = tickrate s"
  "tsc (upd_timer t f s) = tsc s"
  "tsc (del_timer tr s) = tsc s"
  "tsc (update_timer tr c d s) = tsc s"
  "tsc (initialize_timer tr g pd c d s) = tsc s"
  "tsc (snd (local_add_timer p t s)) = tsc s"
  "tsc (snd (add_timer tr s)) = tsc s"
  by (auto simp: upd_timer_def del_timer_def update_timer_def initialize_timer_def
      local_add_timer_def add_timer_def Let_def split: option.splits prod.splits)

lemma tsc_reads_timer_ops [simp, frame_simps]:
  "tsc_reads (upd_timer t f s) = tsc_reads s"
  "tsc_reads (del_timer tr s) = tsc_reads s"
  "tsc_reads (update_timer tr c d s) = tsc_reads s"
  "tsc_reads (initialize_timer tr g pd c d s) = tsc_reads s"
  "tsc_reads (snd (local_add_timer p t s)) = tsc_reads s"
  by (auto simp: upd_timer_def del_timer_def update_timer_def initialize_timer_def
      local_add_timer_def Let_def split: option.splits)

lemma tsc_reads_update_architecture_timer: "tsc_reads s \<le> tsc_reads (update_architecture_timer p s)"
  by (simp add: update_architecture_timer_def arch_set_timer_count_def arm64_stop_host_timer_def
      cpu_ticks_def Let_def split: list.splits)

lemma tsc_reads_add_timer: "tsc_reads s \<le> tsc_reads (snd (add_timer tr s))"
proof -
  have "tsc_reads s \<le> tsc_reads (update_architecture_timer p (snd (local_add_timer p t u)))"
    if "tsc_reads u = tsc_reads s" for p t u
    using tsc_reads_update_architecture_timer [of "snd (local_add_timer p t u)" p] that by simp
  then show ?thesis
    by (auto simp: add_timer_def Let_def case_prod_beta split: option.splits)
qed

lemma node_del_timer [simp]: "node (hv_timers (del_timer (Some t) s) t) = None"
  by (auto simp: del_timer_def upd_timer_def split: option.splits)

lemma hv_timers_update_timer_node [simp]: "node (hv_timers (update_timer tr c d s) t) = node (hv_timers s t)"
  by (auto simp: update_timer_def upd_timer_def split: option.splits)

lemma timers_wf_del_timer:
  assumes "timers_wf s"
  shows "timers_wf (del_timer tr s)"
    and "tr = Some t \<Longrightarrow> node (hv_timers (del_timer tr s) t) = None"
proof -
  show "node (hv_timers (del_timer tr s) t) = None" if "tr = Some t"
    using that by (auto simp: del_timer_def upd_timer_def split: option.splits)
  show "timers_wf (del_timer tr s)"
  proof (cases "tr = None \<or> (\<exists>t. tr = Some t \<and> node (hv_timers s t) = None)")
    case True
    then show ?thesis using assms by (auto simp: del_timer_def)
  next
    case False
    then obtain t p where t: "tr = Some t" "node (hv_timers s t) = Some p" by auto
    let ?s = "del_timer tr s"
    have f: "hv_timers ?s = (hv_timers s)(t := (hv_timers s t)\<lparr>node := None\<rparr>)"
        "timer_list ?s = (timer_list s)(p := remove1 t (timer_list s p))"
      using t by (simp_all add: del_timer_def upd_timer_def)
    have k: "(\<lambda>u. timeout (hv_timers ?s u)) = (\<lambda>u. timeout (hv_timers s u))"
      by (auto simp: f)
    show ?thesis
      using assms t(2) unfolding timers_wf_def k
      by (auto simp: f tq.sorted_remove [of "hv_timers s"] dest: notin_set_remove1)
  qed
qed

lemma timers_wf_local_add_timer:
  assumes "timers_wf s" and "node (hv_timers s t) = None"
  shows "timers_wf (snd (local_add_timer p t s))"
proof -
  let ?s = "snd (local_add_timer p t s)"
  have f: "hv_timers ?s = (hv_timers s)(t := (hv_timers s t)\<lparr>node := Some p\<rparr>)"
      "timer_list ?s = (timer_list s)(p := insert_before (timer_stop (hv_timers s) t) t (timer_list s p))"
    by (simp_all add: local_add_timer_def upd_timer_def Let_def)
  have k: "(\<lambda>u. timeout (hv_timers ?s u)) = (\<lambda>u. timeout (hv_timers s u))"
    by (auto simp: f)
  have "t \<notin> set (timer_list s q)" for q using assms timers_wfD(3) [OF assms(1)] by simp
  then show ?thesis
    using assms unfolding timers_wf_def k
    by (auto simp: f tq.sorted_insert [of "hv_timers s"])
qed

text \<open>Changing a timer that is in no list keeps the lists well-formed.\<close>

lemma timers_wf_upd_timer:
  assumes "timers_wf s" and "node (hv_timers s t) = None" and "node (f (hv_timers s t)) = None"
  shows "timers_wf (upd_timer t f s)"
proof -
  have n: "t \<notin> set (timer_list s q)" for q using assms(2) timers_wfD(3) [OF assms(1)] by simp
  have tl: "timer_list (upd_timer t f s) = timer_list s" by (simp add: upd_timer_def)
  have "map (\<lambda>u. timeout (hv_timers (upd_timer t f s) u)) (timer_list s q) =
      map (\<lambda>u. timeout (hv_timers s u)) (timer_list s q)" for q
    using n [of q] by (intro map_cong) (auto simp: upd_timer_def)
  moreover have "node (hv_timers (upd_timer t f s) u) = node (hv_timers s u)" for u
    using assms(2,3) by (simp add: upd_timer_def)
  ultimately show ?thesis using assms(1) by (simp only: timers_wf_def tl) simp
qed

lemma timers_wf_add_timer:
  assumes "timers_wf s" and "\<And>t. tr = Some t \<Longrightarrow> node (hv_timers s t) = None"
  shows "timers_wf (snd (add_timer tr s))"
proof (cases tr)
  case None
  then show ?thesis using assms(1) by (simp add: add_timer_def)
next
  case (Some t)
  let ?u = "upd_timer t (\<lambda>tm. tm\<lparr>period_in_cycle :=
              max (period_in_cycle tm) (us_to_ticks s MIN_TIMER_PERIOD_US)\<rparr>) s"
  have "timers_wf ?u"
    by (rule timers_wf_upd_timer) (use assms Some in auto)
  moreover have "node (hv_timers ?u t) = None" using assms(2) Some by (simp add: upd_timer_def)
  ultimately have "timers_wf (snd (local_add_timer (this_cpu s) t ?u))"
    by (rule timers_wf_local_add_timer)
  moreover have "timers_wf (snd (local_add_timer (this_cpu s) t s))"
    using assms Some by (auto intro: timers_wf_local_add_timer)
  ultimately show ?thesis
    using assms(1) Some
    by (auto simp: add_timer_def Let_def timers_wf_cong [of "update_architecture_timer _ _"]
        split: prod.splits)
qed

lemma timers_wf_update_timer:
  "timers_wf s \<Longrightarrow> (\<And>t. tr = Some t \<Longrightarrow> node (hv_timers s t) = None) \<Longrightarrow>
   timers_wf (update_timer tr c d s)"
  by (auto simp: update_timer_def split: option.splits intro!: timers_wf_upd_timer)

section \<open>Deadlines\<close>

text \<open>The comparator lies after the reading it was computed from and not after the deadline.\<close>

lemma host_timer_arch_set_timer_count:
  "host_timer (arch_set_timer_count tmo s) (this_cpu s) =
     Some (let now = tsc s (tsc_reads s) in
       now + (if tmo > now then min (tmo - now) ARM64_TIMER_MAX_DELTA else 1))"
  by (auto simp: arch_set_timer_count_def cpu_ticks_def arm64_stop_host_timer_def Let_def min_def
      not_less)

lemma deadline_within:
  assumes "(now :: u64) < tmo" and "e \<le> tmo - now" and "0 < e"
  shows "now < now + e" and "now + e \<le> tmo"
proof -
  have "unat e \<le> unat tmo - unat now"
    using assms(2) unat_sub_le [OF less_imp_le [OF assms(1)]] by (simp add: word_le_nat_alt)
  moreover have "unat now < unat tmo" "0 < unat e"
    using assms by (simp_all add: word_less_nat_alt)
  moreover from calculation have "unat (now + e) = unat now + unat e"
    using unat_lt_64 [of tmo] by (intro unat_add_nowrap) simp
  ultimately show "now < now + e" "now + e \<le> tmo"
    by (auto simp: word_less_nat_alt word_le_nat_alt)
qed

lemma arch_set_timer_count_deadline:
  fixes tmo :: u64 and s :: "'z timer_env_scheme"
  defines "now \<equiv> tsc s (tsc_reads s)"
  assumes "host_timer (arch_set_timer_count tmo s) (this_cpu s) = Some c"
  shows "now < tmo \<Longrightarrow> now < c \<and> c \<le> tmo" and "tmo \<le> now \<Longrightarrow> c = now + 1"
proof -
  have c: "c = now + (if tmo > now then min (tmo - now) ARM64_TIMER_MAX_DELTA else 1)"
    using assms(2) by (auto simp: host_timer_arch_set_timer_count now_def Let_def)
  show "now < c \<and> c \<le> tmo" if "now < tmo"
    using that deadline_within [OF that, of "min (tmo - now) ARM64_TIMER_MAX_DELTA"]
    by (auto simp: c min_def word_gt_0 split: if_splits)
  show "c = now + 1" if "tmo \<le> now" using that by (auto simp: c)
qed

text \<open>
  A periodic timer is moved to the first multiple of its period after the current reading: missed
  periods are skipped, the phase is kept, and the last fallback of the code is not reached.
\<close>

lemma skip_periods:
  fixes N T P :: nat
  assumes "0 < P" and "T + P \<le> N"
  defines "m \<equiv> Suc ((N - (T + P)) div P)"
  shows "m * P \<le> N - T" and "N < T + P + m * P" and "m \<le> N"
proof -
  have "(N - (T + P)) div P * P \<le> N - (T + P)" by (rule div_times_less_eq_dividend)
  then have "P + (N - (T + P)) div P * P \<le> N - T" using assms(2) by linarith
  then show "m * P \<le> N - T" by (simp add: m_def)
  moreover have "m \<le> m * P" using assms(1) by simp
  ultimately show "m \<le> N" by linarith
  have "N - (T + P) < Suc ((N - (T + P)) div P) * P"
    using assms(1) by (metis dividend_less_div_times mult_Suc add.commute)
  then show "N < T + P + m * P" using assms(2) by (simp add: m_def)
qed

lemma advance_periodic_timer_next:
  assumes "0 < period_in_cycle t" and "timeout t \<le> now"
    and "unat now + unat (period_in_cycle t) < 2 ^ 64"
  defines "next \<equiv> timeout (advance_periodic_timer now t)"
  shows "now < next" and "unat next \<le> unat now + unat (period_in_cycle t)"
    and "\<exists>k > 0. unat next = unat (timeout t) + k * unat (period_in_cycle t)"
proof -
  let ?P = "unat (period_in_cycle t)" and ?T = "unat (timeout t)" and ?N = "unat now"
  let ?n1 = "timeout t + period_in_cycle t"
  have P: "0 < ?P" using assms(1) by (simp add: word_less_nat_alt)
  have TN: "?T \<le> ?N" using assms(2) by (simp add: word_le_nat_alt)
  have s1: "unat ?n1 = ?T + ?P" using TN assms(3) by (intro unat_add_nowrap) simp
  have "?N < unat next \<and> unat next \<le> ?N + ?P \<and> (\<exists>k > 0. unat next = ?T + k * ?P)"
  proof (cases "?n1 \<le> now")
    case False
    then have "next = ?n1" by (simp add: next_def advance_periodic_timer_def)
    then show ?thesis
      using False s1 TN by (auto simp: word_le_nat_alt intro!: exI [of _ 1])
  next
    case True
    then have le: "?T + ?P \<le> ?N" using s1 by (simp add: word_le_nat_alt)
    let ?m = "(now - ?n1) div period_in_cycle t + 1"
    define m where "m = Suc ((?N - (?T + ?P)) div ?P)"
    note sk = skip_periods [OF P le, folded m_def]
    have "unat ((now - ?n1) div period_in_cycle t) = (?N - (?T + ?P)) div ?P"
      using True s1 by (simp add: unat_div unat_sub_le)
    then have m: "unat ?m = m"
      using sk(3) unat_lt_64 [of now] by (subst unat_Suc_nowrap) (auto simp: m_def)
    have mp: "unat (?m * period_in_cycle t) = m * ?P"
      using m sk(1) unat_lt_64 [of now] by (subst unat_mult_nowrap) auto
    have n2: "unat (?n1 + ?m * period_in_cycle t) = ?T + ?P + m * ?P"
      using s1 mp sk(1) TN assms(3) by (subst unat_add_nowrap) auto
    then have "next = ?n1 + ?m * period_in_cycle t"
      using True sk(2) by (simp add: next_def advance_periodic_timer_def Let_def word_le_nat_alt)
    then show ?thesis
      using n2 sk TN by (auto intro!: exI [of _ "Suc m"])
  qed
  then show "now < next" "unat next \<le> ?N + ?P" "\<exists>k > 0. unat next = ?T + k * ?P"
    by (auto simp: word_less_nat_alt)
qed

section \<open>The soft-interrupt drains the list\<close>

text \<open>
  A reference for the cursor loop: serve the head of the list while its deadline has passed. The
  count says how many timers were served.
\<close>

fun timer_drain ::
  "(timer_handle \<Rightarrow> nat \<Rightarrow> 'z timer_env_scheme \<Rightarrow> 'z timer_env_scheme) \<Rightarrow> pcpu \<Rightarrow> nat \<Rightarrow> u64 \<Rightarrow>
   'z timer_env_scheme \<Rightarrow> nat \<times> u64 \<times> 'z timer_env_scheme" where
  "timer_drain call p 0 now s = (0, now, s)"
| "timer_drain call p (Suc k) now s =
     (case timer_list s p of [] \<Rightarrow> (0, now, s)
      | t # _ \<Rightarrow>
         if timeout (hv_timers s t) \<le> now then
           (let (now, s) = service_timer call p t now s;
                (n, now, s) = timer_drain call p k now s
            in (Suc n, now, s))
         else (0, now, s))"

text \<open>
  What the loop relies on: callbacks do not touch the timers (\<^verbatim>\<open>timer.h\<close> forbids adding or deleting
  timers from a callback), and the period of a started periodic timer is not zero and does not
  carry the counter past its range.
\<close>

definition callback_ok :: "(timer_handle \<Rightarrow> nat \<Rightarrow> 'z timer_env_scheme \<Rightarrow> 'z timer_env_scheme) \<Rightarrow> bool" where
  "callback_ok call \<longleftrightarrow> (\<forall>f d s. hv_timers (call f d s) = hv_timers s \<and>
     timer_list (call f d s) = timer_list s \<and> tsc (call f d s) = tsc s \<and>
     this_cpu (call f d s) = this_cpu s \<and> tsc_reads s \<le> tsc_reads (call f d s))"

definition periods_ok :: "'z timer_env_scheme \<Rightarrow> bool" where
  "periods_ok s \<longleftrightarrow> (\<forall>t. node (hv_timers s t) \<noteq> None \<longrightarrow> mode (hv_timers s t) = TICK_MODE_PERIODIC \<longrightarrow>
     0 < period_in_cycle (hv_timers s t) \<and>
     (\<forall>n. unat (tsc s n) + unat (period_in_cycle (hv_timers s t)) < 2 ^ 64))"

text \<open>The counter never runs backwards.\<close>

definition clock_mono :: "'z timer_env_scheme \<Rightarrow> bool" where
  "clock_mono s \<longleftrightarrow> (\<forall>m n. m \<le> n \<longrightarrow> tsc s m \<le> tsc s n)"

definition served :: "u64 \<Rightarrow> hv_timer \<Rightarrow> hv_timer" where
  "served now t = (if mode t = TICK_MODE_PERIODIC then advance_periodic_timer now t
                   else t\<lparr>node := None, timeout := 0\<rparr>)"

lemma advance_periodic_timer_fields [simp]:
  "node (advance_periodic_timer now t) = node t" "mode (advance_periodic_timer now t) = mode t"
  "period_in_cycle (advance_periodic_timer now t) = period_in_cycle t"
  by (simp_all add: advance_periodic_timer_def Let_def)

text \<open>One round, as the rest of the list sees it.\<close>

lemma service_timer_effect:
  assumes "callback_ok call" and "node (hv_timers s t) = Some p"
    and "service_timer call p t now s = (now', s')"
  defines "ts' \<equiv> (hv_timers s)(t := served now' (hv_timers s t))"
  shows "hv_timers s' = ts'"
    and "timer_list s' = (timer_list s)(p :=
           (if mode (hv_timers s t) = TICK_MODE_PERIODIC
            then insert_before (timer_stop ts' t) t (remove1 t (timer_list s p))
            else remove1 t (timer_list s p)))"
    and "tsc s' = tsc s" and "this_cpu s' = this_cpu s"
    and "tsc_reads s \<le> tsc_reads s'"
    and "mode (hv_timers s t) = TICK_MODE_PERIODIC \<Longrightarrow>
           \<exists>n \<ge> tsc_reads s. n < tsc_reads s' \<and> now' = tsc s n"
    and "mode (hv_timers s t) \<noteq> TICK_MODE_PERIODIC \<Longrightarrow> now' = now"
proof -
  let ?d = "del_timer (Some t) s"
  define r where "r = run_timer call (hv_timers ?d t) ?d"
  have d: "hv_timers ?d = (hv_timers s)(t := (hv_timers s t)\<lparr>node := None\<rparr>)"
      "timer_list ?d = (timer_list s)(p := remove1 t (timer_list s p))"
      "tsc_reads ?d = tsc_reads s"
    using assms(2) by (simp_all add: del_timer_def upd_timer_def)
  have r: "hv_timers r = hv_timers ?d" "timer_list r = timer_list ?d" "tsc r = tsc s"
      "this_cpu r = this_cpu s" "tsc_reads s \<le> tsc_reads r"
    using assms(1) unfolding r_def callback_ok_def
    by (auto simp: run_timer_def d(3) split: option.splits) (metis d(3))
  have sv: "(now', s') = (if mode (hv_timers s t) = TICK_MODE_PERIODIC
      then (tsc s (tsc_reads r), snd (local_add_timer p t
              (upd_timer t (advance_periodic_timer (tsc s (tsc_reads r)))
                (r\<lparr>tsc_reads := Suc (tsc_reads r)\<rparr>))))
      else (now, upd_timer t (\<lambda>tm. tm\<lparr>timeout := 0\<rparr>) r))"
    unfolding assms(3) [symmetric] service_timer_def r_def [symmetric] Let_def
    by (simp add: cpu_ticks_def r(1,3) d(1))
  have stop: "timer_stop f t = timer_stop g t" if "\<And>u. timeout (f u) = timeout (g u)" for f g
    by (intro ext) (simp add: timer_stop_def that)
  have "hv_timers s' = ts' \<and> timer_list s' = (timer_list s)(p :=
           (if mode (hv_timers s t) = TICK_MODE_PERIODIC
            then insert_before (timer_stop ts' t) t (remove1 t (timer_list s p))
            else remove1 t (timer_list s p)))"
  proof (cases "mode (hv_timers s t) = TICK_MODE_PERIODIC")
    case False
    then show ?thesis
      using sv by (auto simp: upd_timer_def r d ts'_def served_def)
  next
    case True
    have "timer_stop ((hv_timers r)(t := advance_periodic_timer now' (hv_timers r t))) t = timer_stop ts' t"
      by (rule stop) (simp add: r(1) d(1) ts'_def served_def True advance_periodic_timer_def Let_def)
    then show ?thesis
      using sv True assms(2)
      by (auto simp: local_add_timer_def upd_timer_def r d ts'_def served_def Let_def
          advance_periodic_timer_def)
  qed
  then show "hv_timers s' = ts'" "timer_list s' = (timer_list s)(p :=
           (if mode (hv_timers s t) = TICK_MODE_PERIODIC
            then insert_before (timer_stop ts' t) t (remove1 t (timer_list s p))
            else remove1 t (timer_list s p)))" by auto
  show "tsc s' = tsc s" "this_cpu s' = this_cpu s" "tsc_reads s \<le> tsc_reads s'"
    "mode (hv_timers s t) = TICK_MODE_PERIODIC \<Longrightarrow>
           \<exists>n \<ge> tsc_reads s. n < tsc_reads s' \<and> now' = tsc s n"
    "mode (hv_timers s t) \<noteq> TICK_MODE_PERIODIC \<Longrightarrow> now' = now"
    using sv r(3-5)
    by (auto simp: local_add_timer_def upd_timer_def Let_def split: if_splits
        intro!: exI [of _ "tsc_reads r"])
qed

text \<open>The loop invariant: well-formed lists, and the current time is a reading already taken.\<close>

definition drain_inv :: "u64 \<Rightarrow> 'z timer_env_scheme \<Rightarrow> bool" where
  "drain_inv now s \<longleftrightarrow> timers_wf s \<and> periods_ok s \<and> clock_mono s \<and> (\<exists>m < tsc_reads s. now = tsc s m)"

lemma timers_wf_run_timer: "callback_ok call \<Longrightarrow> timers_wf (run_timer call t s) = timers_wf s"
  by (rule timers_wf_cong) (auto simp: run_timer_def callback_ok_def split: option.splits)

lemma timers_wf_service_timer:
  assumes "callback_ok call" and "timers_wf s" and "service_timer call p t now s = (now', s')"
  shows "timers_wf s'"
proof -
  let ?d = "del_timer (Some t) s"
  let ?r = "run_timer call (hv_timers ?d t) ?d"
  let ?c = "snd (cpu_ticks ?r)"
  have same: "hv_timers ?r = hv_timers ?d"
    using assms(1) by (auto simp: run_timer_def callback_ok_def split: option.splits)
  have r: "timers_wf ?r" and n: "node (hv_timers ?r t) = None"
    using timers_wf_del_timer [OF assms(2), of "Some t"] assms(1)
    by (simp_all add: timers_wf_run_timer same)
  have c: "timers_wf ?c" and nc: "node (hv_timers ?c t) = None"
    using r n by (simp_all add: cpu_ticks_def timers_wf_def)
  have "timers_wf (upd_timer t (\<lambda>tm. tm\<lparr>timeout := 0\<rparr>) ?r)"
    by (rule timers_wf_upd_timer) (use r n in auto)
  moreover have "timers_wf (upd_timer t (advance_periodic_timer k) ?c)" for k
    by (rule timers_wf_upd_timer) (use c nc in auto)
  then have "timers_wf (snd (local_add_timer p t (upd_timer t (advance_periodic_timer k) ?c)))" for k
    by (rule timers_wf_local_add_timer) (use nc in \<open>simp add: upd_timer_def\<close>)
  ultimately show ?thesis
    using assms(3) by (auto simp: service_timer_def Let_def split: if_splits prod.splits)
qed

lemma service_timer_inv:
  assumes cb: "callback_ok call" and inv: "drain_inv now s"
    and t: "node (hv_timers s t) = Some p" and exp: "timeout (hv_timers s t) \<le> now"
    and sv: "service_timer call p t now s = (now', s')"
  shows "drain_inv now' s'" and "now \<le> now'"
    and "mode (hv_timers s t) = TICK_MODE_PERIODIC \<Longrightarrow> now' < timeout (hv_timers s' t)"
proof -
  note eff = service_timer_effect [OF cb t sv]
  obtain m where m: "m < tsc_reads s" "now = tsc s m" using inv by (auto simp: drain_inv_def)
  have "now \<le> now' \<and> (\<exists>n < tsc_reads s'. now' = tsc s n)"
  proof (cases "mode (hv_timers s t) = TICK_MODE_PERIODIC")
    case True
    then show ?thesis
      using eff(6) [OF True] m inv unfolding drain_inv_def clock_mono_def
      by (metis less_imp_le less_le_trans)
  next
    case False
    then show ?thesis using eff(5,7) m by (auto intro!: exI [of _ m])
  qed
  then have le: "now \<le> now'" and ex: "\<exists>n < tsc_reads s'. now' = tsc s n" by auto
  show "now \<le> now'" by (rule le)
  have pk: "periods_ok s" using inv by (simp add: drain_inv_def)
  show "now' < timeout (hv_timers s' t)" if per: "mode (hv_timers s t) = TICK_MODE_PERIODIC"
    using advance_periodic_timer_next(1) [of "hv_timers s t" now'] pk t per ex exp le
    by (auto simp: eff(1) served_def periods_ok_def)
  have "periods_ok s'"
    using pk t by (auto simp: periods_ok_def eff(1,3) served_def)
  moreover have "clock_mono s'" using inv by (simp add: drain_inv_def clock_mono_def eff(3))
  moreover have "timers_wf s'"
    using timers_wf_service_timer [OF cb _ sv] inv by (simp add: drain_inv_def)
  ultimately show "drain_inv now' s'"
    using ex by (auto simp: drain_inv_def eff(3))
qed

abbreviation next_cursor :: "pcpu \<Rightarrow> timer_ref option \<Rightarrow> 'z timer_env_scheme \<Rightarrow> timer_ref option" where
  "next_cursor p n s \<equiv> (case n of None \<Rightarrow> first_in (timer_list s p) | Some x \<Rightarrow> succ_in (timer_list s p) x)"

lemma timer_softirq_loop_drain:
  assumes "callback_ok call" and "drain_inv now s"
  shows "timer_softirq_loop call p (Suc k) (first_in (timer_list s p))
           (next_cursor p (first_in (timer_list s p)) s) now s =
         snd (snd (timer_drain call p k now s))"
  using assms(2)
proof (induction k arbitrary: now s)
  case 0
  then show ?case by (simp split: option.splits)
next
  case (Suc k)
  show ?case
  proof (cases "timer_list s p")
    case Nil
    then show ?thesis by simp
  next
    case (Cons t r)
    show ?thesis
    proof (cases "timeout (hv_timers s t) \<le> now")
      case False
      then show ?thesis using Cons by simp
    next
      case True
      obtain now' s' where sv: "service_timer call p t now s = (now', s')" by fastforce
      have wf: "timers_wf s" using Suc.prems by (simp add: drain_inv_def)
      have t: "node (hv_timers s t) = Some p" using timers_wfD(3) [OF wf, of t p] Cons by simp
      note eff = service_timer_effect [OF assms(1) t sv]
      note inv = service_timer_inv [OF assms(1) Suc.prems t True sv]
      have step: "timer_softirq_loop call p (Suc (Suc k)) (Some t) (first_in r) now s =
          timer_softirq_loop call p (Suc k) (first_in r) (next_cursor p (first_in r) s') now' s'"
        using True sv by (simp del: timer_softirq_loop.simps(2) add: timer_softirq_loop.simps(2) [of call p "Suc k"] Let_def)
      have "timer_softirq_loop call p (Suc k) (first_in r) (next_cursor p (first_in r) s') now' s' =
          snd (snd (timer_drain call p k now' s'))"
      proof (cases "first_in (timer_list s' p) = first_in r")
        case True
        then show ?thesis using Suc.IH [OF inv(1)] by simp
      next
        case False
        then have per: "mode (hv_timers s t) = TICK_MODE_PERIODIC"
          and tl: "timer_list s' p = t # r"
          using eff(2) Cons timers_wfD(2) [OF wf, of p]
          by (auto simp: insert_before_split split: if_splits) (cases r; auto)+
        then have "\<not> timeout (hv_timers s' t) \<le> now'" using inv(3) by simp
        moreover have "\<not> timeout (hv_timers s' y) \<le> now'" if "y \<in> set r" for y
          using timers_wfD(1) [of s' p] inv(1) tl that calculation
          by (auto simp: drain_inv_def)
        ultimately show ?thesis using tl by (cases k; cases r) auto
      qed
      moreover have "succ_in (timer_list s p) t = first_in r" using Cons by (simp add: first_in_def)
      ultimately show ?thesis
        using step Cons True sv by (simp del: timer_softirq_loop.simps split: prod.splits)
    qed
  qed
qed

lemma timer_drain_done:
  assumes "callback_ok call" and "drain_inv now s" and "timer_drain call p k now s = (n, now', s')"
  shows "drain_inv now' s'" and "now \<le> now'" and "n \<le> k" and "this_cpu s' = this_cpu s"
    and "n < k \<Longrightarrow> t \<in> set (timer_list s' p) \<Longrightarrow> now' < timeout (hv_timers s' t)"
proof -
  have "drain_inv now' s' \<and> now \<le> now' \<and> n \<le> k \<and> this_cpu s' = this_cpu s \<and>
      (n < k \<longrightarrow> (\<forall>t \<in> set (timer_list s' p). now' < timeout (hv_timers s' t)))"
    using assms(2,3)
  proof (induction k arbitrary: now s n)
    case 0
    then show ?case by simp
  next
    case (Suc k)
    have wf: "timers_wf s" using Suc.prems(1) by (simp add: drain_inv_def)
    show ?case
    proof (cases "timer_list s p")
      case Nil
      then show ?thesis using Suc.prems by simp
    next
      case (Cons t r)
      then have t: "node (hv_timers s t) = Some p" using timers_wfD(3) [OF wf, of t p] by simp
      show ?thesis
      proof (cases "timeout (hv_timers s t) \<le> now")
        case True
        obtain now1 s1 where sv: "service_timer call p t now s = (now1, s1)" by fastforce
        obtain n1 where n1: "timer_drain call p k now1 s1 = (n1, now', s')" and "n = Suc n1"
          using Suc.prems(2) Cons True sv by (auto split: prod.splits)
        moreover note inv = service_timer_inv [OF assms(1) Suc.prems(1) t True sv]
        ultimately show ?thesis
          using Suc.IH [OF inv(1) n1] inv(2) service_timer_effect(4) [OF assms(1) t sv] by auto
      next
        case False
        then have "now' = now" "s' = s" "n = 0" using Suc.prems(2) Cons by simp_all
        moreover have "now < timeout (hv_timers s u)" if "u \<in> set (timer_list s p)" for u
          using timers_wfD(1) [OF wf, of p] that Cons False by (auto intro: less_le_trans)
        ultimately show ?thesis using Suc.prems(1) by simp
      qed
    qed
  qed
  then show "drain_inv now' s'" "now \<le> now'" "n \<le> k" "this_cpu s' = this_cpu s"
    "n < k \<Longrightarrow> t \<in> set (timer_list s' p) \<Longrightarrow> now' < timeout (hv_timers s' t)" by auto
qed

section \<open>The host timer is armed for the first deadline\<close>

text \<open>
  \<open>armed p s\<close>: when the list of \<open>p\<close> is not empty, the comparator of \<open>p\<close> is enabled and not
  later than the first deadline, or that deadline had passed at some reading and the
  comparator was set one tick after it.
\<close>

definition armed_for :: "u64 \<Rightarrow> pcpu \<Rightarrow> 'z timer_env_scheme \<Rightarrow> bool" where
  "armed_for d p s \<longleftrightarrow> (\<exists>c. host_timer s p = Some c \<and>
     (c \<le> d \<or> (\<exists>n < tsc_reads s. d \<le> tsc s n \<and> c = tsc s n + 1)))"

definition armed :: "pcpu \<Rightarrow> 'z timer_env_scheme \<Rightarrow> bool" where
  "armed p s \<longleftrightarrow> (\<forall>t r. timer_list s p = t # r \<longrightarrow> armed_for (timeout (hv_timers s t)) p s)"

lemma armed_for_later:
  assumes "armed_for d p s" and "d \<le> e"
  shows "armed_for e p s"
proof -
  obtain c where c: "host_timer s p = Some c"
    and "c \<le> d \<or> (\<exists>n < tsc_reads s. d \<le> tsc s n \<and> c = tsc s n + 1)"
    using assms(1) by (auto simp: armed_for_def)
  then consider "c \<le> d" | n where "n < tsc_reads s" "c = tsc s n + 1" by blast
  then show ?thesis
  proof cases
    case 1
    then show ?thesis using c assms(2) by (auto simp: armed_for_def)
  next
    case 2
    show ?thesis
    proof (cases "e \<le> tsc s n")
      case True
      then show ?thesis using c 2 by (auto simp: armed_for_def)
    next
      case False
      then have "tsc s n + 1 \<le> e" by (simp add: inc_le not_le)
      then show ?thesis using c 2 by (auto simp: armed_for_def)
    qed
  qed
qed

lemma armed_update_architecture_timer:
  assumes "this_cpu s = p"
  shows "armed p (update_architecture_timer p s)"
proof (cases "timer_list s p")
  case Nil
  then show ?thesis by (simp add: armed_def)
next
  case (Cons t r)
  let ?d = "timeout (hv_timers s t)" and ?s = "update_architecture_timer p s"
  have u: "?s = arch_set_timer_count ?d s" using Cons by (simp add: update_architecture_timer_def)
  obtain c where c: "host_timer ?s p = Some c"
    using host_timer_arch_set_timer_count [of ?d s] assms u by auto
  have "tsc_reads ?s = Suc (tsc_reads s)"
    by (simp add: u arch_set_timer_count_def arm64_stop_host_timer_def cpu_ticks_def Let_def)
  then have "armed_for ?d p ?s"
    using c arch_set_timer_count_deadline [of ?d s c] assms u
    by (cases "?d \<le> tsc s (tsc_reads s)") (auto simp: armed_for_def not_le)
  then show ?thesis using Cons by (simp add: armed_def)
qed

lemma armed_del_timer:
  assumes "timers_wf s" and "armed p s"
  shows "armed p (del_timer tr s)"
proof (cases "tr = None \<or> (\<exists>t. tr = Some t \<and> node (hv_timers s t) = None)")
  case True
  then show ?thesis using assms(2) by (auto simp: del_timer_def)
next
  case False
  then obtain t q where t: "tr = Some t" "node (hv_timers s t) = Some q" by auto
  let ?s = "del_timer tr s"
  have f: "timer_list ?s p = (if p = q then remove1 t (timer_list s p) else timer_list s p)"
      "\<And>d. armed_for d p ?s = armed_for d p s" "\<And>u. timeout (hv_timers ?s u) = timeout (hv_timers s u)"
    using t by (simp_all add: del_timer_def upd_timer_def armed_for_def)
  show ?thesis
  proof (unfold armed_def, intro allI impI)
    fix u r assume u: "timer_list ?s p = u # r"
    then have "u \<in> set (timer_list s p)"
      using f(1) by (metis list.set_intros(1) notin_set_remove1)
    then obtain v w where v: "timer_list s p = v # w" by (cases "timer_list s p") auto
    then have "timeout (hv_timers s v) \<le> timeout (hv_timers s u)"
      using tq.hd_least [OF timers_wfD(1) [OF assms(1), of p]] \<open>u \<in> _\<close> by force
    moreover have "armed_for (timeout (hv_timers s v)) p s" using assms(2) v by (simp add: armed_def)
    ultimately show "armed_for (timeout (hv_timers ?s u)) p ?s"
      unfolding f(2,3) by (metis armed_for_later)
  qed
qed

lemma armed_add_timer:
  assumes "timers_wf s" and "armed (this_cpu s) s" and "\<And>t. tr = Some t \<Longrightarrow> node (hv_timers s t) = None"
  shows "armed (this_cpu s) (snd (add_timer tr s))"
proof (cases "fst (add_timer tr s) = 0")
  case False
  then have "snd (add_timer tr s) = s"
    by (auto simp: add_timer_def Let_def split: option.splits if_splits prod.splits)
  then show ?thesis using assms(2) by simp
next
  case True
  let ?p = "this_cpu s"
  obtain t where t: "tr = Some t" using True by (cases tr) (auto simp: add_timer_def)
  define u where "u = (if mode (hv_timers s t) = TICK_MODE_PERIODIC
      then upd_timer t (\<lambda>tm. tm\<lparr>period_in_cycle :=
             max (period_in_cycle tm) (us_to_ticks s MIN_TIMER_PERIOD_US)\<rparr>) s else s)"
  have u: "timer_list u = timer_list s" "this_cpu u = ?p" "host_timer u = host_timer s"
      "tsc u = tsc s" "tsc_reads u = tsc_reads s" "\<And>x. timeout (hv_timers u x) = timeout (hv_timers s x)"
    by (simp_all add: u_def upd_timer_def)
  obtain b v where v: "local_add_timer ?p t u = (b, v)" by fastforce
  have res: "snd (add_timer tr s) = (if b then update_architecture_timer ?p v else v)"
    using True t v u(2) by (auto simp: add_timer_def Let_def u_def split: if_splits)
  show ?thesis
  proof (cases b)
    case True
    have "this_cpu v = ?p" using v u(2) by (metis snd_conv this_cpu_timer_ops(5))
    then show ?thesis using armed_update_architecture_timer [of v ?p] res True by simp
  next
    case False
    obtain y ys where y: "timer_list s ?p = y # ys" and ns: "\<not> timer_stop (hv_timers u) t y"
      using v False u(1) by (auto simp: local_add_timer_def Let_def split: list.splits)
    have "node (hv_timers s y) = Some ?p" using timers_wfD(3) [OF assms(1), of y ?p] y by simp
    then have "y \<noteq> t" using assms(3) t by auto
    then have "timer_list v ?p = y # insert_before (timer_stop (hv_timers u) t) t ys"
        "timeout (hv_timers v y) = timeout (hv_timers s y)" "\<And>d. armed_for d ?p v = armed_for d ?p s"
      using v ns y u by (auto simp: local_add_timer_def upd_timer_def Let_def armed_for_def)
    then show ?thesis using assms(2) res False y by (simp add: armed_def)
  qed
qed

section \<open>Properties\<close>

text \<open>
  C26: Starting a timer on the local CPU keeps every timer list sorted by deadline and free of
  duplicates, reports \<open>-EINVAL\<close> exactly when there is no timer, no callback or no deadline, and
  leaves the host timer armed no later than the first deadline.
\<close>

theorem add_timer_keeps_timers:
  assumes "timers_wf s" and "armed (this_cpu s) s" and "\<And>t. tr = Some t \<Longrightarrow> node (hv_timers s t) = None"
  shows "timers_wf (snd (add_timer tr s)) \<and> armed (this_cpu s) (snd (add_timer tr s)) \<and>
    (fst (add_timer tr s) = - EINVAL \<longleftrightarrow>
       tr = None \<or> (\<exists>t. tr = Some t \<and> (func (hv_timers s t) = None \<or> timeout (hv_timers s t) = 0))) \<and>
    (fst (add_timer tr s) = 0 \<longrightarrow> (\<exists>t. tr = Some t \<and> timer_is_started (hv_timers (snd (add_timer tr s)) t)))"
proof -
  have "fst (add_timer tr s) = - EINVAL \<longleftrightarrow>
       tr = None \<or> (\<exists>t. tr = Some t \<and> (func (hv_timers s t) = None \<or> timeout (hv_timers s t) = 0))"
    by (auto simp: add_timer_def Let_def split: option.splits prod.splits)
  moreover have "fst (add_timer tr s) = 0 \<longrightarrow>
      (\<exists>t. tr = Some t \<and> timer_is_started (hv_timers (snd (add_timer tr s)) t))"
    by (auto simp: add_timer_def Let_def timer_is_started_def local_add_timer_def upd_timer_def
        split: option.splits prod.splits)
  ultimately show ?thesis
    using timers_wf_add_timer [OF assms(1,3)] armed_add_timer [OF assms] by simp
qed

text \<open>A machine with a stopped clock and one configured one-shot timer.\<close>

definition idle_timer :: hv_timer where
  "idle_timer = \<lparr>node = None, mode = TICK_MODE_ONESHOT, timeout = 0, period_in_cycle = 0,
     func = None, priv_data = 0\<rparr>"

definition sample_env :: timer_env where
  "sample_env = \<lparr>tsc = (\<lambda>_. 100), tsc_reads = 0, tickrate = 1000, this_cpu = 0,
     hv_timers = (\<lambda>_. idle_timer)(TimerRef 0 := idle_timer\<lparr>timeout := 500, func := Some (OtherHandler 0)\<rparr>),
     timer_list = (\<lambda>_. []), host_timer = (\<lambda>_. None)\<rparr>"

lemma sample_env_ok: "timers_wf sample_env" "armed 0 sample_env"
  by (auto simp: timers_wf_def armed_def sample_env_def idle_timer_def)

theorem add_timer_keeps_timers_witness:
  "timers_wf (snd (add_timer (Some (TimerRef 0)) sample_env)) \<and>
   armed 0 (snd (add_timer (Some (TimerRef 0)) sample_env)) \<and>
   fst (add_timer (Some (TimerRef 0)) sample_env) = 0"
proof -
  have c: "this_cpu sample_env = 0" by (simp add: sample_env_def)
  have n: "node (hv_timers sample_env t) = None" for t
    by (simp add: sample_env_def idle_timer_def)
  show ?thesis
    using add_timer_keeps_timers [of sample_env "Some (TimerRef 0)"] sample_env_ok n
    by (simp add: c) (simp add: add_timer_def sample_env_def idle_timer_def Let_def split: prod.splits)
qed

text \<open>
  C27: A periodic timer whose deadline has passed is moved to the first deadline of its own grid
  that lies after the current reading: missed periods are skipped and the phase is kept.
\<close>

theorem advance_periodic_timer_phase:
  assumes "0 < period_in_cycle t" and "timeout t \<le> now"
    and "unat now + unat (period_in_cycle t) < 2 ^ 64"
  shows "now < timeout (advance_periodic_timer now t) \<and>
    unat (timeout (advance_periodic_timer now t)) \<le> unat now + unat (period_in_cycle t) \<and>
    (\<exists>k > 0. unat (timeout (advance_periodic_timer now t)) =
       unat (timeout t) + k * unat (period_in_cycle t))"
  using advance_periodic_timer_next [OF assms] by blast

theorem advance_periodic_timer_phase_witness:
  "timeout (advance_periodic_timer 1234 (idle_timer\<lparr>timeout := 100, period_in_cycle := 50\<rparr>)) = 1250 \<and>
   (1234 :: u64) < timeout (advance_periodic_timer 1234 (idle_timer\<lparr>timeout := 100, period_in_cycle := 50\<rparr>))"
  using advance_periodic_timer_phase [of "idle_timer\<lparr>timeout := 100, period_in_cycle := 50\<rparr>" 1234]
  by (simp add: advance_periodic_timer_def idle_timer_def Let_def)


text \<open>An expired one-shot timer and an expired periodic timer, then the soft-interrupt.\<close>

definition sample_busy :: timer_env where
  "sample_busy = sample_env\<lparr>
     hv_timers := (\<lambda>_. idle_timer)
       (TimerRef 0 := idle_timer\<lparr>node := Some 0, timeout := 40, func := Some (OtherHandler 0)\<rparr>,
        TimerRef 1 := idle_timer\<lparr>node := Some 0, timeout := 60, mode := TICK_MODE_PERIODIC,
          period_in_cycle := 25, func := Some (OtherHandler 1)\<rparr>),
     timer_list := (\<lambda>_. [])(0 := [TimerRef 0, TimerRef 1])\<rparr>"

lemma sample_busy_ok:
  "callback_ok (\<lambda>_ _ s :: timer_env. s)" "timers_wf sample_busy" "periods_ok sample_busy"
  "clock_mono sample_busy" "this_cpu sample_busy = 0"
  by (auto simp: callback_ok_def timers_wf_def periods_ok_def clock_mono_def sample_busy_def
      sample_env_def idle_timer_def)


end
