(* ===== verification/List_Head.thy ===== *)
theory List_Head
  imports Prelude
begin

text \<open>
  The intrusive lists of \<^verbatim>\<open>include/lib/list.h\<close>, at pointer level: a heap gives the
  \<^verbatim>\<open>next\<close> and \<^verbatim>\<open>prev\<close> field of every list node, each operation writes the fields in the
  order of the source, and \<open>dlist h head xs\<close> says that the circular list anchored at the head
  node \<open>head\<close> holds exactly the nodes \<open>xs\<close>. The lemmas show that each operation implements the
  corresponding operation on lists and leaves every disjoint list alone; they justify that the
  queue components keep their queues as lists.
\<close>

section \<open>Doubly linked lists\<close>

subsection \<open>The operations\<close>

record 'a list_heap =
  nxt :: "'a \<Rightarrow> 'a"
  prv :: "'a \<Rightarrow> 'a"

definition INIT_LIST_HEAD :: "'a \<Rightarrow> 'a list_heap \<Rightarrow> 'a list_heap" where
  "INIT_LIST_HEAD p h = h\<lparr>nxt := (nxt h)(p := p), prv := (prv h)(p := p)\<rparr>"

definition list_add_node :: "'a \<Rightarrow> 'a \<Rightarrow> 'a \<Rightarrow> 'a list_heap \<Rightarrow> 'a list_heap" where
  "list_add_node new prev next h =
     (let h = h\<lparr>prv := (prv h)(next := new)\<rparr>;
          h = h\<lparr>nxt := (nxt h)(new := next)\<rparr>;
          h = h\<lparr>prv := (prv h)(new := prev)\<rparr>
      in h\<lparr>nxt := (nxt h)(prev := new)\<rparr>)"

definition list_add :: "'a \<Rightarrow> 'a \<Rightarrow> 'a list_heap \<Rightarrow> 'a list_heap" where
  "list_add new head h = list_add_node new head (nxt h head) h"

definition list_add_tail :: "'a \<Rightarrow> 'a \<Rightarrow> 'a list_heap \<Rightarrow> 'a list_heap" where
  "list_add_tail new head h = list_add_node new (prv h head) head h"

definition list_del_node :: "'a \<Rightarrow> 'a \<Rightarrow> 'a list_heap \<Rightarrow> 'a list_heap" where
  "list_del_node prev next h =
     (let h = h\<lparr>prv := (prv h)(next := prev)\<rparr>
      in h\<lparr>nxt := (nxt h)(prev := next)\<rparr>)"

definition list_del :: "'a \<Rightarrow> 'a list_heap \<Rightarrow> 'a list_heap" where
  "list_del entry h = list_del_node (prv h entry) (nxt h entry) h"

definition list_del_init :: "'a \<Rightarrow> 'a list_heap \<Rightarrow> 'a list_heap" where
  "list_del_init entry h = INIT_LIST_HEAD entry (list_del_node (prv h entry) (nxt h entry) h)"

definition list_empty :: "'a list_heap \<Rightarrow> 'a \<Rightarrow> bool" where
  "list_empty h head \<longleftrightarrow> nxt h head = head"

definition list_splice_node :: "'a \<Rightarrow> 'a \<Rightarrow> 'a list_heap \<Rightarrow> 'a list_heap" where
  "list_splice_node lst head h =
     (let first = nxt h lst; last = prv h lst; at = nxt h head;
          h = h\<lparr>prv := (prv h)(first := head)\<rparr>;
          h = h\<lparr>nxt := (nxt h)(head := first)\<rparr>;
          h = h\<lparr>nxt := (nxt h)(last := at)\<rparr>
      in h\<lparr>prv := (prv h)(at := last)\<rparr>)"

definition list_splice :: "'a \<Rightarrow> 'a \<Rightarrow> 'a list_heap \<Rightarrow> 'a list_heap" where
  "list_splice lst head h = (if \<not> list_empty h lst then list_splice_node lst head h else h)"

definition list_splice_init :: "'a \<Rightarrow> 'a \<Rightarrow> 'a list_heap \<Rightarrow> 'a list_heap" where
  "list_splice_init lst head h =
     (if \<not> list_empty h lst then INIT_LIST_HEAD lst (list_splice_node lst head h) else h)"

text \<open>
  \<^verbatim>\<open>list_for_each\<close>: the nodes met from \<open>pos\<close> up to the head. The loop has no bound of its own;
  \<open>None\<close> means that the head was not met within the given number of steps.
\<close>

fun list_for_each :: "nat \<Rightarrow> 'a list_heap \<Rightarrow> 'a \<Rightarrow> 'a \<Rightarrow> 'a list option" where
  "list_for_each 0 h head pos = None"
| "list_for_each (Suc fuel) h head pos =
     (if pos = head then Some []
      else map_option ((#) pos) (list_for_each fuel h head (nxt h pos)))"

text \<open>
  The scan-and-link loop of the sorted queues: walk to the first node that stops the scan, link
  the new node in front of it, or in front of the head (that is, at the tail) when none does.
\<close>

fun scan_node :: "nat \<Rightarrow> ('a \<Rightarrow> bool) \<Rightarrow> 'a list_heap \<Rightarrow> 'a \<Rightarrow> 'a \<Rightarrow> 'a option" where
  "scan_node 0 stop h head pos = None"
| "scan_node (Suc fuel) stop h head pos =
     (if pos = head \<or> stop pos then Some pos else scan_node fuel stop h head (nxt h pos))"

definition list_insert_before ::
  "nat \<Rightarrow> ('a \<Rightarrow> bool) \<Rightarrow> 'a \<Rightarrow> 'a \<Rightarrow> 'a list_heap \<Rightarrow> 'a list_heap option" where
  "list_insert_before fuel stop new head h =
     map_option (\<lambda>pos. list_add_node new (prv h pos) pos h)
       (scan_node fuel stop h head (nxt h head))"

subsection \<open>The abstraction\<close>

fun links :: "'a list_heap \<Rightarrow> 'a list \<Rightarrow> bool" where
  "links h (a # b # r) \<longleftrightarrow> nxt h a = b \<and> prv h b = a \<and> links h (b # r)"
| "links h _ \<longleftrightarrow> True"

definition dlist :: "'a list_heap \<Rightarrow> 'a \<Rightarrow> 'a list \<Rightarrow> bool" where
  "dlist h head xs \<longleftrightarrow> distinct (head # xs) \<and> links h (head # xs @ [head])"

lemma links_append: "links h (us @ a # vs) \<longleftrightarrow> links h (us @ [a]) \<and> links h (a # vs)"
  by (induction us rule: induct_list012) auto

lemma links_append2: "links h (us @ a # b # vs) \<longleftrightarrow>
    links h (us @ [a]) \<and> nxt h a = b \<and> prv h b = a \<and> links h (b # vs)"
  by (subst links_append) simp

lemma links_cong:
  "(\<And>a. a \<in> set (butlast zs) \<Longrightarrow> nxt h' a = nxt h a) \<Longrightarrow>
   (\<And>b. b \<in> set (tl zs) \<Longrightarrow> prv h' b = prv h b) \<Longrightarrow> links h' zs = links h zs"
  by (induction zs rule: induct_list012) auto

text \<open>A run of links inside a circular list: no node is left twice and none is entered twice.\<close>

definition path_ok :: "'a list \<Rightarrow> bool" where
  "path_ok zs \<longleftrightarrow> distinct (butlast zs) \<and> distinct (tl zs)"

lemma path_okD:
  assumes "path_ok (us @ a # b # vs)"
  shows "a \<notin> set us" "a \<notin> set (butlast (b # vs))"
    "b \<notin> set (tl (us @ [a]))" "b \<notin> set vs"
proof -
  have "butlast (us @ a # b # vs) = us @ a # butlast (b # vs)"
    by (simp add: butlast_append)
  moreover have "tl (us @ a # b # vs) = tl (us @ [a]) @ b # vs"
    by (cases us) simp_all
  ultimately have d: "distinct (us @ a # butlast (b # vs))" "distinct (tl (us @ [a]) @ b # vs)"
    using assms by (simp_all only: path_ok_def)
  show "a \<notin> set us" "a \<notin> set (butlast (b # vs))"
    using d(1) by (simp_all only: distinct_append distinct.simps) auto
  show "b \<notin> set (tl (us @ [a]))" "b \<notin> set vs"
    using d(2) by (simp_all only: distinct_append distinct.simps) auto
qed

lemma links_add_node:
  assumes l: "links h (us @ a # b # vs)" and p: "path_ok (us @ a # b # vs)"
    and n: "n \<notin> set (us @ a # b # vs)"
  shows "links (list_add_node n a b h) (us @ a # n # b # vs)"
proof -
  let ?h = "list_add_node n a b h"
  have "links ?h (us @ [a]) = links h (us @ [a])"
  proof (rule links_cong)
    fix x assume "x \<in> set (butlast (us @ [a]))"
    then show "nxt ?h x = nxt h x" using path_okD(1) [OF p] n by (auto simp: list_add_node_def)
  next
    fix x assume "x \<in> set (tl (us @ [a]))"
    then show "prv ?h x = prv h x"
      using path_okD(3) [OF p] n by (cases us) (auto simp: list_add_node_def)
  qed
  moreover have "links ?h (b # vs) = links h (b # vs)"
  proof (rule links_cong)
    fix x assume "x \<in> set (butlast (b # vs))"
    then show "nxt ?h x = nxt h x"
      using path_okD(2) [OF p] n in_set_butlastD [of x "b # vs"] by (auto simp: list_add_node_def)
  next
    fix x assume "x \<in> set (tl (b # vs))"
    then show "prv ?h x = prv h x" using path_okD(4) [OF p] n by (auto simp: list_add_node_def)
  qed
  ultimately show ?thesis using l n by (auto simp: links_append2 list_add_node_def)
qed

lemma links_del_node:
  assumes l: "links h (us @ a # n # b # vs)" and p: "path_ok (us @ a # n # b # vs)"
  shows "links (list_del_node a b h) (us @ a # b # vs)"
proof -
  let ?h = "list_del_node a b h"
  have p': "path_ok ((us @ [a]) @ n # b # vs)" using p by simp
  have "links ?h (us @ [a]) = links h (us @ [a])"
  proof (rule links_cong)
    fix x assume "x \<in> set (butlast (us @ [a]))"
    then show "nxt ?h x = nxt h x" using path_okD(1) [OF p] by (auto simp: list_del_node_def)
  next
    fix x assume "x \<in> set (tl (us @ [a]))"
    then show "prv ?h x = prv h x"
      using path_okD(3) [OF p'] by (cases us) (auto simp: list_del_node_def)
  qed
  moreover have "links ?h (b # vs) = links h (b # vs)"
  proof (rule links_cong)
    fix x assume "x \<in> set (butlast (b # vs))"
    then show "nxt ?h x = nxt h x"
      using path_okD(2) [OF p] by (auto simp: list_del_node_def)
  next
    fix x assume "x \<in> set (tl (b # vs))"
    then show "prv ?h x = prv h x" using path_okD(4) [OF p'] by (auto simp: list_del_node_def)
  qed
  ultimately show ?thesis using l by (auto simp: links_append2 list_del_node_def)
qed

lemma dlist_path_ok: "dlist h head xs \<Longrightarrow> path_ok (head # xs @ [head])"
  by (auto simp: dlist_def path_ok_def butlast_append)

lemma dlist_split:
  assumes "dlist h head (xs @ ys)"
  obtains us a b vs where "head # xs = us @ [a]" and "ys @ [head] = b # vs"
    and "b = (case ys of [] \<Rightarrow> head | y # _ \<Rightarrow> y)"
    and "links h (us @ a # b # vs)" and "path_ok (us @ a # b # vs)" and "prv h b = a"
    and "a = last (head # xs)"
proof -
  let ?us = "butlast (head # xs)" and ?a = "last (head # xs)"
    and ?b = "hd (ys @ [head])" and ?vs = "tl (ys @ [head])"
  have us: "head # xs = ?us @ [?a]" by (rule append_butlast_last_id [symmetric]) simp
  have vs: "ys @ [head] = ?b # ?vs" by (cases ys) simp_all
  have "head # (xs @ ys) @ [head] = (head # xs) @ (ys @ [head])" by simp
  also have "\<dots> = (?us @ [?a]) @ (?b # ?vs)" by (subst us, subst vs, rule refl)
  finally have eq: "head # (xs @ ys) @ [head] = ?us @ ?a # ?b # ?vs" by simp
  have l: "links h (?us @ ?a # ?b # ?vs)"
    using assms unfolding dlist_def eq by blast
  show thesis
  proof (rule that [OF us vs])
    show "?b = (case ys of [] \<Rightarrow> head | y # _ \<Rightarrow> y)" by (cases ys) simp_all
    show "path_ok (?us @ ?a # ?b # ?vs)" using dlist_path_ok [OF assms] unfolding eq .
    show "prv h ?b = ?a" using l by (simp only: links_append2)
  qed (use l in auto)
qed

subsection \<open>The operations implement the list operations\<close>

theorem dlist_add_node_at:
  assumes "dlist h head (xs @ ys)" and "n \<notin> set (head # xs @ ys)"
    and "pos = (case ys of [] \<Rightarrow> head | y # _ \<Rightarrow> y)"
  shows "dlist (list_add_node n (prv h pos) pos h) head (xs @ n # ys)"
proof -
  obtain us a b vs where us: "head # xs = us @ [a]" and vs: "ys @ [head] = b # vs"
    and b: "b = pos" and l: "links h (us @ a # b # vs)" and p: "path_ok (us @ a # b # vs)"
    and a: "prv h b = a"
    using dlist_split [OF assms(1)] assms(3) by metis
  have "set (us @ a # b # vs) = set (head # xs @ ys)"
    using arg_cong [OF us, of set] arg_cong [OF vs, of set] by auto
  then have "links (list_add_node n a b h) (us @ a # n # b # vs)"
    using links_add_node [OF l p] assms(2) by simp
  moreover have "us @ a # n # b # vs = head # (xs @ n # ys) @ [head]"
    using us vs by (metis append.assoc append_Cons append_Nil)
  ultimately show ?thesis
    using assms(1,2) a b by (auto simp: dlist_def)
qed

lemma dlist_INIT_LIST_HEAD [simp]: "dlist (INIT_LIST_HEAD p h) p []"
  by (simp add: dlist_def INIT_LIST_HEAD_def)

lemma dlist_nxt_head:
  "dlist h head xs \<Longrightarrow> nxt h head = (case xs of [] \<Rightarrow> head | x # _ \<Rightarrow> x)"
  by (cases xs) (auto simp: dlist_def)

lemma dlist_prv_head: "dlist h head xs \<Longrightarrow> prv h head = last (head # xs)"
  using dlist_split [of h head xs "[]"] by (metis append_Nil append_Nil2 list.case(1))

lemma dlist_empty_iff: "dlist h head xs \<Longrightarrow> list_empty h head \<longleftrightarrow> xs = []"
  by (auto simp: list_empty_def dlist_nxt_head dlist_def split: list.splits)

lemma dlist_list_add:
  assumes "dlist h head xs" and "n \<notin> set (head # xs)"
  shows "dlist (list_add n head h) head (n # xs)"
proof -
  have "prv h (nxt h head) = head"
    using assms(1) by (cases xs) (auto simp: dlist_def)
  then show ?thesis
    using dlist_add_node_at [of h head "[]" xs n "nxt h head"] assms
    by (simp add: list_add_def dlist_nxt_head [OF assms(1)])
qed

lemma dlist_list_add_tail:
  assumes "dlist h head xs" and "n \<notin> set (head # xs)"
  shows "dlist (list_add_tail n head h) head (xs @ [n])"
  using dlist_add_node_at [of h head xs "[]" n head] assms by (simp add: list_add_tail_def)

lemma dlist_neighbours:
  assumes "dlist h head (xs @ n # ys)"
  shows "nxt h n = (case ys of [] \<Rightarrow> head | y # _ \<Rightarrow> y)" and "prv h n = last (head # xs)"
proof -
  show "prv h n = last (head # xs)" using dlist_split [OF assms] by (metis list.case(2))
  have "dlist h head ((xs @ [n]) @ ys)" using assms by simp
  then show "nxt h n = (case ys of [] \<Rightarrow> head | y # _ \<Rightarrow> y)"
    by (rule dlist_split) (metis last_snoc links_append2 snoc_eq_iff_butlast append_Cons last_ConsR)
qed

theorem dlist_list_del_init:
  assumes "dlist h head (xs @ n # ys)"
  shows "dlist (list_del_init n h) head (xs @ ys)" and "list_empty (list_del_init n h) n"
proof -
  obtain us a b vs where us: "head # xs = us @ [a]" and vs: "(n # ys) @ [head] = b # vs"
    and l: "links h (us @ a # b # vs)" and p: "path_ok (us @ a # b # vs)"
    and a: "a = last (head # xs)"
    using dlist_split [OF assms] by metis
  obtain c ws where ws: "ys @ [head] = c # ws" and c: "c = (case ys of [] \<Rightarrow> head | y # _ \<Rightarrow> y)"
    by (cases ys) auto
  have bn: "b = n" "vs = c # ws" using vs ws by auto
  have "links (list_del_node a c h) (us @ a # c # ws)"
    using links_del_node [of h us a n c ws] l p bn by simp
  moreover have eq: "us @ a # c # ws = head # (xs @ ys) @ [head]"
    using us ws by (metis append.assoc append_Cons append_Nil)
  moreover have "n \<notin> set (head # (xs @ ys) @ [head])" using assms by (auto simp: dlist_def)
  ultimately have "links (INIT_LIST_HEAD n (list_del_node a c h)) (head # (xs @ ys) @ [head])"
    by (subst links_cong [where h = "list_del_node a c h"])
      (auto simp: INIT_LIST_HEAD_def dest: in_set_butlastD)
  then show "dlist (list_del_init n h) head (xs @ ys)"
    using assms a c dlist_neighbours [OF assms] by (auto simp: dlist_def list_del_init_def)
  show "list_empty (list_del_init n h) n"
    by (simp add: list_empty_def list_del_init_def INIT_LIST_HEAD_def)
qed

text \<open>Unlinking a node that is in no list changes nothing, so removal is idempotent.\<close>

lemma list_del_init_detached:
  assumes "nxt h n = n" and "prv h n = n"
  shows "list_del_init n h = h"
  using assms by (cases h) (simp add: list_del_init_def list_del_node_def INIT_LIST_HEAD_def fun_upd_idem)

text \<open>Every other list is left alone.\<close>

lemma dlist_frame:
  assumes "dlist h other ys" and "\<And>x. x \<in> set (other # ys) \<Longrightarrow> nxt h' x = nxt h x \<and> prv h' x = prv h x"
  shows "dlist h' other ys"
proof -
  have "links h' (other # ys @ [other]) = links h (other # ys @ [other])"
  proof (rule links_cong)
    fix x assume "x \<in> set (butlast (other # ys @ [other]))"
    then show "nxt h' x = nxt h x" using assms(2) [of x] by (simp add: butlast_append)
  next
    fix x assume "x \<in> set (tl (other # ys @ [other]))"
    then show "prv h' x = prv h x" using assms(2) [of x] by auto
  qed
  then show ?thesis using assms(1) by (simp add: dlist_def)
qed

lemma dlist_frame_add_node:
  assumes "dlist h head (xs @ zs)" and "dlist h other ys" and "pos = (case zs of [] \<Rightarrow> head | z # _ \<Rightarrow> z)"
    and "set (other # ys) \<inter> set (n # head # xs @ zs) = {}"
  shows "dlist (list_add_node n (prv h pos) pos h) other ys"
proof (rule dlist_frame [OF assms(2)])
  fix x assume x: "x \<in> set (other # ys)"
  have "prv h pos = last (head # xs)"
    by (rule dlist_split [OF assms(1)]) (simp add: assms(3))
  then have "prv h pos \<in> set (head # xs)" by (metis last_in_set list.discI)
  moreover have "pos \<in> set (head # zs)" by (simp add: assms(3) split: list.splits)
  ultimately show "nxt (list_add_node n (prv h pos) pos h) x = nxt h x \<and>
      prv (list_add_node n (prv h pos) pos h) x = prv h x"
    using x assms(4) by (auto simp: list_add_node_def)
qed

lemma dlist_frame_del_init:
  assumes "dlist h head (xs @ n # zs)" and "dlist h other ys"
    and "set (other # ys) \<inter> set (head # xs @ n # zs) = {}"
  shows "dlist (list_del_init n h) other ys"
proof (rule dlist_frame [OF assms(2)])
  fix x assume x: "x \<in> set (other # ys)"
  have "prv h n \<in> set (head # xs)" and "nxt h n \<in> set (head # zs)"
    using dlist_neighbours [OF assms(1)] by (auto split: list.splits)
  then show "nxt (list_del_init n h) x = nxt h x \<and> prv (list_del_init n h) x = prv h x"
    using x assms(3) by (auto simp: list_del_init_def list_del_node_def INIT_LIST_HEAD_def)
qed

subsection \<open>Traversals\<close>

lemma dlist_tail_step:
  assumes "dlist h head (as @ x # xs)"
  shows "nxt h x = (case xs of [] \<Rightarrow> head | y # _ \<Rightarrow> y)" and "x \<noteq> head"
  using dlist_neighbours(1) [OF assms] assms by (auto simp: dlist_def)

lemma list_for_each_from:
  "dlist h head (as @ xs) \<Longrightarrow> length xs < fuel \<Longrightarrow>
   list_for_each fuel h head (case xs of [] \<Rightarrow> head | x # _ \<Rightarrow> x) = Some xs"
proof (induction xs arbitrary: as fuel)
  case Nil
  then show ?case by (cases fuel) auto
next
  case (Cons x xs)
  obtain f where f: "fuel = Suc f" and "length xs < f" using Cons.prems(2) by (cases fuel) auto
  moreover have "dlist h head ((as @ [x]) @ xs)" using Cons.prems(1) by simp
  ultimately have "list_for_each f h head (nxt h x) = Some xs"
    using Cons.IH dlist_tail_step(1) [OF Cons.prems(1)] by metis
  then show ?case using f dlist_tail_step(2) [OF Cons.prems(1)] by simp
qed

text \<open>A well-formed list is walked completely, in order, and the walk ends.\<close>

theorem list_for_each_dlist:
  assumes "dlist h head xs" and "length xs < fuel"
  shows "list_for_each fuel h head (nxt h head) = Some xs"
  using list_for_each_from [of h head "[]" xs fuel] assms by (simp add: dlist_nxt_head)

lemma scan_node_from:
  "dlist h head (as @ xs) \<Longrightarrow> length xs < fuel \<Longrightarrow>
   scan_node fuel stop h head (case xs of [] \<Rightarrow> head | x # _ \<Rightarrow> x) =
     Some (case dropWhile (\<lambda>y. \<not> stop y) xs of [] \<Rightarrow> head | x # _ \<Rightarrow> x)"
proof (induction xs arbitrary: as fuel)
  case Nil
  then show ?case by (cases fuel) auto
next
  case (Cons x xs)
  obtain f where f: "fuel = Suc f" and "length xs < f" using Cons.prems(2) by (cases fuel) auto
  moreover have "dlist h head ((as @ [x]) @ xs)" using Cons.prems(1) by simp
  ultimately have "scan_node f stop h head (nxt h x) =
      Some (case dropWhile (\<lambda>y. \<not> stop y) xs of [] \<Rightarrow> head | x # _ \<Rightarrow> x)"
    using Cons.IH dlist_tail_step(1) [OF Cons.prems(1)] by metis
  then show ?case using f dlist_tail_step(2) [OF Cons.prems(1)] by simp
qed

text \<open>The scan-and-link loop ends and implements insertion before the first stopping element.\<close>

theorem list_insert_before_dlist:
  assumes "dlist h head xs" and "n \<notin> set (head # xs)" and "length xs < fuel"
  shows "\<exists>h'. list_insert_before fuel stop n head h = Some h' \<and> dlist h' head (insert_before stop n xs)"
proof -
  let ?ys = "takeWhile (\<lambda>y. \<not> stop y) xs" and ?zs = "dropWhile (\<lambda>y. \<not> stop y) xs"
  let ?pos = "case ?zs of [] \<Rightarrow> head | x # _ \<Rightarrow> x"
  have "dlist (list_add_node n (prv h ?pos) ?pos h) head (?ys @ n # ?zs)"
    by (rule dlist_add_node_at) (use assms in auto)
  moreover have "scan_node fuel stop h head (nxt h head) = Some ?pos"
    using scan_node_from [of h head "[]" xs fuel stop] assms by (simp add: dlist_nxt_head)
  ultimately show ?thesis by (simp add: list_insert_before_def insert_before_split)
qed

subsection \<open>Splicing\<close>

lemma links_prefix: "links h (us @ vs) \<Longrightarrow> links h us"
  by (induction us rule: induct_list012) auto

lemma links_suffix: "links h (us @ vs) \<Longrightarrow> links h vs"
  by (induction us rule: induct_list012) (auto, cases vs, auto)

lemma links_join:
  "us \<noteq> [] \<Longrightarrow> vs \<noteq> [] \<Longrightarrow> links h (us @ vs) \<longleftrightarrow>
     links h us \<and> nxt h (last us) = hd vs \<and> prv h (hd vs) = last us \<and> links h vs"
  by (induction us rule: induct_list012) (auto simp: neq_Nil_conv)

theorem dlist_list_splice:
  assumes l: "dlist h lst xs" and d: "dlist h head ys"
    and dj: "set (lst # xs) \<inter> set (head # ys) = {}"
  shows "dlist (list_splice lst head h) head (xs @ ys)"
proof (cases "xs = []")
  case True
  then show ?thesis using l d by (simp add: list_splice_def dlist_empty_iff)
next
  case False
  let ?h = "list_splice_node lst head h"
  have ends: "nxt h lst = hd xs" "prv h lst = last xs" "nxt h head = hd (ys @ [head])"
    using dlist_nxt_head [OF l] dlist_prv_head [OF l] dlist_nxt_head [OF d] False
    by (auto simp: hd_append split: list.splits)
  have in_xs: "hd xs \<in> set xs" "last xs \<in> set xs" "hd (ys @ [head]) \<in> set (head # ys)"
    using False by (auto simp: hd_append)
  note upd = list_splice_node_def Let_def ends
  have "links h xs"
    using l links_suffix [of h "[lst]" "xs @ [lst]"] links_prefix [of h xs "[lst]"] by (simp add: dlist_def)
  moreover have "links ?h xs = links h xs"
  proof (rule links_cong)
    fix x assume "x \<in> set (butlast xs)"
    moreover have "last xs \<notin> set (butlast xs)"
      using l False append_butlast_last_id [of xs] distinct_append [of "butlast xs" "[last xs]"]
      by (auto simp: dlist_def)
    ultimately show "nxt ?h x = nxt h x" using dj in_set_butlastD [of x xs] by (auto simp: upd)
  next
    fix x assume "x \<in> set (tl xs)"
    moreover have "hd xs \<notin> set (tl xs)" using l False by (cases xs) (auto simp: dlist_def)
    ultimately show "prv ?h x = prv h x"
      using dj in_xs(3) list.set_sel(2) [OF False, of x] by (auto simp: upd)
  qed
  moreover have "links h (ys @ [head])"
    using d links_suffix [of h "[head]" "ys @ [head]"] by (simp add: dlist_def)
  moreover have "links ?h (ys @ [head]) = links h (ys @ [head])"
  proof (rule links_cong)
    fix x assume "x \<in> set (butlast (ys @ [head]))"
    then show "nxt ?h x = nxt h x" using d dj in_xs(2) by (auto simp: upd dlist_def)
  next
    fix x assume x: "x \<in> set (tl (ys @ [head]))"
    have "hd (ys @ [head]) \<notin> set (tl (ys @ [head]))" using d by (cases ys) (auto simp: dlist_def)
    then show "prv ?h x = prv h x" using x dj in_xs(1) list.set_sel(2) [of "ys @ [head]" x]
      by (auto simp: upd)
  qed
  moreover have "nxt ?h head = hd xs" "nxt ?h (last xs) = hd (ys @ [head])"
      "prv ?h (hd xs) = head" "prv ?h (hd (ys @ [head])) = last xs"
    using dj in_xs by (auto simp: upd)
  ultimately have "links ?h ([head] @ xs @ ys @ [head])"
    using False by (subst links_join, simp, simp, subst links_join, simp, simp) simp
  then show ?thesis
    using l d dj False by (auto simp: list_splice_def dlist_empty_iff dlist_def)
qed

lemma dlist_list_splice_init:
  assumes "dlist h lst xs" and "dlist h head ys" and "set (lst # xs) \<inter> set (head # ys) = {}"
  shows "dlist (list_splice_init lst head h) head (xs @ ys)"
    and "dlist (list_splice_init lst head h) lst []"
proof -
  have s: "dlist (list_splice lst head h) head (xs @ ys)" by (rule dlist_list_splice [OF assms])
  have "dlist (INIT_LIST_HEAD lst (list_splice lst head h)) head (xs @ ys)"
    by (rule dlist_frame [OF s]) (use assms in \<open>auto simp: INIT_LIST_HEAD_def dlist_def\<close>)
  then show "dlist (list_splice_init lst head h) head (xs @ ys)"
    using s by (auto simp: list_splice_init_def list_splice_def split: if_splits)
  show "dlist (list_splice_init lst head h) lst []"
    using assms(1) by (auto simp: list_splice_init_def dlist_empty_iff)
qed

section \<open>Singly headed hash lists\<close>

text \<open>
  A node's \<^verbatim>\<open>pprev\<close> is the address of the pointer that designates it: the \<^verbatim>\<open>first\<close> field of a
  head, or the \<^verbatim>\<open>next\<close> field of another node.
\<close>

datatype ('h, 'a) hloc = First 'h | NextOf 'a

record ('h, 'a) hlist_heap =
  hfirst :: "'h \<Rightarrow> 'a option"
  hnext :: "'a \<Rightarrow> 'a option"
  pprev :: "'a \<Rightarrow> ('h, 'a) hloc"

fun hload :: "('h, 'a) hlist_heap \<Rightarrow> ('h, 'a) hloc \<Rightarrow> 'a option" where
  "hload h (First k) = hfirst h k"
| "hload h (NextOf x) = hnext h x"

fun hstore :: "('h, 'a) hloc \<Rightarrow> 'a option \<Rightarrow> ('h, 'a) hlist_heap \<Rightarrow> ('h, 'a) hlist_heap" where
  "hstore (First k) v h = h\<lparr>hfirst := (hfirst h)(k := v)\<rparr>"
| "hstore (NextOf x) v h = h\<lparr>hnext := (hnext h)(x := v)\<rparr>"

definition hlist_del :: "'a \<Rightarrow> ('h, 'a) hlist_heap \<Rightarrow> ('h, 'a) hlist_heap" where
  "hlist_del n h =
     (let h = (case hnext h n of None \<Rightarrow> h | Some m \<Rightarrow> h\<lparr>pprev := (pprev h)(m := pprev h n)\<rparr>)
      in hstore (pprev h n) (hnext h n) h)"

definition hlist_add_head :: "'a \<Rightarrow> 'h \<Rightarrow> ('h, 'a) hlist_heap \<Rightarrow> ('h, 'a) hlist_heap" where
  "hlist_add_head n k h =
     (let h = h\<lparr>hnext := (hnext h)(n := hfirst h k)\<rparr>;
          h = (case hfirst h k of None \<Rightarrow> h | Some m \<Rightarrow> h\<lparr>pprev := (pprev h)(m := NextOf n)\<rparr>);
          h = h\<lparr>hfirst := (hfirst h)(k := Some n)\<rparr>
      in h\<lparr>pprev := (pprev h)(n := First k)\<rparr>)"

fun hpath :: "('h, 'a) hlist_heap \<Rightarrow> ('h, 'a) hloc \<Rightarrow> 'a list \<Rightarrow> bool" where
  "hpath h l [] \<longleftrightarrow> hload h l = None"
| "hpath h l (x # xs) \<longleftrightarrow> hload h l = Some x \<and> pprev h x = l \<and> hpath h (NextOf x) xs"

definition hlist :: "('h, 'a) hlist_heap \<Rightarrow> 'h \<Rightarrow> 'a list \<Rightarrow> bool" where
  "hlist h k xs \<longleftrightarrow> distinct xs \<and> hpath h (First k) xs"

lemma hpath_cong:
  "hload h' l = hload h l \<Longrightarrow> (\<And>x. x \<in> set xs \<Longrightarrow> hnext h' x = hnext h x \<and> pprev h' x = pprev h x) \<Longrightarrow>
   hpath h' l xs = hpath h l xs"
  by (induction xs arbitrary: l) auto

theorem hlist_add_head_hlist:
  assumes "hlist h k xs" and "n \<notin> set xs"
  shows "hlist (hlist_add_head n k h) k (n # xs)"
proof (cases xs)
  case Nil
  then show ?thesis using assms by (simp add: hlist_def hlist_add_head_def)
next
  case (Cons x ys)
  have "hpath (hlist_add_head n k h) (NextOf x) ys = hpath h (NextOf x) ys"
    by (rule hpath_cong) (use assms Cons in \<open>auto simp: hlist_def hlist_add_head_def\<close>)
  then show ?thesis using assms Cons by (auto simp: hlist_def hlist_add_head_def)
qed

lemma hpath_pprev: "hpath h (NextOf x) (xs @ n # ys) \<Longrightarrow> \<exists>z \<in> set (x # xs). pprev h n = NextOf z"
  by (induction xs arbitrary: x) auto

lemma hpath_hnext: "hpath h l (xs @ n # ys) \<Longrightarrow> hnext h n = first_in ys"
  by (induction xs arbitrary: l) (auto simp: first_in_def split: list.splits)

lemma hpath_del:
  assumes "hpath h l (xs @ n # ys)" and "distinct (xs @ n # ys)"
    and "\<And>y. l = NextOf y \<Longrightarrow> y \<notin> set (xs @ n # ys)"
  shows "hpath (hlist_del n h) l (xs @ ys)"
  using assms
proof (induction xs arbitrary: l)
  case Nil
  then show ?case
  proof (cases ys)
    case (Cons y zs)
    have "hpath (hlist_del n h) (NextOf y) zs = hpath h (NextOf y) zs"
      by (rule hpath_cong) (use Nil Cons in \<open>cases l; auto simp: hlist_del_def\<close>)+
    then show ?thesis using Nil Cons by (cases l) (auto simp: hlist_del_def)
  qed (cases l; auto simp: hlist_del_def)
next
  case (Cons x xs)
  have "hpath (hlist_del n h) (NextOf x) (xs @ ys)"
    by (rule Cons.IH) (use Cons.prems in auto)
  moreover have "hload (hlist_del n h) l = hload h l \<and> pprev (hlist_del n h) x = pprev h x"
  proof -
    obtain z where "pprev h n = NextOf z" and "z \<in> set (x # xs)"
      using Cons.prems(1) hpath_pprev [of h x xs n ys] by auto
    moreover have "hnext h n \<noteq> Some x"
      using hpath_hnext [of h l "x # xs" n ys] Cons.prems(1,2) by (auto simp: first_in_def split: list.splits)
    ultimately show ?thesis using Cons.prems(3) by (cases l) (auto simp: hlist_del_def split: option.splits)
  qed
  ultimately show ?case using Cons.prems(1) by simp
qed

theorem hlist_del_hlist: "hlist h k (xs @ n # ys) \<Longrightarrow> hlist (hlist_del n h) k (xs @ ys)"
  using hpath_del [of h "First k" xs n ys] by (auto simp: hlist_def)

end
