(* ===== verification/Linked_Queue.thy ===== *)
theory Linked_Queue
  imports List_Head
begin

text \<open>
  Families of queues linked through one intrusive node per element, the way every queue of the
  scheduler is built: a thread's private data embeds one \<^verbatim>\<open>list_head\<close>, each CPU owns a queue head.
  The list-level state records where each node is linked and what each queue holds.
  \<open>lq_rep\<close> relates it to the pointer heap of \<open>List_Head\<close>, and each list-level operation is shown
  to be what the pointer code does.
\<close>

section \<open>List-level queues\<close>

record ('q, 'a) lq =
  place :: "'a \<Rightarrow> 'q option"  \<comment> \<open>\<open>None\<close>: the node points to itself\<close>
  elems :: "'q \<Rightarrow> 'a list"

definition lq_init_head :: "'q \<Rightarrow> ('q, 'a) lq \<Rightarrow> ('q, 'a) lq" where
  "lq_init_head q L = L\<lparr>elems := (elems L)(q := [])\<rparr>"

definition lq_init_node :: "'a \<Rightarrow> ('q, 'a) lq \<Rightarrow> ('q, 'a) lq" where
  "lq_init_node a L = L\<lparr>place := (place L)(a := None)\<rparr>"

definition lq_linked :: "'a \<Rightarrow> ('q, 'a) lq \<Rightarrow> bool" where
  "lq_linked a L \<longleftrightarrow> place L a \<noteq> None"

definition lq_del_init :: "'a \<Rightarrow> ('q, 'a) lq \<Rightarrow> ('q, 'a) lq" where
  "lq_del_init a L =
     (case place L a of None \<Rightarrow> L
      | Some q \<Rightarrow> L\<lparr>place := (place L)(a := None), elems := (elems L)(q := remove1 a (elems L q))\<rparr>)"

definition lq_put :: "'q \<Rightarrow> 'a list \<Rightarrow> 'a \<Rightarrow> ('q, 'a) lq \<Rightarrow> ('q, 'a) lq" where
  "lq_put q zs a L = L\<lparr>place := (place L)(a := Some q), elems := (elems L)(q := zs)\<rparr>"

definition lq_add :: "'q \<Rightarrow> 'a \<Rightarrow> ('q, 'a) lq \<Rightarrow> ('q, 'a) lq" where
  "lq_add q a L = lq_put q (a # elems L q) a L"

definition lq_add_tail :: "'q \<Rightarrow> 'a \<Rightarrow> ('q, 'a) lq \<Rightarrow> ('q, 'a) lq" where
  "lq_add_tail q a L = lq_put q (elems L q @ [a]) a L"

definition lq_insert :: "('a \<Rightarrow> bool) \<Rightarrow> 'q \<Rightarrow> 'a \<Rightarrow> ('q, 'a) lq \<Rightarrow> ('q, 'a) lq" where
  "lq_insert stop q a L = lq_put q (insert_before stop a (elems L q)) a L"

subsection \<open>Agreement of nodes and queues\<close>

definition lq_ok :: "('q, 'a) lq \<Rightarrow> 'q \<Rightarrow> bool" where
  "lq_ok L q \<longleftrightarrow> distinct (elems L q) \<and> (\<forall>a. a \<in> set (elems L q) \<longleftrightarrow> place L a = Some q)"

lemma lq_ok_distinct: "lq_ok L q \<Longrightarrow> distinct (elems L q)"
  by (simp add: lq_ok_def)

lemma lq_ok_mem: "lq_ok L q \<Longrightarrow> a \<in> set (elems L q) \<longleftrightarrow> place L a = Some q"
  by (simp add: lq_ok_def)

lemma lq_unlinked_notin: "lq_ok L q \<Longrightarrow> place L a = None \<Longrightarrow> a \<notin> set (elems L q)"
  by (simp add: lq_ok_def)

lemma elems_lq_del_init:
  assumes "lq_ok L q"
  shows "elems (lq_del_init a L) q = remove1 a (elems L q)"
proof (cases "place L a = Some q")
  case True
  then show ?thesis by (simp add: lq_del_init_def)
next
  case False
  then have "a \<notin> set (elems L q)" using assms by (simp add: lq_ok_def)
  then show ?thesis using False by (auto simp: lq_del_init_def remove1_idem split: option.splits)
qed

lemma elems_lq_del_init_other:
  "place L a \<noteq> Some q \<Longrightarrow> elems (lq_del_init a L) q = elems L q"
  by (auto simp: lq_del_init_def split: option.splits)

lemma place_lq_del_init [simp]: "place (lq_del_init a L) = (place L)(a := None)"
  by (auto simp: lq_del_init_def split: option.splits)

lemma place_lq_put [simp]: "place (lq_put q zs a L) = (place L)(a := Some q)"
  by (simp add: lq_put_def)

lemma elems_lq_put [simp]: "elems (lq_put q zs a L) = (elems L)(q := zs)"
  by (simp add: lq_put_def)

lemma place_lq_add [simp]:
  "place (lq_add q a L) = (place L)(a := Some q)"
  "place (lq_add_tail q a L) = (place L)(a := Some q)"
  "place (lq_insert stop q a L) = (place L)(a := Some q)"
  by (simp_all add: lq_add_def lq_add_tail_def lq_insert_def)

lemma elems_lq_add [simp]:
  "elems (lq_add q a L) = (elems L)(q := a # elems L q)"
  "elems (lq_add_tail q a L) = (elems L)(q := elems L q @ [a])"
  "elems (lq_insert stop q a L) = (elems L)(q := insert_before stop a (elems L q))"
  by (simp_all add: lq_add_def lq_add_tail_def lq_insert_def)

lemma lq_ok_del_init: "lq_ok L q \<Longrightarrow> lq_ok (lq_del_init a L) q"
  by (auto simp: lq_ok_def lq_del_init_def split: option.splits)

lemma lq_ok_put:
  assumes "lq_ok L q'" and "place L a = None" and "set zs = insert a (set (elems L q))" and "distinct zs"
    and "lq_ok L q"
  shows "lq_ok (lq_put q zs a L) q'"
  using assms by (auto simp: lq_ok_def lq_put_def)

lemma lq_ok_add:
  assumes "lq_ok L q'" and "place L a = None" and "lq_ok L q"
  shows "lq_ok (lq_add q a L) q'" and "lq_ok (lq_add_tail q a L) q'" and "lq_ok (lq_insert stop q a L) q'"
proof -
  have n: "a \<notin> set (elems L q)" and d: "distinct (elems L q)"
    using assms by (auto simp: lq_ok_def)
  show "lq_ok (lq_add q a L) q'" "lq_ok (lq_add_tail q a L) q'" "lq_ok (lq_insert stop q a L) q'"
    unfolding lq_add_def lq_add_tail_def lq_insert_def
    by (rule lq_ok_put [OF assms(1,2) _ _ assms(3)], use n d in \<open>auto simp: distinct_insert_before\<close>)+
qed

lemma lq_ok_init_head: "lq_ok L q \<Longrightarrow> elems L q = [] \<Longrightarrow> lq_init_head q L = L"
  by (cases L) (simp add: lq_init_head_def fun_upd_idem)

lemma lq_init_node_unlinked: "place L a = None \<Longrightarrow> lq_init_node a L = L"
  by (simp add: lq_init_node_def fun_upd_idem)

subsection \<open>Queues partitioned by CPU\<close>

text \<open>
  Every queue belongs to a CPU (\<open>own\<close>) and every element is bound to one (\<open>cpu\<close>).
  \<open>lq_home\<close>: the queues of CPU \<open>p\<close> hold elements of \<open>p\<close> only, and those are linked nowhere else.
  \<open>lq_local\<close>: a change that touches only the queues and the nodes of CPU \<open>p\<close>.
\<close>

definition lq_home :: "('q \<Rightarrow> pcpu) \<Rightarrow> ('a \<Rightarrow> pcpu) \<Rightarrow> pcpu \<Rightarrow> ('q, 'a) lq \<Rightarrow> bool" where
  "lq_home own cpu p L \<longleftrightarrow>
     (\<forall>q. own q = p \<longrightarrow> lq_ok L q \<and> (\<forall>a \<in> set (elems L q). cpu a = p)) \<and>
     (\<forall>a q. cpu a = p \<longrightarrow> place L a = Some q \<longrightarrow> own q = p)"

definition lq_local :: "('q \<Rightarrow> pcpu) \<Rightarrow> ('a \<Rightarrow> pcpu) \<Rightarrow> pcpu \<Rightarrow> ('q, 'a) lq \<Rightarrow> ('q, 'a) lq \<Rightarrow> bool" where
  "lq_local own cpu p L L' \<longleftrightarrow>
     (\<forall>q. own q \<noteq> p \<longrightarrow> elems L' q = elems L q \<and> (\<forall>a. place L' a = Some q \<longleftrightarrow> place L a = Some q)) \<and>
     (\<forall>a. cpu a \<noteq> p \<longrightarrow> place L' a = place L a)"

definition lq_members :: "('q \<Rightarrow> pcpu) \<Rightarrow> pcpu \<Rightarrow> ('q, 'a) lq \<Rightarrow> 'a set" where
  "lq_members own p L = {a. \<exists>q. own q = p \<and> place L a = Some q}"

lemma lq_local_refl [simp]: "lq_local own cpu p L L"
  by (simp add: lq_local_def)

lemma lq_local_trans: "lq_local own cpu p L L' \<Longrightarrow> lq_local own cpu p L' L'' \<Longrightarrow> lq_local own cpu p L L''"
  by (simp add: lq_local_def)

lemma lq_homeD:
  assumes "lq_home own cpu p L"
  shows "own q = p \<Longrightarrow> lq_ok L q" and "own q = p \<Longrightarrow> a \<in> set (elems L q) \<Longrightarrow> cpu a = p"
    and "cpu a = p \<Longrightarrow> place L a = Some q \<Longrightarrow> own q = p"
  using assms by (auto simp: lq_home_def)

lemma lq_members_set: "lq_home own cpu p L \<Longrightarrow> own q = p \<Longrightarrow> a \<in> set (elems L q) \<Longrightarrow> a \<in> lq_members own p L"
  by (auto simp: lq_members_def lq_home_def lq_ok_def)

lemma lq_members_eq: "lq_home own cpu p L \<Longrightarrow> lq_members own p L = (\<Union>q \<in> {q. own q = p}. set (elems L q))"
  by (auto simp: lq_members_def lq_home_def lq_ok_def)

lemma lq_members_on: "lq_home own cpu p L \<Longrightarrow> a \<in> lq_members own p L \<Longrightarrow> cpu a = p"
  by (auto simp: lq_members_eq dest: lq_homeD(2))

lemma lq_members_linked: "lq_home own cpu p L \<Longrightarrow> cpu a = p \<Longrightarrow> a \<in> lq_members own p L \<longleftrightarrow> place L a \<noteq> None"
  using lq_homeD(3) [of own cpu p L a] unfolding lq_members_def by blast

lemma lq_local_del_init:
  assumes "lq_home own cpu p L" and "cpu a = p"
  shows "lq_local own cpu p L (lq_del_init a L)" and "lq_home own cpu p (lq_del_init a L)"
    and "lq_members own p (lq_del_init a L) = lq_members own p L - {a}"
proof -
  have pl: "own q = p" if "place L a = Some q" for q
    using lq_homeD(3) [OF assms that] .
  have "elems (lq_del_init a L) q = elems L q" if "own q \<noteq> p" for q
    using pl that by (intro elems_lq_del_init_other) blast
  then show "lq_local own cpu p L (lq_del_init a L)"
    using pl assms(2) unfolding lq_local_def by auto
  have sub: "set (elems (lq_del_init a L) q) \<subseteq> set (elems L q)" for q
    using set_remove1_subset [of a] by (cases "place L a") (auto simp: lq_del_init_def)
  show "lq_home own cpu p (lq_del_init a L)"
    unfolding lq_home_def
  proof (intro conjI allI impI ballI)
    fix q b assume q: "own q = p" 
    show "lq_ok (lq_del_init a L) q" by (rule lq_ok_del_init [OF lq_homeD(1) [OF assms(1) q]])
    assume "b \<in> set (elems (lq_del_init a L) q)"
    then show "cpu b = p" using sub lq_homeD(2) [OF assms(1) q] by blast
  next
    fix b q assume "cpu b = p" "place (lq_del_init a L) b = Some q"
    then show "own q = p" using lq_homeD(3) [OF assms(1)] by (simp split: if_splits)
  qed
  show "lq_members own p (lq_del_init a L) = lq_members own p L - {a}"
    by (auto simp: lq_members_def split: if_splits)
qed

lemma lq_local_put:
  assumes "lq_home own cpu p L" and "cpu a = p" and "own q = p" and "place L a = None"
    and "set zs = insert a (set (elems L q))" and "distinct zs"
  shows "lq_local own cpu p L (lq_put q zs a L)" and "lq_home own cpu p (lq_put q zs a L)"
    and "lq_members own p (lq_put q zs a L) = insert a (lq_members own p L)"
proof -
  show "lq_local own cpu p L (lq_put q zs a L)"
    using assms(2-4) by (auto simp: lq_local_def)
  have ok: "lq_ok (lq_put q zs a L) r" if "own r = p" for r
    by (rule lq_ok_put [OF lq_homeD(1) [OF assms(1) that] assms(4-6) lq_homeD(1) [OF assms(1,3)]])
  have el: "cpu b = p" if r: "own r = p" and b: "b \<in> set (elems (lq_put q zs a L) r)" for b r
  proof -
    have "b = a \<or> b \<in> set (elems L r)" using b assms(5) by (auto split: if_splits)
    then show ?thesis using assms(2) lq_homeD(2) [OF assms(1) r] by blast
  qed
  have pl: "own r = p" if "cpu b = p" and b: "place (lq_put q zs a L) b = Some r" for b r
    using b assms(3) lq_homeD(3) [OF assms(1) that(1)] by (auto split: if_splits)
  show "lq_home own cpu p (lq_put q zs a L)"
    unfolding lq_home_def using ok el pl by blast
  show "lq_members own p (lq_put q zs a L) = insert a (lq_members own p L)"
    using assms(3) by (auto simp: lq_members_def)
qed

lemma lq_local_adds:
  assumes "lq_home own cpu p L" and "cpu a = p" and "own q = p" and "place L a = None"
  shows "lq_local own cpu p L (lq_add q a L)" "lq_home own cpu p (lq_add q a L)"
    "lq_members own p (lq_add q a L) = insert a (lq_members own p L)"
    "lq_local own cpu p L (lq_add_tail q a L)" "lq_home own cpu p (lq_add_tail q a L)"
    "lq_members own p (lq_add_tail q a L) = insert a (lq_members own p L)"
    "lq_local own cpu p L (lq_insert stop q a L)" "lq_home own cpu p (lq_insert stop q a L)"
    "lq_members own p (lq_insert stop q a L) = insert a (lq_members own p L)"
proof -
  have ok: "lq_ok L q" by (rule lq_homeD(1) [OF assms(1,3)])
  have n: "a \<notin> set (elems L q)" and d: "distinct (elems L q)"
    using ok assms(4) by (auto simp: lq_ok_def)
  note put = lq_local_put [OF assms]
  show "lq_local own cpu p L (lq_add q a L)" "lq_home own cpu p (lq_add q a L)"
    "lq_members own p (lq_add q a L) = insert a (lq_members own p L)"
    unfolding lq_add_def using put [of "a # elems L q"] n d by auto
  show "lq_local own cpu p L (lq_add_tail q a L)" "lq_home own cpu p (lq_add_tail q a L)"
    "lq_members own p (lq_add_tail q a L) = insert a (lq_members own p L)"
    unfolding lq_add_tail_def using put [of "elems L q @ [a]"] n d by auto
  show "lq_local own cpu p L (lq_insert stop q a L)" "lq_home own cpu p (lq_insert stop q a L)"
    "lq_members own p (lq_insert stop q a L) = insert a (lq_members own p L)"
    unfolding lq_insert_def using put [of "insert_before stop a (elems L q)"] n d by auto
qed

lemma lq_home_local:
  assumes "lq_local own cpu p L L'" and "r \<noteq> p" and "lq_home own cpu r L"
  shows "lq_home own cpu r L'" and "lq_members own r L' = lq_members own r L"
proof -
  have e: "own q = r \<Longrightarrow> elems L' q = elems L q" "own q = r \<Longrightarrow> place L' a = Some q \<longleftrightarrow> place L a = Some q"
    "cpu a = r \<Longrightarrow> place L' a = place L a" for q a
    using assms(1,2) by (auto simp: lq_local_def)
  show "lq_home own cpu r L'"
    using assms(3) e unfolding lq_home_def lq_ok_def by auto
  show "lq_members own r L' = lq_members own r L" using e(2) by (auto simp: lq_members_def)
qed

section \<open>The pointer implementation\<close>

datatype ('q, 'a) qaddr = QHead 'q | QNode 'a

abbreviation queue_nodes :: "('q, 'a) lq \<Rightarrow> 'q \<Rightarrow> ('q, 'a) qaddr list" where
  "queue_nodes L q \<equiv> map QNode (elems L q)"

fun on_node :: "('a \<Rightarrow> bool) \<Rightarrow> ('q, 'a) qaddr \<Rightarrow> bool" where
  "on_node P (QNode a) = P a"
| "on_node P (QHead q) = False"

definition lq_rep :: "('q, 'a) qaddr list_heap \<Rightarrow> ('q, 'a) lq \<Rightarrow> bool" where
  "lq_rep h L \<longleftrightarrow> (\<forall>q. dlist h (QHead q) (queue_nodes L q) \<and> lq_ok L q) \<and>
     (\<forall>a. place L a = None \<longrightarrow> nxt h (QNode a) = QNode a \<and> prv h (QNode a) = QNode a)"

lemma lq_rep_dlist: "lq_rep h L \<Longrightarrow> dlist h (QHead q) (queue_nodes L q)"
  and lq_rep_ok: "lq_rep h L \<Longrightarrow> lq_ok L q"
  by (simp_all add: lq_rep_def)

lemma queue_nodes_disjoint:
  assumes "lq_rep h L" and "q \<noteq> q'"
  shows "set (QHead q # queue_nodes L q) \<inter> set (QHead q' # queue_nodes L q') = {}"
  using lq_rep_ok [OF assms(1)] assms(2) by (auto simp: lq_ok_def)

lemma map_insert_before:
  "insert_before (on_node stop) (QNode a) (map QNode xs) = map QNode (insert_before stop a xs)"
  by (induction xs) auto

text \<open>Linking an unlinked node between two neighbours of one queue.\<close>

lemma lq_rep_put:
  assumes "lq_rep h L" and "place L a = None" and "elems L q = xs @ ys"
    and "pos = (case map QNode ys of [] \<Rightarrow> QHead q | y # _ \<Rightarrow> y)"
  shows "lq_rep (list_add_node (QNode a) (prv h pos) pos h) (lq_put q (xs @ a # ys) a L)"
proof -
  let ?h = "list_add_node (QNode a) (prv h pos) pos h" and ?L = "lq_put q (xs @ a # ys) a L"
  have ok: "lq_ok L r" for r by (rule lq_rep_ok [OF assms(1)])
  have dq: "dlist h (QHead q) (map QNode xs @ map QNode ys)"
    using lq_rep_dlist [OF assms(1), of q] assms(3) by simp
  have an: "a \<notin> set (elems L r)" for r using ok [of r] assms(2) by (simp add: lq_ok_def)
  have "dlist ?h (QHead r) (queue_nodes ?L r)" for r
  proof (cases "r = q")
    case True
    have "QNode a \<notin> set (QHead q # map QNode xs @ map QNode ys)" using an [of q] assms(3) by auto
    then show ?thesis using dlist_add_node_at [OF dq _ assms(4)] True by simp
  next
    case False
    have "set (QHead r # queue_nodes L r) \<inter> set (QNode a # QHead q # map QNode xs @ map QNode ys) = {}"
      using queue_nodes_disjoint [OF assms(1) False] an [of r] assms(3) by auto
    then show ?thesis
      using dlist_frame_add_node [OF dq lq_rep_dlist [OF assms(1)] assms(4)] False by simp
  qed
  moreover have "lq_ok ?L r" for r
    by (rule lq_ok_put [OF ok assms(2)]) (use ok [of q] an [of q] assms(3) in \<open>auto simp: lq_ok_def\<close>)
  moreover have "nxt ?h (QNode b) = QNode b \<and> prv ?h (QNode b) = QNode b" if "place ?L b = None" for b
  proof -
    have b: "b \<noteq> a" "place L b = None" using that by (auto split: if_splits)
    have bn: "b \<notin> set (xs @ ys)" using ok [of q] b(2) assms(3) by (auto simp: lq_ok_def)
    have "prv h pos \<in> set (QHead q # map QNode xs)"
      by (rule dlist_split [OF dq]) (use assms(4) last_in_set [of "QHead q # map QNode xs"] in auto)
    moreover have "pos \<in> set (QHead q # map QNode ys)" using assms(4) by (auto split: list.splits)
    ultimately have "QNode b \<noteq> prv h pos" "QNode b \<noteq> pos" using bn by auto
    then show ?thesis
      using b assms(1) by (auto simp: list_add_node_def Let_def lq_rep_def)
  qed
  ultimately show ?thesis unfolding lq_rep_def by blast
qed

lemma lq_rep_insert:
  assumes "lq_rep h L" and "place L a = None" and "length (elems L q) < fuel"
  shows "\<exists>h'. list_insert_before fuel (on_node stop) (QNode a) (QHead q) h = Some h' \<and>
    lq_rep h' (lq_insert stop q a L)"
proof -
  let ?P = "\<lambda>y. \<not> on_node stop y"
  let ?ys = "dropWhile (\<lambda>y. \<not> stop y) (elems L q)" and ?xs = "takeWhile (\<lambda>y. \<not> stop y) (elems L q)"
  let ?pos = "case map QNode ?ys of [] \<Rightarrow> QHead q | y # _ \<Rightarrow> y"
  have dw: "dropWhile ?P (queue_nodes L q) = map QNode ?ys" by (simp add: dropWhile_map comp_def)
  have "scan_node fuel (on_node stop) h (QHead q) (nxt h (QHead q)) = Some ?pos"
    using scan_node_from [of h "QHead q" "[]" "queue_nodes L q" fuel "on_node stop"] assms
      lq_rep_dlist [OF assms(1), of q] by (simp add: dw dlist_nxt_head)
  moreover have "lq_rep (list_add_node (QNode a) (prv h ?pos) ?pos h) (lq_put q (?xs @ a # ?ys) a L)"
    by (rule lq_rep_put [OF assms(1,2)]) simp_all
  ultimately show ?thesis by (simp add: list_insert_before_def lq_insert_def insert_before_split)
qed

lemma lq_rep_add_tail:
  assumes "lq_rep h L" and "place L a = None"
  shows "lq_rep (list_add_tail (QNode a) (QHead q) h) (lq_add_tail q a L)"
  using lq_rep_put [OF assms, of q "elems L q" "[]" "QHead q"]
  by (simp add: list_add_tail_def lq_add_tail_def)

lemma lq_rep_add:
  assumes "lq_rep h L" and "place L a = None"
  shows "lq_rep (list_add (QNode a) (QHead q) h) (lq_add q a L)"
proof -
  let ?pos = "case queue_nodes L q of [] \<Rightarrow> QHead q | y # _ \<Rightarrow> y"
  have d: "dlist h (QHead q) (queue_nodes L q)" by (rule lq_rep_dlist [OF assms(1)])
  have "nxt h (QHead q) = ?pos" by (rule dlist_nxt_head [OF d])
  moreover have "prv h ?pos = QHead q"
    using d by (cases "elems L q") (simp_all add: dlist_def)
  ultimately show ?thesis
    using lq_rep_put [OF assms, of q "[]" "elems L q" ?pos] by (simp add: list_add_def lq_add_def)
qed

lemma lq_rep_del_init:
  assumes "lq_rep h L"
  shows "lq_rep (list_del_init (QNode a) h) (lq_del_init a L)"
proof (cases "place L a")
  case None
  then have "list_del_init (QNode a) h = h"
    using assms by (intro list_del_init_detached) (auto simp: lq_rep_def)
  then show ?thesis using assms None by (simp add: lq_del_init_def)
next
  case (Some q)
  have ok: "lq_ok L r" for r by (rule lq_rep_ok [OF assms])
  then have "a \<in> set (elems L q)" using Some by (simp add: lq_ok_def)
  then obtain xs ys where e: "elems L q = xs @ a # ys" by (meson split_list)
  have ax: "a \<notin> set xs" "a \<notin> set ys" using ok [of q] e by (auto simp: lq_ok_def)
  then have e': "elems (lq_del_init a L) q = xs @ ys" using Some e by (simp add: lq_del_init_def remove1_append)
  have dq: "dlist h (QHead q) (map QNode xs @ QNode a # map QNode ys)"
    using lq_rep_dlist [OF assms, of q] e by simp
  let ?h = "list_del_init (QNode a) h"
  have "dlist ?h (QHead r) (queue_nodes (lq_del_init a L) r)" for r
  proof (cases "r = q")
    case True
    then show ?thesis using dlist_list_del_init(1) [OF dq] e' by simp
  next
    case False
    have "set (QHead r # queue_nodes L r) \<inter> set (QHead q # map QNode xs @ QNode a # map QNode ys) = {}"
      using queue_nodes_disjoint [OF assms False] e by simp
    then show ?thesis
      using dlist_frame_del_init [OF dq lq_rep_dlist [OF assms]] False Some
      by (simp add: elems_lq_del_init_other)
  qed
  moreover have "nxt ?h (QNode b) = QNode b \<and> prv ?h (QNode b) = QNode b"
    if "place (lq_del_init a L) b = None" for b
  proof (cases "b = a")
    case True
    then show ?thesis by (simp add: list_del_init_def INIT_LIST_HEAD_def)
  next
    case False
    then have b: "place L b = None" using that by simp
    then have "b \<notin> set (xs @ ys)" using ok [of q] e by (auto simp: lq_ok_def)
    moreover have "prv h (QNode a) \<in> set (QHead q # map QNode xs)"
      "nxt h (QNode a) \<in> set (QHead q # map QNode ys)"
      using dlist_neighbours [OF dq] last_in_set [of "QHead q # map QNode xs"]
      by (auto split: list.splits)
    ultimately have "QNode b \<noteq> prv h (QNode a)" "QNode b \<noteq> nxt h (QNode a)" by auto
    then show ?thesis
      using False b assms by (auto simp: list_del_init_def list_del_node_def INIT_LIST_HEAD_def Let_def lq_rep_def)
  qed
  ultimately show ?thesis unfolding lq_rep_def using lq_ok_del_init [OF ok] by blast
qed

lemma lq_rep_linked: 
  assumes "lq_rep h L"
  shows "list_empty h (QNode a) \<longleftrightarrow> \<not> lq_linked a L"
proof (cases "place L a")
  case None
  then show ?thesis using assms by (simp add: list_empty_def lq_linked_def lq_rep_def)
next
  case (Some q)
  then have "a \<in> set (elems L q)" using lq_rep_ok [OF assms, of q] by (simp add: lq_ok_def)
  then obtain xs ys where e: "elems L q = xs @ a # ys" by (meson split_list)
  have dq: "dlist h (QHead q) (map QNode xs @ QNode a # map QNode ys)"
    using lq_rep_dlist [OF assms, of q] e by simp
  then have "nxt h (QNode a) \<noteq> QNode a"
    using dlist_neighbours(1) [OF dq] by (auto simp: dlist_def split: list.splits)
  then show ?thesis using Some by (simp add: list_empty_def lq_linked_def)
qed

lemma lq_rep_empty: "lq_rep h L \<Longrightarrow> list_empty h (QHead q) \<longleftrightarrow> elems L q = []"
  using dlist_empty_iff [OF lq_rep_dlist] by fastforce

section \<open>Sequences of queue operations\<close>

text \<open>
  What the schedulers do with their queues is a sequence of these steps; a node is linked only
  while it is unlinked. The pointer run may fail only by not leaving a scan within its fuel.
\<close>

datatype ('q, 'a) lq_op = Del_Init 'a | Add 'q 'a | Add_Tail 'q 'a | Insert "'a \<Rightarrow> bool" 'q 'a

fun lq_step :: "('q, 'a) lq_op \<Rightarrow> ('q, 'a) lq \<Rightarrow> ('q, 'a) lq" where
  "lq_step (Del_Init a) L = lq_del_init a L"
| "lq_step (Add q a) L = lq_add q a L"
| "lq_step (Add_Tail q a) L = lq_add_tail q a L"
| "lq_step (Insert stop q a) L = lq_insert stop q a L"

fun ptr_step :: "nat \<Rightarrow> ('q, 'a) lq_op \<Rightarrow> ('q, 'a) qaddr list_heap \<Rightarrow> ('q, 'a) qaddr list_heap option" where
  "ptr_step fuel (Del_Init a) h = Some (list_del_init (QNode a) h)"
| "ptr_step fuel (Add q a) h = Some (list_add (QNode a) (QHead q) h)"
| "ptr_step fuel (Add_Tail q a) h = Some (list_add_tail (QNode a) (QHead q) h)"
| "ptr_step fuel (Insert stop q a) h = list_insert_before fuel (on_node stop) (QNode a) (QHead q) h"

fun lq_enabled :: "('q, 'a) lq_op \<Rightarrow> ('q, 'a) lq \<Rightarrow> bool" where
  "lq_enabled (Del_Init a) L = True"
| "lq_enabled (Add q a) L = (place L a = None)"
| "lq_enabled (Add_Tail q a) L = (place L a = None)"
| "lq_enabled (Insert stop q a) L = (place L a = None)"

fun lq_run :: "('q, 'a) lq_op list \<Rightarrow> ('q, 'a) lq \<Rightarrow> ('q, 'a) lq option" where
  "lq_run [] L = Some L"
| "lq_run (c # cs) L = (if lq_enabled c L then lq_run cs (lq_step c L) else None)"

fun ptr_run :: "nat \<Rightarrow> ('q, 'a) lq_op list \<Rightarrow> ('q, 'a) qaddr list_heap \<Rightarrow> ('q, 'a) qaddr list_heap option" where
  "ptr_run fuel [] h = Some h"
| "ptr_run fuel (c # cs) h = Option.bind (ptr_step fuel c h) (ptr_run fuel cs)"

lemma lq_rep_step:
  assumes "lq_rep h L" and "lq_enabled c L" and "\<And>q. length (elems L q) < fuel"
  shows "\<exists>h'. ptr_step fuel c h = Some h' \<and> lq_rep h' (lq_step c L)"
  using assms lq_rep_insert [OF assms(1) _ assms(3)]
  by (cases c) (auto intro: lq_rep_del_init lq_rep_add lq_rep_add_tail)

lemma length_elems_lq_step: "length (elems (lq_step c L) q) \<le> Suc (length (elems L q))"
  by (cases c) (auto simp: lq_del_init_def length_remove1 split: option.splits)

text \<open>
  C8: The list-level queues are what the pointer code of \<^verbatim>\<open>list.h\<close> computes: for every sequence of
  unlinkings and sorted, head or tail insertions of unlinked nodes, the pointer run ends (no scan
  runs away) and its heap represents the list-level result; along the way \<^verbatim>\<open>list_empty\<close> answers
  as the list level does.
\<close>

theorem ptr_run_refines_lq_run:
  assumes "lq_rep h L" and "lq_run cs L = Some L'" and "\<And>q. length (elems L q) + length cs < fuel"
  shows "\<exists>h'. ptr_run fuel cs h = Some h' \<and> lq_rep h' L' \<and>
    (\<forall>a. list_empty h' (QNode a) \<longleftrightarrow> \<not> lq_linked a L') \<and>
    (\<forall>q. list_empty h' (QHead q) \<longleftrightarrow> elems L' q = [])"
  using assms
proof (induction cs arbitrary: h L)
  case Nil
  then show ?case using lq_rep_linked lq_rep_empty by fastforce
next
  case (Cons c cs)
  have en: "lq_enabled c L" and run: "lq_run cs (lq_step c L) = Some L'"
    using Cons.prems(2) by (auto split: if_splits)
  have len: "length (elems L q) < fuel" for q using Cons.prems(3) [of q] by simp
  obtain h1 where h1: "ptr_step fuel c h = Some h1" and rep: "lq_rep h1 (lq_step c L)"
    using lq_rep_step [OF Cons.prems(1) en len] by blast
  have "length (elems (lq_step c L) q) + length cs < fuel" for q
    using length_elems_lq_step [of c L q] Cons.prems(3) [of q] by simp
  then show ?case using Cons.IH [OF rep run] h1 by simp
qed

definition sample_lq :: "(nat, nat) lq" where
  "sample_lq = \<lparr>place = (\<lambda>_. None), elems = (\<lambda>_. [])\<rparr>"

definition sample_heap :: "(nat, nat) qaddr list_heap" where
  "sample_heap = \<lparr>nxt = (\<lambda>x. x), prv = (\<lambda>x. x)\<rparr>"

theorem ptr_run_refines_lq_run_witness:
  "\<exists>L'. lq_run [Add_Tail 0 1, Add 0 2, Insert (\<lambda>y. y = 1) 0 3, Del_Init 2] sample_lq = Some L' \<and>
    elems L' 0 = [3, 1] \<and>
    (\<exists>h'. ptr_run 5 [Add_Tail 0 1, Add 0 2, Insert (\<lambda>y. y = 1) 0 3, Del_Init 2] sample_heap = Some h' \<and>
      lq_rep h' L')"
proof -
  have rep: "lq_rep sample_heap sample_lq"
    by (auto simp: lq_rep_def sample_heap_def sample_lq_def dlist_def lq_ok_def)
  let ?cs = "[Add_Tail 0 1, Add 0 2, Insert (\<lambda>y. y = 1) 0 3, Del_Init 2] :: (nat, nat) lq_op list"
  obtain L' where L': "lq_run ?cs sample_lq = Some L'" "elems L' 0 = [3, 1]"
    by (simp add: sample_lq_def lq_del_init_def)
  have "\<exists>h'. ptr_run 5 ?cs sample_heap = Some h' \<and> lq_rep h' L'"
    using ptr_run_refines_lq_run [OF rep L'(1), of 5] by (auto simp: sample_lq_def)
  then show ?thesis using L' by blast
qed

end
