(* ===== verification/Sched_Types.thy ===== *)
theory Sched_Types
  imports Timer Linked_Queue Bits
begin

text \<open>
  The data model of the scheduler framework (\<^verbatim>\<open>include/common/schedule.h\<close>, the private data of
  \<^verbatim>\<open>core/sched_*.c\<close>) and the framework calls that the schedulers themselves use.

  A thread object is named by its address: the idle object of a CPU or another object. The
  256-byte private area of a thread is read by one scheduler only, the one of the thread's CPU;
  here it is a record with one component for each layout. The list node that opens
  each layout lives in the \<open>lq\<close> family of the scheduler's queues. A \<^verbatim>\<open>sched_control\<close> is named by its
  CPU, so the pointers \<^verbatim>\<open>obj->sched_ctl\<close> and \<^verbatim>\<open>timer->priv_data\<close> are CPU numbers. A scheduler
  lock section is one atomic state change. Effects outside the model (inter-processor requests,
  the switch callbacks of the thread's owner, the stack switch) are appended to \<open>trace\<close>.
\<close>

section \<open>Threads\<close>

datatype tid = Idle pcpu | Thr nat

datatype thread_object_state = THREAD_STS_RUNNING | THREAD_STS_RUNNABLE | THREAD_STS_BLOCKED

record sched_params =
  prio :: u32
  bvt_weight :: u8
  bvt_warp_value :: i32
  bvt_warp_limit :: u32
  bvt_unwarp_period :: u32

record sched_latency_stats =
  switches :: u64
  last_wait_ticks :: u64
  max_wait_ticks :: u64
  state_since :: u64
  runnable_since :: u64
  runtime_ticks :: u64

record sched_bvt_data =
  mcu :: u64
  weight :: u8
  vt_ratio :: u64
  warp_on :: bool
  warp_value :: i32
  warp_limit :: u32
  unwarp_period :: u32
  warp_left :: u32
  last_unwarp_tsc :: u64
  avt :: i64
  evt :: i64
  residual :: u64
  start_tsc :: u64

datatype sched_rtds_queue = RTDS_QUEUE_NONE | RTDS_QUEUE_READY | RTDS_QUEUE_DEPLETED

record sched_rtds_data =
  period_ticks :: u64
  budget_ticks :: u64
  remaining_ticks :: u64
  deadline_ticks :: u64
  last_start_ticks :: u64
  queue :: sched_rtds_queue

record sched_iorr_data =
  slice_cycles :: u64
  last_cycles :: u64
  left_cycles :: i64

record sched_prio_data =
  priority :: i32

record sched_data =
  bvt :: sched_bvt_data
  rtds :: sched_rtds_data
  iorr :: sched_iorr_data
  prior :: sched_prio_data

record thread_object =
  pcpu_id :: pcpu
  sched_ctl :: pcpu
  status :: thread_object_state
  be_blocking :: bool
  priority_pending :: bool
  switch_out :: bool  \<comment> \<open>whether the callback is set\<close>
  switch_in :: bool
  data :: sched_data
  latency :: sched_latency_stats

section \<open>Per-CPU control and the whole state\<close>

datatype sched_name = SCHED_NOOP | SCHED_IORR | SCHED_BVT | SCHED_RTDS | SCHED_PRIO

record sched_control =
  flags :: u64
  curr_obj :: "tid option"
  scheduler :: "sched_name option"
  scheduler_ticks :: u64
  context_switches :: u64
  reschedule_requests :: u64

datatype rtds_qid = Ready pcpu | Depleted pcpu

fun rtds_cpu :: "rtds_qid \<Rightarrow> pcpu" where
  "rtds_cpu (Ready p) = p"
| "rtds_cpu (Depleted p) = p"

datatype tnode = THead | TNode tid

datatype sched_effect =
    Send_Reschedule pcpu
  | Switch_Out tid
  | Switch_In tid
  | Switch_To "tid option" tid

record hv = timer_env +
  threads :: "tid \<Rightarrow> thread_object"
  ctl :: "pcpu \<Rightarrow> sched_control"
  noop_thread_obj :: "pcpu \<Rightarrow> tid option"
  iorr_queue :: "(pcpu, tid) lq"
  bvt_queue :: "(pcpu, tid) lq"
  bvt_svt :: "pcpu \<Rightarrow> i64"
  rtds_queues :: "(rtds_qid, tid) lq"
  prio_queue :: "(pcpu, tid) lq"
  thread_heap :: "tnode list_heap"
  thread_count :: u32
  thread_list_initialized :: bool
  trace :: "sched_effect list"

definition upd_thread :: "tid \<Rightarrow> (thread_object \<Rightarrow> thread_object) \<Rightarrow> hv \<Rightarrow> hv" where
  "upd_thread t f s = s\<lparr>threads := (threads s)(t := f (threads s t))\<rparr>"

definition upd_ctl :: "pcpu \<Rightarrow> (sched_control \<Rightarrow> sched_control) \<Rightarrow> hv \<Rightarrow> hv" where
  "upd_ctl p f s = s\<lparr>ctl := (ctl s)(p := f (ctl s p))\<rparr>"

definition emit :: "sched_effect \<Rightarrow> hv \<Rightarrow> hv" where
  "emit e s = s\<lparr>trace := trace s @ [e]\<rparr>"

abbreviation upd_bvt :: "tid \<Rightarrow> (sched_bvt_data \<Rightarrow> sched_bvt_data) \<Rightarrow> hv \<Rightarrow> hv" where
  "upd_bvt t f s \<equiv> upd_thread t (data_update (bvt_update f)) s"

abbreviation upd_rtds :: "tid \<Rightarrow> (sched_rtds_data \<Rightarrow> sched_rtds_data) \<Rightarrow> hv \<Rightarrow> hv" where
  "upd_rtds t f s \<equiv> upd_thread t (data_update (rtds_update f)) s"

abbreviation upd_iorr :: "tid \<Rightarrow> (sched_iorr_data \<Rightarrow> sched_iorr_data) \<Rightarrow> hv \<Rightarrow> hv" where
  "upd_iorr t f s \<equiv> upd_thread t (data_update (iorr_update f)) s"

abbreviation bvt_of :: "hv \<Rightarrow> tid \<Rightarrow> sched_bvt_data" where
  "bvt_of s t \<equiv> bvt (data (threads s t))"

abbreviation rtds_of :: "hv \<Rightarrow> tid \<Rightarrow> sched_rtds_data" where
  "rtds_of s t \<equiv> rtds (data (threads s t))"

abbreviation iorr_of :: "hv \<Rightarrow> tid \<Rightarrow> sched_iorr_data" where
  "iorr_of s t \<equiv> iorr (data (threads s t))"

abbreviation cpu_of :: "hv \<Rightarrow> tid \<Rightarrow> pcpu" where
  "cpu_of s t \<equiv> pcpu_id (threads s t)"

section \<open>Framework calls used by the schedulers\<close>

abbreviation NEED_RESCHEDULE :: u32 where "NEED_RESCHEDULE \<equiv> 1"

definition is_idle_thread :: "hv \<Rightarrow> tid \<Rightarrow> bool" where
  "is_idle_thread s t \<longleftrightarrow> t = Idle (pcpu_id (threads s t))"

definition sched_account_tick :: "pcpu \<Rightarrow> hv \<Rightarrow> hv" where
  "sched_account_tick p s = upd_ctl p (\<lambda>c. c\<lparr>scheduler_ticks := scheduler_ticks c + 1\<rparr>) s"

definition make_reschedule_request :: "pcpu \<Rightarrow> hv \<Rightarrow> hv" where
  "make_reschedule_request p s =
     (let s = upd_ctl p (\<lambda>c. c\<lparr>reschedule_requests := reschedule_requests c + 1\<rparr>) s;
          s = upd_ctl p (\<lambda>c. c\<lparr>flags := bitmap_set NEED_RESCHEDULE (flags c)\<rparr>) s
      in if this_cpu s \<noteq> p then emit (Send_Reschedule p) s else s)"

definition need_reschedule :: "pcpu \<Rightarrow> hv \<Rightarrow> bool" where
  "need_reschedule p s = bitmap_test NEED_RESCHEDULE (flags (ctl s p))"

text \<open>
  \<^verbatim>\<open>struct acrn_scheduler\<close>: a missing callback is \<open>None\<close>. \<open>pick_next\<close> is itself partial: \<open>None\<close>
  as its result means that the callback dereferences a null pointer or does not return.
\<close>

record acrn_scheduler =
  init :: "(pcpu \<Rightarrow> hv \<Rightarrow> int \<times> hv) option"
  init_data :: "(tid \<Rightarrow> sched_params \<Rightarrow> hv \<Rightarrow> hv) option"
  pick_next :: "(pcpu \<Rightarrow> hv \<Rightarrow> (tid \<times> hv) option) option"
  sleep :: "(tid \<Rightarrow> hv \<Rightarrow> hv) option"
  wake :: "(tid \<Rightarrow> hv \<Rightarrow> hv) option"
  yield :: "(pcpu \<Rightarrow> hv \<Rightarrow> hv) option"
  prioritize :: "(tid \<Rightarrow> hv \<Rightarrow> hv) option"
  deinit_data :: "(tid \<Rightarrow> hv \<Rightarrow> hv) option"
  deinit :: "(pcpu \<Rightarrow> hv \<Rightarrow> hv) option"
  suspend :: "(pcpu \<Rightarrow> hv \<Rightarrow> hv) option"
  resume :: "(pcpu \<Rightarrow> hv \<Rightarrow> hv) option"

section \<open>What the small updates change\<close>

lemma threads_upd_thread [simp]: "threads (upd_thread t f s) = (threads s)(t := f (threads s t))"
  by (simp add: upd_thread_def)

lemma ctl_upd_ctl [simp]: "ctl (upd_ctl p f s) = (ctl s)(p := f (ctl s p))"
  by (simp add: upd_ctl_def)

lemma upd_thread_frame [simp, frame_simps]:
  "tsc (upd_thread t f s) = tsc s" "tsc_reads (upd_thread t f s) = tsc_reads s"
  "tickrate (upd_thread t f s) = tickrate s" "this_cpu (upd_thread t f s) = this_cpu s"
  "hv_timers (upd_thread t f s) = hv_timers s" "timer_list (upd_thread t f s) = timer_list s"
  "host_timer (upd_thread t f s) = host_timer s" "ctl (upd_thread t f s) = ctl s"
  "noop_thread_obj (upd_thread t f s) = noop_thread_obj s" "iorr_queue (upd_thread t f s) = iorr_queue s"
  "bvt_queue (upd_thread t f s) = bvt_queue s" "bvt_svt (upd_thread t f s) = bvt_svt s"
  "rtds_queues (upd_thread t f s) = rtds_queues s" "prio_queue (upd_thread t f s) = prio_queue s"
  "thread_heap (upd_thread t f s) = thread_heap s" "thread_count (upd_thread t f s) = thread_count s"
  "thread_list_initialized (upd_thread t f s) = thread_list_initialized s"
  "trace (upd_thread t f s) = trace s"
  by (simp_all add: upd_thread_def)

lemma upd_ctl_frame [simp, frame_simps]:
  "tsc (upd_ctl p f s) = tsc s" "tsc_reads (upd_ctl p f s) = tsc_reads s"
  "tickrate (upd_ctl p f s) = tickrate s" "this_cpu (upd_ctl p f s) = this_cpu s"
  "hv_timers (upd_ctl p f s) = hv_timers s" "timer_list (upd_ctl p f s) = timer_list s"
  "host_timer (upd_ctl p f s) = host_timer s" "threads (upd_ctl p f s) = threads s"
  "noop_thread_obj (upd_ctl p f s) = noop_thread_obj s" "iorr_queue (upd_ctl p f s) = iorr_queue s"
  "bvt_queue (upd_ctl p f s) = bvt_queue s" "bvt_svt (upd_ctl p f s) = bvt_svt s"
  "rtds_queues (upd_ctl p f s) = rtds_queues s" "prio_queue (upd_ctl p f s) = prio_queue s"
  "thread_heap (upd_ctl p f s) = thread_heap s" "thread_count (upd_ctl p f s) = thread_count s"
  "thread_list_initialized (upd_ctl p f s) = thread_list_initialized s"
  "trace (upd_ctl p f s) = trace s"
  by (simp_all add: upd_ctl_def)

lemma emit_frame [simp, frame_simps]:
  "tsc (emit e s) = tsc s" "tsc_reads (emit e s) = tsc_reads s"
  "tickrate (emit e s) = tickrate s" "this_cpu (emit e s) = this_cpu s"
  "hv_timers (emit e s) = hv_timers s" "timer_list (emit e s) = timer_list s"
  "host_timer (emit e s) = host_timer s" "threads (emit e s) = threads s" "ctl (emit e s) = ctl s"
  "noop_thread_obj (emit e s) = noop_thread_obj s" "iorr_queue (emit e s) = iorr_queue s"
  "bvt_queue (emit e s) = bvt_queue s" "bvt_svt (emit e s) = bvt_svt s"
  "rtds_queues (emit e s) = rtds_queues s" "prio_queue (emit e s) = prio_queue s"
  "thread_heap (emit e s) = thread_heap s" "thread_count (emit e s) = thread_count s"
  "thread_list_initialized (emit e s) = thread_list_initialized s"
  "trace (emit e s) = trace s @ [e]"
  by (simp_all add: emit_def)

lemma hv_more_eq:
  assumes "timer_env.more s' = timer_env.more (s :: hv)"
  shows "threads s' = threads s" "ctl s' = ctl s" "noop_thread_obj s' = noop_thread_obj s"
    "iorr_queue s' = iorr_queue s" "bvt_queue s' = bvt_queue s" "bvt_svt s' = bvt_svt s"
    "rtds_queues s' = rtds_queues s" "prio_queue s' = prio_queue s" "thread_heap s' = thread_heap s"
    "thread_count s' = thread_count s" "thread_list_initialized s' = thread_list_initialized s"
    "trace s' = trace s"
  using assms by (cases s; cases s'; simp)+

text \<open>The timer lists do not depend on the scheduler's part of the state.\<close>

lemma timers_wf_hv [simp]:
  "timers_wf (threads_update f1 s) = timers_wf (s :: hv)"
  "timers_wf (ctl_update f2 s) = timers_wf (s :: hv)"
  "timers_wf (noop_thread_obj_update f3 s) = timers_wf (s :: hv)"
  "timers_wf (iorr_queue_update f4 s) = timers_wf (s :: hv)"
  "timers_wf (bvt_queue_update f5 s) = timers_wf (s :: hv)"
  "timers_wf (bvt_svt_update f6 s) = timers_wf (s :: hv)"
  "timers_wf (rtds_queues_update f7 s) = timers_wf (s :: hv)"
  "timers_wf (prio_queue_update f8 s) = timers_wf (s :: hv)"
  "timers_wf (thread_heap_update f9 s) = timers_wf (s :: hv)"
  "timers_wf (thread_count_update f10 s) = timers_wf (s :: hv)"
  "timers_wf (thread_list_initialized_update f11 s) = timers_wf (s :: hv)"
  "timers_wf (trace_update f12 s) = timers_wf (s :: hv)"
  by (rule timers_wf_cong; simp)+

lemma timers_wf_upd [simp]:
  "timers_wf (upd_thread t g s) = timers_wf s" "timers_wf (upd_ctl p h s) = timers_wf s"
  "timers_wf (emit e s) = timers_wf s" "timers_wf (s\<lparr>tsc_reads := n\<rparr>) = timers_wf s"
  by (rule timers_wf_cong; simp)+

lemma bit_NEED_RESCHEDULE [simp]:
  "bit (bitmap_set NEED_RESCHEDULE w) i \<longleftrightarrow> bit w i \<or> i = 1"
  "bit (bitmap_clear NEED_RESCHEDULE w) i \<longleftrightarrow> bit w i \<and> i \<noteq> 1"
  "bitmap_test NEED_RESCHEDULE w \<longleftrightarrow> bit w 1"
  by (simp_all add: bitmap_bits)

lemma need_reschedule_after_request [simp]: "need_reschedule p (make_reschedule_request p s)"
  by (simp add: need_reschedule_def make_reschedule_request_def Let_def)

end
