(* ===== verification/Sched_Contract.thy ===== *)
theory Sched_Contract
  imports Sched_Types
begin

text \<open>
  What the scheduler framework relies on when it calls a scheduler through
  \<^verbatim>\<open>struct acrn_scheduler\<close>: the contract of the callbacks as a locale, and the invariant of one
  CPU that the framework keeps with a scheduler that fulfils it. The schedulers interpret the
  locale in their own theories; the framework's lemmas are proved once inside it.
\<close>

section \<open>The change a callback may make\<close>

text \<open>
  A callback that works for CPU \<open>p\<close> changes no public field of any thread, nothing of the control
  blocks, the thread list and the trace, and of the private state only what belongs to \<open>p\<close>.
\<close>

definition public_eq :: "hv \<Rightarrow> hv \<Rightarrow> bool" where
  "public_eq s s' \<longleftrightarrow>
     (\<forall>t. (threads s' t)\<lparr>data := data (threads s t)\<rparr> = threads s t) \<and> ctl s' = ctl s \<and>
     thread_heap s' = thread_heap s \<and> thread_count s' = thread_count s \<and>
     thread_list_initialized s' = thread_list_initialized s \<and> trace s' = trace s \<and>
     this_cpu s' = this_cpu s \<and> tsc s' = tsc s \<and> tickrate s' = tickrate s"

definition private_local :: "pcpu \<Rightarrow> hv \<Rightarrow> hv \<Rightarrow> bool" where
  "private_local p s s' \<longleftrightarrow>
     (\<forall>t. cpu_of s t \<noteq> p \<longrightarrow> data (threads s' t) = data (threads s t)) \<and>
     lq_local id (cpu_of s) p (iorr_queue s) (iorr_queue s') \<and>
     lq_local id (cpu_of s) p (bvt_queue s) (bvt_queue s') \<and>
     lq_local id (cpu_of s) p (prio_queue s) (prio_queue s') \<and>
     lq_local rtds_cpu (cpu_of s) p (rtds_queues s) (rtds_queues s') \<and>
     (\<forall>q. q \<noteq> p \<longrightarrow> bvt_svt s' q = bvt_svt s q \<and> noop_thread_obj s' q = noop_thread_obj s q)"

definition sched_step :: "pcpu \<Rightarrow> hv \<Rightarrow> hv \<Rightarrow> bool" where
  "sched_step p s s' \<longleftrightarrow> public_eq s s' \<and> private_local p s s' \<and>
     tsc_reads s \<le> tsc_reads s' \<and> (timers_wf s \<longrightarrow> timers_wf s')"

lemma public_eq_thread:
  assumes "public_eq s s'"
  shows "pcpu_id (threads s' t) = pcpu_id (threads s t)" "sched_ctl (threads s' t) = sched_ctl (threads s t)"
    "status (threads s' t) = status (threads s t)" "be_blocking (threads s' t) = be_blocking (threads s t)"
    "priority_pending (threads s' t) = priority_pending (threads s t)"
    "switch_out (threads s' t) = switch_out (threads s t)" "switch_in (threads s' t) = switch_in (threads s t)"
    "latency (threads s' t) = latency (threads s t)"
proof -
  have e: "(threads s' t)\<lparr>data := data (threads s t)\<rparr> = threads s t"
    using assms by (simp add: public_eq_def)
  show "pcpu_id (threads s' t) = pcpu_id (threads s t)" "sched_ctl (threads s' t) = sched_ctl (threads s t)"
    "status (threads s' t) = status (threads s t)" "be_blocking (threads s' t) = be_blocking (threads s t)"
    "priority_pending (threads s' t) = priority_pending (threads s t)"
    "switch_out (threads s' t) = switch_out (threads s t)" "switch_in (threads s' t) = switch_in (threads s t)"
    "latency (threads s' t) = latency (threads s t)"
    by (subst e [symmetric], simp)+
qed

lemma public_eq_rest:
  assumes "public_eq s s'"
  shows "ctl s' = ctl s" "thread_heap s' = thread_heap s" "thread_count s' = thread_count s"
    "thread_list_initialized s' = thread_list_initialized s" "trace s' = trace s"
    "this_cpu s' = this_cpu s" "tsc s' = tsc s" "tickrate s' = tickrate s"
  using assms by (simp_all add: public_eq_def)

lemma public_eq_refl [simp]: "public_eq s s"
  by (simp add: public_eq_def)

lemma public_eq_trans: 
  assumes "public_eq s s'" and "public_eq s' s''"
  shows "public_eq s s''"
proof -
  have "(threads s'' t)\<lparr>data := data (threads s t)\<rparr> = threads s t" for t
  proof -
    have "(threads s'' t)\<lparr>data := data (threads s t)\<rparr> =
        ((threads s'' t)\<lparr>data := data (threads s' t)\<rparr>)\<lparr>data := data (threads s t)\<rparr>" by simp
    also have "(threads s'' t)\<lparr>data := data (threads s' t)\<rparr> = threads s' t"
      using assms(2) by (simp add: public_eq_def)
    also have "(threads s' t)\<lparr>data := data (threads s t)\<rparr> = threads s t"
      using assms(1) by (simp add: public_eq_def)
    finally show ?thesis .
  qed
  then show ?thesis using assms by (simp add: public_eq_def)
qed

lemma sched_step_public: "sched_step p s s' \<Longrightarrow> public_eq s s'"
  by (simp add: sched_step_def)

lemma sched_step_refl [simp]: "sched_step p s s"
  by (simp add: sched_step_def private_local_def)

lemma sched_step_trans:
  assumes "sched_step p s s'" and "sched_step p s' s''"
  shows "sched_step p s s''"
proof -
  have c: "cpu_of s' t = cpu_of s t" for t using public_eq_thread(1) [OF sched_step_public [OF assms(1)]] .
  have "private_local p s s'" "private_local p s' s''" using assms by (simp_all add: sched_step_def)
  then have "private_local p s s''"
    unfolding private_local_def c by (metis lq_local_trans)
  then show ?thesis
    using assms public_eq_trans [of s s' s''] by (auto simp: sched_step_def)
qed

text \<open>Changing private data of a thread of \<open>p\<close>, and reading the clock.\<close>

lemma public_eq_upd_data [simp]: "public_eq s (upd_thread t (data_update f) s)"
  by (simp add: public_eq_def)

lemma sched_step_upd_data: "cpu_of s t = p \<Longrightarrow> sched_step p s (upd_thread t (data_update f) s)"
  by (auto simp: sched_step_def private_local_def)

lemma sched_step_read: "sched_step p s (s\<lparr>tsc_reads := Suc (tsc_reads s)\<rparr>)"
  by (auto simp: sched_step_def private_local_def public_eq_def)

text \<open>Relinking nodes of \<open>p\<close>, and changing a per-CPU field of \<open>p\<close>.\<close>

lemma sched_step_queue:
  "lq_local id (cpu_of s) p (iorr_queue s) L \<Longrightarrow> sched_step p s (s\<lparr>iorr_queue := L\<rparr>)"
  "lq_local id (cpu_of s) p (bvt_queue s) L \<Longrightarrow> sched_step p s (s\<lparr>bvt_queue := L\<rparr>)"
  "lq_local id (cpu_of s) p (prio_queue s) L \<Longrightarrow> sched_step p s (s\<lparr>prio_queue := L\<rparr>)"
  "lq_local rtds_cpu (cpu_of s) p (rtds_queues s) M \<Longrightarrow> sched_step p s (s\<lparr>rtds_queues := M\<rparr>)"
  by (auto simp: sched_step_def private_local_def public_eq_def)

lemma sched_step_svt: "sched_step p s (s\<lparr>bvt_svt := (bvt_svt s)(p := v)\<rparr>)"
  by (auto simp: sched_step_def private_local_def public_eq_def)

text \<open>A timer operation changes nothing of the scheduler's part.\<close>

lemma sched_step_timer:
  assumes "timer_env.more s' = timer_env.more (s :: hv)" and "tsc s' = tsc s" and "this_cpu s' = this_cpu s"
    and "tickrate s' = tickrate s" and "tsc_reads s \<le> tsc_reads s'" and "timers_wf s \<Longrightarrow> timers_wf s'"
  shows "sched_step p s s'"
  using assms hv_more_eq [OF assms(1)]
  by (auto simp: sched_step_def private_local_def public_eq_def)

lemma sched_step_del_timer: "sched_step p s (del_timer tr s)"
  by (rule sched_step_timer) (simp_all add: timers_wf_del_timer)

lemma sched_step_update_timer: "node (hv_timers s t) = None \<Longrightarrow> sched_step p s (update_timer (Some t) c d s)"
  by (rule sched_step_timer) (auto intro: timers_wf_update_timer)

lemma sched_step_add_timer: "node (hv_timers s t) = None \<Longrightarrow> sched_step p s (snd (add_timer (Some t) s))"
  by (rule sched_step_timer) (auto intro: timers_wf_add_timer tsc_reads_add_timer)

section \<open>The invariant of one CPU\<close>

text \<open>
  A thread is ready when it should be running or waiting for the CPU: a running thread that has
  been asked to block is not. \<open>registered\<close> is the node test of \<^verbatim>\<open>register_thread_object\<close>.
\<close>

definition ready :: "hv \<Rightarrow> pcpu \<Rightarrow> tid set" where
  "ready s p = {t. cpu_of s t = p \<and> t \<noteq> Idle p \<and>
     (status (threads s t) = THREAD_STS_RUNNABLE \<or>
      status (threads s t) = THREAD_STS_RUNNING \<and> \<not> be_blocking (threads s t))}"

definition registered :: "hv \<Rightarrow> tid \<Rightarrow> bool" where
  "registered s t \<longleftrightarrow> nxt (thread_heap s) (TNode t) \<noteq> TNode t"

definition cpu_ok :: "hv \<Rightarrow> pcpu \<Rightarrow> bool" where
  "cpu_ok s p \<longleftrightarrow> cpu_of s (Idle p) = p \<and>
     (\<exists>c. curr_obj (ctl s p) = Some c \<and> cpu_of s c = p) \<and>
     (\<forall>t. cpu_of s t = p \<longrightarrow>
        (status (threads s t) = THREAD_STS_RUNNING \<longleftrightarrow> curr_obj (ctl s p) = Some t) \<and>
        (be_blocking (threads s t) \<longrightarrow> status (threads s t) = THREAD_STS_RUNNING \<and> t \<noteq> Idle p) \<and>
        (status (threads s t) \<noteq> THREAD_STS_BLOCKED \<longrightarrow> registered s t))"

text \<open>
  The counter does not run backwards and stays below \<open>2 ^ 63\<close>: centuries at any real tick rate.
\<close>

definition clock_ok :: "'z clock_env_scheme \<Rightarrow> bool" where
  "clock_ok s \<longleftrightarrow> (\<forall>m n. m \<le> n \<longrightarrow> tsc s m \<le> tsc s n) \<and> (\<forall>n. unat (tsc s n) < 2 ^ 63)"

definition private_eq :: "hv \<Rightarrow> hv \<Rightarrow> bool" where
  "private_eq s s' \<longleftrightarrow> (\<forall>t. data (threads s' t) = data (threads s t) \<and> cpu_of s' t = cpu_of s t) \<and>
     iorr_queue s' = iorr_queue s \<and> bvt_queue s' = bvt_queue s \<and> bvt_svt s' = bvt_svt s \<and>
     rtds_queues s' = rtds_queues s \<and> prio_queue s' = prio_queue s \<and>
     noop_thread_obj s' = noop_thread_obj s \<and> tsc s' = tsc s \<and> tickrate s' = tickrate s"

definition waiting_current :: "bool \<Rightarrow> hv \<Rightarrow> pcpu \<Rightarrow> tid set" where
  "waiting_current holds s p = (if holds then {} else {t. curr_obj (ctl s p) = Some t \<and> t \<in> ready s p})"

definition sched_inv ::
  "(hv \<Rightarrow> pcpu \<Rightarrow> tid set) \<Rightarrow> (hv \<Rightarrow> pcpu \<Rightarrow> bool) \<Rightarrow> (hv \<Rightarrow> tid \<Rightarrow> bool) \<Rightarrow> bool \<Rightarrow> hv \<Rightarrow> pcpu \<Rightarrow> bool" where
  "sched_inv members qinv prep holds s p \<longleftrightarrow>
     cpu_ok s p \<and> qinv s p \<and> members s p \<subseteq> ready s p \<and>
     ready s p \<subseteq> members s p \<union> waiting_current holds s p \<and>
     (\<forall>t. cpu_of s t = p \<and> t \<noteq> Idle p \<and> registered s t \<longrightarrow> sched_ctl (threads s t) = p \<and> prep s t)"

text \<open>A timer callback may besides count and raise a request in the control block of its CPU.\<close>

definition tick_step :: "pcpu \<Rightarrow> hv \<Rightarrow> hv \<Rightarrow> bool" where
  "tick_step p s s' \<longleftrightarrow> sched_step p (s\<lparr>ctl := ctl s', trace := trace s'\<rparr>) s' \<and>
     (\<forall>q. curr_obj (ctl s' q) = curr_obj (ctl s q) \<and> scheduler (ctl s' q) = scheduler (ctl s q)) \<and>
     (\<forall>q. q \<noteq> p \<longrightarrow> ctl s' q = ctl s q)"

lemma sched_step_cover:
  "sched_step p s s' \<Longrightarrow> sched_step p (s\<lparr>ctl := c, trace := e\<rparr>) (s'\<lparr>ctl := c, trace := e\<rparr>)"
  by (simp add: sched_step_def public_eq_def private_local_def)

lemma tick_step_sched_step: "sched_step p s s' \<Longrightarrow> tick_step p s s'"
  using public_eq_rest [OF sched_step_public] by (simp add: tick_step_def)

lemma tick_step_trans:
  assumes "tick_step p s s'" and "tick_step p s' s''"
  shows "tick_step p s s''"
proof -
  have "sched_step p (s\<lparr>ctl := ctl s'', trace := trace s''\<rparr>) (s'\<lparr>ctl := ctl s'', trace := trace s''\<rparr>)"
    using sched_step_cover [of p "s\<lparr>ctl := ctl s', trace := trace s'\<rparr>" s', where c = "ctl s''" and e = "trace s''"]
      assms(1) by (simp add: tick_step_def)
  then show ?thesis using assms sched_step_trans by (auto simp: tick_step_def)
qed

lemma tick_step_upd_ctl:
  assumes "\<And>c. curr_obj (f c) = curr_obj c \<and> scheduler (f c) = scheduler c"
  shows "tick_step p s (upd_ctl p f s)"
  using assms by (auto simp: tick_step_def sched_step_def public_eq_def private_local_def)

lemma tick_step_account: "tick_step p s (sched_account_tick p s)"
  unfolding sched_account_tick_def by (rule tick_step_upd_ctl) simp

lemma tick_step_emit: "tick_step p s (emit e s)"
  by (auto simp: tick_step_def sched_step_def public_eq_def private_local_def)

lemma tick_step_request: "tick_step p s (make_reschedule_request p s)"
  unfolding make_reschedule_request_def Let_def
  by (auto intro!: tick_step_trans [OF tick_step_trans [OF tick_step_upd_ctl tick_step_upd_ctl] tick_step_emit]
      tick_step_trans [OF tick_step_upd_ctl tick_step_upd_ctl])

lemma tick_step_thread:
  assumes "tick_step p s s'"
  shows "pcpu_id (threads s' t) = pcpu_id (threads s t)" "sched_ctl (threads s' t) = sched_ctl (threads s t)"
    "status (threads s' t) = status (threads s t)" "be_blocking (threads s' t) = be_blocking (threads s t)"
    "priority_pending (threads s' t) = priority_pending (threads s t)"
  using public_eq_thread [of "s\<lparr>ctl := ctl s', trace := trace s'\<rparr>" s'] assms
  by (simp_all add: tick_step_def sched_step_def)

lemma private_eq_request [simp]:
  "private_eq s (make_reschedule_request p s)" "private_eq s (sched_account_tick p s)"
  by (simp_all add: make_reschedule_request_def sched_account_tick_def private_eq_def Let_def)

lemma sched_step_other_queue:
  assumes "sched_step p s s'" and "q \<noteq> p" and "lq_local own (cpu_of s) p L L'" and "lq_home own (cpu_of s) q L"
  shows "lq_home own (cpu_of s') q L'" and "lq_members own q L' = lq_members own q L"
    and "own r = q \<Longrightarrow> elems L' r = elems L r"
    and "own r = q \<Longrightarrow> t \<in> set (elems L r) \<Longrightarrow> data (threads s' t) = data (threads s t)"
proof -
  have c: "cpu_of s' = cpu_of s"
    using public_eq_thread(1) [OF sched_step_public [OF assms(1)]] by (simp add: fun_eq_iff)
  show "lq_home own (cpu_of s') q L'" "lq_members own q L' = lq_members own q L"
    using lq_home_local [OF assms(3,2,4)] c by auto
  show "elems L' r = elems L r" if "own r = q" using assms(2,3) that by (simp add: lq_local_def)
  show "data (threads s' t) = data (threads s t)" if "own r = q" "t \<in> set (elems L r)"
    using assms(1,2) lq_homeD(2) [OF assms(4) that] by (auto simp: sched_step_def private_local_def)
qed

section \<open>The contract\<close>

text \<open>
  \<open>members s p\<close> are the threads queued for CPU \<open>p\<close>; \<open>qinv\<close> is the scheduler's own invariant and
  \<open>prep\<close> says that the private data of a thread has been set up. \<open>holds\<close> distinguishes the
  schedulers that leave the running thread in the queue from those that take it out. \<open>tick\<close> is
  the scheduler's timer callback; \<open>None\<close> would mean that it does not return.
\<close>

locale sched_class =
  fixes ops :: acrn_scheduler
    and members :: "hv \<Rightarrow> pcpu \<Rightarrow> tid set"
    and qinv :: "hv \<Rightarrow> pcpu \<Rightarrow> bool"
    and prep :: "hv \<Rightarrow> tid \<Rightarrow> bool"
    and holds :: bool
    and tick :: "pcpu \<Rightarrow> hv \<Rightarrow> hv option"
  assumes frame: "private_eq s s' \<Longrightarrow> qinv s p \<Longrightarrow> qinv s' p \<and> members s' p = members s p"
    and prep_frame: "private_eq s s' \<Longrightarrow> prep s t \<Longrightarrow> prep s' t"
    and other: "sched_step p s s' \<Longrightarrow> q \<noteq> p \<Longrightarrow> qinv s q \<Longrightarrow> qinv s' q \<and> members s' q = members s q"
    and prep_other: "sched_step p s s' \<Longrightarrow> cpu_of s t \<noteq> p \<Longrightarrow> prep s t \<Longrightarrow> prep s' t"
    and wake_law: "\<lbrakk>qinv s p; cpu_of s t = p; sched_ctl (threads s t) = p; t \<noteq> Idle p; prep s t; t \<notin> members s p\<rbrakk> \<Longrightarrow>
      \<exists>f. wake ops = Some f \<and> sched_step p s (f t s) \<and> qinv (f t s) p \<and>
        members (f t s) p = insert t (members s p) \<and> (\<forall>u. prep s u \<longrightarrow> prep (f t s) u)"
    and sleep_law: "\<lbrakk>qinv s p; cpu_of s t = p; sched_ctl (threads s t) = p; t \<noteq> Idle p\<rbrakk> \<Longrightarrow>
      \<exists>f. sleep ops = Some f \<and> sched_step p s (f t s) \<and> qinv (f t s) p \<and>
        members (f t s) p = members s p - {t} \<and> (\<forall>u. prep s u \<longrightarrow> prep (f t s) u)"
    and prioritize_law: "\<lbrakk>sched_inv members qinv prep holds s p; clock_ok s; t \<in> ready s p;
        prioritize ops = Some f\<rbrakk> \<Longrightarrow>
      sched_step p s (f t s) \<and> qinv (f t s) p \<and> members (f t s) p = members s p \<and>
        (\<forall>u. prep s u \<longrightarrow> prep (f t s) u)"
    and pick_law: "\<lbrakk>sched_inv members qinv prep holds s p; clock_ok s; this_cpu s = p\<rbrakk> \<Longrightarrow>
      \<exists>f n s'. pick_next ops = Some f \<and> f p s = Some (n, s') \<and> sched_step p s s' \<and> qinv s' p \<and>
        (\<forall>u. prep s u \<longrightarrow> prep s' u) \<and>
        (let A = members s p \<union> waiting_current holds s p in
          (if A = {} then n = Idle p else n \<in> A) \<and> members s' p = A - (if holds then {} else {n}))"
    and tick_law: "\<lbrakk>sched_inv members qinv prep holds s p; clock_ok s; this_cpu s = p\<rbrakk> \<Longrightarrow>
      \<exists>s'. tick p s = Some s' \<and> tick_step p s s' \<and> qinv s' p \<and> (\<forall>u. prep s u \<longrightarrow> prep s' u) \<and>
        members s p \<subseteq> members s' p \<and> members s' p \<subseteq> members s p \<union> waiting_current holds s p"
    and init_data_law: "\<lbrakk>qinv s p; cpu_of s t = p; t \<notin> members s p; tickrate s \<noteq> 0\<rbrakk> \<Longrightarrow>
      \<exists>f. init_data ops = Some f \<and> sched_step p s (f t params s) \<and> qinv (f t params s) p \<and>
        members (f t params s) p = members s p \<and> prep (f t params s) t \<and> (\<forall>u. prep s u \<longrightarrow> prep (f t params s) u)"

section \<open>Shared facts\<close>

lemma ready_public: "public_eq s s' \<Longrightarrow> ready s' p = ready s p"
  by (simp add: ready_def public_eq_thread)

lemma registered_public: "public_eq s s' \<Longrightarrow> registered s' t = registered s t"
  by (simp add: registered_def public_eq_rest)

lemma cpu_ok_public: "public_eq s s' \<Longrightarrow> cpu_ok s' p = cpu_ok s p"
  by (simp add: cpu_ok_def public_eq_thread public_eq_rest registered_public)

lemma waiting_current_public: "public_eq s s' \<Longrightarrow> waiting_current h s' p = waiting_current h s p"
  by (simp add: waiting_current_def ready_public public_eq_rest)

lemma cpu_okD:
  assumes "cpu_ok s p"
  shows "cpu_of s (Idle p) = p" "\<exists>c. curr_obj (ctl s p) = Some c \<and> cpu_of s c = p"
    "cpu_of s t = p \<Longrightarrow> status (threads s t) = THREAD_STS_RUNNING \<longleftrightarrow> curr_obj (ctl s p) = Some t"
    "cpu_of s t = p \<Longrightarrow> be_blocking (threads s t) \<Longrightarrow> status (threads s t) = THREAD_STS_RUNNING \<and> t \<noteq> Idle p"
    "cpu_of s t = p \<Longrightarrow> status (threads s t) \<noteq> THREAD_STS_BLOCKED \<Longrightarrow> registered s t"
  using assms by (auto simp: cpu_ok_def)

lemma private_eq_refl [simp]: "private_eq s s"
  by (simp add: private_eq_def)

lemma private_eq_upd_ctl [simp]: "private_eq s (upd_ctl p f s)"
  by (simp add: private_eq_def)

lemma private_eq_emit [simp]: "private_eq s (emit e s)"
  by (simp add: private_eq_def)

lemma is_idle_on: "cpu_of s t = p \<Longrightarrow> is_idle_thread s t \<longleftrightarrow> t = Idle p"
  by (simp add: is_idle_thread_def)

lemma is_idle_public: "public_eq s s' \<Longrightarrow> is_idle_thread s' t = is_idle_thread s t"
  by (simp add: is_idle_thread_def public_eq_thread)

lemma clock_ok_public: "public_eq s s' \<Longrightarrow> clock_ok s' = clock_ok s"
  by (simp add: clock_ok_def public_eq_rest)

lemma sched_inv_current:
  assumes "sched_inv members qinv prep holds s p"
  obtains c where "curr_obj (ctl s p) = Some c" and "cpu_of s c = p"
    and "c \<noteq> Idle p \<Longrightarrow> sched_ctl (threads s c) = p \<and> prep s c"
proof -
  have ok: "cpu_ok s p" using assms by (simp add: sched_inv_def)
  obtain c where c: "curr_obj (ctl s p) = Some c" "cpu_of s c = p" using cpu_okD(2) [OF ok] by blast
  have "registered s c" using cpu_okD(3,5) [OF ok c(2)] c(1) by simp
  then have "c \<noteq> Idle p \<Longrightarrow> sched_ctl (threads s c) = p \<and> prep s c"
    using assms c(2) by (simp add: sched_inv_def)
  then show thesis using that c by blast
qed

lemma sched_inv_member:
  assumes "sched_inv members qinv prep holds s p" and "t \<in> ready s p"
  shows "cpu_of s t = p" and "t \<noteq> Idle p" and "sched_ctl (threads s t) = p" and "prep s t"
proof -
  show t: "cpu_of s t = p" "t \<noteq> Idle p" using assms(2) by (auto simp: ready_def)
  have "status (threads s t) \<noteq> THREAD_STS_BLOCKED" using assms(2) by (auto simp: ready_def)
  then have "registered s t" using assms(1) cpu_okD(5) [OF _ t(1)] by (simp add: sched_inv_def)
  then show "sched_ctl (threads s t) = p" "prep s t" using assms(1) t by (auto simp: sched_inv_def)
qed

text \<open>A positive tick rate makes a few milliseconds a positive number of ticks, far from wrapping.\<close>

lemma us_to_ticks_bounds:
  assumes "tickrate s \<noteq> 0" and "1000 \<le> unat us" and "unat us \<le> 4000"
  shows "unat (us_to_ticks s us) = (unat us * unat (tickrate s)) div 1000" and "0 < unat (us_to_ticks s us)"
    and "unat (us_to_ticks s us) < 2 ^ 35"
proof -
  have r: "0 < unat (tickrate s)" "unat (tickrate s) < 2 ^ 32"
    using assms(1) unsigned_less [of "tickrate s", where ?'a = nat] by (simp_all add: unat_gt_0)
  have b: "unat us * unat (tickrate s) \<le> 4000 * 2 ^ 32" by (rule mult_le_mono) (use assms(3) r in simp_all)
  then have "unat (ucast us :: u64) * unat (ucast (tickrate s) :: u64) < 2 ^ 64" by (simp add: unat_ucast_up)
  then show e: "unat (us_to_ticks s us) = (unat us * unat (tickrate s)) div 1000"
    using unat_mult_nowrap [of "ucast us :: u64" "ucast (tickrate s)"]
    by (simp add: us_to_ticks_def unat_div unat_ucast_up)
  have "1000 * 1 \<le> unat us * unat (tickrate s)" by (rule mult_le_mono) (use assms(2) r in simp_all)
  then show "0 < unat (us_to_ticks s us)" unfolding e by (simp add: div_greater_zero_iff)
  show "unat (us_to_ticks s us) < 2 ^ 35" unfolding e using b by (simp add: div_less_iff_less_mult)
qed

section \<open>A sample state\<close>

text \<open>
  CPU 0 with its idle thread, a running thread and a runnable thread, registered in this order and
  queued with each scheduler; the counter stands still at 1000.
\<close>

definition sample_thread :: "pcpu \<Rightarrow> thread_object_state \<Rightarrow> thread_object" where
  "sample_thread p st = \<lparr>pcpu_id = p, sched_ctl = p, status = st, be_blocking = False, priority_pending = False,
     switch_out = False, switch_in = False,
     data = \<lparr>bvt = \<lparr>mcu = 1000, weight = 64, vt_ratio = 16, warp_on = False, warp_value = 7, warp_limit = 3,
         unwarp_period = 0, warp_left = 0, last_unwarp_tsc = 0, avt = 0, evt = 0, residual = 0, start_tsc = 1000\<rparr>,
       rtds = \<lparr>period_ticks = 4000, budget_ticks = 2000, remaining_ticks = 2000, deadline_ticks = 4000,
         last_start_ticks = 0, queue = RTDS_QUEUE_NONE\<rparr>,
       iorr = \<lparr>slice_cycles = 100, last_cycles = 0, left_cycles = 100\<rparr>, prior = \<lparr>priority = 1\<rparr>\<rparr>,
     latency = \<lparr>switches = 0, last_wait_ticks = 0, max_wait_ticks = 0, state_since = 0, runnable_since = 0,
       runtime_ticks = 0\<rparr>\<rparr>"

definition sample_ctl :: "sched_name option \<Rightarrow> tid option \<Rightarrow> sched_control" where
  "sample_ctl n c = \<lparr>flags = 0, curr_obj = c, scheduler = n, scheduler_ticks = 0, context_switches = 0,
     reschedule_requests = 0\<rparr>"

definition sample_queue :: "'q \<Rightarrow> tid list \<Rightarrow> ('q, tid) lq" where
  "sample_queue q ts = \<lparr>place = (\<lambda>t. if t \<in> set ts then Some q else None), elems = (\<lambda>_. [])(q := ts)\<rparr>"

definition sample_threads_heap :: "tnode list_heap" where
  "sample_threads_heap = \<lparr>
     nxt = (\<lambda>x. x)(THead := TNode (Idle 0), TNode (Idle 0) := TNode (Thr 0), TNode (Thr 0) := TNode (Thr 1),
       TNode (Thr 1) := THead),
     prv = (\<lambda>x. x)(THead := TNode (Thr 1), TNode (Thr 1) := TNode (Thr 0), TNode (Thr 0) := TNode (Idle 0),
       TNode (Idle 0) := THead)\<rparr>"

definition sample_hv :: "sched_name \<Rightarrow> hv" where
  "sample_hv n = \<lparr>tsc = (\<lambda>_. 1000), tsc_reads = 0, tickrate = 1000, this_cpu = 0,
     hv_timers = (\<lambda>_. idle_timer)(BvtTick 0 := idle_timer\<lparr>func := Some BvtTickHandler\<rparr>,
       RtdsTick 0 := idle_timer\<lparr>func := Some RtdsTimerHandler\<rparr>),
     timer_list = (\<lambda>_. []), host_timer = (\<lambda>_. None),
     threads = (\<lambda>t. case t of Idle q \<Rightarrow> sample_thread q THREAD_STS_RUNNABLE | Thr n \<Rightarrow> sample_thread 1 THREAD_STS_BLOCKED)
       (Thr 0 := sample_thread 0 THREAD_STS_RUNNING, Thr 1 := data_update (rtds_update (queue_update (\<lambda>_. RTDS_QUEUE_READY))) (sample_thread 0 THREAD_STS_RUNNABLE)),
     ctl = (\<lambda>_. sample_ctl None None)(0 := sample_ctl (Some n) (Some (Thr 0))),
     noop_thread_obj = (\<lambda>_. None), iorr_queue = sample_queue 0 [Thr 0, Thr 1],
     bvt_queue = sample_queue 0 [Thr 0, Thr 1], bvt_svt = (\<lambda>_. 0),
     rtds_queues = sample_queue (Ready 0) [Thr 1], prio_queue = sample_queue 0 [Thr 0, Thr 1],
     thread_heap = sample_threads_heap, thread_count = 3, thread_list_initialized = True, trace = []\<rparr>"

lemma sample_thread_simps [simp]:
  "pcpu_id (sample_thread p st) = p" "sched_ctl (sample_thread p st) = p" "status (sample_thread p st) = st"
  "\<not> be_blocking (sample_thread p st)" "\<not> priority_pending (sample_thread p st)"
  by (simp_all add: sample_thread_def)

lemma sample_hv_threads:
  "threads (sample_hv n) = (\<lambda>t. case t of Idle q \<Rightarrow> sample_thread q THREAD_STS_RUNNABLE | Thr n \<Rightarrow> sample_thread 1 THREAD_STS_BLOCKED)
     (Thr 0 := sample_thread 0 THREAD_STS_RUNNING, Thr 1 := data_update (rtds_update (queue_update (\<lambda>_. RTDS_QUEUE_READY))) (sample_thread 0 THREAD_STS_RUNNABLE))"
  by (simp add: sample_hv_def)

lemma sample_on_cpu_0: "cpu_of (sample_hv n) t = 0 \<longleftrightarrow> t \<in> {Idle 0, Thr 0, Thr 1}"
  by (cases t) (auto simp: sample_hv_threads)

lemma sample_ready: "ready (sample_hv n) 0 = {Thr 0, Thr 1}"
  using sample_on_cpu_0 [of n] by (auto simp: ready_def sample_hv_threads)

lemma sample_cpu_ok: "cpu_ok (sample_hv n) 0"
proof -
  have "registered (sample_hv n) t" if "t \<in> {Idle 0, Thr 0, Thr 1}" for t
    using that by (auto simp: registered_def sample_hv_def sample_threads_heap_def)
  moreover have "status (threads (sample_hv n) t) = THREAD_STS_RUNNING \<longleftrightarrow> curr_obj (ctl (sample_hv n) 0) = Some t"
    "\<not> be_blocking (threads (sample_hv n) t)" if "t \<in> {Idle 0, Thr 0, Thr 1}" for t
    using that by (auto simp: sample_hv_def sample_ctl_def)
  moreover have "curr_obj (ctl (sample_hv n) 0) = Some (Thr 0)" by (simp add: sample_hv_def sample_ctl_def)
  ultimately show ?thesis unfolding cpu_ok_def using sample_on_cpu_0 [of n] by auto
qed

lemma sample_lq_home:
  assumes "own q = 0" and "distinct ts" and "set ts \<subseteq> {Idle 0, Thr 0, Thr 1}"
  shows "lq_home own (cpu_of (sample_hv n)) 0 (sample_queue q ts)"
proof -
  have "lq_ok (sample_queue q ts) r" for r
    using assms(2) by (simp add: lq_ok_def sample_queue_def)
  moreover have "cpu_of (sample_hv n) a = 0" if "a \<in> set (elems (sample_queue q ts) r)" for a r
  proof -
    have "a \<in> set ts" using that by (simp add: sample_queue_def split: if_splits)
    then show ?thesis using assms(3) sample_on_cpu_0 [of n a] by blast
  qed
  moreover have "own r = 0" if "place (sample_queue q ts) a = Some r" for a r
    using that assms(1) by (simp add: sample_queue_def split: if_splits)
  ultimately show ?thesis unfolding lq_home_def by blast
qed

lemma sample_lq_members: "own q = 0 \<Longrightarrow> lq_members own 0 (sample_queue q ts) = set ts"
  by (auto simp: lq_members_def sample_queue_def split: if_splits)

lemma sample_clock_ok: "clock_ok (sample_hv n)"
  by (simp add: clock_ok_def sample_hv_def)

lemma sample_sched_inv:
  assumes "qinv (sample_hv n) 0" and "members (sample_hv n) 0 \<union> (if holds then {} else {Thr 0}) = {Thr 0, Thr 1}"
    and "\<And>t. t \<in> {Thr 0, Thr 1} \<Longrightarrow> prep (sample_hv n) t"
  shows "sched_inv members qinv prep holds (sample_hv n) 0"
proof -
  have c: "curr_obj (ctl (sample_hv n) 0) = Some (Thr 0)" by (simp add: sample_hv_def sample_ctl_def)
  have w: "waiting_current holds (sample_hv n) 0 = (if holds then {} else {Thr 0})"
    using c by (auto simp: waiting_current_def sample_ready)
  have "sched_ctl (threads (sample_hv n) t) = 0 \<and> prep (sample_hv n) t"
    if "cpu_of (sample_hv n) t = 0" "t \<noteq> Idle 0" for t
  proof -
    have t: "t \<in> {Thr 0, Thr 1}" using that sample_on_cpu_0 [of n t] by blast
    then have "sched_ctl (threads (sample_hv n) t) = 0" by (auto simp: sample_hv_threads)
    then show ?thesis using assms(3) [OF t] by simp
  qed
  moreover have "members (sample_hv n) 0 \<subseteq> ready (sample_hv n) 0"
    "ready (sample_hv n) 0 \<subseteq> members (sample_hv n) 0 \<union> waiting_current holds (sample_hv n) 0"
    unfolding w sample_ready using assms(2) by blast+
  ultimately show ?thesis unfolding sched_inv_def using assms(1) sample_cpu_ok by blast
qed

end
