(* ===== verification/Sched_Noop.thy ===== *)
theory Sched_Noop
  imports Sched_Contract
begin

text \<open>
  The single-thread scheduler of \<^verbatim>\<open>core/sched_noop.c\<close>: each CPU has one slot, and the first thread
  woken while the slot is free owns the CPU until it sleeps.
\<close>

definition sched_noop_init :: "pcpu \<Rightarrow> hv \<Rightarrow> int \<times> hv" where
  "sched_noop_init p s = (0, s)"

definition sched_noop_pick_next :: "pcpu \<Rightarrow> hv \<Rightarrow> (tid \<times> hv) option" where
  "sched_noop_pick_next p s =
     Some (case noop_thread_obj s p of Some t \<Rightarrow> t | None \<Rightarrow> Idle (this_cpu s), s)"

definition sched_noop_sleep :: "tid \<Rightarrow> hv \<Rightarrow> hv" where
  "sched_noop_sleep t s =
     (let p = sched_ctl (threads s t)
      in if noop_thread_obj s p = Some t then s\<lparr>noop_thread_obj := (noop_thread_obj s)(p := None)\<rparr> else s)"

definition sched_noop_wake :: "tid \<Rightarrow> hv \<Rightarrow> hv" where
  "sched_noop_wake t s =
     (let p = sched_ctl (threads s t)
      in if noop_thread_obj s p = None then s\<lparr>noop_thread_obj := (noop_thread_obj s)(p := Some t)\<rparr> else s)"

definition sched_noop :: acrn_scheduler where
  "sched_noop = \<lparr>init = Some sched_noop_init, init_data = None,
     pick_next = Some sched_noop_pick_next, sleep = Some sched_noop_sleep, wake = Some sched_noop_wake,
     yield = None, prioritize = None, deinit_data = None, deinit = None, suspend = None, resume = None\<rparr>"

text \<open>
  The slot keeps its owner: until the owner itself sleeps, whatever other threads of the CPU are
  woken or put to sleep, the scheduler picks the owner. A thread woken meanwhile is not remembered.
\<close>

datatype noop_call = Wake tid | Sleep tid

fun noop_call_thread :: "noop_call \<Rightarrow> tid" where
  "noop_call_thread (Wake t) = t"
| "noop_call_thread (Sleep t) = t"

fun noop_do :: "noop_call \<Rightarrow> hv \<Rightarrow> hv" where
  "noop_do (Wake t) s = sched_noop_wake t s"
| "noop_do (Sleep t) s = sched_noop_sleep t s"

lemma noop_do_keeps_owner:
  assumes "noop_thread_obj s p = Some t" and "c \<noteq> Sleep t"
  shows "noop_thread_obj (noop_do c s) p = Some t" and "threads (noop_do c s) = threads s"
  using assms by (cases c; auto simp: sched_noop_wake_def sched_noop_sleep_def Let_def)+

lemma noop_owner_stable:
  assumes "noop_thread_obj s p = Some t" and "Sleep t \<notin> set cs"
  shows "sched_noop_pick_next p (fold noop_do cs s) = Some (t, fold noop_do cs s)"
proof -
  have "noop_thread_obj (fold noop_do cs s) p = Some t"
    using assms
  proof (induction cs arbitrary: s)
    case (Cons c cs)
    then have "noop_thread_obj (noop_do c s) p = Some t" by (intro noop_do_keeps_owner(1)) auto
    then show ?case using Cons by simp
  qed simp
  then show ?thesis by (simp add: sched_noop_pick_next_def)
qed

lemma noop_step: 
  assumes "sched_ctl (threads s t) = p"
  shows "sched_step p s (sched_noop_wake t s)" and "sched_step p s (sched_noop_sleep t s)"
  using assms by (auto simp: sched_noop_wake_def sched_noop_sleep_def Let_def sched_step_def
      private_local_def public_eq_def)

end
