(* ===== verification/Sched_Prio.thy ===== *)
theory Sched_Prio
  imports Sched_Contract
begin

text \<open>
  The fixed-priority scheduler of \<^verbatim>\<open>core/sched_prio.c\<close>: one queue per CPU, highest priority
  first, first come first served among equals. The running thread stays in the queue.
\<close>

section \<open>The scheduler\<close>

definition sched_prio_init :: "pcpu \<Rightarrow> hv \<Rightarrow> int \<times> hv" where
  "sched_prio_init p s = (0, s\<lparr>prio_queue := lq_init_head p (prio_queue s)\<rparr>)"

definition sched_prio_init_data :: "tid \<Rightarrow> sched_params \<Rightarrow> hv \<Rightarrow> hv" where
  "sched_prio_init_data t params s =
     (let s = s\<lparr>prio_queue := lq_init_node t (prio_queue s)\<rparr>
      in upd_thread t (data_update (prior_update (\<lambda>d. d\<lparr>priority := prio params\<rparr>))) s)"

definition sched_prio_pick_next :: "pcpu \<Rightarrow> hv \<Rightarrow> (tid \<times> hv) option" where
  "sched_prio_pick_next p s =
     Some (case elems (prio_queue s) p of t # _ \<Rightarrow> t | [] \<Rightarrow> Idle (this_cpu s), s)"

definition prio_key :: "hv \<Rightarrow> tid \<Rightarrow> int" where
  "prio_key s t = - sint (priority (prior (data (threads s t))))"

definition prio_stop :: "hv \<Rightarrow> tid \<Rightarrow> tid \<Rightarrow> bool" where
  "prio_stop s x y \<longleftrightarrow> priority (prior (data (threads s y))) <s priority (prior (data (threads s x)))"

definition prio_queue_add :: "tid \<Rightarrow> hv \<Rightarrow> hv" where
  "prio_queue_add t s =
     (let q = sched_ctl (threads s t); L = prio_queue s
      in if elems L q = [] then s\<lparr>prio_queue := lq_add q t L\<rparr>
         else s\<lparr>prio_queue := lq_insert (prio_stop s t) q t L\<rparr>)"

definition prio_queue_remove :: "tid \<Rightarrow> hv \<Rightarrow> hv" where
  "prio_queue_remove t s = s\<lparr>prio_queue := lq_del_init t (prio_queue s)\<rparr>"

definition sched_prio_sleep :: "tid \<Rightarrow> hv \<Rightarrow> hv" where
  "sched_prio_sleep t s = prio_queue_remove t s"

definition sched_prio_wake :: "tid \<Rightarrow> hv \<Rightarrow> hv" where
  "sched_prio_wake t s = prio_queue_add t s"

definition sched_prio :: acrn_scheduler where
  "sched_prio = \<lparr>init = Some sched_prio_init, init_data = Some sched_prio_init_data,
     pick_next = Some sched_prio_pick_next, sleep = Some sched_prio_sleep, wake = Some sched_prio_wake,
     yield = None, prioritize = None, deinit_data = None, deinit = None, suspend = None, resume = None\<rparr>"

section \<open>The queue is ordered by priority\<close>

interpretation pq: ordered_queue prio_key prio_stop
  by unfold_locales (auto simp: prio_key_def prio_stop_def word_sless_alt)

definition prio_inv :: "hv \<Rightarrow> pcpu \<Rightarrow> bool" where
  "prio_inv s p \<longleftrightarrow> lq_home id (cpu_of s) p (prio_queue s) \<and>
     sorted (map (prio_key s) (elems (prio_queue s) p))"

definition prio_members :: "hv \<Rightarrow> pcpu \<Rightarrow> tid set" where
  "prio_members s p = lq_members id p (prio_queue s)"

lemma prio_queue_add_insert:
  "prio_queue_add t s = s\<lparr>prio_queue := lq_insert (prio_stop s t) (sched_ctl (threads s t)) t (prio_queue s)\<rparr>"
  by (cases "elems (prio_queue s) (sched_ctl (threads s t))")
    (simp_all add: prio_queue_add_def lq_add_def lq_insert_def Let_def)

lemma prio_key_queue [simp]: "prio_key (s\<lparr>prio_queue := L\<rparr>) = prio_key s"
  by (simp add: fun_eq_iff prio_key_def)

lemma prio_members_set: "prio_inv s p \<Longrightarrow> prio_members s p = set (elems (prio_queue s) p)"
  by (auto simp: prio_inv_def prio_members_def lq_members_eq)

lemma sched_prio_wake_ok:
  assumes "prio_inv s p" and "cpu_of s t = p" and "sched_ctl (threads s t) = p" and "t \<notin> prio_members s p"
  shows "sched_step p s (sched_prio_wake t s)" and "prio_inv (sched_prio_wake t s) p"
    and "prio_members (sched_prio_wake t s) p = insert t (prio_members s p)"
proof -
  have h: "lq_home id (cpu_of s) p (prio_queue s)" using assms(1) by (simp add: prio_inv_def)
  have n: "place (prio_queue s) t = None"
    using assms(4) lq_members_linked [OF h assms(2)] by (simp add: prio_members_def)
  have q: "id p = p" by simp
  note add = lq_local_adds(7-9) [where own = id, OF h assms(2) q n]
  show "sched_step p s (sched_prio_wake t s)"
    unfolding sched_prio_wake_def prio_queue_add_insert assms(3) by (rule sched_step_queue(3) [OF add(1)])
  show "prio_inv (sched_prio_wake t s) p"
    using add(2) assms(1,3) pq.sorted_insert
    by (simp add: sched_prio_wake_def prio_queue_add_insert prio_inv_def)
  show "prio_members (sched_prio_wake t s) p = insert t (prio_members s p)"
    using add(3) assms(3) by (simp add: sched_prio_wake_def prio_queue_add_insert prio_members_def)
qed

lemma sched_prio_sleep_ok:
  assumes "prio_inv s p" and "cpu_of s t = p"
  shows "sched_step p s (sched_prio_sleep t s)" and "prio_inv (sched_prio_sleep t s) p"
    and "prio_members (sched_prio_sleep t s) p = prio_members s p - {t}"
proof -
  have h: "lq_home id (cpu_of s) p (prio_queue s)" using assms(1) by (simp add: prio_inv_def)
  note del = lq_local_del_init [OF h assms(2)]
  show "sched_step p s (sched_prio_sleep t s)"
    using del(1) by (simp add: sched_prio_sleep_def prio_queue_remove_def sched_step_queue)
  show "prio_inv (sched_prio_sleep t s) p"
    using del(2) assms(1) pq.sorted_remove lq_homeD(1) [OF h, of p]
    by (simp add: sched_prio_sleep_def prio_queue_remove_def prio_inv_def elems_lq_del_init)
  show "prio_members (sched_prio_sleep t s) p = prio_members s p - {t}"
    using del(3) by (simp add: sched_prio_sleep_def prio_queue_remove_def prio_members_def)
qed

lemma prio_inv_frame:
  assumes "private_eq s s'" and "prio_inv s p"
  shows "prio_inv s' p \<and> prio_members s' p = prio_members s p"
proof -
  have "cpu_of s' = cpu_of s" "prio_key s' = prio_key s" "prio_queue s' = prio_queue s"
    using assms(1) by (auto simp: private_eq_def prio_key_def fun_eq_iff)
  then show ?thesis using assms(2) by (simp add: prio_inv_def prio_members_def)
qed

lemma prio_inv_other:
  assumes "sched_step p s s'" and "q \<noteq> p" and "prio_inv s q"
  shows "prio_inv s' q \<and> prio_members s' q = prio_members s q"
proof -
  have l: "lq_local id (cpu_of s) p (prio_queue s) (prio_queue s')"
    using assms(1) by (simp add: sched_step_def private_local_def)
  have h: "lq_home id (cpu_of s) q (prio_queue s)" using assms(3) by (simp add: prio_inv_def)
  note o = sched_step_other_queue [OF assms(1,2) l h]
  have "map (prio_key s') (elems (prio_queue s) q) = map (prio_key s) (elems (prio_queue s) q)"
    using o(4) [of q] by (simp add: prio_key_def)
  then show ?thesis using o(1-3) assms(3) unfolding prio_inv_def prio_members_def by (metis id_apply)
qed

lemma sched_prio_init_data_ok:
  assumes "prio_inv s p" and "cpu_of s t = p" and "t \<notin> prio_members s p"
  shows "sched_step p s (sched_prio_init_data t params s)" and "prio_inv (sched_prio_init_data t params s) p"
    and "prio_members (sched_prio_init_data t params s) p = prio_members s p"
proof -
  let ?f = "data_update (prior_update (\<lambda>d. d\<lparr>priority := prio params\<rparr>))"
  have h: "lq_home id (cpu_of s) p (prio_queue s)" using assms(1) by (simp add: prio_inv_def)
  have "place (prio_queue s) t = None"
    using assms(3) lq_members_linked [OF h assms(2)] by (simp add: prio_members_def)
  then have eq: "sched_prio_init_data t params s = upd_thread t ?f s"
    by (simp add: sched_prio_init_data_def lq_init_node_unlinked Let_def)
  have n: "t \<notin> set (elems (prio_queue s) p)" using assms(3) prio_members_set [OF assms(1)] by simp
  have "cpu_of (upd_thread t ?f s) = cpu_of s" by (auto simp: fun_eq_iff)
  moreover have "map (prio_key (upd_thread t ?f s)) (elems (prio_queue s) p) = map (prio_key s) (elems (prio_queue s) p)"
    using n by (auto simp: prio_key_def)
  ultimately show "prio_inv (sched_prio_init_data t params s) p"
    using assms(1) by (simp add: eq prio_inv_def del: map_eq_conv)
  show "sched_step p s (sched_prio_init_data t params s)" unfolding eq by (rule sched_step_upd_data [OF assms(2)])
  show "prio_members (sched_prio_init_data t params s) p = prio_members s p" by (simp add: eq prio_members_def)
qed

text \<open>The prepared data carry no condition and there is no timer: the tick does nothing.\<close>

interpretation prio_class: sched_class sched_prio prio_members prio_inv "\<lambda>_ _. True" True "\<lambda>_. Some"
proof (unfold_locales, goal_cases)
  case (1 s s' p)
  then show ?case by (rule prio_inv_frame)
next
  case (3 p s s' q)
  then show ?case by (rule prio_inv_other)
next
  case (5 s p t)
  then show ?case using sched_prio_wake_ok [of s p t] by (simp add: sched_prio_def)
next
  case (6 s p t)
  then show ?case using sched_prio_sleep_ok [of s p t] by (simp add: sched_prio_def)
next
  case (7 s p t f)
  then show ?case by (simp add: sched_prio_def)
next
  case (8 s p)
  then have "prio_inv s p" by (simp add: sched_inv_def)
  then show ?case
    using 8 by (auto simp: sched_prio_def sched_prio_pick_next_def prio_members_set waiting_current_def
        Let_def split: list.splits)
next
  case (9 s p)
  then show ?case by (auto simp: tick_step_def sched_inv_def waiting_current_def)
next
  case (10 s p t params)
  then show ?case using sched_prio_init_data_ok [OF 10(1-3)] by (simp add: sched_prio_def)
qed auto

end
