(* ===== verification/Sched_Iorr.thy ===== *)
theory Sched_Iorr
  imports Sched_Contract
begin

text \<open>
  The I/O-sensitive round-robin scheduler of \<^verbatim>\<open>core/sched_iorr.c\<close>: a woken thread goes to the head
  of the queue, the thread that was running goes to the tail, and a periodic tick charges the
  running thread's slice.
\<close>

section \<open>The scheduler\<close>

abbreviation CONFIG_SLICE_MS :: u64 where "CONFIG_SLICE_MS \<equiv> 10"

definition iorr_is_inqueue :: "hv \<Rightarrow> tid \<Rightarrow> bool" where
  "iorr_is_inqueue s t = lq_linked t (iorr_queue s)"

definition iorr_runqueue_add_head :: "tid \<Rightarrow> hv \<Rightarrow> hv" where
  "iorr_runqueue_add_head t s =
     (if \<not> iorr_is_inqueue s t then s\<lparr>iorr_queue := lq_add (sched_ctl (threads s t)) t (iorr_queue s)\<rparr> else s)"

definition iorr_runqueue_add_tail :: "tid \<Rightarrow> hv \<Rightarrow> hv" where
  "iorr_runqueue_add_tail t s =
     (if \<not> iorr_is_inqueue s t then s\<lparr>iorr_queue := lq_add_tail (sched_ctl (threads s t)) t (iorr_queue s)\<rparr> else s)"

definition iorr_runqueue_remove :: "tid \<Rightarrow> hv \<Rightarrow> hv" where
  "iorr_runqueue_remove t s = s\<lparr>iorr_queue := lq_del_init t (iorr_queue s)\<rparr>"

text \<open>\<^verbatim>\<open>left_cycles -= now - last_cycles\<close>\<close>

definition iorr_charge :: "u64 \<Rightarrow> sched_iorr_data \<Rightarrow> sched_iorr_data" where
  "iorr_charge now d = d\<lparr>left_cycles := left_cycles d - (now - last_cycles d)\<rparr>"

definition iorr_tick_handler :: "pcpu \<Rightarrow> hv \<Rightarrow> hv" where
  "iorr_tick_handler c s =
     (let p = this_cpu s;
          (now, s) = cpu_ticks s;
          s = sched_account_tick c s
      in case curr_obj (ctl s c) of None \<Rightarrow> s
         | Some current \<Rightarrow>
             if \<not> (is_idle_thread s current \<and> elems (iorr_queue s) c = []) then
               (let s = (if \<not> is_idle_thread s current
                         then upd_iorr current (\<lambda>d. (iorr_charge now d)\<lparr>last_cycles := now\<rparr>) s else s)
                in if is_idle_thread s current \<or> left_cycles (iorr_of s current) \<le>s 0
                   then make_reschedule_request p s else s)
             else s)"

definition sched_iorr_add_timer :: "pcpu \<Rightarrow> hv \<Rightarrow> int \<times> hv" where
  "sched_iorr_add_timer p s =
     (let tick_period = TICKS_PER_MS s;
          (now, s) = cpu_ticks s;
          s = initialize_timer (Some (IorrTick p)) (Some IorrTickHandler) p (now + tick_period) tick_period s;
          (r, s) = add_timer (Some (IorrTick p)) s
      in (if r < 0 then - 1 else 0, s))"

definition sched_iorr_del_timer :: "pcpu \<Rightarrow> hv \<Rightarrow> hv" where
  "sched_iorr_del_timer p s = del_timer (Some (IorrTick p)) s"

definition sched_iorr_init :: "pcpu \<Rightarrow> hv \<Rightarrow> int \<times> hv" where
  "sched_iorr_init p s = sched_iorr_add_timer p (s\<lparr>iorr_queue := lq_init_head p (iorr_queue s)\<rparr>)"

definition sched_iorr_deinit :: "pcpu \<Rightarrow> hv \<Rightarrow> hv" where
  "sched_iorr_deinit p s = sched_iorr_del_timer p s"

definition sched_iorr_suspend :: "pcpu \<Rightarrow> hv \<Rightarrow> hv" where
  "sched_iorr_suspend p s = sched_iorr_del_timer p s"

definition sched_iorr_resume :: "pcpu \<Rightarrow> hv \<Rightarrow> hv" where
  "sched_iorr_resume p s = snd (sched_iorr_add_timer p s)"

definition sched_iorr_init_data :: "tid \<Rightarrow> sched_params \<Rightarrow> hv \<Rightarrow> hv" where
  "sched_iorr_init_data t params s =
     (let s = s\<lparr>iorr_queue := lq_init_node t (iorr_queue s)\<rparr>;
          c = CONFIG_SLICE_MS * TICKS_PER_MS s
      in upd_iorr t (\<lambda>d. d\<lparr>slice_cycles := c, left_cycles := c\<rparr>) s)"

text \<open>The replenishing loop \<^verbatim>\<open>while (left_cycles <= 0) left_cycles += slice_cycles\<close>.\<close>

partial_function (option) iorr_replenish :: "u64 \<Rightarrow> i64 \<Rightarrow> i64 option" where
  "iorr_replenish sl left = (if left \<le>s 0 then iorr_replenish sl (left + sl) else Some left)"

text \<open>The running thread, unless it is idle or has left the queue, is charged and moved to the tail.\<close>

definition iorr_put_back :: "u64 \<Rightarrow> tid \<Rightarrow> hv \<Rightarrow> hv" where
  "iorr_put_back now current s =
     (if \<not> is_idle_thread s current \<and> iorr_is_inqueue s current then
        (let s = upd_iorr current (iorr_charge now) s;
             s = (if left_cycles (iorr_of s current) \<le>s 0
                  then upd_iorr current (\<lambda>d. d\<lparr>left_cycles := left_cycles d + slice_cycles d\<rparr>) s
                  else s);
             s = iorr_runqueue_remove current s
         in iorr_runqueue_add_tail current s)
      else s)"

definition sched_iorr_pick_next :: "pcpu \<Rightarrow> hv \<Rightarrow> (tid \<times> hv) option" where
  "sched_iorr_pick_next p s =
     (let (now, s) = cpu_ticks s
      in case curr_obj (ctl s p) of None \<Rightarrow> None
         | Some current \<Rightarrow>
             (let s = iorr_put_back now current s
              in case elems (iorr_queue s) p of
                   [] \<Rightarrow> Some (Idle (this_cpu s), s)
                 | t # _ \<Rightarrow>
                     map_option (\<lambda>v. (t, upd_iorr t (\<lambda>d. d\<lparr>last_cycles := now, left_cycles := v\<rparr>) s))
                       (iorr_replenish (slice_cycles (iorr_of s t)) (left_cycles (iorr_of s t)))))"

definition sched_iorr_sleep :: "tid \<Rightarrow> hv \<Rightarrow> hv" where
  "sched_iorr_sleep t s = iorr_runqueue_remove t s"

definition sched_iorr_wake :: "tid \<Rightarrow> hv \<Rightarrow> hv" where
  "sched_iorr_wake t s = iorr_runqueue_add_head t s"

definition sched_iorr :: acrn_scheduler where
  "sched_iorr = \<lparr>init = Some sched_iorr_init, init_data = Some sched_iorr_init_data,
     pick_next = Some sched_iorr_pick_next, sleep = Some sched_iorr_sleep, wake = Some sched_iorr_wake,
     yield = None, prioritize = None, deinit_data = None, deinit = Some sched_iorr_deinit,
     suspend = Some sched_iorr_suspend, resume = Some sched_iorr_resume\<rparr>"

section \<open>Replenishment ends with a positive slice\<close>

lemma iorr_replenish_ends:
  assumes "0 <s sl"
  shows "\<exists>v. iorr_replenish sl left = Some v \<and> 0 <s v"
proof (induction "nat (1 - sint left)" arbitrary: left rule: less_induct)
  case less
  show ?case
  proof (cases "left \<le>s 0")
    case False
    then show ?thesis by (subst iorr_replenish.simps) (simp add: word_sle_eq word_sless_alt)
  next
    case True
    have le: "sint left \<le> 0" and sl: "0 < sint sl"
      using True assms by (simp_all add: word_sle_eq word_sless_alt)
    have "sint (left + sl) = sint left + sint sl"
      using le sl sint_range_64 [of left] sint_range_64 [of sl] by (intro sint_add_nowrap) auto
    then have "nat (1 - sint (left + sl)) < nat (1 - sint left)" using le sl by auto
    from less [OF this] show ?thesis using True by (subst iorr_replenish.simps) simp
  qed
qed

section \<open>The contract holds\<close>

definition iorr_inv :: "hv \<Rightarrow> pcpu \<Rightarrow> bool" where
  "iorr_inv s p \<longleftrightarrow> lq_home id (cpu_of s) p (iorr_queue s)"

definition iorr_members :: "hv \<Rightarrow> pcpu \<Rightarrow> tid set" where
  "iorr_members s p = lq_members id p (iorr_queue s)"

definition iorr_prep :: "hv \<Rightarrow> tid \<Rightarrow> bool" where
  "iorr_prep s t \<longleftrightarrow> 0 <s slice_cycles (iorr_of s t)"

lemma iorr_members_set: "iorr_inv s p \<Longrightarrow> iorr_members s p = set (elems (iorr_queue s) p)"
  by (auto simp: iorr_inv_def iorr_members_def lq_members_eq)

lemma iorr_linked: "iorr_inv s p \<Longrightarrow> cpu_of s t = p \<Longrightarrow> iorr_is_inqueue s t \<longleftrightarrow> t \<in> iorr_members s p"
  by (simp add: iorr_inv_def iorr_members_def iorr_is_inqueue_def lq_linked_def lq_members_linked)

lemma iorr_charged_ok:
  assumes "iorr_inv s p" and "cpu_of s t = p" and "\<And>d. slice_cycles (f d) = slice_cycles d"
  shows "sched_step p s (upd_iorr t f s)" and "iorr_inv (upd_iorr t f s) p"
    and "iorr_members (upd_iorr t f s) p = iorr_members s p"
    and "iorr_prep s u \<Longrightarrow> iorr_prep (upd_iorr t f s) u"
proof -
  have "cpu_of (upd_iorr t f s) = cpu_of s" by (auto simp: fun_eq_iff)
  then show "iorr_inv (upd_iorr t f s) p" using assms(1) by (simp add: iorr_inv_def)
  show "sched_step p s (upd_iorr t f s)" by (rule sched_step_upd_data [OF assms(2)])
  show "iorr_members (upd_iorr t f s) p = iorr_members s p" by (simp add: iorr_members_def)
  show "iorr_prep (upd_iorr t f s) u" if "iorr_prep s u"
    using that by (cases "u = t") (simp_all add: iorr_prep_def assms(3))
qed

lemma iorr_runqueue_remove_ok:
  assumes "iorr_inv s p" and "cpu_of s t = p"
  shows "sched_step p s (iorr_runqueue_remove t s)" and "iorr_inv (iorr_runqueue_remove t s) p"
    and "iorr_members (iorr_runqueue_remove t s) p = iorr_members s p - {t}"
    and "threads (iorr_runqueue_remove t s) = threads s"
proof -
  have h: "lq_home id (cpu_of s) p (iorr_queue s)" using assms(1) by (simp add: iorr_inv_def)
  note del = lq_local_del_init [OF h assms(2)]
  show "sched_step p s (iorr_runqueue_remove t s)"
    unfolding iorr_runqueue_remove_def by (rule sched_step_queue(1) [OF del(1)])
  show "iorr_inv (iorr_runqueue_remove t s) p" "threads (iorr_runqueue_remove t s) = threads s"
    "iorr_members (iorr_runqueue_remove t s) p = iorr_members s p - {t}"
    using del(2,3) by (simp_all add: iorr_runqueue_remove_def iorr_inv_def iorr_members_def)
qed

lemma iorr_runqueue_add_ok:
  assumes "iorr_inv s p" and "cpu_of s t = p" and "sched_ctl (threads s t) = p" and "t \<notin> iorr_members s p"
    and "s' = iorr_runqueue_add_tail t s \<or> s' = iorr_runqueue_add_head t s"
  shows "sched_step p s s'" and "iorr_inv s' p" and "iorr_members s' p = insert t (iorr_members s p)"
    and "threads s' = threads s"
proof -
  have h: "lq_home id (cpu_of s) p (iorr_queue s)" using assms(1) by (simp add: iorr_inv_def)
  have n: "place (iorr_queue s) t = None"
    using assms(4) lq_members_linked [OF h assms(2)] by (simp add: iorr_members_def)
  have q: "id p = p" by simp
  note add = lq_local_adds(1-6) [where own = id, OF h assms(2) q n]
  have "iorr_runqueue_add_tail t s = s\<lparr>iorr_queue := lq_add_tail p t (iorr_queue s)\<rparr>"
    "iorr_runqueue_add_head t s = s\<lparr>iorr_queue := lq_add p t (iorr_queue s)\<rparr>"
    using assms(3) n
    by (simp_all add: iorr_runqueue_add_tail_def iorr_runqueue_add_head_def iorr_is_inqueue_def lq_linked_def)
  then obtain L where s': "s' = s\<lparr>iorr_queue := L\<rparr>" and l: "lq_local id (cpu_of s) p (iorr_queue s) L"
    "lq_home id (cpu_of s) p L" "lq_members id p L = insert t (lq_members id p (iorr_queue s))"
    using assms(5) add by metis
  show "sched_step p s s'" unfolding s' by (rule sched_step_queue(1) [OF l(1)])
  show "iorr_inv s' p" "iorr_members s' p = insert t (iorr_members s p)" "threads s' = threads s"
    using l(2,3) by (simp_all add: s' iorr_inv_def iorr_members_def)
qed

lemma iorr_put_back_ok:
  assumes "iorr_inv s p" and "cpu_of s t = p" and "t \<noteq> Idle p \<Longrightarrow> sched_ctl (threads s t) = p"
  shows "sched_step p s (iorr_put_back now t s)" and "iorr_inv (iorr_put_back now t s) p"
    and "iorr_members (iorr_put_back now t s) p = iorr_members s p"
    and "\<And>u. iorr_prep s u \<Longrightarrow> iorr_prep (iorr_put_back now t s) u"
proof -
  have "sched_step p s (iorr_put_back now t s) \<and> iorr_inv (iorr_put_back now t s) p \<and>
    iorr_members (iorr_put_back now t s) p = iorr_members s p \<and>
    (\<forall>u. iorr_prep s u \<longrightarrow> iorr_prep (iorr_put_back now t s) u)"
  proof (cases "t \<noteq> Idle p \<and> t \<in> iorr_members s p")
    case False
    then have "iorr_put_back now t s = s"
      using assms(1,2) by (auto simp: iorr_put_back_def is_idle_on iorr_linked)
    then show ?thesis using assms(1) by simp
  next
    case True
    define s1 where "s1 = upd_iorr t (iorr_charge now) s"
    define s2 where "s2 = (if left_cycles (iorr_of s1 t) \<le>s 0
      then upd_iorr t (\<lambda>d. d\<lparr>left_cycles := left_cycles d + slice_cycles d\<rparr>) s1 else s1)"
    define s3 where "s3 = iorr_runqueue_remove t s2"
    define s4 where "s4 = iorr_runqueue_add_tail t s3"
    have pb: "iorr_put_back now t s = s4"
      using True assms(1,2)
      by (simp add: iorr_put_back_def is_idle_on iorr_linked s1_def s2_def s3_def s4_def Let_def)
    have 1: "sched_step p s s1" "iorr_inv s1 p" "iorr_members s1 p = iorr_members s p"
      "\<And>u. iorr_prep s u \<Longrightarrow> iorr_prep s1 u" "cpu_of s1 t = p"
      unfolding s1_def using assms(2) iorr_charged_ok [OF assms(1,2), of "iorr_charge now"]
      by (simp_all add: iorr_charge_def)
    have 2: "sched_step p s1 s2" "iorr_inv s2 p" "iorr_members s2 p = iorr_members s p"
      "\<And>u. iorr_prep s u \<Longrightarrow> iorr_prep s2 u" "cpu_of s2 t = p"
      unfolding s2_def using 1 iorr_charged_ok [OF 1(2,5)] by auto
    have 3: "sched_step p s2 s3" "iorr_inv s3 p" "iorr_members s3 p = iorr_members s p - {t}" "threads s3 = threads s2"
      unfolding s3_def using 2 iorr_runqueue_remove_ok [OF 2(2,5)] by auto
    have "sched_ctl (threads s3 t) = sched_ctl (threads s t)" by (simp add: 3(4) s2_def s1_def)
    then have 4: "sched_step p s3 s4" "iorr_inv s4 p" "iorr_members s4 p = iorr_members s p" "threads s4 = threads s2"
      using iorr_runqueue_add_ok [OF 3(2), of t s4] 2(5) 3 True assms(3) by (auto simp: s4_def)
    have "sched_step p s s4" using 1(1) 2(1) 3(1) 4(1) sched_step_trans by blast
    moreover have "iorr_prep s4 u" if "iorr_prep s u" for u
      using 2(4) [OF that] 4(4) by (simp add: iorr_prep_def)
    ultimately show ?thesis using 4(2,3) pb by simp
  qed
  then show "sched_step p s (iorr_put_back now t s)" "iorr_inv (iorr_put_back now t s) p"
    "iorr_members (iorr_put_back now t s) p = iorr_members s p"
    "\<And>u. iorr_prep s u \<Longrightarrow> iorr_prep (iorr_put_back now t s) u" by auto
qed

lemma iorr_inv_frame:
  assumes "private_eq s s'" and "iorr_inv s p"
  shows "iorr_inv s' p \<and> iorr_members s' p = iorr_members s p"
proof -
  have "cpu_of s' = cpu_of s" "iorr_queue s' = iorr_queue s"
    using assms(1) by (auto simp: private_eq_def)
  then show ?thesis using assms(2) by (simp add: iorr_inv_def iorr_members_def)
qed

lemma iorr_inv_other:
  assumes "sched_step p s s'" and "q \<noteq> p" and "iorr_inv s q"
  shows "iorr_inv s' q \<and> iorr_members s' q = iorr_members s q"
proof -
  have l: "lq_local id (cpu_of s) p (iorr_queue s) (iorr_queue s')"
    using assms(1) by (simp add: sched_step_def private_local_def)
  show ?thesis
    using sched_step_other_queue(1,2) [OF assms(1,2) l] assms(3) by (simp add: iorr_inv_def iorr_members_def)
qed

lemma iorr_read_ok:
  assumes "iorr_inv s p"
  shows "iorr_inv (s\<lparr>tsc_reads := n\<rparr>) p" and "iorr_members (s\<lparr>tsc_reads := n\<rparr>) p = iorr_members s p"
  using assms by (simp_all add: iorr_inv_def iorr_members_def)

lemma sched_iorr_pick_next_ok:
  assumes "sched_inv iorr_members iorr_inv iorr_prep True s p" and "this_cpu s = p"
  shows "\<exists>n s'. sched_iorr_pick_next p s = Some (n, s') \<and> sched_step p s s' \<and> iorr_inv s' p \<and>
    (\<forall>u. iorr_prep s u \<longrightarrow> iorr_prep s' u) \<and>
    (if iorr_members s p = {} then n = Idle p else n \<in> iorr_members s p) \<and> iorr_members s' p = iorr_members s p"
proof -
  have inv: "iorr_inv s p" and sub: "iorr_members s p \<subseteq> ready s p" using assms(1) by (auto simp: sched_inv_def)
  obtain c where c: "curr_obj (ctl s p) = Some c" "cpu_of s c = p"
    "c \<noteq> Idle p \<Longrightarrow> sched_ctl (threads s c) = p" using sched_inv_current [OF assms(1)] by blast
  define s1 where "s1 = s\<lparr>tsc_reads := Suc (tsc_reads s)\<rparr>"
  define now where "now = tsc s (tsc_reads s)"
  define s2 where "s2 = iorr_put_back now c s1"
  have 1: "sched_step p s s1" "iorr_inv s1 p" "iorr_members s1 p = iorr_members s p"
    unfolding s1_def using inv by (auto intro: sched_step_read simp: iorr_read_ok)
  have "cpu_of s1 c = p" "c \<noteq> Idle p \<Longrightarrow> sched_ctl (threads s1 c) = p" using c by (simp_all add: s1_def)
  note pb = iorr_put_back_ok [where now = now, OF 1(2) this, folded s2_def]
  have 2: "sched_step p s s2" "iorr_inv s2 p" "iorr_members s2 p = iorr_members s p"
    using sched_step_trans [OF 1(1) pb(1)] pb(2,3) 1(3) by auto
  have prep: "iorr_prep s2 u" if "iorr_prep s u" for u
    using pb(4) [of u] that by (simp add: s1_def iorr_prep_def)
  have tc: "this_cpu s2 = p" using public_eq_rest(6) [OF sched_step_public [OF 2(1)]] assms(2) by simp
  have mem: "iorr_members s p = set (elems (iorr_queue s2) p)" using iorr_members_set [OF 2(2)] 2(3) by simp
  have pick: "sched_iorr_pick_next p s = (case elems (iorr_queue s2) p of
       [] \<Rightarrow> Some (Idle p, s2)
     | t # _ \<Rightarrow> map_option (\<lambda>v. (t, upd_iorr t (\<lambda>d. d\<lparr>last_cycles := now, left_cycles := v\<rparr>) s2))
         (iorr_replenish (slice_cycles (iorr_of s2 t)) (left_cycles (iorr_of s2 t))))"
  proof -
    have "iorr_put_back now c (s\<lparr>tsc_reads := Suc (tsc_reads s)\<rparr>) = s2" by (simp add: s1_def s2_def)
    then show ?thesis
      using c(1) tc by (cases "elems (iorr_queue s2) p")
        (simp_all add: sched_iorr_pick_next_def cpu_ticks_def Let_def flip: now_def)
  qed
  show ?thesis
  proof (cases "elems (iorr_queue s2) p")
    case Nil
    then show ?thesis using pick 2 prep mem by simp
  next
    case (Cons t ts)
    have t: "t \<in> iorr_members s p" using mem Cons by simp
    then have "iorr_prep s t" "cpu_of s t = p" using sub sched_inv_member [OF assms(1)] by auto
    then have "0 <s slice_cycles (iorr_of s2 t)" "cpu_of s2 t = p"
      using prep public_eq_thread(1) [OF sched_step_public [OF 2(1)]] by (auto simp: iorr_prep_def)
    then obtain v where v: "iorr_replenish (slice_cycles (iorr_of s2 t)) (left_cycles (iorr_of s2 t)) = Some v"
      using iorr_replenish_ends by blast
    note ch = iorr_charged_ok [OF 2(2) \<open>cpu_of s2 t = p\<close>, of "\<lambda>d. d\<lparr>last_cycles := now, left_cycles := v\<rparr>", simplified]
    show ?thesis using pick Cons v t ch 2 prep sched_step_trans [OF 2(1) ch(1)] by auto
  qed
qed

lemma iorr_tick_handler_ok:
  assumes "sched_inv iorr_members iorr_inv iorr_prep True s p" and "this_cpu s = p"
  shows "tick_step p s (iorr_tick_handler p s)" and "iorr_inv (iorr_tick_handler p s) p"
    and "iorr_members (iorr_tick_handler p s) p = iorr_members s p"
    and "iorr_prep s u \<Longrightarrow> iorr_prep (iorr_tick_handler p s) u"
proof -
  have inv: "iorr_inv s p" using assms(1) by (auto simp: sched_inv_def)
  obtain c where c: "curr_obj (ctl s p) = Some c" "cpu_of s c = p" using sched_inv_current [OF assms(1)] by blast
  define now where "now = tsc s (tsc_reads s)"
  define s1 where "s1 = sched_account_tick p (s\<lparr>tsc_reads := Suc (tsc_reads s)\<rparr>)"
  define s2 where "s2 = (if c \<noteq> Idle p then upd_iorr c (\<lambda>d. (iorr_charge now d)\<lparr>last_cycles := now\<rparr>) s1 else s1)"
  have th: "threads s1 = threads s" "iorr_queue s1 = iorr_queue s" "curr_obj (ctl s1 p) = Some c"
    using c(1) by (simp_all add: s1_def sched_account_tick_def)
  have 1: "tick_step p s s1"
    unfolding s1_def by (rule tick_step_trans [OF tick_step_sched_step [OF sched_step_read] tick_step_account])
  have i1: "iorr_inv s1 p" "iorr_members s1 p = iorr_members s p" "cpu_of s1 c = p"
    using inv c(2) by (simp_all add: iorr_inv_def iorr_members_def th)
  note ch = iorr_charged_ok [OF i1(1,3), of "\<lambda>d. (iorr_charge now d)\<lparr>last_cycles := now\<rparr>", simplified iorr_charge_def, simplified]
  have 2: "tick_step p s s2" "iorr_inv s2 p" "iorr_members s2 p = iorr_members s p" "iorr_prep s u \<Longrightarrow> iorr_prep s2 u"
    unfolding s2_def using 1 i1 tick_step_trans [OF 1 tick_step_sched_step [OF ch(1)]] ch(2,3) ch(4) [of u]
    by (auto simp: iorr_charge_def iorr_prep_def th)
  have cases: "iorr_tick_handler p s \<in> {s1, s2, make_reschedule_request p s2}"
    using c assms(2) by (auto simp: iorr_tick_handler_def cpu_ticks_def s1_def [symmetric] now_def [symmetric]
        s2_def th is_idle_thread_def Let_def)
  have 3: "tick_step p s (make_reschedule_request p s2)" "iorr_inv (make_reschedule_request p s2) p"
    "iorr_members (make_reschedule_request p s2) p = iorr_members s p"
    "iorr_prep s u \<Longrightarrow> iorr_prep (make_reschedule_request p s2) u"
    using tick_step_trans [OF 2(1) tick_step_request] iorr_inv_frame [OF private_eq_request(1) 2(2)] 2(3,4)
    by (auto simp: iorr_prep_def make_reschedule_request_def Let_def)
  have p1: "iorr_prep s u \<Longrightarrow> iorr_prep s1 u" by (simp add: iorr_prep_def th)
  show "tick_step p s (iorr_tick_handler p s)" "iorr_inv (iorr_tick_handler p s) p"
    "iorr_members (iorr_tick_handler p s) p = iorr_members s p"
    "iorr_prep s u \<Longrightarrow> iorr_prep (iorr_tick_handler p s) u"
    using cases 1 i1(1,2) p1 2 3 by auto
qed

lemma sched_iorr_init_data_ok:
  assumes "iorr_inv s p" and "cpu_of s t = p" and "t \<notin> iorr_members s p" and "tickrate s \<noteq> 0"
  shows "sched_step p s (sched_iorr_init_data t params s)" and "iorr_inv (sched_iorr_init_data t params s) p"
    and "iorr_members (sched_iorr_init_data t params s) p = iorr_members s p"
    and "iorr_prep (sched_iorr_init_data t params s) t"
    and "iorr_prep s u \<Longrightarrow> iorr_prep (sched_iorr_init_data t params s) u"
proof -
  define c where "c = CONFIG_SLICE_MS * TICKS_PER_MS s"
  have h: "lq_home id (cpu_of s) p (iorr_queue s)" using assms(1) by (simp add: iorr_inv_def)
  have "place (iorr_queue s) t = None"
    using assms(3) lq_members_linked [OF h assms(2)] by (simp add: iorr_members_def)
  then have eq: "sched_iorr_init_data t params s = upd_iorr t (\<lambda>d. d\<lparr>slice_cycles := c, left_cycles := c\<rparr>) s"
    by (simp add: sched_iorr_init_data_def lq_init_node_unlinked c_def TICKS_PER_MS_def us_to_ticks_def Let_def)
  have b: "0 < unat (TICKS_PER_MS s)" "unat (TICKS_PER_MS s) < 2 ^ 35"
    using us_to_ticks_bounds(2,3) [OF assms(4), of 1000] by (simp_all add: TICKS_PER_MS_def)
  have "unat c = 10 * unat (TICKS_PER_MS s)"
    using unat_mult_nowrap [of 10 "TICKS_PER_MS s"] b by (simp add: c_def)
  then have c: "0 < unat c" "unat c < 2 ^ 63" using b by simp_all
  have cp: "cpu_of (upd_iorr t f s) = cpu_of s" for f by (auto simp: fun_eq_iff)
  have pos: "0 <s c" using sint_unat_small [of c] c of_nat_0_less_iff [of "unat c", where ?'a = int]
    by (simp add: word_sless_alt)
  show "sched_step p s (sched_iorr_init_data t params s)" "iorr_inv (sched_iorr_init_data t params s) p"
    "iorr_members (sched_iorr_init_data t params s) p = iorr_members s p"
    unfolding eq using sched_step_upd_data [OF assms(2)] assms(1) cp by (auto simp: iorr_inv_def iorr_members_def)
  show "iorr_prep (sched_iorr_init_data t params s) t" "iorr_prep s u \<Longrightarrow> iorr_prep (sched_iorr_init_data t params s) u"
    using pos by (auto simp: eq iorr_prep_def)
qed

interpretation iorr_class: sched_class sched_iorr iorr_members iorr_inv iorr_prep True "\<lambda>p s. Some (iorr_tick_handler p s)"
proof (unfold_locales, goal_cases)
  case (1 s s' p)
  then show ?case by (rule iorr_inv_frame)
next
  case (2 s s' t)
  then show ?case by (simp add: private_eq_def iorr_prep_def)
next
  case (3 p s s' q)
  then show ?case by (rule iorr_inv_other)
next
  case (4 p s s' t)
  then show ?case by (simp add: sched_step_def private_local_def iorr_prep_def)
next
  case (5 s p t)
  then show ?case
    using iorr_runqueue_add_ok [of s p t "iorr_runqueue_add_head t s"]
    by (simp add: sched_iorr_def sched_iorr_wake_def iorr_prep_def)
next
  case (6 s p t)
  then show ?case
    using iorr_runqueue_remove_ok [of s p t]
    by (simp add: sched_iorr_def sched_iorr_sleep_def iorr_prep_def)
next
  case (7 s p t f)
  then show ?case by (simp add: sched_iorr_def)
next
  case (8 s p)
  then show ?case
    using sched_iorr_pick_next_ok [OF 8(1,3)] by (simp add: sched_iorr_def waiting_current_def Let_def)
next
  case (9 s p)
  then show ?case using iorr_tick_handler_ok [OF 9(1,3)] by auto
next
  case (10 s p t params)
  then show ?case using sched_iorr_init_data_ok [OF 10] by (simp add: sched_iorr_def)
qed

end
