(* ===== verification/Sched_Bvt.thy ===== *)
theory Sched_Bvt
  imports Sched_Contract
begin

text \<open>
  The borrowed-virtual-time scheduler of \<^verbatim>\<open>core/sched_bvt.c\<close>: proportional share by actual virtual
  time, ordered by effective virtual time, with a bounded warp for woken and event-targeted
  threads. The running thread stays in the queue.
\<close>

section \<open>The scheduler\<close>

abbreviation BVT_MCU_MS :: u64 where "BVT_MCU_MS \<equiv> 1"
abbreviation BVT_CSA_MCU :: u64 where "BVT_CSA_MCU \<equiv> 5"
abbreviation BVT_WEIGHT_MIN :: u8 where "BVT_WEIGHT_MIN \<equiv> 1"
abbreviation BVT_WEIGHT_MAX :: u8 where "BVT_WEIGHT_MAX \<equiv> 128"
abbreviation BVT_VT_RATIO_MAX :: u64 where "BVT_VT_RATIO_MAX \<equiv> 128 * 8 div 1"
abbreviation BVT_WARP_LIMIT_DEFAULT :: u32 where "BVT_WARP_LIMIT_DEFAULT \<equiv> 1"

definition bvt_is_inqueue :: "hv \<Rightarrow> tid \<Rightarrow> bool" where
  "bvt_is_inqueue s t = lq_linked t (bvt_queue s)"

definition update_evt :: "sched_bvt_data \<Rightarrow> sched_bvt_data" where
  "update_evt d =
     (let d = d\<lparr>evt := avt d\<rparr>
      in if warp_on d then d\<lparr>evt := evt d - scast (warp_value d)\<rparr> else d)"

definition bvt_can_warp :: "sched_bvt_data \<Rightarrow> u64 \<Rightarrow> bool" where
  "bvt_can_warp d now_tsc =
     (let can_warp = 0 <s warp_value d
      in if can_warp \<and> unwarp_period d \<noteq> 0 \<and> last_unwarp_tsc d \<noteq> 0
         then now_tsc - last_unwarp_tsc d \<ge> ucast (unwarp_period d) * mcu d
         else can_warp)"

text \<open>The scan test of \<^verbatim>\<open>runqueue_add\<close>: stop at the first thread with a later effective time.\<close>

definition bvt_stop :: "hv \<Rightarrow> tid \<Rightarrow> tid \<Rightarrow> bool" where
  "bvt_stop s x y \<longleftrightarrow> evt (bvt_of s x) <s evt (bvt_of s y)"

definition bvt_runqueue_add :: "tid \<Rightarrow> hv \<Rightarrow> hv" where
  "bvt_runqueue_add t s =
     (let q = sched_ctl (threads s t); L = bvt_queue s
      in if elems L q = [] then s\<lparr>bvt_queue := lq_add q t L\<rparr>
         else s\<lparr>bvt_queue := lq_insert (bvt_stop s t) q t L\<rparr>)"

definition bvt_runqueue_remove :: "tid \<Rightarrow> hv \<Rightarrow> hv" where
  "bvt_runqueue_remove t s = s\<lparr>bvt_queue := lq_del_init t (bvt_queue s)\<rparr>"

definition bvt_start_warp :: "tid \<Rightarrow> hv \<Rightarrow> hv" where
  "bvt_start_warp t s =
     (if warp_on (bvt_of s t) then s
      else (let (now, s) = cpu_ticks s
            in if bvt_can_warp (bvt_of s t) now then
                 (let s = upd_bvt t (\<lambda>d. update_evt (d\<lparr>warp_on := True,
                        warp_left := (if warp_limit d \<noteq> 0 then warp_limit d else BVT_WARP_LIMIT_DEFAULT)\<rparr>)) s
                  in if bvt_is_inqueue s t then bvt_runqueue_add t (bvt_runqueue_remove t s) else s)
               else s))"

definition bvt_update_warp_after_charge :: "sched_bvt_data \<Rightarrow> u64 \<Rightarrow> u64 \<Rightarrow> sched_bvt_data" where
  "bvt_update_warp_after_charge d charged_mcu now_tsc =
     (if \<not> warp_on d \<or> charged_mcu = 0 then d
      else if charged_mcu \<ge> ucast (warp_left d)
      then d\<lparr>warp_on := False, warp_left := 0, last_unwarp_tsc := now_tsc\<rparr>
      else d\<lparr>warp_left := warp_left d - ucast charged_mcu\<rparr>)"

definition update_svt :: "pcpu \<Rightarrow> hv \<Rightarrow> hv" where
  "update_svt p s =
     (case elems (bvt_queue s) p of [] \<Rightarrow> s
      | t # _ \<Rightarrow> s\<lparr>bvt_svt := (bvt_svt s)(p := avt (bvt_of s t))\<rparr>)"

definition get_svt :: "hv \<Rightarrow> tid \<Rightarrow> i64" where
  "get_svt s t = bvt_svt s (sched_ctl (threads s t))"

definition bvt_tick_handler :: "pcpu \<Rightarrow> hv \<Rightarrow> hv" where
  "bvt_tick_handler c s =
     (let p = this_cpu s;
          s = sched_account_tick c s
      in case curr_obj (ctl s c) of None \<Rightarrow> s
         | Some current \<Rightarrow>
             if \<not> is_idle_thread s current then make_reschedule_request p s
             else if elems (bvt_queue s) c \<noteq> [] then make_reschedule_request p s
             else s)"

definition sched_bvt_init :: "pcpu \<Rightarrow> hv \<Rightarrow> int \<times> hv" where
  "sched_bvt_init p s =
     (let s = s\<lparr>bvt_queue := lq_init_head p (bvt_queue s)\<rparr>
      in (0, initialize_timer (Some (BvtTick p)) (Some BvtTickHandler) p 0 0 s))"

definition sched_bvt_deinit :: "pcpu \<Rightarrow> hv \<Rightarrow> hv" where
  "sched_bvt_deinit p s = del_timer (Some (BvtTick p)) s"

definition bvt_clamp_weight :: "u8 \<Rightarrow> u8" where
  "bvt_clamp_weight w = max (min w BVT_WEIGHT_MAX) BVT_WEIGHT_MIN"

definition sched_bvt_init_data :: "tid \<Rightarrow> sched_params \<Rightarrow> hv \<Rightarrow> hv" where
  "sched_bvt_init_data t params s =
     (let s = s\<lparr>bvt_queue := lq_init_node t (bvt_queue s)\<rparr>;
          w = bvt_clamp_weight (bvt_weight params)
      in upd_bvt t (\<lambda>d. d\<lparr>mcu := BVT_MCU_MS * TICKS_PER_MS s, weight := w,
           warp_value := bvt_warp_value params, warp_limit := bvt_warp_limit params,
           unwarp_period := bvt_unwarp_period params, warp_on := False, warp_left := 0,
           last_unwarp_tsc := 0, vt_ratio := BVT_VT_RATIO_MAX div ucast w, residual := 0\<rparr>) s)"

definition sched_bvt_suspend :: "pcpu \<Rightarrow> hv \<Rightarrow> hv" where
  "sched_bvt_suspend p s = sched_bvt_deinit p s"

definition v2p :: "u64 \<Rightarrow> u64 \<Rightarrow> u64" where "v2p virt_time ratio = virt_time div ratio"
definition p2v :: "u64 \<Rightarrow> u64 \<Rightarrow> u64" where "p2v phy_time ratio = phy_time * ratio"

record sched_bvt_stats =
  bst_weight :: u8
  bst_vt_ratio :: u64
  bst_avt :: i64
  bst_evt :: i64

definition sched_bvt_snapshot :: "tid \<Rightarrow> hv \<Rightarrow> sched_bvt_stats \<times> hv" where
  "sched_bvt_snapshot t s =
     (let d = bvt_of s t;
          (now_tsc, s) = cpu_ticks s;
          st = \<lparr>bst_weight = weight d, bst_vt_ratio = vt_ratio d, bst_avt = avt d, bst_evt = evt d\<rparr>
      in if status (threads s t) = THREAD_STS_RUNNING \<and> \<not> is_idle_thread s t \<and> now_tsc > start_tsc d
         then (let v_delta = p2v (now_tsc - start_tsc d) (vt_ratio d) + residual d;
                   delta_mcu = v_delta div mcu d;
                   st = st\<lparr>bst_avt := bst_avt st + delta_mcu\<rparr>;
                   st = st\<lparr>bst_evt := bst_avt st\<rparr>
               in (if warp_on d then st\<lparr>bst_evt := bst_evt st - scast (warp_value d)\<rparr> else st, s))
         else (st, s))"

definition sched_get_bvt_stats :: "tid option \<Rightarrow> hv \<Rightarrow> sched_bvt_stats option \<times> hv" where
  "sched_get_bvt_stats tr s =
     (case tr of None \<Rightarrow> (None, s)
      | Some t \<Rightarrow>
          if scheduler (ctl s (sched_ctl (threads s t))) = Some SCHED_BVT
          then (let (st, s) = sched_bvt_snapshot t s in (Some st, s)) else (None, s))"

text \<open>The part of \<^verbatim>\<open>update_vt\<close> that works on the private data: charge, warp, effective time.\<close>

definition bvt_charge :: "u64 \<Rightarrow> sched_bvt_data \<Rightarrow> sched_bvt_data" where
  "bvt_charge now_tsc d =
     (let (d, delta_mcu) =
            (if now_tsc > start_tsc d
             then (let v_delta = p2v (now_tsc - start_tsc d) (vt_ratio d) + residual d
                   in (d\<lparr>residual := v_delta mod mcu d\<rparr>, v_delta div mcu d))
             else (d, 0));
          d = d\<lparr>avt := avt d + delta_mcu\<rparr>;
          d = bvt_update_warp_after_charge d delta_mcu now_tsc
      in update_evt d)"

definition update_vt :: "tid \<Rightarrow> hv \<Rightarrow> hv" where
  "update_vt t s =
     (let (now_tsc, s) = cpu_ticks s;
          s = upd_bvt t (bvt_charge now_tsc) s
      in if bvt_is_inqueue s t then bvt_runqueue_add t (bvt_runqueue_remove t s) else s)"

text \<open>How many charging units the first thread may run before it meets the second one.\<close>

definition bvt_run_countdown :: "hv \<Rightarrow> tid \<Rightarrow> tid list \<Rightarrow> u64" where
  "bvt_run_countdown s first rest =
     (case rest of [] \<Rightarrow> UINT64_MAX
      | sec # _ \<Rightarrow> v2p (evt (bvt_of s sec) - evt (bvt_of s first)) (vt_ratio (bvt_of s first)) + BVT_CSA_MCU)"

definition sched_bvt_pick_next :: "pcpu \<Rightarrow> hv \<Rightarrow> (tid \<times> hv) option" where
  "sched_bvt_pick_next p s =
     (case curr_obj (ctl s p) of None \<Rightarrow> None
      | Some current \<Rightarrow>
          (let (now_tsc, s) = cpu_ticks s;
               tick_period = BVT_MCU_MS * TICKS_PER_MS s;
               s = (if \<not> is_idle_thread s current then update_vt current s else s);
               s = update_svt p s;
               s = del_timer (Some (BvtTick p)) s
           in case elems (bvt_queue s) p of
                [] \<Rightarrow> Some (Idle (this_cpu s), s)
              | first # rest \<Rightarrow>
                  (let run_countdown = bvt_run_countdown s first rest;
                       s = upd_bvt first (\<lambda>d. d\<lparr>start_tsc := now_tsc\<rparr>) s
                   in if run_countdown \<noteq> UINT64_MAX
                      then (let (c, s) = cpu_ticks s;
                                s = update_timer (Some (BvtTick p)) (c + run_countdown * tick_period) 0 s;
                                (r, s) = add_timer (Some (BvtTick p)) s
                            in Some (first, s))
                      else Some (first, s))))"

definition sched_bvt_sleep :: "tid \<Rightarrow> hv \<Rightarrow> hv" where
  "sched_bvt_sleep t s = bvt_runqueue_remove t s"

definition sched_bvt_wake :: "tid \<Rightarrow> hv \<Rightarrow> hv" where
  "sched_bvt_wake t s =
     (let svt = get_svt s t;
          threshold = svt - BVT_CSA_MCU;
          s = upd_bvt t (\<lambda>d. d\<lparr>avt := (if threshold <s avt d then avt d else svt)\<rparr>) s;
          s = bvt_start_warp t s;
          s = upd_bvt t update_evt s
      in bvt_runqueue_add t s)"

definition sched_bvt_prioritize :: "tid \<Rightarrow> hv \<Rightarrow> hv" where
  "sched_bvt_prioritize t s = bvt_start_warp t s"

definition sched_bvt :: acrn_scheduler where
  "sched_bvt = \<lparr>init = Some sched_bvt_init, init_data = Some sched_bvt_init_data,
     pick_next = Some sched_bvt_pick_next, sleep = Some sched_bvt_sleep, wake = Some sched_bvt_wake,
     yield = None, prioritize = Some sched_bvt_prioritize, deinit_data = None,
     deinit = Some sched_bvt_deinit, suspend = Some sched_bvt_suspend, resume = None\<rparr>"

section \<open>The run queue is ordered by effective virtual time\<close>

definition bvt_key :: "hv \<Rightarrow> tid \<Rightarrow> int" where
  "bvt_key s t = sint (evt (bvt_of s t))"

interpretation bq: ordered_queue bvt_key bvt_stop
  by unfold_locales (auto simp: bvt_key_def bvt_stop_def word_sless_alt)

text \<open>The effective time is the actual time less the warp while a warp is active.\<close>

definition evt_ok :: "sched_bvt_data \<Rightarrow> bool" where
  "evt_ok d \<longleftrightarrow> evt d = (if warp_on d then avt d - scast (warp_value d) else avt d)"

definition bvt_inv :: "hv \<Rightarrow> pcpu \<Rightarrow> bool" where
  "bvt_inv s p \<longleftrightarrow> lq_home id (cpu_of s) p (bvt_queue s) \<and>
     sorted (map (bvt_key s) (elems (bvt_queue s) p)) \<and>
     (\<forall>t \<in> set (elems (bvt_queue s) p). evt_ok (bvt_of s t))"

definition bvt_members :: "hv \<Rightarrow> pcpu \<Rightarrow> tid set" where
  "bvt_members s p = lq_members id p (bvt_queue s)"

text \<open>
  The weight is in range, the virtual-time ratio is the one of the weight, and an active warp
  has charging units left, never more than its limit.
\<close>

definition bvt_data_ok :: "sched_bvt_data \<Rightarrow> bool" where
  "bvt_data_ok d \<longleftrightarrow> BVT_WEIGHT_MIN \<le> weight d \<and> weight d \<le> BVT_WEIGHT_MAX \<and>
     vt_ratio d = BVT_VT_RATIO_MAX div ucast (weight d) \<and>
     (warp_on d \<longrightarrow> 0 < warp_left d \<and> warp_left d \<le> max 1 (warp_limit d))"

definition bvt_prep :: "hv \<Rightarrow> tid \<Rightarrow> bool" where
  "bvt_prep s t \<longleftrightarrow> bvt_data_ok (bvt_of s t)"

definition bvt_keeps :: "(sched_bvt_data \<Rightarrow> sched_bvt_data) \<Rightarrow> bool" where
  "bvt_keeps f \<longleftrightarrow> (\<forall>d. bvt_data_ok d \<longrightarrow> bvt_data_ok (f d))"

lemma evt_ok_update_evt [simp]: "evt_ok (update_evt d)"
  by (simp add: evt_ok_def update_evt_def Let_def)

lemma evt_ok_bvt_charge [simp]: "evt_ok (bvt_charge now d)"
  by (simp add: bvt_charge_def case_prod_beta)

lemma bvt_data_ok_update_evt [simp]: "bvt_data_ok (update_evt d) = bvt_data_ok d"
  by (simp add: bvt_data_ok_def update_evt_def Let_def)

lemma bvt_data_ok_warp_after_charge:
  assumes "bvt_data_ok d"
  shows "bvt_data_ok (bvt_update_warp_after_charge d c now)"
proof (cases "warp_on d \<and> c \<noteq> 0 \<and> \<not> ucast (warp_left d) \<le> c")
  case True
  have lt: "unat c < unat (warp_left d)" using True by (simp add: word_le_nat_alt not_le unat_ucast_up)
  then have u: "unat (ucast c :: u32) = unat c"
    using unsigned_less [of "warp_left d", where ?'a = nat] by (intro unat_ucast_small) simp
  then have v: "unat (warp_left d - ucast c) = unat (warp_left d) - unat c"
    using lt by (intro trans [OF unat_sub_le]) (simp_all add: word_le_nat_alt)
  have "0 < warp_left d - ucast c" "warp_left d - ucast c \<le> warp_left d"
    using lt v by (simp_all add: word_less_nat_alt word_le_nat_alt)
  then show ?thesis using assms True
    by (auto simp: bvt_data_ok_def bvt_update_warp_after_charge_def intro: order_trans)
next
  case False
  then show ?thesis using assms by (auto simp: bvt_data_ok_def bvt_update_warp_after_charge_def)
qed

lemma bvt_data_ok_charge: "bvt_data_ok d \<Longrightarrow> bvt_data_ok (bvt_charge now d)"
  unfolding bvt_charge_def Let_def case_prod_beta bvt_data_ok_update_evt
  by (rule bvt_data_ok_warp_after_charge) (simp add: bvt_data_ok_def)

lemma bvt_runqueue_add_insert:
  "bvt_runqueue_add t s = s\<lparr>bvt_queue := lq_insert (bvt_stop s t) (sched_ctl (threads s t)) t (bvt_queue s)\<rparr>"
  by (cases "elems (bvt_queue s) (sched_ctl (threads s t))")
    (simp_all add: bvt_runqueue_add_def lq_add_def lq_insert_def Let_def)

lemma bvt_key_queue [simp]: "bvt_key (s\<lparr>bvt_queue := L\<rparr>) = bvt_key s"
  by (simp add: fun_eq_iff bvt_key_def)

lemma bvt_members_set: "bvt_inv s p \<Longrightarrow> bvt_members s p = set (elems (bvt_queue s) p)"
  by (auto simp: bvt_inv_def bvt_members_def lq_members_eq)

lemma bvt_linked: "bvt_inv s p \<Longrightarrow> cpu_of s t = p \<Longrightarrow> bvt_is_inqueue s t \<longleftrightarrow> t \<in> bvt_members s p"
  using lq_members_linked [of id "cpu_of s" p "bvt_queue s" t]
  by (simp add: bvt_inv_def bvt_members_def bvt_is_inqueue_def lq_linked_def)

lemma bvt_keeps_simps [simp]:
  "bvt_keeps (bvt_charge now)" "bvt_keeps update_evt"
  "bvt_keeps (\<lambda>d. update_evt (d\<lparr>warp_on := True, warp_left := (if warp_limit d \<noteq> 0 then warp_limit d else 1)\<rparr>))"
  "bvt_keeps (\<lambda>d. d\<lparr>avt := h d\<rparr>)" "bvt_keeps (\<lambda>d. d\<lparr>start_tsc := v\<rparr>)"
  by (auto simp: bvt_keeps_def bvt_data_ok_charge) (auto simp: bvt_data_ok_def word_neq_0_conv max_def)

lemma bvt_prep_upd:
  assumes "bvt_keeps f" and "bvt_prep s u"
  shows "bvt_prep (upd_bvt t f s) u"
  using assms by (cases "u = t") (simp_all add: bvt_prep_def bvt_keeps_def)

text \<open>Private data of an unlinked thread, or data other than the ordering key, may change in place.\<close>

lemma bvt_upd_in_place:
  assumes "bvt_inv s p" and "cpu_of s t = p"
    and "t \<notin> bvt_members s p \<or>
      evt (f (bvt_of s t)) = evt (bvt_of s t) \<and> (evt_ok (bvt_of s t) \<longrightarrow> evt_ok (f (bvt_of s t)))"
  shows "sched_step p s (upd_bvt t f s)" and "bvt_inv (upd_bvt t f s) p"
    and "bvt_members (upd_bvt t f s) p = bvt_members s p"
proof -
  have c: "cpu_of (upd_bvt t f s) = cpu_of s" by (auto simp: fun_eq_iff)
  have "map (bvt_key (upd_bvt t f s)) (elems (bvt_queue s) p) = map (bvt_key s) (elems (bvt_queue s) p)"
    using assms(3) bvt_members_set [OF assms(1)] by (auto simp: bvt_key_def)
  moreover have "\<forall>u \<in> set (elems (bvt_queue s) p). evt_ok (bvt_of (upd_bvt t f s) u)"
    using assms(1,3) bvt_members_set [OF assms(1)] by (auto simp: bvt_inv_def)
  ultimately show "bvt_inv (upd_bvt t f s) p" using assms(1) c by (simp add: bvt_inv_def del: map_eq_conv)
  show "sched_step p s (upd_bvt t f s)" by (rule sched_step_upd_data [OF assms(2)])
  show "bvt_members (upd_bvt t f s) p = bvt_members s p" by (simp add: bvt_members_def)
qed

lemma bvt_runqueue_remove_ok:
  assumes "bvt_inv s p" and "cpu_of s t = p"
  shows "sched_step p s (bvt_runqueue_remove t s)" and "bvt_inv (bvt_runqueue_remove t s) p"
    and "bvt_members (bvt_runqueue_remove t s) p = bvt_members s p - {t}"
    and "threads (bvt_runqueue_remove t s) = threads s"
proof -
  have h: "lq_home id (cpu_of s) p (bvt_queue s)" using assms(1) by (simp add: bvt_inv_def)
  note del = lq_local_del_init [OF h assms(2)]
  show "sched_step p s (bvt_runqueue_remove t s)"
    unfolding bvt_runqueue_remove_def by (rule sched_step_queue(2) [OF del(1)])
  show "bvt_inv (bvt_runqueue_remove t s) p"
    using del(2) assms(1) bq.sorted_remove lq_homeD(1) [OF h, of p] set_remove1_subset [of t "elems (bvt_queue s) p"]
    by (auto simp: bvt_runqueue_remove_def bvt_inv_def elems_lq_del_init)
  show "bvt_members (bvt_runqueue_remove t s) p = bvt_members s p - {t}"
    "threads (bvt_runqueue_remove t s) = threads s"
    using del(3) by (simp_all add: bvt_runqueue_remove_def bvt_members_def)
qed

lemma bvt_runqueue_add_ok:
  assumes "bvt_inv s p" and "cpu_of s t = p" and "sched_ctl (threads s t) = p" and "t \<notin> bvt_members s p"
    and "evt_ok (bvt_of s t)"
  shows "sched_step p s (bvt_runqueue_add t s)" and "bvt_inv (bvt_runqueue_add t s) p"
    and "bvt_members (bvt_runqueue_add t s) p = insert t (bvt_members s p)"
    and "threads (bvt_runqueue_add t s) = threads s"
proof -
  have h: "lq_home id (cpu_of s) p (bvt_queue s)" using assms(1) by (simp add: bvt_inv_def)
  have n: "place (bvt_queue s) t = None"
    using assms(4) lq_members_linked [OF h assms(2)] by (simp add: bvt_members_def)
  have q: "id p = p" by simp
  note add = lq_local_adds(7-9) [where own = id, OF h assms(2) q n]
  show "sched_step p s (bvt_runqueue_add t s)"
    unfolding bvt_runqueue_add_insert assms(3) by (rule sched_step_queue(2) [OF add(1)])
  show "bvt_inv (bvt_runqueue_add t s) p"
    using add(2) assms(1,3,5) bq.sorted_insert by (simp add: bvt_runqueue_add_insert bvt_inv_def)
  show "bvt_members (bvt_runqueue_add t s) p = insert t (bvt_members s p)"
    "threads (bvt_runqueue_add t s) = threads s"
    using add(3) assms(3) by (simp_all add: bvt_runqueue_add_insert bvt_members_def)
qed

text \<open>After a change of the effective time a linked thread is taken out and put back in order.\<close>

definition bvt_resort :: "tid \<Rightarrow> hv \<Rightarrow> hv" where
  "bvt_resort t s = (if bvt_is_inqueue s t then bvt_runqueue_add t (bvt_runqueue_remove t s) else s)"

lemma bvt_resort_ok:
  assumes "bvt_inv s p" and "cpu_of s t = p" and "sched_ctl (threads s t) = p" and "\<And>d. evt_ok (f d)"
  shows "sched_step p s (bvt_resort t (upd_bvt t f s))" and "bvt_inv (bvt_resort t (upd_bvt t f s)) p"
    and "bvt_members (bvt_resort t (upd_bvt t f s)) p = bvt_members s p"
    and "threads (bvt_resort t (upd_bvt t f s)) = threads (upd_bvt t f s)"
proof -
  let ?s1 = "upd_bvt t f s"
  have c: "cpu_of ?s1 t = p" "sched_ctl (threads ?s1 t) = p" using assms(2,3) by simp_all
  have q: "bvt_is_inqueue ?s1 t \<longleftrightarrow> t \<in> bvt_members s p"
    using bvt_linked [OF assms(1,2)] by (simp add: bvt_is_inqueue_def)
  have "sched_step p s (bvt_resort t ?s1) \<and> bvt_inv (bvt_resort t ?s1) p \<and>
    bvt_members (bvt_resort t ?s1) p = bvt_members s p \<and> threads (bvt_resort t ?s1) = threads ?s1"
  proof (cases "t \<in> bvt_members s p")
    case False
    then show ?thesis
      using bvt_upd_in_place [OF assms(1,2), of f] q by (simp add: bvt_resort_def)
  next
    case True
    have comm: "bvt_runqueue_remove t ?s1 = upd_bvt t f (bvt_runqueue_remove t s)"
      by (simp add: bvt_runqueue_remove_def upd_thread_def)
    note rm = bvt_runqueue_remove_ok [OF assms(1,2)]
    have c0: "cpu_of (bvt_runqueue_remove t s) t = p" using assms(2) rm(4) by simp
    note up = bvt_upd_in_place [OF rm(2) c0, of f, unfolded rm(3), simplified, folded comm]
    have cr: "cpu_of (bvt_runqueue_remove t ?s1) t = p" "sched_ctl (threads (bvt_runqueue_remove t ?s1) t) = p"
      using c by (simp_all add: bvt_runqueue_remove_def)
    have nm: "t \<notin> bvt_members (bvt_runqueue_remove t ?s1) p" using up(3) by simp
    have ev: "evt_ok (bvt_of (bvt_runqueue_remove t ?s1) t)" using assms(4) by (simp add: bvt_runqueue_remove_def)
    note ad = bvt_runqueue_add_ok [OF up(2) cr nm ev]
    have "threads (bvt_runqueue_remove t ?s1) = threads ?s1" by (simp add: bvt_runqueue_remove_def)
    then show ?thesis
      using sched_step_trans [OF sched_step_trans [OF rm(1) up(1)] ad(1)] ad(2-4) up(3) q True
      by (auto simp: bvt_resort_def)
  qed
  then show "sched_step p s (bvt_resort t ?s1)" "bvt_inv (bvt_resort t ?s1) p"
    "bvt_members (bvt_resort t ?s1) p = bvt_members s p" "threads (bvt_resort t ?s1) = threads ?s1"
    by auto
qed

section \<open>The contract holds\<close>

text \<open>One bundle for what every operation on a thread of \<open>p\<close> guarantees.\<close>

definition bvt_op_ok :: "pcpu \<Rightarrow> hv \<Rightarrow> hv \<Rightarrow> bool" where
  "bvt_op_ok p s s' \<longleftrightarrow> sched_step p s s' \<and> (bvt_inv s p \<longrightarrow> bvt_inv s' p) \<and>
     bvt_members s' p = bvt_members s p \<and> (\<forall>u. bvt_prep s u \<longrightarrow> bvt_prep s' u)"

lemma bvt_op_ok_refl [simp]: "bvt_op_ok p s s"
  by (simp add: bvt_op_ok_def)

lemma bvt_op_ok_trans: "bvt_op_ok p s s' \<Longrightarrow> bvt_op_ok p s' s'' \<Longrightarrow> bvt_op_ok p s s''"
  by (auto simp: bvt_op_ok_def intro: sched_step_trans)

lemma bvt_op_okD:
  assumes "bvt_op_ok p s s'"
  shows "sched_step p s s'" "bvt_inv s p \<Longrightarrow> bvt_inv s' p" "bvt_members s' p = bvt_members s p"
    "bvt_prep s u \<Longrightarrow> bvt_prep s' u" "cpu_of s' t = cpu_of s t" "sched_ctl (threads s' t) = sched_ctl (threads s t)"
    "this_cpu s' = this_cpu s" "ctl s' = ctl s"
  using assms public_eq_thread [OF sched_step_public] public_eq_rest [OF sched_step_public]
  by (auto simp: bvt_op_ok_def)

lemma bvt_op_timer:
  assumes "timer_env.more s' = timer_env.more (s :: hv)" and "tsc s' = tsc s" and "this_cpu s' = this_cpu s"
    and "tickrate s' = tickrate s" and "tsc_reads s \<le> tsc_reads s'" and "timers_wf s \<Longrightarrow> timers_wf s'"
  shows "bvt_op_ok p s s'"
proof -
  have "bvt_key s' = bvt_key s" using hv_more_eq(1) [OF assms(1)] by (simp add: fun_eq_iff bvt_key_def)
  then show ?thesis
    using hv_more_eq(1,5) [OF assms(1)] sched_step_timer [OF assms]
    by (simp add: bvt_op_ok_def bvt_inv_def bvt_members_def bvt_prep_def)
qed

lemma bvt_op_read: "bvt_op_ok p s (s\<lparr>tsc_reads := Suc (tsc_reads s)\<rparr>)"
  by (rule bvt_op_timer) simp_all

lemma bvt_op_resort:
  assumes "bvt_inv s p" and "cpu_of s t = p" and "sched_ctl (threads s t) = p" and "bvt_keeps f"
    and "\<And>d. evt_ok (f d)"
  shows "bvt_op_ok p s (bvt_resort t (upd_bvt t f s))"
proof -
  note r = bvt_resort_ok [OF assms(1-3,5)]
  have "bvt_prep (bvt_resort t (upd_bvt t f s)) u" if "bvt_prep s u" for u
    using bvt_prep_upd [OF assms(4) that, of t] r(4) by (simp add: bvt_prep_def)
  then show ?thesis using r by (simp add: bvt_op_ok_def)
qed

lemma bvt_start_warp_ok:
  assumes "bvt_inv s p" and "cpu_of s t = p" and "sched_ctl (threads s t) = p"
  shows "bvt_op_ok p s (bvt_start_warp t s)"
proof -
  let ?s1 = "s\<lparr>tsc_reads := Suc (tsc_reads s)\<rparr>"
  let ?f = "\<lambda>d. update_evt (d\<lparr>warp_on := True, warp_left := (if warp_limit d \<noteq> 0 then warp_limit d else BVT_WARP_LIMIT_DEFAULT)\<rparr>)"
  note rd = bvt_op_read [of p s]
  have "bvt_op_ok p ?s1 (bvt_resort t (upd_bvt t ?f ?s1))"
    by (rule bvt_op_resort) (use bvt_op_okD(2) [OF rd assms(1)] assms(2,3) in auto)
  then have "bvt_op_ok p s (bvt_resort t (upd_bvt t ?f ?s1))" by (rule bvt_op_ok_trans [OF rd])
  moreover have "bvt_start_warp t s \<in> {s, ?s1, bvt_resort t (upd_bvt t ?f ?s1)}"
    by (simp add: bvt_start_warp_def cpu_ticks_def bvt_resort_def Let_def)
  ultimately show ?thesis using rd by auto
qed

lemma update_vt_ok:
  assumes "bvt_inv s p" and "cpu_of s t = p" and "sched_ctl (threads s t) = p"
  shows "bvt_op_ok p s (update_vt t s)"
proof -
  let ?s1 = "s\<lparr>tsc_reads := Suc (tsc_reads s)\<rparr>"
  note rd = bvt_op_read [of p s]
  have "bvt_op_ok p ?s1 (bvt_resort t (upd_bvt t (bvt_charge (tsc s (tsc_reads s))) ?s1))"
    by (rule bvt_op_resort) (use bvt_op_okD(2) [OF rd assms(1)] assms(2,3) in auto)
  moreover have "update_vt t s = bvt_resort t (upd_bvt t (bvt_charge (tsc s (tsc_reads s))) ?s1)"
    by (simp add: update_vt_def cpu_ticks_def bvt_resort_def Let_def)
  ultimately show ?thesis using bvt_op_ok_trans [OF rd] by simp
qed

lemma update_svt_ok: "bvt_op_ok p s (update_svt p s)"
proof -
  have "bvt_op_ok p s (s\<lparr>bvt_svt := (bvt_svt s)(p := v)\<rparr>)" for v
  proof -
    have "bvt_key (s\<lparr>bvt_svt := (bvt_svt s)(p := v)\<rparr>) = bvt_key s" by (simp add: fun_eq_iff bvt_key_def)
    then show ?thesis using sched_step_svt
      by (simp add: bvt_op_ok_def bvt_inv_def bvt_members_def bvt_prep_def)
  qed
  then show ?thesis by (simp add: update_svt_def split: list.splits)
qed

lemma bvt_op_timer_ops:
  "bvt_op_ok p s (del_timer tr s)"
  "node (hv_timers s t) = None \<Longrightarrow> bvt_op_ok p s (update_timer (Some t) c d s)"
  "node (hv_timers s t) = None \<Longrightarrow> bvt_op_ok p s (snd (add_timer (Some t) s))"
  using tsc_reads_add_timer [of s "Some t"]
  by (auto intro!: bvt_op_timer timers_wf_del_timer timers_wf_update_timer timers_wf_add_timer)

text \<open>\<^verbatim>\<open>pick_next\<close> in three parts: charge the running thread, restart the picked one, set the timer.\<close>

definition bvt_pick_prepare :: "pcpu \<Rightarrow> tid \<Rightarrow> hv \<Rightarrow> hv" where
  "bvt_pick_prepare p current s =
     del_timer (Some (BvtTick p)) (update_svt p (if \<not> is_idle_thread s current then update_vt current s else s))"

definition bvt_pick_arm :: "pcpu \<Rightarrow> u64 \<Rightarrow> u64 \<Rightarrow> hv \<Rightarrow> hv" where
  "bvt_pick_arm p run_countdown tick_period s =
     (if run_countdown \<noteq> UINT64_MAX
      then (let (c, s) = cpu_ticks s
            in snd (add_timer (Some (BvtTick p)) (update_timer (Some (BvtTick p)) (c + run_countdown * tick_period) 0 s)))
      else s)"

lemma sched_bvt_pick_next_parts:
  assumes "curr_obj (ctl s p) = Some c"
  defines "s2 \<equiv> bvt_pick_prepare p c (s\<lparr>tsc_reads := Suc (tsc_reads s)\<rparr>)"
  shows "sched_bvt_pick_next p s = Some (case elems (bvt_queue s2) p of
       [] \<Rightarrow> (Idle (this_cpu s2), s2)
     | t # ts \<Rightarrow> (t, bvt_pick_arm p (bvt_run_countdown s2 t ts) (BVT_MCU_MS * TICKS_PER_MS s)
         (upd_bvt t (\<lambda>d. d\<lparr>start_tsc := tsc s (tsc_reads s)\<rparr>) s2)))"
  using assms(1) unfolding s2_def bvt_pick_prepare_def bvt_pick_arm_def
  by (simp add: sched_bvt_pick_next_def cpu_ticks_def TICKS_PER_MS_def us_to_ticks_def Let_def case_prod_beta
      split: list.splits)

lemma bvt_pick_prepare_ok:
  assumes "bvt_inv s p" and "cpu_of s c = p" and "c \<noteq> Idle p \<Longrightarrow> sched_ctl (threads s c) = p"
  shows "bvt_op_ok p s (bvt_pick_prepare p c s)" and "node (hv_timers (bvt_pick_prepare p c s) (BvtTick p)) = None"
proof -
  have "bvt_op_ok p s (if \<not> is_idle_thread s c then update_vt c s else s)"
    using assms update_vt_ok by (simp add: is_idle_on)
  then show "bvt_op_ok p s (bvt_pick_prepare p c s)"
    unfolding bvt_pick_prepare_def
    by (rule bvt_op_ok_trans [OF bvt_op_ok_trans [OF _ update_svt_ok] bvt_op_timer_ops(1)])
  show "node (hv_timers (bvt_pick_prepare p c s) (BvtTick p)) = None" by (simp add: bvt_pick_prepare_def)
qed

lemma bvt_pick_arm_ok:
  assumes "node (hv_timers s (BvtTick p)) = None"
  shows "bvt_op_ok p s (bvt_pick_arm p r k s)"
proof (cases "r = UINT64_MAX")
  case False
  let ?s1 = "s\<lparr>tsc_reads := Suc (tsc_reads s)\<rparr>"
  let ?s2 = "update_timer (Some (BvtTick p)) (tsc s (tsc_reads s) + r * k) 0 ?s1"
  have 2: "bvt_op_ok p ?s1 ?s2" by (rule bvt_op_timer_ops(2)) (simp add: assms)
  have 3: "bvt_op_ok p ?s2 (snd (add_timer (Some (BvtTick p)) ?s2))" by (rule bvt_op_timer_ops(3)) (simp add: assms)
  have "bvt_pick_arm p r k s = snd (add_timer (Some (BvtTick p)) ?s2)"
    using False by (simp add: bvt_pick_arm_def cpu_ticks_def Let_def)
  then show ?thesis using bvt_op_ok_trans [OF bvt_op_ok_trans [OF bvt_op_read 2] 3] by simp
qed (simp add: bvt_pick_arm_def)

lemma bvt_queue_pick_arm [simp]: "bvt_queue (bvt_pick_arm p r k s) = bvt_queue s"
  using hv_more_eq(5) [of "bvt_pick_arm p r k s" s]
  by (simp add: bvt_pick_arm_def cpu_ticks_def Let_def)

lemma bvt_restart_ok:
  assumes "bvt_inv s p" and "cpu_of s t = p"
  shows "bvt_op_ok p s (upd_bvt t (\<lambda>d. d\<lparr>start_tsc := v\<rparr>) s)"
  using bvt_upd_in_place [OF assms, of "\<lambda>d. d\<lparr>start_tsc := v\<rparr>"] bvt_prep_upd [of "\<lambda>d. d\<lparr>start_tsc := v\<rparr>" s]
  by (simp add: bvt_op_ok_def evt_ok_def)

lemma sched_bvt_pick_next_ok:
  assumes "sched_inv bvt_members bvt_inv bvt_prep True s p" and "this_cpu s = p"
  shows "\<exists>n s'. sched_bvt_pick_next p s = Some (n, s') \<and> bvt_op_ok p s s' \<and>
    (if bvt_members s p = {} then n = Idle p else n \<in> bvt_members s p \<and> n = hd (elems (bvt_queue s') p))"
proof -
  have inv: "bvt_inv s p" using assms(1) by (simp add: sched_inv_def)
  obtain c where c: "curr_obj (ctl s p) = Some c" "cpu_of s c = p"
    "c \<noteq> Idle p \<Longrightarrow> sched_ctl (threads s c) = p" using sched_inv_current [OF assms(1)] by blast
  define s1 where "s1 = s\<lparr>tsc_reads := Suc (tsc_reads s)\<rparr>"
  define s2 where "s2 = bvt_pick_prepare p c s1"
  have 1: "bvt_op_ok p s s1" unfolding s1_def by (rule bvt_op_read)
  have c1: "cpu_of s1 c = p" "c \<noteq> Idle p \<Longrightarrow> sched_ctl (threads s1 c) = p" using c by (simp_all add: s1_def)
  note pp = bvt_pick_prepare_ok [OF bvt_op_okD(2) [OF 1 inv] c1, folded s2_def]
  have 2: "bvt_op_ok p s s2" by (rule bvt_op_ok_trans [OF 1 pp(1)])
  note D = bvt_op_okD [OF 2]
  have i2: "bvt_inv s2 p" by (rule D(2) [OF inv])
  have mem: "bvt_members s p = set (elems (bvt_queue s2) p)" using D(3) bvt_members_set [OF i2] by simp
  show ?thesis
  proof (cases "elems (bvt_queue s2) p")
    case Nil
    then show ?thesis
      using sched_bvt_pick_next_parts [OF c(1)] 2 D(7) assms(2) mem unfolding s1_def [symmetric] s2_def [symmetric] by simp
  next
    case (Cons t ts)
    let ?u = "upd_bvt t (\<lambda>d. d\<lparr>start_tsc := tsc s (tsc_reads s)\<rparr>) s2"
    have "cpu_of s2 t = p"
      using lq_homeD(2) [of id "cpu_of s2" p "bvt_queue s2" p t] i2 Cons by (simp add: bvt_inv_def)
    note r = bvt_restart_ok [OF i2 this, of "tsc s (tsc_reads s)"]
    have a: "bvt_op_ok p ?u (bvt_pick_arm p x y ?u)" for x y by (rule bvt_pick_arm_ok) (simp add: pp(2))
    have "bvt_op_ok p s (bvt_pick_arm p x y ?u)" for x y by (rule bvt_op_ok_trans [OF bvt_op_ok_trans [OF 2 r] a])
    then show ?thesis
      using sched_bvt_pick_next_parts [OF c(1)] Cons mem bvt_queue_pick_arm
      unfolding s1_def [symmetric] s2_def [symmetric] by simp
  qed
qed

lemma sched_bvt_wake_ok:
  assumes "bvt_inv s p" and "cpu_of s t = p" and "sched_ctl (threads s t) = p" and "t \<notin> bvt_members s p"
  shows "sched_step p s (sched_bvt_wake t s)" and "bvt_inv (sched_bvt_wake t s) p"
    and "bvt_members (sched_bvt_wake t s) p = insert t (bvt_members s p)"
    and "\<And>u. bvt_prep s u \<Longrightarrow> bvt_prep (sched_bvt_wake t s) u"
proof -
  let ?f = "\<lambda>d. d\<lparr>avt := (if get_svt s t - BVT_CSA_MCU <s avt d then avt d else get_svt s t)\<rparr>"
  define s1 where "s1 = upd_bvt t ?f s"
  define s2 where "s2 = bvt_start_warp t s1"
  define s3 where "s3 = upd_bvt t update_evt s2"
  have up: "bvt_op_ok p x (upd_bvt t f x)"
    if "bvt_inv x p" "cpu_of x t = p" "t \<notin> bvt_members x p" "bvt_keeps f" for f x
    using bvt_upd_in_place [OF that(1,2), of f] bvt_prep_upd [OF that(4)] that(3) by (simp add: bvt_op_ok_def)
  have 1: "bvt_op_ok p s s1" unfolding s1_def by (rule up) (use assms in simp_all)
  note D1 = bvt_op_okD [OF 1]
  have "bvt_op_ok p s1 s2"
    unfolding s2_def by (rule bvt_start_warp_ok) (use D1(2) [OF assms(1)] D1(5,6) assms(2,3) in auto)
  then have 2: "bvt_op_ok p s s2" by (rule bvt_op_ok_trans [OF 1])
  note D2 = bvt_op_okD [OF 2]
  have "bvt_op_ok p s2 s3"
    unfolding s3_def by (rule up) (use D2(2) [OF assms(1)] D2(3,5) assms(2,4) in auto)
  then have 3: "bvt_op_ok p s s3" by (rule bvt_op_ok_trans [OF 2])
  note D3 = bvt_op_okD [OF 3]
  have w: "sched_bvt_wake t s = bvt_runqueue_add t s3"
    by (simp add: sched_bvt_wake_def s1_def s2_def s3_def Let_def)
  have c3: "cpu_of s3 t = p" "sched_ctl (threads s3 t) = p" "t \<notin> bvt_members s3 p"
    using D3(3,5,6) assms(2-4) by auto
  have ev: "evt_ok (bvt_of s3 t)" by (simp add: s3_def)
  note ad = bvt_runqueue_add_ok [OF D3(2) [OF assms(1)] c3 ev]
  show "sched_step p s (sched_bvt_wake t s)" using sched_step_trans [OF D3(1) ad(1)] w by simp
  show "bvt_inv (sched_bvt_wake t s) p" "bvt_members (sched_bvt_wake t s) p = insert t (bvt_members s p)"
    using ad(2,3) D3(3) w by simp_all
  show "bvt_prep (sched_bvt_wake t s) u" if "bvt_prep s u" for u
    using D3(4) [OF that] ad(4) w by (simp add: bvt_prep_def)
qed

lemma bvt_inv_frame:
  assumes "private_eq s s'" and "bvt_inv s p"
  shows "bvt_inv s' p \<and> bvt_members s' p = bvt_members s p"
proof -
  have "cpu_of s' = cpu_of s" "bvt_key s' = bvt_key s" "bvt_queue s' = bvt_queue s"
    using assms(1) by (auto simp: private_eq_def bvt_key_def fun_eq_iff)
  moreover have "bvt_of s' t = bvt_of s t" for t using assms(1) by (simp add: private_eq_def)
  ultimately show ?thesis using assms(2) by (simp add: bvt_inv_def bvt_members_def)
qed

lemma bvt_inv_other:
  assumes "sched_step p s s'" and "q \<noteq> p" and "bvt_inv s q"
  shows "bvt_inv s' q \<and> bvt_members s' q = bvt_members s q"
proof -
  have l: "lq_local id (cpu_of s) p (bvt_queue s) (bvt_queue s')"
    using assms(1) by (simp add: sched_step_def private_local_def)
  have h: "lq_home id (cpu_of s) q (bvt_queue s)" using assms(3) by (simp add: bvt_inv_def)
  note o = sched_step_other_queue [OF assms(1,2) l h]
  have "map (bvt_key s') (elems (bvt_queue s) q) = map (bvt_key s) (elems (bvt_queue s) q)"
    using o(4) [of q] by (simp add: bvt_key_def)
  moreover have "\<forall>t \<in> set (elems (bvt_queue s) q). evt_ok (bvt_of s' t)"
    using o(4) [of q] assms(3) by (simp add: bvt_inv_def)
  ultimately show ?thesis using o(1-3) assms(3) unfolding bvt_inv_def bvt_members_def by (metis id_apply)
qed

lemma bvt_tick_handler_cases:
  assumes "this_cpu s = p"
  shows "bvt_tick_handler p s \<in> {sched_account_tick p s, make_reschedule_request p (sched_account_tick p s)}"
  using assms by (auto simp: bvt_tick_handler_def Let_def split: option.splits)

lemma bvt_tick_handler_ok:
  assumes "this_cpu s = p"
  shows "tick_step p s (bvt_tick_handler p s)" and "private_eq s (bvt_tick_handler p s)"
proof -
  have "private_eq s (make_reschedule_request p (sched_account_tick p s))"
    by (simp add: private_eq_def make_reschedule_request_def sched_account_tick_def Let_def)
  then show "private_eq s (bvt_tick_handler p s)" using bvt_tick_handler_cases [OF assms] by auto
  show "tick_step p s (bvt_tick_handler p s)"
    using bvt_tick_handler_cases [OF assms] tick_step_account tick_step_trans [OF tick_step_account tick_step_request]
    by fastforce
qed

lemma bvt_clamp_weight_range: "BVT_WEIGHT_MIN \<le> bvt_clamp_weight w" "bvt_clamp_weight w \<le> BVT_WEIGHT_MAX"
  by (auto simp: bvt_clamp_weight_def Let_def)

lemma sched_bvt_init_data_ok:
  assumes "bvt_inv s p" and "cpu_of s t = p" and "t \<notin> bvt_members s p"
  shows "sched_step p s (sched_bvt_init_data t params s)" and "bvt_inv (sched_bvt_init_data t params s) p"
    and "bvt_members (sched_bvt_init_data t params s) p = bvt_members s p"
    and "bvt_prep (sched_bvt_init_data t params s) t"
    and "bvt_prep s u \<Longrightarrow> bvt_prep (sched_bvt_init_data t params s) u"
proof -
  define w where "w = bvt_clamp_weight (bvt_weight params)"
  let ?f = "\<lambda>d. d\<lparr>mcu := BVT_MCU_MS * TICKS_PER_MS s, weight := w,
    warp_value := bvt_warp_value params, warp_limit := bvt_warp_limit params,
    unwarp_period := bvt_unwarp_period params, warp_on := False, warp_left := 0,
    last_unwarp_tsc := 0, vt_ratio := BVT_VT_RATIO_MAX div ucast w, residual := 0\<rparr>"
  have h: "lq_home id (cpu_of s) p (bvt_queue s)" using assms(1) by (simp add: bvt_inv_def)
  have "place (bvt_queue s) t = None"
    using assms(3) lq_members_linked [OF h assms(2)] by (simp add: bvt_members_def)
  then have eq: "sched_bvt_init_data t params s = upd_bvt t ?f s"
    by (simp add: sched_bvt_init_data_def lq_init_node_unlinked w_def TICKS_PER_MS_def us_to_ticks_def Let_def)
  have ok: "bvt_data_ok (?f d)" for d by (simp add: bvt_data_ok_def w_def bvt_clamp_weight_range)
  show "sched_step p s (sched_bvt_init_data t params s)" "bvt_inv (sched_bvt_init_data t params s) p"
    "bvt_members (sched_bvt_init_data t params s) p = bvt_members s p"
    unfolding eq using bvt_upd_in_place [OF assms(1,2), of ?f] assms(3) by blast+
  show "bvt_prep (sched_bvt_init_data t params s) t" "bvt_prep s u \<Longrightarrow> bvt_prep (sched_bvt_init_data t params s) u"
    using ok by (auto simp: eq bvt_prep_def)
qed

interpretation bvt_class: sched_class sched_bvt bvt_members bvt_inv bvt_prep True "\<lambda>p s. Some (bvt_tick_handler p s)"
proof (unfold_locales, goal_cases)
  case (1 s s' p)
  then show ?case by (rule bvt_inv_frame)
next
  case (2 s s' t)
  then show ?case by (simp add: private_eq_def bvt_prep_def)
next
  case (3 p s s' q)
  then show ?case by (rule bvt_inv_other)
next
  case (4 p s s' t)
  then show ?case by (simp add: sched_step_def private_local_def bvt_prep_def)
next
  case (5 s p t)
  then show ?case using sched_bvt_wake_ok [OF 5(1-3,6)] by (simp add: sched_bvt_def)
next
  case (6 s p t)
  then show ?case
    using bvt_runqueue_remove_ok [OF 6(1,2)] by (simp add: sched_bvt_def sched_bvt_sleep_def bvt_prep_def)
next
  case (7 s p t f)
  have inv: "bvt_inv s p" using 7(1) by (simp add: sched_inv_def)
  note m = sched_inv_member [OF 7(1,3)]
  have "f = sched_bvt_prioritize" using 7(4) by (simp add: sched_bvt_def)
  then show ?case
    using bvt_op_okD [OF bvt_start_warp_ok [OF inv m(1,3)]] inv by (simp add: sched_bvt_prioritize_def)
next
  case (8 s p)
  have inv: "bvt_inv s p" using 8(1) by (simp add: sched_inv_def)
  obtain n s' where "sched_bvt_pick_next p s = Some (n, s')" "bvt_op_ok p s s'"
    "if bvt_members s p = {} then n = Idle p else n \<in> bvt_members s p"
    using sched_bvt_pick_next_ok [OF 8(1,3)] by (metis (no_types, lifting))
  then show ?case
    using bvt_op_okD [of p s s'] inv by (auto simp: sched_bvt_def waiting_current_def Let_def)
next
  case (9 s p)
  have inv: "bvt_inv s p" using 9(1) by (simp add: sched_inv_def)
  note t = bvt_tick_handler_ok [OF 9(3)]
  then show ?case using bvt_inv_frame [OF t(2) inv] by (auto simp: private_eq_def bvt_prep_def)
next
  case (10 s p t params)
  then show ?case using sched_bvt_init_data_ok [OF 10(1-3)] by (simp add: sched_bvt_def)
qed

section \<open>Selection, charging and wake-up\<close>

text \<open>
  C16: The BVT scheduler runs the queued thread with the least effective virtual time, compared
  after the running thread has been charged, and picks the idle thread exactly when no thread
  is queued.
\<close>

theorem bvt_pick_least_evt:
  assumes "sched_inv bvt_members bvt_inv bvt_prep True s p" and "this_cpu s = p"
  shows "\<exists>n s'. sched_bvt_pick_next p s = Some (n, s') \<and>
    (if bvt_members s p = {} then n = Idle p
     else n \<in> bvt_members s p \<and>
       (\<forall>u \<in> bvt_members s p. sint (evt (bvt_of s' n)) \<le> sint (evt (bvt_of s' u))))"
proof -
  obtain n s' where ns: "sched_bvt_pick_next p s = Some (n, s')" and ok: "bvt_op_ok p s s'"
    and n: "if bvt_members s p = {} then n = Idle p else n \<in> bvt_members s p \<and> n = hd (elems (bvt_queue s') p)"
    using sched_bvt_pick_next_ok [OF assms] by blast
  have inv: "bvt_inv s' p" using bvt_op_okD(2) [OF ok] assms(1) by (simp add: sched_inv_def)
  have mem: "bvt_members s p = set (elems (bvt_queue s') p)"
    using bvt_op_okD(3) [OF ok] bvt_members_set [OF inv] by simp
  have "sint (evt (bvt_of s' n)) \<le> sint (evt (bvt_of s' u))" if "u \<in> bvt_members s p" for u
    using bq.hd_least [of s' "elems (bvt_queue s') p" u] inv that n mem
    by (auto simp: bvt_inv_def bvt_key_def split: if_splits)
  then show ?thesis using ns n by (cases "bvt_members s p = {}") auto
qed

lemma bvt_charge_fields:
  "avt (bvt_charge now d) = avt d + (if start_tsc d < now
     then (p2v (now - start_tsc d) (vt_ratio d) + residual d) div mcu d else 0)"
  "residual (bvt_charge now d) = (if start_tsc d < now
     then (p2v (now - start_tsc d) (vt_ratio d) + residual d) mod mcu d else residual d)"
  by (simp_all add: bvt_charge_def update_evt_def bvt_update_warp_after_charge_def Let_def)

text \<open>
  C23: Charging is exact: the actual virtual time gained, in charging units, and the new residual
  account for every tick the thread ran times its virtual-time ratio, plus the residual carried
  over; the residual stays below one unit.
\<close>

theorem bvt_charge_conserves:
  assumes "start_tsc d \<le> now" and "residual d < mcu d"
    and "(unat now - unat (start_tsc d)) * unat (vt_ratio d) + unat (residual d) < 2 ^ 63"
    and "sint (avt d) + int ((unat now - unat (start_tsc d)) * unat (vt_ratio d) + unat (residual d)) < 2 ^ 63"
  shows "(sint (avt (bvt_charge now d)) - sint (avt d)) * int (unat (mcu d)) + int (unat (residual (bvt_charge now d)))
      = int ((unat now - unat (start_tsc d)) * unat (vt_ratio d)) + int (unat (residual d)) \<and>
    residual (bvt_charge now d) < mcu d"
proof (cases "start_tsc d < now")
  case False
  then have "start_tsc d = now" using assms(1) by simp
  then show ?thesis using assms(2) by (simp add: bvt_charge_fields)
next
  case True
  define v where "v = p2v (now - start_tsc d) (vt_ratio d) + residual d"
  define n where "n = (unat now - unat (start_tsc d)) * unat (vt_ratio d) + unat (residual d)"
  have n63: "n < 2 ^ 63" using assms(3) by (simp add: n_def)
  have "unat (now - start_tsc d) = unat now - unat (start_tsc d)" using assms(1) by (rule unat_sub_le)
  then have "unat (p2v (now - start_tsc d) (vt_ratio d)) = (unat now - unat (start_tsc d)) * unat (vt_ratio d)"
    using assms(3) unfolding p2v_def by (subst unat_mult_nowrap) simp_all
  then have uv: "unat v = n" using assms(3) unfolding v_def n_def by (subst unat_add_nowrap) simp_all
  have ud: "unat (v div mcu d) = n div unat (mcu d)" and um: "unat (v mod mcu d) = n mod unat (mcu d)"
    by (simp_all add: unat_div_distrib unat_mod_distrib uv)
  have le: "n div unat (mcu d) \<le> n" by (rule div_le_dividend)
  have sd: "sint (v div mcu d) = int (n div unat (mcu d))"
    by (rule trans [OF sint_unat_small]) (use ud le n63 in linarith, simp add: ud)
  have "int (n div unat (mcu d)) \<le> int n" using le by (rule of_nat_mono)
  then have "sint (avt d) + int (n div unat (mcu d)) < 2 ^ 63" using assms(4) unfolding n_def [symmetric] by linarith
  then have "sint (avt d + v div mcu d) = sint (avt d) + int (n div unat (mcu d))"
    using sint_range_64(1) [of "avt d"] by (subst sint_add_nowrap) (simp_all add: sd)
  then have "sint (avt (bvt_charge now d)) - sint (avt d) = int (n div unat (mcu d))"
    using True by (simp add: bvt_charge_fields v_def)
  moreover have "unat (residual (bvt_charge now d)) = n mod unat (mcu d)"
    using True um by (simp add: bvt_charge_fields v_def)
  moreover have "int (n div unat (mcu d)) * int (unat (mcu d)) + int (n mod unat (mcu d)) = int n"
    by (metis div_mult_mod_eq of_nat_add of_nat_mult)
  moreover have "residual (bvt_charge now d) < mcu d"
  proof -
    have "0 < unat (mcu d)" using assms(2) by (simp add: word_less_nat_alt)
    then show ?thesis using calculation(2) by (simp add: word_less_nat_alt)
  qed
  ultimately show ?thesis by (simp add: n_def)
qed

definition sample_bvt :: sched_bvt_data where
  "sample_bvt = \<lparr>mcu = 1000, weight = 64, vt_ratio = 16, warp_on = True, warp_value = 7, warp_limit = 3,
     unwarp_period = 0, warp_left = 3, last_unwarp_tsc = 0, avt = 100, evt = 93, residual = 500, start_tsc = 2000\<rparr>"

theorem bvt_charge_conserves_witness:
  "avt (bvt_charge 2300 sample_bvt) = 105 \<and> residual (bvt_charge 2300 sample_bvt) = 300 \<and>
   (sint (avt (bvt_charge 2300 sample_bvt)) - 100) * 1000 + 300 = 300 * 16 + 500"
proof -
  have "residual (bvt_charge 2300 sample_bvt) = 300" "avt (bvt_charge 2300 sample_bvt) = 105"
    by (simp_all add: bvt_charge_fields sample_bvt_def p2v_def)
  then show ?thesis using bvt_charge_conserves [of sample_bvt 2300] by (simp add: sample_bvt_def)
qed


lemma sample_bvt_inv: "sched_inv bvt_members bvt_inv bvt_prep True (sample_hv n) 0"
proof (rule sample_sched_inv)
  have q: "bvt_queue (sample_hv n) = sample_queue 0 [Thr 0, Thr 1]" by (simp add: sample_hv_def)
  have h: "lq_home id (cpu_of (sample_hv n)) 0 (bvt_queue (sample_hv n))"
    unfolding q by (rule sample_lq_home) simp_all
  have e: "elems (bvt_queue (sample_hv n)) 0 = [Thr 0, Thr 1]" by (simp add: q sample_queue_def)
  show "bvt_inv (sample_hv n) 0"
    using h by (simp add: bvt_inv_def e) (simp add: bvt_key_def evt_ok_def sample_hv_threads sample_thread_def)
  show "bvt_members (sample_hv n) 0 \<union> (if True then {} else {Thr 0}) = {Thr 0, Thr 1}"
    using sample_lq_members [of id 0 "[Thr 0, Thr 1]"] by (simp add: bvt_members_def q)
  show "bvt_prep (sample_hv n) t" if "t \<in> {Thr 0, Thr 1}" for t
    using that by (auto simp: bvt_prep_def bvt_data_ok_def sample_hv_threads sample_thread_def)
qed

theorem bvt_pick_least_evt_witness:
  "\<exists>n s'. sched_bvt_pick_next 0 (sample_hv SCHED_BVT) = Some (n, s') \<and> n \<in> {Thr 0, Thr 1} \<and>
    sint (evt (bvt_of s' n)) \<le> sint (evt (bvt_of s' (Thr 1)))"
proof -
  have t: "this_cpu (sample_hv SCHED_BVT) = 0" by (simp add: sample_hv_def)
  have "bvt_members (sample_hv SCHED_BVT) 0 = {Thr 0, Thr 1}"
    using sample_lq_members [of id 0 "[Thr 0, Thr 1]"] by (simp add: bvt_members_def sample_hv_def)
  then show ?thesis using bvt_pick_least_evt [OF sample_bvt_inv t] by auto
qed


lemma bvt_start_warp_avt: "avt (bvt_of (bvt_start_warp t s) u) = avt (bvt_of s u)"
  by (simp add: bvt_start_warp_def cpu_ticks_def Let_def bvt_runqueue_add_insert bvt_runqueue_remove_def
      update_evt_def)

text \<open>
  C25: A thread that wakes up can neither gain nor lose credit beyond the context-switch
  allowance: its actual virtual time ends up above the scheduler's virtual time less five units,
  it is moved only if it had fallen behind that, and then to the scheduler's virtual time.
\<close>

theorem sched_bvt_wake_bounds_avt:
  assumes "- (2 ^ 63) + 5 \<le> sint (get_svt s t)"
  shows "sint (get_svt s t) - 5 < sint (avt (bvt_of (sched_bvt_wake t s) t)) \<and>
    avt (bvt_of (sched_bvt_wake t s) t) =
      (if sint (get_svt s t) - 5 < sint (avt (bvt_of s t)) then avt (bvt_of s t) else get_svt s t)"
proof -
  let ?svt = "get_svt s t"
  have "sint (?svt - BVT_CSA_MCU) = sint ?svt - 5"
    using assms sint_range_64(2) [of ?svt] by (subst sint_diff_nowrap) simp_all
  then have "avt (bvt_of (sched_bvt_wake t s) t) =
      (if sint ?svt - 5 < sint (avt (bvt_of s t)) then avt (bvt_of s t) else ?svt)"
    by (simp add: sched_bvt_wake_def Let_def bvt_runqueue_add_insert update_evt_def bvt_start_warp_avt
        word_sless_alt)
  then show ?thesis by simp
qed

theorem sched_bvt_wake_bounds_avt_witness:
  "avt (bvt_of (sched_bvt_wake (Thr 5) ((sample_hv SCHED_BVT)\<lparr>bvt_svt := (\<lambda>_. 50)\<rparr>)) (Thr 5)) = 50"
  using sched_bvt_wake_bounds_avt [of "(sample_hv SCHED_BVT)\<lparr>bvt_svt := (\<lambda>_. 50)\<rparr>" "Thr 5"]
  by (simp add: get_svt_def sample_hv_threads sample_thread_def)

end
