(* ===== verification/Sched_Rtds.thy ===== *)
theory Sched_Rtds
  imports Sched_Contract
begin

text \<open>
  The partitioned earliest-deadline budget scheduler of \<^verbatim>\<open>core/sched_rtds.c\<close>. Each thread is a
  periodic server; a CPU has a ready queue ordered by deadline and a queue of servers without
  budget. The running server is in neither queue.
\<close>

section \<open>The scheduler\<close>

abbreviation RTDS_DEFAULT_PERIOD_US :: u32 where "RTDS_DEFAULT_PERIOD_US \<equiv> 4000"
abbreviation RTDS_DEFAULT_BUDGET_US :: u32 where "RTDS_DEFAULT_BUDGET_US \<equiv> 2000"
abbreviation RTDS_MIN_PERIOD_US :: u32 where "RTDS_MIN_PERIOD_US \<equiv> 500"
abbreviation RTDS_MIN_BUDGET_US :: u32 where "RTDS_MIN_BUDGET_US \<equiv> 500"

definition rtds_next_period_boundary :: "u64 \<Rightarrow> u64 \<Rightarrow> u64" where
  "rtds_next_period_boundary now period =
     (if period = 0 then now else (let periods = now div period + 1 in periods * period))"

definition rtds_is_queued :: "sched_rtds_data \<Rightarrow> bool" where
  "rtds_is_queued d \<longleftrightarrow> queue d \<noteq> RTDS_QUEUE_NONE"

definition rtds_is_current :: "hv \<Rightarrow> tid \<Rightarrow> bool" where
  "rtds_is_current s t \<longleftrightarrow> curr_obj (ctl s (sched_ctl (threads s t))) = Some t"

definition rtds_is_active :: "hv \<Rightarrow> tid \<Rightarrow> bool" where
  "rtds_is_active s t \<longleftrightarrow> \<not> is_idle_thread s t \<and>
     (rtds_is_current s t \<and> \<not> be_blocking (threads s t) \<or> status (threads s t) = THREAD_STS_RUNNABLE)"

definition rtds_queue_remove :: "tid \<Rightarrow> hv \<Rightarrow> hv" where
  "rtds_queue_remove t s =
     (if rtds_is_queued (rtds_of s t)
      then upd_rtds t (\<lambda>d. d\<lparr>queue := RTDS_QUEUE_NONE\<rparr>) (s\<lparr>rtds_queues := lq_del_init t (rtds_queues s)\<rparr>)
      else s)"

text \<open>The scan test of \<^verbatim>\<open>rtds_ready_insert\<close>: stop at the first server with a later deadline.\<close>

definition rtds_stop :: "hv \<Rightarrow> tid \<Rightarrow> tid \<Rightarrow> bool" where
  "rtds_stop s x y \<longleftrightarrow> deadline_ticks (rtds_of s x) < deadline_ticks (rtds_of s y)"

definition rtds_ready_insert :: "tid \<Rightarrow> hv \<Rightarrow> hv" where
  "rtds_ready_insert t s =
     (let s = (if queue (rtds_of s t) \<noteq> RTDS_QUEUE_NONE then rtds_queue_remove t s else s);
          s = s\<lparr>rtds_queues := lq_insert (rtds_stop s t) (Ready (sched_ctl (threads s t))) t (rtds_queues s)\<rparr>
      in upd_rtds t (\<lambda>d. d\<lparr>queue := RTDS_QUEUE_READY\<rparr>) s)"

definition rtds_depleted_insert :: "tid \<Rightarrow> hv \<Rightarrow> hv" where
  "rtds_depleted_insert t s =
     (if queue (rtds_of s t) = RTDS_QUEUE_DEPLETED then s
      else
        (let s = (if queue (rtds_of s t) = RTDS_QUEUE_READY then rtds_queue_remove t s else s);
             s = s\<lparr>rtds_queues := lq_add_tail (Depleted (sched_ctl (threads s t))) t (rtds_queues s)\<rparr>
         in upd_rtds t (\<lambda>d. d\<lparr>queue := RTDS_QUEUE_DEPLETED\<rparr>) s))"

text \<open>The charge of \<^verbatim>\<open>rtds_account_runtime\<close> on the private data.\<close>

definition rtds_charge :: "u64 \<Rightarrow> sched_rtds_data \<Rightarrow> sched_rtds_data" where
  "rtds_charge now d =
     (let delta = now - last_start_ticks d;
          d = d\<lparr>last_start_ticks := now\<rparr>
      in if delta \<ge> remaining_ticks d then d\<lparr>remaining_ticks := 0\<rparr>
         else d\<lparr>remaining_ticks := remaining_ticks d - delta\<rparr>)"

definition rtds_account_runtime :: "tid \<Rightarrow> u64 \<Rightarrow> hv \<Rightarrow> hv" where
  "rtds_account_runtime t now s =
     (if is_idle_thread s t \<or> status (threads s t) \<noteq> THREAD_STS_RUNNING \<or>
         last_start_ticks (rtds_of s t) = 0 \<or> now \<le> last_start_ticks (rtds_of s t)
      then s else upd_rtds t (rtds_charge now) s)"

definition rtds_advance_period :: "sched_rtds_data \<Rightarrow> u64 \<Rightarrow> bool \<times> sched_rtds_data" where
  "rtds_advance_period d now =
     (if now < deadline_ticks d then (False, d)
      else (let periods_missed = (now - deadline_ticks d) div period_ticks d + 1
            in (True, d\<lparr>deadline_ticks := deadline_ticks d + periods_missed * period_ticks d,
                        remaining_ticks := budget_ticks d\<rparr>)))"

definition rtds_refresh_thread :: "tid \<Rightarrow> u64 \<Rightarrow> hv \<Rightarrow> hv" where
  "rtds_refresh_thread t now s =
     (let s = upd_rtds t (\<lambda>d. snd (rtds_advance_period d now)) s
      in if \<not> rtds_is_active s t then s
         else if remaining_ticks (rtds_of s t) > 0 then rtds_ready_insert t s
         else if \<not> be_blocking (threads s t) then rtds_depleted_insert t s
         else s)"

fun rtds_earliest :: "hv \<Rightarrow> u64 \<Rightarrow> tid list \<Rightarrow> u64" where
  "rtds_earliest s next [] = next"
| "rtds_earliest s next (t # ts) =
     rtds_earliest s (if next = 0 \<or> deadline_ticks (rtds_of s t) < next then deadline_ticks (rtds_of s t) else next) ts"

definition rtds_next_depleted_deadline :: "pcpu \<Rightarrow> hv \<Rightarrow> u64" where
  "rtds_next_depleted_deadline p s = rtds_earliest s 0 (elems (rtds_queues s) (Depleted p))"

fun rtds_best :: "hv \<Rightarrow> tid option \<Rightarrow> tid list \<Rightarrow> tid option" where
  "rtds_best s best [] = best"
| "rtds_best s best (t # ts) =
     rtds_best s (case best of None \<Rightarrow> Some t
       | Some b \<Rightarrow> if deadline_ticks (rtds_of s t) < deadline_ticks (rtds_of s b) then Some t else Some b) ts"

definition rtds_pick_depleted_slack :: "pcpu \<Rightarrow> hv \<Rightarrow> tid option \<times> hv" where
  "rtds_pick_depleted_slack p s =
     (case rtds_best s None (elems (rtds_queues s) (Depleted p)) of
        None \<Rightarrow> (None, s)
      | Some b \<Rightarrow> (Some b, rtds_queue_remove b s))"

text \<open>The deadline that \<^verbatim>\<open>rtds_program_local_timer\<close> computes; 0 means that no timer is needed.\<close>

definition rtds_running_timeout :: "sched_rtds_data \<Rightarrow> u64 \<Rightarrow> u64" where
  "rtds_running_timeout d now =
     (if remaining_ticks d > 0 then
        (let timeout = (if last_start_ticks d \<noteq> 0 then last_start_ticks d + remaining_ticks d
                        else now + remaining_ticks d);
             timeout = (if deadline_ticks d < timeout then deadline_ticks d else timeout)
         in if timeout \<le> now then now else timeout)
      else if deadline_ticks d > now then deadline_ticks d else now)"

definition rtds_timeout :: "pcpu \<Rightarrow> tid option \<Rightarrow> u64 \<Rightarrow> hv \<Rightarrow> u64" where
  "rtds_timeout p running now s =
     (let timeout = (case running of None \<Rightarrow> 0
           | Some t \<Rightarrow> if \<not> is_idle_thread s t then rtds_running_timeout (rtds_of s t) now else 0);
          replenish_timeout = rtds_next_depleted_deadline p s
      in if replenish_timeout \<noteq> 0 \<and> (timeout = 0 \<or> replenish_timeout < timeout)
         then replenish_timeout else timeout)"

definition rtds_program_local_timer :: "pcpu \<Rightarrow> tid option \<Rightarrow> hv \<Rightarrow> hv" where
  "rtds_program_local_timer p running s =
     (let (now, s) = cpu_ticks s;
          s = del_timer (Some (RtdsTick p)) s;
          timeout = rtds_timeout p running now s
      in if timeout \<noteq> 0
         then snd (add_timer (Some (RtdsTick p)) (update_timer (Some (RtdsTick p)) timeout 0 s))
         else s)"

definition rtds_program_timer :: "pcpu \<Rightarrow> tid option \<Rightarrow> hv \<Rightarrow> hv" where
  "rtds_program_timer p running s =
     (if p = this_cpu s then rtds_program_local_timer p running s else s)"

text \<open>The bodies of the two loops of \<^verbatim>\<open>rtds_refresh_queues\<close>, and the loops.\<close>

definition rtds_refresh_ready :: "u64 \<Rightarrow> tid \<Rightarrow> hv \<Rightarrow> hv" where
  "rtds_refresh_ready now t s =
     (let (advanced, d) = rtds_advance_period (rtds_of s t) now
      in if advanced then rtds_refresh_thread t now (rtds_queue_remove t (upd_rtds t (\<lambda>_. d) s)) else s)"

definition rtds_refresh_queues :: "pcpu \<Rightarrow> u64 \<Rightarrow> hv \<Rightarrow> hv option" where
  "rtds_refresh_queues p now s =
     Option.bind (list_for_each_safe (\<lambda>s. elems (rtds_queues s) (Ready p)) (rtds_refresh_ready now) s)
       (list_for_each_safe (\<lambda>s. elems (rtds_queues s) (Depleted p)) (\<lambda>t. rtds_refresh_thread t now))"

definition rtds_timer_handler :: "pcpu \<Rightarrow> hv \<Rightarrow> hv option" where
  "rtds_timer_handler c s =
     (let p = this_cpu s;
          (now, s) = cpu_ticks s;
          s = sched_account_tick c s;
          s = (case curr_obj (ctl s c) of None \<Rightarrow> s
               | Some t \<Rightarrow> if \<not> is_idle_thread s t then rtds_refresh_thread t now (rtds_account_runtime t now s) else s)
      in map_option (make_reschedule_request p) (rtds_refresh_queues c now s))"

definition sched_rtds_init :: "pcpu \<Rightarrow> hv \<Rightarrow> int \<times> hv" where
  "sched_rtds_init p s =
     (let s = s\<lparr>rtds_queues := lq_init_head (Ready p) (rtds_queues s)\<rparr>;
          s = s\<lparr>rtds_queues := lq_init_head (Depleted p) (rtds_queues s)\<rparr>
      in (0, initialize_timer (Some (RtdsTick p)) (Some RtdsTimerHandler) p 0 0 s))"

definition sched_rtds_deinit :: "pcpu \<Rightarrow> hv \<Rightarrow> hv" where
  "sched_rtds_deinit p s = del_timer (Some (RtdsTick p)) s"

definition sched_rtds_init_data :: "tid \<Rightarrow> sched_params \<Rightarrow> hv \<Rightarrow> hv" where
  "sched_rtds_init_data t params s =
     (let period_us = RTDS_DEFAULT_PERIOD_US;
          budget_us = RTDS_DEFAULT_BUDGET_US;
          (now, s) = cpu_ticks s;
          period_us = max period_us RTDS_MIN_PERIOD_US;
          budget_us = max budget_us RTDS_MIN_BUDGET_US;
          budget_us = min budget_us period_us;
          s = s\<lparr>rtds_queues := lq_init_node t (rtds_queues s)\<rparr>
      in upd_rtds t (\<lambda>d. d\<lparr>period_ticks := us_to_ticks s period_us, budget_ticks := us_to_ticks s budget_us,
           remaining_ticks := us_to_ticks s budget_us,
           deadline_ticks := rtds_next_period_boundary now (us_to_ticks s period_us),
           last_start_ticks := 0, queue := RTDS_QUEUE_NONE\<rparr>) s)"

text \<open>The choice at the end of \<^verbatim>\<open>sched_rtds_pick_next\<close>, once the queues are up to date.\<close>

definition rtds_choose :: "pcpu \<Rightarrow> hv \<Rightarrow> tid \<times> hv" where
  "rtds_choose p s =
     (case elems (rtds_queues s) (Ready p) of
        t # _ \<Rightarrow> (t, rtds_queue_remove t s)
      | [] \<Rightarrow> (let (b, s) = rtds_pick_depleted_slack p s
               in case b of Some t \<Rightarrow> (t, s) | None \<Rightarrow> (Idle (this_cpu s), s)))"

definition sched_rtds_pick_next :: "pcpu \<Rightarrow> hv \<Rightarrow> (tid \<times> hv) option" where
  "sched_rtds_pick_next p s =
     (let (now, s) = cpu_ticks s;
          s = (case curr_obj (ctl s p) of None \<Rightarrow> s
               | Some t \<Rightarrow> if \<not> is_idle_thread s t then rtds_refresh_thread t now (rtds_account_runtime t now s) else s)
      in case rtds_refresh_queues p now s of None \<Rightarrow> None
         | Some s \<Rightarrow>
             (let (next, s) = rtds_choose p s;
                  s = (if \<not> is_idle_thread s next then upd_rtds next (\<lambda>d. d\<lparr>last_start_ticks := now\<rparr>) s else s)
              in Some (next, rtds_program_timer p (Some next) s)))"

definition sched_rtds_sleep :: "tid \<Rightarrow> hv \<Rightarrow> hv" where
  "sched_rtds_sleep t s =
     (let s = (if rtds_is_current s t then (let (now, s) = cpu_ticks s in rtds_account_runtime t now s) else s);
          s = rtds_queue_remove t s;
          s = upd_rtds t (\<lambda>d. d\<lparr>last_start_ticks := 0\<rparr>) s;
          c = sched_ctl (threads s t)
      in rtds_program_timer c (if rtds_is_current s t then None else curr_obj (ctl s c)) s)"

definition sched_rtds_wake :: "tid \<Rightarrow> hv \<Rightarrow> hv" where
  "sched_rtds_wake t s =
     (let (now, s) = cpu_ticks s;
          s = upd_rtds t (\<lambda>d. (snd (rtds_advance_period d now))\<lparr>last_start_ticks := 0\<rparr>) s;
          s = (if remaining_ticks (rtds_of s t) > 0 then rtds_ready_insert t s else rtds_depleted_insert t s);
          c = sched_ctl (threads s t)
      in rtds_program_timer c (curr_obj (ctl s c)) s)"

definition sched_rtds_prioritize :: "tid \<Rightarrow> hv \<Rightarrow> hv" where
  "sched_rtds_prioritize t s =
     (let (now, s) = cpu_ticks s;
          s = upd_rtds t (\<lambda>d. snd (rtds_advance_period d now)) s
      in if \<not> rtds_is_current s t \<and> remaining_ticks (rtds_of s t) > 0 then rtds_ready_insert t s else s)"

definition sched_rtds_suspend :: "pcpu \<Rightarrow> hv \<Rightarrow> hv" where
  "sched_rtds_suspend p s = sched_rtds_deinit p s"

record sched_rtds_stats =
  rst_period_ticks :: u64
  rst_budget_ticks :: u64
  rst_remaining_ticks :: u64
  rst_deadline_ticks :: u64
  rst_last_start_ticks :: u64

definition sched_rtds_snapshot :: "tid \<Rightarrow> hv \<Rightarrow> sched_rtds_stats \<times> hv" where
  "sched_rtds_snapshot t s =
     (let d = rtds_of s t;
          (now, s) = cpu_ticks s;
          st = \<lparr>rst_period_ticks = period_ticks d, rst_budget_ticks = budget_ticks d,
                rst_remaining_ticks = remaining_ticks d, rst_deadline_ticks = deadline_ticks d,
                rst_last_start_ticks = last_start_ticks d\<rparr>
      in if status (threads s t) = THREAD_STS_RUNNING \<and> \<not> is_idle_thread s t \<and>
            last_start_ticks d \<noteq> 0 \<and> now > last_start_ticks d
         then (let delta = now - last_start_ticks d
               in (st\<lparr>rst_remaining_ticks := (if delta \<ge> rst_remaining_ticks st then 0
                     else rst_remaining_ticks st - delta)\<rparr>, s))
         else (st, s))"

definition sched_get_rtds_stats :: "tid option \<Rightarrow> hv \<Rightarrow> sched_rtds_stats option \<times> hv" where
  "sched_get_rtds_stats tr s =
     (case tr of None \<Rightarrow> (None, s)
      | Some t \<Rightarrow>
          if scheduler (ctl s (sched_ctl (threads s t))) = Some SCHED_RTDS
          then (let (st, s) = sched_rtds_snapshot t s in (Some st, s)) else (None, s))"

definition sched_rtds :: acrn_scheduler where
  "sched_rtds = \<lparr>init = Some sched_rtds_init, init_data = Some sched_rtds_init_data,
     pick_next = Some sched_rtds_pick_next, sleep = Some sched_rtds_sleep, wake = Some sched_rtds_wake,
     yield = None, prioritize = Some sched_rtds_prioritize, deinit_data = None,
     deinit = Some sched_rtds_deinit, suspend = Some sched_rtds_suspend, resume = None\<rparr>"

section \<open>Period and budget arithmetic\<close>

text \<open>
  A server that has been set up: the period is positive and below \<open>2 ^ 63\<close>, and the remaining
  budget is at most the budget, which is at most the period.
\<close>

definition rtds_data_ok :: "sched_rtds_data \<Rightarrow> bool" where
  "rtds_data_ok d \<longleftrightarrow> 0 < unat (period_ticks d) \<and> unat (period_ticks d) < 2 ^ 63 \<and>
     remaining_ticks d \<le> budget_ticks d \<and> budget_ticks d \<le> period_ticks d"

abbreviation rtds_advanced :: "u64 \<Rightarrow> sched_rtds_data \<Rightarrow> sched_rtds_data" where
  "rtds_advanced now d \<equiv> snd (rtds_advance_period d now)"

lemma next_multiple_bounds:
  fixes a P :: nat
  assumes "0 < P"
  shows "a < (a div P + 1) * P" and "(a div P + 1) * P \<le> a + P"
  using dividend_less_div_times [OF assms, of a] div_times_less_eq_dividend [of a P]
  by (simp_all add: algebra_simps)

lemma unat_next_multiple:
  fixes a P :: u64
  assumes "0 < unat P" and "unat a + unat P < 2 ^ 64"
  shows "unat ((a div P + 1) * P) = (unat a div unat P + 1) * unat P"
proof -
  note b = next_multiple_bounds [OF assms(1), of "unat a"]
  have "k \<le> k * unat P" for k using assms(1) by (cases "unat P") auto
  then have "unat a div unat P + 1 \<le> (unat a div unat P + 1) * unat P" .
  then have "unat a div unat P + 1 < 2 ^ 64" using b(2) assms(2) by linarith
  then have "unat (a div P) + unat (1 :: u64) < 2 ^ 64" by (simp add: unat_div)
  then have k: "unat (a div P + 1) = unat a div unat P + 1"
    using unat_add_nowrap [of "a div P" 1] by (simp add: unat_div)
  have "unat (a div P + 1) * unat P < 2 ^ 64" unfolding k using b(2) assms(2) by linarith
  then show ?thesis using unat_mult_nowrap [of "a div P + 1" P] k by simp
qed

lemma rtds_advanced_deadline:
  assumes "rtds_data_ok d" and "unat now < 2 ^ 63" and "deadline_ticks d \<le> now"
  shows "unat (deadline_ticks (rtds_advanced now d)) = unat (deadline_ticks d) +
    ((unat now - unat (deadline_ticks d)) div unat (period_ticks d) + 1) * unat (period_ticks d)"
proof -
  let ?P = "period_ticks d" and ?D = "deadline_ticks d"
  have P: "0 < unat ?P" "unat ?P < 2 ^ 63" using assms(1) by (simp_all add: rtds_data_ok_def)
  have D: "unat ?D \<le> unat now" using assms(3) by (simp add: word_le_nat_alt)
  have a: "unat (now - ?D) = unat now - unat ?D" by (rule unat_sub_le [OF assms(3)])
  have m: "unat (((now - ?D) div ?P + 1) * ?P) = (unat (now - ?D) div unat ?P + 1) * unat ?P"
    by (rule unat_next_multiple) (use P a assms(2) in simp_all)
  have "(unat (now - ?D) div unat ?P + 1) * unat ?P \<le> unat (now - ?D) + unat ?P"
    by (rule next_multiple_bounds(2) [OF P(1)])
  then have "unat ?D + unat (((now - ?D) div ?P + 1) * ?P) < 2 ^ 64" using m a D P(2) assms(2) by simp
  moreover have "\<not> now < ?D" using assms(3) by simp
  ultimately show ?thesis using m a by (simp add: rtds_advance_period_def Let_def unat_add_nowrap)
qed

lemma rtds_advanced_later:
  assumes "rtds_data_ok d" and "unat now < 2 ^ 63"
  shows "now < deadline_ticks (rtds_advanced now d)"
proof (cases "now < deadline_ticks d")
  case True
  then show ?thesis by (simp add: rtds_advance_period_def)
next
  case False
  then have le: "deadline_ticks d \<le> now" by simp
  have "0 < unat (period_ticks d)" using assms(1) by (simp add: rtds_data_ok_def)
  note b = next_multiple_bounds(1) [OF this, of "unat now - unat (deadline_ticks d)"]
  show ?thesis using rtds_advanced_deadline [OF assms le] b le
    by (simp add: word_less_nat_alt word_le_nat_alt)
qed

lemma rtds_advanced_fields [simp]:
  "queue (rtds_advanced now d) = queue d" "last_start_ticks (rtds_advanced now d) = last_start_ticks d"
  "period_ticks (rtds_advanced now d) = period_ticks d" "budget_ticks (rtds_advanced now d) = budget_ticks d"
  by (simp_all add: rtds_advance_period_def Let_def)

lemma rtds_advanced_same [simp]: "now < deadline_ticks d \<Longrightarrow> rtds_advanced now d = d"
  by (simp add: rtds_advance_period_def)

lemma rtds_advanced_ok: "rtds_data_ok d \<Longrightarrow> rtds_data_ok (rtds_advanced now d)"
  by (simp add: rtds_data_ok_def rtds_advance_period_def Let_def)

lemma rtds_advanced_budget:
  "rtds_data_ok d \<Longrightarrow> 0 < remaining_ticks d \<Longrightarrow> 0 < remaining_ticks (rtds_advanced now d)"
  by (auto simp: rtds_data_ok_def rtds_advance_period_def Let_def)

definition rtds_accounted :: "bool \<Rightarrow> u64 \<Rightarrow> sched_rtds_data \<Rightarrow> sched_rtds_data" where
  "rtds_accounted running now d =
     (if \<not> running \<or> last_start_ticks d = 0 \<or> now \<le> last_start_ticks d then d else rtds_charge now d)"

lemma rtds_accounted_simps [simp]:
  "queue (rtds_accounted r now d) = queue d" "deadline_ticks (rtds_accounted r now d) = deadline_ticks d"
  by (simp_all add: rtds_accounted_def rtds_charge_def Let_def)

lemma rtds_accounted_ok:
  assumes "rtds_data_ok d"
  shows "rtds_data_ok (rtds_accounted r now d)"
proof -
  have "remaining_ticks d - x \<le> budget_ticks d" if "\<not> remaining_ticks d \<le> x" for x
  proof -
    have "remaining_ticks d - x \<le> remaining_ticks d" by (rule word_sub_le) (use that in simp)
    then show ?thesis using assms order_trans by (auto simp: rtds_data_ok_def)
  qed
  then show ?thesis
    using assms by (auto simp: rtds_data_ok_def rtds_accounted_def rtds_charge_def Let_def)
qed

section \<open>The queues\<close>

interpretation rq: ordered_queue "\<lambda>s t. deadline_ticks (rtds_of s t)" rtds_stop
  by unfold_locales (auto simp: rtds_stop_def)

fun rtds_queue_at :: "rtds_qid option \<Rightarrow> sched_rtds_queue" where
  "rtds_queue_at None = RTDS_QUEUE_NONE"
| "rtds_queue_at (Some (Ready p)) = RTDS_QUEUE_READY"
| "rtds_queue_at (Some (Depleted p)) = RTDS_QUEUE_DEPLETED"

text \<open>The queue field of a thread names the queue that its node is linked in.\<close>

definition rtds_wf :: "hv \<Rightarrow> pcpu \<Rightarrow> bool" where
  "rtds_wf s p \<longleftrightarrow> lq_home rtds_cpu (cpu_of s) p (rtds_queues s) \<and>
     (\<forall>t. cpu_of s t = p \<longrightarrow> queue (rtds_of s t) = rtds_queue_at (place (rtds_queues s) t))"

definition rtds_members :: "hv \<Rightarrow> pcpu \<Rightarrow> tid set" where
  "rtds_members s p = lq_members rtds_cpu p (rtds_queues s)"

definition rtds_prep :: "hv \<Rightarrow> tid \<Rightarrow> bool" where
  "rtds_prep s t \<longleftrightarrow> rtds_data_ok (rtds_of s t)"

abbreviation rtds_ready_q :: "hv \<Rightarrow> pcpu \<Rightarrow> tid list" where
  "rtds_ready_q s p \<equiv> elems (rtds_queues s) (Ready p)"

abbreviation rtds_depleted_q :: "hv \<Rightarrow> pcpu \<Rightarrow> tid list" where
  "rtds_depleted_q s p \<equiv> elems (rtds_queues s) (Depleted p)"

text \<open>Besides, every thread of the ready queue has budget left.\<close>

definition rtds_inv :: "hv \<Rightarrow> pcpu \<Rightarrow> bool" where
  "rtds_inv s p \<longleftrightarrow> rtds_wf s p \<and> (\<forall>t \<in> set (rtds_ready_q s p). 0 < remaining_ticks (rtds_of s t))"

lemma rtds_queue_at_simps [simp]:
  "rtds_queue_at q = RTDS_QUEUE_NONE \<longleftrightarrow> q = None"
  "rtds_queue_at q = RTDS_QUEUE_READY \<longleftrightarrow> (\<exists>p. q = Some (Ready p))"
  "rtds_queue_at q = RTDS_QUEUE_DEPLETED \<longleftrightarrow> (\<exists>p. q = Some (Depleted p))"
  by (cases q rule: rtds_queue_at.cases; simp)+

lemma rtds_cpu_eq: "{q. rtds_cpu q = p} = {Ready p, Depleted p}"
proof -
  have "rtds_cpu q = p \<longleftrightarrow> q \<in> {Ready p, Depleted p}" for q by (cases q) auto
  then show ?thesis by auto
qed

lemma rtds_wfD:
  assumes "rtds_wf s p"
  shows "rtds_members s p = set (rtds_ready_q s p) \<union> set (rtds_depleted_q s p)"
    and "distinct (rtds_ready_q s p)" and "distinct (rtds_depleted_q s p)"
    and "t \<in> set (rtds_ready_q s p) \<Longrightarrow> queue (rtds_of s t) = RTDS_QUEUE_READY"
    and "t \<in> set (rtds_depleted_q s p) \<Longrightarrow> queue (rtds_of s t) = RTDS_QUEUE_DEPLETED"
    and "t \<in> rtds_members s p \<Longrightarrow> cpu_of s t = p"
    and "cpu_of s t = p \<Longrightarrow> t \<in> rtds_members s p \<longleftrightarrow> queue (rtds_of s t) \<noteq> RTDS_QUEUE_NONE"
    and "cpu_of s t = p \<Longrightarrow> t \<in> set (rtds_depleted_q s p) \<longleftrightarrow> queue (rtds_of s t) = RTDS_QUEUE_DEPLETED"
    and "cpu_of s t = p \<Longrightarrow> t \<in> set (rtds_ready_q s p) \<longleftrightarrow> queue (rtds_of s t) = RTDS_QUEUE_READY"
proof -
  have h: "lq_home rtds_cpu (cpu_of s) p (rtds_queues s)"
    and q: "\<And>t. cpu_of s t = p \<Longrightarrow> queue (rtds_of s t) = rtds_queue_at (place (rtds_queues s) t)"
    using assms by (auto simp: rtds_wf_def)
  have ok: "lq_ok (rtds_queues s) (Ready p)" "lq_ok (rtds_queues s) (Depleted p)"
    using lq_homeD(1) [OF h] by auto
  show m: "rtds_members s p = set (rtds_ready_q s p) \<union> set (rtds_depleted_q s p)"
    unfolding rtds_members_def lq_members_eq [OF h] rtds_cpu_eq by simp
  show "distinct (rtds_ready_q s p)" "distinct (rtds_depleted_q s p)"
    using ok by (simp_all add: lq_ok_distinct)
  show "cpu_of s t = p" if "t \<in> rtds_members s p"
    using lq_members_on [OF h] that by (simp add: rtds_members_def)
  note on = this
  show r: "t \<in> set (rtds_ready_q s p) \<longleftrightarrow> queue (rtds_of s t) = RTDS_QUEUE_READY"
    and d: "t \<in> set (rtds_depleted_q s p) \<longleftrightarrow> queue (rtds_of s t) = RTDS_QUEUE_DEPLETED"
    if t: "cpu_of s t = p" for t
    using lq_ok_mem [OF ok(1), of t] lq_ok_mem [OF ok(2), of t] q [OF t] lq_homeD(3) [where a = t, OF h t]
    by auto
  show "queue (rtds_of s t) = RTDS_QUEUE_READY" if "t \<in> set (rtds_ready_q s p)"
    using r [of t] on m that by auto
  show "queue (rtds_of s t) = RTDS_QUEUE_DEPLETED" if "t \<in> set (rtds_depleted_q s p)"
    using d [of t] on m that by auto
  show "t \<in> rtds_members s p \<longleftrightarrow> queue (rtds_of s t) \<noteq> RTDS_QUEUE_NONE" if "cpu_of s t = p"
    using lq_members_linked [OF h that] q [OF that] by (simp add: rtds_members_def)
qed

lemma upd_rtds_id:
  assumes "f (rtds_of s t) = rtds_of s t"
  shows "upd_rtds t f s = s"
proof -
  have "data_update (rtds_update f) (threads s t) = threads s t"
    using assms by (cases "threads s t"; cases "data (threads s t)") simp
  then show ?thesis by (simp add: upd_thread_def fun_upd_idem)
qed

lemma rtds_queue_remove_eq:
  assumes "rtds_wf s p" and "cpu_of s t = p"
  shows "rtds_queue_remove t s =
    upd_rtds t (\<lambda>d. d\<lparr>queue := RTDS_QUEUE_NONE\<rparr>) (s\<lparr>rtds_queues := lq_del_init t (rtds_queues s)\<rparr>)"
proof (cases "queue (rtds_of s t) = RTDS_QUEUE_NONE")
  case True
  then have "place (rtds_queues s) t = None" using assms by (simp add: rtds_wf_def)
  then have "lq_del_init t (rtds_queues s) = rtds_queues s" by (simp add: lq_del_init_def fun_upd_idem)
  then show ?thesis
    using True upd_rtds_id [of "\<lambda>d. d\<lparr>queue := RTDS_QUEUE_NONE\<rparr>" s t]
    by (simp add: rtds_queue_remove_def rtds_is_queued_def)
qed (simp add: rtds_queue_remove_def rtds_is_queued_def)

text \<open>The three moves of a thread that has got new private data.\<close>

lemma rtds_wf_upd:
  assumes "rtds_wf s p" and "cpu_of s t = p" and "queue (f (rtds_of s t)) = queue (rtds_of s t)"
  shows "rtds_wf (upd_rtds t f s) p"
proof -
  have "cpu_of (upd_rtds t f s) = cpu_of s" by (auto simp: fun_eq_iff)
  then show ?thesis using assms by (auto simp: rtds_wf_def)
qed

lemma rtds_relink:
  assumes "lq_home rtds_cpu (cpu_of s) p L" and "cpu_of s t = p" and "rtds_queue_at (place L t) = k"
    and "\<And>u. u \<noteq> t \<Longrightarrow> place L u = place (rtds_queues s) u" and "rtds_wf s p"
  shows "rtds_wf (upd_rtds t (\<lambda>d. d\<lparr>queue := k\<rparr>) (s\<lparr>rtds_queues := L\<rparr>)) p"
proof -
  have "cpu_of (upd_rtds t (\<lambda>d. d\<lparr>queue := k\<rparr>) (s\<lparr>rtds_queues := L\<rparr>)) = cpu_of s" by (auto simp: fun_eq_iff)
  then show ?thesis using assms by (auto simp: rtds_wf_def)
qed

lemma rtds_queue_remove_ok:
  assumes "rtds_wf s p" and "cpu_of s t = p"
  shows "sched_step p s (rtds_queue_remove t s)" and "rtds_wf (rtds_queue_remove t s) p"
    and "rtds_members (rtds_queue_remove t s) p = rtds_members s p - {t}"
    and "rtds_ready_q (rtds_queue_remove t s) p = remove1 t (rtds_ready_q s p)"
    and "rtds_depleted_q (rtds_queue_remove t s) p = remove1 t (rtds_depleted_q s p)"
    and "rtds_of (rtds_queue_remove t s) u = (if u = t then (rtds_of s t)\<lparr>queue := RTDS_QUEUE_NONE\<rparr> else rtds_of s u)"
    and "place (rtds_queues (rtds_queue_remove t s)) t = None"
proof -
  have h: "lq_home rtds_cpu (cpu_of s) p (rtds_queues s)" using assms(1) by (simp add: rtds_wf_def)
  note del = lq_local_del_init [OF h assms(2)] and eq = rtds_queue_remove_eq [OF assms]
  have "cpu_of (s\<lparr>rtds_queues := lq_del_init t (rtds_queues s)\<rparr>) t = p" using assms(2) by simp
  then show "sched_step p s (rtds_queue_remove t s)"
    unfolding eq by (rule sched_step_trans [OF sched_step_queue(4) [OF del(1)] sched_step_upd_data])
  show "rtds_wf (rtds_queue_remove t s) p"
    unfolding eq by (rule rtds_relink [OF del(2) assms(2) _ _ assms(1)]) simp_all
  show "rtds_members (rtds_queue_remove t s) p = rtds_members s p - {t}"
    unfolding eq using del(3) by (simp add: rtds_members_def)
  show "rtds_ready_q (rtds_queue_remove t s) p = remove1 t (rtds_ready_q s p)"
    "rtds_depleted_q (rtds_queue_remove t s) p = remove1 t (rtds_depleted_q s p)"
    unfolding eq using elems_lq_del_init [OF lq_homeD(1) [OF h]] by simp_all
  show "rtds_of (rtds_queue_remove t s) u = (if u = t then (rtds_of s t)\<lparr>queue := RTDS_QUEUE_NONE\<rparr> else rtds_of s u)"
    "place (rtds_queues (rtds_queue_remove t s)) t = None"
    unfolding eq by simp_all
qed

lemma rtds_insert_unlinked:
  assumes "rtds_wf s p" and "cpu_of s t = p" and "place (rtds_queues s) t = None"
    and "L = lq_insert stop (Ready p) t (rtds_queues s) \<and> k = RTDS_QUEUE_READY \<or>
      L = lq_add_tail (Depleted p) t (rtds_queues s) \<and> k = RTDS_QUEUE_DEPLETED"
  defines "s' \<equiv> upd_rtds t (\<lambda>d. d\<lparr>queue := k\<rparr>) (s\<lparr>rtds_queues := L\<rparr>)"
  shows "sched_step p s s'" and "rtds_wf s' p" and "rtds_members s' p = insert t (rtds_members s p)"
proof -
  have h: "lq_home rtds_cpu (cpu_of s) p (rtds_queues s)" using assms(1) by (simp add: rtds_wf_def)
  have r: "rtds_cpu (Ready p) = p" "rtds_cpu (Depleted p) = p" by simp_all
  note ad = lq_local_adds(7-9) [where stop = stop, OF h assms(2) r(1) assms(3)]
    lq_local_adds(4-6) [OF h assms(2) r(2) assms(3)]
  have L: "lq_local rtds_cpu (cpu_of s) p (rtds_queues s) L" "lq_home rtds_cpu (cpu_of s) p L"
    "lq_members rtds_cpu p L = insert t (lq_members rtds_cpu p (rtds_queues s))"
    "rtds_queue_at (place L t) = k" "\<And>u. u \<noteq> t \<Longrightarrow> place L u = place (rtds_queues s) u"
    using assms(4) ad by auto
  have "cpu_of (s\<lparr>rtds_queues := L\<rparr>) t = p" using assms(2) by simp
  then show "sched_step p s s'"
    unfolding s'_def by (rule sched_step_trans [OF sched_step_queue(4) [OF L(1)] sched_step_upd_data])
  show "rtds_wf s' p" unfolding s'_def by (rule rtds_relink [OF L(2) assms(2) L(4,5) assms(1)])
  show "rtds_members s' p = insert t (rtds_members s p)" using L(3) by (simp add: s'_def rtds_members_def)
qed

lemma rtds_ready_insert_ok:
  assumes "rtds_wf s p" and "cpu_of s t = p" and "sched_ctl (threads s t) = p"
  shows "sched_step p s (rtds_ready_insert t s)" and "rtds_wf (rtds_ready_insert t s) p"
    and "rtds_members (rtds_ready_insert t s) p = insert t (rtds_members s p)"
    and "rtds_ready_q (rtds_ready_insert t s) p = insert_before (rtds_stop s t) t (remove1 t (rtds_ready_q s p))"
    and "rtds_depleted_q (rtds_ready_insert t s) p = remove1 t (rtds_depleted_q s p)"
    and "rtds_of (rtds_ready_insert t s) u = (if u = t then (rtds_of s t)\<lparr>queue := RTDS_QUEUE_READY\<rparr> else rtds_of s u)"
proof -
  let ?r = "rtds_queue_remove t s"
  note rm = rtds_queue_remove_ok [OF assms(1,2)]
  note pub = public_eq_thread [OF sched_step_public [OF rm(1)], of t]
  have eq: "rtds_ready_insert t s = upd_rtds t (\<lambda>d. d\<lparr>queue := RTDS_QUEUE_READY\<rparr>)
      (?r\<lparr>rtds_queues := lq_insert (rtds_stop ?r t) (Ready p) t (rtds_queues ?r)\<rparr>)"
    using assms(3) pub(2)
    by (cases "queue (rtds_of s t) = RTDS_QUEUE_NONE")
      (simp_all add: rtds_ready_insert_def Let_def rtds_queue_remove_def rtds_is_queued_def)
  have st: "rtds_stop ?r t = rtds_stop s t" using rm(6) by (auto simp: fun_eq_iff rtds_stop_def)
  have c: "cpu_of ?r t = p" using pub(1) assms(2) by simp
  have pl: "place (rtds_queues ?r) t = None" by (rule rm(7))
  note ins = rtds_insert_unlinked [OF rm(2) c pl, of _ "rtds_stop ?r t" RTDS_QUEUE_READY]
  show "sched_step p s (rtds_ready_insert t s)" unfolding eq using sched_step_trans [OF rm(1) ins(1)] by simp
  show "rtds_wf (rtds_ready_insert t s) p" unfolding eq using ins(2) by simp
  show "rtds_members (rtds_ready_insert t s) p = insert t (rtds_members s p)" unfolding eq using ins(3) rm(3) by simp
  show "rtds_ready_q (rtds_ready_insert t s) p = insert_before (rtds_stop s t) t (remove1 t (rtds_ready_q s p))"
    "rtds_depleted_q (rtds_ready_insert t s) p = remove1 t (rtds_depleted_q s p)"
    unfolding eq using rm(4,5) st by simp_all
  show "rtds_of (rtds_ready_insert t s) u = (if u = t then (rtds_of s t)\<lparr>queue := RTDS_QUEUE_READY\<rparr> else rtds_of s u)"
    unfolding eq using rm(6) [of u] rm(6) [of t] by simp
qed

lemma rtds_depleted_insert_ok:
  assumes "rtds_wf s p" and "cpu_of s t = p" and "sched_ctl (threads s t) = p"
  shows "sched_step p s (rtds_depleted_insert t s)" and "rtds_wf (rtds_depleted_insert t s) p"
    and "rtds_members (rtds_depleted_insert t s) p = insert t (rtds_members s p)"
    and "rtds_ready_q (rtds_depleted_insert t s) p = remove1 t (rtds_ready_q s p)"
    and "rtds_depleted_q (rtds_depleted_insert t s) p =
      (if t \<in> set (rtds_depleted_q s p) then rtds_depleted_q s p else rtds_depleted_q s p @ [t])"
    and "rtds_of (rtds_depleted_insert t s) u =
      (if u = t then (rtds_of s t)\<lparr>queue := RTDS_QUEUE_DEPLETED\<rparr> else rtds_of s u)"
proof -
  let ?r = "rtds_queue_remove t s" and ?s' = "rtds_depleted_insert t s"
  note wf = rtds_wfD [OF assms(1)]
  have "sched_step p s ?s' \<and> rtds_wf ?s' p \<and> rtds_members ?s' p = insert t (rtds_members s p) \<and>
    rtds_ready_q ?s' p = remove1 t (rtds_ready_q s p) \<and>
    rtds_depleted_q ?s' p = (if t \<in> set (rtds_depleted_q s p) then rtds_depleted_q s p else rtds_depleted_q s p @ [t]) \<and>
    (\<forall>u. rtds_of ?s' u = (if u = t then (rtds_of s t)\<lparr>queue := RTDS_QUEUE_DEPLETED\<rparr> else rtds_of s u))"
  proof (cases "queue (rtds_of s t) = RTDS_QUEUE_DEPLETED")
    case True
    have "t \<in> rtds_members s p" "t \<in> set (rtds_depleted_q s p)" "t \<notin> set (rtds_ready_q s p)"
      using wf(7-9) [OF assms(2)] True by auto
    then show ?thesis using True assms(1)
      by (auto simp: rtds_depleted_insert_def insert_absorb remove1_idem)
  next
    case False
    note rm = rtds_queue_remove_ok [OF assms(1,2)]
    note pub = public_eq_thread [OF sched_step_public [OF rm(1)], of t]
    have eq: "?s' = upd_rtds t (\<lambda>d. d\<lparr>queue := RTDS_QUEUE_DEPLETED\<rparr>)
        (?r\<lparr>rtds_queues := lq_add_tail (Depleted p) t (rtds_queues ?r)\<rparr>)"
      using False assms(3) pub(2)
      by (cases "queue (rtds_of s t)")
        (simp_all add: rtds_depleted_insert_def Let_def rtds_queue_remove_def rtds_is_queued_def)
    have c: "cpu_of ?r t = p" using pub(1) assms(2) by simp
    have pl: "place (rtds_queues ?r) t = None" by (rule rm(7))
    note ins = rtds_insert_unlinked [OF rm(2) c pl, of "lq_add_tail (Depleted p) t (rtds_queues ?r)" undefined RTDS_QUEUE_DEPLETED]
    have nd: "t \<notin> set (rtds_depleted_q s p)" using wf(8) [OF assms(2)] False by simp
    show ?thesis
      unfolding eq using sched_step_trans [OF rm(1) ins(1)] ins(2,3) rm(3-6) nd by (simp add: remove1_idem)
  qed
  then show "sched_step p s ?s'" "rtds_wf ?s' p" "rtds_members ?s' p = insert t (rtds_members s p)"
    "rtds_ready_q ?s' p = remove1 t (rtds_ready_q s p)"
    "rtds_depleted_q ?s' p = (if t \<in> set (rtds_depleted_q s p) then rtds_depleted_q s p else rtds_depleted_q s p @ [t])"
    "rtds_of ?s' u = (if u = t then (rtds_of s t)\<lparr>queue := RTDS_QUEUE_DEPLETED\<rparr> else rtds_of s u)"
    by blast+
qed

text \<open>A thread with new data goes to the queue that its remaining budget asks for.\<close>

definition rtds_requeue :: "tid \<Rightarrow> (sched_rtds_data \<Rightarrow> sched_rtds_data) \<Rightarrow> hv \<Rightarrow> hv" where
  "rtds_requeue t f s =
     (let s = upd_rtds t f s
      in if remaining_ticks (rtds_of s t) > 0 then rtds_ready_insert t s else rtds_depleted_insert t s)"

lemma rtds_requeue_ok:
  assumes "rtds_wf s p" and "cpu_of s t = p" and "sched_ctl (threads s t) = p"
    and "queue (f (rtds_of s t)) = queue (rtds_of s t)"
  defines "s' \<equiv> rtds_requeue t f s" and "d \<equiv> f (rtds_of s t)"
  shows "sched_step p s s'" and "rtds_wf s' p" and "rtds_members s' p = insert t (rtds_members s p)"
    and "rtds_ready_q s' p = (if 0 < remaining_ticks d
      then insert_before (rtds_stop s' t) t (remove1 t (rtds_ready_q s p)) else remove1 t (rtds_ready_q s p))"
    and "rtds_depleted_q s' p = (if 0 < remaining_ticks d then remove1 t (rtds_depleted_q s p)
      else if t \<in> set (rtds_depleted_q s p) then rtds_depleted_q s p else rtds_depleted_q s p @ [t])"
    and "rtds_of s' u = (if u = t then d\<lparr>queue := (if 0 < remaining_ticks d then RTDS_QUEUE_READY
      else RTDS_QUEUE_DEPLETED)\<rparr> else rtds_of s u)"
proof -
  let ?u = "upd_rtds t f s"
  have c: "cpu_of ?u t = p" "sched_ctl (threads ?u t) = p" using assms(2,3) by simp_all
  have wf: "rtds_wf ?u p" by (rule rtds_wf_upd [where f = f, OF assms(1,2,4)])
  have st: "sched_step p s ?u" by (rule sched_step_upd_data [OF assms(2)])
  note ri = rtds_ready_insert_ok [OF wf c] and di = rtds_depleted_insert_ok [OF wf c]
  have s': "s' = (if 0 < remaining_ticks d then rtds_ready_insert t ?u else rtds_depleted_insert t ?u)"
    by (simp add: s'_def rtds_requeue_def d_def)
  have m: "rtds_members ?u p = rtds_members s p" by (simp add: rtds_members_def)
  show "sched_step p s s'" using s' sched_step_trans [OF st ri(1)] sched_step_trans [OF st di(1)] by simp
  show "rtds_wf s' p" "rtds_members s' p = insert t (rtds_members s p)" using s' ri(2,3) di(2,3) m by simp_all
  show o: "rtds_of s' u = (if u = t then d\<lparr>queue := (if 0 < remaining_ticks d then RTDS_QUEUE_READY
      else RTDS_QUEUE_DEPLETED)\<rparr> else rtds_of s u)" for u
    using s' ri(6) di(6) by (simp add: d_def)
  have "rtds_stop ?u t = rtds_stop s' t" using o by (auto simp: fun_eq_iff rtds_stop_def d_def)
  then show "rtds_ready_q s' p = (if 0 < remaining_ticks d
      then insert_before (rtds_stop s' t) t (remove1 t (rtds_ready_q s p)) else remove1 t (rtds_ready_q s p))"
    using s' ri(4) di(4) by simp
  show "rtds_depleted_q s' p = (if 0 < remaining_ticks d then remove1 t (rtds_depleted_q s p)
      else if t \<in> set (rtds_depleted_q s p) then rtds_depleted_q s p else rtds_depleted_q s p @ [t])"
    using s' ri(5) di(5) by simp
qed

text \<open>The ready queue, apart from thread \<open>c\<close>, is in deadline order.\<close>

definition rtds_sorted_but :: "tid option \<Rightarrow> hv \<Rightarrow> pcpu \<Rightarrow> bool" where
  "rtds_sorted_but c s p \<longleftrightarrow>
     sorted (map (\<lambda>t. deadline_ticks (rtds_of s t)) (filter (\<lambda>t. c \<noteq> Some t) (rtds_ready_q s p)))"

abbreviation rtds_sorted :: "hv \<Rightarrow> pcpu \<Rightarrow> bool" where
  "rtds_sorted s p \<equiv> rtds_sorted_but None s p"

lemma rtds_sorted_def: "rtds_sorted s p \<longleftrightarrow> sorted (map (\<lambda>t. deadline_ticks (rtds_of s t)) (rtds_ready_q s p))"
  by (simp add: rtds_sorted_but_def)

lemma rtds_sorted_but_any: "rtds_sorted s p \<Longrightarrow> rtds_sorted_but c s p"
  by (simp add: rtds_sorted_but_def sorted_filter)

lemma rtds_requeue_inv:
  assumes "rtds_wf s p" and "cpu_of s t = p" and "sched_ctl (threads s t) = p"
    and "queue (f (rtds_of s t)) = queue (rtds_of s t)"
    and "\<forall>u \<in> set (rtds_ready_q s p) - {t}. 0 < remaining_ticks (rtds_of s u)"
  shows "rtds_inv (rtds_requeue t f s) p"
    and "rtds_sorted_but (Some t) s p \<Longrightarrow> rtds_sorted (rtds_requeue t f s) p"
    and "(\<And>d. rtds_data_ok d \<Longrightarrow> rtds_data_ok (f d)) \<Longrightarrow> rtds_prep s u \<Longrightarrow> rtds_prep (rtds_requeue t f s) u"
proof -
  note r = rtds_requeue_ok [where f = f, OF assms(1-4)]
  have d: "distinct (rtds_ready_q s p)" by (rule rtds_wfD(2) [OF assms(1)])
  show "rtds_inv (rtds_requeue t f s) p"
    unfolding rtds_inv_def r(4) r(6) using r(2) assms(5) d by auto
  have x: "remove1 t (rtds_ready_q s p) = filter (\<lambda>u. Some t \<noteq> Some u) (rtds_ready_q s p)"
    unfolding distinct_remove1_removeAll [OF d] removeAll_filter_not_eq by simp
  show "rtds_sorted (rtds_requeue t f s) p" if so: "rtds_sorted_but (Some t) s p"
  proof -
    have "map (\<lambda>u. deadline_ticks (rtds_of (rtds_requeue t f s) u)) (remove1 t (rtds_ready_q s p)) =
        map (\<lambda>u. deadline_ticks (rtds_of s u)) (remove1 t (rtds_ready_q s p))"
      using r(6) d by (intro map_cong) auto
    then have "sorted (map (\<lambda>u. deadline_ticks (rtds_of (rtds_requeue t f s) u)) (remove1 t (rtds_ready_q s p)))"
      using so x by (simp add: rtds_sorted_but_def del: map_eq_conv)
    then show ?thesis using rq.sorted_insert r(4) by (simp add: rtds_sorted_def)
  qed
  show "rtds_prep (rtds_requeue t f s) u"
    if "\<And>d. rtds_data_ok d \<Longrightarrow> rtds_data_ok (f d)" "rtds_prep s u"
    using that r(6) by (auto simp: rtds_prep_def rtds_data_ok_def)
qed

section \<open>Refreshing the queues\<close>

lemma rtds_is_active_upd [simp]: "rtds_is_active (upd_rtds t f s) u = rtds_is_active s u"
  by (simp add: rtds_is_active_def rtds_is_current_def is_idle_thread_def)

lemma rtds_is_active_public: "public_eq s s' \<Longrightarrow> rtds_is_active s' t = rtds_is_active s t"
  by (simp add: rtds_is_active_def rtds_is_current_def is_idle_public public_eq_thread public_eq_rest)

lemma rtds_refresh_thread_requeue:
  assumes "rtds_is_active s t" and "\<not> be_blocking (threads s t)"
  shows "rtds_refresh_thread t now s = rtds_requeue t (rtds_advanced now) s"
  using assms by (simp add: rtds_refresh_thread_def rtds_requeue_def Let_def)

lemma rtds_ready_insert_removed: "rtds_ready_insert t (rtds_queue_remove t s) = rtds_ready_insert t s"
  by (cases "queue (rtds_of s t) = RTDS_QUEUE_NONE")
    (simp_all add: rtds_ready_insert_def rtds_queue_remove_def rtds_is_queued_def)

lemma rtds_depleted_insert_removed:
  "queue (rtds_of s t) = RTDS_QUEUE_READY \<Longrightarrow> rtds_depleted_insert t (rtds_queue_remove t s) = rtds_depleted_insert t s"
  by (simp add: rtds_depleted_insert_def rtds_queue_remove_def rtds_is_queued_def Let_def)

text \<open>The body of the first loop is the refresh of a thread whose deadline has passed.\<close>

lemma rtds_refresh_ready_eq:
  assumes "rtds_is_active s t" and "\<not> be_blocking (threads s t)" and "queue (rtds_of s t) = RTDS_QUEUE_READY"
    and "rtds_data_ok (rtds_of s t)" and "unat now < 2 ^ 63"
  shows "rtds_refresh_ready now t s =
    (if now < deadline_ticks (rtds_of s t) then s else rtds_requeue t (rtds_advanced now) s)"
proof (cases "now < deadline_ticks (rtds_of s t)")
  case True
  then show ?thesis by (simp add: rtds_refresh_ready_def rtds_advance_period_def)
next
  case False
  let ?u = "upd_rtds t (rtds_advanced now) s"
  let ?r = "rtds_queue_remove t ?u"
  have u: "upd_rtds t (\<lambda>_. rtds_advanced now (rtds_of s t)) s = ?u"
    by (cases "threads s t"; cases "data (threads s t)") (simp add: upd_thread_def)
  have f: "fst (rtds_advance_period (rtds_of s t) now)" using False by (simp add: rtds_advance_period_def Let_def)
  have r: "rtds_of ?r t = (rtds_advanced now (rtds_of s t))\<lparr>queue := RTDS_QUEUE_NONE\<rparr>"
    "rtds_is_active ?r t" "\<not> be_blocking (threads ?r t)"
    using assms(1-3) by (simp_all add: rtds_queue_remove_def rtds_is_queued_def rtds_is_active_def
        rtds_is_current_def is_idle_thread_def)
  have "now < deadline_ticks (rtds_of ?r t)" using rtds_advanced_later [OF assms(4,5)] r(1) by simp
  then have "upd_rtds t (rtds_advanced now) ?r = ?r" by (intro upd_rtds_id) simp
  then have "rtds_refresh_thread t now ?r =
      (if remaining_ticks (rtds_of ?u t) > 0 then rtds_ready_insert t ?r else rtds_depleted_insert t ?r)"
    using r by (simp add: rtds_refresh_thread_def)
  also have "\<dots> = rtds_requeue t (rtds_advanced now) s"
    using rtds_depleted_insert_removed [of ?u t] assms(3)
    by (simp add: rtds_ready_insert_removed rtds_requeue_def)
  finally show ?thesis using False f u by (simp add: rtds_refresh_ready_def case_prod_beta)
qed

text \<open>What holds of the queued threads when the loops start, and what the loops keep of it.\<close>

definition rtds_live :: "pcpu \<Rightarrow> hv \<Rightarrow> bool" where
  "rtds_live p s \<longleftrightarrow> (\<forall>t \<in> rtds_members s p. sched_ctl (threads s t) = p \<and> rtds_prep s t \<and>
     rtds_is_active s t \<and> \<not> be_blocking (threads s t))"

definition rtds_pass :: "pcpu \<Rightarrow> u64 \<Rightarrow> hv \<Rightarrow> hv \<Rightarrow> bool" where
  "rtds_pass p now s0 s \<longleftrightarrow> unat now < 2 ^ 63 \<and> rtds_live p s0 \<and> sched_step p s0 s \<and> rtds_inv s p \<and>
     rtds_members s p = rtds_members s0 p \<and> (\<forall>u. rtds_prep s0 u \<longrightarrow> rtds_prep s u) \<and>
     (rtds_sorted s0 p \<longrightarrow> rtds_sorted s p)"

lemma rtds_pass_refl: "rtds_inv s p \<Longrightarrow> rtds_live p s \<Longrightarrow> unat now < 2 ^ 63 \<Longrightarrow> rtds_pass p now s s"
  by (simp add: rtds_pass_def)

lemma rtds_passD:
  assumes "rtds_pass p now s0 s" and "t \<in> rtds_members s p"
  shows "rtds_wf s p" and "cpu_of s t = p" and "sched_ctl (threads s t) = p" and "rtds_data_ok (rtds_of s t)"
    and "rtds_is_active s t" and "\<not> be_blocking (threads s t)" and "unat now < 2 ^ 63"
proof -
  show wf: "rtds_wf s p" and "unat now < 2 ^ 63" using assms(1) by (simp_all add: rtds_pass_def rtds_inv_def)
  show "cpu_of s t = p" by (rule rtds_wfD(6) [OF wf assms(2)])
  have pub: "public_eq s0 s" using assms(1) unfolding rtds_pass_def by (blast dest: sched_step_public)
  have "sched_ctl (threads s0 t) = p \<and> rtds_prep s0 t \<and> rtds_is_active s0 t \<and> \<not> be_blocking (threads s0 t)"
    using assms by (simp add: rtds_pass_def rtds_live_def)
  then show "sched_ctl (threads s t) = p" "rtds_data_ok (rtds_of s t)" "rtds_is_active s t" "\<not> be_blocking (threads s t)"
    using assms(1) public_eq_thread [OF pub] rtds_is_active_public [OF pub]
    by (auto simp: rtds_pass_def rtds_prep_def)
qed

lemma rtds_pass_requeue:
  assumes "rtds_pass p now s0 s" and "t \<in> rtds_members s p"
  shows "rtds_pass p now s0 (rtds_requeue t (rtds_advanced now) s)"
proof -
  note D = rtds_passD [OF assms]
  have q: "queue (rtds_advanced now (rtds_of s t)) = queue (rtds_of s t)" by simp
  have b: "\<forall>u \<in> set (rtds_ready_q s p) - {t}. 0 < remaining_ticks (rtds_of s u)"
    using assms(1) by (simp add: rtds_pass_def rtds_inv_def)
  note r = rtds_requeue_ok [where f = "rtds_advanced now", OF D(1-3) q]
    and i = rtds_requeue_inv [where f = "rtds_advanced now", OF D(1-3) q b]
  have "rtds_prep (rtds_requeue t (rtds_advanced now) s) u" if "rtds_prep s0 u" for u
    by (rule i(3)) (use rtds_advanced_ok assms(1) that in \<open>auto simp: rtds_pass_def\<close>)
  moreover have "rtds_sorted (rtds_requeue t (rtds_advanced now) s) p" if "rtds_sorted s0 p"
    by (rule i(2)) (use assms(1) that rtds_sorted_but_any in \<open>auto simp: rtds_pass_def\<close>)
  moreover have "sched_step p s0 (rtds_requeue t (rtds_advanced now) s)"
    using assms(1) sched_step_trans [OF _ r(1)] by (simp add: rtds_pass_def)
  ultimately show ?thesis
    using assms r(3) i(1) by (auto simp: rtds_pass_def)
qed

lemma rtds_pass_effect:
  assumes "rtds_pass p now s0 s" and "t \<in> rtds_members s p"
  defines "s' \<equiv> rtds_requeue t (rtds_advanced now) s"
  shows "removeAll t (rtds_ready_q s' p) = removeAll t (rtds_ready_q s p)"
    and "t \<in> set (rtds_depleted_q s p) \<Longrightarrow> removeAll t (rtds_depleted_q s' p) = removeAll t (rtds_depleted_q s p)"
    and "now < deadline_ticks (rtds_of s' t)" and "u \<noteq> t \<Longrightarrow> rtds_of s' u = rtds_of s u"
    and "t \<in> set (rtds_depleted_q s' p) \<Longrightarrow> remaining_ticks (rtds_of s' t) = 0 \<and> queue (rtds_of s' t) = RTDS_QUEUE_DEPLETED"
proof -
  note D = rtds_passD [OF assms(1,2)]
  have q: "queue (rtds_advanced now (rtds_of s t)) = queue (rtds_of s t)" by simp
  note r = rtds_requeue_ok [where f = "rtds_advanced now", OF D(1-3) q, folded s'_def]
  have d: "distinct (rtds_ready_q s p)" "distinct (rtds_depleted_q s p)" by (rule rtds_wfD(2,3) [OF D(1)])+
  show "removeAll t (rtds_ready_q s' p) = removeAll t (rtds_ready_q s p)"
    unfolding r(4) distinct_remove1_removeAll [OF d(1)] by simp
  show "removeAll t (rtds_depleted_q s' p) = removeAll t (rtds_depleted_q s p)" if "t \<in> set (rtds_depleted_q s p)"
    unfolding r(5) distinct_remove1_removeAll [OF d(2)] using that by simp
  show "now < deadline_ticks (rtds_of s' t)" using rtds_advanced_later [OF D(4,7)] r(6) by simp
  show "rtds_of s' u = rtds_of s u" if "u \<noteq> t" using that r(6) by simp
  show "remaining_ticks (rtds_of s' t) = 0 \<and> queue (rtds_of s' t) = RTDS_QUEUE_DEPLETED"
    if "t \<in> set (rtds_depleted_q s' p)"
    using that r(5) r(6) [of t] d(2) by (auto simp: word_gt_0 split: if_splits)
qed

lemma rtds_pass_ready_body:
  assumes "rtds_pass p now s0 s" and "t \<in> set (rtds_ready_q s p)"
  shows "t \<in> rtds_members s p" and "rtds_refresh_ready now t s =
    (if now < deadline_ticks (rtds_of s t) then s else rtds_requeue t (rtds_advanced now) s)"
proof -
  have wf: "rtds_wf s p" using assms(1) by (simp add: rtds_pass_def rtds_inv_def)
  show m: "t \<in> rtds_members s p" using assms(2) rtds_wfD(1) [OF wf] by simp
  note D = rtds_passD [OF assms(1) m]
  show "rtds_refresh_ready now t s =
    (if now < deadline_ticks (rtds_of s t) then s else rtds_requeue t (rtds_advanced now) s)"
    by (rule rtds_refresh_ready_eq [OF D(5,6) rtds_wfD(4) [OF wf assms(2)] D(4,7)])
qed

interpretation ready_pass: safe_pass "\<lambda>s. rtds_ready_q s p" "rtds_refresh_ready now" "rtds_pass p now s0"
  "\<lambda>t s. now < deadline_ticks (rtds_of s t)" for p now s0
proof (unfold_locales, goal_cases)
  case (1 s)
  then show ?case using rtds_wfD(2) by (simp add: rtds_pass_def rtds_inv_def)
next
  case (2 s x)
  note b = rtds_pass_ready_body [OF 2]
  show ?case using 2(1) b(2) rtds_pass_requeue [OF 2(1) b(1)] by simp
next
  case (3 s x)
  note b = rtds_pass_ready_body [OF 3]
  show ?case using b(2) rtds_pass_effect(1) [OF 3(1) b(1)] by simp
next
  case (4 s x)
  note b = rtds_pass_ready_body [OF 4(1,2)]
  show ?case using b(2) rtds_pass_effect(3) [OF 4(1) b(1)] by simp
next
  case (5 s x)
  then show ?case using rtds_pass_ready_body(2) by simp
next
  case (6 s x y)
  note b = rtds_pass_ready_body [OF 6(1,2)]
  show ?case using 6(4,5) b(2) rtds_pass_effect(4) [OF 6(1) b(1) 6(4)] by simp
qed

text \<open>The second loop runs with every deadline of the ready queue in the future, and keeps it so.\<close>

definition rtds_pass2 :: "pcpu \<Rightarrow> u64 \<Rightarrow> hv \<Rightarrow> hv \<Rightarrow> bool" where
  "rtds_pass2 p now s0 s \<longleftrightarrow> rtds_pass p now s0 s \<and> (\<forall>t \<in> set (rtds_ready_q s p). now < deadline_ticks (rtds_of s t))"

lemma rtds_pass2_body:
  assumes "rtds_pass2 p now s0 s" and "t \<in> set (rtds_depleted_q s p)"
  shows "rtds_pass p now s0 s" and "t \<in> rtds_members s p"
    and "rtds_refresh_thread t now s = rtds_requeue t (rtds_advanced now) s"
    and "rtds_pass2 p now s0 (rtds_refresh_thread t now s)"
proof -
  show ps: "rtds_pass p now s0 s" using assms(1) by (simp add: rtds_pass2_def)
  then have wf: "rtds_wf s p" by (simp add: rtds_pass_def rtds_inv_def)
  show m: "t \<in> rtds_members s p" using assms(2) rtds_wfD(1) [OF wf] by simp
  note D = rtds_passD [OF ps m] and e = rtds_pass_effect [OF ps m]
  show eq: "rtds_refresh_thread t now s = rtds_requeue t (rtds_advanced now) s"
    by (rule rtds_refresh_thread_requeue [OF D(5,6)])
  have "now < deadline_ticks (rtds_of (rtds_requeue t (rtds_advanced now) s) u)"
    if u: "u \<in> set (rtds_ready_q (rtds_requeue t (rtds_advanced now) s) p)" for u
  proof (cases "u = t")
    case False
    then have "u \<in> set (rtds_ready_q s p)" using arg_cong [OF e(1), of set] u by auto
    then show ?thesis using assms(1) e(4) [OF False] by (simp add: rtds_pass2_def)
  qed (use e(3) in simp)
  then show "rtds_pass2 p now s0 (rtds_refresh_thread t now s)"
    using rtds_pass_requeue [OF ps m] by (simp add: rtds_pass2_def eq)
qed

interpretation depleted_pass: safe_pass "\<lambda>s. rtds_depleted_q s p" "\<lambda>t. rtds_refresh_thread t now" "rtds_pass2 p now s0"
  "\<lambda>t s. now < deadline_ticks (rtds_of s t) \<and> remaining_ticks (rtds_of s t) = 0 \<and>
     queue (rtds_of s t) = RTDS_QUEUE_DEPLETED" for p now s0
proof (unfold_locales, goal_cases)
  case (1 s)
  then show ?case using rtds_wfD(3) by (simp add: rtds_pass2_def rtds_pass_def rtds_inv_def)
next
  case (2 s x)
  then show ?case by (rule rtds_pass2_body(4))
next
  case (3 s x)
  note b = rtds_pass2_body [OF 3]
  show ?case unfolding b(3) by (rule rtds_pass_effect(2) [OF b(1,2) 3(2)])
next
  case (4 s x)
  note b = rtds_pass2_body [OF 4(1,2)]
  show ?case using rtds_pass_effect(3,5) [OF b(1,2)] 4(3) unfolding b(3) by blast
next
  case (5 s x)
  then show ?case by (simp add: rtds_refresh_thread_def upd_rtds_id rtds_depleted_insert_def)
next
  case (6 s x y)
  note b = rtds_pass2_body [OF 6(1,2)]
  show ?case using 6(5) rtds_pass_effect(4) [OF b(1,2) 6(4)] unfolding b(3) by simp
qed

text \<open>
  Both loops end. Afterwards every queued thread has its deadline in the future, and it is in the
  depleted queue exactly when it has no budget left.
\<close>

lemma rtds_refresh_queues_ok:
  assumes "rtds_inv s p" and "rtds_live p s" and "unat now < 2 ^ 63"
  obtains s' where "rtds_refresh_queues p now s = Some s'" and "rtds_pass2 p now s s'"
    and "\<And>t. t \<in> set (rtds_depleted_q s' p) \<Longrightarrow> now < deadline_ticks (rtds_of s' t) \<and> remaining_ticks (rtds_of s' t) = 0"
proof -
  let ?s1 = "fold (rtds_refresh_ready now) (rtds_ready_q s p) s"
  let ?s2 = "fold (\<lambda>t. rtds_refresh_thread t now) (rtds_depleted_q ?s1 p) ?s1"
  have 0: "rtds_pass p now s s" by (rule rtds_pass_refl [OF assms])
  have 1: "rtds_pass2 p now s ?s1"
    using ready_pass.pass_ok [OF 0] ready_pass.pass_fin [OF 0] by (simp add: rtds_pass2_def)
  have "rtds_refresh_queues p now s = Some ?s2"
    by (simp add: rtds_refresh_queues_def ready_pass.loop_is_fold [OF 0] depleted_pass.loop_is_fold [OF 1])
  then show thesis
    using that depleted_pass.pass_ok [OF 1] depleted_pass.pass_fin [OF 1] by blast
qed

section \<open>The running thread\<close>

lemma upd_rtds_comp: "upd_rtds t f (upd_rtds t g s) = upd_rtds t (f \<circ> g) s"
  by (cases "threads s t"; cases "data (threads s t)") (simp add: upd_thread_def)

lemma rtds_requeue_comp: "rtds_requeue t f (upd_rtds t g s) = rtds_requeue t (f \<circ> g) s"
  by (simp add: rtds_requeue_def upd_rtds_comp)

lemma rtds_account_runtime_eq:
  "\<not> is_idle_thread s t \<Longrightarrow> rtds_account_runtime t now s =
     upd_rtds t (rtds_accounted (status (threads s t) = THREAD_STS_RUNNING) now) s"
  using upd_rtds_id [of "rtds_accounted (status (threads s t) = THREAD_STS_RUNNING) now" s t]
  by (auto simp: rtds_account_runtime_def rtds_accounted_def upd_thread_def
      intro!: arg_cong [where f = "\<lambda>x. s\<lparr>threads := (threads s)(t := x)\<rparr>"]
      thread_object.equality sched_data.equality)

lemma rtds_inv_unlinked:
  assumes "rtds_inv s p" and "cpu_of s t = p" and "t \<notin> rtds_members s p"
    and "queue (f (rtds_of s t)) = queue (rtds_of s t)"
  shows "sched_step p s (upd_rtds t f s)" and "rtds_inv (upd_rtds t f s) p"
    and "rtds_members (upd_rtds t f s) p = rtds_members s p"
    and "rtds_sorted_but (Some t) s p \<Longrightarrow> rtds_sorted (upd_rtds t f s) p"
    and "(\<And>d. rtds_data_ok d \<Longrightarrow> rtds_data_ok (f d)) \<Longrightarrow> rtds_prep s u \<Longrightarrow> rtds_prep (upd_rtds t f s) u"
proof -
  have wf: "rtds_wf s p" using assms(1) by (simp add: rtds_inv_def)
  have n: "t \<notin> set (rtds_ready_q s p)" using assms(3) rtds_wfD(1) [OF wf] by simp
  show "sched_step p s (upd_rtds t f s)" by (rule sched_step_upd_data [OF assms(2)])
  show "rtds_inv (upd_rtds t f s) p"
    using rtds_wf_upd [where f = f, OF wf assms(2,4)] assms(1) n by (auto simp: rtds_inv_def)
  show "rtds_members (upd_rtds t f s) p = rtds_members s p" by (simp add: rtds_members_def)
  have "filter (\<lambda>u. Some t \<noteq> Some u) (rtds_ready_q s p) = rtds_ready_q s p" using n by (auto intro: filter_True)
  moreover have "map (\<lambda>u. deadline_ticks (rtds_of (upd_rtds t f s) u)) (rtds_ready_q s p) =
      map (\<lambda>u. deadline_ticks (rtds_of s u)) (rtds_ready_q s p)" using n by auto
  ultimately show "rtds_sorted_but (Some t) s p \<Longrightarrow> rtds_sorted (upd_rtds t f s) p"
    by (simp add: rtds_sorted_but_def del: map_eq_conv)
  show "(\<And>d. rtds_data_ok d \<Longrightarrow> rtds_data_ok (f d)) \<Longrightarrow> rtds_prep s u \<Longrightarrow> rtds_prep (upd_rtds t f s) u"
    by (auto simp: rtds_prep_def)
qed

text \<open>
  What \<open>pick_next\<close> and the timer callback rely on: the threads that wait or may go on running are
  set up for this CPU, and a running thread that is about to block is in no queue.
\<close>

definition rtds_ctx :: "pcpu \<Rightarrow> hv \<Rightarrow> bool" where
  "rtds_ctx p s \<longleftrightarrow> rtds_inv s p \<and>
     (\<forall>t \<in> rtds_members s p \<union> waiting_current False s p. cpu_of s t = p \<and> t \<noteq> Idle p \<and>
        sched_ctl (threads s t) = p \<and> rtds_prep s t \<and> rtds_is_active s t \<and> \<not> be_blocking (threads s t)) \<and>
     (\<exists>c. curr_obj (ctl s p) = Some c \<and> cpu_of s c = p \<and>
        (c \<noteq> Idle p \<longrightarrow> c \<notin> waiting_current False s p \<longrightarrow> \<not> rtds_is_active s c \<and> c \<notin> rtds_members s p))"

lemma rtds_ctx_sched_inv:
  assumes "sched_inv rtds_members rtds_inv rtds_prep False s p"
  shows "rtds_ctx p s"
proof -
  have ok: "cpu_ok s p" and inv: "rtds_inv s p" and sub: "rtds_members s p \<subseteq> ready s p"
    using assms by (auto simp: sched_inv_def)
  have live: "cpu_of s t = p \<and> t \<noteq> Idle p \<and> sched_ctl (threads s t) = p \<and> rtds_prep s t \<and>
      rtds_is_active s t \<and> \<not> be_blocking (threads s t)" if t: "t \<in> ready s p" for t
  proof -
    note m = sched_inv_member [OF assms t]
    have st: "status (threads s t) = THREAD_STS_RUNNABLE \<or>
        status (threads s t) = THREAD_STS_RUNNING \<and> \<not> be_blocking (threads s t)"
      using t by (simp add: ready_def)
    then have "\<not> be_blocking (threads s t)" using cpu_okD(4) [OF ok m(1)] by auto
    then show ?thesis
      using m st cpu_okD(3) [OF ok m(1)] by (auto simp: rtds_is_active_def rtds_is_current_def is_idle_on)
  qed
  obtain c where c: "curr_obj (ctl s p) = Some c" "cpu_of s c = p" using sched_inv_current [OF assms] by blast
  have "\<not> rtds_is_active s c \<and> c \<notin> rtds_members s p" if "c \<noteq> Idle p" "c \<notin> waiting_current False s p"
  proof -
    have n: "c \<notin> ready s p" using that(2) c(1) by (simp add: waiting_current_def)
    have "status (threads s c) = THREAD_STS_RUNNING" using cpu_okD(3) [OF ok c(2)] c(1) by simp
    then have "be_blocking (threads s c)" using n c(2) that(1) by (simp add: ready_def)
    then show ?thesis using n sub \<open>status (threads s c) = THREAD_STS_RUNNING\<close>
      by (auto simp: rtds_is_active_def)
  qed
  moreover have "waiting_current False s p \<subseteq> ready s p" by (auto simp: waiting_current_def)
  ultimately show ?thesis unfolding rtds_ctx_def using inv sub live c by blast
qed

text \<open>The opening of \<open>pick_next\<close> and of the timer callback: charge and refresh the running thread.\<close>

definition rtds_refresh_current :: "pcpu \<Rightarrow> u64 \<Rightarrow> hv \<Rightarrow> hv" where
  "rtds_refresh_current p now s =
     (case curr_obj (ctl s p) of None \<Rightarrow> s
      | Some t \<Rightarrow> if \<not> is_idle_thread s t then rtds_refresh_thread t now (rtds_account_runtime t now s) else s)"

lemma rtds_refresh_current_cases:
  assumes "rtds_ctx p s"
  obtains (idle) "rtds_refresh_current p now s = s" and "curr_obj (ctl s p) = Some (Idle p)"
      and "waiting_current False s p = {}"
  | (waits) c f where "curr_obj (ctl s p) = Some c" and "waiting_current False s p = {c}"
      and "rtds_refresh_current p now s = rtds_requeue c f s"
      and "\<And>d. queue (f d) = queue d" and "\<And>d. rtds_data_ok d \<Longrightarrow> rtds_data_ok (f d)"
  | (blocks) c f where "curr_obj (ctl s p) = Some c" and "waiting_current False s p = {}" and "cpu_of s c = p"
      and "c \<notin> rtds_members s p" and "rtds_refresh_current p now s = upd_rtds c f s"
      and "\<And>d. queue (f d) = queue d" and "\<And>d. rtds_data_ok d \<Longrightarrow> rtds_data_ok (f d)"
proof -
  obtain c where c: "curr_obj (ctl s p) = Some c" "cpu_of s c = p"
    and b: "c \<noteq> Idle p \<Longrightarrow> c \<notin> waiting_current False s p \<Longrightarrow> \<not> rtds_is_active s c \<and> c \<notin> rtds_members s p"
    using assms by (auto simp: rtds_ctx_def)
  have w: "waiting_current False s p \<subseteq> {c}" using c(1) by (auto simp: waiting_current_def)
  let ?g = "rtds_accounted (status (threads s c) = THREAD_STS_RUNNING) now"
  let ?f = "rtds_advanced now \<circ> ?g"
  have f: "\<And>d. queue (?f d) = queue d" "\<And>d. rtds_data_ok d \<Longrightarrow> rtds_data_ok (?f d)"
    using rtds_advanced_ok rtds_accounted_ok by auto
  show thesis
  proof (cases "c = Idle p")
    case True
    then have "Idle p \<notin> waiting_current False s p" using assms by (auto simp: rtds_ctx_def)
    then have "waiting_current False s p = {}" using w True by blast
    then show thesis using idle c True by (simp add: rtds_refresh_current_def is_idle_on)
  next
    case False
    then have rc: "rtds_refresh_current p now s = rtds_refresh_thread c now (upd_rtds c ?g s)"
      using c rtds_account_runtime_eq [of s c now] by (simp add: rtds_refresh_current_def is_idle_on)
    show thesis
    proof (cases "c \<in> waiting_current False s p")
      case True
      then have "rtds_is_active s c" "\<not> be_blocking (threads s c)" using assms by (auto simp: rtds_ctx_def)
      then have "rtds_refresh_current p now s = rtds_requeue c ?f s"
        unfolding rc by (simp add: rtds_refresh_thread_requeue rtds_requeue_comp)
      moreover have "waiting_current False s p = {c}" using w True by blast
      ultimately show thesis using waits [OF c(1) _ _ f] by blast
    next
      case False
      note nb = b [OF \<open>c \<noteq> Idle p\<close> False]
      then have "rtds_refresh_current p now s = upd_rtds c ?f s"
        unfolding rc by (simp add: rtds_refresh_thread_def upd_rtds_comp)
      moreover have "waiting_current False s p = {}" using w False by blast
      ultimately show thesis using blocks [OF c(1) _ c(2) _ _ f] nb by blast
    qed
  qed
qed

lemma rtds_refresh_current_ok:
  fixes now :: u64
  assumes "rtds_ctx p s"
  defines "s' \<equiv> rtds_refresh_current p now s"
  shows "sched_step p s s'" and "rtds_inv s' p" and "rtds_members s' p = rtds_members s p \<union> waiting_current False s p"
    and "rtds_prep s u \<Longrightarrow> rtds_prep s' u" and "rtds_sorted_but (curr_obj (ctl s p)) s p \<Longrightarrow> rtds_sorted s' p"
    and "rtds_live p s'"
proof -
  have inv: "rtds_inv s p" using assms(1) by (simp add: rtds_ctx_def)
  then have wf: "rtds_wf s p" by (simp add: rtds_inv_def)
  have all: "sched_step p s s' \<and> rtds_inv s' p \<and> rtds_members s' p = rtds_members s p \<union> waiting_current False s p \<and>
    (\<forall>u. rtds_prep s u \<longrightarrow> rtds_prep s' u) \<and> (rtds_sorted_but (curr_obj (ctl s p)) s p \<longrightarrow> rtds_sorted s' p)"
  proof (rule rtds_refresh_current_cases [OF assms(1), where now = now])
    assume i: "rtds_refresh_current p now s = s" "curr_obj (ctl s p) = Some (Idle p)" "waiting_current False s p = {}"
    have "Idle p \<notin> set (rtds_ready_q s p)" using assms(1) rtds_wfD(1) [OF wf] by (auto simp: rtds_ctx_def)
    then have "filter (\<lambda>t. curr_obj (ctl s p) \<noteq> Some t) (rtds_ready_q s p) = rtds_ready_q s p"
      using i(2) by (auto intro: filter_True)
    then show ?thesis using i inv by (simp add: s'_def rtds_sorted_but_def)
  next
    fix c f assume w: "curr_obj (ctl s p) = Some c" "waiting_current False s p = {c}"
      "rtds_refresh_current p now s = rtds_requeue c f s"
      and f: "\<And>d. queue (f d) = queue d" "\<And>d. rtds_data_ok d \<Longrightarrow> rtds_data_ok (f d)"
    have c: "cpu_of s c = p" "sched_ctl (threads s c) = p" using assms(1) w(2) by (auto simp: rtds_ctx_def)
    have b: "\<forall>u \<in> set (rtds_ready_q s p) - {c}. 0 < remaining_ticks (rtds_of s u)" using inv by (simp add: rtds_inv_def)
    note r = rtds_requeue_ok [where f = f, OF wf c f(1)] and i = rtds_requeue_inv [where f = f, OF wf c f(1) b]
    show ?thesis using r(1,3) i(1,2) i(3) [OF f(2)] w by (auto simp: s'_def)
  next
    fix c f assume w: "curr_obj (ctl s p) = Some c" "waiting_current False s p = {}" "cpu_of s c = p"
      "c \<notin> rtds_members s p" "rtds_refresh_current p now s = upd_rtds c f s"
      and f: "\<And>d. queue (f d) = queue d" "\<And>d. rtds_data_ok d \<Longrightarrow> rtds_data_ok (f d)"
    note u = rtds_inv_unlinked [where f = f, OF inv w(3,4) f(1)]
    show ?thesis using u(1-4) u(5) [OF f(2)] w by (simp add: s'_def)
  qed
  then show st: "sched_step p s s'" and "rtds_inv s' p" "rtds_prep s u \<Longrightarrow> rtds_prep s' u"
    and mem: "rtds_members s' p = rtds_members s p \<union> waiting_current False s p"
    and "rtds_sorted_but (curr_obj (ctl s p)) s p \<Longrightarrow> rtds_sorted s' p"
    by auto
  note pub = sched_step_public [OF st]
  show "rtds_live p s'"
    using assms(1) all unfolding rtds_live_def mem rtds_ctx_def
    by (simp add: public_eq_thread [OF pub] rtds_is_active_public [OF pub])
qed

text \<open>Charging the running thread and refreshing the queues: the first half of \<open>pick_next\<close>.\<close>

lemma rtds_renew_ok:
  assumes "rtds_ctx p s" and "unat now < 2 ^ 63"
  obtains s' where "rtds_refresh_queues p now (rtds_refresh_current p now s) = Some s'"
    and "sched_step p s s'" and "rtds_inv s' p" and "rtds_members s' p = rtds_members s p \<union> waiting_current False s p"
    and "\<And>u. rtds_prep s u \<Longrightarrow> rtds_prep s' u"
    and "rtds_sorted_but (curr_obj (ctl s p)) s p \<Longrightarrow> rtds_sorted s' p"
    and "\<And>t. t \<in> rtds_members s' p \<Longrightarrow> now < deadline_ticks (rtds_of s' t)"
    and "\<And>t. t \<in> set (rtds_depleted_q s' p) \<Longrightarrow> remaining_ticks (rtds_of s' t) = 0"
proof -
  note c = rtds_refresh_current_ok [where now = now, OF assms(1)]
  obtain s' where s': "rtds_refresh_queues p now (rtds_refresh_current p now s) = Some s'"
    and p2: "rtds_pass2 p now (rtds_refresh_current p now s) s'"
    and d: "\<And>t. t \<in> set (rtds_depleted_q s' p) \<Longrightarrow> now < deadline_ticks (rtds_of s' t) \<and> remaining_ticks (rtds_of s' t) = 0"
    by (rule rtds_refresh_queues_ok [OF c(2,6) assms(2)]) blast
  have ps: "rtds_pass p now (rtds_refresh_current p now s) s'"
    and r: "\<And>t. t \<in> set (rtds_ready_q s' p) \<Longrightarrow> now < deadline_ticks (rtds_of s' t)"
    using p2 by (auto simp: rtds_pass2_def)
  have inv: "rtds_inv s' p" and mem: "rtds_members s' p = rtds_members s p \<union> waiting_current False s p"
    using ps c(3) by (auto simp: rtds_pass_def)
  have "now < deadline_ticks (rtds_of s' t)" if "t \<in> rtds_members s' p" for t
    using that r d rtds_wfD(1) [of s' p] inv by (auto simp: rtds_inv_def)
  moreover have "sched_step p s s'" using ps sched_step_trans [OF c(1)] by (simp add: rtds_pass_def)
  moreover have "rtds_prep s u \<Longrightarrow> rtds_prep s' u" for u using ps c(4) by (simp add: rtds_pass_def)
  moreover have "rtds_sorted_but (curr_obj (ctl s p)) s p \<Longrightarrow> rtds_sorted s' p"
    using ps c(5) by (simp add: rtds_pass_def)
  ultimately show thesis using that s' inv mem d by blast
qed

section \<open>The choice\<close>

lemma rtds_best_Some:
  "rtds_best s (Some b) ts = Some c \<Longrightarrow> c \<in> insert b (set ts) \<and>
     (\<forall>u \<in> insert b (set ts). deadline_ticks (rtds_of s c) \<le> deadline_ticks (rtds_of s u))"
proof (induction ts arbitrary: b)
  case (Cons t ts)
  let ?b = "if deadline_ticks (rtds_of s t) < deadline_ticks (rtds_of s b) then t else b"
  have "rtds_best s (Some ?b) ts = Some c" using Cons.prems by (simp split: if_splits)
  note ih = Cons.IH [OF this]
  have "deadline_ticks (rtds_of s ?b) \<le> deadline_ticks (rtds_of s t)"
    "deadline_ticks (rtds_of s ?b) \<le> deadline_ticks (rtds_of s b)" by auto
  moreover have "deadline_ticks (rtds_of s c) \<le> deadline_ticks (rtds_of s ?b)" using ih by blast
  ultimately show ?case using ih order_trans by (auto split: if_splits)
qed simp

lemma rtds_best_total: "\<exists>c. rtds_best s (Some b) ts = Some c"
  by (induction ts arbitrary: b) auto

lemma rtds_best_None:
  "rtds_best s None ts = None \<longleftrightarrow> ts = []"
  "rtds_best s None ts = Some c \<Longrightarrow> c \<in> set ts \<and> (\<forall>u \<in> set ts. deadline_ticks (rtds_of s c) \<le> deadline_ticks (rtds_of s u))"
proof -
  show "rtds_best s None ts = None \<longleftrightarrow> ts = []"
  proof (cases ts)
    case (Cons t us)
    then show ?thesis using rtds_best_total [of s t us] by auto
  qed simp
  show "rtds_best s None ts = Some c \<Longrightarrow> c \<in> set ts \<and> (\<forall>u \<in> set ts. deadline_ticks (rtds_of s c) \<le> deadline_ticks (rtds_of s u))"
    using rtds_best_Some by (cases ts) auto
qed

lemma rtds_inv_remove:
  assumes "rtds_inv s p" and "cpu_of s t = p"
  shows "rtds_inv (rtds_queue_remove t s) p" and "rtds_sorted s p \<Longrightarrow> rtds_sorted (rtds_queue_remove t s) p"
proof -
  have wf: "rtds_wf s p" using assms(1) by (simp add: rtds_inv_def)
  note rm = rtds_queue_remove_ok [OF wf assms(2)]
  have d: "deadline_ticks (rtds_of (rtds_queue_remove t s) u) = deadline_ticks (rtds_of s u)"
    "remaining_ticks (rtds_of (rtds_queue_remove t s) u) = remaining_ticks (rtds_of s u)" for u
    using rm(6) [of u] by simp_all
  show "rtds_inv (rtds_queue_remove t s) p"
    using rm(2) assms(1) set_remove1_subset [of t "rtds_ready_q s p"] unfolding rtds_inv_def rm(4) d by auto
  show "rtds_sorted (rtds_queue_remove t s) p" if "rtds_sorted s p"
    using that rq.sorted_remove [of s "rtds_ready_q s p" t] unfolding rtds_sorted_def rm(4) d by simp
qed

text \<open>The thread that is taken: the first of the ready queue, else the best of the depleted queue.\<close>

lemma rtds_choose_cases:
  assumes "rtds_wf s p" and "this_cpu s = p"
  obtains (none) "rtds_members s p = {}" and "rtds_choose p s = (Idle p, s)"
  | (budget) n where "rtds_choose p s = (n, rtds_queue_remove n s)" and "n \<in> set (rtds_ready_q s p)"
      and "n = hd (rtds_ready_q s p)"
  | (slack) n where "rtds_choose p s = (n, rtds_queue_remove n s)" and "n \<in> set (rtds_depleted_q s p)"
      and "rtds_ready_q s p = []"
      and "\<And>u. u \<in> set (rtds_depleted_q s p) \<Longrightarrow> deadline_ticks (rtds_of s n) \<le> deadline_ticks (rtds_of s u)"
proof (cases "rtds_ready_q s p")
  case (Cons t ts)
  show thesis by (rule budget [of t]) (simp_all add: rtds_choose_def Cons)
next
  case Nil
  show thesis
  proof (cases "rtds_best s None (rtds_depleted_q s p)")
    case None
    then have "rtds_depleted_q s p = []" using rtds_best_None(1) by blast
    then have "rtds_members s p = {}" using rtds_wfD(1) [OF assms(1)] Nil by simp
    moreover have "rtds_choose p s = (Idle p, s)"
      using None Nil assms(2) by (simp add: rtds_choose_def rtds_pick_depleted_slack_def)
    ultimately show thesis by (rule none)
  next
    case (Some n)
    have "rtds_choose p s = (n, rtds_queue_remove n s)"
      using Nil Some by (simp add: rtds_choose_def rtds_pick_depleted_slack_def)
    then show thesis using slack Nil rtds_best_None(2) [OF Some] by blast
  qed
qed

lemma rtds_choose_ok:
  assumes "rtds_inv s p" and "this_cpu s = p" and "rtds_choose p s = (n, s')"
  shows "sched_step p s s'" and "rtds_inv s' p" and "rtds_members s' p = rtds_members s p - {n}"
    and "if rtds_members s p = {} then n = Idle p else n \<in> rtds_members s p"
    and "\<exists>k. rtds_of s' u = (rtds_of s u)\<lparr>queue := k\<rparr>"
    and "rtds_sorted s p \<Longrightarrow> rtds_sorted s' p"
proof -
  have wf: "rtds_wf s p" using assms(1) by (simp add: rtds_inv_def)
  have take: "sched_step p s x \<and> rtds_inv x p \<and> rtds_members x p = rtds_members s p - {t} \<and>
      (\<forall>u. \<exists>k. rtds_of x u = (rtds_of s u)\<lparr>queue := k\<rparr>) \<and> (rtds_sorted s p \<longrightarrow> rtds_sorted x p)"
    if t: "t \<in> rtds_members s p" and x: "x = rtds_queue_remove t s" for t x
  proof -
    have c: "cpu_of s t = p" by (rule rtds_wfD(6) [OF wf t])
    have "\<exists>k. rtds_of x u = (rtds_of s u)\<lparr>queue := k\<rparr>" for u
      by (rule exI [of _ "if u = t then RTDS_QUEUE_NONE else queue (rtds_of s u)"])
        (use rtds_queue_remove_ok(6) [OF wf c, of u] x in simp)
    then show ?thesis using rtds_queue_remove_ok(1,3) [OF wf c] rtds_inv_remove [OF assms(1) c] x by simp
  qed
  have same: "\<exists>k. rtds_of s u = (rtds_of s u)\<lparr>queue := k\<rparr>" for u by (rule exI [of _ "queue (rtds_of s u)"]) simp
  have mem: "rtds_members s p = set (rtds_ready_q s p) \<union> set (rtds_depleted_q s p)" by (rule rtds_wfD(1) [OF wf])
  consider (none) "rtds_members s p = {}" "n = Idle p" "s' = s"
    | (some) "n \<in> rtds_members s p" "s' = rtds_queue_remove n s"
    by (rule rtds_choose_cases [OF wf assms(2)]) (use assms(3) mem in auto)
  then have all: "sched_step p s s' \<and> rtds_inv s' p \<and> rtds_members s' p = rtds_members s p - {n} \<and>
    (rtds_members s p = {} \<and> n = Idle p \<or> n \<in> rtds_members s p) \<and>
    (\<forall>u. \<exists>k. rtds_of s' u = (rtds_of s u)\<lparr>queue := k\<rparr>) \<and> (rtds_sorted s p \<longrightarrow> rtds_sorted s' p)"
  proof cases
    case none
    then show ?thesis using assms(1) same by simp
  next
    case some
    then show ?thesis using take [OF some] some(1) by blast
  qed
  then show "sched_step p s s'" "rtds_inv s' p" "rtds_members s' p = rtds_members s p - {n}"
    "\<exists>k. rtds_of s' u = (rtds_of s u)\<lparr>queue := k\<rparr>" "rtds_sorted s p \<Longrightarrow> rtds_sorted s' p"
    by blast+
  have "rtds_members s p = {} \<and> n = Idle p \<or> n \<in> rtds_members s p" using all by blast
  then show "if rtds_members s p = {} then n = Idle p else n \<in> rtds_members s p" by auto
qed

text \<open>Which thread it is, once the depleted queue holds only threads without budget.\<close>

lemma rtds_choose_least:
  assumes "rtds_inv s p" and "this_cpu s = p" and "rtds_choose p s = (n, s')" and "rtds_sorted s p"
    and "\<And>t. t \<in> set (rtds_depleted_q s p) \<Longrightarrow> remaining_ticks (rtds_of s t) = 0" and "u \<in> rtds_members s p"
  shows "0 < remaining_ticks (rtds_of s u) \<Longrightarrow> 0 < remaining_ticks (rtds_of s n)"
    and "0 < remaining_ticks (rtds_of s u) \<or> remaining_ticks (rtds_of s n) = 0 \<Longrightarrow>
      deadline_ticks (rtds_of s n) \<le> deadline_ticks (rtds_of s u)"
proof -
  have wf: "rtds_wf s p" using assms(1) by (simp add: rtds_inv_def)
  have mem: "rtds_members s p = set (rtds_ready_q s p) \<union> set (rtds_depleted_q s p)" by (rule rtds_wfD(1) [OF wf])
  have bud: "0 < remaining_ticks (rtds_of s t)" if "t \<in> set (rtds_ready_q s p)" for t
    using assms(1) that by (simp add: rtds_inv_def)
  have "(0 < remaining_ticks (rtds_of s u) \<longrightarrow> 0 < remaining_ticks (rtds_of s n)) \<and>
    (0 < remaining_ticks (rtds_of s u) \<or> remaining_ticks (rtds_of s n) = 0 \<longrightarrow>
      deadline_ticks (rtds_of s n) \<le> deadline_ticks (rtds_of s u))"
  proof (rule rtds_choose_cases [OF wf assms(2)])
    assume "rtds_members s p = {}"
    then show ?thesis using assms(6) by simp
  next
    fix m assume m: "rtds_choose p s = (m, rtds_queue_remove m s)" "m \<in> set (rtds_ready_q s p)" "m = hd (rtds_ready_q s p)"
    have "deadline_ticks (rtds_of s m) \<le> deadline_ticks (rtds_of s u)" if "u \<in> set (rtds_ready_q s p)"
    proof -
      have "rtds_ready_q s p \<noteq> []" using that by auto
      then show ?thesis using rq.hd_least [of s "rtds_ready_q s p" u] assms(4) m(3) that by (simp add: rtds_sorted_def)
    qed
    then show ?thesis using m assms(3,5,6) mem bud [of m] by auto
  next
    fix m assume m: "rtds_choose p s = (m, rtds_queue_remove m s)" "m \<in> set (rtds_depleted_q s p)" "rtds_ready_q s p = []"
      "\<And>u. u \<in> set (rtds_depleted_q s p) \<Longrightarrow> deadline_ticks (rtds_of s m) \<le> deadline_ticks (rtds_of s u)"
    then show ?thesis using assms(3,5,6) mem by auto
  qed
  then show "0 < remaining_ticks (rtds_of s u) \<Longrightarrow> 0 < remaining_ticks (rtds_of s n)"
    "0 < remaining_ticks (rtds_of s u) \<or> remaining_ticks (rtds_of s n) = 0 \<Longrightarrow>
      deadline_ticks (rtds_of s n) \<le> deadline_ticks (rtds_of s u)" by blast+
qed

section \<open>The contract holds\<close>

lemma rtds_program_timer_more: "timer_env.more (rtds_program_timer p r s) = timer_env.more (s :: hv)"
  by (simp add: rtds_program_timer_def rtds_program_local_timer_def cpu_ticks_def Let_def)

lemma rtds_program_timer_step: "sched_step p s (rtds_program_timer p r s)"
proof -
  let ?t = "Some (RtdsTick p)"
  let ?s1 = "del_timer ?t (s\<lparr>tsc_reads := Suc (tsc_reads s)\<rparr>)"
  let ?c = "rtds_timeout p r (tsc s (tsc_reads s)) ?s1"
  have 1: "sched_step p s ?s1" by (rule sched_step_trans [OF sched_step_read sched_step_del_timer])
  have 2: "sched_step p ?s1 (update_timer ?t ?c 0 ?s1)" by (rule sched_step_update_timer) simp
  have 3: "sched_step p (update_timer ?t ?c 0 ?s1) (snd (add_timer ?t (update_timer ?t ?c 0 ?s1)))"
    by (rule sched_step_add_timer) simp
  have "rtds_program_timer p r s \<in> {s, ?s1, snd (add_timer ?t (update_timer ?t ?c 0 ?s1))}"
    by (simp add: rtds_program_timer_def rtds_program_local_timer_def cpu_ticks_def Let_def)
  then show ?thesis using 1 sched_step_trans [OF 1 sched_step_trans [OF 2 3]] by auto
qed

text \<open>A change that leaves the threads and the queues of the scheduler alone.\<close>

lemma rtds_same:
  assumes "threads s' = threads s" and "rtds_queues s' = rtds_queues s"
  shows "rtds_inv s' p = rtds_inv s p" and "rtds_members s' p = rtds_members s p"
    and "rtds_prep s' u = rtds_prep s u" and "rtds_sorted_but c s' p = rtds_sorted_but c s p"
  by (simp_all add: rtds_inv_def rtds_wf_def rtds_members_def rtds_prep_def rtds_sorted_but_def assms)

lemmas rtds_timer_same = rtds_same [OF hv_more_eq(1,7) [OF rtds_program_timer_more]]

lemma rtds_read_same [simp]:
  "rtds_inv (s\<lparr>tsc_reads := k\<rparr>) p = rtds_inv s p" "rtds_members (s\<lparr>tsc_reads := k\<rparr>) p = rtds_members s p"
  "rtds_prep (s\<lparr>tsc_reads := k\<rparr>) u = rtds_prep s u" "rtds_sorted_but c (s\<lparr>tsc_reads := k\<rparr>) p = rtds_sorted_but c s p"
  by (rule rtds_same; simp)+

lemma rtds_ctx_same:
  assumes "rtds_ctx p s" and "threads s' = threads s" and "rtds_queues s' = rtds_queues s"
    and "\<And>q. curr_obj (ctl s' q) = curr_obj (ctl s q)"
  shows "rtds_ctx p s'"
proof -
  have "waiting_current False s' p = waiting_current False s p"
    by (simp add: waiting_current_def ready_def assms(2,4))
  moreover have "rtds_is_active s' t = rtds_is_active s t" for t
    by (simp add: rtds_is_active_def rtds_is_current_def is_idle_thread_def assms(2,4))
  ultimately show ?thesis
    using assms(1) by (simp add: rtds_ctx_def rtds_same [OF assms(2,3)] assms(2,4))
qed

lemma sched_rtds_pick_next_eq:
  "sched_rtds_pick_next p s =
     (let now = tsc s (tsc_reads s);
          s1 = s\<lparr>tsc_reads := Suc (tsc_reads s)\<rparr>
      in map_option (\<lambda>s2. let (n, s3) = rtds_choose p s2;
             s4 = (if \<not> is_idle_thread s3 n then upd_rtds n (\<lambda>d. d\<lparr>last_start_ticks := now\<rparr>) s3 else s3)
           in (n, rtds_program_timer p (Some n) s4))
         (rtds_refresh_queues p now (rtds_refresh_current p now s1)))"
  by (simp add: sched_rtds_pick_next_def rtds_refresh_current_def cpu_ticks_def Let_def case_prod_beta
      split: option.splits)

text \<open>The queues and the data after \<open>pick_next\<close>, and how the choice was made.\<close>

lemma sched_rtds_pick_next_ok:
  assumes "sched_inv rtds_members rtds_inv rtds_prep False s p" and "clock_ok s" and "this_cpu s = p"
  defines "A \<equiv> rtds_members s p \<union> waiting_current False s p" and "now \<equiv> tsc s (tsc_reads s)"
  obtains n s' where "sched_rtds_pick_next p s = Some (n, s')" and "sched_step p s s'" and "rtds_inv s' p"
    and "\<And>u. rtds_prep s u \<Longrightarrow> rtds_prep s' u" and "rtds_members s' p = A - {n}"
    and "if A = {} then n = Idle p else n \<in> A"
    and "\<And>u. u \<in> A \<Longrightarrow> now < deadline_ticks (rtds_of s' u)"
    and "\<And>u. rtds_sorted_but (curr_obj (ctl s p)) s p \<Longrightarrow> u \<in> A \<Longrightarrow> 0 < remaining_ticks (rtds_of s' u) \<Longrightarrow>
      0 < remaining_ticks (rtds_of s' n)"
    and "\<And>u. rtds_sorted_but (curr_obj (ctl s p)) s p \<Longrightarrow> u \<in> A \<Longrightarrow>
      0 < remaining_ticks (rtds_of s' u) \<or> remaining_ticks (rtds_of s' n) = 0 \<Longrightarrow>
      deadline_ticks (rtds_of s' n) \<le> deadline_ticks (rtds_of s' u)"
    and "rtds_sorted_but (curr_obj (ctl s p)) s p \<Longrightarrow> rtds_sorted s' p"
proof -
  let ?s1 = "s\<lparr>tsc_reads := Suc (tsc_reads s)\<rparr>"
  have ctx: "rtds_ctx p ?s1" by (rule rtds_ctx_same [OF rtds_ctx_sched_inv [OF assms(1)]]) simp_all
  have now: "unat now < 2 ^ 63" using assms(2) by (simp add: clock_ok_def now_def)
  have A: "rtds_members ?s1 p \<union> waiting_current False ?s1 p = A"
    by (simp add: A_def rtds_members_def waiting_current_def ready_def)
  obtain s2 where r: "rtds_refresh_queues p now (rtds_refresh_current p now ?s1) = Some s2"
    and 2: "sched_step p ?s1 s2" "rtds_inv s2 p" "rtds_members s2 p = A" "\<And>u. rtds_prep ?s1 u \<Longrightarrow> rtds_prep s2 u"
      "rtds_sorted_but (curr_obj (ctl ?s1 p)) ?s1 p \<Longrightarrow> rtds_sorted s2 p"
      "\<And>t. t \<in> rtds_members s2 p \<Longrightarrow> now < deadline_ticks (rtds_of s2 t)"
      "\<And>t. t \<in> set (rtds_depleted_q s2 p) \<Longrightarrow> remaining_ticks (rtds_of s2 t) = 0"
    by (rule rtds_renew_ok [OF ctx now, unfolded A]) blast
  have tc: "this_cpu s2 = p" using public_eq_rest(6) [OF sched_step_public [OF 2(1)]] assms(3) by simp
  obtain n s3 where ch: "rtds_choose p s2 = (n, s3)" by (cases "rtds_choose p s2")
  note c = rtds_choose_ok [OF 2(2) tc ch] and l = rtds_choose_least [OF 2(2) tc ch _ 2(7)]
  define s4 where "s4 = (if \<not> is_idle_thread s3 n then upd_rtds n (\<lambda>d. d\<lparr>last_start_ticks := now\<rparr>) s3 else s3)"
  define s' where "s' = rtds_program_timer p (Some n) s4"
  have pick: "sched_rtds_pick_next p s = Some (n, s')"
    using r ch by (simp add: sched_rtds_pick_next_eq now_def [symmetric] s'_def s4_def)
  have cn: "cpu_of s3 n = p" if "\<not> is_idle_thread s3 n"
  proof -
    have pub: "public_eq s s3"
      using public_eq_trans [OF sched_step_public [OF sched_step_read]
          public_eq_trans [OF sched_step_public [OF 2(1)] sched_step_public [OF c(1)]]] .
    have "cpu_of s (Idle p) = p" using assms(1) cpu_okD(1) by (simp add: sched_inv_def)
    then have "n \<noteq> Idle p" using that public_eq_thread(1) [OF pub] by (auto simp: is_idle_thread_def)
    then have "n \<in> rtds_members s2 p" using c(4) by (auto split: if_splits)
    then have "cpu_of s2 n = p" using rtds_wfD(6) 2(2) by (simp add: rtds_inv_def)
    then show ?thesis using public_eq_thread(1) [OF sched_step_public [OF c(1)]] by simp
  qed
  have nm: "n \<notin> rtds_members s3 p" using c(3) by simp
  have 4: "sched_step p s3 s4" "rtds_inv s4 p" "rtds_members s4 p = rtds_members s3 p"
    "\<And>u. rtds_prep s3 u \<Longrightarrow> rtds_prep s4 u" "rtds_sorted s3 p \<Longrightarrow> rtds_sorted s4 p"
    using rtds_inv_unlinked [where f = "\<lambda>d. d\<lparr>last_start_ticks := now\<rparr>", OF c(2) cn nm] c(2)
      rtds_sorted_but_any [of s3 p "Some n"]
    by (auto simp: s4_def rtds_data_ok_def)
  have same: "deadline_ticks (rtds_of s' u) = deadline_ticks (rtds_of s2 u)"
    "remaining_ticks (rtds_of s' u) = remaining_ticks (rtds_of s2 u)" for u
  proof -
    obtain k where "rtds_of s3 u = (rtds_of s2 u)\<lparr>queue := k\<rparr>" using c(5) by blast
    then show "deadline_ticks (rtds_of s' u) = deadline_ticks (rtds_of s2 u)"
      "remaining_ticks (rtds_of s' u) = remaining_ticks (rtds_of s2 u)"
      by (cases "u = n"; simp add: s'_def hv_more_eq(1) [OF rtds_program_timer_more] s4_def)+
  qed
  show thesis
  proof (rule that [OF pick])
    show "sched_step p s s'"
      unfolding s'_def by (rule sched_step_trans [OF sched_step_trans [OF sched_step_read
            sched_step_trans [OF 2(1) sched_step_trans [OF c(1) 4(1)]]] rtds_program_timer_step])
    show "rtds_inv s' p" "rtds_members s' p = A - {n}"
      using 4(2,3) c(3) 2(3) by (simp_all add: s'_def rtds_timer_same)
    show "if A = {} then n = Idle p else n \<in> A" using c(4) unfolding 2(3) .
    show "rtds_prep s' u" if "rtds_prep s u" for u
    proof -
      have "rtds_prep s2 u" using 2(4) that by (simp add: rtds_prep_def)
      then have "rtds_prep s3 u" using c(5) [of u] by (auto simp: rtds_prep_def rtds_data_ok_def)
      then show ?thesis using 4(4) by (simp add: s'_def rtds_timer_same)
    qed
    show "now < deadline_ticks (rtds_of s' u)" if "u \<in> A" for u using 2(3,6) that same by simp
    assume so: "rtds_sorted_but (curr_obj (ctl s p)) s p"
    have so2: "rtds_sorted s2 p" using so 2(5) by (simp add: rtds_sorted_but_def)
    then show "rtds_sorted s' p" using c(6) 4(5) by (simp add: s'_def rtds_timer_same)
    fix u assume u: "u \<in> A"
    show "0 < remaining_ticks (rtds_of s' u) \<Longrightarrow> 0 < remaining_ticks (rtds_of s' n)"
      "0 < remaining_ticks (rtds_of s' u) \<or> remaining_ticks (rtds_of s' n) = 0 \<Longrightarrow>
        deadline_ticks (rtds_of s' n) \<le> deadline_ticks (rtds_of s' u)"
      unfolding same using l [OF so2] u 2(3) by blast+
  qed
qed

lemma sched_rtds_wake_ok:
  assumes "rtds_inv s p" and "cpu_of s t = p" and "sched_ctl (threads s t) = p"
  shows "sched_step p s (sched_rtds_wake t s)" and "rtds_inv (sched_rtds_wake t s) p"
    and "rtds_members (sched_rtds_wake t s) p = insert t (rtds_members s p)"
    and "rtds_prep s u \<Longrightarrow> rtds_prep (sched_rtds_wake t s) u"
    and "rtds_sorted_but (Some t) s p \<Longrightarrow> rtds_sorted (sched_rtds_wake t s) p"
proof -
  let ?s1 = "s\<lparr>tsc_reads := Suc (tsc_reads s)\<rparr>"
  let ?f = "\<lambda>d. (rtds_advanced (tsc s (tsc_reads s)) d)\<lparr>last_start_ticks := 0\<rparr>"
  let ?s2 = "rtds_requeue t ?f ?s1"
  have i1: "rtds_inv ?s1 p" using assms(1) by simp
  then have wf: "rtds_wf ?s1 p" by (simp add: rtds_inv_def)
  have c: "cpu_of ?s1 t = p" "sched_ctl (threads ?s1 t) = p" using assms(2,3) by simp_all
  have q: "queue (?f (rtds_of ?s1 t)) = queue (rtds_of ?s1 t)" by simp
  have b: "\<forall>u \<in> set (rtds_ready_q ?s1 p) - {t}. 0 < remaining_ticks (rtds_of ?s1 u)" using i1 by (simp add: rtds_inv_def)
  have f: "rtds_data_ok (?f d)" if "rtds_data_ok d" for d
    using rtds_advanced_ok [OF that] by (simp add: rtds_data_ok_def)
  note r = rtds_requeue_ok [where f = ?f, OF wf c q] and i = rtds_requeue_inv [where f = ?f, OF wf c q b]
  have "sched_ctl (threads ?s2 t) = p" using public_eq_thread(2) [OF sched_step_public [OF r(1)], of t] c(2) by simp
  then have w: "sched_rtds_wake t s = rtds_program_timer p (curr_obj (ctl ?s2 p)) ?s2"
    by (simp add: sched_rtds_wake_def cpu_ticks_def rtds_requeue_def Let_def)
  show "sched_step p s (sched_rtds_wake t s)"
    unfolding w by (rule sched_step_trans [OF sched_step_trans [OF sched_step_read r(1)] rtds_program_timer_step])
  show "rtds_inv (sched_rtds_wake t s) p" "rtds_members (sched_rtds_wake t s) p = insert t (rtds_members s p)"
    unfolding w rtds_timer_same using i(1) r(3) by (simp_all add: rtds_members_def)
  show "rtds_prep (sched_rtds_wake t s) u" if "rtds_prep s u"
    unfolding w rtds_timer_same by (rule i(3) [OF f]) (use that in \<open>simp_all add: rtds_prep_def\<close>)
  show "rtds_sorted (sched_rtds_wake t s) p" if "rtds_sorted_but (Some t) s p"
    unfolding w rtds_timer_same by (rule i(2)) (use that in \<open>simp add: rtds_sorted_but_def\<close>)
qed

lemma rtds_dequeue_ok:
  assumes "rtds_inv s p" and "cpu_of s t = p" and "\<And>d. queue (g d) = queue d"
    and "\<And>d. rtds_data_ok d \<Longrightarrow> rtds_data_ok (g d)"
  defines "s' \<equiv> rtds_queue_remove t (upd_rtds t g s)"
  shows "sched_step p s s'" and "rtds_inv s' p" and "rtds_members s' p = rtds_members s p - {t}"
    and "rtds_prep s u \<Longrightarrow> rtds_prep s' u" and "rtds_sorted_but (Some t) s p \<Longrightarrow> rtds_sorted s' p"
proof -
  let ?u = "upd_rtds t g s"
  have wf0: "rtds_wf s p" using assms(1) by (simp add: rtds_inv_def)
  have wf: "rtds_wf ?u p" by (rule rtds_wf_upd [where f = g, OF wf0 assms(2,3)])
  have c: "cpu_of ?u t = p" using assms(2) by simp
  have d: "distinct (rtds_ready_q s p)" by (rule rtds_wfD(2) [OF wf0])
  note rm = rtds_queue_remove_ok [OF wf c, folded s'_def]
  have x: "rtds_ready_q s' p = filter (\<lambda>u. Some t \<noteq> Some u) (rtds_ready_q s p)"
    using rm(4) unfolding upd_thread_frame distinct_remove1_removeAll [OF d] removeAll_filter_not_eq by simp
  have o: "rtds_of s' u = rtds_of s u" if "u \<noteq> t" for u using rm(6) [of u] that by simp
  show "sched_step p s s'" by (rule sched_step_trans [OF sched_step_upd_data [OF assms(2)] rm(1)])
  show "rtds_inv s' p" using rm(2) x o assms(1) by (auto simp: rtds_inv_def)
  show "rtds_members s' p = rtds_members s p - {t}" using rm(3) by (simp add: rtds_members_def)
  show "rtds_prep s' u" if "rtds_prep s u"
    using that rm(6) [of u] assms(4) [of "rtds_of s t"] by (auto simp: rtds_prep_def rtds_data_ok_def split: if_splits)
  have "map (\<lambda>u. deadline_ticks (rtds_of s' u)) (rtds_ready_q s' p) =
      map (\<lambda>u. deadline_ticks (rtds_of s u)) (filter (\<lambda>u. Some t \<noteq> Some u) (rtds_ready_q s p))"
    unfolding x using o by (intro map_cong) auto
  then show "rtds_sorted_but (Some t) s p \<Longrightarrow> rtds_sorted s' p"
    unfolding rtds_sorted_def rtds_sorted_but_def by simp
qed

lemma sched_rtds_sleep_ok:
  assumes "rtds_inv s p" and "cpu_of s t = p" and "sched_ctl (threads s t) = p" and "t \<noteq> Idle p"
  shows "sched_step p s (sched_rtds_sleep t s)" and "rtds_inv (sched_rtds_sleep t s) p"
    and "rtds_members (sched_rtds_sleep t s) p = rtds_members s p - {t}"
    and "rtds_prep s u \<Longrightarrow> rtds_prep (sched_rtds_sleep t s) u"
    and "rtds_sorted_but (Some t) s p \<Longrightarrow> rtds_sorted (sched_rtds_sleep t s) p"
proof -
  let ?r = "s\<lparr>tsc_reads := Suc (tsc_reads s)\<rparr>"
  obtain s1 g where s1: "s1 = s \<or> s1 = ?r" and g: "\<And>d. queue (g d) = queue d" "\<And>d. rtds_data_ok d \<Longrightarrow> rtds_data_ok (g d)"
    and acc: "(if rtds_is_current s t then (let (now, s) = cpu_ticks s in rtds_account_runtime t now s) else s) = upd_rtds t g s1"
  proof (cases "rtds_is_current s t")
    case True
    have "\<not> is_idle_thread ?r t" using assms(2,4) by (simp add: is_idle_thread_def)
    note a = rtds_account_runtime_eq [OF this, of "tsc s (tsc_reads s)"]
    show thesis by (rule that [of ?r, OF _ _ _ trans [OF _ a]]) (use True rtds_accounted_ok in \<open>auto simp: cpu_ticks_def\<close>)
  next
    case False
    show thesis by (rule that [of s id]) (use False upd_rtds_id [of id s t] in simp_all)
  qed
  have 1: "sched_step p s s1" "rtds_inv s1 p" "cpu_of s1 t = p" "sched_ctl (threads s1 t) = p"
    "rtds_members s1 p = rtds_members s p" "\<And>u. rtds_prep s1 u = rtds_prep s u"
    "rtds_sorted_but (Some t) s1 p = rtds_sorted_but (Some t) s p"
    using s1 assms(1-3) sched_step_read by auto
  let ?d = "rtds_queue_remove t (upd_rtds t g s1)" and ?f = "\<lambda>d. d\<lparr>last_start_ticks := 0\<rparr>"
  note dq = rtds_dequeue_ok [where g = g, OF 1(2,3) g]
  note pub = public_eq_thread [OF sched_step_public [OF dq(1)], of t]
  have cd: "cpu_of ?d t = p" "t \<notin> rtds_members ?d p" using pub(1) 1(3) dq(3) by auto
  have qf: "queue (?f (rtds_of ?d t)) = queue (rtds_of ?d t)" by simp
  note u = rtds_inv_unlinked [where f = ?f, OF dq(2) cd qf]
  obtain r where w: "sched_rtds_sleep t s = rtds_program_timer p r (upd_rtds t ?f ?d)"
    using pub(2) 1(4) by (simp add: sched_rtds_sleep_def acc Let_def)
  show "sched_step p s (sched_rtds_sleep t s)"
    unfolding w by (rule sched_step_trans [OF sched_step_trans [OF 1(1) sched_step_trans [OF dq(1) u(1)]] rtds_program_timer_step])
  show "rtds_inv (sched_rtds_sleep t s) p" "rtds_members (sched_rtds_sleep t s) p = rtds_members s p - {t}"
    unfolding w rtds_timer_same using u(2,3) dq(3) 1(5) by simp_all
  show "rtds_prep (sched_rtds_sleep t s) u" if "rtds_prep s u"
    unfolding w rtds_timer_same by (rule u(5)) (use that dq(4) 1(6) in \<open>simp_all add: rtds_data_ok_def\<close>)
  show "rtds_sorted (sched_rtds_sleep t s) p" if "rtds_sorted_but (Some t) s p"
  proof -
    have "rtds_sorted ?d p" by (rule dq(5)) (use that 1(7) in simp_all)
    then have "rtds_sorted_but (Some t) ?d p" by (rule rtds_sorted_but_any)
    then show ?thesis unfolding w rtds_timer_same using u(4) by blast
  qed
qed

lemma sched_rtds_prioritize_ok:
  assumes "rtds_inv s p" and "cpu_of s t = p" and "sched_ctl (threads s t) = p" and "rtds_prep s t"
    and "t \<in> rtds_members s p \<or> curr_obj (ctl s p) = Some t"
  shows "sched_step p s (sched_rtds_prioritize t s)" and "rtds_inv (sched_rtds_prioritize t s) p"
    and "rtds_members (sched_rtds_prioritize t s) p = rtds_members s p"
    and "rtds_prep s u \<Longrightarrow> rtds_prep (sched_rtds_prioritize t s) u"
    and "curr_obj (ctl s p) \<noteq> Some t \<Longrightarrow> rtds_sorted s p \<Longrightarrow> rtds_sorted (sched_rtds_prioritize t s) p"
proof -
  define s1 where "s1 = s\<lparr>tsc_reads := Suc (tsc_reads s)\<rparr>"
  define f where "f = rtds_advanced (tsc s (tsc_reads s))"
  let ?z = "sched_rtds_prioritize t s"
  have 1: "sched_step p s s1" "rtds_inv s1 p" "cpu_of s1 t = p" "sched_ctl (threads s1 t) = p" "rtds_of s1 = rtds_of s"
    "rtds_members s1 p = rtds_members s p" "rtds_sorted s1 p = rtds_sorted s p" "\<And>u. rtds_prep s1 u = rtds_prep s u"
    unfolding s1_def using assms(1-3) sched_step_read by auto
  have wf: "rtds_wf s1 p" using 1(2) by (simp add: rtds_inv_def)
  have f: "\<And>d. queue (f d) = queue d" "\<And>d. rtds_data_ok d \<Longrightarrow> rtds_data_ok (f d)"
    by (simp_all add: f_def rtds_advanced_ok)
  have cur: "rtds_is_current s1 t \<longleftrightarrow> curr_obj (ctl s p) = Some t"
    using assms(3) by (simp add: rtds_is_current_def s1_def)
  have z: "?z = (if \<not> rtds_is_current s1 t \<and> 0 < remaining_ticks (f (rtds_of s t)) then rtds_requeue t f s1 else upd_rtds t f s1)"
    by (simp add: sched_rtds_prioritize_def cpu_ticks_def rtds_requeue_def s1_def f_def rtds_is_current_def Let_def)
  have "sched_step p s ?z \<and> rtds_inv ?z p \<and> rtds_members ?z p = rtds_members s p \<and> (\<forall>u. rtds_prep s u \<longrightarrow> rtds_prep ?z u) \<and>
    (curr_obj (ctl s p) \<noteq> Some t \<longrightarrow> rtds_sorted s p \<longrightarrow> rtds_sorted ?z p)"
  proof (cases "\<not> rtds_is_current s1 t \<and> 0 < remaining_ticks (f (rtds_of s t))")
    case True
    have b: "\<forall>u \<in> set (rtds_ready_q s1 p) - {t}. 0 < remaining_ticks (rtds_of s1 u)" using 1(2) by (simp add: rtds_inv_def)
    note r = rtds_requeue_ok [where f = f, OF wf 1(3,4) f(1)] and i = rtds_requeue_inv [where f = f, OF wf 1(3,4) f(1) b]
    have "t \<in> rtds_members s p" using assms(5) True cur by simp
    then show ?thesis
      using z True sched_step_trans [OF 1(1) r(1)] r(3) i(1) i(2) [OF rtds_sorted_but_any] i(3) [OF f(2)] 1(6-8)
      by (simp add: insert_absorb)
  next
    case False
    have zz: "?z = upd_rtds t f s1" by (rule trans [OF z if_not_P [OF False]])
    have bud: "0 < remaining_ticks (f (rtds_of s t))" if "t \<in> set (rtds_ready_q s1 p)"
    proof -
      have "0 < remaining_ticks (rtds_of s t)" using 1(2) that by (simp add: rtds_inv_def 1(5) [THEN fun_cong])
      then show ?thesis unfolding f_def by (rule rtds_advanced_budget [OF assms(4) [unfolded rtds_prep_def]])
    qed
    have inv: "rtds_inv ?z p"
      unfolding zz using rtds_wf_upd [where f = f, OF wf 1(3) f(1)] 1(2) bud by (auto simp: rtds_inv_def s1_def)
    have so: "rtds_sorted ?z p" if "curr_obj (ctl s p) \<noteq> Some t" "rtds_sorted s p"
    proof -
      have "t \<notin> set (rtds_ready_q s1 p)" using bud False cur that(1) by blast
      then have "map (\<lambda>u. deadline_ticks (rtds_of ?z u)) (rtds_ready_q s1 p) =
          map (\<lambda>u. deadline_ticks (rtds_of s1 u)) (rtds_ready_q s1 p)" by (auto simp: zz)
      then show ?thesis using that(2) 1(7) by (simp add: zz rtds_sorted_def del: map_eq_conv)
    qed
    have "rtds_members ?z p = rtds_members s p" using 1(6) by (simp add: zz rtds_members_def)
    moreover have "sched_step p s ?z" unfolding zz by (rule sched_step_trans [OF 1(1) sched_step_upd_data [OF 1(3)]])
    moreover have "rtds_prep s u \<longrightarrow> rtds_prep ?z u" for u
      using f(2) [of "rtds_of s t"] by (simp add: zz rtds_prep_def s1_def)
    ultimately show ?thesis using inv so by blast
  qed
  then show "sched_step p s ?z" "rtds_inv ?z p" "rtds_members ?z p = rtds_members s p" "rtds_prep s u \<Longrightarrow> rtds_prep ?z u"
    "curr_obj (ctl s p) \<noteq> Some t \<Longrightarrow> rtds_sorted s p \<Longrightarrow> rtds_sorted ?z p" by blast+
qed

lemma rtds_inv_frame:
  assumes "private_eq s s'" and "rtds_inv s p"
  shows "rtds_inv s' p \<and> rtds_members s' p = rtds_members s p"
proof -
  have c: "cpu_of s' = cpu_of s" and q: "rtds_queues s' = rtds_queues s"
    using assms(1) by (auto simp: private_eq_def fun_eq_iff)
  have "rtds_of s' t = rtds_of s t" for t using assms(1) by (simp add: private_eq_def)
  then show ?thesis using assms(2) c q by (simp add: rtds_inv_def rtds_wf_def rtds_members_def fun_eq_iff)
qed

lemma rtds_inv_other:
  assumes "sched_step p s s'" and "q \<noteq> p" and "rtds_inv s q"
  shows "rtds_inv s' q \<and> rtds_members s' q = rtds_members s q"
proof -
  have l: "lq_local rtds_cpu (cpu_of s) p (rtds_queues s) (rtds_queues s')"
    and d: "\<And>t. cpu_of s t \<noteq> p \<Longrightarrow> data (threads s' t) = data (threads s t)"
    using assms(1) by (simp_all add: sched_step_def private_local_def)
  have h: "lq_home rtds_cpu (cpu_of s) q (rtds_queues s)" using assms(3) by (simp add: rtds_inv_def rtds_wf_def)
  note o = sched_step_other_queue [OF assms(1,2) l h]
  have c: "cpu_of s' t = cpu_of s t" for t by (rule public_eq_thread(1) [OF sched_step_public [OF assms(1)]])
  have "place (rtds_queues s') t = place (rtds_queues s) t" if "cpu_of s t = q" for t
    using l that assms(2) by (simp add: lq_local_def)
  then have "rtds_wf s' q"
    using assms(2,3) o(1) d by (simp add: rtds_inv_def rtds_wf_def c)
  moreover have "0 < remaining_ticks (rtds_of s' t)" if "t \<in> set (rtds_ready_q s' q)" for t
    using that o(3) [of "Ready q"] o(4) [of "Ready q" t] assms(3) by (simp add: rtds_inv_def)
  ultimately show ?thesis using o(2) by (simp add: rtds_inv_def rtds_members_def)
qed

lemma rtds_timer_handler_ok:
  assumes "sched_inv rtds_members rtds_inv rtds_prep False s p" and "clock_ok s" and "this_cpu s = p"
  obtains s' where "rtds_timer_handler p s = Some s'" and "tick_step p s s'" and "rtds_inv s' p"
    and "\<And>u. rtds_prep s u \<Longrightarrow> rtds_prep s' u" and "rtds_members s' p = rtds_members s p \<union> waiting_current False s p"
proof -
  define now where "now = tsc s (tsc_reads s)"
  define s1 where "s1 = sched_account_tick p (s\<lparr>tsc_reads := Suc (tsc_reads s)\<rparr>)"
  have th: "threads s1 = threads s" "rtds_queues s1 = rtds_queues s" "\<And>q. curr_obj (ctl s1 q) = curr_obj (ctl s q)"
    by (simp_all add: s1_def sched_account_tick_def)
  have ctx: "rtds_ctx p s1" by (rule rtds_ctx_same [OF rtds_ctx_sched_inv [OF assms(1)] th])
  have now: "unat now < 2 ^ 63" using assms(2) by (simp add: clock_ok_def now_def)
  have 1: "tick_step p s s1"
    unfolding s1_def by (rule tick_step_trans [OF tick_step_sched_step [OF sched_step_read] tick_step_account])
  have A: "rtds_members s1 p \<union> waiting_current False s1 p = rtds_members s p \<union> waiting_current False s p"
    by (simp add: rtds_same(2) [OF th(1,2)] waiting_current_def ready_def th)
  obtain s2 where r: "rtds_refresh_queues p now (rtds_refresh_current p now s1) = Some s2"
    and 2: "sched_step p s1 s2" "rtds_inv s2 p" "rtds_members s2 p = rtds_members s p \<union> waiting_current False s p"
      "\<And>u. rtds_prep s1 u \<Longrightarrow> rtds_prep s2 u"
    by (rule rtds_renew_ok [OF ctx now, unfolded A]) blast
  have "rtds_timer_handler p s =
      map_option (make_reschedule_request p) (rtds_refresh_queues p now (rtds_refresh_current p now s1))"
    using assms(3) by (simp add: rtds_timer_handler_def cpu_ticks_def rtds_refresh_current_def s1_def now_def Let_def)
  then have h: "rtds_timer_handler p s = Some (make_reschedule_request p s2)" using r by simp
  have "private_eq s2 (make_reschedule_request p s2)" by simp
  note f = rtds_inv_frame [OF this 2(2)]
  show thesis
  proof (rule that [OF h])
    show "tick_step p s (make_reschedule_request p s2)"
      by (rule tick_step_trans [OF tick_step_trans [OF 1 tick_step_sched_step [OF 2(1)]] tick_step_request])
    show "rtds_inv (make_reschedule_request p s2) p"
      "rtds_members (make_reschedule_request p s2) p = rtds_members s p \<union> waiting_current False s p"
      using f 2(3) by auto
    show "rtds_prep (make_reschedule_request p s2) u" if "rtds_prep s u" for u
      using 2(4) [of u] that by (simp add: rtds_prep_def make_reschedule_request_def th Let_def)
  qed
qed

lemma sched_rtds_init_data_ok:
  assumes "rtds_inv s p" and "cpu_of s t = p" and "t \<notin> rtds_members s p" and "tickrate s \<noteq> 0"
  shows "sched_step p s (sched_rtds_init_data t params s)" and "rtds_inv (sched_rtds_init_data t params s) p"
    and "rtds_members (sched_rtds_init_data t params s) p = rtds_members s p"
    and "rtds_prep (sched_rtds_init_data t params s) t"
    and "rtds_prep s u \<Longrightarrow> rtds_prep (sched_rtds_init_data t params s) u"
proof -
  let ?s1 = "s\<lparr>tsc_reads := Suc (tsc_reads s)\<rparr>" and ?P = "us_to_ticks s 4000" and ?B = "us_to_ticks s 2000"
  let ?f = "\<lambda>d. d\<lparr>period_ticks := ?P, budget_ticks := ?B, remaining_ticks := ?B,
    deadline_ticks := rtds_next_period_boundary (tsc s (tsc_reads s)) ?P, last_start_ticks := 0, queue := RTDS_QUEUE_NONE\<rparr>"
  have i1: "rtds_inv ?s1 p" "cpu_of ?s1 t = p" "t \<notin> rtds_members ?s1 p" using assms(1-3) by simp_all
  then have wf: "rtds_wf ?s1 p" by (simp add: rtds_inv_def)
  have q: "queue (rtds_of ?s1 t) = RTDS_QUEUE_NONE" using rtds_wfD(7) [OF wf i1(2)] i1(3) by blast
  then have "place (rtds_queues s) t = None" using wf assms(2) by (simp add: rtds_wf_def)
  then have eq: "sched_rtds_init_data t params s = upd_rtds t ?f ?s1"
    by (simp add: sched_rtds_init_data_def cpu_ticks_def lq_init_node_unlinked us_to_ticks_def max_def min_def
        word_le_nat_alt Let_def)
  have qf: "queue (?f (rtds_of ?s1 t)) = queue (rtds_of ?s1 t)" using q by simp
  note u = rtds_inv_unlinked [where f = ?f, OF i1 qf]
  have "?B \<le> ?P"
    using us_to_ticks_bounds(1) [OF assms(4), of 2000] us_to_ticks_bounds(1) [OF assms(4), of 4000]
    by (simp add: word_le_nat_alt div_le_mono)
  then have ok: "rtds_data_ok (?f d)" for d
    using us_to_ticks_bounds(2,3) [OF assms(4), of 4000] by (simp add: rtds_data_ok_def)
  show "sched_step p s (sched_rtds_init_data t params s)" "rtds_inv (sched_rtds_init_data t params s) p"
    "rtds_members (sched_rtds_init_data t params s) p = rtds_members s p"
    unfolding eq using sched_step_trans [OF sched_step_read u(1)] u(2,3) by simp_all
  show "rtds_prep (sched_rtds_init_data t params s) t" "rtds_prep s u \<Longrightarrow> rtds_prep (sched_rtds_init_data t params s) u"
    unfolding eq using u(5) [OF ok] ok by (simp_all add: rtds_prep_def)
qed

interpretation rtds_class: sched_class sched_rtds rtds_members rtds_inv rtds_prep False rtds_timer_handler
proof (unfold_locales, goal_cases)
  case (1 s s' p)
  then show ?case by (rule rtds_inv_frame)
next
  case (2 s s' t)
  then show ?case by (simp add: private_eq_def rtds_prep_def)
next
  case (3 p s s' q)
  then show ?case by (rule rtds_inv_other)
next
  case (4 p s s' t)
  then show ?case by (simp add: sched_step_def private_local_def rtds_prep_def)
next
  case (5 s p t)
  show ?case using sched_rtds_wake_ok [OF 5(1-3)] by (simp add: sched_rtds_def)
next
  case (6 s p t)
  show ?case using sched_rtds_sleep_ok [OF 6] by (simp add: sched_rtds_def)
next
  case (7 s p t f)
  have inv: "rtds_inv s p" and "ready s p \<subseteq> rtds_members s p \<union> waiting_current False s p"
    using 7(1) by (auto simp: sched_inv_def)
  then have m: "t \<in> rtds_members s p \<or> curr_obj (ctl s p) = Some t" using 7(3) by (auto simp: waiting_current_def)
  note t = sched_inv_member [OF 7(1,3)]
  have "f = sched_rtds_prioritize" using 7(4) by (simp add: sched_rtds_def)
  then show ?case using sched_rtds_prioritize_ok [OF inv t(1,3,4) m] by simp
next
  case (8 s p)
  show ?case
    by (rule sched_rtds_pick_next_ok [OF 8]) (simp add: sched_rtds_def Let_def)
next
  case (9 s p)
  show ?case by (rule rtds_timer_handler_ok [OF 9]) blast
next
  case (10 s p t params)
  show ?case using sched_rtds_init_data_ok [OF 10] by (simp add: sched_rtds_def)
qed

section \<open>Deadlines, budgets and the timer\<close>

text \<open>
  C15: The EDF scheduler returns from its queue refresh and runs the thread with the earliest
  deadline among those that have budget left; a thread without budget runs only when no ready
  thread has any, then the one with the earliest replenishment; the idle thread runs only when no
  thread is ready. Deadlines and budgets are those of the period that contains the present.
  The ready queue is in deadline order afterwards.
\<close>

theorem rtds_pick_earliest_deadline:
  assumes "sched_inv rtds_members rtds_inv rtds_prep False s p" and "clock_ok s" and "this_cpu s = p"
    and "rtds_sorted_but (curr_obj (ctl s p)) s p"
  shows "\<exists>n s'. sched_rtds_pick_next p s = Some (n, s') \<and> rtds_sorted s' p \<and>
    (if ready s p = {} then n = Idle p
     else n \<in> ready s p \<and> (\<forall>u \<in> ready s p. tsc s (tsc_reads s) < deadline_ticks (rtds_of s' u) \<and>
       (0 < remaining_ticks (rtds_of s' u) \<longrightarrow> 0 < remaining_ticks (rtds_of s' n)) \<and>
       (0 < remaining_ticks (rtds_of s' u) \<or> remaining_ticks (rtds_of s' n) = 0 \<longrightarrow>
         deadline_ticks (rtds_of s' n) \<le> deadline_ticks (rtds_of s' u))))"
proof -
  have "rtds_members s p \<union> waiting_current False s p = ready s p"
    using assms(1) by (auto simp: sched_inv_def waiting_current_def)
  note pick = sched_rtds_pick_next_ok [OF assms(1-3), unfolded this]
  show ?thesis
  proof (rule pick)
    fix n s'
    let ?so = "rtds_sorted_but (curr_obj (ctl s p)) s p"
    assume a: "sched_rtds_pick_next p s = Some (n, s')" "if ready s p = {} then n = Idle p else n \<in> ready s p"
      "?so \<Longrightarrow> rtds_sorted s' p"
      and b: "\<And>u. u \<in> ready s p \<Longrightarrow> tsc s (tsc_reads s) < deadline_ticks (rtds_of s' u)"
        "\<And>u. ?so \<Longrightarrow> u \<in> ready s p \<Longrightarrow> 0 < remaining_ticks (rtds_of s' u) \<Longrightarrow> 0 < remaining_ticks (rtds_of s' n)"
        "\<And>u. ?so \<Longrightarrow> u \<in> ready s p \<Longrightarrow> 0 < remaining_ticks (rtds_of s' u) \<or> remaining_ticks (rtds_of s' n) = 0 \<Longrightarrow>
          deadline_ticks (rtds_of s' n) \<le> deadline_ticks (rtds_of s' u)"
    have "\<forall>u \<in> ready s p. tsc s (tsc_reads s) < deadline_ticks (rtds_of s' u) \<and>
       (0 < remaining_ticks (rtds_of s' u) \<longrightarrow> 0 < remaining_ticks (rtds_of s' n)) \<and>
       (0 < remaining_ticks (rtds_of s' u) \<or> remaining_ticks (rtds_of s' n) = 0 \<longrightarrow>
         deadline_ticks (rtds_of s' n) \<le> deadline_ticks (rtds_of s' u))"
      using b(1) b(2,3) [OF assms(4)] by blast
    then show ?thesis using a(1,2) a(3) [OF assms(4)] by (cases "ready s p = {}") simp_all
  qed
qed

text \<open>One period boundary, as a server that walks period by period would handle it.\<close>

definition rtds_roll :: "sched_rtds_data \<Rightarrow> sched_rtds_data" where
  "rtds_roll d = d\<lparr>deadline_ticks := deadline_ticks d + period_ticks d, remaining_ticks := budget_ticks d\<rparr>"

lemma rtds_roll_pow:
  "(rtds_roll ^^ Suc k) d =
     d\<lparr>deadline_ticks := deadline_ticks d + of_nat (Suc k) * period_ticks d, remaining_ticks := budget_ticks d\<rparr>"
  by (induction k) (simp_all add: rtds_roll_def algebra_simps)

text \<open>
  C20: The jump over the missed periods is the period-by-period walk: \<^verbatim>\<open>rtds_advance_period\<close>
  does what rolling the server over one boundary at a time does, as long as the deadline is not
  after the present, and it reports whether there was any boundary to pass.
\<close>

theorem rtds_advance_period_walks:
  assumes "rtds_data_ok d" and "unat now < 2 ^ 63"
  shows "\<exists>k. rtds_advance_period d now = (0 < k, (rtds_roll ^^ k) d) \<and>
    (\<forall>j < k. deadline_ticks ((rtds_roll ^^ j) d) \<le> now) \<and> now < deadline_ticks ((rtds_roll ^^ k) d)"
proof (cases "now < deadline_ticks d")
  case True
  then show ?thesis by (intro exI [of _ 0]) (simp add: rtds_advance_period_def)
next
  case False
  let ?P = "period_ticks d" and ?D = "deadline_ticks d"
  define m where "m = (unat now - unat ?D) div unat ?P"
  have le: "?D \<le> now" using False by simp
  have D: "unat ?D \<le> unat now" using le by (simp add: word_le_nat_alt)
  have P: "0 < unat ?P" "unat ?P < 2 ^ 63" using assms(1) by (simp_all add: rtds_data_ok_def)
  have u: "unat (now - ?D) = unat now - unat ?D" by (rule unat_sub_le [OF le])
  have "of_nat m = (now - ?D) div ?P" unfolding m_def u [symmetric] unat_div [symmetric] by simp
  then have w: "(now - ?D) div ?P + 1 = of_nat (Suc m)" by simp
  have adv: "rtds_advance_period d now = (0 < Suc m, (rtds_roll ^^ Suc m) d)"
    unfolding rtds_roll_pow using False by (simp add: rtds_advance_period_def Let_def w del: of_nat_Suc)
  have mP: "m * unat ?P \<le> unat now - unat ?D" by (simp add: m_def)
  have "deadline_ticks ((rtds_roll ^^ j) d) \<le> now" if j: "j < Suc m" for j
  proof (cases j)
    case (Suc i)
    have "Suc i * unat ?P \<le> m * unat ?P" using j Suc by (intro mult_le_mono1) simp
    then have le2: "unat ?D + Suc i * unat ?P \<le> unat now" using mP D by linarith
    have "k \<le> k * unat ?P" for k using P(1) by (cases "unat ?P") auto
    then have "Suc i \<le> Suc i * unat ?P" .
    then have "Suc i < 2 ^ 64" using le2 assms(2) by simp
    then have "unat (of_nat (Suc i) :: u64) = Suc i" by (simp add: unsigned_of_nat take_bit_nat_eq_self del: of_nat_Suc)
    then have "unat (of_nat (Suc i) * ?P) = Suc i * unat ?P"
      using unat_mult_nowrap [of "of_nat (Suc i)" ?P] le2 assms(2) by simp
    then have "unat (?D + of_nat (Suc i) * ?P) = unat ?D + Suc i * unat ?P"
      using unat_add_nowrap [of ?D "of_nat (Suc i) * ?P"] le2 assms(2) by simp
    then show ?thesis unfolding Suc rtds_roll_pow using le2 by (simp add: word_le_nat_alt)
  qed (use le in simp)
  moreover have "now < deadline_ticks ((rtds_roll ^^ Suc m) d)"
    using rtds_advanced_later [OF assms] by (simp add: adv del: funpow.simps)
  ultimately show ?thesis using adv by blast
qed

text \<open>The states and parameters at which the theorems below are evaluated.\<close>

lemma sample_rtds_prep: "t \<in> {Thr 0, Thr 1} \<Longrightarrow> rtds_prep (sample_hv SCHED_RTDS) t"
  by (auto simp: rtds_prep_def rtds_data_ok_def sample_hv_threads sample_thread_def word_le_nat_alt)

lemma sample_rtds_inv: "rtds_inv (sample_hv SCHED_RTDS) 0"
proof -
  have q: "rtds_queues (sample_hv n) = sample_queue (Ready 0) [Thr 1]" for n by (simp add: sample_hv_def)
  have "lq_home rtds_cpu (cpu_of (sample_hv SCHED_RTDS)) 0 (rtds_queues (sample_hv SCHED_RTDS))"
    unfolding q by (rule sample_lq_home) simp_all
  moreover have "queue (rtds_of (sample_hv SCHED_RTDS) t) = rtds_queue_at (place (rtds_queues (sample_hv SCHED_RTDS)) t)"
    if "cpu_of (sample_hv SCHED_RTDS) t = 0" for t
    using that unfolding sample_on_cpu_0 q by (auto simp: sample_hv_threads sample_thread_def sample_queue_def)
  ultimately have "rtds_wf (sample_hv SCHED_RTDS) 0" by (simp add: rtds_wf_def)
  then show ?thesis by (simp add: rtds_inv_def q sample_queue_def sample_hv_threads sample_thread_def)
qed

lemma sample_rtds_sched_inv: "sched_inv rtds_members rtds_inv rtds_prep False (sample_hv SCHED_RTDS) 0"
proof (rule sample_sched_inv)
  show "rtds_inv (sample_hv SCHED_RTDS) 0" by (rule sample_rtds_inv)
  show "rtds_prep (sample_hv SCHED_RTDS) t" if "t \<in> {Thr 0, Thr 1}" for t using that by (rule sample_rtds_prep)
  have "rtds_queues (sample_hv SCHED_RTDS) = sample_queue (Ready 0) [Thr 1]" by (simp add: sample_hv_def)
  then show "rtds_members (sample_hv SCHED_RTDS) 0 \<union> (if False then {} else {Thr 0}) = {Thr 0, Thr 1}"
    unfolding rtds_members_def using sample_lq_members [of rtds_cpu "Ready 0" "[Thr 1]"] by auto
qed

theorem rtds_pick_earliest_deadline_witness:
  "\<exists>n s'. sched_rtds_pick_next 0 (sample_hv SCHED_RTDS) = Some (n, s') \<and> rtds_sorted s' 0 \<and> n \<in> {Thr 0, Thr 1} \<and>
    (\<forall>u \<in> {Thr 0, Thr 1}. 1000 < deadline_ticks (rtds_of s' u))"
proof -
  have r: "ready (sample_hv SCHED_RTDS) 0 = {Thr 0, Thr 1}" by (rule sample_ready)
  have t: "tsc (sample_hv SCHED_RTDS) (tsc_reads (sample_hv SCHED_RTDS)) = 1000" "this_cpu (sample_hv SCHED_RTDS) = 0"
    by (simp_all add: sample_hv_def)
  have "rtds_sorted_but (curr_obj (ctl (sample_hv SCHED_RTDS) 0)) (sample_hv SCHED_RTDS) 0"
    by (simp add: rtds_sorted_but_def sample_hv_def sample_queue_def)
  from rtds_pick_earliest_deadline [OF sample_rtds_sched_inv sample_clock_ok t(2) this]
  show ?thesis unfolding r t by (metis (no_types, lifting) insert_not_empty)
qed

theorem rtds_advance_period_walks_witness:
  "\<exists>k. rtds_advance_period (rtds (data (sample_thread 0 THREAD_STS_RUNNABLE))) 13000 =
       (0 < k, (rtds_roll ^^ k) (rtds (data (sample_thread 0 THREAD_STS_RUNNABLE)))) \<and>
     (\<forall>j < k. deadline_ticks ((rtds_roll ^^ j) (rtds (data (sample_thread 0 THREAD_STS_RUNNABLE)))) \<le> 13000)"
proof -
  have "rtds_data_ok (rtds (data (sample_thread 0 THREAD_STS_RUNNABLE)))"
    by (simp add: rtds_data_ok_def sample_thread_def word_le_nat_alt)
  from rtds_advance_period_walks [OF this, of 13000] show ?thesis by auto
qed

lemma rtds_earliest_Min:
  assumes "\<And>t. t \<in> set ts \<Longrightarrow> deadline_ticks (rtds_of s t) \<noteq> 0"
  shows "rtds_earliest s next ts = (if next = 0 then (if ts = [] then 0 else Min ((\<lambda>t. deadline_ticks (rtds_of s t)) ` set ts))
    else Min (insert next ((\<lambda>t. deadline_ticks (rtds_of s t)) ` set ts)))"
  using assms
proof (induction ts arbitrary: "next")
  case (Cons t ts)
  let ?d = "\<lambda>t. deadline_ticks (rtds_of s t)"
  let ?n = "if next = 0 \<or> ?d t < next then ?d t else next"
  have ih: "rtds_earliest s ?n ts = Min (insert ?n (?d ` set ts))" using Cons.IH [of ?n] Cons.prems by simp
  have "next \<noteq> 0 \<Longrightarrow> ?n = min next (?d t)" by (auto simp: min_def)
  then have "next \<noteq> 0 \<Longrightarrow> Min (insert ?n (?d ` set ts)) = Min (insert next (insert (?d t) (?d ` set ts)))"
    by (cases "ts = []") (simp_all add: min.assoc)
  then show ?case using ih by (cases "next = 0") simp_all
qed simp

text \<open>
  C21: The scheduler's one-shot timer is set to the earliest of three instants: the exhaustion of
  the picked thread's budget, the end of its period, and the earliest replenishment of a thread
  without budget. A picked thread without budget is stopped at the end of its period.
\<close>

theorem rtds_timeout_earliest:
  assumes "\<not> is_idle_thread s t" and "last_start_ticks (rtds_of s t) = start" and "start \<noteq> 0"
    and "\<forall>u \<in> set (rtds_depleted_q s p). deadline_ticks (rtds_of s u) \<noteq> 0"
    and "now < deadline_ticks (rtds_of s t)"
    and "now < start + remaining_ticks (rtds_of s t) \<or> remaining_ticks (rtds_of s t) = 0"
  shows "rtds_timeout p (Some t) now s =
    Min ({deadline_ticks (rtds_of s t)} \<union>
      (if 0 < remaining_ticks (rtds_of s t) then {start + remaining_ticks (rtds_of s t)} else {}) \<union>
      (\<lambda>u. deadline_ticks (rtds_of s u)) ` set (rtds_depleted_q s p))"
proof -
  let ?d = "rtds_of s t" and ?R = "(\<lambda>u. deadline_ticks (rtds_of s u)) ` set (rtds_depleted_q s p)"
  define c where "c = (if 0 < remaining_ticks ?d then min (start + remaining_ticks ?d) (deadline_ticks ?d) else deadline_ticks ?d)"
  have r: "rtds_running_timeout ?d now = c"
    using assms(2,3,5,6) by (auto simp: rtds_running_timeout_def c_def min_def Let_def)
  have c0: "c \<noteq> 0" using assms(5,6) by (auto simp: c_def min_def)
  have e: "rtds_next_depleted_deadline p s = (if ?R = {} then 0 else Min ?R)"
    using rtds_earliest_Min [of "rtds_depleted_q s p" s 0] assms(4) by (simp add: rtds_next_depleted_deadline_def)
  have R: "Min ?R \<noteq> 0" if "?R \<noteq> {}"
  proof -
    have "Min ?R \<in> ?R" by (rule Min_in) (use that in simp_all)
    then show ?thesis using assms(4) by (metis (no_types, lifting) imageE)
  qed
  have "rtds_timeout p (Some t) now s = Min (insert c ?R)"
  proof (cases "?R = {}")
    case False
    have "rtds_timeout p (Some t) now s = (if Min ?R < c then Min ?R else c)"
      using assms(1) c0 R False by (simp add: rtds_timeout_def r e Let_def)
    also have "\<dots> = min c (Min ?R)" by (auto simp: min_def)
    finally show ?thesis using False by simp
  qed (use assms(1) in \<open>simp add: rtds_timeout_def r e Let_def\<close>)
  also have "\<dots> = Min ({deadline_ticks ?d} \<union>
      (if 0 < remaining_ticks ?d then {start + remaining_ticks ?d} else {}) \<union> ?R)"
    by (cases "?R = {}") (simp_all add: c_def min.assoc min.left_commute min.commute)
  finally show ?thesis .
qed

theorem rtds_timeout_earliest_witness:
  "rtds_timeout 0 (Some (Thr 0)) 1000 (upd_rtds (Thr 0) (\<lambda>d. d\<lparr>last_start_ticks := 1000\<rparr>) (sample_hv SCHED_RTDS)) =
    Min {4000, 3000}"
proof -
  let ?s = "upd_rtds (Thr 0) (\<lambda>d. d\<lparr>last_start_ticks := 1000\<rparr>) (sample_hv SCHED_RTDS)"
  have d: "rtds_of ?s (Thr 0) = \<lparr>period_ticks = 4000, budget_ticks = 2000, remaining_ticks = 2000,
      deadline_ticks = 4000, last_start_ticks = 1000, queue = RTDS_QUEUE_NONE\<rparr>"
    by (simp add: sample_hv_threads sample_thread_def)
  have q: "rtds_depleted_q (sample_hv SCHED_RTDS) 0 = []" by (simp add: sample_hv_def sample_queue_def)
  have i: "\<not> is_idle_thread ?s (Thr 0)" by (simp add: is_idle_thread_def)
  from rtds_timeout_earliest [of ?s "Thr 0" 1000 0 1000] show ?thesis by (simp add: d q i del: threads_upd_thread)
qed



end
