(* ===== verification/Schedule.thy ===== *)
theory Schedule
  imports Sched_Noop Sched_Prio Sched_Iorr Sched_Bvt Sched_Rtds
begin

text \<open>
  The scheduler framework of \<^verbatim>\<open>core/schedule.c\<close>: the choice of a scheduler for a CPU, the life of a
  thread (set up, wake, sleep, priority request), \<^verbatim>\<open>schedule\<close>, and the idle loop. The lemmas about
  the framework are proved once, for every scheduler that fulfils the contract.

  A result \<open>None\<close> means that the call dereferences a null pointer or does not return.
\<close>

section \<open>Thread bookkeeping\<close>

definition acrn_scheduler_of :: "sched_name \<Rightarrow> acrn_scheduler" where
  "acrn_scheduler_of n =
     (case n of SCHED_NOOP \<Rightarrow> sched_noop | SCHED_IORR \<Rightarrow> sched_iorr | SCHED_BVT \<Rightarrow> sched_bvt
      | SCHED_RTDS \<Rightarrow> sched_rtds | SCHED_PRIO \<Rightarrow> sched_prio)"

definition get_scheduler :: "pcpu \<Rightarrow> hv \<Rightarrow> acrn_scheduler option" where
  "get_scheduler p s = map_option acrn_scheduler_of (scheduler (ctl s p))"

definition init_thread_list_once :: "hv \<Rightarrow> hv" where
  "init_thread_list_once s =
     (if \<not> thread_list_initialized s
      then s\<lparr>thread_heap := INIT_LIST_HEAD THead (thread_heap s), thread_list_initialized := True\<rparr>
      else s)"

definition sched_get_thread_list :: "hv \<Rightarrow> tnode \<times> hv" where
  "sched_get_thread_list s = (THead, init_thread_list_once s)"

definition sched_get_thread_count :: "hv \<Rightarrow> u32" where
  "sched_get_thread_count s = thread_count s"

definition is_blocked :: "hv \<Rightarrow> tid \<Rightarrow> bool" where
  "is_blocked s t \<longleftrightarrow> status (threads s t) = THREAD_STS_BLOCKED"

definition is_running :: "hv \<Rightarrow> tid \<Rightarrow> bool" where
  "is_running s t \<longleftrightarrow> status (threads s t) = THREAD_STS_RUNNING"

definition is_runnable_or_running :: "hv \<Rightarrow> tid \<Rightarrow> bool" where
  "is_runnable_or_running s t \<longleftrightarrow>
     status (threads s t) = THREAD_STS_RUNNING \<or> status (threads s t) = THREAD_STS_RUNNABLE"

definition set_thread_status :: "tid \<Rightarrow> thread_object_state \<Rightarrow> hv \<Rightarrow> hv" where
  "set_thread_status t st s = upd_thread t (\<lambda>obj. obj\<lparr>status := st\<rparr>) s"

text \<open>The latency counters of a thread.\<close>

definition sched_add_runtime :: "u64 \<Rightarrow> sched_latency_stats \<Rightarrow> sched_latency_stats" where
  "sched_add_runtime ticks l =
     (if ticks > UINT64_MAX - runtime_ticks l then l\<lparr>runtime_ticks := UINT64_MAX\<rparr>
      else l\<lparr>runtime_ticks := runtime_ticks l + ticks\<rparr>)"

definition sched_mark_runnable :: "u64 \<Rightarrow> sched_latency_stats \<Rightarrow> sched_latency_stats" where
  "sched_mark_runnable now l = l\<lparr>state_since := now, runnable_since := now\<rparr>"

definition sched_mark_blocked :: "u64 \<Rightarrow> sched_latency_stats \<Rightarrow> sched_latency_stats" where
  "sched_mark_blocked now l = l\<lparr>state_since := now, runnable_since := 0\<rparr>"

definition sched_mark_running :: "u64 \<Rightarrow> sched_latency_stats \<Rightarrow> sched_latency_stats" where
  "sched_mark_running now l =
     (let l = (if runnable_since l \<noteq> 0
               then (let wait_ticks = now - runnable_since l;
                         l = l\<lparr>last_wait_ticks := wait_ticks\<rparr>
                     in if wait_ticks > max_wait_ticks l then l\<lparr>max_wait_ticks := wait_ticks\<rparr> else l)
               else l)
      in l\<lparr>switches := switches l + 1, state_since := now, runnable_since := 0\<rparr>)"

definition sched_mark_not_running :: "u64 \<Rightarrow> bool \<Rightarrow> sched_latency_stats \<Rightarrow> sched_latency_stats" where
  "sched_mark_not_running now runnable l =
     (let l = (if state_since l \<noteq> 0 then sched_add_runtime (now - state_since l) l else l)
      in l\<lparr>state_since := now, runnable_since := (if runnable then now else 0)\<rparr>)"

abbreviation upd_latency :: "tid \<Rightarrow> (sched_latency_stats \<Rightarrow> sched_latency_stats) \<Rightarrow> hv \<Rightarrow> hv" where
  "upd_latency t f s \<equiv> upd_thread t (latency_update f) s"

definition register_thread_object :: "tid \<Rightarrow> hv \<Rightarrow> hv" where
  "register_thread_object t s =
     (let s = init_thread_list_once s
      in if list_empty (thread_heap s) (TNode t)
         then s\<lparr>thread_heap := list_add_tail (TNode t) THead (thread_heap s), thread_count := thread_count s + 1\<rparr>
         else s)"

section \<open>The scheduler of a CPU\<close>

text \<open>The VM configurations enter through their CPU affinity, the build options as a record.\<close>

fun sched_users_loop :: "u64 list \<Rightarrow> pcpu \<Rightarrow> u32 \<Rightarrow> bool" where
  "sched_users_loop [] p users = False"
| "sched_users_loop (cpu_affinity # rest) p users =
     (if and cpu_affinity (push_bit p 1) = 0 then sched_users_loop rest p users
      else (let users = users + 1 in if users > 1 then True else sched_users_loop rest p users))"

definition sched_pcpu_is_shared :: "u64 list \<Rightarrow> pcpu \<Rightarrow> bool" where
  "sched_pcpu_is_shared affinities p = sched_users_loop affinities p 0"

record sched_build =
  CONFIG_SCHED_NOOP :: bool
  CONFIG_SCHED_IORR :: bool
  CONFIG_SCHED_BVT :: bool
  CONFIG_SCHED_RTDS :: bool
  CONFIG_SCHED_PRIO :: bool

definition select_pcpu_scheduler :: "sched_build \<Rightarrow> u64 list \<Rightarrow> pcpu \<Rightarrow> sched_name option" where
  "select_pcpu_scheduler cfg affinities p =
     (if CONFIG_SCHED_BVT cfg \<and> CONFIG_SCHED_RTDS cfg
      then Some (if sched_pcpu_is_shared affinities p then SCHED_RTDS else SCHED_BVT)
      else (let sc = None;
                sc = (if CONFIG_SCHED_NOOP cfg then Some SCHED_NOOP else sc);
                sc = (if CONFIG_SCHED_IORR cfg then Some SCHED_IORR else sc);
                sc = (if CONFIG_SCHED_BVT cfg then Some SCHED_BVT else sc);
                sc = (if CONFIG_SCHED_RTDS cfg then Some SCHED_RTDS else sc);
                sc = (if CONFIG_SCHED_PRIO cfg then Some SCHED_PRIO else sc)
            in sc))"

definition init_sched :: "sched_build \<Rightarrow> u64 list \<Rightarrow> pcpu \<Rightarrow> hv \<Rightarrow> hv option" where
  "init_sched cfg affinities p s =
     (let s = upd_ctl p (\<lambda>c. c\<lparr>flags := 0, curr_obj := None, scheduler_ticks := 0, context_switches := 0,
            reschedule_requests := 0, scheduler := select_pcpu_scheduler cfg affinities p\<rparr>) s
      in case get_scheduler p s of None \<Rightarrow> None
         | Some sc \<Rightarrow> Some (case init sc of None \<Rightarrow> s | Some f \<Rightarrow> snd (f p s)))"

definition deinit_sched :: "pcpu \<Rightarrow> hv \<Rightarrow> hv option" where
  "deinit_sched p s =
     (case get_scheduler p s of None \<Rightarrow> None
      | Some sc \<Rightarrow> Some (case deinit sc of None \<Rightarrow> s | Some f \<Rightarrow> f p s))"

abbreviation BSP_CPU_ID :: pcpu where "BSP_CPU_ID \<equiv> 0"

definition suspend_sched :: "hv \<Rightarrow> hv option" where
  "suspend_sched s =
     (case get_scheduler BSP_CPU_ID s of None \<Rightarrow> None
      | Some sc \<Rightarrow> Some (case suspend sc of None \<Rightarrow> s | Some f \<Rightarrow> f BSP_CPU_ID s))"

definition resume_sched :: "hv \<Rightarrow> hv option" where
  "resume_sched s =
     (case get_scheduler BSP_CPU_ID s of None \<Rightarrow> None
      | Some sc \<Rightarrow> Some (case resume sc of None \<Rightarrow> s | Some f \<Rightarrow> f BSP_CPU_ID s))"

definition latency_zero :: sched_latency_stats where
  "latency_zero = \<lparr>switches = 0, last_wait_ticks = 0, max_wait_ticks = 0, state_since = 0,
     runnable_since = 0, runtime_ticks = 0\<rparr>"

definition init_thread_data :: "tid \<Rightarrow> sched_params \<Rightarrow> hv \<Rightarrow> hv option" where
  "init_thread_data t params s =
     (case get_scheduler (pcpu_id (threads s t)) s of None \<Rightarrow> None
      | Some sc \<Rightarrow>
          (let s = s\<lparr>thread_heap := INIT_LIST_HEAD (TNode t) (thread_heap s)\<rparr>;
               s = upd_latency t (\<lambda>_. latency_zero) s;
               s = (case init_data sc of None \<Rightarrow> s | Some f \<Rightarrow> f t params s);
               s = set_thread_status t THREAD_STS_BLOCKED s;
               s = upd_thread t (\<lambda>obj. obj\<lparr>priority_pending := False\<rparr>) s;
               (now, s) = cpu_ticks s;
               s = upd_latency t (\<lambda>l. l\<lparr>state_since := now\<rparr>) s
           in Some (register_thread_object t s)))"

definition deinit_thread_data :: "tid \<Rightarrow> hv \<Rightarrow> hv option" where
  "deinit_thread_data t s =
     (case get_scheduler (pcpu_id (threads s t)) s of None \<Rightarrow> None
      | Some sc \<Rightarrow> Some (case deinit_data sc of None \<Rightarrow> s | Some f \<Rightarrow> f t s))"

definition sched_get_current :: "pcpu \<Rightarrow> hv \<Rightarrow> tid option" where
  "sched_get_current p s = curr_obj (ctl s p)"

definition sched_get_pcpuid :: "hv \<Rightarrow> tid \<Rightarrow> pcpu" where
  "sched_get_pcpuid s t = pcpu_id (threads s t)"

fun scheduler_name :: "sched_name \<Rightarrow> string" where
  "scheduler_name SCHED_NOOP = ''sched_noop''"
| "scheduler_name SCHED_IORR = ''sched_iorr''"
| "scheduler_name SCHED_BVT = ''sched_bvt''"
| "scheduler_name SCHED_RTDS = ''sched_rtds''"
| "scheduler_name SCHED_PRIO = ''sched_prio''"

definition sched_get_scheduler_name :: "pcpu \<Rightarrow> hv \<Rightarrow> string" where
  "sched_get_scheduler_name p s = (case scheduler (ctl s p) of None \<Rightarrow> ''none'' | Some n \<Rightarrow> scheduler_name n)"

definition sched_get_ticks :: "pcpu \<Rightarrow> hv \<Rightarrow> u64" where
  "sched_get_ticks p s = scheduler_ticks (ctl s p)"

definition sched_get_context_switches :: "pcpu \<Rightarrow> hv \<Rightarrow> u64" where
  "sched_get_context_switches p s = context_switches (ctl s p)"

definition sched_get_reschedule_requests :: "pcpu \<Rightarrow> hv \<Rightarrow> u64" where
  "sched_get_reschedule_requests p s = reschedule_requests (ctl s p)"

definition sched_get_latency :: "tid option \<Rightarrow> hv \<Rightarrow> sched_latency_stats option \<times> hv" where
  "sched_get_latency tr s =
     (case tr of None \<Rightarrow> (None, s)
      | Some t \<Rightarrow>
          (let stats = latency (threads s t);
               (now, s) = cpu_ticks s
           in (Some (if status (threads s t) = THREAD_STS_RUNNABLE \<and> runnable_since stats \<noteq> 0
                then (let wait_ticks = now - runnable_since stats
                      in if wait_ticks > max_wait_ticks stats then stats\<lparr>max_wait_ticks := wait_ticks\<rparr> else stats)
                else if status (threads s t) = THREAD_STS_RUNNING \<and> state_since stats \<noteq> 0
                then (let run_ticks = now - state_since stats
                      in if run_ticks > UINT64_MAX - runtime_ticks stats
                         then stats\<lparr>runtime_ticks := UINT64_MAX\<rparr>
                         else stats\<lparr>runtime_ticks := runtime_ticks stats + run_ticks\<rparr>)
                else stats), s)))"

section \<open>The only runnable thread\<close>

definition sched_counts :: "pcpu \<Rightarrow> hv \<Rightarrow> tid \<Rightarrow> bool" where
  "sched_counts p s t \<longleftrightarrow> \<not> (pcpu_id (threads s t) \<noteq> p \<or> is_idle_thread s t \<or> be_blocking (threads s t) \<or>
     \<not> is_runnable_or_running s t)"

partial_function (option) only_runnable_loop :: "pcpu \<Rightarrow> tid \<Rightarrow> hv \<Rightarrow> tnode \<Rightarrow> u32 \<Rightarrow> bool option" where
  "only_runnable_loop p current s pos runnable =
     (case pos of THead \<Rightarrow> Some (runnable = 1)
      | TNode t \<Rightarrow>
          if \<not> sched_counts p s t then only_runnable_loop p current s (nxt (thread_heap s) pos) runnable
          else if runnable + 1 > 1 \<or> t \<noteq> current then Some False
          else only_runnable_loop p current s (nxt (thread_heap s) pos) (runnable + 1))"

definition sched_current_is_only_runnable_locked :: "pcpu \<Rightarrow> hv \<Rightarrow> bool option" where
  "sched_current_is_only_runnable_locked p s =
     (case curr_obj (ctl s p) of None \<Rightarrow> Some False
      | Some current \<Rightarrow>
          if is_idle_thread s current \<or> be_blocking (threads s current) \<or> \<not> is_runnable_or_running s current
          then Some False
          else only_runnable_loop p current s (nxt (thread_heap s) THead) 0)"

definition sched_clear_reschedule_if_current_only :: "pcpu \<Rightarrow> hv \<Rightarrow> (bool \<times> hv) option" where
  "sched_clear_reschedule_if_current_only p s =
     (if bitmap_test NEED_RESCHEDULE (flags (ctl s p))
      then map_option (\<lambda>only. if only
             then (True, upd_ctl p (\<lambda>c. c\<lparr>flags := bitmap_clear NEED_RESCHEDULE (flags c)\<rparr>) s)
             else (False, s))
           (sched_current_is_only_runnable_locked p s)
      else Some (False, s))"

section \<open>Switching\<close>

text \<open>One round of the loop over the thread list that consumes the priority requests, and the loop.\<close>

definition consume_priority :: "acrn_scheduler \<Rightarrow> pcpu \<Rightarrow> tid \<Rightarrow> hv \<Rightarrow> hv" where
  "consume_priority sc p t s =
     (if pcpu_id (threads s t) = p \<and> priority_pending (threads s t)
      then (let s = upd_thread t (\<lambda>obj. obj\<lparr>priority_pending := False\<rparr>) s
            in case prioritize sc of None \<Rightarrow> s
               | Some f \<Rightarrow> if is_runnable_or_running s t \<and> \<not> be_blocking (threads s t) then f t s else s)
      else s)"

partial_function (option) consume_priorities :: "acrn_scheduler \<Rightarrow> pcpu \<Rightarrow> tnode \<Rightarrow> hv \<Rightarrow> hv option" where
  "consume_priorities sc p pos s =
     (case pos of THead \<Rightarrow> Some s
      | TNode t \<Rightarrow>
          (let s = consume_priority sc p t s
           in consume_priorities sc p (nxt (thread_heap s) pos) s))"

definition switch_threads :: "pcpu \<Rightarrow> tid option \<Rightarrow> tid \<Rightarrow> hv \<Rightarrow> hv" where
  "switch_threads p prev next s =
     (let (now, s) = cpu_ticks s;
          s = (case prev of None \<Rightarrow> s
               | Some t \<Rightarrow>
                   (let s = (if switch_out (threads s t) then emit (Switch_Out t) s else s);
                        s = upd_latency t (sched_mark_not_running now (\<not> be_blocking (threads s t))) s;
                        s = set_thread_status t (if be_blocking (threads s t) then THREAD_STS_BLOCKED
                              else THREAD_STS_RUNNABLE) s
                    in upd_thread t (\<lambda>obj. obj\<lparr>be_blocking := False\<rparr>) s));
          s = (if switch_in (threads s next) then emit (Switch_In next) s else s);
          s = upd_latency next (sched_mark_running now) s;
          s = set_thread_status next THREAD_STS_RUNNING s;
          s = upd_ctl p (\<lambda>c. c\<lparr>curr_obj := Some next, context_switches := context_switches c + 1\<rparr>) s
      in emit (Switch_To prev next) s)"

definition schedule :: "hv \<Rightarrow> hv option" where
  "schedule s =
     (let p = this_cpu s
      in case get_scheduler p s of None \<Rightarrow> None
         | Some sc \<Rightarrow>
             (let prev = curr_obj (ctl s p)
              in Option.bind (consume_priorities sc p (nxt (thread_heap s) THead) s)
                   (\<lambda>s. map_option (\<lambda>(next, s).
                      (let s = upd_ctl p (\<lambda>c. c\<lparr>flags := bitmap_clear NEED_RESCHEDULE (flags c)\<rparr>) s
                       in if prev \<noteq> Some next then switch_threads p prev next s else s))
                     (case pick_next sc of None \<Rightarrow> Some (Idle p, s) | Some f \<Rightarrow> f p s))))"

definition sleep_thread :: "tid \<Rightarrow> hv \<Rightarrow> hv option" where
  "sleep_thread t s =
     (let p = pcpu_id (threads s t)
      in case get_scheduler p s of None \<Rightarrow> None
         | Some sc \<Rightarrow>
             (let s = (case sleep sc of None \<Rightarrow> s | Some f \<Rightarrow> f t s)
              in Some (if is_running s t
                 then upd_thread t (\<lambda>obj. obj\<lparr>be_blocking := True\<rparr>) (make_reschedule_request p s)
                 else (let (now, s) = cpu_ticks s
                       in set_thread_status t THREAD_STS_BLOCKED (upd_latency t (sched_mark_blocked now) s)))))"

definition wake_thread :: "tid \<Rightarrow> hv \<Rightarrow> hv option" where
  "wake_thread t s =
     (let p = pcpu_id (threads s t)
      in if is_blocked s t \<or> be_blocking (threads s t)
         then case get_scheduler p s of None \<Rightarrow> None
              | Some sc \<Rightarrow>
                  (let s = (case wake sc of None \<Rightarrow> s | Some f \<Rightarrow> f t s);
                       s = (if is_blocked s t
                            then (let (now, s) = cpu_ticks s;
                                      s = upd_latency t (sched_mark_runnable now) s;
                                      s = set_thread_status t THREAD_STS_RUNNABLE s
                                  in make_reschedule_request p s)
                            else s)
                   in Some (upd_thread t (\<lambda>obj. obj\<lparr>be_blocking := False\<rparr>) s))
         else Some s)"

definition request_thread_priority :: "tid \<Rightarrow> hv \<Rightarrow> hv option" where
  "request_thread_priority t s =
     (case get_scheduler (pcpu_id (threads s t)) s of None \<Rightarrow> None
      | Some sc \<Rightarrow>
          (let s = (if prioritize sc \<noteq> None then upd_thread t (\<lambda>obj. obj\<lparr>priority_pending := True\<rparr>) s else s)
           in Some (make_reschedule_request (pcpu_id (threads s t)) s)))"

definition yield_current :: "hv \<Rightarrow> hv" where
  "yield_current s = make_reschedule_request (this_cpu s) s"

text \<open>\<^verbatim>\<open>run_thread\<close> up to the call of the thread's entry function.\<close>

definition run_thread :: "tid \<Rightarrow> hv \<Rightarrow> hv" where
  "run_thread t s =
     (let s = upd_ctl (this_cpu s) (\<lambda>c. c\<lparr>curr_obj := Some t\<rparr>) s;
          (now, s) = cpu_ticks s;
          s = upd_latency t (sched_mark_running now) s
      in set_thread_status t THREAD_STS_RUNNING s)"

text \<open>One turn of the idle loop; the two requests are read from flags of other components.\<close>

datatype idle_turn = Idle_Schedule "hv option" | Idle_Dead | Idle_Shutdown_Vm pcpu | Idle_Wait

definition default_idle_turn :: "(pcpu \<Rightarrow> bool) \<Rightarrow> (pcpu \<Rightarrow> bool) \<Rightarrow> hv \<Rightarrow> idle_turn" where
  "default_idle_turn need_offline need_shutdown_vm s =
     (let p = this_cpu s
      in if need_reschedule p s then Idle_Schedule (schedule s)
         else if need_offline p then Idle_Dead
         else if need_shutdown_vm p then Idle_Shutdown_Vm p
         else Idle_Wait)"

abbreviation PRIO_IDLE :: u32 where "PRIO_IDLE \<equiv> 0"

definition run_idle_thread :: "hv \<Rightarrow> hv option" where
  "run_idle_thread s =
     (let p = this_cpu s;
          s = upd_thread (Idle p) (\<lambda>obj. obj\<lparr>pcpu_id := p, switch_out := False, switch_in := False\<rparr>) s
      in map_option (run_thread (Idle p))
           (init_thread_data (Idle p) \<lparr>prio = PRIO_IDLE, bvt_weight = 0, bvt_warp_value = 0, bvt_warp_limit = 0,
              bvt_unwarp_period = 0\<rparr> s))"

section \<open>The change a framework call may make\<close>

text \<open>
  A call for CPU \<open>p\<close> changes nothing of the threads and the control blocks of other CPUs, and of
  the private state only what belongs to \<open>p\<close>.
\<close>

definition fw_step :: "pcpu \<Rightarrow> hv \<Rightarrow> hv \<Rightarrow> bool" where
  "fw_step p s s' \<longleftrightarrow> private_local p s s' \<and>
     (\<forall>t. cpu_of s' t = cpu_of s t \<and> sched_ctl (threads s' t) = sched_ctl (threads s t)) \<and>
     (\<forall>t. cpu_of s t \<noteq> p \<longrightarrow> threads s' t = threads s t \<and> registered s' t = registered s t) \<and>
     (\<forall>q. q \<noteq> p \<longrightarrow> ctl s' q = ctl s q) \<and> scheduler (ctl s' p) = scheduler (ctl s p) \<and>
     tsc s' = tsc s \<and> tickrate s' = tickrate s \<and> this_cpu s' = this_cpu s"

lemma fw_step_refl [simp]: "fw_step p s s"
  by (simp add: fw_step_def private_local_def)

lemma private_local_trans:
  assumes "private_local p s s'" and "private_local p s' s''" and "\<And>t. cpu_of s' t = cpu_of s t"
  shows "private_local p s s''"
  using assms(1,2) unfolding private_local_def assms(3) by (metis lq_local_trans)

lemma fw_step_trans: "fw_step p s s' \<Longrightarrow> fw_step p s' s'' \<Longrightarrow> fw_step p s s''"
  unfolding fw_step_def by (auto intro: private_local_trans)

lemma fw_step_sched_step: "sched_step p s s' \<Longrightarrow> fw_step p s s'"
proof -
  assume st: "sched_step p s s'"
  note pub = sched_step_public [OF st]
  have "threads s' t = threads s t" if "cpu_of s t \<noteq> p" for t
  proof -
    have "data (threads s' t) = data (threads s t)" using st that by (simp add: sched_step_def private_local_def)
    moreover have "(threads s' t)\<lparr>data := data (threads s t)\<rparr> = threads s t" using pub by (simp add: public_eq_def)
    ultimately show ?thesis by (metis thread_object.surjective thread_object.update_convs(8))
  qed
  then show ?thesis
    using st public_eq_thread [OF pub] public_eq_rest [OF pub] registered_public [OF pub]
    by (simp add: fw_step_def sched_step_def)
qed

lemma fw_step_upd_thread:
  assumes "cpu_of s t = p" and "\<And>x. pcpu_id (f x) = pcpu_id x" and "\<And>x. sched_ctl (f x) = sched_ctl x"
  shows "fw_step p s (upd_thread t f s)"
  using assms by (auto simp: fw_step_def private_local_def registered_def)

lemma fw_step_upd_ctl: "(\<And>c. scheduler (f c) = scheduler c) \<Longrightarrow> fw_step p s (upd_ctl p f s)"
  by (auto simp: fw_step_def private_local_def registered_def)

lemma fw_step_emit: "fw_step p s (emit e s)"
  by (auto simp: fw_step_def private_local_def registered_def)

lemma fw_step_read: "fw_step p s (s\<lparr>tsc_reads := k\<rparr>)"
  by (auto simp: fw_step_def private_local_def registered_def)

lemma fw_step_request: "fw_step p s (make_reschedule_request p s)"
  unfolding make_reschedule_request_def Let_def
  by (auto intro!: fw_step_trans [OF fw_step_trans [OF fw_step_upd_ctl fw_step_upd_ctl] fw_step_emit]
      fw_step_trans [OF fw_step_upd_ctl fw_step_upd_ctl])

lemma fw_step_tick:
  assumes "tick_step p s s'"
  shows "fw_step p s s'"
proof -
  let ?s = "s\<lparr>ctl := ctl s', trace := trace s'\<rparr>"
  have "fw_step p ?s s'" using assms by (intro fw_step_sched_step) (simp add: tick_step_def)
  then show ?thesis
    using assms by (auto simp: fw_step_def private_local_def registered_def tick_step_def)
qed

lemma fw_stepD:
  assumes "fw_step p s s'"
  shows "cpu_of s' t = cpu_of s t" "sched_ctl (threads s' t) = sched_ctl (threads s t)"
    "cpu_of s t \<noteq> p \<Longrightarrow> threads s' t = threads s t" "cpu_of s t \<noteq> p \<Longrightarrow> registered s' t = registered s t"
    "q \<noteq> p \<Longrightarrow> ctl s' q = ctl s q" "scheduler (ctl s' p) = scheduler (ctl s p)"
    "tsc s' = tsc s" "tickrate s' = tickrate s" "this_cpu s' = this_cpu s" "get_scheduler q s' = get_scheduler q s"
  using assms by (cases "q = p"; auto simp: fw_step_def get_scheduler_def)+

lemma fw_step_cpu_ok_other:
  assumes "fw_step p s s'" and "q \<noteq> p" and "cpu_ok s q"
  shows "cpu_ok s' q"
proof -
  note D = fw_stepD [OF assms(1)]
  have th: "threads s' t = threads s t \<and> registered s' t = registered s t" if "cpu_of s t = q" for t
    using D(3,4) [of t] assms(2) that by simp
  show ?thesis using assms(3) unfolding cpu_ok_def D(1) D(5) [OF assms(2)] using th by auto
qed

text \<open>A call for one CPU keeps the invariant of every other CPU.\<close>

context sched_class
begin

lemma fw_other:
  assumes "fw_step p s s'" and "q \<noteq> p" and "sched_inv members qinv prep holds s q"
  shows "sched_inv members qinv prep holds s' q"
proof -
  note D = fw_stepD [OF assms(1)]
  define m where "m = s'\<lparr>threads := (\<lambda>t. (threads s t)\<lparr>data := data (threads s' t)\<rparr>), ctl := ctl s,
    thread_heap := thread_heap s, thread_count := thread_count s,
    thread_list_initialized := thread_list_initialized s, trace := trace s,
    tsc_reads := tsc_reads s, hv_timers := hv_timers s, timer_list := timer_list s, host_timer := host_timer s\<rparr>"
  have "private_local p s s'" using assms(1) by (simp add: fw_step_def)
  then have "private_local p s m" by (simp add: m_def private_local_def)
  moreover have "public_eq s m" using D(7-9) by (simp add: public_eq_def m_def)
  moreover have "timers_wf m = timers_wf s"
    by (rule timers_wf_cong) (simp_all add: m_def)
  ultimately have st: "sched_step p s m" by (simp add: sched_step_def m_def)
  have pe: "private_eq m s'" using D(1) by (simp add: private_eq_def m_def)
  have i: "qinv s q" "members s q \<subseteq> ready s q" "ready s q \<subseteq> members s q \<union> waiting_current holds s q" "cpu_ok s q"
    using assms(3) by (auto simp: sched_inv_def)
  note o = other [OF st assms(2) i(1)]
  have q': "qinv s' q" "members s' q = members s q" using frame [OF pe] o by auto
  have r: "ready s' q = ready s q"
    unfolding ready_def D(1) using D(3) assms(2) by (auto 0 3)
  have w: "waiting_current holds s' q = waiting_current holds s q"
    by (simp add: waiting_current_def r D(5) [OF assms(2)])
  have "sched_ctl (threads s' t) = q \<and> prep s' t" if "cpu_of s' t = q" "t \<noteq> Idle q" "registered s' t" for t
  proof -
    have t: "cpu_of s t = q" "registered s t" using that D(1,4) assms(2) by auto
    then have "sched_ctl (threads s t) = q" "prep s t" using assms(3) that(2) by (auto simp: sched_inv_def)
    moreover have "prep s' t" by (rule prep_frame [OF pe prep_other [OF st _ \<open>prep s t\<close>]]) (use t assms(2) in simp)
    ultimately show ?thesis using D(2) by simp
  qed
  then show ?thesis
    using fw_step_cpu_ok_other [OF assms(1,2) i(4)] q' r w i(2,3) by (simp add: sched_inv_def)
qed

lemma this_cpu_inv:
  assumes "sched_inv members qinv prep holds s q"
  shows "sched_inv members qinv prep holds (s\<lparr>this_cpu := c\<rparr>) q"
proof -
  let ?s = "s\<lparr>this_cpu := c\<rparr>"
  have pe: "private_eq s ?s" by (simp add: private_eq_def)
  have "qinv s q" using assms by (simp add: sched_inv_def)
  note f = frame [OF pe this]
  moreover have "ready ?s q = ready s q" "waiting_current holds ?s q = waiting_current holds s q" "cpu_ok ?s q = cpu_ok s q"
    by (simp_all add: ready_def waiting_current_def cpu_ok_def registered_def)
  ultimately show ?thesis using assms prep_frame [OF pe] by (simp add: sched_inv_def registered_def)
qed

end

section \<open>The thread list\<close>

definition thread_list_ok :: "tid list \<Rightarrow> hv \<Rightarrow> bool" where
  "thread_list_ok ts s \<longleftrightarrow> thread_list_initialized s \<and> dlist (thread_heap s) THead (map TNode ts) \<and>
     (\<forall>t. registered s t \<longleftrightarrow> t \<in> set ts)"

text \<open>What the framework keeps besides the invariant of the scheduler.\<close>

definition fw_inv :: "tid list \<Rightarrow> hv \<Rightarrow> pcpu \<Rightarrow> bool" where
  "fw_inv ts s p \<longleftrightarrow> clock_ok s \<and> tickrate s \<noteq> 0 \<and> thread_list_ok ts s \<and> Idle p \<in> set ts \<and>
     \<not> priority_pending (threads s (Idle p))"

definition list_at :: "tid list \<Rightarrow> tnode" where
  "list_at ts = (case ts of [] \<Rightarrow> THead | t # _ \<Rightarrow> TNode t)"

lemma list_at_simps [simp]: "list_at [] = THead" "list_at (t # ts) = TNode t"
  by (simp_all add: list_at_def)

lemma thread_list_first: "thread_list_ok ts s \<Longrightarrow> nxt (thread_heap s) THead = list_at ts"
  using dlist_nxt_head [of "thread_heap s" THead "map TNode ts"]
  by (cases ts) (auto simp: thread_list_ok_def)

lemma thread_list_next:
  assumes "thread_list_ok (as @ t # ts) s"
  shows "nxt (thread_heap s) (TNode t) = list_at ts"
proof -
  have "dlist (thread_heap s) THead (map TNode as @ TNode t # map TNode ts)" using assms by (simp add: thread_list_ok_def)
  from dlist_neighbours(1) [OF this] show ?thesis by (cases ts) simp_all
qed

lemma thread_list_distinct: "thread_list_ok ts s \<Longrightarrow> distinct ts"
  by (auto simp: thread_list_ok_def dlist_def distinct_map)

lemma thread_list_ok_cong:
  "thread_heap s' = thread_heap s \<Longrightarrow> thread_list_initialized s' = thread_list_initialized s \<Longrightarrow>
   thread_list_ok ts s' = thread_list_ok ts s"
  by (simp add: thread_list_ok_def registered_def)

text \<open>Changing the public part of one thread of \<open>p\<close>.\<close>

definition wants_cpu :: "thread_object \<Rightarrow> bool" where
  "wants_cpu x \<longleftrightarrow> status x = THREAD_STS_RUNNABLE \<or> status x = THREAD_STS_RUNNING \<and> \<not> be_blocking x"

lemma ready_wants: "t \<in> ready s p \<longleftrightarrow> cpu_of s t = p \<and> t \<noteq> Idle p \<and> wants_cpu (threads s t)"
  by (simp add: ready_def wants_cpu_def)

lemma ready_upd:
  assumes "threads s' = (threads s)(t := x)" and "cpu_of s t = p" and "pcpu_id x = p"
  shows "ready s' p = (if t \<noteq> Idle p \<and> wants_cpu x then insert t (ready s p) else ready s p - {t})"
  using assms by (auto simp: ready_wants split: if_splits)

lemma cpu_ok_upd:
  assumes "cpu_ok s p" and "threads s' = (threads s)(t := x)" and "cpu_of s t = p" and "pcpu_id x = p"
    and "curr_obj (ctl s' p) = curr_obj (ctl s p)" and "thread_heap s' = thread_heap s"
    and "status x = THREAD_STS_RUNNING \<longleftrightarrow> curr_obj (ctl s p) = Some t"
    and "be_blocking x \<Longrightarrow> status x = THREAD_STS_RUNNING \<and> t \<noteq> Idle p"
    and "status x \<noteq> THREAD_STS_BLOCKED \<Longrightarrow> registered s t"
  shows "cpu_ok s' p"
proof -
  have c: "cpu_of s' u = cpu_of s u" "registered s' u = registered s u" for u
    using assms(2-4,6) by (auto simp: registered_def)
  show ?thesis
    unfolding cpu_ok_def c assms(5)
    using assms(1,7-9) unfolding cpu_ok_def by (auto simp: assms(2))
qed

section \<open>The framework keeps the invariant\<close>

text \<open>The rounds of the priority loop change only private data and consume requests.\<close>

definition prio_round :: "pcpu \<Rightarrow> hv \<Rightarrow> hv \<Rightarrow> bool" where
  "prio_round p s s' \<longleftrightarrow> fw_step p s s' \<and> thread_heap s' = thread_heap s \<and> thread_count s' = thread_count s \<and>
     thread_list_initialized s' = thread_list_initialized s \<and> ctl s' = ctl s \<and> trace s' = trace s \<and>
     (\<forall>u. status (threads s' u) = status (threads s u) \<and> be_blocking (threads s' u) = be_blocking (threads s u) \<and>
        (priority_pending (threads s' u) \<longrightarrow> priority_pending (threads s u)))"

lemma prio_round_refl [simp]: "prio_round p s s"
  by (simp add: prio_round_def)

lemma prio_round_trans: "prio_round p s s' \<Longrightarrow> prio_round p s' s'' \<Longrightarrow> prio_round p s s''"
  unfolding prio_round_def using fw_step_trans by auto

lemma prio_round_sched_step: "sched_step p s s' \<Longrightarrow> prio_round p s s'"
  using fw_step_sched_step public_eq_thread [OF sched_step_public] public_eq_rest [OF sched_step_public]
  by (simp add: prio_round_def)

lemma prio_round_ready: "prio_round p s s' \<Longrightarrow> ready s' q = ready s q"
  using fw_stepD(1) by (fastforce simp: ready_def prio_round_def)

lemma prio_round_fw_inv:
  assumes "prio_round p s s'" and "fw_inv ts s p"
  shows "fw_inv ts s' p"
proof -
  have "fw_step p s s'" using assms(1) by (simp add: prio_round_def)
  note D = fw_stepD [OF this]
  have "thread_list_ok ts s' = thread_list_ok ts s"
    by (rule thread_list_ok_cong) (use assms(1) in \<open>simp_all add: prio_round_def\<close>)
  then show ?thesis using assms D(7,8) by (auto simp: fw_inv_def clock_ok_def prio_round_def)
qed

context sched_class
begin

abbreviation own_inv :: "hv \<Rightarrow> pcpu \<Rightarrow> bool" where
  "own_inv s p \<equiv> sched_inv members qinv prep holds s p"

lemma own_invI:
  assumes "qinv s1 p" and "private_eq s1 s'" and "cpu_ok s' p" and "members s1 p \<subseteq> ready s' p"
    and "ready s' p \<subseteq> members s1 p \<union> waiting_current holds s' p"
    and "\<And>t. cpu_of s' t = p \<Longrightarrow> t \<noteq> Idle p \<Longrightarrow> registered s' t \<Longrightarrow> sched_ctl (threads s' t) = p \<and> prep s1 t"
  shows "own_inv s' p"
  using assms frame [OF assms(2,1)] prep_frame [OF assms(2)] by (simp add: sched_inv_def)

lemma own_invD:
  assumes "own_inv s p"
  shows "qinv s p" "cpu_ok s p" "members s p \<subseteq> ready s p" "ready s p = members s p \<union> waiting_current holds s p"
    "cpu_of s t = p \<Longrightarrow> t \<noteq> Idle p \<Longrightarrow> registered s t \<Longrightarrow> sched_ctl (threads s t) = p \<and> prep s t"
  using assms by (auto simp: sched_inv_def waiting_current_def split: if_splits)

lemma consume_priority_ok:
  assumes "own_inv s p" and "clock_ok s" and "\<not> priority_pending (threads s (Idle p))"
  shows "prio_round p s (consume_priority ops p t s)" and "own_inv (consume_priority ops p t s) p"
proof -
  note I = own_invD [OF assms(1)]
  let ?s1 = "upd_thread t (\<lambda>obj. obj\<lparr>priority_pending := False\<rparr>) s"
  have "prio_round p s (consume_priority ops p t s) \<and> own_inv (consume_priority ops p t s) p"
  proof (cases "cpu_of s t = p \<and> priority_pending (threads s t)")
    case True
    have r1: "prio_round p s ?s1"
      using True fw_step_upd_thread [of s t p "\<lambda>obj. obj\<lparr>priority_pending := False\<rparr>"] by (auto simp: prio_round_def)
    have rd: "ready ?s1 p = ready s p" by (rule prio_round_ready [OF r1])
    have ck: "cpu_ok ?s1 p"
      by (rule cpu_ok_upd [OF I(2), of _ t "(threads s t)\<lparr>priority_pending := False\<rparr>"])
        (use True cpu_okD(3-5) [OF I(2), of t] in auto)
    have i1: "own_inv ?s1 p"
      by (rule own_invI [OF I(1) _ ck])
        (use I(3-5) rd in \<open>auto simp: private_eq_def waiting_current_def registered_def\<close>)
    show ?thesis
    proof (cases "\<exists>f. prioritize ops = Some f \<and> is_runnable_or_running ?s1 t \<and> \<not> be_blocking (threads ?s1 t)")
      case False
      then have "consume_priority ops p t s = ?s1"
        using True by (auto simp: consume_priority_def Let_def split: option.splits)
      then show ?thesis using r1 i1 by simp
    next
      case pr: True
      then obtain f where f: "prioritize ops = Some f" by blast
      have eq: "consume_priority ops p t s = f t ?s1" using True pr f by (simp add: consume_priority_def)
      have t: "t \<noteq> Idle p" using True assms(3) by auto
      have "t \<in> ready ?s1 p" using pr True t by (auto simp: ready_def is_runnable_or_running_def)
      moreover have "clock_ok ?s1" using assms(2) by (simp add: clock_ok_def)
      ultimately have st: "sched_step p ?s1 (f t ?s1)" and q: "qinv (f t ?s1) p" "members (f t ?s1) p = members ?s1 p"
        and pp: "\<And>u. prep ?s1 u \<Longrightarrow> prep (f t ?s1) u"
        using prioritize_law [OF i1 _ _ f] by blast+
      note pub = sched_step_public [OF st] and I1 = own_invD [OF i1]
      have "own_inv (f t ?s1) p"
        by (rule own_invI [OF q(1) private_eq_refl])
          (use I1 pp in \<open>simp_all add: cpu_ok_public [OF pub] ready_public [OF pub] waiting_current_public [OF pub]
            registered_public [OF pub] public_eq_thread [OF pub] q(2)\<close>)
      then show ?thesis using eq prio_round_trans [OF r1 prio_round_sched_step [OF st]] by simp
    qed
  next
    case False
    then show ?thesis using assms(1) unfolding consume_priority_def if_not_P [OF False] by simp
  qed
  then show "prio_round p s (consume_priority ops p t s)" "own_inv (consume_priority ops p t s) p" by simp_all
qed

lemma consume_priorities_from:
  assumes "own_inv s p" and "fw_inv (as @ xs) s p"
  shows "\<exists>s'. consume_priorities ops p (list_at xs) s = Some s' \<and> prio_round p s s' \<and> own_inv s' p"
  using assms
proof (induction xs arbitrary: s as)
  case Nil
  then show ?case by (subst consume_priorities.simps) simp
next
  case (Cons t xs)
  let ?s = "consume_priority ops p t s"
  have "clock_ok s" "\<not> priority_pending (threads s (Idle p))" using Cons.prems(2) by (simp_all add: fw_inv_def)
  note c = consume_priority_ok [OF Cons.prems(1) this, of t]
  have f: "fw_inv ((as @ [t]) @ xs) ?s p" using prio_round_fw_inv [OF c(1) Cons.prems(2)] by simp
  have "thread_list_ok (as @ t # xs) ?s" using f by (simp add: fw_inv_def)
  note n = thread_list_next [OF this]
  obtain s' where "consume_priorities ops p (list_at xs) ?s = Some s'" "prio_round p ?s s'" "own_inv s' p"
    using Cons.IH [OF c(2) f] by blast
  then show ?case
    using prio_round_trans [OF c(1)] n by (subst consume_priorities.simps) (auto simp: Let_def)
qed

text \<open>A callback for thread \<open>t\<close>, and then a change of its public state that agrees with the queues.\<close>

lemma own_inv_public:
  assumes "own_inv s p" and "sched_step p s s1" and "qinv s1 p" and "\<And>u. prep s u \<Longrightarrow> prep s1 u"
    and "threads s' = (threads s1)(t := x)" and "private_eq s1 s'" and "thread_heap s' = thread_heap s1"
    and "curr_obj (ctl s' p) = curr_obj (ctl s p)" and "cpu_of s t = p" and "registered s t" and "t \<noteq> Idle p"
    and "sched_ctl x = p" and "pcpu_id x = p"
    and "status x = THREAD_STS_RUNNING \<longleftrightarrow> curr_obj (ctl s p) = Some t"
    and "be_blocking x \<Longrightarrow> status x = THREAD_STS_RUNNING"
    and "members s1 p = (if wants_cpu x then insert t (members s p) else members s p - {t})"
  shows "own_inv s' p" and "ready s' p = (if wants_cpu x then insert t (ready s p) else ready s p - {t})"
proof -
  note I = own_invD [OF assms(1)] and pub = sched_step_public [OF assms(2)]
  note P = public_eq_thread [OF pub] and R = public_eq_rest [OF pub]
  have ck1: "cpu_ok s1 p" using I(2) by (simp add: cpu_ok_public [OF pub])
  have reg: "registered s' u = registered s u" for u
    using registered_public [OF pub] assms(7) by (simp add: registered_def)
  show rd: "ready s' p = (if wants_cpu x then insert t (ready s p) else ready s p - {t})"
    using ready_upd [OF assms(5) _ assms(13)] P(1) assms(9,11) ready_public [OF pub] by simp
  have ck: "cpu_ok s' p"
    by (rule cpu_ok_upd [OF ck1 assms(5) _ assms(13) _ assms(7)])
      (use P(1) R(1) assms(8-11,14,15) registered_public [OF pub, of t] in auto)
  show "own_inv s' p"
  proof (rule own_invI [OF assms(3,6) ck])
    show "members s1 p \<subseteq> ready s' p" using I(3) rd assms(16) by auto
    have "waiting_current holds s p - {t} \<subseteq> waiting_current holds s' p"
      using assms(8) rd by (auto simp: waiting_current_def)
    then show "ready s' p \<subseteq> members s1 p \<union> waiting_current holds s' p"
      using I(4) rd assms(16) by auto
    show "sched_ctl (threads s' u) = p \<and> prep s1 u" if "cpu_of s' u = p" "u \<noteq> Idle p" "registered s' u" for u
    proof -
      have "cpu_of s u = p" using that(1) P(1) assms(5,9) by (cases "u = t") simp_all
      then have "sched_ctl (threads s u) = p" "prep s u" using I(5) that(2,3) reg by simp_all
      then show ?thesis using assms(4,5,12) P(2) [of u] by (cases "u = t") simp_all
    qed
  qed
qed

lemma fw_step_set_thread:
  assumes "fw_step p s y" and "cpu_of s t = p" and "pcpu_id x = p" and "sched_ctl x = sched_ctl (threads s t)"
  shows "fw_step p s (upd_thread t (\<lambda>_. x) y)"
proof -
  have "fw_step p y (upd_thread t (\<lambda>_. x) y)"
    using assms(2-4) fw_stepD(1,2) [OF assms(1), of t] by (auto simp: fw_step_def private_local_def registered_def)
  then show ?thesis by (rule fw_step_trans [OF assms(1)])
qed

text \<open>Putting a thread to sleep and waking it up, on its own CPU or from another one.\<close>

lemma sleep_thread_ok:
  assumes "own_inv s p" and "get_scheduler p s = Some ops" and "cpu_of s t = p" and "t \<noteq> Idle p" and "registered s t"
  obtains s' where "sleep_thread t s = Some s'" and "fw_step p s s'" and "own_inv s' p" and "ready s' p = ready s p - {t}"
    and "thread_heap s' = thread_heap s" and "thread_list_initialized s' = thread_list_initialized s"
    and "\<And>u. priority_pending (threads s' u) = priority_pending (threads s u)"
    and "curr_obj (ctl s' p) = curr_obj (ctl s p)"
    and "if curr_obj (ctl s p) = Some t then be_blocking (threads s' t) \<and> need_reschedule p s' else is_blocked s' t"
proof -
  note I = own_invD [OF assms(1)]
  have sc: "sched_ctl (threads s t) = p" using I(5) assms(3-5) by blast
  obtain f where f: "sleep ops = Some f" and st: "sched_step p s (f t s)" and q: "qinv (f t s) p"
    and m: "members (f t s) p = members s p - {t}" and pp: "\<And>u. prep s u \<Longrightarrow> prep (f t s) u"
    using sleep_law [OF I(1) assms(3) sc assms(4)] by blast
  define s1 where "s1 = f t s"
  note pub = sched_step_public [OF st, folded s1_def]
  note P = public_eq_thread [OF pub] and R = public_eq_rest [OF pub]
  have run: "status (threads s1 t) = THREAD_STS_RUNNING \<longleftrightarrow> curr_obj (ctl s p) = Some t"
    using cpu_okD(3) [OF I(2) assms(3)] P(3) by simp
  define y where "y = (if curr_obj (ctl s p) = Some t then make_reschedule_request p s1
    else s1\<lparr>tsc_reads := Suc (tsc_reads s1)\<rparr>)"
  define x where "x = (if curr_obj (ctl s p) = Some t then (threads s1 t)\<lparr>be_blocking := True\<rparr>
    else (latency_update (sched_mark_blocked (tsc s1 (tsc_reads s1))) (threads s1 t))\<lparr>status := THREAD_STS_BLOCKED\<rparr>)"
  define s' where "s' = upd_thread t (\<lambda>_. x) y"
  have y: "threads y = threads s1" "thread_heap y = thread_heap s1" "curr_obj (ctl y p) = curr_obj (ctl s1 p)"
    "thread_list_initialized y = thread_list_initialized s1"
    by (simp_all add: y_def make_reschedule_request_def Let_def)
  have yy: "fw_step p s1 y" "private_eq s1 y"
    by (simp_all add: y_def fw_step_request fw_step_read) (simp add: private_eq_def)
  have eq: "sleep_thread t s = Some s'"
    using assms(2,3) f run
    by (simp add: sleep_thread_def s1_def [symmetric] s'_def x_def y_def is_running_def cpu_ticks_def
        set_thread_status_def upd_thread_def make_reschedule_request_def upd_ctl_def emit_def Let_def)
  have th: "threads s' = (threads s1)(t := x)" "thread_heap s' = thread_heap s1"
    "curr_obj (ctl s' p) = curr_obj (ctl s p)" by (simp_all add: s'_def y R(1))
  have x: "sched_ctl x = p" "pcpu_id x = p" "\<not> wants_cpu x" "data x = data (threads s1 t)"
    "priority_pending x = priority_pending (threads s t)"
    "status x = THREAD_STS_RUNNING \<longleftrightarrow> curr_obj (ctl s p) = Some t" "be_blocking x \<Longrightarrow> status x = THREAD_STS_RUNNING"
    using P(1,2,4,5) assms(3) sc run cpu_okD(3,4) [OF I(2) assms(3)] by (auto simp: x_def wants_cpu_def)
  have pe: "private_eq s1 s'" using yy(2) x(2,4) P(1) assms(3) by (auto simp: private_eq_def s'_def)
  note own = own_inv_public [OF assms(1) st q pp, folded s1_def, OF _ th(1) pe th(2,3) assms(3,5,4) x(1,2,6,7)]
  have i: "own_inv s' p" "ready s' p = ready s p - {t}"
    by (rule own(1); use m x(3) in \<open>simp add: s1_def\<close>) (subst own(2); use m x(3) in \<open>simp add: s1_def\<close>)
  have fw: "fw_step p s s'"
    unfolding s'_def using fw_step_trans [OF fw_step_sched_step [OF st, folded s1_def] yy(1)] assms(3) x(1,2) sc
    by (intro fw_step_set_thread) simp_all
  show thesis
    by (rule that [OF eq fw i])
      (use th R x(5) P(5) y(4) run in \<open>auto simp: is_blocked_def x_def s'_def need_reschedule_def y_def
        make_reschedule_request_def Let_def\<close>)
qed

lemma wake_thread_ok:
  assumes "own_inv s p" and "get_scheduler p s = Some ops" and "cpu_of s t = p" and "t \<noteq> Idle p" and "registered s t"
  obtains s' where "wake_thread t s = Some s'" and "fw_step p s s'" and "own_inv s' p" and "ready s' p = insert t (ready s p)"
    and "thread_heap s' = thread_heap s" and "thread_list_initialized s' = thread_list_initialized s"
    and "\<And>u. priority_pending (threads s' u) = priority_pending (threads s u)"
    and "curr_obj (ctl s' p) = curr_obj (ctl s p)"
    and "is_blocked s t \<Longrightarrow> need_reschedule p s'"
proof (cases "is_blocked s t \<or> be_blocking (threads s t)")
  case False
  then have w: "wake_thread t s = Some s" by (simp add: wake_thread_def)
  have "t \<in> ready s p" using False assms(3,4) by (cases "status (threads s t)") (auto simp: ready_def is_blocked_def)
  then show thesis using that [OF w] assms(1) False by (simp add: insert_absorb)
next
  case True
  note I = own_invD [OF assms(1)]
  have sc: "sched_ctl (threads s t) = p" "prep s t" using I(5) assms(3-5) by blast+
  have "t \<notin> ready s p" using True cpu_okD(4) [OF I(2) assms(3)] by (auto simp: ready_def is_blocked_def)
  then have nm: "t \<notin> members s p" using I(3) by blast
  obtain f where f: "wake ops = Some f" and st: "sched_step p s (f t s)" and q: "qinv (f t s) p"
    and m: "members (f t s) p = insert t (members s p)" and pp: "\<And>u. prep s u \<Longrightarrow> prep (f t s) u"
    using wake_law [OF I(1) assms(3) sc(1) assms(4) sc(2) nm] by blast
  define s1 where "s1 = f t s"
  note pub = sched_step_public [OF st, folded s1_def]
  note P = public_eq_thread [OF pub] and R = public_eq_rest [OF pub]
  have bl: "is_blocked s1 t = is_blocked s t" by (simp add: is_blocked_def P(3))
  define y where "y = (if is_blocked s t then make_reschedule_request p (s1\<lparr>tsc_reads := Suc (tsc_reads s1)\<rparr>) else s1)"
  define x where "x = (if is_blocked s t
    then (latency_update (sched_mark_runnable (tsc s1 (tsc_reads s1))) (threads s1 t))\<lparr>status := THREAD_STS_RUNNABLE, be_blocking := False\<rparr>
    else (threads s1 t)\<lparr>be_blocking := False\<rparr>)"
  define s' where "s' = upd_thread t (\<lambda>_. x) y"
  have y: "threads y = threads s1" "thread_heap y = thread_heap s1" "curr_obj (ctl y p) = curr_obj (ctl s1 p)"
    "thread_list_initialized y = thread_list_initialized s1"
    by (simp_all add: y_def make_reschedule_request_def Let_def)
  have yy: "fw_step p s1 y" "private_eq s1 y"
    using fw_step_trans [OF fw_step_read fw_step_request]
    by (simp_all add: y_def) (simp add: private_eq_def make_reschedule_request_def Let_def)
  have eq: "wake_thread t s = Some s'"
    using assms(2,3) f True bl
    by (simp add: wake_thread_def s1_def [symmetric] s'_def x_def y_def cpu_ticks_def
        set_thread_status_def upd_thread_def make_reschedule_request_def upd_ctl_def emit_def Let_def)
  have th: "threads s' = (threads s1)(t := x)" "thread_heap s' = thread_heap s1"
    "curr_obj (ctl s' p) = curr_obj (ctl s p)" by (simp_all add: s'_def y R(1))
  have run: "status (threads s t) = THREAD_STS_RUNNING \<longleftrightarrow> curr_obj (ctl s p) = Some t"
    "be_blocking (threads s t) \<Longrightarrow> status (threads s t) = THREAD_STS_RUNNING"
    using cpu_okD(3,4) [OF I(2) assms(3)] by auto
  have x: "sched_ctl x = p" "pcpu_id x = p" "wants_cpu x" "data x = data (threads s1 t)"
    "priority_pending x = priority_pending (threads s t)" "status x = THREAD_STS_RUNNING \<longleftrightarrow> curr_obj (ctl s p) = Some t"
    "\<not> be_blocking x"
    using P(1-3,5) assms(3) sc run True by (auto simp: x_def wants_cpu_def is_blocked_def)
  have pe: "private_eq s1 s'" using yy(2) x(2,4) P(1) assms(3) by (auto simp: private_eq_def s'_def)
  note own = own_inv_public [OF assms(1) st q pp, folded s1_def, OF _ th(1) pe th(2,3) assms(3,5,4) x(1,2,6)]
  have i: "own_inv s' p" "ready s' p = insert t (ready s p)"
    by (rule own(1); use m x(3,7) in \<open>simp add: s1_def\<close>) (subst own(2); use m x(3,7) in \<open>simp add: s1_def\<close>)
  have fw: "fw_step p s s'"
    unfolding s'_def using fw_step_trans [OF fw_step_sched_step [OF st, folded s1_def] yy(1)] assms(3) x(1,2) sc
    by (intro fw_step_set_thread) simp_all
  show thesis
    by (rule that [OF eq fw i])
      (use th R x(5) P(5) y(4) in \<open>auto simp: s'_def need_reschedule_def y_def make_reschedule_request_def Let_def\<close>)
qed

lemma pick_ok:
  assumes "own_inv s p" and "clock_ok s" and "this_cpu s = p"
  obtains f n s' where "pick_next ops = Some f" and "f p s = Some (n, s')" and "sched_step p s s'" and "qinv s' p"
    and "\<And>u. prep s u \<Longrightarrow> prep s' u" and "if ready s p = {} then n = Idle p else n \<in> ready s p"
    and "members s' p = ready s p - (if holds then {} else {n})"
  using pick_law [OF assms, folded own_invD(4) [OF assms(1)], unfolded Let_def] that by blast

end

text \<open>The bookkeeping of a switch.\<close>

lemma switch_threads_effect:
  assumes "t \<noteq> n"
  shows "threads (switch_threads p (Some t) n s) u =
      (if u = n then (latency_update (sched_mark_running (tsc s (tsc_reads s))) (threads s n))\<lparr>status := THREAD_STS_RUNNING\<rparr>
       else if u = t then (latency_update (sched_mark_not_running (tsc s (tsc_reads s)) (\<not> be_blocking (threads s t))) (threads s t))
         \<lparr>status := (if be_blocking (threads s t) then THREAD_STS_BLOCKED else THREAD_STS_RUNNABLE), be_blocking := False\<rparr>
       else threads s u)"
    and "ctl (switch_threads p (Some t) n s) =
      (ctl s)(p := (ctl s p)\<lparr>curr_obj := Some n, context_switches := context_switches (ctl s p) + 1\<rparr>)"
    and "thread_heap (switch_threads p (Some t) n s) = thread_heap s"
    and "thread_list_initialized (switch_threads p (Some t) n s) = thread_list_initialized s"
    and "private_eq s (switch_threads p (Some t) n s)"
    and "cpu_of s t = p \<Longrightarrow> cpu_of s n = p \<Longrightarrow> fw_step p s (switch_threads p (Some t) n s)"
proof -
  let ?s = "switch_threads p (Some t) n s"
  show th: "threads ?s u =
      (if u = n then (latency_update (sched_mark_running (tsc s (tsc_reads s))) (threads s n))\<lparr>status := THREAD_STS_RUNNING\<rparr>
       else if u = t then (latency_update (sched_mark_not_running (tsc s (tsc_reads s)) (\<not> be_blocking (threads s t))) (threads s t))
         \<lparr>status := (if be_blocking (threads s t) then THREAD_STS_BLOCKED else THREAD_STS_RUNNABLE), be_blocking := False\<rparr>
       else threads s u)" for u
    using assms by (simp add: switch_threads_def cpu_ticks_def set_thread_status_def Let_def)
  show ct: "ctl ?s = (ctl s)(p := (ctl s p)\<lparr>curr_obj := Some n, context_switches := context_switches (ctl s p) + 1\<rparr>)"
    and hp: "thread_heap ?s = thread_heap s" "thread_list_initialized ?s = thread_list_initialized s"
    by (simp_all add: switch_threads_def cpu_ticks_def set_thread_status_def Let_def)
  show pe: "private_eq s ?s"
    unfolding private_eq_def th by (simp add: switch_threads_def cpu_ticks_def set_thread_status_def Let_def)
  show "fw_step p s ?s" if "cpu_of s t = p" "cpu_of s n = p"
  proof -
    have "private_local p s ?s" using pe by (simp add: private_eq_def private_local_def)
    moreover have "this_cpu ?s = this_cpu s" by (simp add: switch_threads_def cpu_ticks_def set_thread_status_def Let_def)
    ultimately show ?thesis using that pe unfolding fw_step_def th registered_def hp ct by (simp add: private_eq_def)
  qed
qed

lemma cpu_ok_switch:
  assumes "cpu_ok s p" and "curr_obj (ctl s p) = Some t" and "cpu_of s n = p" and "registered s n" and "t \<noteq> n"
    and "\<not> be_blocking (threads s n)"
  shows "cpu_ok (switch_threads p (Some t) n s) p"
proof -
  note E = switch_threads_effect [where p = p and s = s, OF assms(5)] and K = cpu_okD [OF assms(1)]
  have c: "cpu_of (switch_threads p (Some t) n s) u = cpu_of s u" "registered (switch_threads p (Some t) n s) u = registered s u" for u
    by (simp_all add: E(1,3) registered_def)
  have t: "registered s t" "cpu_of s t = p" using K(2) K(3,5) [of t] assms(2) by auto
  let ?s = "switch_threads p (Some t) n s"
  have cur: "curr_obj (ctl ?s p) = Some n" by (simp add: E(2))
  have "(status (threads ?s u) = THREAD_STS_RUNNING \<longleftrightarrow> n = u) \<and>
      (be_blocking (threads ?s u) \<longrightarrow> status (threads ?s u) = THREAD_STS_RUNNING \<and> u \<noteq> Idle p) \<and>
      (status (threads ?s u) \<noteq> THREAD_STS_BLOCKED \<longrightarrow> registered s u)" if u: "cpu_of s u = p" for u
  proof (cases "u = n \<or> u = t")
    case True
    then show ?thesis using assms(4-6) t(1) unfolding E(1) by (auto simp: split: if_splits)
  next
    case False
    then show ?thesis using K(3-5) [OF u] assms(2) unfolding E(1) by auto
  qed
  then show ?thesis unfolding cpu_ok_def c cur using K(1) assms(3) by simp
qed

lemma ready_switch:
  assumes "cpu_ok s p" and "curr_obj (ctl s p) = Some t" and "cpu_of s n = p" and "n = Idle p \<or> n \<in> ready s p" and "t \<noteq> n"
  shows "ready (switch_threads p (Some t) n s) p = ready s p"
proof -
  note E = switch_threads_effect [where p = p and s = s, OF assms(5)] and K = cpu_okD [OF assms(1)]
  have c: "cpu_of (switch_threads p (Some t) n s) u = cpu_of s u" for u by (simp add: E(1))
  have st: "status (threads s t) = THREAD_STS_RUNNING" using K(2) K(3) [of t] assms(2) by auto
  have nb: "\<not> be_blocking (threads s n)" using assms(2-5) K(3,4) [of n] by (auto simp: ready_def)
  have "wants_cpu (threads (switch_threads p (Some t) n s) u) = wants_cpu (threads s u)" if "u \<noteq> Idle p" for u
    unfolding E(1) using that st nb assms(4) by (auto simp: ready_wants wants_cpu_def)
  then show ?thesis using c by (auto simp: ready_wants)
qed

text \<open>Appending a thread that is in no list.\<close>

lemma register_fresh:
  assumes "thread_list_initialized s" and "thread_heap s = INIT_LIST_HEAD (TNode t) g"
  shows "register_thread_object t s =
    s\<lparr>thread_heap := list_add_tail (TNode t) THead (INIT_LIST_HEAD (TNode t) g), thread_count := thread_count s + 1\<rparr>"
  using assms by (simp add: register_thread_object_def init_thread_list_once_def list_empty_def INIT_LIST_HEAD_def)

lemma thread_list_append:
  assumes "thread_list_ok ts s" and "t \<notin> set ts"
  defines "h \<equiv> list_add_tail (TNode t) THead (INIT_LIST_HEAD (TNode t) (thread_heap s))"
  shows "dlist h THead (map TNode (ts @ [t]))" and "nxt h (TNode u) \<noteq> TNode u \<longleftrightarrow> u \<in> set (ts @ [t])"
proof -
  let ?g = "INIT_LIST_HEAD (TNode t) (thread_heap s)"
  have d: "dlist (thread_heap s) THead (map TNode ts)" using assms(1) by (simp add: thread_list_ok_def)
  have g: "dlist ?g THead (map TNode ts)"
    by (rule dlist_frame [OF d]) (use assms(2) in \<open>auto simp: INIT_LIST_HEAD_def\<close>)
  have n: "TNode t \<notin> set (THead # map TNode ts)" using assms(2) by auto
  show l: "dlist h THead (map TNode (ts @ [t]))" unfolding h_def using dlist_list_add_tail [OF g n] by simp
  show "nxt h (TNode u) \<noteq> TNode u \<longleftrightarrow> u \<in> set (ts @ [t])"
  proof (cases "u \<in> set (ts @ [t])")
    case True
    then obtain xs ys where u: "ts @ [t] = xs @ u # ys" by (meson split_list)
    then have "dlist h THead (map TNode xs @ TNode u # map TNode ys)" using l by simp
    from dlist_neighbours(1) [OF this] this show ?thesis using True u by (cases ys) (auto simp: dlist_def)
  next
    case False
    have "prv ?g THead \<in> insert THead (TNode ` set ts)"
      using dlist_prv_head [OF g] last_in_set [of "THead # map TNode ts"] by simp
    then have "nxt h (TNode u) = nxt (thread_heap s) (TNode u)"
      using False by (auto simp: h_def list_add_tail_def list_add_node_def INIT_LIST_HEAD_def)
    then show ?thesis using False assms(1) by (auto simp: thread_list_ok_def registered_def)
  qed
qed

text \<open>The last part of \<^verbatim>\<open>schedule\<close>: the request is cleared, and the picked thread runs.\<close>

definition schedule_to :: "pcpu \<Rightarrow> tid option \<Rightarrow> tid \<Rightarrow> hv \<Rightarrow> hv" where
  "schedule_to p prev n s =
     (let s = upd_ctl p (\<lambda>c. c\<lparr>flags := bitmap_clear NEED_RESCHEDULE (flags c)\<rparr>) s
      in if prev \<noteq> Some n then switch_threads p prev n s else s)"

lemma schedule_to_ok:
  assumes "cpu_ok s p" and "curr_obj (ctl s p) = Some t" and "n = Idle p \<or> n \<in> ready s p" and "registered s (Idle p)"
  defines "s' \<equiv> schedule_to p (Some t) n s"
  shows "cpu_ok s' p" and "ready s' p = ready s p" and "private_eq s s'" and "fw_step p s s'"
    and "thread_heap s' = thread_heap s" and "thread_list_initialized s' = thread_list_initialized s"
    and "curr_obj (ctl s' p) = Some n" and "\<not> need_reschedule p s'"
    and "priority_pending (threads s' u) = priority_pending (threads s u)"
    and "cpu_of s u = p \<Longrightarrow> be_blocking (threads s u) \<Longrightarrow> is_blocked s' u"
proof -
  define y where "y = upd_ctl p (\<lambda>c. c\<lparr>flags := bitmap_clear NEED_RESCHEDULE (flags c)\<rparr>) s"
  note K = cpu_okD [OF assms(1)]
  have y: "cpu_ok y p" "curr_obj (ctl y p) = Some t" "n = Idle p \<or> n \<in> ready y p" "ready y p = ready s p" "private_eq s y"
    "fw_step p s y" "thread_heap y = thread_heap s" "thread_list_initialized y = thread_list_initialized s"
    "threads y = threads s" "\<not> bit (flags (ctl y p)) 1"
    using assms(1-3) fw_step_upd_ctl [of "\<lambda>c. c\<lparr>flags := bitmap_clear NEED_RESCHEDULE (flags c)\<rparr>" p s]
    by (simp_all add: y_def cpu_ok_def ready_def registered_def)
  have t: "cpu_of s t = p" using K(2) assms(2) by auto
  have n: "cpu_of s n = p" "registered s n" "\<not> be_blocking (threads s n)"
    using assms(3,4) K(1) K(4,5) [of n] by (auto simp: ready_def)
  have s': "s' = (if t = n then y else switch_threads p (Some t) n y)"
    by (simp add: s'_def schedule_to_def y_def)
  have blk: "u = t" if "cpu_of s u = p" "be_blocking (threads s u)" for u using K(3,4) [OF that(1)] that(2) assms(2) by simp
  have "cpu_ok s' p \<and> ready s' p = ready s p \<and> private_eq s s' \<and> fw_step p s s' \<and> thread_heap s' = thread_heap s \<and>
    thread_list_initialized s' = thread_list_initialized s \<and> curr_obj (ctl s' p) = Some n \<and> \<not> need_reschedule p s' \<and>
    (\<forall>u. priority_pending (threads s' u) = priority_pending (threads s u)) \<and>
    (\<forall>u. cpu_of s u = p \<longrightarrow> be_blocking (threads s u) \<longrightarrow> is_blocked s' u)"
  proof (cases "t = n")
    case True
    then show ?thesis using s' y n(3) blk by (auto simp: need_reschedule_def)
  next
    case False
    note E = switch_threads_effect [where p = p and s = y, OF False]
    have ny: "cpu_of y n = p" "registered y n" "\<not> be_blocking (threads y n)" "cpu_of y t = p"
      using n t y(7,9) by (simp_all add: registered_def)
    have "private_eq s s'" using y(5) E(5) s' False by (auto simp: private_eq_def)
    moreover have "fw_step p s s'" using fw_step_trans [OF y(6) E(6) [OF ny(4,1)]] s' False by simp
    ultimately show ?thesis
      using cpu_ok_switch [OF y(1,2) ny(1,2) False ny(3)] ready_switch [OF y(1,2) ny(1) y(3) False] y(4,7-10) E(1-4) s' False blk
      by (auto simp: need_reschedule_def is_blocked_def)
  qed
  then show "cpu_ok s' p" "ready s' p = ready s p" "private_eq s s'" "fw_step p s s'" "thread_heap s' = thread_heap s"
    "thread_list_initialized s' = thread_list_initialized s" "curr_obj (ctl s' p) = Some n" "\<not> need_reschedule p s'"
    "priority_pending (threads s' u) = priority_pending (threads s u)"
    "cpu_of s u = p \<Longrightarrow> be_blocking (threads s u) \<Longrightarrow> is_blocked s' u" by blast+
qed

context sched_class
begin

lemma schedule_ok:
  assumes "own_inv s p" and "get_scheduler p s = Some ops" and "fw_inv ts s p" and "this_cpu s = p"
  obtains s' n where "schedule s = Some s'" and "fw_step p s s'" and "own_inv s' p" and "fw_inv ts s' p"
    and "curr_obj (ctl s' p) = Some n" and "if ready s p = {} then n = Idle p else n \<in> ready s p"
    and "ready s' p = ready s p" and "\<not> need_reschedule p s'"
    and "\<And>t. cpu_of s t = p \<Longrightarrow> be_blocking (threads s t) \<Longrightarrow> is_blocked s' t"
proof -
  have "nxt (thread_heap s) THead = list_at ts" using assms(3) by (simp add: fw_inv_def thread_list_first)
  then obtain s1 where c: "consume_priorities ops p (nxt (thread_heap s) THead) s = Some s1" "prio_round p s s1" "own_inv s1 p"
    using consume_priorities_from [of s p "[]" ts] assms(1,3) by auto
  have f1: "fw_inv ts s1 p" "fw_step p s s1" "ready s1 p = ready s p" "ctl s1 = ctl s" "\<And>u. be_blocking (threads s1 u) = be_blocking (threads s u)"
    using prio_round_fw_inv [OF c(2) assms(3)] prio_round_ready [OF c(2)] c(2) by (simp_all add: prio_round_def)
  have tc: "this_cpu s1 = p" "clock_ok s1" using fw_stepD(9) [OF f1(2)] assms(4) f1(1) by (simp_all add: fw_inv_def)
  obtain f n s2 where pk: "pick_next ops = Some f" "f p s1 = Some (n, s2)" "sched_step p s1 s2" "qinv s2 p"
    and pp: "\<And>u. prep s1 u \<Longrightarrow> prep s2 u" and n: "if ready s1 p = {} then n = Idle p else n \<in> ready s1 p"
    and m: "members s2 p = ready s1 p - (if holds then {} else {n})"
    by (rule pick_ok [OF c(3) tc(2,1)]) blast
  note pub = sched_step_public [OF pk(3)] and I1 = own_invD [OF c(3)]
  obtain t where t: "curr_obj (ctl s p) = Some t" using cpu_okD(2) [OF I1(2)] f1(4) by auto
  have 2: "cpu_ok s2 p" "curr_obj (ctl s2 p) = Some t" "n = Idle p \<or> n \<in> ready s2 p" "registered s2 (Idle p)" "ready s2 p = ready s p"
    using I1(2) t n f1(1,3,4) public_eq_rest(1) [OF pub]
    by (auto simp: cpu_ok_public [OF pub] ready_public [OF pub] registered_public [OF pub] fw_inv_def thread_list_ok_def split: if_splits)
  define s' where "s' = schedule_to p (Some t) n s2"
  note S = schedule_to_ok [OF 2(1-4), folded s'_def]
  have eq: "schedule s = Some s'"
    using assms(2,4) c(1) pk(1,2) t by (simp add: schedule_def s'_def schedule_to_def Let_def)
  have fw: "fw_step p s s'" by (rule fw_step_trans [OF f1(2) fw_step_trans [OF fw_step_sched_step [OF pk(3)] S(4)]])
  have "own_inv s' p"
  proof (rule own_invI [OF pk(4) S(3,1)])
    show "members s2 p \<subseteq> ready s' p" using m S(2) 2(5) f1(3) by auto
    show "ready s' p \<subseteq> members s2 p \<union> waiting_current holds s' p"
      using m S(2,7) 2(5) f1(3) by (auto simp: waiting_current_def)
    show "sched_ctl (threads s' u) = p \<and> prep s2 u" if "cpu_of s' u = p" "u \<noteq> Idle p" "registered s' u" for u
    proof -
      have "cpu_of s1 u = p" "registered s1 u"
        using that(1,3) fw_stepD(1) [OF fw] fw_stepD(1) [OF f1(2)] S(5) registered_public [OF pub]
        by (simp_all add: registered_def)
      then show ?thesis using I1(5) that(2) pp fw_stepD(2) [OF fw] fw_stepD(2) [OF f1(2)] by simp
    qed
  qed
  moreover have "fw_inv ts s' p"
    using f1(1) S(5,6,9) public_eq_rest [OF pub] public_eq_thread(5) [OF pub] fw_stepD(7,8) [OF fw] fw_stepD(7,8) [OF f1(2)]
    by (simp add: fw_inv_def thread_list_ok_def registered_def clock_ok_def)
  moreover have "is_blocked s' u" if "cpu_of s u = p" "be_blocking (threads s u)" for u
    using S(10) [of u] that public_eq_thread(1,4) [OF pub, of u] f1(5) fw_stepD(1) [OF f1(2)] by simp
  moreover have "if ready s p = {} then n = Idle p else n \<in> ready s p" using n unfolding f1(3) .
  ultimately show thesis using that [OF eq fw _ _ S(7)] S(2,8) 2(5) by simp
qed

lemma tick_ok:
  assumes "own_inv s p" and "fw_inv ts s p" and "this_cpu s = p"
  obtains s' where "tick p s = Some s'" and "fw_step p s s'" and "own_inv s' p" and "fw_inv ts s' p" and "ready s' p = ready s p"
proof -
  have ck: "clock_ok s" using assms(2) by (simp add: fw_inv_def)
  obtain s' where t: "tick p s = Some s'" "tick_step p s s'" "qinv s' p" "\<And>u. prep s u \<Longrightarrow> prep s' u"
    "members s p \<subseteq> members s' p" "members s' p \<subseteq> members s p \<union> waiting_current holds s p"
    using tick_law [OF assms(1) ck assms(3)] by blast
  note I = own_invD [OF assms(1)] and P = tick_step_thread [OF t(2)] and fw = fw_step_tick [OF t(2)]
  have cur: "curr_obj (ctl s' p) = curr_obj (ctl s p)" using t(2) by (simp add: tick_step_def)
  have hp: "thread_heap s' = thread_heap s" "thread_list_initialized s' = thread_list_initialized s"
    using t(2) by (simp_all add: tick_step_def sched_step_def public_eq_def)
  have rd: "ready s' p = ready s p" by (simp add: ready_def P)
  have "own_inv s' p"
  proof (rule own_invI [OF t(3) private_eq_refl])
    show "cpu_ok s' p" using I(2) by (simp add: cpu_ok_def P cur registered_def hp)
    show "members s' p \<subseteq> ready s' p" using t(6) I(4) rd by blast
    show "ready s' p \<subseteq> members s' p \<union> waiting_current holds s' p"
      using t(5) I(4) rd cur by (auto simp: waiting_current_def split: if_splits)
    show "sched_ctl (threads s' u) = p \<and> prep s' u" if "cpu_of s' u = p" "u \<noteq> Idle p" "registered s' u" for u
      using that I(5) [of u] t(4) P(1,2) [of u] hp by (simp add: registered_def)
  qed
  moreover have "fw_inv ts s' p"
    using assms(2) fw_stepD(7,8) [OF fw] P(5) by (simp add: fw_inv_def clock_ok_def thread_list_ok_def registered_def hp)
  ultimately show thesis using that t(1) fw rd by blast
qed

text \<open>Calls that only raise requests.\<close>

lemma quiet_ok:
  assumes "own_inv s p" and "fw_inv ts s p" and "fw_step p s s'" and "thread_heap s' = thread_heap s"
    and "thread_list_initialized s' = thread_list_initialized s" and "curr_obj (ctl s' p) = curr_obj (ctl s p)"
    and "\<And>u. status (threads s' u) = status (threads s u) \<and> be_blocking (threads s' u) = be_blocking (threads s u) \<and>
      data (threads s' u) = data (threads s u)"
    and "private_eq s s'" and "\<not> priority_pending (threads s' (Idle p))"
  shows "own_inv s' p" and "fw_inv ts s' p" and "ready s' p = ready s p"
proof -
  note I = own_invD [OF assms(1)] and D = fw_stepD [OF assms(3)]
  show rd: "ready s' p = ready s p" by (simp add: ready_def assms(7) D(1))
  show "own_inv s' p"
  proof (rule own_invI [OF I(1) assms(8)])
    show "cpu_ok s' p" using I(2) by (simp add: cpu_ok_def assms(4,6,7) D(1) registered_def)
    show "members s p \<subseteq> ready s' p" "ready s' p \<subseteq> members s p \<union> waiting_current holds s' p"
      using I(3,4) rd assms(6) by (auto simp: waiting_current_def)
    show "sched_ctl (threads s' u) = p \<and> prep s u" if "cpu_of s' u = p" "u \<noteq> Idle p" "registered s' u" for u
      using that I(5) [of u] D(1,2) assms(4) by (simp add: registered_def)
  qed
  show "fw_inv ts s' p"
    using assms(2,9) D(7,8) by (simp add: fw_inv_def clock_ok_def thread_list_ok_def registered_def assms(4,5))
qed

lemma request_thread_priority_ok:
  assumes "own_inv s p" and "get_scheduler p s = Some ops" and "fw_inv ts s p" and "cpu_of s t = p" and "t \<noteq> Idle p"
  obtains s' where "request_thread_priority t s = Some s'" and "fw_step p s s'" and "own_inv s' p" and "fw_inv ts s' p"
    and "ready s' p = ready s p" and "need_reschedule p s'"
proof -
  let ?y = "if prioritize ops \<noteq> None then upd_thread t (\<lambda>obj. obj\<lparr>priority_pending := True\<rparr>) s else s"
  let ?s = "make_reschedule_request p ?y"
  have eq: "request_thread_priority t s = Some ?s"
    using assms(2,4) by (simp add: request_thread_priority_def Let_def)
  have th: "threads ?s = threads ?y" by (simp add: make_reschedule_request_def Let_def)
  have "fw_step p s ?y" using fw_step_upd_thread [of s t p "\<lambda>obj. obj\<lparr>priority_pending := True\<rparr>"] assms(4) by simp
  then have fw: "fw_step p s ?s" by (rule fw_step_trans [OF _ fw_step_request])
  have "private_eq s ?s" using fw_stepD(1) [OF fw]
    by (auto simp: private_eq_def make_reschedule_request_def Let_def)
  then have "own_inv ?s p" "fw_inv ts ?s p" "ready ?s p = ready s p"
    using quiet_ok [OF assms(1,3) fw] assms(3,5)
    by (auto simp: th fw_inv_def make_reschedule_request_def Let_def)
  then show thesis using that eq fw by simp
qed

lemma request_ok:
  assumes "own_inv s p" and "fw_inv ts s p"
  shows "own_inv (make_reschedule_request p s) p" and "fw_inv ts (make_reschedule_request p s) p"
    and "ready (make_reschedule_request p s) p = ready s p"
  by (rule quiet_ok [OF assms fw_step_request];
      use assms(2) in \<open>simp add: fw_inv_def make_reschedule_request_def private_eq_def Let_def\<close>)+

lemma init_thread_data_ok:
  assumes "own_inv s p" and "get_scheduler p s = Some ops" and "fw_inv ts s p" and "cpu_of s t = p"
    and "sched_ctl (threads s t) = p" and "t \<notin> set ts"
  obtains s' where "init_thread_data t params s = Some s'" and "fw_step p s s'" and "own_inv s' p" and "fw_inv (ts @ [t]) s' p"
    and "ready s' p = ready s p" and "is_blocked s' t" and "thread_count s' = thread_count s + 1"
    and "\<And>u. u \<noteq> t \<Longrightarrow> priority_pending (threads s' u) = priority_pending (threads s u)"
proof -
  note I = own_invD [OF assms(1)]
  have L: "thread_list_ok ts s" "tickrate s \<noteq> 0" "Idle p \<in> set ts" using assms(3) by (simp_all add: fw_inv_def)
  have nr: "\<not> registered s t" using L(1) assms(6) by (simp add: thread_list_ok_def)
  then have bl: "status (threads s t) = THREAD_STS_BLOCKED" "\<not> be_blocking (threads s t)"
    using cpu_okD(3-5) [OF I(2) assms(4)] by auto
  have ti: "t \<noteq> Idle p" using L(3) assms(6) by auto
  define s1 where "s1 = upd_latency t (\<lambda>_. latency_zero) (s\<lparr>thread_heap := INIT_LIST_HEAD (TNode t) (thread_heap s)\<rparr>)"
  have pe1: "private_eq s s1" by (auto simp: private_eq_def s1_def)
  note f1 = frame [OF pe1 I(1)]
  have nm: "t \<notin> members s1 p" using f1 I(3) bl by (auto simp: ready_def)
  have c1: "cpu_of s1 t = p" "tickrate s1 \<noteq> 0" using assms(4) L(2) by (simp_all add: s1_def)
  obtain f where f: "init_data ops = Some f" and st: "sched_step p s1 (f t params s1)" and q: "qinv (f t params s1) p"
    and m: "members (f t params s1) p = members s1 p" and pt: "prep (f t params s1) t"
    and pp: "\<And>u. prep s1 u \<Longrightarrow> prep (f t params s1) u"
    using init_data_law [OF _ c1(1) nm c1(2), of params] f1 by blast
  define s2 where "s2 = f t params s1"
  note pub = sched_step_public [OF st, folded s2_def]
  note P = public_eq_thread [OF pub] and R = public_eq_rest [OF pub]
  define x where "x = latency_update (\<lambda>l. l\<lparr>state_since := tsc s2 (tsc_reads s2)\<rparr>)
    ((threads s2 t)\<lparr>status := THREAD_STS_BLOCKED, priority_pending := False\<rparr>)"
  define h where "h = list_add_tail (TNode t) THead (INIT_LIST_HEAD (TNode t) (thread_heap s))"
  define s' where "s' = s2\<lparr>tsc_reads := Suc (tsc_reads s2), threads := (threads s2)(t := x), thread_heap := h,
    thread_count := thread_count s2 + 1\<rparr>"
  have s2: "thread_heap s2 = INIT_LIST_HEAD (TNode t) (thread_heap s)" "thread_list_initialized s2"
    using R(2,4) L(1) by (simp_all add: s1_def thread_list_ok_def)
  define z where "z = s2\<lparr>tsc_reads := Suc (tsc_reads s2), threads := (threads s2)(t := x)\<rparr>"
  have "init_thread_data t params s = Some (register_thread_object t z)"
    using assms(2,4) f unfolding z_def s2_def s1_def x_def
    by (simp add: init_thread_data_def cpu_ticks_def set_thread_status_def upd_thread_def Let_def)
  moreover have "register_thread_object t z = s'"
    using register_fresh [of z t "thread_heap s"] s2 by (simp add: z_def s'_def h_def)
  ultimately have eq: "init_thread_data t params s = Some s'" by simp
  note app = thread_list_append [OF L(1) assms(6), folded h_def]
  have reg: "registered s' u \<longleftrightarrow> u \<in> set (ts @ [t])" for u using app(2) [of u] by (simp add: registered_def s'_def)
  have regs: "registered s u \<longleftrightarrow> u \<in> set ts" for u using L(1) by (simp add: thread_list_ok_def)
  have x: "pcpu_id x = p" "sched_ctl x = p" "status x = THREAD_STS_BLOCKED" "\<not> be_blocking x" "data x = data (threads s2 t)"
    using P(1,2,4) assms(4,5) bl(2) by (simp_all add: x_def s1_def)
  have o: "cpu_of s' u = cpu_of s u" "sched_ctl (threads s' u) = sched_ctl (threads s u)" "status (threads s' u) = status (threads s u)"
    "be_blocking (threads s' u) = be_blocking (threads s u)"
    "u \<noteq> t \<Longrightarrow> priority_pending (threads s' u) = priority_pending (threads s u)" for u
    using x P assms(4,5) bl by (simp_all add: s'_def s1_def)
  have rd: "ready s' p = ready s p" unfolding ready_def o ..
  have ctl: "ctl s' = ctl s" using R(1) by (simp add: s'_def s1_def)
  have pe: "private_eq s2 s'" using x(1,5) P(1) c1(1) by (auto simp: private_eq_def s'_def)
  have "own_inv s' p"
  proof (rule own_invI [OF q [folded s2_def] pe])
    show "cpu_ok s' p" unfolding cpu_ok_def o ctl reg using I(2) unfolding cpu_ok_def regs by auto
    show "members s2 p \<subseteq> ready s' p" "ready s' p \<subseteq> members s2 p \<union> waiting_current holds s' p"
      using m f1 I(3,4) rd ctl by (auto simp: s2_def waiting_current_def)
    show "sched_ctl (threads s' u) = p \<and> prep s2 u" if "cpu_of s' u = p" "u \<noteq> Idle p" "registered s' u" for u
      using that I(5) [of u] pt pp [of u] prep_frame [OF pe1, of u] assms(5) unfolding o reg regs s2_def by auto
  qed
  moreover have "fw_inv (ts @ [t]) s' p"
    using assms(3) app(1) reg o(5) [of "Idle p"] ti R(7,8) s2(2)
    by (simp add: fw_inv_def thread_list_ok_def clock_ok_def s'_def s1_def)
  moreover have "fw_step p s s'"
  proof -
    have "private_local p s s1" using pe1 by (simp add: private_eq_def private_local_def)
    moreover have "private_local p s1 s2" using st by (simp add: s2_def sched_step_def)
    moreover have "private_local p s2 s'" using pe by (simp add: private_eq_def private_local_def)
    ultimately have "private_local p s s'"
      using private_local_trans [of p s s1 s2] private_local_trans [of p s s2 s'] P(1) by (simp add: s1_def)
    moreover have "threads s' u = threads s u" if "cpu_of s u \<noteq> p" for u
    proof -
      have "threads s2 u = threads s1 u" using fw_stepD(3) [OF fw_step_sched_step [OF st], of u] that c1(1)
        by (auto simp: s2_def s1_def)
      then show ?thesis using that assms(4) by (auto simp: s'_def s1_def)
    qed
    ultimately show ?thesis
      unfolding fw_step_def o ctl reg regs using assms(4) R(6-8) by (auto simp: s'_def s1_def)
  qed
  ultimately show thesis
    using that [OF eq] rd x(3) o(5) R(3) by (simp add: is_blocked_def s'_def s1_def)
qed

end

section \<open>The whole system\<close>

text \<open>
  Every CPU is governed by its own scheduler. \<open>sched_tick\<close> is the timer callback of a scheduler;
  the two schedulers without a timer have none.
\<close>

definition sched_tick :: "sched_name \<Rightarrow> pcpu \<Rightarrow> hv \<Rightarrow> hv option" where
  "sched_tick n p s =
     (case n of SCHED_IORR \<Rightarrow> Some (iorr_tick_handler p s) | SCHED_BVT \<Rightarrow> Some (bvt_tick_handler p s)
      | SCHED_RTDS \<Rightarrow> rtds_timer_handler p s | SCHED_NOOP \<Rightarrow> Some s | SCHED_PRIO \<Rightarrow> Some s)"

definition cpu_inv :: "hv \<Rightarrow> pcpu \<Rightarrow> bool" where
  "cpu_inv s p \<longleftrightarrow>
     (case scheduler (ctl s p) of
        Some SCHED_BVT \<Rightarrow> sched_inv bvt_members bvt_inv bvt_prep True s p
      | Some SCHED_RTDS \<Rightarrow> sched_inv rtds_members rtds_inv rtds_prep False s p
      | Some SCHED_IORR \<Rightarrow> sched_inv iorr_members iorr_inv iorr_prep True s p
      | Some SCHED_PRIO \<Rightarrow> sched_inv prio_members prio_inv (\<lambda>_ _. True) True s p
      | _ \<Rightarrow> False)"

text \<open>Whichever scheduler it is, it fulfils the contract.\<close>

lemma cpu_invE:
  assumes "cpu_inv s p"
  obtains n ops members qinv prep holds tick where "sched_class ops members qinv prep holds tick"
    and "scheduler (ctl s p) = Some n" and "get_scheduler p s = Some ops" and "sched_inv members qinv prep holds s p"
    and "\<And>q x. sched_tick n q x = tick q x"
    and "\<And>s' q. scheduler (ctl s' q) = Some n \<Longrightarrow> sched_inv members qinv prep holds s' q \<Longrightarrow> cpu_inv s' q"
proof (cases "scheduler (ctl s p)")
  case None
  then show thesis using assms by (simp add: cpu_inv_def)
next
  case (Some n)
  then have g: "get_scheduler p s = Some (acrn_scheduler_of n)" by (simp add: get_scheduler_def)
  show thesis
  proof (cases n)
    case SCHED_NOOP
    then show thesis using assms Some by (simp add: cpu_inv_def)
  next
    case SCHED_IORR
    show thesis
      by (rule that [OF iorr_class.sched_class_axioms Some])
        (use assms Some g SCHED_IORR in \<open>simp_all add: cpu_inv_def acrn_scheduler_of_def sched_tick_def\<close>)
  next
    case SCHED_BVT
    show thesis
      by (rule that [OF bvt_class.sched_class_axioms Some])
        (use assms Some g SCHED_BVT in \<open>simp_all add: cpu_inv_def acrn_scheduler_of_def sched_tick_def\<close>)
  next
    case SCHED_RTDS
    show thesis
      by (rule that [OF rtds_class.sched_class_axioms Some])
        (use assms Some g SCHED_RTDS in \<open>simp_all add: cpu_inv_def acrn_scheduler_of_def sched_tick_def\<close>)
  next
    case SCHED_PRIO
    show thesis
      by (rule that [OF prio_class.sched_class_axioms Some])
        (use assms Some g SCHED_PRIO in \<open>simp_all add: cpu_inv_def acrn_scheduler_of_def sched_tick_def\<close>)
  qed
qed

definition sys_inv :: "pcpu set \<Rightarrow> tid list \<Rightarrow> hv \<Rightarrow> bool" where
  "sys_inv cpus ts s \<longleftrightarrow> (\<forall>p \<in> cpus. cpu_inv s p \<and> fw_inv ts s p)"

text \<open>
  The steps: a call made on CPU \<open>c\<close> for a thread of any CPU, the scheduler timer of a CPU, and the
  set-up of a thread. Between the steps the CPUs interleave in any order.
\<close>

definition user_thread :: "pcpu set \<Rightarrow> tid list \<Rightarrow> hv \<Rightarrow> tid \<Rightarrow> bool" where
  "user_thread cpus ts s t \<longleftrightarrow> cpu_of s t \<in> cpus \<and> t \<noteq> Idle (cpu_of s t) \<and> t \<in> set ts"

datatype sys_call = Sleep_Thread tid | Wake_Thread tid | Request_Priority tid | Yield_Current | Schedule | Tick
  | Create_Thread tid sched_params

fun sys_call_ok :: "pcpu set \<Rightarrow> tid list \<Rightarrow> hv \<Rightarrow> sys_call \<Rightarrow> bool" where
  "sys_call_ok cpus ts s (Sleep_Thread t) = user_thread cpus ts s t"
| "sys_call_ok cpus ts s (Wake_Thread t) = user_thread cpus ts s t"
| "sys_call_ok cpus ts s (Request_Priority t) = user_thread cpus ts s t"
| "sys_call_ok cpus ts s (Create_Thread t params) =
     (cpu_of s t \<in> cpus \<and> sched_ctl (threads s t) = cpu_of s t \<and> t \<notin> set ts)"
| "sys_call_ok cpus ts s _ = True"

fun sys_exec :: "sys_call \<Rightarrow> hv \<Rightarrow> hv option" where
  "sys_exec (Sleep_Thread t) s = sleep_thread t s"
| "sys_exec (Wake_Thread t) s = wake_thread t s"
| "sys_exec (Request_Priority t) s = request_thread_priority t s"
| "sys_exec Yield_Current s = Some (yield_current s)"
| "sys_exec Schedule s = schedule s"
| "sys_exec Tick s = (case scheduler (ctl s (this_cpu s)) of None \<Rightarrow> None | Some n \<Rightarrow> sched_tick n (this_cpu s) s)"
| "sys_exec (Create_Thread t params) s = init_thread_data t params s"

fun sys_threads :: "sys_call \<Rightarrow> tid list \<Rightarrow> tid list" where
  "sys_threads (Create_Thread t params) ts = ts @ [t]"
| "sys_threads _ ts = ts"

inductive sys_step :: "pcpu set \<Rightarrow> tid list \<times> hv \<Rightarrow> tid list \<times> hv \<Rightarrow> bool" for cpus where
  call: "c \<in> cpus \<Longrightarrow> sys_call_ok cpus ts s e \<Longrightarrow> sys_exec e (s\<lparr>this_cpu := c\<rparr>) = Some s' \<Longrightarrow>
    sys_step cpus (ts, s) (sys_threads e ts, s')"

inductive_cases sys_stepE: "sys_step cpus (ts, s) x"

text \<open>A call for CPU \<open>p\<close> that keeps the invariant there keeps it everywhere.\<close>

lemma sys_inv_one:
  assumes "sys_inv cpus ts s" and "fw_step p s s'" and "cpu_inv s' p" and "fw_inv ts' s' p" and "set ts \<subseteq> set ts'"
  shows "sys_inv cpus ts' s'"
  unfolding sys_inv_def
proof
  fix q assume q: "q \<in> cpus"
  have i: "cpu_inv s q" "fw_inv ts s q" using assms(1) q by (simp_all add: sys_inv_def)
  show "cpu_inv s' q \<and> fw_inv ts' s' q"
  proof (cases "q = p")
    case False
    obtain n ops members qinv prep holds tick where k: "sched_class ops members qinv prep holds tick"
      and n: "scheduler (ctl s q) = Some n" and inv: "sched_inv members qinv prep holds s q"
      and ret: "\<And>s' q. scheduler (ctl s' q) = Some n \<Longrightarrow> sched_inv members qinv prep holds s' q \<Longrightarrow> cpu_inv s' q"
      by (rule cpu_invE [OF i(1)]) blast
    have "cpu_inv s' q"
      by (rule ret) (use n fw_stepD(5) [OF assms(2) False] sched_class.fw_other [OF k assms(2) False inv] in simp_all)
    moreover have "cpu_of s (Idle q) = q" using inv cpu_okD(1) by (simp add: sched_inv_def)
    then have "threads s' (Idle q) = threads s (Idle q)" using fw_stepD(3) [OF assms(2)] False by simp
    ultimately show ?thesis using i(2) assms(4,5) by (auto simp: fw_inv_def)
  qed (use assms(3,4) in simp)
qed

lemma sys_inv_this_cpu:
  assumes "sys_inv cpus ts s"
  shows "sys_inv cpus ts (s\<lparr>this_cpu := c\<rparr>)"
  unfolding sys_inv_def
proof
  fix p assume p: "p \<in> cpus"
  have i: "cpu_inv s p" "fw_inv ts s p" using assms p by (simp_all add: sys_inv_def)
  obtain n ops members qinv prep holds tick where k: "sched_class ops members qinv prep holds tick"
    and n: "scheduler (ctl s p) = Some n" and inv: "sched_inv members qinv prep holds s p"
    and ret: "\<And>s' q. scheduler (ctl s' q) = Some n \<Longrightarrow> sched_inv members qinv prep holds s' q \<Longrightarrow> cpu_inv s' q"
    by (rule cpu_invE [OF i(1)]) blast
  have "cpu_inv (s\<lparr>this_cpu := c\<rparr>) p" by (rule ret) (use n sched_class.this_cpu_inv [OF k inv] in simp_all)
  then show "cpu_inv (s\<lparr>this_cpu := c\<rparr>) p \<and> fw_inv ts (s\<lparr>this_cpu := c\<rparr>) p"
    using i(2) by (simp add: fw_inv_def clock_ok_def thread_list_ok_def registered_def)
qed

lemma fw_inv_same:
  assumes "fw_inv ts s p" and "fw_step p s s'" and "thread_heap s' = thread_heap s"
    and "thread_list_initialized s' = thread_list_initialized s"
    and "priority_pending (threads s' (Idle p)) = priority_pending (threads s (Idle p))"
  shows "fw_inv ts s' p"
  using assms fw_stepD(7,8) [OF assms(2)] by (simp add: fw_inv_def clock_ok_def thread_list_ok_def registered_def)

text \<open>The calls, one by one, for the CPU that governs the thread.\<close>

lemma cpu_calls:
  assumes "cpu_inv s p" and "fw_inv ts s p"
  shows "user_thread {p} ts s t \<Longrightarrow> \<exists>s'. sleep_thread t s = Some s' \<and> fw_step p s s' \<and> cpu_inv s' p \<and> fw_inv ts s' p \<and>
      ready s' p = ready s p - {t} \<and> (if curr_obj (ctl s p) = Some t then be_blocking (threads s' t) \<and> need_reschedule p s' else is_blocked s' t)"
    and "user_thread {p} ts s t \<Longrightarrow> \<exists>s'. wake_thread t s = Some s' \<and> fw_step p s s' \<and> cpu_inv s' p \<and> fw_inv ts s' p \<and>
      ready s' p = insert t (ready s p) \<and> (is_blocked s t \<longrightarrow> need_reschedule p s')"
    and "user_thread {p} ts s t \<Longrightarrow> \<exists>s'. request_thread_priority t s = Some s' \<and> fw_step p s s' \<and> cpu_inv s' p \<and> fw_inv ts s' p \<and>
      ready s' p = ready s p"
    and "this_cpu s = p \<Longrightarrow> \<exists>s' n. schedule s = Some s' \<and> fw_step p s s' \<and> cpu_inv s' p \<and> fw_inv ts s' p \<and>
      ready s' p = ready s p \<and> curr_obj (ctl s' p) = Some n \<and> (if ready s p = {} then n = Idle p else n \<in> ready s p) \<and>
      \<not> need_reschedule p s' \<and> (\<forall>t. cpu_of s t = p \<longrightarrow> be_blocking (threads s t) \<longrightarrow> is_blocked s' t)"
    and "this_cpu s = p \<Longrightarrow> \<exists>n s'. scheduler (ctl s p) = Some n \<and> sched_tick n p s = Some s' \<and> fw_step p s s' \<and> cpu_inv s' p \<and>
      fw_inv ts s' p \<and> ready s' p = ready s p"
    and "cpu_of s t = p \<Longrightarrow> sched_ctl (threads s t) = p \<Longrightarrow> t \<notin> set ts \<Longrightarrow>
      \<exists>s'. init_thread_data t params s = Some s' \<and> fw_step p s s' \<and> cpu_inv s' p \<and> fw_inv (ts @ [t]) s' p \<and> ready s' p = ready s p"
    and "cpu_inv (make_reschedule_request p s) p" and "fw_inv ts (make_reschedule_request p s) p"
proof -
  obtain n ops members qinv prep holds tick where k: "sched_class ops members qinv prep holds tick"
    and n: "scheduler (ctl s p) = Some n" and g: "get_scheduler p s = Some ops" and inv: "sched_inv members qinv prep holds s p"
    and tk: "\<And>q x. sched_tick n q x = tick q x"
    and ret: "\<And>s' q. scheduler (ctl s' q) = Some n \<Longrightarrow> sched_inv members qinv prep holds s' q \<Longrightarrow> cpu_inv s' q"
    by (rule cpu_invE [OF assms(1)]) blast
  have kept: "cpu_inv s' p" if "fw_step p s s'" "sched_inv members qinv prep holds s' p" for s'
    by (rule ret [OF _ that(2)]) (use n fw_stepD(6) [OF that(1)] in simp)
  note L = sched_class.sleep_thread_ok [OF k inv g] sched_class.wake_thread_ok [OF k inv g]
    sched_class.request_thread_priority_ok [OF k inv g assms(2)] sched_class.schedule_ok [OF k inv g assms(2)]
    sched_class.tick_ok [OF k inv assms(2)] sched_class.init_thread_data_ok [OF k inv g assms(2)]
  have user: "cpu_of s t = p" "t \<noteq> Idle p" "registered s t" if "user_thread {p} ts s t"
    using that assms(2) by (auto simp: user_thread_def fw_inv_def thread_list_ok_def)
  show "\<exists>s'. sleep_thread t s = Some s' \<and> fw_step p s s' \<and> cpu_inv s' p \<and> fw_inv ts s' p \<and>
      ready s' p = ready s p - {t} \<and> (if curr_obj (ctl s p) = Some t then be_blocking (threads s' t) \<and> need_reschedule p s' else is_blocked s' t)"
    if "user_thread {p} ts s t"
  proof (rule L(1) [OF user [OF that]])
    fix s' assume a: "sleep_thread t s = Some s'" "fw_step p s s'" "sched_inv members qinv prep holds s' p"
      "ready s' p = ready s p - {t}" "thread_heap s' = thread_heap s" "thread_list_initialized s' = thread_list_initialized s"
      "\<And>u. priority_pending (threads s' u) = priority_pending (threads s u)"
      "if curr_obj (ctl s p) = Some t then be_blocking (threads s' t) \<and> need_reschedule p s' else is_blocked s' t"
    show ?thesis using a(1,2,4,8) kept [OF a(2,3)] fw_inv_same [OF assms(2) a(2,5,6,7)] by blast
  qed
  show "\<exists>s'. wake_thread t s = Some s' \<and> fw_step p s s' \<and> cpu_inv s' p \<and> fw_inv ts s' p \<and>
      ready s' p = insert t (ready s p) \<and> (is_blocked s t \<longrightarrow> need_reschedule p s')" if "user_thread {p} ts s t"
  proof (rule L(2) [OF user [OF that]])
    fix s' assume a: "wake_thread t s = Some s'" "fw_step p s s'" "sched_inv members qinv prep holds s' p"
      "ready s' p = insert t (ready s p)" "thread_heap s' = thread_heap s" "thread_list_initialized s' = thread_list_initialized s"
      "\<And>u. priority_pending (threads s' u) = priority_pending (threads s u)" "is_blocked s t \<Longrightarrow> need_reschedule p s'"
    show ?thesis using a(1,2,4,8) kept [OF a(2,3)] fw_inv_same [OF assms(2) a(2,5,6,7)] by blast
  qed
  show "\<exists>s'. request_thread_priority t s = Some s' \<and> fw_step p s s' \<and> cpu_inv s' p \<and> fw_inv ts s' p \<and>
      ready s' p = ready s p" if "user_thread {p} ts s t"
    by (rule L(3) [OF user(1,2) [OF that]]) (use kept in blast)
  show "\<exists>s' n. schedule s = Some s' \<and> fw_step p s s' \<and> cpu_inv s' p \<and> fw_inv ts s' p \<and>
      ready s' p = ready s p \<and> curr_obj (ctl s' p) = Some n \<and> (if ready s p = {} then n = Idle p else n \<in> ready s p) \<and>
      \<not> need_reschedule p s' \<and> (\<forall>t. cpu_of s t = p \<longrightarrow> be_blocking (threads s t) \<longrightarrow> is_blocked s' t)" if "this_cpu s = p"
  proof (rule L(4) [OF that])
    fix s' n assume a: "schedule s = Some s'" "fw_step p s s'" "sched_inv members qinv prep holds s' p" "fw_inv ts s' p"
      "curr_obj (ctl s' p) = Some n" "if ready s p = {} then n = Idle p else n \<in> ready s p" "ready s' p = ready s p"
      "\<not> need_reschedule p s'" "\<And>t. cpu_of s t = p \<Longrightarrow> be_blocking (threads s t) \<Longrightarrow> is_blocked s' t"
    show ?thesis using a(1,2,4-9) kept [OF a(2,3)] by blast
  qed
  show "\<exists>n s'. scheduler (ctl s p) = Some n \<and> sched_tick n p s = Some s' \<and> fw_step p s s' \<and> cpu_inv s' p \<and>
      fw_inv ts s' p \<and> ready s' p = ready s p" if "this_cpu s = p"
    by (rule L(5) [OF that]) (use kept n tk in metis)
  show "\<exists>s'. init_thread_data t params s = Some s' \<and> fw_step p s s' \<and> cpu_inv s' p \<and> fw_inv (ts @ [t]) s' p \<and> ready s' p = ready s p"
    if "cpu_of s t = p" "sched_ctl (threads s t) = p" "t \<notin> set ts"
    by (rule L(6) [OF that]) (use kept in blast)
  show "cpu_inv (make_reschedule_request p s) p" "fw_inv ts (make_reschedule_request p s) p"
    using sched_class.request_ok [OF k inv assms(2)] kept [OF fw_step_request] by blast+
qed

text \<open>
  Every call that a system may make returns, is local to one CPU, keeps the invariant of all CPUs,
  and takes the CPU from no thread but the one it puts to sleep.
\<close>

fun sys_sleeper :: "sys_call \<Rightarrow> tid set" where
  "sys_sleeper (Sleep_Thread t) = {t}"
| "sys_sleeper _ = {}"

lemma sys_exec_local:
  assumes "sys_inv cpus ts s" and "c \<in> cpus" and "sys_call_ok cpus ts s e"
  shows "\<exists>s' p. sys_exec e (s\<lparr>this_cpu := c\<rparr>) = Some s' \<and> sys_inv cpus (sys_threads e ts) s' \<and>
    fw_step p (s\<lparr>this_cpu := c\<rparr>) s' \<and> ready (s\<lparr>this_cpu := c\<rparr>) p - sys_sleeper e \<subseteq> ready s' p"
proof -
  let ?s = "s\<lparr>this_cpu := c\<rparr>"
  have i: "sys_inv cpus ts ?s" by (rule sys_inv_this_cpu [OF assms(1)])
  have one: "cpu_inv ?s p" "fw_inv ts ?s p" if "p \<in> cpus" for p using i that by (simp_all add: sys_inv_def)
  have user: "cpu_of ?s t \<in> cpus" "user_thread {cpu_of ?s t} ts ?s t" if "user_thread cpus ts s t" for t
    using that by (simp_all add: user_thread_def)
  have keep: ?thesis
    if "sys_exec e ?s = Some s'" "fw_step p ?s s'" "cpu_inv s' p" "fw_inv (sys_threads e ts) s' p"
      "ready ?s p - sys_sleeper e \<subseteq> ready s' p" for s' p
    using that sys_inv_one [OF i that(2-4)] by (cases e) auto
  show ?thesis
  proof (cases e)
    case (Sleep_Thread t)
    then have u: "user_thread cpus ts s t" using assms(3) by simp
    obtain s' where "sleep_thread t ?s = Some s'" "fw_step (cpu_of ?s t) ?s s'" "cpu_inv s' (cpu_of ?s t)" "fw_inv ts s' (cpu_of ?s t)"
      "ready s' (cpu_of ?s t) = ready ?s (cpu_of ?s t) - {t}"
      using cpu_calls(1) [OF one [OF user(1) [OF u]] user(2) [OF u]] by blast
    then show ?thesis using keep [of s' "cpu_of ?s t"] Sleep_Thread by (simp add: subset_insertI)
  next
    case (Wake_Thread t)
    then have u: "user_thread cpus ts s t" using assms(3) by simp
    obtain s' where "wake_thread t ?s = Some s'" "fw_step (cpu_of ?s t) ?s s'" "cpu_inv s' (cpu_of ?s t)" "fw_inv ts s' (cpu_of ?s t)"
      "ready s' (cpu_of ?s t) = insert t (ready ?s (cpu_of ?s t))"
      using cpu_calls(2) [OF one [OF user(1) [OF u]] user(2) [OF u]] by blast
    then show ?thesis using keep [of s' "cpu_of ?s t"] Wake_Thread by (simp add: subset_insertI)
  next
    case (Request_Priority t)
    then have u: "user_thread cpus ts s t" using assms(3) by simp
    obtain s' where "request_thread_priority t ?s = Some s'" "fw_step (cpu_of ?s t) ?s s'" "cpu_inv s' (cpu_of ?s t)" "fw_inv ts s' (cpu_of ?s t)"
      "ready s' (cpu_of ?s t) = ready ?s (cpu_of ?s t)"
      using cpu_calls(3) [OF one [OF user(1) [OF u]] user(2) [OF u]] by blast
    then show ?thesis using keep [of s' "cpu_of ?s t"] Request_Priority by (simp add: subset_insertI)
  next
    case Yield_Current
    then show ?thesis
      using keep [of "make_reschedule_request c ?s" c] cpu_calls(7,8) [OF one [OF assms(2)]] fw_step_request [of c ?s]
      by (simp add: yield_current_def ready_def make_reschedule_request_def Let_def)
  next
    case Schedule
    obtain s' where "schedule ?s = Some s'" "fw_step c ?s s'" "cpu_inv s' c" "fw_inv ts s' c" "ready s' c = ready ?s c"
      using cpu_calls(4) [OF one [OF assms(2)]] by auto
    then show ?thesis using keep [of s' c] Schedule by simp
  next
    case Tick
    obtain n s' where "scheduler (ctl ?s c) = Some n" "sched_tick n c ?s = Some s'" "fw_step c ?s s'" "cpu_inv s' c" "fw_inv ts s' c"
      "ready s' c = ready ?s c"
      using cpu_calls(5) [OF one [OF assms(2)]] by auto
    then show ?thesis using keep [of s' c] Tick by simp
  next
    case (Create_Thread t params)
    then have t: "cpu_of ?s t \<in> cpus" "sched_ctl (threads ?s t) = cpu_of ?s t" "t \<notin> set ts" using assms(3) by simp_all
    obtain s' where "init_thread_data t params ?s = Some s'" "fw_step (cpu_of ?s t) ?s s'" "cpu_inv s' (cpu_of ?s t)"
      "fw_inv (ts @ [t]) s' (cpu_of ?s t)" "ready s' (cpu_of ?s t) = ready ?s (cpu_of ?s t)"
      using cpu_calls(6) [OF one [OF t(1)] refl t(2,3)] by blast
    then show ?thesis using keep [of s' "cpu_of ?s t"] Create_Thread by simp
  qed
qed

lemma sys_exec_ok:
  assumes "sys_inv cpus ts s" and "c \<in> cpus" and "sys_call_ok cpus ts s e"
  shows "\<exists>s'. sys_exec e (s\<lparr>this_cpu := c\<rparr>) = Some s' \<and> sys_inv cpus (sys_threads e ts) s'"
  using sys_exec_local [OF assms] by blast

section \<open>What the framework guarantees\<close>

text \<open>The sample state of the contract, with each of the four schedulers.\<close>

lemma sample_fw_inv: "fw_inv [Idle 0, Thr 0, Thr 1] (sample_hv n) 0"
proof -
  have "dlist (thread_heap (sample_hv n)) THead (map TNode [Idle 0, Thr 0, Thr 1])"
    by (simp add: dlist_def sample_hv_def sample_threads_heap_def)
  moreover have "registered (sample_hv n) t \<longleftrightarrow> t \<in> set [Idle 0, Thr 0, Thr 1]" for t
    by (auto simp: registered_def sample_hv_def sample_threads_heap_def)
  moreover have "thread_list_initialized (sample_hv n)" "tickrate (sample_hv n) \<noteq> 0"
    "\<not> priority_pending (threads (sample_hv n) (Idle 0))"
    by (simp_all add: sample_hv_def)
  ultimately show ?thesis using sample_clock_ok by (simp add: fw_inv_def thread_list_ok_def)
qed

lemma sample_cpu_inv: "cpu_inv (sample_hv SCHED_RTDS) 0"
  using sample_rtds_sched_inv by (simp add: cpu_inv_def) (simp add: sample_hv_def sample_ctl_def)

lemma sample_sys_inv: "sys_inv {0} [Idle 0, Thr 0, Thr 1] (sample_hv SCHED_RTDS)"
  using sample_fw_inv sample_cpu_inv by (simp add: sys_inv_def)



text \<open>
  C14: \<^verbatim>\<open>schedule\<close> is work-conserving and takes no thread away: it gives the CPU to a thread that
  wants it, to the idle thread only when there is none, leaves the set of the threads that want the
  CPU as it was, and clears the request that led to it.
\<close>

theorem schedule_runs_a_ready_thread:
  assumes "cpu_inv s p" and "fw_inv ts s p" and "this_cpu s = p"
  shows "\<exists>s' n. schedule s = Some s' \<and> curr_obj (ctl s' p) = Some n \<and>
    (if ready s p = {} then n = Idle p else n \<in> ready s p) \<and> ready s' p = ready s p \<and> \<not> need_reschedule p s'"
  using cpu_calls(4) [OF assms] by blast

theorem schedule_runs_a_ready_thread_witness:
  "\<exists>s' n. schedule (sample_hv SCHED_RTDS) = Some s' \<and> curr_obj (ctl s' 0) = Some n \<and> n \<in> {Thr 0, Thr 1} \<and>
    ready s' 0 = {Thr 0, Thr 1} \<and> \<not> need_reschedule 0 s'"
proof -
  have "this_cpu (sample_hv SCHED_RTDS) = 0" by (simp add: sample_hv_def)
  from schedule_runs_a_ready_thread [OF sample_cpu_inv sample_fw_inv this]
  show ?thesis unfolding sample_ready by (simp add: insert_not_empty)
qed

text \<open>
  C7: No wake-up is lost. When a thread is put to sleep, the wake-up may come at once, before its
  CPU has switched away from it, or after the switch; in both orders the thread ends up among
  those that want the CPU, and the switch in between has really blocked it.
\<close>

theorem no_lost_wakeup:
  assumes "cpu_inv s p" and "fw_inv ts s p" and "this_cpu s = p" and "user_thread {p} ts s t"
  shows "\<exists>s1. sleep_thread t s = Some s1 \<and> t \<notin> ready s1 p \<and>
    (\<exists>s2. wake_thread t s1 = Some s2 \<and> t \<in> ready s2 p \<and> \<not> is_blocked s2 t \<and> \<not> be_blocking (threads s2 t)) \<and>
    (\<exists>s2 s3. schedule s1 = Some s2 \<and> is_blocked s2 t \<and> curr_obj (ctl s2 p) \<noteq> Some t \<and>
       wake_thread t s2 = Some s3 \<and> t \<in> ready s3 p \<and> need_reschedule p s3)"
proof -
  have t: "cpu_of s t = p" "t \<noteq> Idle p" "t \<in> set ts" using assms(4) by (auto simp: user_thread_def)
  have user: "user_thread {p} ts x t" if "fw_step p s x" for x
    using t fw_stepD(1) [OF that] by (simp add: user_thread_def)
  have awake: "\<not> is_blocked x t \<and> \<not> be_blocking (threads x t)" if "t \<in> ready x p" "cpu_inv x p" for x
  proof -
    have "cpu_ok x p" by (rule cpu_invE [OF that(2)]) (simp add: sched_inv_def)
    then show ?thesis using that(1) cpu_okD(4) [of x p t] by (auto simp: ready_def is_blocked_def)
  qed
  obtain s1 where 1: "sleep_thread t s = Some s1" "fw_step p s s1" "cpu_inv s1 p" "fw_inv ts s1 p" "ready s1 p = ready s p - {t}"
    and b: "if curr_obj (ctl s p) = Some t then be_blocking (threads s1 t) \<and> need_reschedule p s1 else is_blocked s1 t"
    using cpu_calls(1) [OF assms(1,2,4)] by blast
  obtain s2 where 2: "wake_thread t s1 = Some s2" "cpu_inv s2 p" "ready s2 p = insert t (ready s1 p)"
    using cpu_calls(2) [OF 1(3,4) user [OF 1(2)]] by blast
  have "this_cpu s1 = p" using fw_stepD(9) [OF 1(2)] assms(3) by simp
  then obtain s3 n where 3: "schedule s1 = Some s3" "fw_step p s1 s3" "cpu_inv s3 p" "fw_inv ts s3 p" "ready s3 p = ready s1 p"
    "curr_obj (ctl s3 p) = Some n" "if ready s1 p = {} then n = Idle p else n \<in> ready s1 p"
    and bl: "\<And>t. cpu_of s1 t = p \<Longrightarrow> be_blocking (threads s1 t) \<Longrightarrow> is_blocked s3 t"
    using cpu_calls(4) [OF 1(3,4)] by blast
  have nt: "n \<noteq> t" using 3(7) 1(5) t(2) by (auto split: if_splits)
  have ck3: "cpu_ok s3 p" by (rule cpu_invE [OF 3(3)]) (simp add: sched_inv_def)
  have c3: "cpu_of s3 t = p" using fw_stepD(1) [OF fw_step_trans [OF 1(2) 3(2)]] t(1) by simp
  have "t \<notin> ready s3 p" "status (threads s3 t) \<noteq> THREAD_STS_RUNNING"
    using 3(5) 1(5) cpu_okD(3) [OF ck3 c3] 3(6) nt by auto
  then have blk: "is_blocked s3 t"
    using t(2) c3 by (cases "status (threads s3 t)") (auto simp: ready_def is_blocked_def)
  obtain s4 where 4: "wake_thread t s3 = Some s4" "ready s4 p = insert t (ready s3 p)" "is_blocked s3 t \<longrightarrow> need_reschedule p s4"
    using cpu_calls(2) [OF 3(3,4) user [OF fw_step_trans [OF 1(2) 3(2)]]] by blast
  show ?thesis using 1(1,5) 2 3(1,6) 4 blk nt awake [of s2] by auto
qed

theorem no_lost_wakeup_witness:
  "\<exists>s1 s2. sleep_thread (Thr 0) (sample_hv SCHED_RTDS) = Some s1 \<and> wake_thread (Thr 0) s1 = Some s2 \<and> Thr 0 \<in> ready s2 0"
proof -
  have "this_cpu (sample_hv SCHED_RTDS) = 0" by (simp add: sample_hv_def)
  moreover have "user_thread {0} [Idle 0, Thr 0, Thr 1] (sample_hv SCHED_RTDS) (Thr 0)"
    by (simp add: user_thread_def sample_hv_threads)
  ultimately show ?thesis using no_lost_wakeup [OF sample_cpu_inv sample_fw_inv] by blast
qed

text \<open>The loop of \<^verbatim>\<open>sched_current_is_only_runnable_locked\<close> from any point of the thread list.\<close>

lemma only_runnable_loop_from:
  assumes "thread_list_ok (as @ xs) s" and "k \<in> {0, 1}"
  shows "only_runnable_loop p c s (list_at xs) k =
    Some (filter (sched_counts p s) xs = (if k = 0 then [c] else []))"
  using assms
proof (induction xs arbitrary: as k)
  case Nil
  then show ?case by (subst only_runnable_loop.simps) auto
next
  case (Cons t xs)
  have n: "nxt (thread_heap s) (TNode t) = list_at xs" by (rule thread_list_next [OF Cons.prems(1)])
  have l: "thread_list_ok ((as @ [t]) @ xs) s" using Cons.prems(1) by simp
  note ih = Cons.IH [OF l]
  show ?case
    by (subst only_runnable_loop.simps) (use ih [of k] ih [of 1] n Cons.prems(2) in auto)
qed

lemma sched_counts_ready:
  assumes "cpu_ok s p"
  shows "sched_counts p s t \<longleftrightarrow> t \<in> ready s p"
  using cpu_okD(4) [OF assms, of t]
  by (auto simp: sched_counts_def ready_def is_runnable_or_running_def is_idle_thread_def)

lemma ready_listed:
  assumes "cpu_ok s p" and "thread_list_ok ts s"
  shows "set (filter (sched_counts p s) ts) = ready s p"
  using cpu_okD(5) [OF assms(1)] assms(2)
  by (auto simp: sched_counts_ready [OF assms(1)] thread_list_ok_def ready_def)



section \<open>Policy and accounting\<close>

lemma sched_users_loop_count:
  assumes "k \<in> {0, 1}"
  shows "sched_users_loop as p k \<longleftrightarrow> 2 \<le> unat k + length (filter (\<lambda>a. and a (push_bit p 1) \<noteq> 0) as)"
  using assms
proof (induction as arbitrary: k)
  case (Cons a as)
  then show ?case using Cons.IH [of 0] Cons.IH [of 1] by auto
qed auto

text \<open>
  C28: With both schedulers built in, a CPU gets the real-time budget scheduler exactly when at
  least two configured VMs may run on it, and the fair-share scheduler otherwise.
\<close>

theorem select_scheduler_hybrid:
  assumes "CONFIG_SCHED_BVT cfg" and "CONFIG_SCHED_RTDS cfg" and "p < 64"
  shows "select_pcpu_scheduler cfg affinities p =
    Some (if 2 \<le> card {i. i < length affinities \<and> bit (affinities ! i) p} then SCHED_RTDS else SCHED_BVT)"
proof -
  have "and a (push_bit p 1) \<noteq> 0 \<longleftrightarrow> bit a p" for a :: u64
  proof
    assume "and a (push_bit p 1) \<noteq> 0"
    then obtain n where "bit (and a (push_bit p 1)) n" by (metis bit_eq_iff bit_0_eq bot_apply bot_bool_def)
    then show "bit a p" by (auto simp: bit_and_iff bit_exp_iff)
  next
    assume "bit a p"
    then have "bit (and a (push_bit p 1)) p" using assms(3) by (simp add: bit_and_iff bit_exp_iff)
    then show "and a (push_bit p 1) \<noteq> 0" by auto
  qed
  then show ?thesis
    using assms(1,2) sched_users_loop_count [of 0 affinities p]
    by (simp add: select_pcpu_scheduler_def sched_pcpu_is_shared_def length_filter_conv_card)
qed

theorem select_scheduler_hybrid_witness:
  "select_pcpu_scheduler \<lparr>CONFIG_SCHED_NOOP = False, CONFIG_SCHED_IORR = False, CONFIG_SCHED_BVT = True,
      CONFIG_SCHED_RTDS = True, CONFIG_SCHED_PRIO = False\<rparr> [6, 2] 1 =
    Some (if 2 \<le> card {i. i < length [6 :: u64, 2] \<and> bit ([6 :: u64, 2] ! i) 1} then SCHED_RTDS else SCHED_BVT)"
  by (rule select_scheduler_hybrid) simp_all

text \<open>
  C29: Run time is accounted exactly and never wraps: taking a thread off the CPU adds the ticks
  since it was put on, and a counter that would overflow stays at its maximum.
\<close>

theorem runtime_saturates:
  assumes "state_since l \<noteq> 0" and "state_since l \<le> now"
  shows "unat (runtime_ticks (sched_mark_not_running now r l)) =
    min (2 ^ 64 - 1) (unat (runtime_ticks l) + (unat now - unat (state_since l)))"
proof -
  let ?t = "now - state_since l" and ?r = "runtime_ticks l"
  have t: "unat ?t = unat now - unat (state_since l)" by (rule unat_sub_le [OF assms(2)])
  have m: "unat (UINT64_MAX :: u64) = 2 ^ 64 - 1" by (simp add: unsigned_minus_1_eq_mask mask_eq_exp_minus_1)
  have "unat (UINT64_MAX - ?r) = 2 ^ 64 - 1 - unat ?r" using unat_sub_le [of ?r UINT64_MAX] m by (simp add: word_order.extremum)
  then have c: "?t > UINT64_MAX - ?r \<longleftrightarrow> unat ?r + unat ?t \<ge> 2 ^ 64"
    using unat_lt_64 [of ?r] by (auto simp: word_less_nat_alt)
  show ?thesis
  proof (cases "?t > UINT64_MAX - ?r")
    case True
    then show ?thesis using assms(1) c m t by (simp add: sched_mark_not_running_def sched_add_runtime_def)
  next
    case False
    then have "unat (?r + ?t) = unat ?r + unat ?t" using c by (intro unat_add_nowrap) simp
    then show ?thesis using False assms(1) c t by (simp add: sched_mark_not_running_def sched_add_runtime_def)
  qed
qed

theorem runtime_saturates_witness:
  "unat (runtime_ticks (sched_mark_not_running 700 True (latency_zero\<lparr>state_since := 200, runtime_ticks := 50\<rparr>))) = 550"
proof -
  have "unat (runtime_ticks (sched_mark_not_running 700 True (latency_zero\<lparr>state_since := 200, runtime_ticks := 50\<rparr>))) =
      min (2 ^ 64 - 1) (unat (runtime_ticks (latency_zero\<lparr>state_since := 200, runtime_ticks := 50\<rparr>)) +
        (unat (700 :: u64) - unat (state_since (latency_zero\<lparr>state_since := 200, runtime_ticks := 50\<rparr>))))"
    by (rule runtime_saturates) (simp_all add: word_le_nat_alt)
  then show ?thesis by simp
qed


end
