(* ===== verification/Event.thy ===== *)
theory Event
  imports Schedule
begin

text \<open>
  The exclusive wait primitive of \<^verbatim>\<open>core/event.c\<close> on top of the scheduler framework.

  A lock section of the source is one atomic step. \<^verbatim>\<open>wait_event\<close> gives up the lock around its call
  of \<^verbatim>\<open>schedule\<close>, so it is cut there: \<open>wait_event\<close> runs up to the first release of the lock,
  \<open>wait_event_loop\<close> is one pass of the loop from the moment the lock is held again. Both say
  whether the call returns (\<open>True\<close>) or goes on to \<^verbatim>\<open>schedule\<close> (\<open>False\<close>). The interleaving with
  \<^verbatim>\<open>signal_event\<close> and with everything else the CPUs do is the relation \<open>event_step\<close>.
\<close>

section \<open>The operations\<close>

record sched_event =
  event_set :: bool
  waiting_thread :: "tid option"

definition init_event :: "sched_event \<Rightarrow> sched_event" where
  "init_event e = e\<lparr>event_set := False, waiting_thread := None\<rparr>"

definition reset_event :: "sched_event \<Rightarrow> sched_event" where
  "reset_event e = e\<lparr>event_set := False, waiting_thread := None\<rparr>"

definition wait_event_loop :: "sched_event \<Rightarrow> hv \<Rightarrow> (bool \<times> sched_event \<times> hv) option" where
  "wait_event_loop e s =
     (case waiting_thread e of
        Some t \<Rightarrow>
          if \<not> event_set e then map_option (\<lambda>s. (False, e, s)) (sleep_thread t s)
          else Some (True, e\<lparr>event_set := False, waiting_thread := None\<rparr>, s)
      | None \<Rightarrow> Some (True, e\<lparr>event_set := False, waiting_thread := None\<rparr>, s))"

definition wait_event :: "sched_event \<Rightarrow> hv \<Rightarrow> (bool \<times> sched_event \<times> hv) option" where
  "wait_event e s = wait_event_loop (e\<lparr>waiting_thread := sched_get_current (this_cpu s) s\<rparr>) s"

definition signal_event :: "sched_event \<Rightarrow> hv \<Rightarrow> (sched_event \<times> hv) option" where
  "signal_event e s =
     (let e = e\<lparr>event_set := True\<rparr>
      in case waiting_thread e of None \<Rightarrow> Some (e, s)
         | Some t \<Rightarrow> map_option (\<lambda>s. (e, s)) (wake_thread t s))"

section \<open>Waiting and signalling in any order\<close>

text \<open>
  Where the waiting thread is: outside the call, between the release of the lock and its call of
  \<^verbatim>\<open>schedule\<close>, or in \<^verbatim>\<open>schedule\<close> (it takes the lock again once it is the current thread).
\<close>

datatype waiter = Outside | Slept | Switched

type_synonym event_sys = "sched_event \<times> waiter \<times> tid list \<times> hv"

inductive event_step :: "pcpu set \<Rightarrow> tid \<Rightarrow> event_sys \<Rightarrow> event_sys \<Rightarrow> bool" for cpus t where
  wait: "curr_obj (ctl s (cpu_of s t)) = Some t \<Longrightarrow>
    wait_event e (s\<lparr>this_cpu := cpu_of s t\<rparr>) = Some (r, e', s') \<Longrightarrow>
    event_step cpus t (e, Outside, ts, s) (e', if r then Outside else Slept, ts, s')"
| yield: "curr_obj (ctl s (cpu_of s t)) = Some t \<Longrightarrow> schedule (s\<lparr>this_cpu := cpu_of s t\<rparr>) = Some s' \<Longrightarrow>
    event_step cpus t (e, Slept, ts, s) (e, Switched, ts, s')"
| again: "curr_obj (ctl s (cpu_of s t)) = Some t \<Longrightarrow>
    wait_event_loop e (s\<lparr>this_cpu := cpu_of s t\<rparr>) = Some (r, e', s') \<Longrightarrow>
    event_step cpus t (e, Switched, ts, s) (e', if r then Outside else Slept, ts, s')"
| signal: "c \<in> cpus \<Longrightarrow> signal_event e (s\<lparr>this_cpu := c\<rparr>) = Some (e', s') \<Longrightarrow>
    event_step cpus t (e, w, ts, s) (e', w, ts, s')"
| other: "c \<in> cpus \<Longrightarrow> sys_call_ok cpus ts s x \<Longrightarrow> t \<notin> sys_sleeper x \<Longrightarrow>
    sys_exec x (s\<lparr>this_cpu := c\<rparr>) = Some s' \<Longrightarrow>
    event_step cpus t (e, w, ts, s) (e, w, sys_threads x ts, s')"

text \<open>
  The invariant: the event knows its waiter exactly while it waits, and a waiter whose event has
  been signalled wants the CPU.
\<close>

fun event_inv :: "pcpu set \<Rightarrow> tid \<Rightarrow> event_sys \<Rightarrow> bool" where
  "event_inv cpus t (e, w, ts, s) \<longleftrightarrow>
     sys_inv cpus ts s \<and> user_thread cpus ts s t \<and>
     waiting_thread e = (if w = Outside then None else Some t) \<and>
     (w \<noteq> Outside \<and> event_set e \<longrightarrow> t \<in> ready s (cpu_of s t))"

lemma ready_this_cpu [simp]: "ready (s\<lparr>this_cpu := c\<rparr>) p = ready s p"
  by (simp add: ready_def)

text \<open>Any call keeps a thread it does not put to sleep, and the identity of all threads.\<close>

lemma sys_exec_keeps:
  assumes "sys_inv cpus ts s" and "c \<in> cpus" and "sys_call_ok cpus ts s x"
    and "sys_exec x (s\<lparr>this_cpu := c\<rparr>) = Some s'" and "user_thread cpus ts s t"
  shows "sys_inv cpus (sys_threads x ts) s'" and "user_thread cpus (sys_threads x ts) s' t"
    and "t \<notin> sys_sleeper x \<Longrightarrow> t \<in> ready s (cpu_of s t) \<Longrightarrow> t \<in> ready s' (cpu_of s' t)"
proof -
  obtain p where p: "sys_inv cpus (sys_threads x ts) s'" "fw_step p (s\<lparr>this_cpu := c\<rparr>) s'"
    "ready (s\<lparr>this_cpu := c\<rparr>) p - sys_sleeper x \<subseteq> ready s' p"
    using sys_exec_local [OF assms(1-3)] assms(4) by auto
  have cpu: "cpu_of s' t = cpu_of s t" using fw_stepD(1) [OF p(2)] by simp
  show "sys_inv cpus (sys_threads x ts) s'" by (rule p(1))
  show "user_thread cpus (sys_threads x ts) s' t" using assms(5) cpu by (cases x) (auto simp: user_thread_def)
  show "t \<in> ready s' (cpu_of s' t)" if "t \<notin> sys_sleeper x" "t \<in> ready s (cpu_of s t)"
  proof (cases "cpu_of s t = p")
    case True
    then show ?thesis using p(3) that cpu by auto
  next
    case False
    then have "threads s' t = threads s t" using fw_stepD(3) [OF p(2), of t] by simp
    then show ?thesis using that(2) by (simp add: ready_def)
  qed
qed

text \<open>The three calls the event makes, as system calls.\<close>

lemma sys_user:
  assumes "sys_inv cpus ts s" and "user_thread cpus ts s t" and "c \<in> cpus"
  shows "\<exists>s'. sleep_thread t (s\<lparr>this_cpu := c\<rparr>) = Some s' \<and> sys_inv cpus ts s' \<and> user_thread cpus ts s' t"
    and "\<exists>s'. wake_thread t (s\<lparr>this_cpu := c\<rparr>) = Some s' \<and> sys_inv cpus ts s' \<and> user_thread cpus ts s' t \<and>
      t \<in> ready s' (cpu_of s' t)"
proof -
  obtain s' where s': "sleep_thread t (s\<lparr>this_cpu := c\<rparr>) = Some s'"
    using sys_exec_ok [OF assms(1,3), of "Sleep_Thread t"] assms(2) by auto
  then show "\<exists>s'. sleep_thread t (s\<lparr>this_cpu := c\<rparr>) = Some s' \<and> sys_inv cpus ts s' \<and> user_thread cpus ts s' t"
    using sys_exec_keeps(1,2) [OF assms(1,3), of "Sleep_Thread t" s' t] assms(2) by auto
  let ?s = "s\<lparr>this_cpu := c\<rparr>" and ?p = "cpu_of s t"
  have i: "cpu_inv ?s ?p" "fw_inv ts ?s ?p" "user_thread {?p} ts ?s t"
    using sys_inv_this_cpu [OF assms(1), of c] assms(2) by (auto simp: sys_inv_def user_thread_def)
  obtain s' where s': "wake_thread t ?s = Some s'" "fw_step ?p ?s s'" "t \<in> ready s' ?p"
    using cpu_calls(2) [OF i] by auto
  then have "cpu_of s' t = ?p" using fw_stepD(1) [OF s'(2)] by simp
  then show "\<exists>s'. wake_thread t ?s = Some s' \<and> sys_inv cpus ts s' \<and> user_thread cpus ts s' t \<and> t \<in> ready s' (cpu_of s' t)"
    using s'(1,3) sys_exec_keeps(1,2) [OF assms(1,3), of "Wake_Thread t" s' t] assms(2) by auto
qed

lemma event_step_inv:
  assumes "event_step cpus t x y" and "event_inv cpus t x"
  shows "event_inv cpus t y"
  using assms
proof (cases rule: event_step.cases)
  case (wait s e r e' s' ts)
  let ?s = "s\<lparr>this_cpu := cpu_of s t\<rparr>"
  have i: "sys_inv cpus ts s" "user_thread cpus ts s t" "cpu_of s t \<in> cpus"
    using assms(2) wait(1) by (auto simp: user_thread_def)
  obtain s1 where "sleep_thread t ?s = Some s1" "sys_inv cpus ts s1" "user_thread cpus ts s1 t"
    using sys_user(1) [OF i] by blast
  then show ?thesis
    using wait i sys_inv_this_cpu [OF i(1)]
    by (auto simp: wait_event_def wait_event_loop_def sched_get_current_def user_thread_def split: if_splits)
next
  case (yield s s' e ts)
  have i: "sys_inv cpus ts s" "user_thread cpus ts s t" "cpu_of s t \<in> cpus"
    using assms(2) yield(1) by (auto simp: user_thread_def)
  show ?thesis
    using yield assms(2) sys_exec_keeps [OF i(1,3), of Schedule s' t] i(2) by auto
next
  case (again s e r e' s' ts)
  let ?s = "s\<lparr>this_cpu := cpu_of s t\<rparr>"
  have i: "sys_inv cpus ts s" "user_thread cpus ts s t" "cpu_of s t \<in> cpus"
    using assms(2) again(1) by (auto simp: user_thread_def)
  obtain s1 where "sleep_thread t ?s = Some s1" "sys_inv cpus ts s1" "user_thread cpus ts s1 t"
    using sys_user(1) [OF i] by blast
  then show ?thesis
    using again assms(2) i sys_inv_this_cpu [OF i(1)]
    by (auto simp: wait_event_loop_def user_thread_def split: if_splits)
next
  case (signal c e s e' s' w ts)
  have i: "sys_inv cpus ts s" "user_thread cpus ts s t" using assms(2) signal(1) by auto
  obtain s1 where "wake_thread t (s\<lparr>this_cpu := c\<rparr>) = Some s1" "sys_inv cpus ts s1" "user_thread cpus ts s1 t"
    "t \<in> ready s1 (cpu_of s1 t)"
    using sys_user(2) [OF i signal(3)] by blast
  then show ?thesis
    using signal assms(2) i sys_inv_this_cpu [OF i(1)]
    by (auto simp: signal_event_def user_thread_def split: option.splits if_splits)
next
  case (other c ts s x s' e w)
  have i: "sys_inv cpus ts s" "user_thread cpus ts s t" using assms(2) other(1) by auto
  show ?thesis using other assms(2) sys_exec_keeps [OF i(1) other(3,4,6) i(2)] by auto
qed

lemma event_steps_inv:
  assumes "(event_step cpus t)\<^sup>*\<^sup>* x y" and "event_inv cpus t x"
  shows "event_inv cpus t y"
  using assms by (induction rule: rtranclp_induct) (auto intro: event_step_inv)

section \<open>No signal is lost\<close>

text \<open>
  C4: A signal is never lost, wherever it falls. One thread waits on an event; signals, scheduling
  on all CPUs and any other calls interleave with the wait in any order (nobody else puts the
  thread to sleep). In every state that can be reached, a signal succeeds and leaves the waiting
  thread among those that want its CPU; a thread whose event is set wants the CPU while it waits;
  and when it runs again it leaves the wait, which takes the signal back. A thread that finds the
  event set does not block at all.
\<close>

theorem signal_never_lost:
  assumes "(event_step cpus t)\<^sup>*\<^sup>* x (e, w, ts, s)" and "event_inv cpus t x"
  shows "(\<forall>c \<in> cpus. \<exists>e' s'. signal_event e (s\<lparr>this_cpu := c\<rparr>) = Some (e', s') \<and> event_set e' \<and>
            (w \<noteq> Outside \<longrightarrow> t \<in> ready s' (cpu_of s' t))) \<and>
         (event_set e \<and> w \<noteq> Outside \<longrightarrow> t \<in> ready s (cpu_of s t)) \<and>
         (event_set e \<and> w = Switched \<and> curr_obj (ctl s (cpu_of s t)) = Some t \<longrightarrow>
            (\<exists>s'. event_step cpus t (e, w, ts, s) (init_event e, Outside, ts, s')) \<and>
            (\<forall>r e' s'. wait_event_loop e (s\<lparr>this_cpu := cpu_of s t\<rparr>) = Some (r, e', s') \<longrightarrow> r)) \<and>
         (event_set e \<and> w = Outside \<and> curr_obj (ctl s (cpu_of s t)) = Some t \<longrightarrow>
            wait_event e (s\<lparr>this_cpu := cpu_of s t\<rparr>) = Some (True, init_event e, s\<lparr>this_cpu := cpu_of s t\<rparr>))"
proof -
  have inv: "event_inv cpus t (e, w, ts, s)" by (rule event_steps_inv [OF assms])
  then have i: "sys_inv cpus ts s" "user_thread cpus ts s t"
    "waiting_thread e = (if w = Outside then None else Some t)" by auto
  have sig: "\<exists>e' s'. signal_event e (s\<lparr>this_cpu := c\<rparr>) = Some (e', s') \<and> event_set e' \<and>
      (w \<noteq> Outside \<longrightarrow> t \<in> ready s' (cpu_of s' t))" if "c \<in> cpus" for c
    using sys_user(2) [OF i(1,2) that] i(3) by (auto simp: signal_event_def)
  have leave: "wait_event_loop e (s\<lparr>this_cpu := cpu_of s t\<rparr>) =
      Some (True, init_event e, s\<lparr>this_cpu := cpu_of s t\<rparr>)" if "event_set e" for s
    using that by (auto simp: wait_event_loop_def init_event_def split: option.splits)
  show ?thesis
    using sig inv leave event_step.again [of s t e True "init_event e" "s\<lparr>this_cpu := cpu_of s t\<rparr>" cpus ts]
    by (auto simp: wait_event_def wait_event_loop_def init_event_def sched_get_current_def)
qed

theorem signal_never_lost_witness:
  "\<exists>e1 s1 e2 s2. wait_event \<lparr>event_set = False, waiting_thread = None\<rparr> ((sample_hv SCHED_RTDS)\<lparr>this_cpu := 0\<rparr>) = Some (False, e1, s1) \<and>
     signal_event e1 (s1\<lparr>this_cpu := 0\<rparr>) = Some (e2, s2) \<and> event_set e2 \<and> Thr 0 \<in> ready s2 (cpu_of s2 (Thr 0))"
proof -
  let ?s = "sample_hv SCHED_RTDS" and ?ts = "[Idle 0, Thr 0, Thr 1]"
  let ?e = "\<lparr>event_set = False, waiting_thread = None\<rparr>" and ?e1 = "\<lparr>event_set = False, waiting_thread = Some (Thr 0)\<rparr>"
  have u: "user_thread {0} ?ts ?s (Thr 0)" by (simp add: user_thread_def sample_hv_threads)
  have cur: "cpu_of ?s (Thr 0) = 0" "curr_obj (ctl ?s 0) = Some (Thr 0)"
    by (simp_all add: sample_hv_threads) (simp add: sample_hv_def sample_ctl_def)
  obtain s1 where "sleep_thread (Thr 0) (?s\<lparr>this_cpu := 0\<rparr>) = Some s1"
    using sys_user(1) [OF sample_sys_inv u] by blast
  then have w: "wait_event ?e (?s\<lparr>this_cpu := 0\<rparr>) = Some (False, ?e1, s1)"
    using cur(2) by (simp add: wait_event_def wait_event_loop_def sched_get_current_def)
  have "event_step {0} (Thr 0) (?e, Outside, ?ts, ?s) (?e1, Slept, ?ts, s1)"
    using event_step.wait [of ?s "Thr 0" ?e False ?e1 s1 "{0}" ?ts] cur w by simp
  then have "(event_step {0} (Thr 0))\<^sup>*\<^sup>* (?e, Outside, ?ts, ?s) (?e1, Slept, ?ts, s1)" by blast
  moreover have "event_inv {0} (Thr 0) (?e, Outside, ?ts, ?s)" using sample_sys_inv u by simp
  ultimately show ?thesis using signal_never_lost [of "{0}" "Thr 0" _ ?e1 Slept ?ts s1] w by blast
qed

end
