(* ===== verification/Notify.thy ===== *)
theory Notify
  imports Bits
begin

text \<open>
  Calls of a function on other CPUs (\<^verbatim>\<open>core/notify.c\<close>).  The caller publishes the set of target CPUs
  in \<open>smp_call_mask\<close>, stores the function for each target, sends it an interrupt and waits for the
  mask to become empty; a target that takes the interrupt runs the function and clears its bit.
  Caller and targets run concurrently: their code is split at every access to shared memory, and a
  run is any interleaving of these steps.  A function together with its argument is one value.
  The same interrupt is sent for other purposes too, such as rescheduling a CPU; these are the
  \<open>Stray\<close> steps.
\<close>

section \<open>Steps\<close>

definition MAX_PCPU_NUM :: nat where "MAX_PCPU_NUM = 8"

text \<open>The CPUs in a mask.\<close>

definition wbits :: "u64 \<Rightarrow> nat set" where
  "wbits w = {n. bit w n}"

lemma wbits_finite [simp]: "finite (wbits w)"
proof -
  have "wbits w \<subseteq> {..<64}" using bit_imp_le_length [of w] by (auto simp: wbits_def)
  then show ?thesis using finite_subset by blast
qed

lemma wbits_0 [simp]: "wbits 0 = {}"
  by (simp add: wbits_def)

lemma wbits_empty: "wbits w = {} \<longleftrightarrow> w = 0"
  by (auto simp: wbits_def intro: bit_eqI)

lemma ffs_step:
  assumes "unat (ffs64 w) < MAX_PCPU_NUM"
  shows "unat (ffs64 w) \<in> wbits w" "wbits (bitmap_clear_non_atomic (ucast (ffs64 w)) w) = wbits w - {unat (ffs64 w)}"
    "unat (ffs64 w) < 64"
proof -
  have nz: "w \<noteq> 0" using assms by (auto simp: MAX_PCPU_NUM_def)
  note f = ffs64_props [OF nz]
  show "unat (ffs64 w) \<in> wbits w" "unat (ffs64 w) < 64" using f by (simp_all add: wbits_def)
  have "unat (ucast (ffs64 w) :: u32) mod 64 = unat (ffs64 w)" using f(2) by (simp add: unat_ucast_up)
  then show "wbits (bitmap_clear_non_atomic (ucast (ffs64 w)) w) = wbits w - {unat (ffs64 w)}"
    by (auto simp: wbits_def bitmap_bits)
qed

datatype 'f handler_pc = Handler_idle | Handler_run 'f | Handler_clear

text \<open>Where the caller is; the word is the local variable \<open>mask\<close> of the loop.\<close>

datatype caller_pc =
    Acquire
  | Loop u64
  | Call_self u16 u64
  | Clear_load u16 u64
  | Clear_store u16 u64 u64
  | Kick u16 u64
  | Wait_done
  | Expired
  | Returned bool

record 'f smp_state =
  smp_call_mask :: u64
  smp_call_info :: "pcpu \<Rightarrow> 'f option"
  sgi :: "pcpu \<Rightarrow> bool"
  handler :: "pcpu \<Rightarrow> 'f handler_pc"
  caller :: caller_pc
  calls :: "(pcpu \<times> 'f) list"

record 'f smp_call =
  self :: pcpu
  orig_mask :: u64
  func :: 'f
  active :: "pcpu \<Rightarrow> bool"
  timed :: bool

text \<open>\<open>kick_notification\<close> on CPU \<open>p\<close>: test the bit and fetch the function, call it, clear the bit.\<close>

definition kick_notification :: "pcpu \<Rightarrow> 'f smp_state \<Rightarrow> 'f smp_state option" where
  "kick_notification p s =
     (case handler s p of
        Handler_idle \<Rightarrow>
          if sgi s p then
            let s = s\<lparr>sgi := (sgi s)(p := False)\<rparr> in
            if bitmap_test (of_nat p) (smp_call_mask s) then
              case smp_call_info s p of
                Some f \<Rightarrow> Some (s\<lparr>handler := (handler s)(p := Handler_run f)\<rparr>)
              | None \<Rightarrow> Some (s\<lparr>handler := (handler s)(p := Handler_clear)\<rparr>)
            else Some s
          else None
      | Handler_run f \<Rightarrow> Some (s\<lparr>calls := calls s @ [(p, f)], handler := (handler s)(p := Handler_clear)\<rparr>)
      | Handler_clear \<Rightarrow> Some (s\<lparr>smp_call_mask := bitmap_clear (of_nat p) (smp_call_mask s), handler := (handler s)(p := Handler_idle)\<rparr>))"

text \<open>\<open>clear_smp_call_info\<close> forgets the function of every CPU in the mask.\<close>

function clear_smp_call_info :: "u64 \<Rightarrow> (pcpu \<Rightarrow> 'f option) \<Rightarrow> pcpu \<Rightarrow> 'f option" where
  "clear_smp_call_info msk info =
     (let pcpu_id = ffs64 msk in
      if unat pcpu_id < MAX_PCPU_NUM then
        clear_smp_call_info (bitmap_clear_non_atomic (ucast pcpu_id) msk) (info(unat pcpu_id := None))
      else info)"
  by auto
termination
proof (relation "measure (\<lambda>(w, _). card (wbits w))")
  fix msk :: u64 and info :: "pcpu \<Rightarrow> 'f option" and pcpu_id
  assume "pcpu_id = ffs64 msk" "unat pcpu_id < MAX_PCPU_NUM"
  then show "((bitmap_clear_non_atomic (ucast pcpu_id) msk, info(unat pcpu_id := None)), msk, info) \<in> measure (\<lambda>(w, _). card (wbits w))"
    using ffs_step [of msk] by (simp add: card_Diff1_less del: card_Diff_insert card_Diff_singleton)
qed simp

declare clear_smp_call_info.simps [simp del]

text \<open>
  \<open>smp_call_function_common\<close>, one access to shared memory at a time.  \<open>bitmap_clear_non_atomic\<close> on
  the shared mask is a load and a store.
\<close>

definition smp_call_function_common :: "'f smp_call \<Rightarrow> 'f smp_state \<Rightarrow> 'f smp_state option" where
  "smp_call_function_common c s =
     (case caller s of
        Acquire \<Rightarrow>
          if smp_call_mask s = 0 then Some (s\<lparr>smp_call_mask := orig_mask c, caller := Loop (orig_mask c)\<rparr>) else None
      | Loop msk \<Rightarrow>
          let pcpu_id = ffs64 msk in
          if unat pcpu_id < MAX_PCPU_NUM then
            let msk = bitmap_clear_non_atomic (ucast pcpu_id) msk in
            if unat pcpu_id = self c then Some (s\<lparr>caller := Call_self pcpu_id msk\<rparr>)
            else if active c (unat pcpu_id) then
              Some (s\<lparr>smp_call_info := (smp_call_info s)(unat pcpu_id := Some (func c)), caller := Kick pcpu_id msk\<rparr>)
            else Some (s\<lparr>caller := Clear_load pcpu_id msk\<rparr>)
          else Some (s\<lparr>caller := Wait_done\<rparr>)
      | Call_self pcpu_id msk \<Rightarrow> Some (s\<lparr>calls := calls s @ [(unat pcpu_id, func c)], caller := Clear_load pcpu_id msk\<rparr>)
      | Clear_load pcpu_id msk \<Rightarrow> Some (s\<lparr>caller := Clear_store pcpu_id (smp_call_mask s) msk\<rparr>)
      | Clear_store pcpu_id old msk \<Rightarrow>
          Some (s\<lparr>smp_call_mask := bitmap_clear_non_atomic (ucast pcpu_id) old, caller := Loop msk\<rparr>)
      | Kick pcpu_id msk \<Rightarrow> Some (s\<lparr>sgi := (sgi s)(unat pcpu_id := True), caller := Loop msk\<rparr>)
      | Wait_done \<Rightarrow> if smp_call_mask s = 0 then Some (s\<lparr>caller := Returned True\<rparr>) else None
      | Expired \<Rightarrow> Some (s\<lparr>smp_call_mask := 0, caller := Returned False\<rparr>)
      | Returned b \<Rightarrow> None)"

text \<open>The time-out of \<open>wait_smp_call_done\<close>, for a call that has one.\<close>

definition smp_call_expires :: "'f smp_call \<Rightarrow> 'f smp_state \<Rightarrow> 'f smp_state option" where
  "smp_call_expires c s =
     (if timed c \<and> caller s = Wait_done \<and> smp_call_mask s \<noteq> 0 then
        Some (s\<lparr>smp_call_info := clear_smp_call_info (orig_mask c) (smp_call_info s), caller := Expired\<rparr>)
      else None)"

datatype smp_act = Caller | Handler pcpu | Expire | Stray pcpu

fun smp_step :: "'f smp_call \<Rightarrow> smp_act \<Rightarrow> 'f smp_state \<Rightarrow> 'f smp_state option" where
  "smp_step c Caller s = smp_call_function_common c s"
| "smp_step c (Handler p) s = kick_notification p s"
| "smp_step c Expire s = smp_call_expires c s"
| "smp_step c (Stray p) s = Some (s\<lparr>sgi := (sgi s)(p := True)\<rparr>)"

fun smp_run :: "'f smp_call \<Rightarrow> smp_act list \<Rightarrow> 'f smp_state \<Rightarrow> 'f smp_state option" where
  "smp_run c [] s = Some s"
| "smp_run c (a # as) s = (case smp_step c a s of None \<Rightarrow> None | Some s \<Rightarrow> smp_run c as s)"

section \<open>Every call is made once\<close>

text \<open>
  A call whose targets are other, active CPUs, without interference from other uses of the
  interrupt and without time-out.
\<close>

definition remote_call :: "'f smp_call \<Rightarrow> bool" where
  "remote_call c \<longleftrightarrow> self c \<notin> wbits (orig_mask c) \<and> (\<forall>p\<in>wbits (orig_mask c). p < MAX_PCPU_NUM \<and> active c p)"

definition smp_quiet :: "'f smp_state \<Rightarrow> bool" where
  "smp_quiet s \<longleftrightarrow> smp_call_mask s = 0 \<and> (\<forall>p. handler s p = Handler_idle \<and> \<not> sgi s p) \<and> caller s = Acquire \<and> calls s = []"

fun own_act :: "smp_act \<Rightarrow> bool" where
  "own_act Caller = True"
| "own_act (Handler p) = True"
| "own_act Expire = False"
| "own_act (Stray p) = False"

text \<open>The targets the caller has still to notify.\<close>

fun unsent :: "u64 \<Rightarrow> caller_pc \<Rightarrow> nat set" where
  "unsent t Acquire = wbits t"
| "unsent t (Loop m) = wbits m"
| "unsent t (Kick q m) = insert (unat q) (wbits m)"
| "unsent t x = {}"

definition called :: "'f smp_state \<Rightarrow> nat set" where
  "called s = fst ` set (calls s)"

definition target_ok :: "'f smp_call \<Rightarrow> 'f smp_state \<Rightarrow> nat \<Rightarrow> bool" where
  "target_ok c s p \<longleftrightarrow>
     (if p \<notin> wbits (orig_mask c) \<or> p \<in> unsent (orig_mask c) (caller s) then
        handler s p = Handler_idle \<and> \<not> sgi s p \<and> p \<notin> called s \<and>
        (p \<in> wbits (smp_call_mask s) \<longleftrightarrow> p \<in> wbits (orig_mask c) \<and> caller s \<noteq> Acquire) \<and>
        (\<forall>q m. caller s = Kick q m \<and> p = unat q \<longrightarrow> smp_call_info s p = Some (func c))
      else case handler s p of
        Handler_idle \<Rightarrow>
          if sgi s p then p \<in> wbits (smp_call_mask s) \<and> smp_call_info s p = Some (func c) \<and> p \<notin> called s
          else p \<notin> wbits (smp_call_mask s) \<and> p \<in> called s
      | Handler_run f \<Rightarrow> f = func c \<and> \<not> sgi s p \<and> p \<in> wbits (smp_call_mask s) \<and> p \<notin> called s
      | Handler_clear \<Rightarrow> \<not> sgi s p \<and> p \<in> wbits (smp_call_mask s) \<and> p \<in> called s)"

fun caller_ok :: "u64 \<Rightarrow> caller_pc \<Rightarrow> bool" where
  "caller_ok t Acquire = True"
| "caller_ok t (Loop m) = (wbits m \<subseteq> wbits t)"
| "caller_ok t (Kick q m) = (wbits m \<subseteq> wbits t \<and> unat q \<in> wbits t \<and> unat q \<notin> wbits m)"
| "caller_ok t Wait_done = True"
| "caller_ok t (Returned b) = b"
| "caller_ok t x = False"

definition smp_inv :: "'f smp_call \<Rightarrow> 'f smp_state \<Rightarrow> bool" where
  "smp_inv c s \<longleftrightarrow> (\<forall>p. target_ok c s p) \<and> caller_ok (orig_mask c) (caller s) \<and>
     (caller s = Acquire \<or> caller s = Returned True \<longrightarrow> smp_call_mask s = 0) \<and>
     distinct (map fst (calls s)) \<and> (\<forall>(p, f)\<in>set (calls s). f = func c)"

text \<open>The steps that are left, for a target and for the caller.\<close>

definition cpu_steps :: "'f smp_call \<Rightarrow> 'f smp_state \<Rightarrow> nat \<Rightarrow> nat" where
  "cpu_steps c s p =
     (if p \<in> unsent (orig_mask c) (caller s) then (case caller s of Kick q m \<Rightarrow> if p = unat q then 4 else 5 | _ \<Rightarrow> 5)
      else case handler s p of Handler_idle \<Rightarrow> if sgi s p then 3 else 0 | Handler_run f \<Rightarrow> 2 | Handler_clear \<Rightarrow> 1)"

fun caller_steps :: "caller_pc \<Rightarrow> nat" where
  "caller_steps Acquire = 3"
| "caller_steps Wait_done = 1"
| "caller_steps (Returned b) = 0"
| "caller_steps x = 2"

definition smp_steps :: "'f smp_call \<Rightarrow> 'f smp_state \<Rightarrow> nat" where
  "smp_steps c s = caller_steps (caller s) + (\<Sum>p\<in>wbits (orig_mask c). cpu_steps c s p)"

lemma sum_step:
  assumes "finite T" "p \<in> T" "\<And>q. q \<noteq> p \<Longrightarrow> f q = g q" "Suc (f p) = (g p :: nat)"
  shows "Suc (sum f T) = sum g T"
proof -
  have "sum f (T - {p}) = sum g (T - {p})" using assms(3) by (intro sum.cong) auto
  then show ?thesis using assms(4) sum.remove [OF assms(1,2), of f] sum.remove [OF assms(1,2), of g] by simp
qed

lemma bitmap_test_wbits: "p < 64 \<Longrightarrow> bitmap_test (of_nat p) w \<longleftrightarrow> p \<in> wbits w"
  by (simp add: bitmap_bits wbits_def unat_of_nat take_bit_nat_eq_self)

lemma bitmap_clear_wbits: "p < 64 \<Longrightarrow> wbits (bitmap_clear (of_nat p) w) = wbits w - {p}"
  by (auto simp: bitmap_bits wbits_def unat_of_nat take_bit_nat_eq_self)

lemma wbits_64: "p \<in> wbits w \<Longrightarrow> p < 64"
  using bit_imp_le_length [of w p] by (simp add: wbits_def)

lemma called_simps [simp]:
  "called (s\<lparr>caller := x\<rparr>) = called s" "called (s\<lparr>sgi := g\<rparr>) = called s" "called (s\<lparr>handler := h\<rparr>) = called s"
  "called (s\<lparr>smp_call_mask := w\<rparr>) = called s" "called (s\<lparr>smp_call_info := i\<rparr>) = called s"
  by (simp_all add: called_def)

lemma target_ok_cong:
  "caller s' = caller s \<Longrightarrow> handler s' q = handler s q \<Longrightarrow> sgi s' q = sgi s q \<Longrightarrow> smp_call_info s' q = smp_call_info s q \<Longrightarrow>
   (q \<in> called s' \<longleftrightarrow> q \<in> called s) \<Longrightarrow> (q \<in> wbits (smp_call_mask s') \<longleftrightarrow> q \<in> wbits (smp_call_mask s)) \<Longrightarrow> target_ok c s' q = target_ok c s q"
  by (cases "handler s q") (auto simp: target_ok_def)

lemma cpu_steps_cong:
  "caller s' = caller s \<Longrightarrow> handler s' q = handler s q \<Longrightarrow> sgi s' q = sgi s q \<Longrightarrow> cpu_steps c s' q = cpu_steps c s q"
  by (simp add: cpu_steps_def)

text \<open>A step of a target that touches only its own part of the state.\<close>

lemma target_step:
  assumes inv: "smp_inv c s" and p: "p \<in> wbits (orig_mask c)" "p \<notin> unsent (orig_mask c) (caller s)"
    and same: "caller s' = caller s" "\<And>q. q \<noteq> p \<Longrightarrow> handler s' q = handler s q" "\<And>q. q \<noteq> p \<Longrightarrow> sgi s' q = sgi s q"
      "smp_call_info s' = smp_call_info s" "\<And>q. q \<noteq> p \<Longrightarrow> q \<in> called s' \<longleftrightarrow> q \<in> called s"
      "\<And>q. q \<noteq> p \<Longrightarrow> q \<in> wbits (smp_call_mask s') \<longleftrightarrow> q \<in> wbits (smp_call_mask s)"
    and ok: "target_ok c s' p" "Suc (cpu_steps c s' p) = cpu_steps c s p"
    and calls: "distinct (map fst (calls s'))" "\<forall>(p, f)\<in>set (calls s'). f = func c"
    and run: "caller s \<noteq> Acquire" "caller s \<noteq> Returned True"
  shows "smp_inv c s' \<and> Suc (smp_steps c s') = smp_steps c s"
proof -
  have "target_ok c s' q" for q
    using inv same ok(1) target_ok_cong [of s' s q c] by (cases "q = p") (auto simp: smp_inv_def)
  moreover have "Suc (\<Sum>p\<in>wbits (orig_mask c). cpu_steps c s' p) = (\<Sum>p\<in>wbits (orig_mask c). cpu_steps c s p)"
    using p(1) ok(2) same cpu_steps_cong [of s' s _ c] by (intro sum_step) auto
  ultimately show ?thesis using inv calls same(1) run by (simp add: smp_inv_def smp_steps_def)
qed

lemma handler_step:
  assumes inv: "smp_inv c s" and r: "kick_notification p s = Some s'"
  shows "smp_inv c s' \<and> Suc (smp_steps c s') = smp_steps c s"
proof -
  have ok: "target_ok c s p" and d: "distinct (map fst (calls s))" "\<forall>(p, f)\<in>set (calls s). f = func c" using inv by (simp_all add: smp_inv_def)
  have act: "handler s p \<noteq> Handler_idle \<or> sgi s p" using r by (auto simp: kick_notification_def split: handler_pc.splits if_splits)
  then have p: "p \<in> wbits (orig_mask c)" "p \<notin> unsent (orig_mask c) (caller s)" using ok by (auto simp: target_ok_def split: if_splits)
  have lt: "p < 64" using wbits_64 p(1) .
  have on: "p \<in> wbits (smp_call_mask s)" using ok p act by (auto simp: target_ok_def split: handler_pc.splits if_splits)
  then have run: "caller s \<noteq> Acquire" "caller s \<noteq> Returned True" using inv by (auto simp: smp_inv_def)
  note T = target_step [OF inv p]
  show ?thesis
  proof (cases "handler s p")
    case Handler_idle
    then have f: "sgi s p" "smp_call_info s p = Some (func c)" "p \<notin> called s" using act ok p by (auto simp: target_ok_def)
    have s': "s' = s\<lparr>sgi := (sgi s)(p := False), handler := (handler s)(p := Handler_run (func c))\<rparr>"
      using r Handler_idle f on bitmap_test_wbits [OF lt] by (simp add: kick_notification_def Let_def)
    show ?thesis
      by (rule T) (use s' f on p run Handler_idle d in \<open>simp_all add: target_ok_def cpu_steps_def called_def\<close>)
  next
    case (Handler_run g)
    then have f: "g = func c" "p \<notin> called s" "\<not> sgi s p" using ok p by (auto simp: target_ok_def)
    have s': "s' = s\<lparr>calls := calls s @ [(p, func c)], handler := (handler s)(p := Handler_clear)\<rparr>"
      using r Handler_run f by (simp add: kick_notification_def)
    have "p \<notin> fst ` set (calls s)" using f(2) by (simp add: called_def)
    then show ?thesis
      by (intro T) (use s' f on p run Handler_run d in \<open>auto simp: target_ok_def cpu_steps_def called_def\<close>)
  next
    case Handler_clear
    then have f: "p \<in> called s" "\<not> sgi s p" using ok p by (auto simp: target_ok_def)
    have s': "s' = s\<lparr>smp_call_mask := bitmap_clear (of_nat p) (smp_call_mask s), handler := (handler s)(p := Handler_idle)\<rparr>"
      using r Handler_clear by (simp add: kick_notification_def)
    show ?thesis
      by (rule T) (use s' f on p run Handler_clear d bitmap_clear_wbits [OF lt] in \<open>simp_all add: target_ok_def cpu_steps_def called_def\<close>)
  qed
qed

lemma caller_step:
  assumes inv: "smp_inv c s" and c: "remote_call c" and r: "smp_call_function_common c s = Some s'"
  shows "smp_inv c s' \<and> Suc (smp_steps c s') = smp_steps c s"
proof (cases "caller s")
  case Acquire
  then have s': "s' = s\<lparr>smp_call_mask := orig_mask c, caller := Loop (orig_mask c)\<rparr>"
    using r by (auto simp: smp_call_function_common_def split: if_splits)
  have okp: "target_ok c s p" for p using inv by (simp add: smp_inv_def)
  have "target_ok c s' p" for p using okp [of p] Acquire by (simp add: target_ok_def s' split: if_splits)
  moreover have "cpu_steps c s' p = cpu_steps c s p" if "p \<in> wbits (orig_mask c)" for p using Acquire that by (simp add: cpu_steps_def s')
  ultimately show ?thesis using inv Acquire by (simp add: smp_inv_def smp_steps_def s')
next
  case (Loop m)
  have m: "wbits m \<subseteq> wbits (orig_mask c)" using inv Loop by (simp add: smp_inv_def)
  show ?thesis
  proof (cases "unat (ffs64 m) < MAX_PCPU_NUM")
    case True
    let ?p = "unat (ffs64 m)"
    note f = ffs_step [OF True]
    have p: "?p \<in> wbits (orig_mask c)" "?p \<noteq> self c" "active c ?p" using m f(1) c by (auto simp: remote_call_def)
    have s': "s' = s\<lparr>smp_call_info := (smp_call_info s)(?p := Some (func c)),
        caller := Kick (ffs64 m) (bitmap_clear_non_atomic (ucast (ffs64 m)) m)\<rparr>"
      using r Loop True p by (simp add: smp_call_function_common_def Let_def)
    have un: "unsent (orig_mask c) (caller s') = unsent (orig_mask c) (caller s)" using f(1,2) Loop by (auto simp: s')
    have "target_ok c s' q" for q
    proof -
      have "target_ok c s q" using inv by (simp add: smp_inv_def)
      then show ?thesis unfolding target_ok_def un using f(1) m by (auto simp: s' Loop split: if_splits handler_pc.splits)
    qed
    moreover have "Suc (\<Sum>p\<in>wbits (orig_mask c). cpu_steps c s' p) = (\<Sum>p\<in>wbits (orig_mask c). cpu_steps c s p)"
      using p(1) f(1) un by (intro sum_step [of _ ?p]) (auto simp: cpu_steps_def s' Loop)
    ultimately show ?thesis
      using inv f(2) m p(1) Loop by (auto simp: smp_inv_def smp_steps_def s')
  next
    case False
    have "m = 0"
    proof (rule ccontr)
      assume "m \<noteq> 0"
      from ffs64_props(1) [OF this] have "unat (ffs64 m) \<in> wbits m" by (simp add: wbits_def)
      then show False using m c False by (auto simp: remote_call_def)
    qed
    have s': "s' = s\<lparr>caller := Wait_done\<rparr>" using r Loop False by (simp add: smp_call_function_common_def Let_def)
    have "target_ok c s' q" for q
    proof -
      have "target_ok c s q" using inv by (simp add: smp_inv_def)
      then show ?thesis using \<open>m = 0\<close> Loop by (cases "handler s q") (auto simp: target_ok_def s' split: if_splits)
    qed
    moreover have "cpu_steps c s' q = cpu_steps c s q" for q using Loop \<open>m = 0\<close> by (simp add: cpu_steps_def s')
    ultimately show ?thesis using inv Loop by (simp add: smp_inv_def smp_steps_def s')
  qed
next
  case (Kick q m)
  have m: "wbits m \<subseteq> wbits (orig_mask c)" "unat q \<in> wbits (orig_mask c)" "unat q \<notin> wbits m" using inv Kick by (simp_all add: smp_inv_def)
  have s': "s' = s\<lparr>sgi := (sgi s)(unat q := True), caller := Loop m\<rparr>" using r Kick by (simp add: smp_call_function_common_def)
  have "target_ok c s' p" for p
  proof -
    have "target_ok c s p" using inv by (simp add: smp_inv_def)
    then show ?thesis
      using m Kick unfolding target_ok_def s' by (cases "p = unat q") (auto split: if_splits handler_pc.splits)
  qed
  moreover have "Suc (\<Sum>p\<in>wbits (orig_mask c). cpu_steps c s' p) = (\<Sum>p\<in>wbits (orig_mask c). cpu_steps c s p)"
  proof (rule sum_step)
    have "target_ok c s (unat q)" using inv by (simp add: smp_inv_def)
    then show "Suc (cpu_steps c s' (unat q)) = cpu_steps c s (unat q)"
      using m Kick by (simp add: cpu_steps_def s' target_ok_def)
    show "cpu_steps c s' p = cpu_steps c s p" if "p \<noteq> unat q" for p using that m Kick by (simp add: cpu_steps_def s')
  qed (use m in simp_all)
  ultimately show ?thesis using inv m Kick by (simp add: smp_inv_def smp_steps_def s')
next
  case Wait_done
  then have s': "s' = s\<lparr>caller := Returned True\<rparr>" "smp_call_mask s = 0" using r by (auto simp: smp_call_function_common_def split: if_splits)
  have "target_ok c s' q" for q
  proof -
    have "target_ok c s q" using inv by (simp add: smp_inv_def)
    then show ?thesis using Wait_done by (cases "handler s q") (auto simp: target_ok_def s' split: if_splits)
  qed
  moreover have "cpu_steps c s' q = cpu_steps c s q" for q using Wait_done by (simp add: cpu_steps_def s')
  ultimately show ?thesis using inv Wait_done s'(2) by (simp add: smp_inv_def smp_steps_def s')
qed (use inv r in \<open>auto simp: smp_inv_def smp_call_function_common_def\<close>)

lemma smp_run_inv:
  "smp_run c as s = Some s' \<Longrightarrow> smp_inv c s \<Longrightarrow> remote_call c \<Longrightarrow> \<forall>a\<in>set as. own_act a \<Longrightarrow>
   smp_inv c s' \<and> smp_steps c s' + length as = smp_steps c s"
proof (induction as arbitrary: s)
  case (Cons a as)
  obtain s1 where s1: "smp_step c a s = Some s1" "smp_run c as s1 = Some s'" using Cons.prems(1) by (auto split: option.splits)
  have "smp_inv c s1 \<and> Suc (smp_steps c s1) = smp_steps c s"
  proof (cases a)
    case Caller
    then show ?thesis using caller_step [OF Cons.prems(2,3)] s1(1) by simp
  next
    case (Handler p)
    then show ?thesis using handler_step [OF Cons.prems(2)] s1(1) by simp
  qed (use Cons.prems(4) in auto)
  then show ?case using Cons.IH [OF s1(2)] Cons.prems(3,4) by auto
qed simp

lemma smp_stuck:
  assumes inv: "smp_inv c s" and stuck: "\<And>a. own_act a \<Longrightarrow> smp_step c a s = None"
  shows "caller s = Returned True"
proof -
  have nc: "smp_call_function_common c s = None" using stuck [of Caller] by simp
  have nh: "kick_notification p s = None" for p using stuck [of "Handler p"] by simp
  show ?thesis
  proof (cases "caller s")
    case Acquire
    then show ?thesis using inv nc by (simp add: smp_inv_def smp_call_function_common_def)
  next
    case Wait_done
    then have "smp_call_mask s \<noteq> 0" using nc by (auto simp: smp_call_function_common_def split: if_splits)
    then obtain p where p: "p \<in> wbits (smp_call_mask s)" using wbits_empty by blast
    have "handler s p = Handler_idle" "\<not> sgi s p"
      using nh [of p] by (auto simp: kick_notification_def Let_def split: handler_pc.splits if_splits option.splits)
    moreover have "target_ok c s p" using inv by (simp add: smp_inv_def)
    ultimately show ?thesis using p Wait_done by (auto simp: target_ok_def split: if_splits)
  qed (use inv nc in \<open>auto simp: smp_inv_def smp_call_function_common_def Let_def split: if_splits\<close>)
qed

lemma smp_finished:
  assumes inv: "smp_inv c s" and r: "caller s = Returned True"
  shows "distinct (map fst (calls s))" "set (calls s) = (\<lambda>p. (p, func c)) ` wbits (orig_mask c)"
proof -
  show "distinct (map fst (calls s))" using inv by (simp add: smp_inv_def)
  have ok: "target_ok c s p" and z: "smp_call_mask s = 0" and f: "\<forall>(p, f)\<in>set (calls s). f = func c" for p using inv r by (simp_all add: smp_inv_def)
  have "p \<in> called s \<longleftrightarrow> p \<in> wbits (orig_mask c)" for p
    using ok [of p] r z by (auto simp: target_ok_def split: if_splits handler_pc.splits)
  then have "fst ` set (calls s) = wbits (orig_mask c)" by (auto simp: called_def)
  moreover have "set (calls s) = (\<lambda>p. (p, func c)) ` (fst ` set (calls s))" using f by force
  ultimately show "set (calls s) = (\<lambda>p. (p, func c)) ` wbits (orig_mask c)" by simp
qed

lemma smp_quiet_inv: "smp_quiet s \<Longrightarrow> smp_inv c s"
  by (auto simp: smp_quiet_def smp_inv_def target_ok_def called_def)

section \<open>Properties\<close>


definition sample_smp :: "nat smp_state" where
  "sample_smp = \<lparr>smp_call_mask = 0, smp_call_info = (\<lambda>_. None), sgi = (\<lambda>_. False), handler = (\<lambda>_. Handler_idle), caller = Acquire, calls = []\<rparr>"

definition sample_smp_call :: "pcpu \<Rightarrow> u64 \<Rightarrow> nat smp_call" where
  "sample_smp_call me msk = \<lparr>self = me, orig_mask = msk, func = 42, active = (\<lambda>p. p < 4), timed = False\<rparr>"

text \<open>CPU 1 takes its interrupt while CPU 0 is still notifying CPU 2.\<close>

definition sample_acts :: "smp_act list" where
  "sample_acts = [Caller, Caller, Caller, Handler 1, Caller, Handler 1, Caller, Handler 2, Caller, Handler 1, Handler 2, Handler 2, Caller]"

lemma ffs64_samples: "ffs64 3 = 0" "ffs64 6 = 1" "ffs64 2 = 1" "ffs64 4 = 2"
  by code_simp+

lemmas smp_eval = sample_smp_def sample_smp_call_def smp_call_function_common_def kick_notification_def Let_def MAX_PCPU_NUM_def
  bitmap_clear_non_atomic_eq bitmap_clear_def arch_bitmap_clear_def bitmap_test_def arch_bitmap_test_def ffs64_samples

lemma sample_smp_run:
  "\<exists>s'. smp_run (sample_smp_call 0 6) sample_acts sample_smp = Some s' \<and> caller s' = Returned True \<and>
     (\<forall>p. handler s' p = Handler_idle \<and> \<not> sgi s' p)"
  by (simp add: sample_acts_def smp_eval)

lemma sample_smp_ok: "remote_call (sample_smp_call 0 6)" "smp_quiet sample_smp" "wbits 6 = {1, 2}"
proof -
  have "wbits 6 = set (filter (bit (6 :: u64)) [0..<64])" using wbits_64 by (auto simp: wbits_def)
  also have "filter (bit (6 :: u64)) [0..<64] = [1, 2]" by code_simp
  finally show w: "wbits 6 = {1, 2}" by simp
  show "remote_call (sample_smp_call 0 6)" by (simp add: remote_call_def sample_smp_call_def w MAX_PCPU_NUM_def)
  show "smp_quiet sample_smp" by (simp add: smp_quiet_def sample_smp_def)
qed


section \<open>Where it goes wrong\<close>

text \<open>
  A call that includes the calling CPU can hang.  The caller clears its own bit with a load and a
  store that are not atomic; if a target clears its bit in between, the store sets it again, and
  the caller waits for ever although every CPU has run the function.
\<close>

theorem smp_call_self_can_hang:
  "\<exists>s'. smp_run (sample_smp_call 1 3)
       [Caller, Caller, Caller, Caller, Caller, Caller, Handler 0, Handler 0, Handler 0, Caller, Caller] sample_smp = Some s' \<and>
     calls s' = [(1, 42), (0, 42)] \<and> caller s' = Wait_done \<and> (\<forall>a. own_act a \<longrightarrow> smp_step (sample_smp_call 1 3) a s' = None)"
proof -
  have "\<exists>s'. smp_run (sample_smp_call 1 3)
       [Caller, Caller, Caller, Caller, Caller, Caller, Handler 0, Handler 0, Handler 0, Caller, Caller] sample_smp = Some s' \<and>
     calls s' = [(1, 42), (0, 42)] \<and> caller s' = Wait_done \<and> smp_call_mask s' \<noteq> 0 \<and> (\<forall>p. handler s' p = Handler_idle \<and> \<not> sgi s' p)"
    by (simp add: smp_eval)
  then obtain s' where s': "smp_run (sample_smp_call 1 3)
       [Caller, Caller, Caller, Caller, Caller, Caller, Handler 0, Handler 0, Handler 0, Caller, Caller] sample_smp = Some s'"
     "calls s' = [(1, 42), (0, 42)]" "caller s' = Wait_done" "smp_call_mask s' \<noteq> 0" "\<forall>p. handler s' p = Handler_idle \<and> \<not> sgi s' p" by blast
  have "smp_step (sample_smp_call 1 3) a s' = None" if "own_act a" for a
    using that s'(3,4,5) by (cases a) (simp_all add: smp_call_function_common_def kick_notification_def)
  then show ?thesis using s' by blast
qed

text \<open>
  The interrupt is also sent for other purposes.  If such an interrupt reaches a target after the
  mask is published and before the function is stored, the target runs the function of an earlier
  call, clears its bit, and the new function is never run; the call reports success.
\<close>

theorem smp_call_stray_kick_loses_call:
  "\<exists>s'. smp_run (sample_smp_call 0 2)
       [Caller, Stray 1, Handler 1, Caller, Caller, Handler 1, Handler 1, Handler 1, Caller, Caller]
       (sample_smp\<lparr>smp_call_info := (\<lambda>_. Some 7)\<rparr>) = Some s' \<and>
     caller s' = Returned True \<and> calls s' = [(1, 7)]"
  by (simp add: smp_eval)

text \<open>
  After a time-out a target may still be running the function.  When it finishes it clears its bit
  of the call made next, which then returns without having run on that target.
\<close>

theorem smp_call_timeout_loses_next_call:
  "\<exists>s1 s2. smp_run ((sample_smp_call 0 2)\<lparr>timed := True\<rparr>) [Caller, Caller, Caller, Caller, Handler 1, Expire, Caller] sample_smp = Some s1 \<and>
     caller s1 = Returned False \<and>
     smp_run ((sample_smp_call 0 2)\<lparr>func := 43\<rparr>) [Caller, Caller, Caller, Handler 1, Handler 1, Handler 1, Caller, Caller]
       (s1\<lparr>caller := Acquire\<rparr>) = Some s2 \<and>
     caller s2 = Returned True \<and> calls s2 = [(1, 42)]"
  by (simp add: smp_eval smp_call_expires_def)

end
