(* ===== verification/Vgic_Types.thy ===== *)
theory Vgic_Types
  imports Event Notify
begin

text \<open>
  The state of the virtual interrupt controller of one VM (\<^verbatim>\<open>include/arch/arm64/asm/guest/vgicv3.h\<close>,
  \<^verbatim>\<open>arch/arm64/guest/vgicv3.c\<close>) and of the virtual timer of its vCPUs, with the hardware registers
  behind them: the list registers and controls of the GIC virtual CPU interface and the CNTV
  comparator, one bank per CPU. \<open>host\<close> is the scheduler state, which also holds the software timers.

  Array indices, INTIDs and the counters \<^verbatim>\<open>used_lrs\<close>, \<^verbatim>\<open>lr_count\<close>, \<^verbatim>\<open>vcpu_count\<close> are natural numbers; the
  invariant keeps them in the range of their C types. Registers keep their width. A descriptor
  pointer is the name of the array element. Records kept for debugging only (\<^verbatim>\<open>arch.debug\<close>, the
  traces and counters) are left out; the vGIC lock makes every call one atomic step.
\<close>

section \<open>Sizes and register bits\<close>

definition ARM64_VGIC_MAX_LRS :: nat where "ARM64_VGIC_MAX_LRS = 8"
definition ARM64_VGIC_SGI_NUM :: nat where "ARM64_VGIC_SGI_NUM = 16"
definition ARM64_VGIC_PPI_NUM :: nat where "ARM64_VGIC_PPI_NUM = 16"
definition ARM64_VGIC_LOCAL_IRQ_NUM :: nat where "ARM64_VGIC_LOCAL_IRQ_NUM = ARM64_VGIC_SGI_NUM + ARM64_VGIC_PPI_NUM"
definition ARM64_VGIC_IRQ_NUM :: nat where "ARM64_VGIC_IRQ_NUM = 1024"
definition ARM64_VGIC_SPI_NUM :: nat where "ARM64_VGIC_SPI_NUM = ARM64_VGIC_IRQ_NUM - ARM64_VGIC_LOCAL_IRQ_NUM"
definition ARM64_VGIC_WORDS :: nat where "ARM64_VGIC_WORDS = ARM64_VGIC_IRQ_NUM div 32"
definition ARM64_VGIC_MAX_VCPUS :: nat where "ARM64_VGIC_MAX_VCPUS = MAX_PCPU_NUM"
definition ARM64_VGIC_LPI_BASE :: nat where "ARM64_VGIC_LPI_BASE = 8192"
definition ARM64_VGIC_LPI_NUM :: nat where "ARM64_VGIC_LPI_NUM = 256"
definition ARM64_VGIC_LPI_IDBITS :: nat where "ARM64_VGIC_LPI_IDBITS = 14"
definition ARM64_VGIC_LPI_WORDS :: nat where "ARM64_VGIC_LPI_WORDS = ARM64_VGIC_LPI_NUM div 32"

definition ARM64_GIC_PPI_VIRTUAL_TIMER :: nat where "ARM64_GIC_PPI_VIRTUAL_TIMER = 27"
definition ARM64_GIC_PPI_PHYSICAL_TIMER :: nat where "ARM64_GIC_PPI_PHYSICAL_TIMER = 30"

lemmas vgic_sizes = ARM64_VGIC_MAX_LRS_def ARM64_VGIC_SGI_NUM_def ARM64_VGIC_PPI_NUM_def
  ARM64_VGIC_LOCAL_IRQ_NUM_def ARM64_VGIC_IRQ_NUM_def ARM64_VGIC_SPI_NUM_def ARM64_VGIC_WORDS_def
  ARM64_VGIC_MAX_VCPUS_def MAX_PCPU_NUM_def ARM64_VGIC_LPI_BASE_def ARM64_VGIC_LPI_NUM_def
  ARM64_VGIC_LPI_IDBITS_def ARM64_VGIC_LPI_WORDS_def ARM64_GIC_PPI_VIRTUAL_TIMER_def
  ARM64_GIC_PPI_PHYSICAL_TIMER_def

definition BIT32 :: "nat \<Rightarrow> u32" where "BIT32 n = push_bit n 1"

definition ICH_HCR_EN :: u64 where "ICH_HCR_EN = push_bit 0 1"
definition ICH_HCR_UIE :: u64 where "ICH_HCR_UIE = push_bit 1 1"
definition ICH_HCR_TC :: u64 where "ICH_HCR_TC = push_bit 10 1"
definition ICH_HCR_EOICOUNT_MASK :: u64 where "ICH_HCR_EOICOUNT_MASK = push_bit 27 0x1f"
definition ICH_VMCR_VENG1 :: u64 where "ICH_VMCR_VENG1 = push_bit 1 1"
definition ICH_VMCR_EOIM :: u64 where "ICH_VMCR_EOIM = push_bit 9 1"
definition ICH_VMCR_PRIORITY_MASK :: u64 where "ICH_VMCR_PRIORITY_MASK = push_bit 24 0xff"
definition ICH_VMCR_DEFAULT_MASK :: u64 where "ICH_VMCR_DEFAULT_MASK = push_bit 24 0xf8"
definition ICC_CTLR_EL1_EOIMODE :: u64 where "ICC_CTLR_EL1_EOIMODE = push_bit 1 1"
definition ICC_SRE_SRE :: u64 where "ICC_SRE_SRE = push_bit 0 1"
definition ICH_LR_VINTID_MASK :: u64 where "ICH_LR_VINTID_MASK = 0xffffffff"
definition ICH_LR_EOI :: u64 where "ICH_LR_EOI = push_bit 41 1"
definition ICH_LR_GROUP1 :: u64 where "ICH_LR_GROUP1 = push_bit 60 1"
definition ICH_LR_HW :: u64 where "ICH_LR_HW = push_bit 61 1"
definition ICH_LR_STATE_INVALID :: u32 where "ICH_LR_STATE_INVALID = 0"
definition ICH_LR_STATE_PENDING :: u32 where "ICH_LR_STATE_PENDING = 1"
definition ICH_LR_STATE_ACTIVE :: u32 where "ICH_LR_STATE_ACTIVE = 2"
definition ICH_LR_STATE_ACTIVE_PENDING :: u32 where "ICH_LR_STATE_ACTIVE_PENDING = 3"

definition VGICR_CTLR_ENABLE_LPIS :: u32 where "VGICR_CTLR_ENABLE_LPIS = BIT32 0"
definition VGICR_CTLR_RWP :: u32 where "VGICR_CTLR_RWP = BIT32 3"
definition VGIC_CTLR_ENABLE_G1 :: u32 where "VGIC_CTLR_ENABLE_G1 = BIT32 1"
definition VGIC_CTLR_ARE_NS :: u32 where "VGIC_CTLR_ARE_NS = BIT32 5"
definition VGICD_CTLR_RWP :: u32 where "VGICD_CTLR_RWP = BIT32 31"
definition VGICD_TYPER_LPIS :: u32 where "VGICD_TYPER_LPIS = BIT32 17"
definition GIC_PRIORITY_DEFAULT :: u8 where "GIC_PRIORITY_DEFAULT = 0x80"
definition GIC_PRIORITY_LOWEST :: u8 where "GIC_PRIORITY_LOWEST = 0xff"
definition GIC_PIDR2_ARCH_GICV3 :: u32 where "GIC_PIDR2_ARCH_GICV3 = push_bit 4 3"
definition VGIC_INVALID_VCPU_ID :: nat where "VGIC_INVALID_VCPU_ID = 0xffff"

definition CNTV_CTL_ENABLE :: u32 where "CNTV_CTL_ENABLE = push_bit 0 1"
definition CNTV_CTL_IMASK :: u32 where "CNTV_CTL_IMASK = push_bit 1 1"
definition CNTV_CTL_ISTATUS :: u32 where "CNTV_CTL_ISTATUS = push_bit 2 1"

section \<open>Records\<close>

record arm64_vgicv3_vcpu_ctx =
  lr :: "nat \<Rightarrow> u64"
  ap0r0 :: u64
  ap1r0 :: u64
  vmcr :: u64
  hcr :: u64
  sre :: u64
  pmr :: u64
  ctlr :: u64
  used_lrs :: nat

record arm64_vgic_irq =
  virq :: nat
  pirq :: u16
  priority :: u8
  target_vcpu :: nat
  enabled :: bool
  pending :: bool
  active :: bool
  level :: bool
  group1 :: bool
  groupmod :: bool
  hw :: bool

record arm64_vits_collection =
  collection_id :: u16
  coll_target :: nat
  coll_valid :: bool

record arm64_vits_device =
  device_id :: u32
  itt_addr :: u64
  event_count :: nat
  dev_valid :: bool

record arm64_vits_event =
  ev_device_id :: u32
  event_id :: u32
  lpi_id :: nat
  ev_collection :: u16
  ev_valid :: bool

record arm64_vits =
  its_ctlr :: u32
  its_typer :: u64
  cbaser :: u64
  cwriter :: u64
  creadr :: u64
  baser :: "nat \<Rightarrow> u64"
  collection :: "nat \<Rightarrow> arm64_vits_collection"
  its_device :: "nat \<Rightarrow> arm64_vits_device"
  its_event :: "nat \<Rightarrow> nat \<Rightarrow> arm64_vits_event"

record arm64_vgicv3 =
  initialized :: bool
  its_enabled :: bool
  vcpu_count :: nat
  rdist_count :: nat
  lr_count :: nat
  vgic_vmcr :: u32
  gicd_ctlr :: u32
  gicd_typer :: u32
  gicd_pidr2 :: u32
  rdist_vcpu :: "nat \<Rightarrow> nat"
  gicr_waker :: "nat \<Rightarrow> u32"
  spi_router :: "nat \<Rightarrow> u64"
  pending_bitmap :: "nat \<Rightarrow> nat \<Rightarrow> u32"
  lpi_pending_bitmap :: "nat \<Rightarrow> nat \<Rightarrow> u32"
  irq :: "nat \<Rightarrow> nat \<Rightarrow> arm64_vgic_irq"
  lpi :: "nat \<Rightarrow> nat \<Rightarrow> arm64_vgic_irq"
  gicr_ctlr :: "nat \<Rightarrow> u32"
  gicr_propbaser :: "nat \<Rightarrow> u64"
  gicr_pendbaser :: "nat \<Rightarrow> u64"
  its :: arm64_vits

text \<open>The timer fields of the guest context, and the vCPU states.\<close>

record arm64_vcpu_guest_ctx =
  cntvoff_el2 :: u64
  cntp_cval_el0 :: u64
  cntv_cval_el0 :: u64
  cntp_ctl_el0 :: u32
  cntv_ctl_el0 :: u32
  timer_virq :: nat
  cntv_el2_masked :: bool

datatype vcpu_state = VCPU_OFFLINE | VCPU_INIT | VCPU_RUNNING | VCPU_ZOMBIE

text \<open>The registers of one CPU, and the GIC state of its host timer interrupt.\<close>

record ich_regs =
  ich_lr :: "nat \<Rightarrow> u64"
  ich_hcr :: u64
  ich_vmcr :: u64
  ich_eisr :: u64
  ich_ap0r0 :: u64
  ich_ap1r0 :: u64
  icc_sre :: u64
  icc_pmr :: u64

record cntv_regs =
  live_ctl :: u32
  live_cval :: u64
  live_cntvoff :: u64
  ppi27_priority :: u8
  ppi27_enabled :: bool
  ppi27_pending :: bool

record vsys =
  host :: hv
  vgic :: arm64_vgicv3
  vctx :: "nat \<Rightarrow> arm64_vgicv3_vcpu_ctx"
  gctx :: "nat \<Rightarrow> arm64_vcpu_guest_ctx"
  cntv_timer_initialized :: "nat \<Rightarrow> bool"
  cntp_timer_initialized :: "nat \<Rightarrow> bool"
  state :: "nat \<Rightarrow> vcpu_state"
  thread_obj :: "nat \<Rightarrow> tid"
  vcpu_array :: "pcpu \<Rightarrow> nat option"  \<comment> \<open>\<^verbatim>\<open>per_cpu(vcpu_array, p)[vm_id]\<close>\<close>
  created_vcpus :: nat
  pending_req :: "nat \<Rightarrow> u64"
  intr_event :: "nat \<Rightarrow> sched_event"  \<comment> \<open>\<^verbatim>\<open>events[ARM64_VCPU_EVENT_VIRTUAL_INTERRUPT]\<close>\<close>
  ich :: "pcpu \<Rightarrow> ich_regs"
  cntv :: "pcpu \<Rightarrow> cntv_regs"
  vgic_lr_count :: nat
  kicks :: "pcpu list"

definition upd_host :: "(hv \<Rightarrow> hv) \<Rightarrow> vsys \<Rightarrow> vsys" where
  "upd_host f s = s\<lparr>host := f (host s)\<rparr>"

definition upd_ctx :: "nat \<Rightarrow> (arm64_vgicv3_vcpu_ctx \<Rightarrow> arm64_vgicv3_vcpu_ctx) \<Rightarrow> vsys \<Rightarrow> vsys" where
  "upd_ctx v f s = s\<lparr>vctx := (vctx s)(v := f (vctx s v))\<rparr>"

definition upd_gctx :: "nat \<Rightarrow> (arm64_vcpu_guest_ctx \<Rightarrow> arm64_vcpu_guest_ctx) \<Rightarrow> vsys \<Rightarrow> vsys" where
  "upd_gctx v f s = s\<lparr>gctx := (gctx s)(v := f (gctx s v))\<rparr>"

abbreviation here :: "vsys \<Rightarrow> pcpu" where "here s \<equiv> this_cpu (host s)"
abbreviation live :: "vsys \<Rightarrow> ich_regs" where "live s \<equiv> ich s (here s)"
abbreviation live_cntv :: "vsys \<Rightarrow> cntv_regs" where "live_cntv s \<equiv> cntv s (here s)"

definition upd_live :: "(ich_regs \<Rightarrow> ich_regs) \<Rightarrow> vsys \<Rightarrow> vsys" where
  "upd_live f s = s\<lparr>ich := (ich s)(here s := f (live s))\<rparr>"

definition upd_cntv :: "(cntv_regs \<Rightarrow> cntv_regs) \<Rightarrow> vsys \<Rightarrow> vsys" where
  "upd_cntv f s = s\<lparr>cntv := (cntv s)(here s := f (live_cntv s))\<rparr>"

section \<open>Descriptors\<close>

datatype desc_ref = Irq nat nat | Lpi nat nat

fun get_desc :: "desc_ref \<Rightarrow> arm64_vgicv3 \<Rightarrow> arm64_vgic_irq" where
  "get_desc (Irq v i) g = irq g v i"
| "get_desc (Lpi v i) g = lpi g v i"

fun upd_desc :: "desc_ref \<Rightarrow> (arm64_vgic_irq \<Rightarrow> arm64_vgic_irq) \<Rightarrow> arm64_vgicv3 \<Rightarrow> arm64_vgicv3" where
  "upd_desc (Irq v i) f g = g\<lparr>irq := (irq g)(v := (irq g v)(i := f (irq g v i)))\<rparr>"
| "upd_desc (Lpi v i) f g = g\<lparr>lpi := (lpi g)(v := (lpi g v)(i := f (lpi g v i)))\<rparr>"

abbreviation desc :: "desc_ref \<Rightarrow> vsys \<Rightarrow> arm64_vgic_irq" where "desc r s \<equiv> get_desc r (vgic s)"

definition set_desc :: "desc_ref \<Rightarrow> (arm64_vgic_irq \<Rightarrow> arm64_vgic_irq) \<Rightarrow> vsys \<Rightarrow> vsys" where
  "set_desc r f s = s\<lparr>vgic := upd_desc r f (vgic s)\<rparr>"

definition vgic_irq_word :: "nat \<Rightarrow> nat" where "vgic_irq_word n = n div 32"
definition vgic_irq_bit :: "nat \<Rightarrow> nat" where "vgic_irq_bit n = n mod 32"
definition vgic_lpi_index :: "nat \<Rightarrow> nat" where "vgic_lpi_index n = n - ARM64_VGIC_LPI_BASE"

definition vgic_irq_is_spi :: "nat \<Rightarrow> bool" where
  "vgic_irq_is_spi n \<longleftrightarrow> n \<ge> ARM64_VGIC_LOCAL_IRQ_NUM \<and> n < ARM64_VGIC_IRQ_NUM"

definition vgic_irq_is_lpi :: "nat \<Rightarrow> bool" where
  "vgic_irq_is_lpi n \<longleftrightarrow> n \<ge> ARM64_VGIC_LPI_BASE \<and> n < ARM64_VGIC_LPI_BASE + ARM64_VGIC_LPI_NUM"

definition vgic_irq_desc :: "nat \<Rightarrow> nat \<Rightarrow> vsys \<Rightarrow> desc_ref option" where
  "vgic_irq_desc v n s =
     (if v < ARM64_VGIC_MAX_VCPUS \<and> initialized (vgic s)
      then if n < ARM64_VGIC_IRQ_NUM then Some (Irq v n)
           else if its_enabled (vgic s) \<and> vgic_irq_is_lpi n then Some (Lpi v (vgic_lpi_index n))
           else None
      else None)"

definition vgic_set_pending :: "nat \<Rightarrow> desc_ref \<Rightarrow> bool \<Rightarrow> vsys \<Rightarrow> vsys" where
  "vgic_set_pending v r p s =
     (let n = virq (desc r s);
          s = set_desc r (\<lambda>d. d\<lparr>pending := p\<rparr>) s
      in if vgic_irq_is_lpi n
         then (let n = n - ARM64_VGIC_LPI_BASE;
                   word = vgic_irq_word n;
                   msk = BIT32 (vgic_irq_bit n);
                   old = lpi_pending_bitmap (vgic s) v word
               in s\<lparr>vgic := (vgic s)\<lparr>lpi_pending_bitmap := (lpi_pending_bitmap (vgic s))
                    (v := (lpi_pending_bitmap (vgic s) v)(word := if p then old OR msk else old AND NOT msk))\<rparr>\<rparr>)
         else (let word = vgic_irq_word n;
                   msk = BIT32 (vgic_irq_bit n);
                   old = pending_bitmap (vgic s) v word
               in s\<lparr>vgic := (vgic s)\<lparr>pending_bitmap := (pending_bitmap (vgic s))
                    (v := (pending_bitmap (vgic s) v)(word := if p then old OR msk else old AND NOT msk))\<rparr>\<rparr>))"

definition vgic_is_vtimer_irq :: "nat \<Rightarrow> bool" where
  "vgic_is_vtimer_irq n \<longleftrightarrow> n = ARM64_GIC_PPI_VIRTUAL_TIMER"

definition vgic_irq_configurable :: "nat \<Rightarrow> bool" where
  "vgic_irq_configurable n \<longleftrightarrow> n \<ge> ARM64_VGIC_SGI_NUM \<and> n \<noteq> ARM64_GIC_PPI_VIRTUAL_TIMER"

definition vgic_irq_target_vcpu :: "nat \<Rightarrow> nat \<Rightarrow> vsys \<Rightarrow> nat" where
  "vgic_irq_target_vcpu v n s =
     (if vgic_irq_is_spi n
      then (let t = target_vcpu (irq (vgic s) 0 n)
            in if t \<ge> created_vcpus s then 0 else t)
      else v)"

section \<open>List registers\<close>

definition make_lr_state :: "arm64_vgic_irq \<Rightarrow> bool \<Rightarrow> bool \<Rightarrow> u64" where
  "make_lr_state d p a =
     (let lr = of_nat (virq d) AND ICH_LR_VINTID_MASK;
          st = (if a then if p then ICH_LR_STATE_ACTIVE_PENDING else ICH_LR_STATE_ACTIVE
                else if p then ICH_LR_STATE_PENDING else ICH_LR_STATE_INVALID);
          lr = lr OR push_bit 48 (ucast (priority d));
          lr = lr OR push_bit 62 (ucast st);
          lr = lr OR ICH_LR_GROUP1
      in if hw d then lr OR push_bit 32 (ucast (pirq d)) OR ICH_LR_HW
         else if a \<or> \<not> level d \<or> virq d = ARM64_GIC_PPI_VIRTUAL_TIMER then lr OR ICH_LR_EOI
         else lr)"

definition make_lr :: "arm64_vgic_irq \<Rightarrow> u64" where
  "make_lr d = make_lr_state d (pending d) (active d)"

definition lr_vintid :: "u64 \<Rightarrow> nat" where
  "lr_vintid x = unat (ucast (x AND ICH_LR_VINTID_MASK) :: u32)"

definition lr_state :: "u64 \<Rightarrow> u32" where
  "lr_state x = ucast (drop_bit 62 x AND 3)"

abbreviation st_pending :: "u32 \<Rightarrow> bool" where "st_pending st \<equiv> st AND ICH_LR_STATE_PENDING \<noteq> 0"
abbreviation st_active :: "u32 \<Rightarrow> bool" where "st_active st \<equiv> st AND ICH_LR_STATE_ACTIVE \<noteq> 0"

definition vgic_irq_deliverable :: "nat \<Rightarrow> arm64_vgic_irq \<Rightarrow> vsys \<Rightarrow> bool" where
  "vgic_irq_deliverable v d s =
     (let enabled = gicd_ctlr (vgic s) AND VGIC_CTLR_ENABLE_G1 \<noteq> 0 \<and>
            vmcr (vctx s v) AND ICH_VMCR_VENG1 \<noteq> 0 \<and> enabled d
      in if enabled \<and> vgic_irq_is_lpi (virq d)
         then v < ARM64_VGIC_MAX_VCPUS \<and> gicr_ctlr (vgic s) v AND VGICR_CTLR_ENABLE_LPIS \<noteq> 0
         else enabled)"

fun find_lr_from :: "arm64_vgicv3_vcpu_ctx \<Rightarrow> nat \<Rightarrow> nat \<Rightarrow> nat \<Rightarrow> nat option" where
  "find_lr_from c n idx 0 = None"
| "find_lr_from c n idx (Suc k) =
     (if lr_state (lr c idx) \<noteq> ICH_LR_STATE_INVALID \<and> lr_vintid (lr c idx) = n then Some idx
      else find_lr_from c n (Suc idx) k)"

definition find_lr_for_virq :: "arm64_vgicv3_vcpu_ctx \<Rightarrow> nat \<Rightarrow> nat option" where
  "find_lr_for_virq c n = find_lr_from c n 0 (used_lrs c)"

definition remove_lr :: "nat \<Rightarrow> arm64_vgicv3_vcpu_ctx \<Rightarrow> arm64_vgicv3_vcpu_ctx" where
  "remove_lr idx c =
     (if idx < used_lrs c
      then (let last = used_lrs c - 1;
                c = (if idx \<noteq> last then c\<lparr>lr := (lr c)(idx := lr c last)\<rparr> else c);
                c = c\<lparr>lr := (lr c)(last := 0)\<rparr>
            in c\<lparr>used_lrs := used_lrs c - 1\<rparr>)
      else c)"

definition set_lr :: "nat \<Rightarrow> u64 \<Rightarrow> arm64_vgicv3_vcpu_ctx \<Rightarrow> arm64_vgicv3_vcpu_ctx" where
  "set_lr i x c = c\<lparr>lr := (lr c)(i := x)\<rparr>"

definition push_lr :: "u64 \<Rightarrow> arm64_vgicv3_vcpu_ctx \<Rightarrow> arm64_vgicv3_vcpu_ctx" where
  "push_lr x c = c\<lparr>lr := (lr c)(used_lrs c := x), used_lrs := used_lrs c + 1\<rparr>"

definition vgic_update_irq_lr :: "nat \<Rightarrow> desc_ref \<Rightarrow> vsys \<Rightarrow> vsys" where
  "vgic_update_irq_lr v r s =
     (let d = desc r s
      in case find_lr_for_virq (vctx s v) (virq d) of None \<Rightarrow> s
         | Some i \<Rightarrow>
             (let p = enabled d \<and> pending d; a = active d
              in if p \<or> a then upd_ctx v (set_lr i (make_lr_state d p a)) s
                 else upd_ctx v (remove_lr i) s))"

definition vgic_update_irq_row_lr :: "nat \<Rightarrow> desc_ref \<Rightarrow> vsys \<Rightarrow> vsys" where
  "vgic_update_irq_row_lr v r s = (if v < created_vcpus s then vgic_update_irq_lr v r s else s)"

definition vgic_valid_target_vcpu :: "arm64_vgicv3 \<Rightarrow> nat \<Rightarrow> nat" where
  "vgic_valid_target_vcpu g t = (if t < vcpu_count g then t else 0)"

primrec set_targets :: "nat \<Rightarrow> nat \<Rightarrow> nat \<Rightarrow> vsys \<Rightarrow> vsys" where
  "set_targets n t 0 s = s"
| "set_targets n t (Suc k) s = set_desc (Irq k n) (\<lambda>d. d\<lparr>target_vcpu := t mod 256\<rparr>) (set_targets n t k s)"

definition vgic_set_spi_target :: "nat \<Rightarrow> nat \<Rightarrow> vsys \<Rightarrow> vsys" where
  "vgic_set_spi_target n t s =
     (if \<not> vgic_irq_is_spi n then s
      else
        (let old_target = vgic_valid_target_vcpu (vgic s) (target_vcpu (irq (vgic s) 0 n));
             new_target = vgic_valid_target_vcpu (vgic s) t;
             old_desc = Irq old_target n;
             new_desc = Irq new_target n;
             s = (if old_target \<noteq> new_target
                  then (let s = (if pending (desc old_desc s)
                                 then vgic_set_pending new_target new_desc True
                                        (vgic_set_pending old_target old_desc False s)
                                 else s);
                            s = (if active (desc old_desc s)
                                 then set_desc new_desc (\<lambda>d. d\<lparr>active := True\<rparr>)
                                        (set_desc old_desc (\<lambda>d. d\<lparr>active := False\<rparr>) s)
                                 else s);
                            s = vgic_update_irq_row_lr old_target old_desc s
                        in vgic_update_irq_row_lr new_target new_desc s)
                  else s)
         in set_targets n new_target (vcpu_count (vgic s)) s))"

end
