(* ===== verification/Vgic_Inv.thy ===== *)
theory Vgic_Inv
  imports Vgic_Types
begin

text \<open>
  The representation invariant of the virtual interrupt controller and the lemmas about its small
  operations: what a list-register value encodes, searching and compacting the list registers of
  a vCPU, and the agreement of the pending bitmaps with the descriptors.
\<close>

section \<open>List-register values\<close>

lemma bit_ucast_word: "bit (ucast (w :: 'a::len word) :: 'b::len word) n \<longleftrightarrow> n < LENGTH('b) \<and> bit w n"
  by (simp add: bit_simps)

lemma bit_push_bit_1: "bit (push_bit k 1 :: 'a::len word) n \<longleftrightarrow> n = k \<and> k < LENGTH('a)"
  by (auto simp: bit_exp_iff)

lemma bit_mask_word: "bit (mask k :: 'a::len word) n \<longleftrightarrow> n < k \<and> n < LENGTH('a)"
  by (auto simp: bit_mask_iff)

lemma bit_vintid_mask: "bit ICH_LR_VINTID_MASK n \<longleftrightarrow> n < 32"
proof -
  have "ICH_LR_VINTID_MASK = mask 32" by (simp add: ICH_LR_VINTID_MASK_def mask_eq_exp_minus_1)
  then have "bit ICH_LR_VINTID_MASK n = bit (mask 32 :: u64) n" by (rule arg_cong)
  also have "\<dots> \<longleftrightarrow> n < 32" unfolding bit_mask_word by auto
  finally show ?thesis .
qed

lemma bit_lr_consts:
  "bit ICH_LR_GROUP1 n \<longleftrightarrow> n = 60" "bit ICH_LR_HW n \<longleftrightarrow> n = 61" "bit ICH_LR_EOI n \<longleftrightarrow> n = 41"
  unfolding ICH_LR_GROUP1_def ICH_LR_HW_def ICH_LR_EOI_def bit_push_bit_1 by simp_all

lemmas bit_lr = make_lr_state_def Let_def bit_or_iff bit_and_iff bit_vintid_mask bit_push_bit_iff bit_lr_consts

lemma bit_lr_small:
  "bit (make_lr_state d p a) n \<longleftrightarrow> bit (of_nat (virq d) :: u64) n" if "n < 32"
  using that by (simp add: bit_lr)

lemma lr_vintid_make [simp]:
  assumes "virq d < 2 ^ 32"
  shows "lr_vintid (make_lr_state d p a) = virq d"
proof -
  let ?w = "ucast (make_lr_state d p a AND ICH_LR_VINTID_MASK) :: u32"
  have "?w = of_nat (virq d)"
    by (rule bit_word_eqI) (auto simp: bit_ucast_word bit_and_iff bit_vintid_mask bit_lr_small bit_of_nat_iff)
  then show ?thesis using assms by (simp add: lr_vintid_def unat_of_nat)
qed

lemma bit_lr_state: "bit (lr_state x) n \<longleftrightarrow> n < 2 \<and> bit x (62 + n)"
proof -
  have "bit (3 :: u64) n \<longleftrightarrow> n < 2"
  proof -
    have "(3 :: u64) = mask 2" by (simp add: mask_eq_exp_minus_1)
    then have "bit (3 :: u64) n = bit (mask 2 :: u64) n" by (rule arg_cong)
    also have "\<dots> \<longleftrightarrow> n < 2" unfolding bit_mask_word by auto
    finally show ?thesis .
  qed
  then show ?thesis by (auto simp: lr_state_def bit_ucast_word bit_and_iff bit_drop_bit_eq)
qed

abbreviation lr_valid :: "u64 \<Rightarrow> bool" where "lr_valid x \<equiv> lr_state x \<noteq> ICH_LR_STATE_INVALID"

lemma st_bits:
  "st AND ICH_LR_STATE_PENDING = 0 \<longleftrightarrow> \<not> bit st 0" "st AND ICH_LR_STATE_ACTIVE = 0 \<longleftrightarrow> \<not> bit st 1"
  using and_exp_eq_0_iff_not_bit [of st 0] and_exp_eq_0_iff_not_bit [of st 1]
  by (simp_all add: ICH_LR_STATE_PENDING_def ICH_LR_STATE_ACTIVE_def)

lemma lr_state_0: "lr_state x = 0 \<longleftrightarrow> \<not> bit x 62 \<and> \<not> bit x 63"
proof
  assume "lr_state x = 0"
  then show "\<not> bit x 62 \<and> \<not> bit x 63" using bit_lr_state [of x 0] bit_lr_state [of x 1] by simp
next
  assume a: "\<not> bit x 62 \<and> \<not> bit x 63"
  show "lr_state x = 0"
  proof (rule bit_word_eqI)
    fix n :: nat
    have "\<not> bit x (62 + n)" if "n < 2" using a less_2_cases [OF that] by auto
    then show "bit (lr_state x) n = bit 0 n" by (auto simp: bit_lr_state)
  qed
qed

lemma bit_lr_top:
  "bit (make_lr_state d p a) 62 \<longleftrightarrow> p" "bit (make_lr_state d p a) 63 \<longleftrightarrow> a"
proof -
  let ?st = "if a then if p then ICH_LR_STATE_ACTIVE_PENDING else ICH_LR_STATE_ACTIVE
    else if p then ICH_LR_STATE_PENDING else ICH_LR_STATE_INVALID"
  have st: "bit ?st 0 \<longleftrightarrow> p" "bit ?st 1 \<longleftrightarrow> a"
    by (simp_all add: ICH_LR_STATE_ACTIVE_PENDING_def ICH_LR_STATE_ACTIVE_def ICH_LR_STATE_PENDING_def ICH_LR_STATE_INVALID_def
        bit_numeral_rec)
  have 8: "\<not> bit (ucast (priority d) :: u64) n" if "8 \<le> n" for n
    using that bit_imp_le_length [of "priority d" n] by (auto simp: bit_ucast_word)
  have 16: "\<not> bit (ucast (pirq d) :: u64) n" if "16 \<le> n" for n
    using that bit_imp_le_length [of "pirq d" n] by (auto simp: bit_ucast_word)
  have 62: "bit (push_bit 62 (ucast ?st) :: u64) 62 \<longleftrightarrow> p" "bit (push_bit 62 (ucast ?st) :: u64) 63 \<longleftrightarrow> a"
    unfolding bit_push_bit_iff bit_ucast_word using st by simp_all
  show "bit (make_lr_state d p a) 62 \<longleftrightarrow> p" "bit (make_lr_state d p a) 63 \<longleftrightarrow> a"
    unfolding make_lr_state_def Let_def if_distrib [where f = "\<lambda>x. bit x _"] bit_or_iff 62
    by (auto simp: bit_and_iff bit_vintid_mask bit_push_bit_iff bit_lr_consts 8 16)
qed

lemma lr_valid_make [simp]: "lr_valid (make_lr_state d p a) \<longleftrightarrow> p \<or> a"
  by (simp add: ICH_LR_STATE_INVALID_def lr_state_0 bit_lr_top)

lemma lr_flags_make [simp]:
  "st_pending (lr_state (make_lr_state d p a)) \<longleftrightarrow> p" "st_active (lr_state (make_lr_state d p a)) \<longleftrightarrow> a"
  by (simp_all add: st_bits bit_lr_state bit_lr_top)

lemma lr_invalid_flags:
  "\<not> lr_valid x \<Longrightarrow> \<not> st_pending (lr_state x)" "\<not> lr_valid x \<Longrightarrow> \<not> st_active (lr_state x)"
  by (simp_all add: ICH_LR_STATE_INVALID_def)

lemma lr_invalid_0 [simp]: "\<not> lr_valid 0"
  by (simp add: ICH_LR_STATE_INVALID_def lr_state_0)

section \<open>The list registers of a vCPU\<close>

text \<open>
  No interrupt occupies two valid registers. The virtual timer is exempt: while a vCPU is
  synchronised its timer may be requeued in a register of the hardware before the flush that
  rewrites all of them.
\<close>

definition lrs_ok :: "(nat \<Rightarrow> u64) \<Rightarrow> nat \<Rightarrow> bool" where
  "lrs_ok f n \<longleftrightarrow> (\<forall>i < n. \<forall>j < n. lr_valid (f i) \<and> lr_valid (f j) \<and> lr_vintid (f i) = lr_vintid (f j) \<and>
     lr_vintid (f i) \<noteq> ARM64_GIC_PPI_VIRTUAL_TIMER \<longrightarrow> i = j)"

definition ctx_wf :: "nat \<Rightarrow> arm64_vgicv3_vcpu_ctx \<Rightarrow> bool" where
  "ctx_wf k c \<longleftrightarrow> used_lrs c \<le> k \<and> lrs_ok (lr c) (used_lrs c)"

lemma find_lr_from_Some:
  "find_lr_from c n i k = Some j \<Longrightarrow> i \<le> j \<and> j < i + k \<and> lr_valid (lr c j) \<and> lr_vintid (lr c j) = n"
  by (induction k arbitrary: i) (auto split: if_splits, force+)

lemma find_lr_from_None:
  "find_lr_from c n i k = None \<longleftrightarrow> (\<forall>j. i \<le> j \<and> j < i + k \<longrightarrow> \<not> (lr_valid (lr c j) \<and> lr_vintid (lr c j) = n))"
proof (induction k arbitrary: i)
  case (Suc k)
  have *: "i \<le> j \<and> j < i + Suc k \<longleftrightarrow> j = i \<or> Suc i \<le> j \<and> j < Suc i + k" for j by auto
  show ?case unfolding * using Suc.IH [of "Suc i"] by auto
qed auto

lemma find_lr_Some:
  assumes "find_lr_for_virq c n = Some i"
  shows "i < used_lrs c" "lr_valid (lr c i)" "lr_vintid (lr c i) = n"
  using find_lr_from_Some [of c n 0 "used_lrs c" i] assms by (simp_all add: find_lr_for_virq_def)

lemma find_lr_None:
  "find_lr_for_virq c n = None \<longleftrightarrow> (\<forall>i < used_lrs c. \<not> (lr_valid (lr c i) \<and> lr_vintid (lr c i) = n))"
  by (simp add: find_lr_for_virq_def find_lr_from_None)

lemma lrs_ok_D:
  "lrs_ok f n \<Longrightarrow> i < n \<Longrightarrow> j < n \<Longrightarrow> lr_valid (f i) \<Longrightarrow> lr_valid (f j) \<Longrightarrow> lr_vintid (f i) = lr_vintid (f j) \<Longrightarrow>
     lr_vintid (f i) \<noteq> ARM64_GIC_PPI_VIRTUAL_TIMER \<Longrightarrow> i = j"
  unfolding lrs_ok_def by blast

lemma used_remove_lr [simp]: "used_lrs (remove_lr i c) = (if i < used_lrs c then used_lrs c - 1 else used_lrs c)"
  by (simp add: remove_lr_def Let_def)

lemma remove_lr_frame [simp]:
  "ap0r0 (remove_lr i c) = ap0r0 c" "ap1r0 (remove_lr i c) = ap1r0 c" "vmcr (remove_lr i c) = vmcr c"
  "hcr (remove_lr i c) = hcr c" "sre (remove_lr i c) = sre c" "pmr (remove_lr i c) = pmr c" "ctlr (remove_lr i c) = ctlr c"
  by (simp_all add: remove_lr_def Let_def)

lemma lr_remove_lr:
  assumes "i < used_lrs c" and "j < used_lrs c - 1"
  shows "lr (remove_lr i c) j = (if j = i then lr c (used_lrs c - 1) else lr c j)"
  using assms by (simp add: remove_lr_def Let_def)

lemma ctx_wf_remove [simp, intro]:
  assumes "ctx_wf k c"
  shows "ctx_wf k (remove_lr i c)"
proof (cases "i < used_lrs c")
  case True
  let ?p = "\<lambda>j. if j = i then used_lrs c - 1 else j" and ?n = "used_lrs c - 1"
  have ok: "lrs_ok (lr c) (used_lrs c)" using assms by (simp add: ctx_wf_def)
  have p: "lr (remove_lr i c) j = lr c (?p j)" "?p j < used_lrs c" if "j < ?n" for j
    using that True lr_remove_lr [OF True that] by auto
  have "lrs_ok (lr (remove_lr i c)) ?n"
    unfolding lrs_ok_def
  proof (intro allI impI; elim conjE)
    fix j j'
    assume j: "j < ?n" "j' < ?n" and *: "lr_valid (lr (remove_lr i c) j)" "lr_valid (lr (remove_lr i c) j')"
      "lr_vintid (lr (remove_lr i c) j) = lr_vintid (lr (remove_lr i c) j')"
      "lr_vintid (lr (remove_lr i c) j) \<noteq> ARM64_GIC_PPI_VIRTUAL_TIMER"
    have "?p j = ?p j'"
      using lrs_ok_D [OF ok p(2) [OF j(1)] p(2) [OF j(2)]] * unfolding p(1) [OF j(1)] p(1) [OF j(2)] by blast
    then show "j = j'" using j by (auto split: if_splits)
  qed
  then show ?thesis using assms True by (auto simp: ctx_wf_def)
qed (use assms in \<open>simp add: remove_lr_def\<close>)

lemma lrs_ok_upd:
  assumes "lrs_ok f n" and "\<And>j. j < n \<Longrightarrow> j \<noteq> i \<Longrightarrow> lr_valid (f j) \<Longrightarrow>
      lr_vintid (f j) \<noteq> lr_vintid x \<or> lr_vintid x = ARM64_GIC_PPI_VIRTUAL_TIMER"
  shows "lrs_ok (f(i := x)) n"
  unfolding lrs_ok_def
proof (intro allI impI; elim conjE)
  fix j j'
  assume *: "j < n" "j' < n" "lr_valid ((f(i := x)) j)" "lr_valid ((f(i := x)) j')"
    "lr_vintid ((f(i := x)) j) = lr_vintid ((f(i := x)) j')" "lr_vintid ((f(i := x)) j) \<noteq> ARM64_GIC_PPI_VIRTUAL_TIMER"
  show "j = j'"
    using * assms(2) [of j] assms(2) [of j'] lrs_ok_D [OF assms(1), of j j'] by (cases "j = i"; cases "j' = i") auto
qed

lemma ctx_wf_set:
  assumes "ctx_wf k c" and "find_lr_for_virq c (lr_vintid x) = Some i"
  shows "ctx_wf k (set_lr i x c)"
  using assms(1) find_lr_Some [OF assms(2)] unfolding ctx_wf_def set_lr_def
  by (intro conjI) (auto intro!: lrs_ok_upd dest: lrs_ok_D)

lemma ctx_wf_push:
  assumes "ctx_wf k c" and "find_lr_for_virq c (lr_vintid x) = None" and "used_lrs c < k"
  shows "ctx_wf k (push_lr x c)"
proof -
  let ?f = "(lr c)(used_lrs c := x)"
  have "lrs_ok (lr c) (used_lrs c)" using assms(1) by (simp add: ctx_wf_def)
  moreover have "lr_valid (lr c j) \<Longrightarrow> lr_vintid (lr c j) \<noteq> lr_vintid x" if "j < used_lrs c" for j
    using assms(2) that by (auto simp: find_lr_None)
  ultimately have "lrs_ok ?f (Suc (used_lrs c))"
    unfolding lrs_ok_def less_Suc_eq by (intro allI impI; elim conjE disjE) (simp_all, metis+)
  then show ?thesis using assms(3) by (simp add: ctx_wf_def push_lr_def)
qed

lemma set_lr_frame [simp]:
  "used_lrs (set_lr i x c) = used_lrs c" "vmcr (set_lr i x c) = vmcr c" "hcr (set_lr i x c) = hcr c"
  "ap0r0 (set_lr i x c) = ap0r0 c" "ap1r0 (set_lr i x c) = ap1r0 c" "sre (set_lr i x c) = sre c"
  "pmr (set_lr i x c) = pmr c" "ctlr (set_lr i x c) = ctlr c"
  "lr (set_lr i x c) = (lr c)(i := x)"
  by (simp_all add: set_lr_def)

lemma push_lr_frame [simp]:
  "used_lrs (push_lr x c) = Suc (used_lrs c)" "vmcr (push_lr x c) = vmcr c" "hcr (push_lr x c) = hcr c"
  "ap0r0 (push_lr x c) = ap0r0 c" "ap1r0 (push_lr x c) = ap1r0 c" "sre (push_lr x c) = sre c"
  "pmr (push_lr x c) = pmr c" "ctlr (push_lr x c) = ctlr c"
  "lr (push_lr x c) = (lr c)(used_lrs c := x)"
  by (simp_all add: push_lr_def)

lemma ctx_wf_hcr [simp]: "ctx_wf k (c\<lparr>hcr := h\<rparr>) = ctx_wf k c"
  by (simp add: ctx_wf_def)

section \<open>Descriptors and pending bitmaps\<close>

fun ref_ok :: "desc_ref \<Rightarrow> bool" where
  "ref_ok (Irq v i) \<longleftrightarrow> i < ARM64_VGIC_IRQ_NUM"
| "ref_ok (Lpi v j) \<longleftrightarrow> j < ARM64_VGIC_LPI_NUM"

fun ref_vcpu :: "desc_ref \<Rightarrow> nat" where
  "ref_vcpu (Irq v i) = v"
| "ref_vcpu (Lpi v j) = v"

fun ref_id :: "desc_ref \<Rightarrow> nat" where
  "ref_id (Irq v i) = i"
| "ref_id (Lpi v j) = ARM64_VGIC_LPI_BASE + j"

fun pend_bit :: "desc_ref \<Rightarrow> arm64_vgicv3 \<Rightarrow> bool" where
  "pend_bit (Irq v i) g \<longleftrightarrow> bit (pending_bitmap g v (vgic_irq_word i)) (vgic_irq_bit i)"
| "pend_bit (Lpi v j) g \<longleftrightarrow> bit (lpi_pending_bitmap g v (vgic_irq_word j)) (vgic_irq_bit j)"

text \<open>Every descriptor carries its own INTID, and the bitmaps mirror the pending flags.\<close>

definition vgic_wf :: "arm64_vgicv3 \<Rightarrow> bool" where
  "vgic_wf g \<longleftrightarrow> (\<forall>r. ref_ok r \<longrightarrow> virq (get_desc r g) = ref_id r \<and> pend_bit r g = pending (get_desc r g))"

lemma vgic_wf_D:
  assumes "vgic_wf g" and "ref_ok r"
  shows "virq (get_desc r g) = ref_id r" "pend_bit r g = pending (get_desc r g)"
  using assms by (simp_all add: vgic_wf_def)

lemma get_upd_desc: "get_desc r' (upd_desc r f g) = (if r' = r then f (get_desc r g) else get_desc r' g)"
  by (cases r; cases r') auto

lemma pend_upd_desc [simp]: "pend_bit r' (upd_desc r f g) = pend_bit r' g"
  by (cases r; cases r') auto

lemma upd_desc_frame [simp]:
  "initialized (upd_desc r f g) = initialized g" "its_enabled (upd_desc r f g) = its_enabled g"
  "vcpu_count (upd_desc r f g) = vcpu_count g" "lr_count (upd_desc r f g) = lr_count g"
  "gicd_ctlr (upd_desc r f g) = gicd_ctlr g" "gicr_ctlr (upd_desc r f g) = gicr_ctlr g"
  "pending_bitmap (upd_desc r f g) = pending_bitmap g" "lpi_pending_bitmap (upd_desc r f g) = lpi_pending_bitmap g"
  by (cases r; simp)+

lemma desc_set_desc: "desc r' (set_desc r f s) = (if r' = r then f (desc r s) else desc r' s)"
  by (simp add: set_desc_def get_upd_desc)

lemma set_desc_frame [simp]:
  "host (set_desc r f s) = host s" "vctx (set_desc r f s) = vctx s" "gctx (set_desc r f s) = gctx s"
  "ich (set_desc r f s) = ich s" "cntv (set_desc r f s) = cntv s" "vgic_lr_count (set_desc r f s) = vgic_lr_count s"
  "created_vcpus (set_desc r f s) = created_vcpus s" "state (set_desc r f s) = state s"
  "thread_obj (set_desc r f s) = thread_obj s" "vcpu_array (set_desc r f s) = vcpu_array s"
  "pend_bit r' (vgic (set_desc r f s)) = pend_bit r' (vgic s)"
  by (simp_all add: set_desc_def)

lemma bit_BIT32: "n < 32 \<Longrightarrow> bit (BIT32 n) m \<longleftrightarrow> m = n"
  unfolding BIT32_def bit_push_bit_1 by auto

lemma bit_set_clear:
  fixes w :: u32
  assumes "n < 32" "m < 32"
  shows "bit (if p then w OR BIT32 n else w AND NOT (BIT32 n)) m \<longleftrightarrow> (if m = n then p else bit w m)"
  using assms by (auto simp: bit_or_iff bit_and_iff bit_not_iff bit_BIT32)

lemma irq_word_bit: "vgic_irq_word i = vgic_irq_word j \<and> vgic_irq_bit i = vgic_irq_bit j \<longleftrightarrow> i = j"
  by (metis div_mult_mod_eq vgic_irq_word_def vgic_irq_bit_def)

lemma irq_bit_32 [simp]: "vgic_irq_bit i < 32"
  by (simp add: vgic_irq_bit_def)

lemma set_pending_frame [simp]:
  "host (vgic_set_pending v r p s) = host s" "vctx (vgic_set_pending v r p s) = vctx s"
  "gctx (vgic_set_pending v r p s) = gctx s" "ich (vgic_set_pending v r p s) = ich s"
  "cntv (vgic_set_pending v r p s) = cntv s" "vgic_lr_count (vgic_set_pending v r p s) = vgic_lr_count s"
  "created_vcpus (vgic_set_pending v r p s) = created_vcpus s" "state (vgic_set_pending v r p s) = state s"
  "thread_obj (vgic_set_pending v r p s) = thread_obj s" "vcpu_array (vgic_set_pending v r p s) = vcpu_array s"
  by (simp_all add: vgic_set_pending_def Let_def)

lemma set_pending_vgic [simp]:
  "initialized (vgic (vgic_set_pending v r p s)) = initialized (vgic s)"
  "its_enabled (vgic (vgic_set_pending v r p s)) = its_enabled (vgic s)"
  "vcpu_count (vgic (vgic_set_pending v r p s)) = vcpu_count (vgic s)"
  "lr_count (vgic (vgic_set_pending v r p s)) = lr_count (vgic s)"
  "gicd_ctlr (vgic (vgic_set_pending v r p s)) = gicd_ctlr (vgic s)"
  "gicr_ctlr (vgic (vgic_set_pending v r p s)) = gicr_ctlr (vgic s)"
  by (simp_all add: vgic_set_pending_def Let_def set_desc_def)

lemma get_desc_bitmaps [simp]:
  "get_desc r (g\<lparr>pending_bitmap := x\<rparr>) = get_desc r g" "get_desc r (g\<lparr>lpi_pending_bitmap := y\<rparr>) = get_desc r g"
  by (cases r; simp)+

lemma desc_set_pending:
  "desc r' (vgic_set_pending v r p s) = (if r' = r then (desc r s)\<lparr>pending := p\<rparr> else desc r' s)"
  by (simp add: vgic_set_pending_def Let_def set_desc_def get_upd_desc)

lemma bitmap_upd:
  fixes m :: "nat \<Rightarrow> nat \<Rightarrow> u32"
  shows "bit ((m(v := (m v)(vgic_irq_word i := if p then m v (vgic_irq_word i) OR BIT32 (vgic_irq_bit i)
             else m v (vgic_irq_word i) AND NOT (BIT32 (vgic_irq_bit i))))) v' (vgic_irq_word j)) (vgic_irq_bit j)
         = (if v' = v \<and> j = i then p else bit (m v' (vgic_irq_word j)) (vgic_irq_bit j))"
proof (cases "v' = v \<and> vgic_irq_word j = vgic_irq_word i")
  case True
  then show ?thesis using bit_set_clear [of "vgic_irq_bit i" "vgic_irq_bit j" p "m v (vgic_irq_word i)"] irq_word_bit [of i j] by auto
qed auto

lemma pend_set_pending:
  assumes "virq (desc r s) = ref_id r" and "ref_ok r" and "ref_ok r'"
  shows "pend_bit r' (vgic (vgic_set_pending (ref_vcpu r) r p s)) = (if r' = r then p else pend_bit r' (vgic s))"
proof (cases r)
  case (Irq v i)
  with assms have "\<not> vgic_irq_is_lpi i" "virq (irq (vgic s) v i) = i" by (simp_all add: vgic_irq_is_lpi_def vgic_sizes)
  with Irq show ?thesis
    by (cases r') (simp_all add: vgic_set_pending_def Let_def set_desc_def bitmap_upd del: fun_upd_apply)
next
  case (Lpi v i)
  with assms have "vgic_irq_is_lpi (ARM64_VGIC_LPI_BASE + i)" "virq (lpi (vgic s) v i) = ARM64_VGIC_LPI_BASE + i"
    by (simp_all add: vgic_irq_is_lpi_def)
  with Lpi show ?thesis
    by (cases r') (simp_all add: vgic_set_pending_def Let_def set_desc_def bitmap_upd del: fun_upd_apply)
qed

section \<open>The invariant\<close>

text \<open>
  The representation invariant of the controller with \<open>k\<close> list registers: at most the eight the
  contexts have room for, descriptors and bitmaps consistent, and in every saved context at most
  \<open>k\<close> list registers in use and no interrupt in two of them; the same for the registers of the CPUs.
\<close>

definition vinv :: "nat \<Rightarrow> vsys \<Rightarrow> bool" where
  "vinv k s \<longleftrightarrow> k \<le> ARM64_VGIC_MAX_LRS \<and> lr_count (vgic s) = k \<and> vgic_lr_count s = k \<and>
     vgic_wf (vgic s) \<and> (\<forall>v. ctx_wf k (vctx s v)) \<and> (\<forall>p. lrs_ok (ich_lr (ich s p)) k)"

lemma vinv_desc: "vinv k s \<Longrightarrow> ref_ok r \<Longrightarrow> virq (desc r s) = ref_id r"
  by (simp add: vinv_def vgic_wf_def)

lemma vinv_ctx: "vinv k s \<Longrightarrow> ctx_wf k (vctx s v)"
  by (simp add: vinv_def)

lemma vinv_set_desc:
  assumes "vinv k s" and "\<And>d. virq (f d) = virq d" and "\<And>d. pending (f d) = pending d"
  shows "vinv k (set_desc r f s)"
  using assms by (auto simp: vinv_def vgic_wf_def desc_set_desc) (simp add: set_desc_def)

lemma vinv_set_pending:
  assumes "vinv k s" and "ref_ok r" and "ref_vcpu r = v"
  shows "vinv k (vgic_set_pending v r p s)"
  using assms pend_set_pending [OF vinv_desc [OF assms(1,2)] assms(2)]
  by (auto simp: vinv_def vgic_wf_def desc_set_pending)

lemma vinv_upd_ctx:
  assumes "vinv k s" and "ctx_wf k (f (vctx s v))"
  shows "vinv k (upd_ctx v f s)"
  using assms by (simp add: vinv_def upd_ctx_def)

lemma ref_id_32: "ref_ok r \<Longrightarrow> ref_id r < 2 ^ 32"
  by (cases r) (simp_all add: vgic_sizes)

lemma vinv_update_irq_lr:
  assumes "vinv k s" and "ref_ok r"
  shows "vinv k (vgic_update_irq_lr v r s)"
proof -
  have "virq (desc r s) < 2 ^ 32" using vinv_desc [OF assms] ref_id_32 [OF assms(2)] by simp
  then show ?thesis
    using assms vinv_ctx [OF assms(1), of v] ctx_wf_set
    by (auto simp: vgic_update_irq_lr_def Let_def intro!: vinv_upd_ctx split: option.splits)
qed

lemma vinv_update_irq_row_lr: "vinv k s \<Longrightarrow> ref_ok r \<Longrightarrow> vinv k (vgic_update_irq_row_lr v r s)"
  by (simp add: vgic_update_irq_row_lr_def vinv_update_irq_lr)

lemma vinv_set_targets: "vinv k s \<Longrightarrow> vinv k (set_targets n t m s)"
  by (induction m) (auto intro!: vinv_set_desc)

lemma vinv_set_spi_target:
  assumes "vinv k s"
  shows "vinv k (vgic_set_spi_target n t s)"
  using assms
  by (auto simp: vgic_set_spi_target_def Let_def vgic_irq_is_spi_def
      intro!: vinv_set_targets vinv_update_irq_row_lr vinv_set_desc vinv_set_pending)

end
