(* ===== verification/Vtimer.thy ===== *)
theory Vtimer
  imports Vgic_Inv
begin

text \<open>
  The guest timers as the virtual interrupt controller uses them (first half of
  \<^verbatim>\<open>arch/arm64/guest/vtimer.c\<close>): sampling the CNTV comparator, the host mask of its physical
  interrupt, and the two software timers that stand in for the CNTV and CNTP deadlines of a vCPU.
  The counter is read through \<open>cpu_ticks\<close>; reads made only for a debug record are left out. No
  function of this theory touches a descriptor, a list register or the scheduler: \<open>timer_step\<close>.
\<close>

section \<open>The running vCPU\<close>

text \<open>Of the per-VM array of a CPU only the entry of this VM can name one of its vCPUs.\<close>

definition get_running_vcpu :: "pcpu \<Rightarrow> vsys \<Rightarrow> nat option" where
  "get_running_vcpu p s =
     (if p \<ge> MAX_PCPU_NUM then None
      else case sched_get_current p (host s) of None \<Rightarrow> None
        | Some cur \<Rightarrow>
            (case vcpu_array s p of None \<Rightarrow> None
             | Some candidate \<Rightarrow> if cur = thread_obj s candidate then Some candidate else None))"

definition pcpuid_from_vcpu :: "nat \<Rightarrow> vsys \<Rightarrow> pcpu" where
  "pcpuid_from_vcpu v s = sched_get_pcpuid (host s) (thread_obj s v)"

section \<open>Counters and conditions\<close>

definition read_ticks :: "vsys \<Rightarrow> u64 \<times> vsys" where
  "read_ticks s = (let (t, h) = cpu_ticks (host s) in (t, s\<lparr>host := h\<rparr>))"

definition read_cntvct_el0 :: "vsys \<Rightarrow> u64 \<times> vsys" where
  "read_cntvct_el0 s = (let (t, s) = read_ticks s in (t - live_cntvoff (live_cntv s), s))"

definition vtimer_virtual_now :: "nat \<Rightarrow> vsys \<Rightarrow> u64 \<times> vsys" where
  "vtimer_virtual_now v s = (let (t, s) = read_ticks s in (t - cntvoff_el2 (gctx s v), s))"

definition vtimer_virtual_deadline :: "arm64_vcpu_guest_ctx \<Rightarrow> u64 \<Rightarrow> u64" where
  "vtimer_virtual_deadline g cval = cval + cntvoff_el2 g"

definition vtimer_ctl_enabled :: "u32 \<Rightarrow> bool" where
  "vtimer_ctl_enabled c \<longleftrightarrow> c AND CNTV_CTL_ENABLE \<noteq> 0 \<and> c AND CNTV_CTL_IMASK = 0"

definition vtimer_source_expired :: "u32 \<Rightarrow> u64 \<Rightarrow> u64 \<Rightarrow> bool" where
  "vtimer_source_expired c cval now \<longleftrightarrow> vtimer_ctl_enabled c \<and> sint (cval - now) \<le> 0"

definition vtimer_virtual_expired :: "nat \<Rightarrow> vsys \<Rightarrow> bool \<times> vsys" where
  "vtimer_virtual_expired v s =
     (let (now, s) = vtimer_virtual_now v s
      in (vtimer_source_expired (cntv_ctl_el0 (gctx s v)) (cntv_cval_el0 (gctx s v)) now, s))"

definition vtimer_physical_expired :: "nat \<Rightarrow> vsys \<Rightarrow> bool \<times> vsys" where
  "vtimer_physical_expired v s =
     (let (now, s) = read_ticks s
      in (vtimer_source_expired (cntp_ctl_el0 (gctx s v)) (cntp_cval_el0 (gctx s v)) now, s))"

definition vtimer_ctl_value :: "u32 \<Rightarrow> u64 \<Rightarrow> u64 \<Rightarrow> u32" where
  "vtimer_ctl_value c cval now =
     (let value = c AND (CNTV_CTL_ENABLE OR CNTV_CTL_IMASK)
      in if value AND CNTV_CTL_ENABLE \<noteq> 0 \<and> sint (cval - now) \<le> 0 then value OR CNTV_CTL_ISTATUS else value)"

section \<open>The live comparator\<close>

definition write_cntv_ctl_el0 :: "u32 \<Rightarrow> vsys \<Rightarrow> vsys" where
  "write_cntv_ctl_el0 x = upd_cntv (live_ctl_update (\<lambda>_. x))"

definition write_cntv_cval_el0 :: "u64 \<Rightarrow> vsys \<Rightarrow> vsys" where
  "write_cntv_cval_el0 x = upd_cntv (live_cval_update (\<lambda>_. x))"

text \<open>A write of the timer value sets the comparator that far ahead of the counter.\<close>

definition write_cntv_tval_el0 :: "u32 \<Rightarrow> vsys \<Rightarrow> vsys" where
  "write_cntv_tval_el0 x s = (let (now, s) = read_cntvct_el0 s in write_cntv_cval_el0 (now + scast x) s)"

text \<open>The calls to the host interrupt controller, all for the physical timer interrupt of this CPU.\<close>

definition set_ppi27_priority :: "u8 \<Rightarrow> vsys \<Rightarrow> vsys" where
  "set_ppi27_priority x = upd_cntv (ppi27_priority_update (\<lambda>_. x))"

definition clear_ppi27 :: "vsys \<Rightarrow> vsys" where
  "clear_ppi27 = upd_cntv (ppi27_pending_update (\<lambda>_. False))"

definition enable_ppi27 :: "vsys \<Rightarrow> vsys" where
  "enable_ppi27 = upd_cntv (ppi27_enabled_update (\<lambda>_. True))"

definition ARM64_GIC_PRIORITY_DEFAULT :: u8 where "ARM64_GIC_PRIORITY_DEFAULT = 0x80"
definition ARM64_GIC_PRIORITY_MASKED :: u8 where "ARM64_GIC_PRIORITY_MASKED = 0xff"

definition vtimer_refresh_live_condition :: "vsys \<Rightarrow> vsys" where
  "vtimer_refresh_live_condition s =
     (let ctl = live_ctl (live_cntv s) AND (CNTV_CTL_ENABLE OR CNTV_CTL_IMASK);
          cval = live_cval (live_cntv s);
          (now, s) = read_cntvct_el0 s
      in if ctl AND CNTV_CTL_ENABLE \<noteq> 0 \<and> ctl AND CNTV_CTL_IMASK = 0 \<and> sint (cval - now) \<le> 0
         then write_cntv_ctl_el0 ctl (write_cntv_tval_el0 0 (write_cntv_ctl_el0 0 s))
         else s)"

definition vtimer_set_host_mask :: "nat \<Rightarrow> bool \<Rightarrow> vsys \<Rightarrow> vsys" where
  "vtimer_set_host_mask v masked s =
     (if get_running_vcpu (here s) s \<noteq> Some v then s
      else if masked
      then vtimer_refresh_live_condition
             (set_ppi27_priority ARM64_GIC_PRIORITY_MASKED
               (upd_gctx v (cntv_el2_masked_update (\<lambda>_. True)) s))
      else if cntv_el2_masked (gctx s v)
      then enable_ppi27
             (set_ppi27_priority ARM64_GIC_PRIORITY_DEFAULT
               (clear_ppi27 (upd_gctx v (cntv_el2_masked_update (\<lambda>_. False)) s)))
      else s)"

definition vtimer_live_ctl :: "vsys \<Rightarrow> u32" where
  "vtimer_live_ctl s = live_ctl (live_cntv s) AND (CNTV_CTL_ENABLE OR CNTV_CTL_IMASK)"

definition arm64_vtimer_sample_current :: "nat \<Rightarrow> vsys \<Rightarrow> bool \<times> vsys" where
  "arm64_vtimer_sample_current v s =
     (let ctl = vtimer_live_ctl s;
          cval = live_cval (live_cntv s);
          (now, s) = read_cntvct_el0 s;
          s = upd_gctx v (\<lambda>g. g\<lparr>cntv_ctl_el0 := ctl, cntv_cval_el0 := cval\<rparr>) s
      in (ctl AND CNTV_CTL_ENABLE \<noteq> 0 \<and> ctl AND CNTV_CTL_IMASK = 0 \<and> sint (cval - now) \<le> 0, s))"

definition arm64_vtimer_disable_current :: "vsys \<Rightarrow> vsys" where
  "arm64_vtimer_disable_current s =
     set_ppi27_priority ARM64_GIC_PRIORITY_DEFAULT (enable_ppi27 (write_cntv_ctl_el0 0 s))"

section \<open>The software timers\<close>

abbreviation cntv_timer :: "nat \<Rightarrow> timer_ref" where "cntv_timer v \<equiv> TimerRef (2 * v)"
abbreviation cntp_timer :: "nat \<Rightarrow> timer_ref" where "cntp_timer v \<equiv> TimerRef (2 * v + 1)"

definition timer_disarm :: "timer_ref \<Rightarrow> hv \<Rightarrow> hv" where
  "timer_disarm t h =
     (let h = (if timer_is_started (hv_timers h t) then del_timer (Some t) h else h)
      in update_timer (Some t) 0 0 h)"

definition timer_arm :: "timer_ref \<Rightarrow> u64 \<Rightarrow> hv \<Rightarrow> hv" where
  "timer_arm t deadline h =
     (let h = (if timer_is_started (hv_timers h t) then del_timer (Some t) h else h);
          h = update_timer (Some t) deadline 0 h;
          (r, h) = add_timer (Some t) h
      in if r \<noteq> 0 then update_timer (Some t) 0 0 h else h)"

definition cntp_timer_disarm :: "nat \<Rightarrow> vsys \<Rightarrow> vsys" where
  "cntp_timer_disarm v s = (if cntp_timer_initialized s v then upd_host (timer_disarm (cntp_timer v)) s else s)"

definition cntv_timer_disarm :: "nat \<Rightarrow> vsys \<Rightarrow> vsys" where
  "cntv_timer_disarm v s = (if cntv_timer_initialized s v then upd_host (timer_disarm (cntv_timer v)) s else s)"

definition cntv_timer_arm :: "nat \<Rightarrow> vsys \<Rightarrow> vsys" where
  "cntv_timer_arm v s =
     (if \<not> cntv_timer_initialized s v then s
      else
        (let deadline = vtimer_virtual_deadline (gctx s v) (cntv_cval_el0 (gctx s v))
         in if \<not> vtimer_ctl_enabled (cntv_ctl_el0 (gctx s v)) then cntv_timer_disarm v s
            else
              (let (now, s) = read_ticks s;
                   deadline = (if sint (deadline - now) \<le> 0 then now + 1 else deadline)
               in upd_host (timer_arm (cntv_timer v) deadline) s)))"

abbreviation CNTV_TIMER_HANDLER :: timer_handle where "CNTV_TIMER_HANDLER \<equiv> OtherHandler 0"
abbreviation CNTP_TIMER_HANDLER :: timer_handle where "CNTP_TIMER_HANDLER \<equiv> OtherHandler 1"

definition arm64_vtimer_init_vcpu :: "nat \<Rightarrow> vsys \<Rightarrow> vsys" where
  "arm64_vtimer_init_vcpu v s =
     (let s = cntp_timer_disarm v (cntv_timer_disarm v s);
          s = upd_host (initialize_timer (Some (cntv_timer v)) (Some CNTV_TIMER_HANDLER) v 0 0) s;
          s = upd_host (initialize_timer (Some (cntp_timer v)) (Some CNTP_TIMER_HANDLER) v 0 0) s
      in s\<lparr>cntv_timer_initialized := (cntv_timer_initialized s)(v := True),
           cntp_timer_initialized := (cntp_timer_initialized s)(v := True)\<rparr>)"

definition arm64_vtimer_cancel_all :: "nat \<Rightarrow> vsys \<Rightarrow> vsys" where
  "arm64_vtimer_cancel_all v s = cntp_timer_disarm v (cntv_timer_disarm v s)"

definition vtimer_load_live_cntv :: "nat \<Rightarrow> vsys \<Rightarrow> vsys" where
  "vtimer_load_live_cntv v s =
     (let was_masked = cntv_el2_masked (gctx s v);
          s = write_cntv_ctl_el0 0 s;
          s = write_cntv_cval_el0 (cntv_cval_el0 (gctx s v)) s;
          s = write_cntv_ctl_el0 (cntv_ctl_el0 (gctx s v) AND (CNTV_CTL_ENABLE OR CNTV_CTL_IMASK)) s;
          s = (if was_masked then vtimer_set_host_mask v False s else s)
      in cntv_timer_arm v s)"

section \<open>Timer code leaves the controller alone\<close>

definition timer_step :: "vsys \<Rightarrow> vsys \<Rightarrow> bool" where
  "timer_step s s' \<longleftrightarrow>
     vgic s' = vgic s \<and> vctx s' = vctx s \<and> ich s' = ich s \<and> vgic_lr_count s' = vgic_lr_count s \<and>
     created_vcpus s' = created_vcpus s \<and> state s' = state s \<and> thread_obj s' = thread_obj s \<and>
     vcpu_array s' = vcpu_array s \<and> pending_req s' = pending_req s \<and> intr_event s' = intr_event s \<and>
     kicks s' = kicks s \<and> here s' = here s \<and> timer_env.more (host s') = timer_env.more (host s)"

lemma timer_step_refl [simp]: "timer_step s s"
  by (simp add: timer_step_def)

lemma timer_step_trans [trans]: "timer_step s s' \<Longrightarrow> timer_step s' s'' \<Longrightarrow> timer_step s s''"
  by (simp add: timer_step_def)

lemma timer_step_frame:
  assumes "timer_step s s'"
  shows "vgic s' = vgic s" "vctx s' = vctx s" "ich s' = ich s" "vgic_lr_count s' = vgic_lr_count s"
    "created_vcpus s' = created_vcpus s" "state s' = state s" "thread_obj s' = thread_obj s" "vcpu_array s' = vcpu_array s"
    "pending_req s' = pending_req s" "intr_event s' = intr_event s" "kicks s' = kicks s" "here s' = here s"
    "ctl (host s') = ctl (host s)" "threads (host s') = threads (host s)"
  using assms hv_more_eq [of "host s'" "host s"] by (simp_all add: timer_step_def)

lemma timer_step_running: "timer_step s s' \<Longrightarrow> get_running_vcpu p s' = get_running_vcpu p s"
  by (simp add: get_running_vcpu_def timer_step_frame sched_get_current_def cong: option.case_cong)

lemma timer_step_vinv: "timer_step s s' \<Longrightarrow> vinv k s' = vinv k s"
  by (simp add: vinv_def timer_step_frame)

lemma timer_step_upd [simp]:
  "timer_step s t \<Longrightarrow> timer_step s (upd_gctx v f t)" "timer_step s t \<Longrightarrow> timer_step s (upd_cntv f' t)"
  "timer_step s t \<Longrightarrow> timer_step s (t\<lparr>cntv_timer_initialized := i, cntp_timer_initialized := j\<rparr>)"
  by (simp_all add: timer_step_def upd_gctx_def upd_cntv_def)

lemma timer_step_host [simp]:
  assumes "timer_step s t" and "this_cpu h = here t" and "timer_env.more h = timer_env.more (host t)"
  shows "timer_step s (t\<lparr>host := h\<rparr>)"
  using assms by (simp add: timer_step_def)

lemma timer_arm_host [simp]:
  "this_cpu (timer_arm t d h) = this_cpu h" "timer_env.more (timer_arm t d h) = timer_env.more h"
  "this_cpu (timer_disarm t h) = this_cpu h" "timer_env.more (timer_disarm t h) = timer_env.more h"
  by (simp_all add: timer_arm_def timer_disarm_def Let_def split_beta)

lemma timer_step_read [simp]:
  "timer_step s t \<Longrightarrow> timer_step s (snd (read_ticks t))" "timer_step s t \<Longrightarrow> timer_step s (snd (read_cntvct_el0 t))"
  "timer_step s t \<Longrightarrow> timer_step s (snd (vtimer_virtual_now v t))"
  by (simp_all add: read_cntvct_el0_def vtimer_virtual_now_def read_ticks_def cpu_ticks_def Let_def split_beta)

lemma timer_step_expired [simp]:
  "timer_step s t \<Longrightarrow> timer_step s (snd (vtimer_virtual_expired v t))"
  "timer_step s t \<Longrightarrow> timer_step s (snd (vtimer_physical_expired v t))"
  by (simp_all add: vtimer_virtual_expired_def vtimer_physical_expired_def Let_def split_beta)

lemma timer_step_write [simp]:
  "timer_step s t \<Longrightarrow> timer_step s (write_cntv_ctl_el0 x t)" "timer_step s t \<Longrightarrow> timer_step s (write_cntv_cval_el0 y t)"
  "timer_step s t \<Longrightarrow> timer_step s (set_ppi27_priority z t)" "timer_step s t \<Longrightarrow> timer_step s (clear_ppi27 t)"
  "timer_step s t \<Longrightarrow> timer_step s (enable_ppi27 t)" "timer_step s t \<Longrightarrow> timer_step s (write_cntv_tval_el0 w t)"
  by (simp_all add: write_cntv_ctl_el0_def write_cntv_cval_el0_def set_ppi27_priority_def clear_ppi27_def
      enable_ppi27_def write_cntv_tval_el0_def Let_def split_beta)

lemma timer_step_line [simp]:
  "timer_step s t \<Longrightarrow> timer_step s (vtimer_refresh_live_condition t)"
  "timer_step s t \<Longrightarrow> timer_step s (snd (arm64_vtimer_sample_current v t))"
  "timer_step s t \<Longrightarrow> timer_step s (arm64_vtimer_disable_current t)"
  by (simp_all add: vtimer_refresh_live_condition_def arm64_vtimer_sample_current_def
      arm64_vtimer_disable_current_def Let_def split_beta)

lemma timer_step_set_host_mask [simp]: "timer_step s t \<Longrightarrow> timer_step s (vtimer_set_host_mask v m t)"
  by (simp add: vtimer_set_host_mask_def)

lemma timer_step_timers [simp]:
  "timer_step s t \<Longrightarrow> timer_step s (cntv_timer_disarm v t)" "timer_step s t \<Longrightarrow> timer_step s (cntp_timer_disarm v t)"
  "timer_step s t \<Longrightarrow> timer_step s (cntv_timer_arm v t)"
  by (simp_all add: cntv_timer_disarm_def cntp_timer_disarm_def cntv_timer_arm_def upd_host_def Let_def split_beta)

lemma timer_step_vcpu [simp]:
  "timer_step s t \<Longrightarrow> timer_step s (vtimer_load_live_cntv v t)" "timer_step s t \<Longrightarrow> timer_step s (arm64_vtimer_cancel_all v t)"
  "timer_step s t \<Longrightarrow> timer_step s (arm64_vtimer_init_vcpu v t)"
  by (simp_all add: vtimer_load_live_cntv_def arm64_vtimer_cancel_all_def arm64_vtimer_init_vcpu_def upd_host_def Let_def)

end
