(* ===== verification/Vgic_Sync.thy ===== *)
theory Vgic_Sync
  imports Vtimer
begin

text \<open>
  Moving interrupts between the descriptors and the list registers
  (\<^verbatim>\<open>arch/arm64/guest/vgicv3.c\<close>): \<open>vgicv3_sync_vcpu\<close> reads back what the hardware did with the list
  registers of a vCPU, \<open>vgicv3_flush_vcpu\<close> fills free ones with pending interrupts. \<open>is_current\<close> and
  \<open>loaded\<close> say that the list registers of this CPU are those of the vCPU.
\<close>

section \<open>Reading and writing the CPU interface\<close>

definition hw_lr_count :: "vsys \<Rightarrow> nat" where
  "hw_lr_count s = min (vgic_lr_count s) ARM64_VGIC_MAX_LRS"

definition vgicv3_write_lrs :: "arm64_vgicv3_vcpu_ctx \<Rightarrow> vsys \<Rightarrow> vsys" where
  "vgicv3_write_lrs c s = upd_live (\<lambda>r. r\<lparr>ich_lr :=
     (\<lambda>i. if i < hw_lr_count s then if i < used_lrs c then lr c i else 0 else ich_lr r i)\<rparr>) s"

definition vgicv3_control_hcr :: "u64 \<Rightarrow> u64" where
  "vgicv3_control_hcr h = (h AND NOT (ICH_HCR_EOICOUNT_MASK OR ICH_HCR_TC)) OR ICH_HCR_EN"

definition write_ich_hcr_el2 :: "u64 \<Rightarrow> vsys \<Rightarrow> vsys" where
  "write_ich_hcr_el2 x = upd_live (ich_hcr_update (\<lambda>_. x))"

definition write_ich_lr_el2 :: "nat \<Rightarrow> u64 \<Rightarrow> vsys \<Rightarrow> vsys" where
  "write_ich_lr_el2 i x = upd_live (\<lambda>r. r\<lparr>ich_lr := (ich_lr r)(i := x)\<rparr>)"

definition vgicv3_write_cpuif :: "arm64_vgicv3_vcpu_ctx \<Rightarrow> vsys \<Rightarrow> vsys" where
  "vgicv3_write_cpuif c s =
     (let s = upd_live (\<lambda>r. r\<lparr>icc_pmr := pmr c, ich_vmcr := vmcr c, ich_ap0r0 := ap0r0 c, ich_ap1r0 := ap1r0 c\<rparr>) s
      in write_ich_hcr_el2 (vgicv3_control_hcr (hcr c)) (vgicv3_write_lrs c s))"

definition vgicv3_write_lrs_hcr :: "arm64_vgicv3_vcpu_ctx \<Rightarrow> vsys \<Rightarrow> vsys" where
  "vgicv3_write_lrs_hcr c s = write_ich_hcr_el2 (vgicv3_control_hcr (hcr c)) (vgicv3_write_lrs c s)"

definition vgicv3_requeue_lr :: "nat \<Rightarrow> desc_ref \<Rightarrow> bool \<Rightarrow> vsys \<Rightarrow> vsys" where
  "vgicv3_requeue_lr v r loaded s =
     (let d = desc r s
      in if \<not> pending d \<or> \<not> vgic_irq_deliverable v d s \<or> find_lr_for_virq (vctx s v) (virq d) \<noteq> None then s
         else if used_lrs (vctx s v) \<ge> lr_count (vgic s)
         then (let s = upd_ctx v (\<lambda>c. c\<lparr>hcr := hcr c OR ICH_HCR_UIE\<rparr>) s
               in if loaded then write_ich_hcr_el2 (vgicv3_control_hcr (hcr (vctx s v))) s else s)
         else (let lr_idx = used_lrs (vctx s v);
                   s = upd_ctx v (push_lr (make_lr d)) s
               in if loaded
                  then write_ich_hcr_el2 (vgicv3_control_hcr (hcr (vctx s v)))
                         (write_ich_lr_el2 lr_idx (lr (vctx s v) lr_idx) s)
                  else s))"

definition vgicv3_write_cpuif_control :: "arm64_vgicv3_vcpu_ctx \<Rightarrow> vsys \<Rightarrow> vsys" where
  "vgicv3_write_cpuif_control c =
     upd_live (\<lambda>r. r\<lparr>icc_sre := sre c OR ICC_SRE_SRE, icc_pmr := pmr c, ich_vmcr := vmcr c\<rparr>)"

primrec read_lrs_loop :: "(nat \<Rightarrow> u64) \<Rightarrow> nat \<Rightarrow> arm64_vgicv3_vcpu_ctx \<Rightarrow> arm64_vgicv3_vcpu_ctx" where
  "read_lrs_loop regs 0 c = c"
| "read_lrs_loop regs (Suc idx) c =
     (let c = read_lrs_loop regs idx c;
          c = c\<lparr>lr := (lr c)(idx := regs idx)\<rparr>
      in if lr_state (lr c idx) \<noteq> ICH_LR_STATE_INVALID then c\<lparr>used_lrs := Suc idx\<rparr> else c)"

definition vgicv3_read_lrs :: "vsys \<Rightarrow> arm64_vgicv3_vcpu_ctx \<Rightarrow> arm64_vgicv3_vcpu_ctx" where
  "vgicv3_read_lrs s c = read_lrs_loop (ich_lr (live s)) (hw_lr_count s) (c\<lparr>used_lrs := 0\<rparr>)"

definition vgicv3_sync_live_cpuif :: "nat \<Rightarrow> vsys \<Rightarrow> vsys" where
  "vgicv3_sync_live_cpuif v s =
     (let x = ich_vmcr (live s)
      in upd_ctx v (\<lambda>c. c\<lparr>vmcr := x, pmr := drop_bit 24 (x AND ICH_VMCR_PRIORITY_MASK),
           ctlr := (if x AND ICH_VMCR_EOIM \<noteq> 0 then ICC_CTLR_EL1_EOIMODE else 0),
           sre := icc_sre (live s)\<rparr>) s)"

definition vgicv3_vcpu_is_loaded :: "nat \<Rightarrow> vsys \<Rightarrow> bool" where
  "vgicv3_vcpu_is_loaded v s \<longleftrightarrow> get_running_vcpu (here s) s = Some v"

definition vgicv3_vcpu_is_running_remote :: "nat \<Rightarrow> vsys \<Rightarrow> bool" where
  "vgicv3_vcpu_is_running_remote v s \<longleftrightarrow>
     (let p = pcpuid_from_vcpu v s in p \<noteq> here s \<and> get_running_vcpu p s = Some v)"

definition vgicv3_read_loaded_lrs :: "nat \<Rightarrow> bool \<Rightarrow> vsys \<Rightarrow> vsys" where
  "vgicv3_read_loaded_lrs v is_current s =
     (if is_current \<or> vgicv3_vcpu_is_loaded v s then upd_ctx v (vgicv3_read_lrs s) s else s)"

definition vgicv3_write_loaded_lrs :: "nat \<Rightarrow> bool \<Rightarrow> vsys \<Rightarrow> vsys" where
  "vgicv3_write_loaded_lrs v is_current s =
     (if is_current \<or> vgicv3_vcpu_is_loaded v s then vgicv3_write_lrs_hcr (vctx s v) s else s)"

section \<open>Completion\<close>

definition complete_eoi_lr :: "nat \<Rightarrow> u64 \<Rightarrow> (nat \<Rightarrow> u64) \<Rightarrow> nat \<Rightarrow> nat \<Rightarrow> vsys \<Rightarrow> vsys" where
  "complete_eoi_lr v eoi_lrs old_lrs old_used lr_idx s =
     (if eoi_lrs AND push_bit lr_idx 1 = 0 then s
      else
        (let x = (if lr_idx < used_lrs (vctx s v) then lr (vctx s v) lr_idx else 0);
             x = (if lr_state x = ICH_LR_STATE_INVALID \<and> lr_idx < old_used then old_lrs lr_idx else x);
             st = lr_state x
         in if st = ICH_LR_STATE_INVALID then s
            else
              (let n = lr_vintid x;
                   s = (case vgic_irq_desc v n s of None \<Rightarrow> s
                        | Some r \<Rightarrow>
                            (let d = desc r s;
                                 keep_pending = (if level d then st_pending st \<or> pending d else st_pending st \<and> st_active st);
                                 (keep_pending, s) =
                                   (if vgic_is_vtimer_irq n \<and> vgicv3_vcpu_is_loaded v s
                                    then arm64_vtimer_sample_current v s else (keep_pending, s));
                                 s = vgic_set_pending v r keep_pending s;
                                 s = set_desc r (\<lambda>d. d\<lparr>active := False\<rparr>) s
                             in if vgic_is_vtimer_irq n then vtimer_set_host_mask v keep_pending s else s))
               in if lr_idx < used_lrs (vctx s v) then upd_ctx v (remove_lr lr_idx) s else s)))"

primrec complete_eoi_loop :: "nat \<Rightarrow> u64 \<Rightarrow> (nat \<Rightarrow> u64) \<Rightarrow> nat \<Rightarrow> nat \<Rightarrow> vsys \<Rightarrow> vsys" where
  "complete_eoi_loop v eoi_lrs old_lrs old_used 0 s = s"
| "complete_eoi_loop v eoi_lrs old_lrs old_used (Suc lr_idx) s =
     complete_eoi_loop v eoi_lrs old_lrs old_used lr_idx (complete_eoi_lr v eoi_lrs old_lrs old_used lr_idx s)"

definition vgicv3_complete_eoi_lrs :: "nat \<Rightarrow> u64 \<Rightarrow> (nat \<Rightarrow> u64) \<Rightarrow> nat \<Rightarrow> vsys \<Rightarrow> vsys" where
  "vgicv3_complete_eoi_lrs v eoi_lrs old_lrs old_used s = complete_eoi_loop v eoi_lrs old_lrs old_used (hw_lr_count s) s"

definition vgicv3_active_priority_empty :: "vsys \<Rightarrow> bool" where
  "vgicv3_active_priority_empty s \<longleftrightarrow> ich_ap0r0 (live s) = 0 \<and> ich_ap1r0 (live s) = 0"

text \<open>The results: whether the timer was completed, and whether its list register was removed.\<close>

definition vgicv3_complete_timer_lr :: "nat \<Rightarrow> desc_ref \<Rightarrow> nat \<Rightarrow> vsys \<Rightarrow> bool \<times> bool \<times> vsys" where
  "vgicv3_complete_timer_lr v r lr_idx s =
     (if \<not> vgicv3_active_priority_empty s then (False, False, s)
      else
        (let (line_asserted, s) = arm64_vtimer_sample_current v s;
             s = set_desc r (\<lambda>d. d\<lparr>active := False\<rparr>) s;
             s = vgic_set_pending v r line_asserted s;
             s = upd_ctx v (remove_lr lr_idx) s
         in (True, True, vtimer_set_host_mask v line_asserted s)))"

section \<open>Synchronisation\<close>

definition sync_old_lr :: "nat \<Rightarrow> bool \<Rightarrow> u64 \<Rightarrow> (nat \<Rightarrow> u64) \<Rightarrow> nat \<Rightarrow> vsys \<Rightarrow> vsys" where
  "sync_old_lr v loaded eoi_lrs old_lrs idx s =
     (let old_lr = old_lrs idx; n = lr_vintid old_lr
      in if lr_state old_lr = ICH_LR_STATE_INVALID \<or> find_lr_for_virq (vctx s v) n \<noteq> None then s
         else case vgic_irq_desc v n s of None \<Rightarrow> s
           | Some r \<Rightarrow>
               (let d = desc r s;
                    queued_level = level d \<and> pending d;
                    old_pending = st_pending (lr_state old_lr);
                    eoi_reported = idx < 64 \<and> eoi_lrs AND push_bit idx 1 \<noteq> 0;
                    timer_irq = vgic_is_vtimer_irq n;
                    (sampled, asserted, s) =
                      (if loaded \<and> level d \<and> timer_irq \<and> old_pending \<and> \<not> eoi_reported
                       then (let (asserted, s) = arm64_vtimer_sample_current v s;
                                 s = vgic_set_pending v r asserted s
                             in (True, asserted, if asserted then vgicv3_requeue_lr v r loaded s else s))
                       else if queued_level then (False, False, s)
                       else if \<not> level d \<and> old_pending \<and> \<not> eoi_reported
                       then (False, False, vgic_set_pending v r True s)
                       else (False, False, vgic_set_pending v r False s));
                    s = set_desc r (\<lambda>d. d\<lparr>active := False\<rparr>) s
                in if timer_irq \<and> (sampled \<or> \<not> queued_level) then vtimer_set_host_mask v (sampled \<and> asserted) s else s))"

text \<open>
  One register of the second pass; the result is the index of the next. An empty register is
  removed, the timer follows its line, any other register updates the descriptor.
\<close>

definition drop_invalid :: "nat \<Rightarrow> nat \<Rightarrow> vsys \<Rightarrow> nat \<times> vsys" where
  "drop_invalid v idx s =
     (if lr_state (lr (vctx s v) idx) = ICH_LR_STATE_INVALID then (idx, upd_ctx v (remove_lr idx) s) else (Suc idx, s))"

definition sync_pending_timer :: "nat \<Rightarrow> desc_ref \<Rightarrow> nat \<Rightarrow> vsys \<Rightarrow> nat \<times> vsys" where
  "sync_pending_timer v r idx s =
     (let (line_asserted, s) = arm64_vtimer_sample_current v s;
          s = vgic_set_pending v r line_asserted s;
          s = set_desc r (\<lambda>d. d\<lparr>active := False\<rparr>) s
      in if \<not> line_asserted then (idx, upd_ctx v (remove_lr idx) (vtimer_set_host_mask v False s))
         else (Suc idx, vtimer_set_host_mask v True s))"

definition sync_plain :: "nat \<Rightarrow> desc_ref \<Rightarrow> nat \<Rightarrow> vsys \<Rightarrow> nat \<times> vsys" where
  "sync_plain v r idx s =
     (let st = lr_state (lr (vctx s v) idx); d = desc r s;
          s = (if \<not> level d \<and> (st_pending st \<or> \<not> st_active st \<or> \<not> pending d) then vgic_set_pending v r False s else s)
      in drop_invalid v idx (set_desc r (\<lambda>d. d\<lparr>active := st_active st\<rparr>) s))"

definition sync_lr :: "nat \<Rightarrow> bool \<Rightarrow> nat \<Rightarrow> vsys \<Rightarrow> nat \<times> vsys" where
  "sync_lr v loaded idx s =
     (let x = lr (vctx s v) idx; n = lr_vintid x; lr_pending = st_pending (lr_state x); lr_active = st_active (lr_state x)
      in case vgic_irq_desc v n s of None \<Rightarrow> drop_invalid v idx s
         | Some r \<Rightarrow>
             if \<not> level (desc r s) \<and> lr_active \<and> \<not> lr_pending
             then (Suc idx, set_desc r (\<lambda>d. d\<lparr>active := True\<rparr>) s)
             else
               (let timer = loaded \<and> level (desc r s) \<and> vgic_is_vtimer_irq n;
                    (completed, removed, s) =
                      (if timer \<and> lr_active then vgicv3_complete_timer_lr v r idx s else (False, False, s))
                in if completed then (if removed then idx else Suc idx, s)
                   else if timer \<and> lr_pending \<and> \<not> lr_active then sync_pending_timer v r idx s
                   else sync_plain v r idx s))"

section \<open>Frames\<close>

lemmas line_frame [simp] =
  timer_step_frame [OF timer_step_set_host_mask [OF timer_step_refl]]
  timer_step_frame [OF timer_step_line(2) [OF timer_step_refl]]
  timer_step_running [OF timer_step_set_host_mask [OF timer_step_refl]]
  timer_step_running [OF timer_step_line(2) [OF timer_step_refl]]

lemma upd_ctx_frame [simp]:
  "vctx (upd_ctx v f s) = (vctx s)(v := f (vctx s v))" "vgic (upd_ctx v f s) = vgic s" "host (upd_ctx v f s) = host s"
  "gctx (upd_ctx v f s) = gctx s" "ich (upd_ctx v f s) = ich s" "cntv (upd_ctx v f s) = cntv s"
  "vgic_lr_count (upd_ctx v f s) = vgic_lr_count s" "created_vcpus (upd_ctx v f s) = created_vcpus s"
  "thread_obj (upd_ctx v f s) = thread_obj s" "vcpu_array (upd_ctx v f s) = vcpu_array s"
  by (simp_all add: upd_ctx_def)

text \<open>The pass keeps the register and moves on, or removes it and stays.\<close>

definition next_lr :: "nat \<Rightarrow> nat \<Rightarrow> vsys \<Rightarrow> nat \<times> vsys \<Rightarrow> bool" where
  "next_lr v idx s p \<longleftrightarrow> (fst p = Suc idx \<and> vctx (snd p) = vctx s) \<or>
     (fst p = idx \<and> vctx (snd p) = (vctx s)(v := remove_lr idx (vctx s v)))"

lemma next_lr_pieces:
  "next_lr v idx s (drop_invalid v idx s)" "next_lr v idx s (sync_pending_timer v r idx s)"
  "vctx t = vctx s \<Longrightarrow> next_lr v idx s (drop_invalid v idx t)"
  by (simp_all add: next_lr_def drop_invalid_def sync_pending_timer_def Let_def split_beta)

lemma next_lr_plain: "next_lr v idx s (sync_plain v r idx s)"
  unfolding sync_plain_def Let_def by (rule next_lr_pieces(3)) simp

lemma next_lr_timer:
  "vgicv3_complete_timer_lr v r idx s = (completed, removed, t) \<Longrightarrow> \<not> completed \<and> t = s \<or>
     completed \<and> removed \<and> next_lr v idx s (idx, t)"
  by (auto simp: vgicv3_complete_timer_lr_def next_lr_def Let_def split_beta split: if_splits)

lemma sync_lr_ctx: "next_lr v idx s (sync_lr v loaded idx s)"
proof (cases "vgic_irq_desc v (lr_vintid (lr (vctx s v) idx)) s")
  case None
  then show ?thesis by (simp add: sync_lr_def next_lr_pieces)
next
  case (Some r)
  obtain completed removed t where t: "vgicv3_complete_timer_lr v r idx s = (completed, removed, t)" by (metis prod_cases3)
  show ?thesis
    using next_lr_timer [OF t] next_lr_plain next_lr_pieces(2)
    by (auto simp: sync_lr_def Some t Let_def) (simp_all add: next_lr_def)
qed

section \<open>Synchronisation, continued\<close>

function sync_lrs :: "nat \<Rightarrow> bool \<Rightarrow> nat \<Rightarrow> vsys \<Rightarrow> vsys" where
  "sync_lrs v loaded idx s =
     (if idx < used_lrs (vctx s v) then (case sync_lr v loaded idx s of (idx, s) \<Rightarrow> sync_lrs v loaded idx s) else s)"
  by pat_completeness auto

termination
proof (relation "measure (\<lambda>(v, loaded, idx, s). used_lrs (vctx s v) - idx)")
  fix v loaded idx s idx' s' 
  assume "idx < used_lrs (vctx s v)" and "(idx', s') = sync_lr v loaded idx s"
  then show "((v, loaded, idx', s'), v, loaded, idx, s) \<in> measure (\<lambda>(v, loaded, idx, s). used_lrs (vctx s v) - idx)"
    using sync_lr_ctx [of v idx s loaded] by (auto simp: next_lr_def prod_eq_iff split_beta)
qed simp

declare sync_lrs.simps [simp del]

definition sync_cpuif :: "nat \<Rightarrow> vsys \<Rightarrow> vsys" where
  "sync_cpuif v s =
     (let live_hcr = ich_hcr (live s);
          s = vgicv3_sync_live_cpuif v s
      in if live_hcr AND ICH_HCR_EOICOUNT_MASK \<noteq> 0
         then (let s = upd_ctx v (\<lambda>c. c\<lparr>hcr := live_hcr AND NOT (ICH_HCR_EOICOUNT_MASK OR ICH_HCR_TC)\<rparr>) s
               in write_ich_hcr_el2 (vgicv3_control_hcr (hcr (vctx s v))) s)
         else upd_ctx v (\<lambda>c. c\<lparr>hcr := hcr c AND NOT (ICH_HCR_EOICOUNT_MASK OR ICH_HCR_TC)\<rparr>) s)"

definition sync_requeue_timer :: "nat \<Rightarrow> vsys \<Rightarrow> vsys" where
  "sync_requeue_timer v s =
     (case vgic_irq_desc v ARM64_GIC_PPI_VIRTUAL_TIMER s of None \<Rightarrow> s
      | Some r \<Rightarrow> if level (desc r s) \<and> pending (desc r s) then vgicv3_requeue_lr v r True s else s)"

definition vgicv3_sync_vcpu :: "nat \<Rightarrow> bool \<Rightarrow> vsys \<Rightarrow> vsys" where
  "vgicv3_sync_vcpu v is_current s =
     (if \<not> is_current \<and> vgicv3_vcpu_is_running_remote v s then s
      else
        (let loaded = (is_current \<or> vgicv3_vcpu_is_loaded v s);
             old_used = used_lrs (vctx s v);
             old_lrs = lr (vctx s v);
             s = vgicv3_read_loaded_lrs v is_current s;
             eoi_lrs = (if loaded then ich_eisr (live s) else 0);
             s = (if loaded then sync_cpuif v s else s);
             s = (if vmcr (vctx s v) AND ICH_VMCR_EOIM = 0 \<and> eoi_lrs \<noteq> 0
                  then vgicv3_complete_eoi_lrs v eoi_lrs old_lrs old_used s else s);
             s = fold (sync_old_lr v loaded eoi_lrs old_lrs) [0..<old_used] s;
             s = sync_lrs v loaded 0 s
         in if loaded then sync_requeue_timer v s else s))"

section \<open>Flushing\<close>

text \<open>
  One pending interrupt; the result says that the scan of the word stops. A message-signalled
  interrupt is always an edge: its pending state is consumed whatever the descriptor says.
\<close>

definition flush_irq :: "nat \<Rightarrow> desc_ref \<Rightarrow> nat \<Rightarrow> vsys \<Rightarrow> bool \<times> vsys" where
  "flush_irq v r n s =
     (let d = desc r s;
          consume = (\<lambda>s. case r of Irq _ _ \<Rightarrow> if \<not> level d then vgic_set_pending v r False s else s
                              | Lpi _ _ \<Rightarrow> vgic_set_pending v r False s)
      in if \<not> pending d then (False, vgic_set_pending v r False s)
         else if \<not> vgic_irq_deliverable v d s then (False, s)
         else case find_lr_for_virq (vctx s v) n of
             Some i \<Rightarrow> (False, consume (upd_ctx v (set_lr i (make_lr d)) s))
           | None \<Rightarrow>
               if used_lrs (vctx s v) \<ge> lr_count (vgic s)
               then (True, upd_ctx v (\<lambda>c. c\<lparr>hcr := hcr c OR ICH_HCR_UIE\<rparr>) s)
               else (False, consume (upd_ctx v (push_lr (make_lr d)) s)))"

lemma ffs_u32:
  fixes w :: u32
  assumes "w \<noteq> 0"
  shows "bit w (unat (ffs64 (ucast w)))" "unat (ffs64 (ucast w)) < 32"
proof -
  have "ucast w \<noteq> (0 :: u64)"
  proof
    assume "ucast w = (0 :: u64)"
    then have "bit w n = bit (0 :: u32) n" if "n < 32" for n
      using that bit_ucast_word [of w n, where 'b = 64] by simp
    then have "w = 0" by (intro bit_word_eqI) auto
    with assms show False by simp
  qed
  from ffs64_props(1) [OF this] show "bit w (unat (ffs64 (ucast w)))" by (simp add: bit_ucast_word)
  then show "unat (ffs64 (ucast w)) < 32" by (auto dest: bit_imp_le_length)
qed

lemma bits_less:
  fixes w :: u32
  assumes "w \<noteq> 0"
  shows "unat (w AND NOT (BIT32 (unat (ffs64 (ucast w))))) < unat w"
proof -
  let ?b = "unat (ffs64 (ucast w))"
  have "\<not> bit (w AND NOT (BIT32 ?b)) ?b" using ffs_u32(2) [OF assms] by (simp add: bit_and_iff bit_not_iff bit_BIT32)
  then have "w AND NOT (BIT32 ?b) \<noteq> w" using ffs_u32(1) [OF assms] by metis
  moreover have "w AND NOT (BIT32 ?b) \<le> w" by (rule word_and_le2)
  ultimately have "w AND NOT (BIT32 ?b) < w" by (simp add: order_less_le)
  then show ?thesis by (simp add: word_less_nat_alt)
qed

function flush_bits :: "nat \<Rightarrow> (nat \<Rightarrow> desc_ref) \<Rightarrow> nat \<Rightarrow> nat \<Rightarrow> u32 \<Rightarrow> vsys \<Rightarrow> vsys" where
  "flush_bits v ref first word bits s =
     (if bits = 0 then s
      else
        (let b = unat (ffs64 (ucast bits));
             i = word * 32 + b;
             bits = bits AND NOT (BIT32 b);
             (stop, s) = flush_irq v (ref i) (first + i) s
         in if stop then s else flush_bits v ref first word bits s))"
  by pat_completeness auto

termination
  by (relation "measure (\<lambda>(v, ref, first, word, bits, s). unat bits)") (auto simp: bits_less)

declare flush_bits.simps [simp del]

fun flush_words ::
  "nat \<Rightarrow> (nat \<Rightarrow> desc_ref) \<Rightarrow> nat \<Rightarrow> (arm64_vgicv3 \<Rightarrow> nat \<Rightarrow> nat \<Rightarrow> u32) \<Rightarrow> nat list \<Rightarrow> vsys \<Rightarrow> vsys" where
  "flush_words v ref first bitmap [] s = s"
| "flush_words v ref first bitmap (word # words) s =
     (let s = flush_bits v ref first word (bitmap (vgic s) v word) s
      in if hcr (vctx s v) AND ICH_HCR_UIE \<noteq> 0 then s else flush_words v ref first bitmap words s)"

definition vgicv3_flush_vcpu :: "nat \<Rightarrow> bool \<Rightarrow> vsys \<Rightarrow> vsys" where
  "vgicv3_flush_vcpu v is_current s =
     (if \<not> is_current \<and> vgicv3_vcpu_is_running_remote v s then s
      else
        (let s = (if is_current \<or> vgicv3_vcpu_is_loaded v s then vgicv3_sync_live_cpuif v s else s);
             s = upd_ctx v (\<lambda>c. c\<lparr>hcr := hcr c AND NOT ICH_HCR_UIE\<rparr>) s;
             s = flush_words v (Irq v) 0 pending_bitmap [0..<ARM64_VGIC_WORDS] s;
             s = (if its_enabled (vgic s)
                  then flush_words v (Lpi v) ARM64_VGIC_LPI_BASE lpi_pending_bitmap [0..<ARM64_VGIC_LPI_WORDS] s else s)
         in vgicv3_write_loaded_lrs v is_current s))"

end
