(* ===== verification/Vgic_Step.thy ===== *)
theory Vgic_Step
  imports Vgic_Sync
begin

text \<open>
  What synchronising and flushing one vCPU may change: the relation \<open>vgo\<close>. The invariant holds
  afterwards; only pending and active flags of that vCPU's descriptors, its list registers, the
  registers of this CPU and the timers differ.
\<close>

section \<open>The step relation\<close>

definition vgic_static :: "arm64_vgicv3 \<Rightarrow> arm64_vgicv3" where
  "vgic_static g = g\<lparr>irq := (\<lambda>_ _. undefined), lpi := (\<lambda>_ _. undefined),
     pending_bitmap := (\<lambda>_ _. 0), lpi_pending_bitmap := (\<lambda>_ _. 0)\<rparr>"

definition idle :: "arm64_vgic_irq \<Rightarrow> arm64_vgic_irq" where
  "idle d = d\<lparr>pending := False, active := False\<rparr>"

definition vgo :: "nat \<Rightarrow> nat \<Rightarrow> vsys \<Rightarrow> vsys \<Rightarrow> bool" where
  "vgo k v s s' \<longleftrightarrow> vinv k s' \<and>
     vgic_static (vgic s') = vgic_static (vgic s) \<and> created_vcpus s' = created_vcpus s \<and> state s' = state s \<and>
     thread_obj s' = thread_obj s \<and> vcpu_array s' = vcpu_array s \<and> pending_req s' = pending_req s \<and>
     intr_event s' = intr_event s \<and> kicks s' = kicks s \<and> here s' = here s \<and>
     timer_env.more (host s') = timer_env.more (host s) \<and>
     (\<forall>w. w \<noteq> v \<longrightarrow> vctx s' w = vctx s w) \<and> (\<forall>p. p \<noteq> here s \<longrightarrow> ich s' p = ich s p) \<and>
     (\<forall>r. idle (desc r s') = idle (desc r s)) \<and> (\<forall>r. ref_vcpu r \<noteq> v \<longrightarrow> desc r s' = desc r s)"

lemma vgo_refl: "vinv k s \<Longrightarrow> vgo k v s s"
  by (simp add: vgo_def)

lemma vgo_trans [trans]: "vgo k v s s' \<Longrightarrow> vgo k v s' s'' \<Longrightarrow> vgo k v s s''"
  by (simp add: vgo_def)

lemma vgo_vinv: "vgo k v s s' \<Longrightarrow> vinv k s'"
  by (simp add: vgo_def)

lemma static_fields:
  assumes "vgic_static g' = vgic_static g"
  shows "initialized g' = initialized g" "its_enabled g' = its_enabled g" "vcpu_count g' = vcpu_count g"
    "lr_count g' = lr_count g" "gicd_ctlr g' = gicd_ctlr g" "gicr_ctlr g' = gicr_ctlr g" "spi_router g' = spi_router g"
    "its g' = its g" "rdist_count g' = rdist_count g"
  using arg_cong [OF assms, of initialized] arg_cong [OF assms, of its_enabled] arg_cong [OF assms, of vcpu_count]
    arg_cong [OF assms, of lr_count] arg_cong [OF assms, of gicd_ctlr] arg_cong [OF assms, of gicr_ctlr]
    arg_cong [OF assms, of spi_router] arg_cong [OF assms, of its] arg_cong [OF assms, of rdist_count]
  by (simp_all add: vgic_static_def)

lemma idle_fields:
  assumes "idle d' = idle d"
  shows "virq d' = virq d" "level d' = level d" "enabled d' = enabled d" "priority d' = priority d" "hw d' = hw d"
  using arg_cong [OF assms, of virq] arg_cong [OF assms, of level] arg_cong [OF assms, of enabled]
    arg_cong [OF assms, of priority] arg_cong [OF assms, of hw]
  by (simp_all add: idle_def)

lemma vgo_frame:
  assumes "vgo k v s s'"
  shows "initialized (vgic s') = initialized (vgic s)" "its_enabled (vgic s') = its_enabled (vgic s)"
    "vcpu_count (vgic s') = vcpu_count (vgic s)" "lr_count (vgic s') = lr_count (vgic s)"
    "gicd_ctlr (vgic s') = gicd_ctlr (vgic s)" "gicr_ctlr (vgic s') = gicr_ctlr (vgic s)"
    "created_vcpus s' = created_vcpus s" "state s' = state s" "thread_obj s' = thread_obj s" "vcpu_array s' = vcpu_array s"
    "pending_req s' = pending_req s" "intr_event s' = intr_event s" "kicks s' = kicks s" "here s' = here s"
    "ctl (host s') = ctl (host s)" "threads (host s') = threads (host s)"
    "virq (desc r s') = virq (desc r s)" "level (desc r s') = level (desc r s)" "enabled (desc r s') = enabled (desc r s)"
proof -
  have st: "vgic_static (vgic s') = vgic_static (vgic s)" "timer_env.more (host s') = timer_env.more (host s)"
    "idle (desc r s') = idle (desc r s)"
    using assms by (simp_all add: vgo_def)
  show "initialized (vgic s') = initialized (vgic s)" "its_enabled (vgic s') = its_enabled (vgic s)"
    "vcpu_count (vgic s') = vcpu_count (vgic s)" "lr_count (vgic s') = lr_count (vgic s)"
    "gicd_ctlr (vgic s') = gicd_ctlr (vgic s)" "gicr_ctlr (vgic s') = gicr_ctlr (vgic s)"
    using static_fields [OF st(1)] by simp_all
  show "ctl (host s') = ctl (host s)" "threads (host s') = threads (host s)" using hv_more_eq [OF st(2)] by simp_all
  show "virq (desc r s') = virq (desc r s)" "level (desc r s') = level (desc r s)" "enabled (desc r s') = enabled (desc r s)"
    using idle_fields [OF st(3)] by simp_all
qed (use assms in \<open>simp_all add: vgo_def\<close>)

lemma vgo_running: "vgo k v s s' \<Longrightarrow> get_running_vcpu p s' = get_running_vcpu p s"
  by (simp add: get_running_vcpu_def vgo_frame sched_get_current_def cong: option.case_cong)

lemma vgo_loaded: "vgo k v s s' \<Longrightarrow> vgicv3_vcpu_is_loaded w s' = vgicv3_vcpu_is_loaded w s"
  by (simp add: vgicv3_vcpu_is_loaded_def vgo_running vgo_frame)

lemma vgo_desc: "vgo k v s s' \<Longrightarrow> vgic_irq_desc w n s' = vgic_irq_desc w n s"
  by (simp add: vgic_irq_desc_def vgo_frame)

section \<open>Primitive steps\<close>

lemma static_upd_desc [simp]: "vgic_static (upd_desc r f g) = vgic_static g"
  by (cases r) (simp_all add: vgic_static_def)

lemma static_set_pending [simp]: "vgic_static (vgic (vgic_set_pending v r p s)) = vgic_static (vgic s)"
proof -
  have [simp]: "vgic_static (g\<lparr>pending_bitmap := x\<rparr>) = vgic_static g" "vgic_static (g\<lparr>lpi_pending_bitmap := y\<rparr>) = vgic_static g"
    for g x y by (simp_all add: vgic_static_def)
  show ?thesis by (simp add: vgic_set_pending_def set_desc_def Let_def)
qed

lemma set_frame [simp]:
  "pending_req (vgic_set_pending v r p s) = pending_req s" "intr_event (vgic_set_pending v r p s) = intr_event s"
  "kicks (vgic_set_pending v r p s) = kicks s" "pending_req (set_desc r f s) = pending_req s"
  "intr_event (set_desc r f s) = intr_event s" "kicks (set_desc r f s) = kicks s"
  "pending_req (upd_ctx v g s) = pending_req s" "intr_event (upd_ctx v g s) = intr_event s"
  "kicks (upd_ctx v g s) = kicks s" "state (upd_ctx v g s) = state s"
  "vgic (set_desc r f s) = upd_desc r f (vgic s)"
  by (simp_all add: vgic_set_pending_def set_desc_def upd_ctx_def Let_def)

lemma vgo_set_pending [simp]:
  "vgo k v s t \<Longrightarrow> ref_ok r \<Longrightarrow> ref_vcpu r = v \<Longrightarrow> vgo k v s (vgic_set_pending v r p t)"
  by (auto simp: vgo_def vinv_set_pending desc_set_pending idle_def)

lemma vgo_active [simp]: "vgo k v s t \<Longrightarrow> ref_vcpu r = v \<Longrightarrow> vgo k v s (set_desc r (active_update f) t)"
  using vinv_set_desc [of k t "active_update f" r]
  by (auto simp: vgo_def get_upd_desc idle_def)

lemma vgo_upd_ctx:
  assumes "vgo k v s t" and "ctx_wf k (vctx t v) \<Longrightarrow> ctx_wf k (f (vctx t v))"
  shows "vgo k v s (upd_ctx v f t)"
  using assms vinv_ctx [of k t v] by (auto simp: vgo_def vinv_upd_ctx)

lemma vgo_remove [simp]: "vgo k v s t \<Longrightarrow> vgo k v s (upd_ctx v (remove_lr i) t)"
  by (rule vgo_upd_ctx) auto

lemma vgo_ctl [simp]:
  "vgo k v s t \<Longrightarrow> vgo k v s (upd_ctx v (\<lambda>c. c\<lparr>hcr := g c\<rparr>) t)" "vgo k v s t \<Longrightarrow> vgo k v s (vgicv3_sync_live_cpuif v t)"
  unfolding vgicv3_sync_live_cpuif_def Let_def by (rule vgo_upd_ctx; simp add: ctx_wf_def)+

lemma upd_live_frame [simp]:
  "vctx (upd_live f s) = vctx s" "vgic (upd_live f s) = vgic s" "host (upd_live f s) = host s" "gctx (upd_live f s) = gctx s"
  "cntv (upd_live f s) = cntv s" "vgic_lr_count (upd_live f s) = vgic_lr_count s" "created_vcpus (upd_live f s) = created_vcpus s"
  "thread_obj (upd_live f s) = thread_obj s" "vcpu_array (upd_live f s) = vcpu_array s" "state (upd_live f s) = state s"
  "pending_req (upd_live f s) = pending_req s" "intr_event (upd_live f s) = intr_event s" "kicks (upd_live f s) = kicks s"
  "ich (upd_live f s) = (ich s)(here s := f (live s))"
  by (simp_all add: upd_live_def)

lemma vinv_live: "vinv k s \<Longrightarrow> lrs_ok (ich_lr (ich s p)) k"
  by (simp add: vinv_def)

lemma vgo_upd_live:
  assumes "vgo k v s t" and "lrs_ok (ich_lr (live t)) k \<Longrightarrow> lrs_ok (ich_lr (f (live t))) k"
  shows "vgo k v s (upd_live f t)"
proof -
  have "vinv k (upd_live f t)" using assms vinv_live [OF vgo_vinv [OF assms(1)]] vgo_vinv [OF assms(1)] by (simp add: vinv_def)
  then show ?thesis using assms(1) by (simp add: vgo_def)
qed

lemma vgo_live [simp]:
  "vgo k v s t \<Longrightarrow> vgo k v s (write_ich_hcr_el2 x t)"
  "vgo k v s t \<Longrightarrow> lr_vintid y = ARM64_GIC_PPI_VIRTUAL_TIMER \<Longrightarrow> vgo k v s (write_ich_lr_el2 i y t)"
  unfolding write_ich_hcr_el2_def write_ich_lr_el2_def by (rule vgo_upd_live; simp add: lrs_ok_upd)+

lemma vgo_timer:
  assumes "timer_step t u" and "vgo k v s t"
  shows "vgo k v s u"
  using assms(2) timer_step_frame [OF assms(1)] timer_step_vinv [OF assms(1)] assms(1)
  by (auto simp: vgo_def timer_step_def)

lemma vgo_line [simp]:
  "vgo k v s t \<Longrightarrow> vgo k v s (vtimer_set_host_mask w m t)" "vgo k v s t \<Longrightarrow> vgo k v s (snd (arm64_vtimer_sample_current w t))"
  by (rule vgo_timer; simp)+

lemma vgic_irq_desc_Some:
  assumes "vgic_irq_desc v n s = Some r"
  shows "ref_ok r" "ref_vcpu r = v" "ref_id r = n"
  using assms by (auto simp: vgic_irq_desc_def vgic_irq_is_lpi_def vgic_lpi_index_def vgic_sizes split: if_splits)

lemma vgo_push:
  assumes "vgo k v s t" and "ref_ok r" and "find_lr_for_virq (vctx t v) (ref_id r) = None"
    and "used_lrs (vctx t v) < lr_count (vgic t)"
  shows "vgo k v s (upd_ctx v (push_lr (make_lr_state (desc r t) p a)) t)"
proof (rule vgo_upd_ctx [OF assms(1)])
  have inv: "vinv k t" using assms(1) by (rule vgo_vinv)
  then show "ctx_wf k (push_lr (make_lr_state (desc r t) p a) (vctx t v))" if "ctx_wf k (vctx t v)"
    using ctx_wf_push [OF that] assms(3,4) vinv_desc [OF inv assms(2)] ref_id_32 [OF assms(2)] by (simp add: vinv_def)
qed

lemma vgo_requeue [simp]:
  assumes "vgo k v s t" and "ref_ok r" and "ref_id r = ARM64_GIC_PPI_VIRTUAL_TIMER"
  shows "vgo k v s (vgicv3_requeue_lr v r loaded t)"
proof -
  have "virq (desc r t) = ref_id r" using vinv_desc [OF vgo_vinv [OF assms(1)] assms(2)] .
  then show ?thesis
    using assms vgo_push [OF assms(1,2)] ref_id_32 [OF assms(2)]
    by (simp add: vgicv3_requeue_lr_def make_lr_def Let_def not_le)
qed

section \<open>Synchronising\<close>

lemma vgo_complete_eoi_lr [simp]:
  assumes "vgo k v s t"
  shows "vgo k v s (complete_eoi_lr v eoi old m i t)"
proof -
  have 1: "vgo k v s (case vgic_irq_desc v n t of None \<Rightarrow> t
      | Some r \<Rightarrow> (let d = desc r t; keep_pending = kp d; (keep_pending, u) = (if b then arm64_vtimer_sample_current v t else (keep_pending, t));
          u = vgic_set_pending v r keep_pending u; u = set_desc r (\<lambda>d. d\<lparr>active := False\<rparr>) u
        in if c then vtimer_set_host_mask v keep_pending u else u))" for n kp b c
    using assms vgic_irq_desc_Some by (auto simp: Let_def split_beta split: option.split)
  show ?thesis
    unfolding complete_eoi_lr_def Let_def by (simp only: if_split) (auto simp: assms intro!: vgo_remove 1 [unfolded Let_def])
qed

lemma vgo_complete_eoi_lrs [simp]:
  assumes "vgo k v s t"
  shows "vgo k v s (vgicv3_complete_eoi_lrs v eoi old m t)"
proof -
  have "vgo k v s (complete_eoi_loop v eoi old m n t)" for n
    using assms by (induction n arbitrary: t) simp_all
  then show ?thesis by (simp add: vgicv3_complete_eoi_lrs_def)
qed

lemma vgo_sync_old_lr [simp]:
  assumes "vgo k v s t"
  shows "vgo k v s (sync_old_lr v loaded eoi old i t)"
proof (cases "vgic_irq_desc v (lr_vintid (old i)) t")
  case (Some r)
  note r = vgic_irq_desc_Some [OF Some]
  show ?thesis
    using assms r by (simp add: sync_old_lr_def Some Let_def split_beta vgic_is_vtimer_irq_def)
qed (use assms in \<open>simp add: sync_old_lr_def Let_def\<close>)

lemma vgo_sync_lr [simp]:
  assumes "vgo k v s t"
  shows "vgo k v s (snd (sync_lr v loaded i t))"
proof (cases "vgic_irq_desc v (lr_vintid (lr (vctx t v) i)) t")
  case None
  then show ?thesis using assms by (simp add: sync_lr_def drop_invalid_def Let_def)
next
  case (Some r)
  note r = vgic_irq_desc_Some [OF Some]
  have plain: "vgo k v s (snd (sync_plain v r i u))" "vgo k v s (snd (sync_pending_timer v r i u))" if "vgo k v s u" for u
    using that r by (simp_all add: sync_plain_def sync_pending_timer_def drop_invalid_def Let_def split_beta)
  have "vgo k v s (snd (snd (vgicv3_complete_timer_lr v r i t)))"
    using assms r by (simp add: vgicv3_complete_timer_lr_def Let_def split_beta)
  with plain assms r show ?thesis
    by (auto simp: sync_lr_def Some Let_def split_beta)
qed

lemma vgo_sync_lrs [simp]:
  assumes "vgo k v s t"
  shows "vgo k v s (sync_lrs v loaded i t)"
  using assms
proof (induction v loaded i t rule: sync_lrs.induct)
  case (1 v loaded i t)
  show ?case
  proof (cases "i < used_lrs (vctx t v)")
    case True
    have "vgo k v s (sync_lrs v loaded (fst (sync_lr v loaded i t)) (snd (sync_lr v loaded i t)))"
      by (rule "1.IH" [OF True prod.collapse]) (rule vgo_sync_lr [OF "1.prems"])
    then show ?thesis by (subst sync_lrs.simps) (simp add: True split_beta)
  qed (use 1 in \<open>simp add: sync_lrs.simps\<close>)
qed

lemma vgo_fold [simp]: "vgo k v s t \<Longrightarrow> vgo k v s (fold (sync_old_lr v loaded eoi old) is t)"
  by (induction "is" arbitrary: t) simp_all

lemma read_lrs_loop_regs:
  "used_lrs (read_lrs_loop regs n (c\<lparr>used_lrs := 0\<rparr>)) \<le> n"
  "i < n \<Longrightarrow> lr (read_lrs_loop regs n (c\<lparr>used_lrs := 0\<rparr>)) i = regs i"
  by (induction n) (auto simp: Let_def less_Suc_eq le_Suc_eq)

lemma read_lrs_loop_used:
  "i < n \<Longrightarrow> lr_valid (regs i) \<Longrightarrow> i < used_lrs (read_lrs_loop regs n (c\<lparr>used_lrs := 0\<rparr>))"
  using read_lrs_loop_regs(1) by (induction n) (auto simp: Let_def less_Suc_eq le_Suc_eq)

lemma ctx_wf_read_lrs:
  assumes "lrs_ok (ich_lr (live s)) (hw_lr_count s)" and "hw_lr_count s = k"
  shows "ctx_wf k (vgicv3_read_lrs s c)"
proof -
  let ?c = "vgicv3_read_lrs s c"
  have "used_lrs ?c \<le> k" "\<And>i. i < used_lrs ?c \<Longrightarrow> lr ?c i = ich_lr (live s) i"
    using read_lrs_loop_regs(1) [of "ich_lr (live s)" k c] read_lrs_loop_regs(2) [where regs = "ich_lr (live s)" and n = k and c = c] assms(2) by (auto simp: vgicv3_read_lrs_def)
  with assms show ?thesis unfolding ctx_wf_def lrs_ok_def by auto
qed

lemma vinv_hw_count: "vinv k s \<Longrightarrow> hw_lr_count s = k"
  by (simp add: vinv_def hw_lr_count_def)

lemma vgo_if: "(b \<Longrightarrow> vgo k v s t) \<Longrightarrow> (\<not> b \<Longrightarrow> vgo k v s u) \<Longrightarrow> vgo k v s (if b then t else u)"
  by simp

lemma vgo_read_loaded:
  assumes "vinv k s"
  shows "vgo k v s (vgicv3_read_loaded_lrs v is_current s)"
  using vinv_hw_count [OF assms] vinv_live [OF assms]
  unfolding vgicv3_read_loaded_lrs_def by (intro vgo_if vgo_upd_ctx vgo_refl [OF assms] ctx_wf_read_lrs) simp_all

lemma vgo_sync_blocks [simp]:
  assumes "vgo k v s t"
  shows "vgo k v s (sync_cpuif v t)" "vgo k v s (sync_requeue_timer v t)"
  using assms vgic_irq_desc_Some by (auto simp: sync_cpuif_def sync_requeue_timer_def Let_def split: option.split)

lemma vgo_sync:
  assumes "vinv k s"
  shows "vgo k v s (vgicv3_sync_vcpu v is_current s)"
  unfolding vgicv3_sync_vcpu_def Let_def
  by (intro vgo_if vgo_sync_blocks vgo_sync_lrs vgo_fold vgo_complete_eoi_lrs vgo_read_loaded assms vgo_refl)

section \<open>Flushing\<close>

lemma vgo_set_lr:
  assumes "vgo k v s t" and "ref_ok r" and "find_lr_for_virq (vctx t v) (ref_id r) = Some i"
  shows "vgo k v s (upd_ctx v (set_lr i (make_lr_state (desc r t) p a)) t)"
proof (rule vgo_upd_ctx [OF assms(1)])
  have inv: "vinv k t" using assms(1) by (rule vgo_vinv)
  then show "ctx_wf k (set_lr i (make_lr_state (desc r t) p a) (vctx t v))" if "ctx_wf k (vctx t v)"
    using ctx_wf_set [OF that] assms(3) vinv_desc [OF inv assms(2)] ref_id_32 [OF assms(2)] by simp
qed

lemma vgo_flush_irq:
  assumes "vgo k v s t" and "ref_ok r" and "ref_vcpu r = v"
  shows "vgo k v s (snd (flush_irq v r (ref_id r) t))"
  using assms vgo_set_lr [OF assms(1,2)] vgo_push [OF assms(1,2)]
  by (auto simp: flush_irq_def make_lr_def Let_def split: option.split desc_ref.split)

end
