(* ===== verification/Vgic_Flush.thy ===== *)
theory Vgic_Flush
  imports Vgic_Step
begin

text \<open>
  Flushing delivers: every pending interrupt that the guest may take ends up pending in a list
  register, or all registers are taken and the underflow maintenance interrupt is armed; no
  pending interrupt is lost, none is invented.
\<close>

section \<open>Interrupts in list registers\<close>

definition resident :: "nat \<Rightarrow> arm64_vgicv3_vcpu_ctx \<Rightarrow> bool" where
  "resident n c \<longleftrightarrow> (\<exists>i < used_lrs c. lr_vintid (lr c i) = n \<and> st_pending (lr_state (lr c i)))"

definition listed :: "nat \<Rightarrow> arm64_vgicv3_vcpu_ctx \<Rightarrow> bool" where
  "listed n c \<longleftrightarrow> (\<exists>i < used_lrs c. lr_vintid (lr c i) = n \<and> lr_valid (lr c i))"

definition uie :: "arm64_vgicv3_vcpu_ctx \<Rightarrow> bool" where
  "uie c \<longleftrightarrow> hcr c AND ICH_HCR_UIE \<noteq> 0"

lemma uie_or [simp]: "uie (c\<lparr>hcr := hcr c OR ICH_HCR_UIE\<rparr>)"
  using and_exp_eq_0_iff_not_bit [of "hcr c OR ICH_HCR_UIE" 1]
  by (simp add: uie_def ICH_HCR_UIE_def bit_or_iff bit_push_bit_iff)

lemma uie_clear [simp]: "\<not> uie (c\<lparr>hcr := hcr c AND NOT ICH_HCR_UIE\<rparr>)"
  by (simp add: uie_def and.assoc bit.conj_cancel_left)

lemma resident_hcr [simp]: "resident n (c\<lparr>hcr := x\<rparr>) = resident n c" "listed n (c\<lparr>hcr := x\<rparr>) = listed n c"
  by (simp_all add: resident_def listed_def)

lemma find_lr_listed: "find_lr_for_virq c n = None \<longleftrightarrow> \<not> listed n c"
  by (auto simp: find_lr_None listed_def)

lemma resident_put:
  assumes "lr_vintid x = n" and "st_pending (lr_state x)"
    and "i < used_lrs c" and "lr_vintid (lr c i) = n"
  shows "resident n (set_lr i x c)" and "resident m c \<Longrightarrow> resident m (set_lr i x c)"
    and "listed m (set_lr i x c) \<Longrightarrow> listed m c \<or> m = n"
proof -
  show "resident n (set_lr i x c)" using assms by (auto simp: resident_def)
  show "resident m (set_lr i x c)" if "resident m c"
  proof -
    from that obtain j where "j < used_lrs c" "lr_vintid (lr c j) = m" "st_pending (lr_state (lr c j))"
      by (auto simp: resident_def)
    then show ?thesis using assms unfolding resident_def by (intro exI [of _ j]) auto
  qed
  show "listed m c \<or> m = n" if "listed m (set_lr i x c)"
    using that assms by (auto simp: listed_def split: if_splits)
qed

lemma resident_push:
  assumes "lr_vintid x = n" and "st_pending (lr_state x)"
  shows "resident n (push_lr x c)" and "resident m c \<Longrightarrow> resident m (push_lr x c)"
    and "listed m (push_lr x c) \<Longrightarrow> listed m c \<or> m = n"
proof -
  show "resident n (push_lr x c)" using assms by (auto simp: resident_def)
  show "resident m (push_lr x c)" if "resident m c"
    using that unfolding resident_def by (metis fun_upd_other less_Suc_eq less_irrefl push_lr_frame(1,9))
  show "listed m c \<or> m = n" if "listed m (push_lr x c)"
    using that assms by (auto simp: listed_def less_Suc_eq split: if_splits)
qed

section \<open>Progress of a flush\<close>

definition flow :: "nat \<Rightarrow> nat \<Rightarrow> vsys \<Rightarrow> vsys \<Rightarrow> bool" where
  "flow k v s s' \<longleftrightarrow> vgo k v s s' \<and> vmcr (vctx s' v) = vmcr (vctx s v) \<and>
     (\<forall>n. resident n (vctx s v) \<longrightarrow> resident n (vctx s' v)) \<and>
     (uie (vctx s v) \<longrightarrow> uie (vctx s' v)) \<and> used_lrs (vctx s v) \<le> used_lrs (vctx s' v) \<and>
     ((uie (vctx s v) \<longrightarrow> used_lrs (vctx s v) = k) \<longrightarrow> uie (vctx s' v) \<longrightarrow> used_lrs (vctx s' v) = k) \<and>
     (\<forall>r. ref_ok r \<and> ref_vcpu r = v \<longrightarrow> (pending (desc r s') \<longrightarrow> pending (desc r s)) \<and>
        (pending (desc r s) \<longrightarrow> pending (desc r s') \<or> resident (ref_id r) (vctx s' v))) \<and>
     (\<forall>n. listed n (vctx s' v) \<longrightarrow> listed n (vctx s v) \<or>
        (\<exists>r. ref_ok r \<and> ref_vcpu r = v \<and> ref_id r = n \<and> pending (desc r s) \<and> vgic_irq_deliverable v (desc r s) s))"

lemma flow_vgo: "flow k v s s' \<Longrightarrow> vgo k v s s'"
  by (simp add: flow_def)

lemma deliverable_cong:
  assumes "vgo k v s s'" and "vmcr (vctx s' v) = vmcr (vctx s v)"
  shows "vgic_irq_deliverable v (desc r s') s' = vgic_irq_deliverable v (desc r s) s"
  using assms(2) vgo_frame [OF assms(1)] by (simp add: vgic_irq_deliverable_def)

lemma flow_deliverable:
  "flow k v s s' \<Longrightarrow> vgic_irq_deliverable v (desc r s') s' = vgic_irq_deliverable v (desc r s) s"
  by (rule deliverable_cong [of k]) (simp_all add: flow_def)

lemma flow_refl: "vinv k s \<Longrightarrow> flow k v s s"
  by (simp add: flow_def vgo_refl)

lemma flow_trans [trans]:
  assumes "flow k v s t" and "flow k v t u"
  shows "flow k v s u"
proof -
  have d: "vgic_irq_deliverable v (desc r t) t = vgic_irq_deliverable v (desc r s) s" for r
    by (rule flow_deliverable [OF assms(1)])
  show ?thesis
    using assms vgo_trans [of k v s t u] unfolding flow_def d by (intro conjI) (simp_all, (meson | blast)+)
qed

lemma flow_pending:
  assumes "vinv k s" and "ref_ok r" and "ref_vcpu r = v" and "pending (desc r s) \<Longrightarrow> resident (ref_id r) (vctx s v)"
  shows "flow k v s (vgic_set_pending v r False s)"
  using assms vgo_set_pending [OF vgo_refl] by (auto simp: flow_def desc_set_pending)

lemma flow_ctx:
  assumes "vinv k s" and "vgo k v s (upd_ctx v f s)" and "vmcr (f (vctx s v)) = vmcr (vctx s v)"
    and "\<And>n. resident n (vctx s v) \<Longrightarrow> resident n (f (vctx s v))"
    and "uie (vctx s v) \<Longrightarrow> uie (f (vctx s v))" and "used_lrs (vctx s v) \<le> used_lrs (f (vctx s v))"
    and "(uie (vctx s v) \<longrightarrow> used_lrs (vctx s v) = k) \<Longrightarrow> uie (f (vctx s v)) \<Longrightarrow> used_lrs (f (vctx s v)) = k"
    and "\<And>n. listed n (f (vctx s v)) \<Longrightarrow> listed n (vctx s v) \<or>
      (\<exists>r. ref_ok r \<and> ref_vcpu r = v \<and> ref_id r = n \<and> pending (desc r s) \<and> vgic_irq_deliverable v (desc r s) s)"
  shows "flow k v s (upd_ctx v f s)"
  using assms by (simp add: flow_def)

text \<open>Delivered: in a list register, unless none is left and the maintenance interrupt is armed.\<close>

definition delivered :: "nat \<Rightarrow> nat \<Rightarrow> desc_ref \<Rightarrow> vsys \<Rightarrow> bool" where
  "delivered k v r s \<longleftrightarrow> resident (ref_id r) (vctx s v) \<or> uie (vctx s v) \<and> used_lrs (vctx s v) = k"

lemma delivered_flow:
  assumes "flow k v s t" and "delivered k v r s"
  shows "delivered k v r t"
proof -
  have "used_lrs (vctx t v) \<le> k" using vinv_ctx [OF vgo_vinv [OF flow_vgo [OF assms(1)]]] by (simp add: ctx_wf_def)
  then show ?thesis using assms by (auto simp: flow_def delivered_def)
qed

text \<open>An interrupt that is delivered once it is still pending is delivered.\<close>

lemma delivered_later:
  assumes "flow k v s t" "flow k v t u" and "ref_ok r" "ref_vcpu r = v"
    and "pending (desc r s)" "vgic_irq_deliverable v (desc r s) s"
    and "pending (desc r t) \<Longrightarrow> vgic_irq_deliverable v (desc r t) t \<Longrightarrow> delivered k v r u"
  shows "delivered k v r u"
proof (cases "pending (desc r t)")
  case True
  then show ?thesis using assms(6,7) flow_deliverable [OF assms(1), of r] by simp
next
  case False
  then have "delivered k v r t" using assms(1,3-5) by (auto simp: flow_def delivered_def)
  then show ?thesis by (rule delivered_flow [OF assms(2)])
qed

lemma flow_put:
  assumes "vinv k s" and r: "ref_ok r" "ref_vcpu r = v" and p: "pending (desc r s)" "vgic_irq_deliverable v (desc r s) s"
    and f: "f = set_lr i (make_lr (desc r s)) \<and> find_lr_for_virq (vctx s v) (ref_id r) = Some i \<or>
            f = push_lr (make_lr (desc r s)) \<and> find_lr_for_virq (vctx s v) (ref_id r) = None \<and> used_lrs (vctx s v) < lr_count (vgic s)"
  shows "flow k v s (upd_ctx v f s)" and "resident (ref_id r) (f (vctx s v))"
proof -
  let ?x = "make_lr (desc r s)"
  have x: "lr_vintid ?x = ref_id r" "st_pending (lr_state ?x)"
    using vinv_desc [OF assms(1) r(1)] ref_id_32 [OF r(1)] p(1) by (simp_all add: make_lr_def)
  have k: "lr_count (vgic s) = k" "used_lrs (vctx s v) \<le> k" using assms(1) vinv_ctx [OF assms(1), of v] by (simp_all add: vinv_def ctx_wf_def)
  have go: "vgo k v s (upd_ctx v f s)"
    using f vgo_set_lr [OF vgo_refl [OF assms(1)] r(1)] vgo_push [OF vgo_refl [OF assms(1)] r(1)] by (auto simp: make_lr_def)
  from f have res: "resident (ref_id r) (f (vctx s v)) \<and> (\<forall>m. resident m (vctx s v) \<longrightarrow> resident m (f (vctx s v))) \<and>
      (\<forall>m. listed m (f (vctx s v)) \<longrightarrow> listed m (vctx s v) \<or> m = ref_id r)"
  proof (elim disjE conjE)
    assume f: "f = set_lr i ?x" and i: "find_lr_for_virq (vctx s v) (ref_id r) = Some i"
    from resident_put [OF x find_lr_Some(1,3) [OF i]] show ?thesis unfolding f by blast
  next
    assume f: "f = push_lr ?x"
    from resident_push [OF x] show ?thesis unfolding f by blast
  qed
  then show "resident (ref_id r) (f (vctx s v))" ..
  have rest: "vmcr (f (vctx s v)) = vmcr (vctx s v)" "uie (f (vctx s v)) = uie (vctx s v)" "used_lrs (vctx s v) \<le> used_lrs (f (vctx s v))"
    using f by (auto simp: uie_def)
  show "flow k v s (upd_ctx v f s)"
  proof (rule flow_ctx [OF assms(1) go])
    show "used_lrs (f (vctx s v)) = k" if "uie (vctx s v) \<longrightarrow> used_lrs (vctx s v) = k" "uie (f (vctx s v))"
      using that rest f k by auto
  qed (use rest res r p in auto)
qed

lemma flow_flush_irq:
  assumes "vinv k s" and r: "ref_ok r" "ref_vcpu r = v"
  shows "flow k v s (snd (flush_irq v r (ref_id r) s))"
    and "pending (desc r s) \<and> vgic_irq_deliverable v (desc r s) s \<Longrightarrow>
      resident (ref_id r) (vctx (snd (flush_irq v r (ref_id r) s)) v) \<or> fst (flush_irq v r (ref_id r) s)"
    and "fst (flush_irq v r (ref_id r) s) \<Longrightarrow>
      uie (vctx (snd (flush_irq v r (ref_id r) s)) v) \<and> used_lrs (vctx (snd (flush_irq v r (ref_id r) s)) v) = k"
proof -
  have k: "lr_count (vgic s) = k" "used_lrs (vctx s v) \<le> k" using assms(1) vinv_ctx [OF assms(1), of v] by (simp_all add: vinv_def ctx_wf_def)
  let ?p = "flush_irq v r (ref_id r) s"
  have consume: "flow k v t (case r of Irq _ _ \<Rightarrow> if b then vgic_set_pending v r False t else t | Lpi _ _ \<Rightarrow> vgic_set_pending v r False t)"
    if "vinv k t" "resident (ref_id r) (vctx t v)" for t b
    using flow_pending [OF that(1) r] that flow_refl [OF that(1)] by (auto split: desc_ref.split)
  have full: "flow k v s (upd_ctx v (\<lambda>c. c\<lparr>hcr := hcr c OR ICH_HCR_UIE\<rparr>) s)" if "k \<le> used_lrs (vctx s v)"
    by (rule flow_ctx [OF assms(1)]) (use that k assms(1) in \<open>simp_all add: vgo_refl\<close>)
  have put: "flow k v s (case r of Irq _ _ \<Rightarrow> if b then vgic_set_pending v r False t else t | Lpi _ _ \<Rightarrow> vgic_set_pending v r False t)"
    if "flow k v s t" "resident (ref_id r) (vctx t v)" for t b
    by (rule flow_trans [OF that(1) consume [OF vgo_vinv [OF flow_vgo [OF that(1)]] that(2)]])
  note simps = flush_irq_def Let_def k
  consider "\<not> pending (desc r s)" | "pending (desc r s)" "\<not> vgic_irq_deliverable v (desc r s) s"
    | i where "pending (desc r s)" "vgic_irq_deliverable v (desc r s) s" "find_lr_for_virq (vctx s v) (ref_id r) = Some i"
    | "pending (desc r s)" "vgic_irq_deliverable v (desc r s) s" "find_lr_for_virq (vctx s v) (ref_id r) = None" "k \<le> used_lrs (vctx s v)"
    | "pending (desc r s)" "vgic_irq_deliverable v (desc r s) s" "find_lr_for_virq (vctx s v) (ref_id r) = None" "used_lrs (vctx s v) < k"
    by fastforce
  then have "flow k v s (snd ?p) \<and> (pending (desc r s) \<and> vgic_irq_deliverable v (desc r s) s \<longrightarrow> resident (ref_id r) (vctx (snd ?p) v) \<or> fst ?p) \<and>
    (fst ?p \<longrightarrow> uie (vctx (snd ?p) v) \<and> used_lrs (vctx (snd ?p) v) = k)"
  proof cases
    case 1 then show ?thesis using flow_pending [OF assms] by (simp add: simps)
  next
    case 2 then show ?thesis using flow_refl [OF assms(1)] by (simp add: simps)
  next
    case 3
    then show ?thesis
      using put [OF flow_put(1) [OF assms 3(1,2), of _ i]] flow_put(2) [OF assms 3(1,2), of _ i] by (auto simp: simps split: desc_ref.split)
  next
    case 4 then show ?thesis using full k by (simp add: simps)
  next
    case 5
    then show ?thesis
      using put [OF flow_put(1) [OF assms 5(1,2)]] flow_put(2) [OF assms 5(1,2)] k by (auto simp: simps split: desc_ref.split)
  qed
  then show "flow k v s (snd ?p)" "pending (desc r s) \<and> vgic_irq_deliverable v (desc r s) s \<Longrightarrow>
      resident (ref_id r) (vctx (snd ?p) v) \<or> fst ?p" "fst ?p \<Longrightarrow> uie (vctx (snd ?p) v) \<and> used_lrs (vctx (snd ?p) v) = k"
    by auto
qed

lemma flow_flush_bits:
  assumes "vinv k s" and "\<And>b. bit bits b \<Longrightarrow> ref_ok (ref (word * 32 + b)) \<and> ref_vcpu (ref (word * 32 + b)) = v \<and>
    ref_id (ref (word * 32 + b)) = first + (word * 32 + b)"
  shows "flow k v s (flush_bits v ref first word bits s) \<and>
    (\<forall>b. bit bits b \<longrightarrow> pending (desc (ref (word * 32 + b)) s) \<longrightarrow> vgic_irq_deliverable v (desc (ref (word * 32 + b)) s) s \<longrightarrow>
      delivered k v (ref (word * 32 + b)) (flush_bits v ref first word bits s))"
  using assms
proof (induction v ref first word bits s rule: flush_bits.induct)
  case (1 v ref first word bits s)
  show ?case
  proof (cases "bits = 0")
    case True
    then show ?thesis using flow_refl [OF "1.prems"(1)] by (simp add: flush_bits.simps)
  next
    case False
    let ?b = "unat (ffs64 (ucast bits))" and ?r = "\<lambda>b. ref (word * 32 + b)"
    let ?bits = "bits AND NOT (BIT32 ?b)"
    let ?p = "flush_irq v (?r ?b) (first + (word * 32 + ?b)) s"
    have b: "bit bits ?b" "?b < 32" using ffs_u32 [OF False] by auto
    have bits: "bit ?bits c \<longleftrightarrow> bit bits c \<and> c \<noteq> ?b" for c
      using b(2) bit_imp_le_length [of bits c] by (auto simp: bit_and_iff bit_not_iff bit_BIT32)
    have r: "ref_ok (?r c)" "ref_vcpu (?r c) = v" "ref_id (?r c) = first + (word * 32 + c)" if "bit bits c" for c
      using "1.prems"(2) [OF that] by auto
    note irq = flow_flush_irq [OF "1.prems"(1) r(1,2) [OF b(1)], unfolded r(3) [OF b(1)]]
    have inv: "vinv k (snd ?p)" using vgo_vinv [OF flow_vgo [OF irq(1)]] .
    show ?thesis
    proof (cases "fst ?p")
      case True
      then have "flush_bits v ref first word bits s = snd ?p" using False by (simp add: flush_bits.simps Let_def split_beta)
      then show ?thesis using irq(1,3) True by (auto simp: delivered_def)
    next
      case nostop: False
      let ?s' = "flush_bits v ref first word ?bits (snd ?p)"
      have eq: "flush_bits v ref first word bits s = ?s'"
        using False nostop by (subst flush_bits.simps) (simp add: Let_def split_beta)
      have IH: "flow k v (snd ?p) ?s' \<and> (\<forall>c. bit ?bits c \<longrightarrow> pending (desc (?r c) (snd ?p)) \<longrightarrow>
          vgic_irq_deliverable v (desc (?r c) (snd ?p)) (snd ?p) \<longrightarrow> delivered k v (?r c) ?s')"
        by (rule "1.IH" [OF False refl refl refl refl prod.collapse nostop inv]) (use r bits in auto)
      have "delivered k v (?r c) ?s'" if "bit bits c" "pending (desc (?r c) s)" "vgic_irq_deliverable v (desc (?r c) s) s" for c
      proof (cases "c = ?b")
        case True
        then have "delivered k v (?r c) (snd ?p)" using irq(2) that nostop r(3) [OF b(1)] by (simp add: delivered_def)
        then show ?thesis using delivered_flow IH by blast
      next
        case False
        show ?thesis
          by (rule delivered_later [OF irq(1) _ r(1,2) [OF that(1)] that(2,3)]) (use IH bits that False in auto)
      qed
      then show ?thesis unfolding eq using flow_trans [OF irq(1)] IH by blast
    qed
  qed
qed

lemma flow_flush_words:
  assumes "vinv k s" and "\<And>i. i div 32 \<in> set ws \<Longrightarrow> ref_ok (ref i) \<and> ref_vcpu (ref i) = v \<and> ref_id (ref i) = first + i"
    and bm: "\<And>g i. pend_bit (ref i) g = bit (bitmap g v (vgic_irq_word i)) (vgic_irq_bit i)"
    and "uie (vctx s v) \<longrightarrow> used_lrs (vctx s v) = k"
  shows "flow k v s (flush_words v ref first bitmap ws s) \<and>
    (\<forall>i. i div 32 \<in> set ws \<longrightarrow> pending (desc (ref i) s) \<longrightarrow> vgic_irq_deliverable v (desc (ref i) s) s \<longrightarrow>
      delivered k v (ref i) (flush_words v ref first bitmap ws s))"
  using assms(1,2,4)
proof (induction ws arbitrary: s)
  case Nil
  then show ?case by (simp add: flow_refl)
next
  case (Cons w ws)
  let ?bits = "bitmap (vgic s) v w"
  let ?t = "flush_bits v ref first w ?bits s"
  have ref: "ref_ok (ref i)" "ref_vcpu (ref i) = v" "ref_id (ref i) = first + i" if "i div 32 \<in> set (w # ws)" for i
    using Cons.prems(2) [OF that] by auto
  have "ref_ok (ref (w * 32 + b)) \<and> ref_vcpu (ref (w * 32 + b)) = v \<and> ref_id (ref (w * 32 + b)) = first + (w * 32 + b)"
    if "bit ?bits b" for b
    using ref [of "w * 32 + b"] bit_imp_le_length [OF that] by simp
  note bits = flow_flush_bits [where bits = ?bits, OF Cons.prems(1) this]
  have word: "delivered k v (ref i) ?t" if "i div 32 = w" "pending (desc (ref i) s)" "vgic_irq_deliverable v (desc (ref i) s) s" for i
  proof -
    have i: "w * 32 + i mod 32 = i" using that(1) by auto
    have "bit ?bits (i mod 32)"
      using vgic_wf_D(2) [of "vgic s" "ref i"] Cons.prems(1) ref(1) [of i] that bm [of i "vgic s"]
      by (simp add: vinv_def vgic_irq_word_def vgic_irq_bit_def)
    then show ?thesis using bits that i by auto
  qed
  have inv: "vinv k ?t" using vgo_vinv [OF flow_vgo] bits by blast
  have uie: "uie (vctx ?t v) \<longrightarrow> used_lrs (vctx ?t v) = k" using bits Cons.prems(3) by (simp add: flow_def)
  show ?case
  proof (cases "uie (vctx ?t v)")
    case True
    then have "flush_words v ref first bitmap (w # ws) s = ?t" by (simp add: uie_def Let_def)
    then show ?thesis using bits uie True by (auto simp: delivered_def)
  next
    case False
    let ?u = "flush_words v ref first bitmap ws ?t"
    have eq: "flush_words v ref first bitmap (w # ws) s = ?u" using False by (simp add: uie_def Let_def)
    have IH: "flow k v ?t ?u \<and> (\<forall>i. i div 32 \<in> set ws \<longrightarrow> pending (desc (ref i) ?t) \<longrightarrow>
        vgic_irq_deliverable v (desc (ref i) ?t) ?t \<longrightarrow> delivered k v (ref i) ?u)"
      by (rule Cons.IH [OF inv]) (use ref uie in auto)
    have "delivered k v (ref i) ?u" if "i div 32 \<in> set (w # ws)" "pending (desc (ref i) s)" "vgic_irq_deliverable v (desc (ref i) s) s" for i
    proof (cases "i div 32 = w")
      case True
      show ?thesis by (rule delivered_flow [OF _ word [OF True that(2,3)]]) (use IH in blast)
    next
      case False
      show ?thesis
        by (rule delivered_later [OF _ _ ref(1,2) [OF that(1)] that(2,3)]) (use bits IH that False in auto)
    qed
    then show ?thesis unfolding eq using flow_trans bits IH by blast
  qed
qed

section \<open>The whole flush\<close>

lemma write_loaded_frame [simp]:
  "vctx (vgicv3_write_loaded_lrs v c s) = vctx s" "vgic (vgicv3_write_loaded_lrs v c s) = vgic s"
  "host (vgicv3_write_loaded_lrs v c s) = host s"
  by (simp_all add: vgicv3_write_loaded_lrs_def vgicv3_write_lrs_hcr_def vgicv3_write_lrs_def write_ich_hcr_el2_def)

lemma lrs_ok_live:
  assumes "ctx_wf k c" and "\<And>i. i < k \<Longrightarrow> f i = (if i < used_lrs c then lr c i else 0)"
  shows "lrs_ok f k"
proof -
  have "i < used_lrs c" if "i < k" "lr_valid (f i)" for i using assms(2) [OF that(1)] that(2) by (auto split: if_splits)
  then show ?thesis
    using assms by (auto simp: lrs_ok_def ctx_wf_def)
qed

lemma vgo_write_lrs [simp]:
  assumes "vgo k v s t"
  shows "vgo k v s (vgicv3_write_lrs (vctx t w) t)"
  unfolding vgicv3_write_lrs_def
proof (rule vgo_upd_live [OF assms])
  have "vinv k t" using assms by (rule vgo_vinv)
  then show "lrs_ok (ich_lr (live t\<lparr>ich_lr := \<lambda>i. if i < hw_lr_count t then if i < used_lrs (vctx t w) then lr (vctx t w) i else 0 else ich_lr (live t) i\<rparr>)) k"
    using vinv_hw_count [of k t] by (auto intro: lrs_ok_live vinv_ctx)
qed

lemma vgo_write_loaded [simp]: "vgo k v s t \<Longrightarrow> vgo k v s (vgicv3_write_loaded_lrs w c t)"
  by (simp add: vgicv3_write_loaded_lrs_def vgicv3_write_lrs_hcr_def)

text \<open>
  The state when the scan starts: the live control state is read in and the underflow request is
  withdrawn; descriptors and list registers are as before.
\<close>

definition flush_start :: "nat \<Rightarrow> bool \<Rightarrow> vsys \<Rightarrow> vsys" where
  "flush_start v is_current s =
     upd_ctx v (\<lambda>c. c\<lparr>hcr := hcr c AND NOT ICH_HCR_UIE\<rparr>)
       (if is_current \<or> vgicv3_vcpu_is_loaded v s then vgicv3_sync_live_cpuif v s else s)"

definition flush_scan :: "nat \<Rightarrow> vsys \<Rightarrow> vsys" where
  "flush_scan v s =
     (let s = flush_words v (Irq v) 0 pending_bitmap [0..<ARM64_VGIC_WORDS] s
      in if its_enabled (vgic s)
         then flush_words v (Lpi v) ARM64_VGIC_LPI_BASE lpi_pending_bitmap [0..<ARM64_VGIC_LPI_WORDS] s else s)"

lemma flush_vcpu_eq:
  "vgicv3_flush_vcpu v c s =
     (if \<not> c \<and> vgicv3_vcpu_is_running_remote v s then s else vgicv3_write_loaded_lrs v c (flush_scan v (flush_start v c s)))"
  by (simp add: vgicv3_flush_vcpu_def flush_start_def flush_scan_def Let_def)

lemma flush_start_frame:
  "vgic (flush_start v c s) = vgic s" "host (flush_start v c s) = host s" "ich (flush_start v c s) = ich s"
  "lr (vctx (flush_start v c s) v) = lr (vctx s v)" "used_lrs (vctx (flush_start v c s) v) = used_lrs (vctx s v)"
  "\<not> uie (vctx (flush_start v c s) v)"
  by (simp_all add: flush_start_def vgicv3_sync_live_cpuif_def Let_def)

lemma vgo_flush_start: "vinv k s \<Longrightarrow> vgo k v s (flush_start v c s)"
  by (auto simp: flush_start_def intro!: vgo_ctl vgo_refl)

lemma flow_flush_scan:
  assumes "vinv k s" and "\<not> uie (vctx s v)"
  shows "flow k v s (flush_scan v s)"
    and "\<And>r. ref_ok r \<Longrightarrow> ref_vcpu r = v \<Longrightarrow> its_enabled (vgic s) \<or> (\<exists>i. r = Irq v i) \<Longrightarrow> pending (desc r s) \<Longrightarrow>
      vgic_irq_deliverable v (desc r s) s \<Longrightarrow> delivered k v r (flush_scan v s)"
proof -
  let ?t = "flush_words v (Irq v) 0 pending_bitmap [0..<ARM64_VGIC_WORDS] s"
  have irq: "flow k v s ?t \<and> (\<forall>i. i div 32 \<in> set [0..<ARM64_VGIC_WORDS] \<longrightarrow> pending (desc (Irq v i) s) \<longrightarrow>
      vgic_irq_deliverable v (desc (Irq v i) s) s \<longrightarrow> delivered k v (Irq v i) ?t)"
    by (rule flow_flush_words) (use assms in \<open>auto simp: vgic_sizes\<close>)
  have t: "vinv k ?t" "uie (vctx ?t v) \<longrightarrow> used_lrs (vctx ?t v) = k"
    using irq assms(2) vgo_vinv [OF flow_vgo] by (auto simp: flow_def)
  have its: "its_enabled (vgic ?t) = its_enabled (vgic s)" using vgo_frame [OF flow_vgo] irq by blast
  let ?u = "flush_words v (Lpi v) ARM64_VGIC_LPI_BASE lpi_pending_bitmap [0..<ARM64_VGIC_LPI_WORDS] ?t"
  have lpi: "flow k v ?t ?u \<and> (\<forall>i. i div 32 \<in> set [0..<ARM64_VGIC_LPI_WORDS] \<longrightarrow> pending (desc (Lpi v i) ?t) \<longrightarrow>
      vgic_irq_deliverable v (desc (Lpi v i) ?t) ?t \<longrightarrow> delivered k v (Lpi v i) ?u)"
    by (rule flow_flush_words [OF t(1)]) (use t(2) in \<open>auto simp: vgic_sizes\<close>)
  have scan: "flush_scan v s = (if its_enabled (vgic s) then ?u else ?t)" by (simp add: flush_scan_def Let_def its)
  then have late: "flow k v ?t (flush_scan v s)" using lpi flow_refl [OF t(1)] by simp
  from flow_trans [OF _ late] irq show "flow k v s (flush_scan v s)" by blast
  fix r
  assume r: "ref_ok r" "ref_vcpu r = v" and en: "its_enabled (vgic s) \<or> (\<exists>i. r = Irq v i)"
    and p: "pending (desc r s)" "vgic_irq_deliverable v (desc r s) s"
  show "delivered k v r (flush_scan v s)"
  proof (cases r)
    case (Irq w i)
    then have "delivered k v r ?t" using r p irq by (auto simp: vgic_sizes)
    then show ?thesis by (rule delivered_flow [OF late])
  next
    case (Lpi w i)
    show ?thesis
      by (rule delivered_later [OF _ late r p]) (use irq lpi scan en Lpi r in \<open>auto simp: vgic_sizes\<close>)
  qed
qed

lemma vgo_flush: "vinv k s \<Longrightarrow> vgo k v s (vgicv3_flush_vcpu v c s)"
  unfolding flush_vcpu_eq
  by (intro vgo_if vgo_write_loaded vgo_trans [OF vgo_flush_start flow_vgo [OF flow_flush_scan(1)]])
    (auto intro: vgo_refl vgo_vinv [OF vgo_flush_start] simp: flush_start_frame)

lemma live_after_write:
  assumes "c \<or> vgicv3_vcpu_is_loaded v s" and "i < hw_lr_count s"
  shows "ich_lr (live (vgicv3_write_loaded_lrs v c s)) i = (if i < used_lrs (vctx s v) then lr (vctx s v) i else 0)"
    "ich_hcr (live (vgicv3_write_loaded_lrs v c s)) = vgicv3_control_hcr (hcr (vctx s v))"
  using assms by (simp_all add: vgicv3_write_loaded_lrs_def vgicv3_write_lrs_hcr_def vgicv3_write_lrs_def write_ich_hcr_el2_def)

lemma flush_spec:
  fixes v c s
  defines "s' \<equiv> vgicv3_flush_vcpu v c s"
  assumes inv: "vinv k s" and here: "c \<or> \<not> vgicv3_vcpu_is_running_remote v s"
  shows "\<And>r. ref_ok r \<Longrightarrow> ref_vcpu r = v \<Longrightarrow> pending (desc r s') \<Longrightarrow> pending (desc r s)"
    and "\<And>r. ref_ok r \<Longrightarrow> ref_vcpu r = v \<Longrightarrow> pending (desc r s) \<Longrightarrow> pending (desc r s') \<or> resident (ref_id r) (vctx s' v)"
    and "\<And>r. ref_ok r \<Longrightarrow> ref_vcpu r = v \<Longrightarrow> its_enabled (vgic s) \<or> (\<exists>i. r = Irq v i) \<Longrightarrow> pending (desc r s) \<Longrightarrow>
      vgic_irq_deliverable v (desc r s') s' \<Longrightarrow> delivered k v r s'"
    and "\<And>n. listed n (vctx s' v) \<Longrightarrow> listed n (vctx s v) \<or>
      (\<exists>r. ref_ok r \<and> ref_vcpu r = v \<and> ref_id r = n \<and> pending (desc r s) \<and> vgic_irq_deliverable v (desc r s') s')"
    and "\<And>n. resident n (vctx s v) \<Longrightarrow> resident n (vctx s' v)"
    and "c \<or> vgicv3_vcpu_is_loaded v s \<Longrightarrow> ich_hcr (live s') = vgicv3_control_hcr (hcr (vctx s' v)) \<and>
      (\<forall>i < k. ich_lr (live s') i = (if i < used_lrs (vctx s' v) then lr (vctx s' v) i else 0))"
proof -
  let ?t = "flush_start v c s"
  let ?u = "flush_scan v ?t"
  have s': "s' = vgicv3_write_loaded_lrs v c ?u" using here by (auto simp: s'_def flush_vcpu_eq)
  have go: "vgo k v s ?t" by (rule vgo_flush_start [OF inv])
  note t = vgo_vinv [OF go] flush_start_frame(6) [of v c s]
  note flow = flow_flush_scan(1) [OF t] and del = flow_flush_scan(2) [OF t]
  have u: "vgo k v ?t ?u" by (rule flow_vgo [OF flow])
  have same: "vctx s' = vctx ?u" "vgic s' = vgic ?u" by (simp_all add: s')
  have dl: "vgic_irq_deliverable v (desc r s') s' = vgic_irq_deliverable v (desc r ?t) ?t" for r
    unfolding flow_deliverable [OF flow, of r, symmetric] by (simp add: vgic_irq_deliverable_def same)
  have dl': "vgic_irq_deliverable v (desc r ?u) s' = vgic_irq_deliverable v (desc r s) ?t" for r
    using dl [of r] by (simp add: same flush_start_frame)
  have res: "resident n (vctx ?t v) = resident n (vctx s v)" "listed n (vctx ?t v) = listed n (vctx s v)" for n
    by (simp_all add: resident_def listed_def flush_start_frame)
  show "\<And>r. ref_ok r \<Longrightarrow> ref_vcpu r = v \<Longrightarrow> pending (desc r s') \<Longrightarrow> pending (desc r s)"
    "\<And>r. ref_ok r \<Longrightarrow> ref_vcpu r = v \<Longrightarrow> pending (desc r s) \<Longrightarrow> pending (desc r s') \<or> resident (ref_id r) (vctx s' v)"
    "\<And>n. resident n (vctx s v) \<Longrightarrow> resident n (vctx s' v)"
    using flow unfolding flow_def same flush_start_frame res by blast+
  show "\<And>r. ref_ok r \<Longrightarrow> ref_vcpu r = v \<Longrightarrow> its_enabled (vgic s) \<or> (\<exists>i. r = Irq v i) \<Longrightarrow> pending (desc r s) \<Longrightarrow>
      vgic_irq_deliverable v (desc r s') s' \<Longrightarrow> delivered k v r s'"
    using del unfolding dl by (simp add: delivered_def same flush_start_frame)
  show "\<And>n. listed n (vctx s' v) \<Longrightarrow> listed n (vctx s v) \<or>
      (\<exists>r. ref_ok r \<and> ref_vcpu r = v \<and> ref_id r = n \<and> pending (desc r s) \<and> vgic_irq_deliverable v (desc r s') s')"
    using flow unfolding flow_def same dl' flush_start_frame res by blast
  assume "c \<or> vgicv3_vcpu_is_loaded v s"
  then have ld: "c \<or> vgicv3_vcpu_is_loaded v ?u" using vgo_loaded [OF go] vgo_loaded [OF u] by simp
  have k: "hw_lr_count ?u = k" "ctx_wf k (vctx ?u v)" using vgo_vinv [OF u] by (auto intro: vinv_hw_count vinv_ctx)
  have "ich_lr (live s') i = (if i < used_lrs (vctx s' v) then lr (vctx s' v) i else 0)" if "i < k" for i
    using live_after_write(1) [OF ld] that k(1) by (simp add: s')
  moreover have "ich_hcr (live s') = vgicv3_control_hcr (hcr (vctx s' v))"
    using ld by (simp add: s' vgicv3_write_loaded_lrs_def vgicv3_write_lrs_hcr_def vgicv3_write_lrs_def write_ich_hcr_el2_def)
  ultimately show "ich_hcr (live s') = vgicv3_control_hcr (hcr (vctx s' v)) \<and>
      (\<forall>i < k. ich_lr (live s') i = (if i < used_lrs (vctx s' v) then lr (vctx s' v) i else 0))"
    by simp
qed

end
