(* ===== verification/Vgic_Calls.thy ===== *)
theory Vgic_Calls
  imports Vgic_Flush
begin

text \<open>
  The calls into the virtual interrupt controller (\<^verbatim>\<open>arch/arm64/guest/vgicv3.c\<close>): injecting, clearing
  and deasserting interrupts, generating SGIs, the trapped CPU-interface registers, the maintenance
  interrupt, idling in WFI, and moving a vCPU on and off a CPU. Each call holds the vGIC lock, so
  it is one function of the state. \<open>None\<close> is a panic of the scheduler.
\<close>

section \<open>Requests to a vCPU\<close>

definition ARM64_VCPU_REQUEST_EVENT :: u32 where "ARM64_VCPU_REQUEST_EVENT = 1"

definition kick_vcpu :: "nat \<Rightarrow> vsys \<Rightarrow> vsys" where
  "kick_vcpu v s =
     (let p = pcpuid_from_vcpu v s
      in if here s \<noteq> p \<and> get_running_vcpu p s = Some v then s\<lparr>kicks := kicks s @ [p]\<rparr> else s)"

definition vcpu_make_request :: "nat \<Rightarrow> u32 \<Rightarrow> vsys \<Rightarrow> vsys option" where
  "vcpu_make_request v eventid s =
     (let s = s\<lparr>pending_req := (pending_req s)(v := bitmap_set eventid (pending_req s v))\<rparr>
      in case request_thread_priority (thread_obj s v) (host s) of None \<Rightarrow> None
         | Some h \<Rightarrow> Some (kick_vcpu v (s\<lparr>host := h\<rparr>)))"

definition signal_vcpu :: "nat \<Rightarrow> vsys \<Rightarrow> vsys option" where
  "signal_vcpu v s =
     (case signal_event (intr_event s v) (host s) of None \<Rightarrow> None
      | Some (e, h) \<Rightarrow> Some (s\<lparr>host := h, intr_event := (intr_event s)(v := e)\<rparr>))"

definition request_and_signal :: "nat \<Rightarrow> vsys \<Rightarrow> vsys option" where
  "request_and_signal v s =
     (case vcpu_make_request v ARM64_VCPU_REQUEST_EVENT s of None \<Rightarrow> None | Some s \<Rightarrow> signal_vcpu v s)"

section \<open>Synchronise and flush\<close>

definition arm64_vgicv3_sync_vcpu :: "nat \<Rightarrow> vsys \<Rightarrow> vsys" where
  "arm64_vgicv3_sync_vcpu v s = (if initialized (vgic s) then vgicv3_sync_vcpu v False s else s)"

definition arm64_vgicv3_sync_current_vcpu :: "nat \<Rightarrow> vsys \<Rightarrow> vsys" where
  "arm64_vgicv3_sync_current_vcpu v s = (if initialized (vgic s) then vgicv3_sync_vcpu v True s else s)"

definition arm64_vgicv3_flush_vcpu :: "nat \<Rightarrow> vsys \<Rightarrow> vsys" where
  "arm64_vgicv3_flush_vcpu v s = (if initialized (vgic s) then vgicv3_flush_vcpu v False s else s)"

definition arm64_vgicv3_flush_current_vcpu :: "nat \<Rightarrow> vsys \<Rightarrow> vsys" where
  "arm64_vgicv3_flush_current_vcpu v s = (if initialized (vgic s) then vgicv3_flush_vcpu v True s else s)"

definition arm64_vgicv3_flush_current_vcpu_with_lock :: "nat \<Rightarrow> vsys \<Rightarrow> vsys" where
  "arm64_vgicv3_flush_current_vcpu_with_lock v s = (if initialized (vgic s) then vgicv3_flush_vcpu v True s else s)"

definition vgicv3_flush_target_vcpu :: "nat \<Rightarrow> nat \<Rightarrow> vsys \<Rightarrow> vsys" where
  "vgicv3_flush_target_vcpu current target s = vgicv3_flush_vcpu target (target = current) s"

definition vgicv3_flush_vm :: "nat \<Rightarrow> vsys \<Rightarrow> vsys" where
  "vgicv3_flush_vm current s = fold (vgicv3_flush_target_vcpu current) [0..<created_vcpus s] s"

definition arm64_vgicv3_refresh_current_level_irq :: "nat \<Rightarrow> vsys \<Rightarrow> vsys" where
  "arm64_vgicv3_refresh_current_level_irq n s =
     (case get_running_vcpu (here s) s of None \<Rightarrow> s
      | Some v \<Rightarrow>
          if n < ARM64_VGIC_IRQ_NUM \<and> initialized (vgic s)
          then (case vgic_irq_desc v n s of None \<Rightarrow> s
                | Some r \<Rightarrow> if level (desc r s) \<and> pending (desc r s)
                            then vgicv3_flush_vcpu v True (vgicv3_sync_vcpu v True s) else s)
          else s)"

definition arm64_vgicv3_maintenance_irq_handler :: "vsys \<Rightarrow> vsys" where
  "arm64_vgicv3_maintenance_irq_handler s =
     (case get_running_vcpu (here s) s of None \<Rightarrow> s
      | Some v \<Rightarrow> vgicv3_flush_vcpu v True (vgicv3_sync_vcpu v True s))"

section \<open>Injection\<close>

definition vgic_inject_locked :: "nat \<Rightarrow> nat \<Rightarrow> bool \<Rightarrow> vsys \<Rightarrow> int \<times> vsys" where
  "vgic_inject_locked t n lvl s =
     (case vgic_irq_desc t n s of None \<Rightarrow> (- EINVAL, s)
      | Some r \<Rightarrow>
          (let s = vgicv3_sync_vcpu t False s;
               s = set_desc r (\<lambda>d. d\<lparr>level := lvl\<rparr>) s;
               s = vgic_set_pending t r True s;
               s = (if vgicv3_vcpu_is_loaded t s then vgicv3_flush_vcpu t False s else s)
           in (0, s)))"

definition arm64_vgicv3_inject_irq_to :: "nat \<Rightarrow> nat \<Rightarrow> bool \<Rightarrow> vsys \<Rightarrow> (int \<times> vsys) option" where
  "arm64_vgicv3_inject_irq_to t n lvl s =
     (if n < ARM64_VGIC_IRQ_NUM \<and> initialized (vgic s)
      then (let (ret, s) = vgic_inject_locked t n lvl s
            in if ret = 0 then map_option (Pair ret) (request_and_signal t s) else Some (ret, s))
      else Some (- EINVAL, s))"

definition arm64_vgicv3_inject_irq :: "nat \<Rightarrow> nat \<Rightarrow> bool \<Rightarrow> vsys \<Rightarrow> (int \<times> vsys) option" where
  "arm64_vgicv3_inject_irq v n lvl s =
     (if n < ARM64_VGIC_IRQ_NUM \<and> initialized (vgic s)
      then (let t = vgic_irq_target_vcpu v n s;
                (ret, s) = vgic_inject_locked t n lvl s
            in if ret = 0 then map_option (Pair ret) (request_and_signal t s) else Some (ret, s))
      else Some (- EINVAL, s))"

definition arm64_vgicv3_clear_irq :: "nat \<Rightarrow> nat \<Rightarrow> vsys \<Rightarrow> (int \<times> vsys) option" where
  "arm64_vgicv3_clear_irq v n s =
     (case vgic_irq_desc v n s of None \<Rightarrow> Some (- EINVAL, s)
      | Some r \<Rightarrow>
          (let s = vgicv3_sync_vcpu v False s;
               s = (case find_lr_for_virq (vctx s v) n of None \<Rightarrow> s | Some i \<Rightarrow> upd_ctx v (remove_lr i) s);
               s = vgic_set_pending v r False s;
               s = set_desc r (\<lambda>d. d\<lparr>active := False\<rparr>) s;
               s = (if vgicv3_vcpu_is_loaded v s then vgicv3_flush_vcpu v False s else s)
           in map_option (Pair 0) (vcpu_make_request v ARM64_VCPU_REQUEST_EVENT s)))"

definition arm64_vgicv3_deassert_irq :: "nat \<Rightarrow> nat \<Rightarrow> vsys \<Rightarrow> (int \<times> vsys) option" where
  "arm64_vgicv3_deassert_irq v n s =
     (case vgic_irq_desc v n s of None \<Rightarrow> Some (- EINVAL, s)
      | Some r \<Rightarrow>
          (let s = vgicv3_sync_vcpu v False s;
               s = vgic_set_pending v r False s;
               s = vgic_update_irq_lr v r s;
               s = (if vgicv3_vcpu_is_loaded v s then vgicv3_flush_vcpu v False s else s)
           in map_option (Pair 0) (vcpu_make_request v ARM64_VCPU_REQUEST_EVENT s)))"

section \<open>Software-generated interrupts\<close>

definition ICC_SGI1R_TARGET_LIST_MASK :: u64 where "ICC_SGI1R_TARGET_LIST_MASK = 0xffff"
definition ICC_SGI1R_AFF1_SHIFT :: nat where "ICC_SGI1R_AFF1_SHIFT = 16"
definition ICC_SGI1R_INTID_SHIFT :: nat where "ICC_SGI1R_INTID_SHIFT = 24"
definition ICC_SGI1R_INTID_MASK :: u64 where "ICC_SGI1R_INTID_MASK = 0xf"
definition ICC_SGI1R_IRM :: u64 where "ICC_SGI1R_IRM = push_bit 40 1"
definition ICC_SGI1R_AFF2_SHIFT :: nat where "ICC_SGI1R_AFF2_SHIFT = 32"
definition ICC_SGI1R_AFF3_SHIFT :: nat where "ICC_SGI1R_AFF3_SHIFT = 48"
definition ICC_SGI1R_AFF_MASK :: u64 where "ICC_SGI1R_AFF_MASK = 0xff"

definition sgi1r_targets_vcpu :: "u64 \<Rightarrow> nat \<Rightarrow> nat \<Rightarrow> bool" where
  "sgi1r_targets_vcpu value source target \<longleftrightarrow>
     (if value AND ICC_SGI1R_IRM \<noteq> 0 then target \<noteq> source
      else
        (let aff1 = drop_bit ICC_SGI1R_AFF1_SHIFT value AND ICC_SGI1R_AFF_MASK;
             aff2 = drop_bit ICC_SGI1R_AFF2_SHIFT value AND ICC_SGI1R_AFF_MASK;
             aff3 = drop_bit ICC_SGI1R_AFF3_SHIFT value AND ICC_SGI1R_AFF_MASK;
             target_list = value AND ICC_SGI1R_TARGET_LIST_MASK
         in aff1 = 0 \<and> aff2 = 0 \<and> aff3 = 0 \<and> target_list AND push_bit target 1 \<noteq> 0))"

definition sgi_intid :: "u64 \<Rightarrow> nat" where
  "sgi_intid value = unat (drop_bit ICC_SGI1R_INTID_SHIFT value AND ICC_SGI1R_INTID_MASK)"

fun sgi_loop :: "nat \<Rightarrow> u64 \<Rightarrow> nat list \<Rightarrow> vsys \<Rightarrow> vsys option" where
  "sgi_loop v value [] s = Some s"
| "sgi_loop v value (t # ts) s =
     (if state s t \<noteq> VCPU_OFFLINE \<and> sgi1r_targets_vcpu value v t
      then (case arm64_vgicv3_inject_irq_to t (sgi_intid value) False s of None \<Rightarrow> None
            | Some (ret, s) \<Rightarrow> sgi_loop v value ts (if state s t = VCPU_RUNNING then kick_vcpu t s else s))
      else sgi_loop v value ts s)"

definition arm64_vgicv3_handle_sgi1r :: "nat \<Rightarrow> u64 \<Rightarrow> vsys \<Rightarrow> (int \<times> vsys) option" where
  "arm64_vgicv3_handle_sgi1r v value s = map_option (Pair 0) (sgi_loop v value [0..<created_vcpus s] s)"

section \<open>The timer line\<close>

definition vgicv3_sync_timer_line_locked :: "nat \<Rightarrow> bool \<Rightarrow> bool \<Rightarrow> vsys \<Rightarrow> vsys" where
  "vgicv3_sync_timer_line_locked v is_current line_asserted s =
     (let n = ARM64_GIC_PPI_VIRTUAL_TIMER;
          s = upd_gctx v (timer_virq_update (\<lambda>_. n)) s
      in case vgic_irq_desc v n s of None \<Rightarrow> s
         | Some r \<Rightarrow>
             (let s = set_desc r (\<lambda>d. d\<lparr>level := True\<rparr>) s;
                  s = vgic_set_pending v r line_asserted s;
                  s = (case find_lr_for_virq (vctx s v) n of None \<Rightarrow> s
                       | Some i \<Rightarrow>
                           (let lr_active = st_active (lr_state (lr (vctx s v) i))
                            in if line_asserted \<or> lr_active
                               then upd_ctx v (set_lr i (make_lr_state (desc r s) line_asserted lr_active)) s
                               else upd_ctx v (remove_lr i) s));
                  s = vtimer_set_host_mask v line_asserted s;
                  s = (if \<not> line_asserted then cntv_timer_arm v s else cntv_timer_disarm v s)
              in vgicv3_flush_vcpu v is_current s))"

definition arm64_vgicv3_sync_current_timer_line :: "nat \<Rightarrow> bool \<Rightarrow> vsys \<Rightarrow> vsys" where
  "arm64_vgicv3_sync_current_timer_line v line s =
     (if \<not> initialized (vgic s) then s
      else vgicv3_sync_timer_line_locked v True line (vgicv3_sync_vcpu v True s))"

section \<open>The trapped CPU interface\<close>

definition vgicv3_deactivate_irq_locked :: "nat \<Rightarrow> nat \<Rightarrow> vsys \<Rightarrow> vsys" where
  "vgicv3_deactivate_irq_locked v n s =
     (if n \<ge> ARM64_VGIC_IRQ_NUM then s
      else
        (let s = vgicv3_sync_vcpu v True s
         in case vgic_irq_desc v n s of None \<Rightarrow> s
            | Some r \<Rightarrow>
                (let (keep_pending, s) =
                       (if vgic_is_vtimer_irq n \<and> vgicv3_vcpu_is_loaded v s then arm64_vtimer_sample_current v s
                        else (level (desc r s) \<and> pending (desc r s), s));
                     s = (case find_lr_for_virq (vctx s v) n of None \<Rightarrow> s | Some i \<Rightarrow> upd_ctx v (remove_lr i) s);
                     s = set_desc r (\<lambda>d. d\<lparr>active := False\<rparr>) s;
                     s = vgic_set_pending v r keep_pending s
                 in if vgic_is_vtimer_irq n then vtimer_set_host_mask v keep_pending s else s)))"

datatype cpuif_reg = ICC_PMR_EL1 | ICC_CTLR_EL1 | ICC_SRE_EL1 | ICC_IGRPEN1_EL1 | ICC_DIR_EL1 | ICC_RPR_EL1 | Other_Sysreg

text \<open>The access itself: whether control state changed and whether a flush is needed, besides the value read.\<close>

definition cpuif_read :: "arm64_vgicv3_vcpu_ctx \<Rightarrow> cpuif_reg \<Rightarrow> u64" where
  "cpuif_read c r =
     (case r of ICC_SRE_EL1 \<Rightarrow> sre c OR ICC_SRE_SRE
      | ICC_PMR_EL1 \<Rightarrow> pmr c
      | ICC_CTLR_EL1 \<Rightarrow> ctlr c
      | ICC_IGRPEN1_EL1 \<Rightarrow> if vmcr c AND ICH_VMCR_VENG1 \<noteq> 0 then 1 else 0
      | ICC_RPR_EL1 \<Rightarrow> ucast GIC_PRIORITY_LOWEST
      | _ \<Rightarrow> 0)"

definition cpuif_write :: "nat \<Rightarrow> cpuif_reg \<Rightarrow> u64 \<Rightarrow> vsys \<Rightarrow> bool \<times> bool \<times> vsys" where
  "cpuif_write v r x s =
     (case r of ICC_SRE_EL1 \<Rightarrow> (True, False, upd_ctx v (\<lambda>c. c\<lparr>sre := x OR ICC_SRE_SRE\<rparr>) s)
      | ICC_PMR_EL1 \<Rightarrow> (True, False, upd_ctx v (\<lambda>c. c\<lparr>pmr := x AND 0xff,
          vmcr := (vmcr c AND NOT (push_bit 24 0xff)) OR push_bit 24 (x AND 0xff)\<rparr>) s)
      | ICC_CTLR_EL1 \<Rightarrow> (True, False, upd_ctx v (\<lambda>c. c\<lparr>ctlr := 0, vmcr := vmcr c AND NOT ICH_VMCR_EOIM\<rparr>) s)
      | ICC_IGRPEN1_EL1 \<Rightarrow>
          (True, False, upd_ctx v (\<lambda>c. c\<lparr>vmcr := if x AND 1 \<noteq> 0 then vmcr c OR ICH_VMCR_VENG1 else vmcr c AND NOT ICH_VMCR_VENG1\<rparr>) s)
      | ICC_DIR_EL1 \<Rightarrow> (False, True, vgicv3_deactivate_irq_locked v (unat (x AND ICH_LR_VINTID_MASK)) s)
      | _ \<Rightarrow> (False, False, s))"

definition arm64_vgicv3_handle_cpuif_sysreg :: "nat \<Rightarrow> cpuif_reg \<Rightarrow> bool \<Rightarrow> u64 \<Rightarrow> vsys \<Rightarrow> int \<times> u64 \<times> vsys" where
  "arm64_vgicv3_handle_cpuif_sysreg v r rd x s =
     (if r = Other_Sysreg then (- EINVAL, x, s)
      else if rd then (0, cpuif_read (vctx s v) r, s)
      else
        (let (control_changed, flush_needed, s) = cpuif_write v r x s;
             s = (if control_changed \<and> vgicv3_vcpu_is_loaded v s then vgicv3_write_cpuif_control (vctx s v) s else s);
             s = (if control_changed \<or> flush_needed then vgicv3_flush_vcpu v True s else s)
         in (0, x, s)))"

section \<open>Idling and rescheduling\<close>

definition complete_wfi_lr :: "nat \<Rightarrow> nat \<Rightarrow> vsys \<Rightarrow> nat \<times> vsys" where
  "complete_wfi_lr v idx s =
     (let x = lr (vctx s v) idx; st = lr_state x; n = lr_vintid x
      in case vgic_irq_desc v n s of None \<Rightarrow> (Suc idx, s)
         | Some r \<Rightarrow>
             if \<not> level (desc r s) \<and> st = ICH_LR_STATE_ACTIVE
             then (idx, upd_ctx v (remove_lr idx) (set_desc r (\<lambda>d. d\<lparr>active := False\<rparr>) s))
             else
               (let (completed, removed, s) =
                      (if level (desc r s) \<and> vgic_is_vtimer_irq n \<and> st_active st then vgicv3_complete_timer_lr v r idx s
                       else (False, False, s))
                in if completed then (if removed then idx else Suc idx, s) else (Suc idx, s)))"

lemma complete_wfi_lr_ctx: "next_lr v idx s (complete_wfi_lr v idx s)"
proof (cases "vgic_irq_desc v (lr_vintid (lr (vctx s v) idx)) s")
  case None
  then show ?thesis by (simp add: complete_wfi_lr_def next_lr_def)
next
  case (Some r)
  obtain completed removed t where t: "vgicv3_complete_timer_lr v r idx s = (completed, removed, t)" by (metis prod_cases3)
  show ?thesis
    using next_lr_timer [OF t] by (auto simp: complete_wfi_lr_def Some t Let_def) (simp_all add: next_lr_def)
qed

function complete_wfi_loop :: "nat \<Rightarrow> nat \<Rightarrow> vsys \<Rightarrow> vsys" where
  "complete_wfi_loop v idx s =
     (if idx < used_lrs (vctx s v) then (case complete_wfi_lr v idx s of (idx, s) \<Rightarrow> complete_wfi_loop v idx s) else s)"
  by pat_completeness auto

termination
proof (relation "measure (\<lambda>(v, idx, s). used_lrs (vctx s v) - idx)")
  fix v idx s idx' s'
  assume "idx < used_lrs (vctx s v)" and "(idx', s') = complete_wfi_lr v idx s"
  then show "((v, idx', s'), v, idx, s) \<in> measure (\<lambda>(v, idx, s). used_lrs (vctx s v) - idx)"
    using complete_wfi_lr_ctx [of v idx s] by (auto simp: next_lr_def prod_eq_iff split_beta)
qed simp

declare complete_wfi_loop.simps [simp del]

definition arm64_vgicv3_complete_wfi_irqs :: "nat \<Rightarrow> vsys \<Rightarrow> vsys" where
  "arm64_vgicv3_complete_wfi_irqs v s =
     (if \<not> initialized (vgic s) then s
      else vgicv3_flush_vcpu v True (complete_wfi_loop v 0 (vgicv3_sync_vcpu v True s)))"

text \<open>The scan of one bitmap word for an interrupt that satisfies \<open>P\<close>.\<close>

function scan_bits :: "(nat \<Rightarrow> bool) \<Rightarrow> nat \<Rightarrow> u32 \<Rightarrow> bool" where
  "scan_bits P word bits =
     (if bits = 0 then False
      else
        (let b = unat (ffs64 (ucast bits))
         in P (word * 32 + b) \<or> scan_bits P word (bits AND NOT (BIT32 b))))"
  by pat_completeness auto

termination
  by (relation "measure (\<lambda>(P, word, bits). unat bits)") (auto simp: bits_less)

declare scan_bits.simps [simp del]

definition pending_needs_lr :: "nat \<Rightarrow> vsys \<Rightarrow> bool" where
  "pending_needs_lr v s \<longleftrightarrow>
     (\<exists>word \<in> set [0..<ARM64_VGIC_WORDS].
        scan_bits (\<lambda>i. let d = desc (Irq v i) s
          in pending d \<and> vgic_irq_deliverable v d s \<and> (\<not> level d \<or> find_lr_for_virq (vctx s v) i = None))
          word (pending_bitmap (vgic s) v word)) \<or>
     (its_enabled (vgic s) \<and>
      (\<exists>word \<in> set [0..<ARM64_VGIC_LPI_WORDS].
        scan_bits (\<lambda>i. let d = desc (Lpi v i) s in pending d \<and> vgic_irq_deliverable v d s)
          word (lpi_pending_bitmap (vgic s) v word)))"

definition arm64_vgicv3_has_pending_irq :: "nat \<Rightarrow> vsys \<Rightarrow> bool \<times> vsys" where
  "arm64_vgicv3_has_pending_irq v s =
     (if \<not> initialized (vgic s) then (False, s)
      else
        (let s = (if vgicv3_vcpu_is_loaded v s then vgicv3_sync_live_cpuif v s else s)
         in ((\<exists>idx \<in> set [0..<used_lrs (vctx s v)]. st_pending (lr_state (lr (vctx s v) idx))) \<or> pending_needs_lr v s, s)))"

definition vgicv3_pending_lr_blocks_reschedule :: "nat \<Rightarrow> u64 \<Rightarrow> vsys \<Rightarrow> bool" where
  "vgicv3_pending_lr_blocks_reschedule v x s \<longleftrightarrow>
     (if st_pending (lr_state x) then True
      else if st_active (lr_state x) \<and> vgicv3_vcpu_is_loaded v s then \<not> vgicv3_active_priority_empty s
      else False)"

definition arm64_vgicv3_pending_irq_blocks_reschedule :: "nat \<Rightarrow> vsys \<Rightarrow> bool \<times> vsys" where
  "arm64_vgicv3_pending_irq_blocks_reschedule v s =
     (if \<not> initialized (vgic s) then (False, s)
      else
        (let s = (if vgicv3_vcpu_is_loaded v s then vgicv3_sync_live_cpuif v s else s)
         in ((\<exists>idx \<in> set [0..<used_lrs (vctx s v)]. vgicv3_pending_lr_blocks_reschedule v (lr (vctx s v) idx) s) \<or>
             vgicv3_vcpu_is_loaded v s \<and> \<not> vgicv3_active_priority_empty s \<or> pending_needs_lr v s, s)))"

section \<open>Moving a vCPU on and off a CPU\<close>

definition arm64_vgicv3_load_vcpu :: "nat \<Rightarrow> vsys \<Rightarrow> vsys" where
  "arm64_vgicv3_load_vcpu v s =
     (let c = vctx s v
      in vgicv3_write_cpuif c (upd_live (\<lambda>r. r\<lparr>icc_sre := sre c OR ICC_SRE_SRE\<rparr>) s))"

definition arm64_vgicv3_save_vcpu :: "nat \<Rightarrow> vsys \<Rightarrow> vsys" where
  "arm64_vgicv3_save_vcpu v s =
     (let h = ich_hcr (live s);
          s = upd_ctx v (\<lambda>c. c\<lparr>hcr := h AND NOT (ICH_HCR_EOICOUNT_MASK OR ICH_HCR_TC)\<rparr>) s;
          s = vgicv3_sync_live_cpuif v s;
          s = upd_ctx v (\<lambda>c. c\<lparr>ap0r0 := ich_ap0r0 (live s), ap1r0 := ich_ap1r0 (live s)\<rparr>) s;
          s = upd_ctx v (vgicv3_read_lrs s) s
      in write_ich_hcr_el2 0 s)"

definition empty_ctx :: arm64_vgicv3_vcpu_ctx where
  "empty_ctx = \<lparr>lr = (\<lambda>_. 0), ap0r0 = 0, ap1r0 = 0, vmcr = 0, hcr = 0, sre = 0, pmr = 0, ctlr = 0, used_lrs = 0\<rparr>"

definition arm64_vgicv3_init_vcpu :: "nat \<Rightarrow> vsys \<Rightarrow> vsys" where
  "arm64_vgicv3_init_vcpu v s =
     (let s = upd_ctx v (\<lambda>_. empty_ctx\<lparr>hcr := ICH_HCR_EN, vmcr := ICH_VMCR_VENG1 OR ICH_VMCR_DEFAULT_MASK,
                sre := ICC_SRE_SRE, pmr := ucast GIC_PRIORITY_LOWEST, ctlr := 0\<rparr>) s;
          s = arm64_vtimer_init_vcpu v s
      in if v < ARM64_VGIC_MAX_VCPUS \<and> v < vcpu_count (vgic s)
         then s\<lparr>vgic := (vgic s)\<lparr>rdist_vcpu := (rdist_vcpu (vgic s))(v := v)\<rparr>\<rparr> else s)"

definition clear_irq_state :: "nat \<Rightarrow> desc_ref \<Rightarrow> vsys \<Rightarrow> vsys" where
  "clear_irq_state v r s = set_desc r (\<lambda>d. d\<lparr>active := False\<rparr>) (vgic_set_pending v r False s)"

definition vgicv3_clear_vcpu_boot_irqs :: "nat \<Rightarrow> vsys \<Rightarrow> vsys" where
  "vgicv3_clear_vcpu_boot_irqs v s =
     (let s = fold (\<lambda>n. clear_irq_state v (Irq v n)) [0..<ARM64_VGIC_LOCAL_IRQ_NUM] s
      in if its_enabled (vgic s) then fold (\<lambda>n. clear_irq_state v (Lpi v n)) [0..<ARM64_VGIC_LPI_NUM] s else s)"

definition arm64_vgicv3_reset_vcpu_boot_state :: "nat \<Rightarrow> vsys \<Rightarrow> vsys" where
  "arm64_vgicv3_reset_vcpu_boot_state v s =
     (let s = arm64_vgicv3_init_vcpu v (cntv_timer_disarm v s)
      in if \<not> initialized (vgic s) \<or> v \<ge> ARM64_VGIC_MAX_VCPUS then s else vgicv3_clear_vcpu_boot_irqs v s)"

end
