(* ===== verification/Stage2.thy ===== *)
theory Stage2
  imports Memory Mmu_Modify "HOL-Library.Disjoint_Sets"
begin

text \<open>
  The memory of a virtual machine: the stage-2 tables that \<^verbatim>\<open>arch/arm64/guest/vm.c\<close> builds from the
  RAM window of its configuration, and the guest-memory helpers of
  \<^verbatim>\<open>arch/arm64/guest/guest_memory.c\<close> by which the hypervisor itself reaches guest memory.  One page
  pool serves the tables of all VMs.  Physical memory, where the helpers copy bytes, is a map from
  addresses to bytes.
\<close>

section \<open>Configuration\<close>

record arch_vm_config =
  guest_ram_start :: u64
  guest_ram_size :: u64
  guest_ram_hpa :: u64
  guest_gicd_base :: u64
  guest_gicd_size :: u64
  guest_gicr_base :: u64
  guest_gicr_size :: u64
  guest_gicr_stride :: u64
  guest_its_base :: u64
  guest_its_size :: u64
  guest_uart_base :: u64
  guest_uart_size :: u64
  guest_uart_irq :: u32

section \<open>Stage-2 descriptors\<close>

definition PAGE_S2_MEMATTR_MASK :: u64 where "PAGE_S2_MEMATTR_MASK = push_bit 2 0xf"
definition PAGE_S2_MEMATTR_NORMAL :: u64 where "PAGE_S2_MEMATTR_NORMAL = push_bit 2 0xf"
definition PAGE_S2_S2AP_READ :: u64 where "PAGE_S2_S2AP_READ = push_bit 6 1"
definition PAGE_S2_S2AP_WRITE :: u64 where "PAGE_S2_S2AP_WRITE = push_bit 7 1"
definition PAGE_S2_S2AP_RW :: u64 where "PAGE_S2_S2AP_RW = PAGE_S2_S2AP_READ OR PAGE_S2_S2AP_WRITE"
definition PAGE_S2_SH_INNER :: u64 where "PAGE_S2_SH_INNER = push_bit 8 3"
definition PAGE_S2_AF :: u64 where "PAGE_S2_AF = push_bit 10 1"
definition PAGE_S2_ATTR_NORMAL :: u64 where
  "PAGE_S2_ATTR_NORMAL = PAGE_S2_MEMATTR_NORMAL OR PAGE_S2_S2AP_RW OR PAGE_S2_SH_INNER OR PAGE_S2_AF"

lemmas s2_attrs = PAGE_S2_MEMATTR_MASK_def PAGE_S2_MEMATTR_NORMAL_def PAGE_S2_S2AP_READ_def PAGE_S2_S2AP_WRITE_def
  PAGE_S2_S2AP_RW_def PAGE_S2_SH_INNER_def PAGE_S2_AF_def PAGE_S2_ATTR_NORMAL_def

definition stage2_large_page_support :: "page_table_level \<Rightarrow> u64 \<Rightarrow> bool" where
  "stage2_large_page_support level prot \<longleftrightarrow> level = PGT_LVL1 \<or> level = PGT_LVL2"

definition stage2_pgentry_present :: "u64 \<Rightarrow> u64" where
  "stage2_pgentry_present pte = pte AND PAGE_DESC_VALID"

definition stage2_leaf_desc_type :: "page_table_level \<Rightarrow> u64" where
  "stage2_leaf_desc_type level = (if level = PGT_LVL0 then PAGE_PAGE_DESC else PAGE_BLOCK_DESC)"

definition stage2_set_pgentry :: "pte_ptr \<Rightarrow> u64 \<Rightarrow> u64 \<Rightarrow> page_table_level \<Rightarrow> bool \<Rightarrow> mm \<Rightarrow> mm" where
  "stage2_set_pgentry pte page prot level is_leaf s =
     (let prot_tmp =
        (if \<not> is_leaf then PAGE_TABLE_DESC
         else
           let prot_tmp = (prot AND NOT PAGE_DESC_TYPE_MASK) OR stage2_leaf_desc_type level OR PAGE_S2_AF in
           if prot_tmp AND PAGE_S2_MEMATTR_MASK = 0 then prot_tmp OR PAGE_S2_ATTR_NORMAL else prot_tmp)
      in make_pgentry pte page prot_tmp s)"

definition stage2_pgtable :: pgtable where
  "stage2_pgtable = \<lparr>pgentry_present = stage2_pgentry_present, large_page_support = stage2_large_page_support,
     set_pgentry = stage2_set_pgentry\<rparr>"

section \<open>Building the tables of a VM\<close>

definition ARM64_STAGE2_PAGE_NUM :: nat where "ARM64_STAGE2_PAGE_NUM = 16 * 64"

record stage2_state =
  s2_mm :: mm
  stage2_page_pool_initialized :: bool

definition init_stage2_page_pool :: "u64 \<Rightarrow> stage2_state \<Rightarrow> stage2_state" where
  "init_stage2_page_pool stage2_pages st =
     (if \<not> stage2_page_pool_initialized st then
        st\<lparr>s2_mm := (s2_mm st)\<lparr>pool := init_page_pool stage2_pages ARM64_STAGE2_PAGE_NUM (pool (s2_mm st))\<rparr>,
          stage2_page_pool_initialized := True\<rparr>
      else st)"

text \<open>The checks of \<open>validate_stage2_ram_identity\<close>; where they fail the code panics.\<close>

definition validate_stage2_ram_identity :: "u64 \<Rightarrow> u64 \<Rightarrow> u64 \<Rightarrow> bool" where
  "validate_stage2_ram_identity mem_start mem_hpa mem_size \<longleftrightarrow>
     \<not> mem_hpa \<noteq> mem_start \<and> \<not> (mem_size = 0 \<or> mem_start + mem_size \<le> mem_start)"

definition zero_prot :: u64 where
  "zero_prot = PAGE_S2_MEMATTR_NORMAL OR PAGE_S2_S2AP_READ OR PAGE_S2_SH_INNER OR PAGE_S2_AF"

definition init_stage2_identity_map ::
  "u64 \<Rightarrow> u64 \<Rightarrow> arch_vm_config \<Rightarrow> stage2_state \<Rightarrow> (u64 \<times> stage2_state) option" where
  "init_stage2_identity_map stage2_pages stage2_zero_page arch_config st =
     (let mem_start = guest_ram_start arch_config; mem_size = guest_ram_size arch_config;
          mem_hpa = guest_ram_hpa arch_config;
          st = init_stage2_page_pool stage2_pages st
      in Option.bind (pgtable_create_root (s2_mm st)) (\<lambda>(root_stg2ptp, s).
         if root_stg2ptp = 0 then None
         else if \<not> validate_stage2_ram_identity mem_start mem_hpa mem_size then None
         else
           Option.bind (pgtable_add_map root_stg2ptp mem_hpa mem_start mem_size
               (PAGE_S2_ATTR_NORMAL OR PAGE_BLOCK_DESC) stage2_pgtable s) (\<lambda>s.
           Option.bind (pgtable_add_map root_stg2ptp (hva2hpa stage2_zero_page) 0 PAGE_SIZE zero_prot stage2_pgtable s) (\<lambda>s.
           Some (root_stg2ptp, st\<lparr>s2_mm := s\<rparr>)))))"

text \<open>Tearing a VM down leaves its tables as they are.\<close>

definition arch_deinit_vm :: "stage2_state \<Rightarrow> i32 \<times> stage2_state" where
  "arch_deinit_vm st = (0, st)"

text \<open>VMs are created and torn down in any order; the first component lists the tables built so far.\<close>

datatype vm_call = Init_vm arch_vm_config | Deinit_vm

fun vm_calls :: "u64 \<Rightarrow> u64 \<Rightarrow> vm_call list \<Rightarrow> (u64 \<times> arch_vm_config) list \<Rightarrow> stage2_state \<Rightarrow>
    ((u64 \<times> arch_vm_config) list \<times> stage2_state) option" where
  "vm_calls pages zp [] vms st = Some (vms, st)"
| "vm_calls pages zp (Init_vm c # cs) vms st =
     (case init_stage2_identity_map pages zp c st of None \<Rightarrow> None
      | Some (root, st) \<Rightarrow> vm_calls pages zp cs (vms @ [(root, c)]) st)"
| "vm_calls pages zp (Deinit_vm # cs) vms st = vm_calls pages zp cs vms (snd (arch_deinit_vm st))"

definition created :: "vm_call list \<Rightarrow> arch_vm_config list" where
  "created cs = concat (map (\<lambda>x. case x of Init_vm c \<Rightarrow> [c] | Deinit_vm \<Rightarrow> []) cs)"

section \<open>Guest memory seen by the hypervisor\<close>

definition gpa_range_is_valid :: "arch_vm_config \<Rightarrow> u64 \<Rightarrow> u32 \<Rightarrow> bool" where
  "gpa_range_is_valid arch_config gpa sz =
     (let ram_start = guest_ram_start arch_config; ram_size = guest_ram_size arch_config;
          ram_end = ram_start + ram_size; gpa_end = gpa + ucast sz
      in sz > 0 \<and> gpa_end \<ge> gpa \<and> ram_end \<ge> ram_start \<and> gpa \<ge> ram_start \<and> gpa_end \<le> ram_end)"

definition gpa2hpa :: "arch_vm_config \<Rightarrow> u64 \<Rightarrow> u64" where
  "gpa2hpa arch_config gpa =
     (let ram_start = guest_ram_start arch_config; ram_size = guest_ram_size arch_config in
      if gpa \<ge> ram_start \<and> gpa < ram_start + ram_size then guest_ram_hpa arch_config + (gpa - ram_start)
      else INVALID_HPA)"

definition gpa2hva :: "arch_vm_config \<Rightarrow> u64 \<Rightarrow> u64" where
  "gpa2hva arch_config x = (let hpa = gpa2hpa arch_config x in if hpa = INVALID_HPA then 0 else hpa2hva hpa)"

definition EFAULT :: i32 where "EFAULT = 14"

text \<open>\<open>memcpy\<close> from a buffer of the hypervisor into guest memory, byte by byte.\<close>

fun write_bytes :: "u64 \<Rightarrow> u8 list \<Rightarrow> phys \<Rightarrow> phys" where
  "write_bytes a [] m = m"
| "write_bytes a (b # bs) m = write_bytes (a + 1) bs (m(a := b))"

definition copy_from_gpa :: "arch_vm_config \<Rightarrow> u64 \<Rightarrow> u32 \<Rightarrow> phys \<Rightarrow> i32 \<times> u8 list" where
  "copy_from_gpa arch_config gpa sz m =
     (if sz = 0 then (0, [])
      else if gpa_range_is_valid arch_config gpa sz then
        let hva = gpa2hva arch_config gpa in (0, read_bytes m hva (unat sz))
      else (- EFAULT, []))"

definition copy_to_gpa :: "arch_vm_config \<Rightarrow> u8 list \<Rightarrow> u64 \<Rightarrow> u32 \<Rightarrow> phys \<Rightarrow> i32 \<times> phys" where
  "copy_to_gpa arch_config h gpa sz m =
     (if sz = 0 then (0, m)
      else if gpa_range_is_valid arch_config gpa sz then
        let hva = gpa2hva arch_config gpa in (0, write_bytes hva (take (unat sz) h) m)
      else (- EFAULT, m))"

section \<open>The stage-2 hooks\<close>

definition stage2_leaf :: "u64 \<Rightarrow> u64" where
  "stage2_leaf prot =
     (let p = (prot AND NOT PAGE_DESC_TYPE_MASK) OR PAGE_S2_AF in
      if p AND PAGE_S2_MEMATTR_MASK = 0 then p OR PAGE_S2_ATTR_NORMAL else p)"

lemma not_type_bits: "bit (NOT PAGE_DESC_TYPE_MASK) n \<longleftrightarrow> n < 64 \<and> 2 \<le> n"
  unfolding bit_not_iff PAGE_DESC_TYPE_MASK_def bit_3 by (auto simp: possible_bit_word)

lemma memattr_ignores_type: "(x OR stage2_leaf_desc_type lv) AND PAGE_S2_MEMATTR_MASK = x AND PAGE_S2_MEMATTR_MASK"
proof -
  have "stage2_leaf_desc_type lv AND PAGE_S2_MEMATTR_MASK = 0"
    by (simp add: stage2_leaf_desc_type_def PAGE_PAGE_DESC_def PAGE_BLOCK_DESC_def s2_attrs)
  then show ?thesis by (simp add: bit.conj_disj_distrib2)
qed

lemma stage2_set_leaf:
  "stage2_set_pgentry pte page prot lv True s =
     write_pte pte ((stage2_leaf prot OR (if lv = PGT_LVL0 then PAGE_PAGE_DESC else PAGE_BLOCK_DESC)) OR paddr2pfn page) s"
proof -
  let ?p = "(prot AND NOT PAGE_DESC_TYPE_MASK) OR PAGE_S2_AF"
  have "(prot AND NOT PAGE_DESC_TYPE_MASK) OR stage2_leaf_desc_type lv OR PAGE_S2_AF = ?p OR stage2_leaf_desc_type lv"
    by (simp add: ac_simps)
  then show ?thesis
    unfolding stage2_set_pgentry_def make_pgentry_def Let_def stage2_leaf_def
    by (simp add: memattr_ignores_type) (simp add: stage2_leaf_desc_type_def ac_simps)
qed

lemma stage2_leaf_cases:
  "stage2_leaf prot = (prot AND NOT PAGE_DESC_TYPE_MASK) OR PAGE_S2_AF \<or>
   stage2_leaf prot = ((prot AND NOT PAGE_DESC_TYPE_MASK) OR PAGE_S2_AF) OR PAGE_S2_ATTR_NORMAL"
  by (simp add: stage2_leaf_def Let_def)

lemma s2_consts: "PAGE_S2_ATTR_NORMAL AND PFN_MASK = 0" "PAGE_S2_ATTR_NORMAL AND 3 = 0" "PAGE_S2_AF AND PFN_MASK = 0"
  "PAGE_S2_AF AND 3 = 0" "PAGE_S2_ATTR_NORMAL AND PAGE_S2_MEMATTR_MASK = PAGE_S2_MEMATTR_MASK"
  "PAGE_S2_MEMATTR_MASK \<noteq> 0" "PAGE_S2_ATTR_NORMAL AND NOT PAGE_DESC_TYPE_MASK = PAGE_S2_ATTR_NORMAL"
  "PAGE_S2_AF AND NOT PAGE_DESC_TYPE_MASK = PAGE_S2_AF"
  by (simp_all add: s2_attrs PFN_MASK_def PAGE_DESC_TYPE_MASK_def)

interpretation stage2: pgt_hooks stage2_pgtable stage2_leaf
proof
  fix e pte page prot lv s
  show "pgentry_present stage2_pgtable e = e AND PAGE_DESC_VALID"
    by (simp add: stage2_pgtable_def stage2_pgentry_present_def)
  show "set_pgentry stage2_pgtable pte page prot lv False s = write_pte pte (PAGE_TABLE_DESC OR paddr2pfn page) s"
    by (simp add: stage2_pgtable_def stage2_set_pgentry_def make_pgentry_def)
  show "set_pgentry stage2_pgtable pte page prot lv True s =
      write_pte pte ((stage2_leaf prot OR (if lv = PGT_LVL0 then PAGE_PAGE_DESC else PAGE_BLOCK_DESC)) OR paddr2pfn page) s"
    by (simp add: stage2_pgtable_def stage2_set_leaf)
  have d: "(x OR y) AND z = (x AND z) OR (y AND z)" for x y z :: u64 by (rule bit.conj_disj_distrib2)
  show "stage2_leaf prot AND PFN_MASK = 0" if "prot AND PFN_MASK = 0"
  proof -
    have "(prot AND NOT PAGE_DESC_TYPE_MASK) AND PFN_MASK = (prot AND PFN_MASK) AND NOT PAGE_DESC_TYPE_MASK"
      by (simp only: ac_simps)
    then show ?thesis using stage2_leaf_cases [of prot] that s2_consts by (auto simp: d)
  qed
  have z3: "(prot AND NOT PAGE_DESC_TYPE_MASK) AND 3 = 0"
    by (simp add: PAGE_DESC_TYPE_MASK_def and.assoc)
  then show "stage2_leaf prot AND 3 = 0" using stage2_leaf_cases [of prot] s2_consts by (auto simp: d)
  show "stage2_leaf (stage2_leaf prot) = stage2_leaf prot"
  proof (cases "((prot AND NOT PAGE_DESC_TYPE_MASK) OR PAGE_S2_AF) AND PAGE_S2_MEMATTR_MASK = 0")
    case True
    then show ?thesis using s2_consts by (simp add: stage2_leaf_def Let_def d and.assoc or.assoc) (simp add: ac_simps)
  next
    case False
    then show ?thesis using s2_consts by (simp add: stage2_leaf_def Let_def d and.assoc or.assoc)
  qed
  show "stage2_leaf (prot AND NOT 3) = stage2_leaf prot"
    by (simp add: stage2_leaf_def PAGE_DESC_TYPE_MASK_def and.assoc)
qed

section \<open>What a VM sees\<close>

text \<open>
  A RAM window the platform may configure: identity-mapped, not empty, whole pages, below 2^48.
\<close>

definition ram_ok :: "arch_vm_config \<Rightarrow> bool" where
  "ram_ok c \<longleftrightarrow> guest_ram_hpa c = guest_ram_start c \<and> guest_ram_size c \<noteq> 0 \<and>
     unat (guest_ram_start c) mod lsz 0 = 0 \<and> unat (guest_ram_size c) mod lsz 0 = 0 \<and>
     unat (guest_ram_start c) + unat (guest_ram_size c) \<le> 2 ^ 48"

definition in_ram :: "arch_vm_config \<Rightarrow> u64 \<Rightarrow> bool" where
  "in_ram c gpa \<longleftrightarrow> unat (guest_ram_start c) \<le> unat gpa \<and> unat gpa < unat (guest_ram_start c) + unat (guest_ram_size c)"

definition stage2_view :: "u64 \<Rightarrow> arch_vm_config \<Rightarrow> u64 \<Rightarrow> xlat" where
  "stage2_view zero_page c gpa =
     (if in_ram c gpa then Some (unat gpa, PAGE_S2_ATTR_NORMAL)
      else if unat gpa < lsz 0 then Some (unat zero_page + unat gpa, zero_prot)
      else None)"

definition zero_ok :: "u64 \<Rightarrow> bool" where
  "zero_ok zero_page \<longleftrightarrow> unat zero_page mod lsz 0 = 0 \<and> unat zero_page + lsz 0 \<le> 2 ^ 48"

lemma round_exact:
  assumes "unat a mod lsz 0 = 0"
  shows "unat a < 2 ^ 48 \<Longrightarrow> round_page_up a = a" "round_page_down a = a"
proof -
  obtain k where k: "unat a = k * lsz 0" using assms by (auto elim: dvdE simp: mult.commute)
  have "(unat a + (lsz 0 - 1)) div lsz 0 * lsz 0 = unat a" unfolding k by (simp add: lsz_def)
  then show "round_page_up a = a" if "unat a < 2 ^ 48"
    by (simp only: word_unat_eq_iff unat_round_page_up [OF that])
  show "round_page_down a = a" by (simp add: word_unat_eq_iff unat_round_page_down k)
qed

lemma stage2_prots:
  "(PAGE_S2_ATTR_NORMAL OR PAGE_BLOCK_DESC) AND PFN_MASK = 0" "zero_prot AND PFN_MASK = 0"
  "stage2_leaf (PAGE_S2_ATTR_NORMAL OR PAGE_BLOCK_DESC) = PAGE_S2_ATTR_NORMAL" "stage2_leaf zero_prot = zero_prot"
  by (simp_all add: s2_attrs zero_prot_def PAGE_BLOCK_DESC_def PFN_MASK_def stage2_leaf_def PAGE_DESC_TYPE_MASK_def)

lemma ram_bounds:
  assumes "ram_ok c"
  shows "0 < unat (guest_ram_size c)" "unat (guest_ram_start c) < 2 ^ 48"
    "unat (guest_ram_start c + guest_ram_size c) = unat (guest_ram_start c) + unat (guest_ram_size c)"
proof -
  show p: "0 < unat (guest_ram_size c)" using assms by (simp add: ram_ok_def unat_gt_0)
  show "unat (guest_ram_start c) < 2 ^ 48" using p assms by (simp add: ram_ok_def)
  show "unat (guest_ram_start c + guest_ram_size c) = unat (guest_ram_start c) + unat (guest_ram_size c)"
    using assms by (intro unat_add_nowrap) (simp add: ram_ok_def)
qed

lemma ram_range:
  assumes "ram_ok c"
  shows "range_ok (guest_ram_start c) (guest_ram_size c)"
    "in_range (guest_ram_start c) (guest_ram_size c) gpa = in_ram c gpa"
    "validate_stage2_ram_identity (guest_ram_start c) (guest_ram_hpa c) (guest_ram_size c)"
proof -
  note b = ram_bounds [OF assms]
  have a: "unat (guest_ram_start c) mod lsz 0 = 0" "unat (guest_ram_size c) mod lsz 0 = 0"
    using assms by (simp_all only: ram_ok_def)
  note r = round_exact(1) [OF a(1) b(2)] round_exact(2) [OF a(2)]
  show "range_ok (guest_ram_start c) (guest_ram_size c)"
    "in_range (guest_ram_start c) (guest_ram_size c) gpa = in_ram c gpa"
    using assms by (simp_all add: ram_ok_def range_ok_def in_range_def in_ram_def r)
  show "validate_stage2_ram_identity (guest_ram_start c) (guest_ram_hpa c) (guest_ram_size c)"
    using assms b(1) unfolding validate_stage2_ram_identity_def word_le_nat_alt b(3) by (simp add: ram_ok_def)
qed

text \<open>The zero page at guest address 0, mapped once RAM is.\<close>

lemma page_one: "round_page_up 0 = 0" "round_page_down PAGE_SIZE = PAGE_SIZE" "unat PAGE_SIZE = lsz 0"
  by (simp_all add: round_page_up_def round_page_down_def PAGE_SIZE_def PAGE_SHIFT_def PAGE_MASK_def lsz_def)

lemma zero_round: "zero_ok zp \<Longrightarrow> round_page_up (hva2hpa zp) = zp"
  using round_exact(1) [of zp] by (simp add: zero_ok_def hva2hpa_def lsz_def del: mod_0_imp_dvd)

lemma zero_map_sound:
  assumes tb: "tbl stage2_leaf 3 s root" and z: "zero_ok zp"
    and r: "pgtable_add_map root (hva2hpa zp) 0 PAGE_SIZE zero_prot stage2_pgtable s = Some s'"
  shows "table_step stage2_leaf 3 root s s'"
    and "unat va < 2 ^ 48 \<Longrightarrow> xlate stage2_pgtable s' root va =
      (case xlate stage2_pgtable s root va of Some y \<Rightarrow> Some y
       | None \<Rightarrow> if unat va < lsz 0 then Some (unat zp + unat va, zero_prot) else None)"
proof -
  have b: "unat (round_page_up 0) + unat (round_page_down PAGE_SIZE) \<le> 2 ^ 48"
    "unat (round_page_up (hva2hpa zp)) + unat (round_page_down PAGE_SIZE) \<le> 2 ^ 48"
    using z by (simp_all add: page_one zero_round zero_ok_def lsz_def)
  note a = stage2.add_map_sound [OF tb b stage2_prots(2) r]
  show "table_step stage2_leaf 3 root s s'" by (rule a(1))
  show "unat va < 2 ^ 48 \<Longrightarrow> xlate stage2_pgtable s' root va =
      (case xlate stage2_pgtable s root va of Some y \<Rightarrow> Some y
       | None \<Rightarrow> if unat va < lsz 0 then Some (unat zp + unat va, zero_prot) else None)"
    using a(2) [of va] by (auto simp: page_one zero_round [OF z] stage2_prots add_eff_def split: option.splits)
qed

lemma zero_map_total:
  assumes tb: "tbl stage2_leaf 3 s root" and z: "zero_ok zp" and free: "3 \<le> nfree (pool s)"
  shows "\<exists>s'. pgtable_add_map root (hva2hpa zp) 0 PAGE_SIZE zero_prot stage2_pgtable s = Some s' \<and> nfree (pool s) \<le> nfree (pool s') + 3"
proof -
  have b: "unat (round_page_up 0) + unat (round_page_down PAGE_SIZE) \<le> 2 ^ 48"
    "unat (round_page_up (hva2hpa zp)) + unat (round_page_down PAGE_SIZE) \<le> 2 ^ 48"
    using z by (simp_all add: page_one zero_round zero_ok_def lsz_def)
  have c: "need w 3 0 (lsz 0) \<le> 3" for w
    by (simp add: need_3 slot_cost_def slots_def part_def lsz_def)
  show ?thesis
    using stage2.add_map_total [OF tb b stage2_prots(2)] c free
    by (simp add: page_one) (meson add_left_mono order_trans)
qed

section \<open>One VM\<close>

lemma stage2_large: "large_page_support stage2_pgtable PGT_LVL1 prot" "large_page_support stage2_pgtable PGT_LVL2 prot"
  by (simp_all add: stage2_pgtable_def stage2_large_page_support_def)

text \<open>The table of a VM in its final state, inside a pool it shares with others.\<close>

definition vm_table :: "u64 \<Rightarrow> mm \<Rightarrow> u64 \<times> arch_vm_config \<Rightarrow> bool" where
  "vm_table zp s = (\<lambda>(root, c). tbl stage2_leaf 3 s root \<and>
     (\<forall>gpa. unat gpa < 2 ^ 48 \<longrightarrow> xlate stage2_pgtable s root gpa = stage2_view zp c gpa))"

definition ram_cost :: "arch_vm_config \<Rightarrow> nat" where
  "ram_cost c = 4 + map_cost (guest_ram_start c) (guest_ram_size c)"

lemma map_vm_sound:
  assumes c: "ram_ok c" and z: "zero_ok zp" and mm: "mm_ok s" and al: "alloc_page s = Some (root, s0)"
    and a: "pgtable_add_map root (guest_ram_hpa c) (guest_ram_start c) (guest_ram_size c)
      (PAGE_S2_ATTR_NORMAL OR PAGE_BLOCK_DESC) stage2_pgtable s0 = Some s1"
    and b: "pgtable_add_map root (hva2hpa zp) 0 PAGE_SIZE zero_prot stage2_pgtable s1 = Some s2"
  shows "table_step stage2_leaf 3 root s0 s2" "vm_table zp s2 (root, c)"
proof -
  have id: "guest_ram_hpa c = guest_ram_start c" using c by (simp add: ram_ok_def)
  note f = fresh_root(1) [OF mm al, where la = stage2_leaf and k = 3] fresh_root(2) [OF mm al, where k = 3]
  have fresh: "xlate stage2_pgtable s0 root va = None" for va using stage2.xlate_walk [OF f(1)] f(2) by simp
  note i = stage2.identity_map [OF f(1) ram_range(1) [OF c] stage2_prots(1) a [unfolded id]]
  note j = zero_map_sound [OF table_step_tbl [OF i(1)] z b]
  show ts: "table_step stage2_leaf 3 root s0 s2" using table_step_trans [OF i(1) j(1)] .
  show "vm_table zp s2 (root, c)"
    using table_step_tbl [OF ts] j(2) i(2) fresh ram_range(2) [OF c] stage2_prots(3)
    by (simp add: vm_table_def stage2_view_def)
qed

lemma map_vm_total:
  assumes c: "ram_ok c" and z: "zero_ok zp" and mm: "mm_ok s" and free: "ram_cost c \<le> nfree (pool s)"
  obtains root s0 s1 s2 where "alloc_page s = Some (root, s0)"
    "pgtable_add_map root (guest_ram_hpa c) (guest_ram_start c) (guest_ram_size c)
      (PAGE_S2_ATTR_NORMAL OR PAGE_BLOCK_DESC) stage2_pgtable s0 = Some s1"
    "pgtable_add_map root (hva2hpa zp) 0 PAGE_SIZE zero_prot stage2_pgtable s1 = Some s2"
    "nfree (pool s) \<le> nfree (pool s2) + ram_cost c"
proof -
  have id: "guest_ram_hpa c = guest_ram_start c" using c by (simp add: ram_ok_def)
  have "pool_ok (pool s)" "0 < nfree (pool s)" using mm free by (simp_all add: mm_ok_def ram_cost_def)
  then obtain root s0 where al: "alloc_page s = Some (root, s0)" by (rule alloc_page_free)
  note f = fresh_root(1) [OF mm al, where la = stage2_leaf and k = 3] fresh_root(6) [OF mm al]
  have "map_cost (guest_ram_start c) (guest_ram_size c) \<le> nfree (pool s0)" using f(2) free by (simp add: ram_cost_def)
  from stage2.identity_total [OF f(1) ram_range(1) [OF c] stage2_prots(1) stage2_large this] id
  obtain s1 where a: "pgtable_add_map root (guest_ram_hpa c) (guest_ram_start c) (guest_ram_size c)
      (PAGE_S2_ATTR_NORMAL OR PAGE_BLOCK_DESC) stage2_pgtable s0 = Some s1"
    "nfree (pool s0) \<le> nfree (pool s1) + map_cost (guest_ram_start c) (guest_ram_size c)" by auto
  have t1: "tbl stage2_leaf 3 s1 root"
    using table_step_tbl [OF stage2.identity_map(1) [OF f(1) ram_range(1) [OF c] stage2_prots(1) a(1) [unfolded id]]] .
  have "3 \<le> nfree (pool s1)" using a(2) f(2) free by (simp add: ram_cost_def)
  then obtain s2 where "pgtable_add_map root (hva2hpa zp) 0 PAGE_SIZE zero_prot stage2_pgtable s1 = Some s2"
    "nfree (pool s1) \<le> nfree (pool s2) + 3" using zero_map_total [OF t1 z] by blast
  then show thesis using that al a f(2) by (simp add: ram_cost_def)
qed

section \<open>All VMs\<close>

text \<open>A table is untouched by changes outside its pages.\<close>

lemma table_frame:
  assumes "\<And>q. q \<in> table_pages k s pg \<Longrightarrow> cell s' q = cell s q"
  shows "table_pages k s' pg = table_pages k s pg" "walk_table k s' pg va = walk_table k s pg va"
    "table_wf la k s' pg = table_wf la k s pg"
proof -
  have pg: "cell s' pg = cell s pg" using assms by (simp add: table_pages_def)
  have sub: "slot_pages k s' (cell s pg i) = slot_pages k s (cell s pg i) \<and>
      (\<forall>va. walk_slot k s' (cell s pg i) va = walk_slot k s (cell s pg i) va) \<and>
      slot_wf la k s' (cell s pg i) = slot_wf la k s (cell s pg i)" if "i < 512" for i
    using assms that by (intro slot_frame) (auto simp: table_pages_def)
  show "table_pages k s' pg = table_pages k s pg" using sub pg by (simp add: table_pages_def)
  show "walk_table k s' pg va = walk_table k s pg va" using sub pg lidx_less by (simp add: walk_table_def)
  show "table_wf la k s' pg = table_wf la k s pg" using sub pg by (simp add: table_wf_def tree_def)
qed

lemma vm_table_frame:
  assumes "vm_table zp s (root, c)" "mm_ok s'" "used (pool s) \<subseteq> used (pool s')" "\<And>q. q \<in> used (pool s) \<Longrightarrow> cell s' q = cell s q"
  shows "vm_table zp s' (root, c)" "table_pages 3 s' root = table_pages 3 s root"
proof -
  have t: "tbl stage2_leaf 3 s root" using assms(1) by (simp add: vm_table_def)
  then have "cell s' q = cell s q" if "q \<in> table_pages 3 s root" for q using assms(4) that by (auto simp: tbl_def)
  note fr = table_frame [OF this]
  show "table_pages 3 s' root = table_pages 3 s root" using fr(1) .
  have t': "tbl stage2_leaf 3 s' root" using t assms(2,3) fr(1,3) by (auto simp: tbl_def)
  then show "vm_table zp s' (root, c)"
    using assms(1) fr(2) by (simp add: vm_table_def stage2.xlate_walk [OF t] stage2.xlate_walk [OF t'])
qed

text \<open>
  Every VM has its own table, the tables share no page, and no other page of the pool is in use.
\<close>

definition vms_ok :: "u64 \<Rightarrow> (u64 \<times> arch_vm_config) list \<Rightarrow> mm \<Rightarrow> bool" where
  "vms_ok zp vms s \<longleftrightarrow> mm_ok s \<and> (\<forall>v\<in>set vms. vm_table zp s v) \<and> distinct (map fst vms) \<and>
     disjoint_family_on (\<lambda>(root, c). table_pages 3 s root) (set vms) \<and>
     used (pool s) = (\<Union>(root, c)\<in>set vms. table_pages 3 s root)"

lemma map_vm_keeps:
  assumes "vms_ok zp vms s" "alloc_page s = Some (root, s0)" "table_step stage2_leaf 3 root s0 s'"
    "vm_table zp s' (root, c)"
  shows "vms_ok zp (vms @ [(root, c)]) s'"
proof -
  have mm: "mm_ok s" using assms(1) by (simp add: vms_ok_def)
  note f = fresh_root(3) [OF mm assms(2), where k = 3] fresh_root(4,5) [OF mm assms(2)] fresh_root(8) [OF mm assms(2)]
  have r: "used (pool s0) - table_pages 3 s0 root = used (pool s)" using f by auto
  have us: "used (pool s') = used (pool s) \<union> table_pages 3 s' root" "used (pool s) \<inter> table_pages 3 s' root = {}" "mm_ok s'"
    and "\<forall>q\<in>used (pool s). cell s' q = cell s0 q"
    using assms(3) unfolding table_step_def Let_def env_step_def r by auto
  then have ce: "cell s' q = cell s q" if "q \<in> used (pool s)" for q using f(3,4) that by metis
  have old: "vm_table zp s' v \<and> table_pages 3 s' (fst v) = table_pages 3 s (fst v) \<and> table_pages 3 s (fst v) \<subseteq> used (pool s)"
    if "v \<in> set vms" for v
    using vm_table_frame [of zp s "fst v" "snd v" s'] that assms(1) us(1,3) ce
    by (auto simp: vms_ok_def)
  have dis: "table_pages 3 s' (fst v) \<inter> table_pages 3 s' root = {}" if "v \<in> set vms" for v
    using old [OF that] us(2) by auto
  then have new: "root \<noteq> fst v" if "v \<in> set vms" for v
    using that by (auto simp: table_pages_def)
  have "disjoint_family_on (\<lambda>v. table_pages 3 s' (fst v)) (set vms)"
    using assms(1) old unfolding vms_ok_def disjoint_family_on_def by (simp add: case_prod_beta')
  then have "disjoint_family_on (\<lambda>v. table_pages 3 s' (fst v)) (insert (root, c) (set vms))"
    using dis unfolding disjoint_family_on_def by (simp add: Int_commute)
  moreover have "used (pool s') = (\<Union>v\<in>insert (root, c) (set vms). table_pages 3 s' (fst v))"
    using assms(1) old us(1) unfolding vms_ok_def by (simp add: case_prod_beta' Un_commute)
  moreover have "distinct (map fst (vms @ [(root, c)]))" using assms(1) new by (auto simp: vms_ok_def)
  ultimately show ?thesis
    unfolding vms_ok_def using us(3) assms(4) old by (simp add: case_prod_beta')
qed

text \<open>Between two calls: before the first VM the pool is not set up.\<close>

definition s2_mem_ok :: "u64 \<Rightarrow> stage2_state \<Rightarrow> bool" where
  "s2_mem_ok pages st \<longleftrightarrow> pages \<noteq> 0 \<and> unat pages mod lsz 0 = 0 \<and> unat pages + lsz 0 * ARM64_STAGE2_PAGE_NUM \<le> 2 ^ 48 \<and>
     last_hint_id (pool (s2_mm st)) = 0 \<and> sanitized_page_hpa (s2_mm st) = 0 \<and> \<not> stage2_page_pool_initialized st"

definition s2_inv :: "u64 \<Rightarrow> u64 \<Rightarrow> (u64 \<times> arch_vm_config) list \<Rightarrow> stage2_state \<Rightarrow> bool" where
  "s2_inv pages zp vms st \<longleftrightarrow>
     (if stage2_page_pool_initialized st then vms_ok zp vms (s2_mm st) \<and> pool_pages (pool (s2_mm st)) = 1024
      else vms = [] \<and> s2_mem_ok pages st)"

definition s2_free :: "stage2_state \<Rightarrow> nat" where
  "s2_free st = (if stage2_page_pool_initialized st then nfree (pool (s2_mm st)) else 1024)"

lemma pool_set_up:
  assumes "s2_inv pages zp vms st"
  defines "s \<equiv> s2_mm (init_stage2_page_pool pages st)"
  shows "vms_ok zp vms s" "pool_pages (pool s) = 1024" "nfree (pool s) = s2_free st"
proof -
  have "vms_ok zp vms s \<and> pool_pages (pool s) = 1024 \<and> nfree (pool s) = s2_free st"
  proof (cases "stage2_page_pool_initialized st")
    case True
    then show ?thesis using assms(1) by (simp add: s_def s2_inv_def s2_free_def init_stage2_page_pool_def)
  next
    case False
    then have m: "s2_mem_ok pages st" and v: "vms = []" using assms(1) by (simp_all add: s2_inv_def)
    have "pool s = init_page_pool pages (64 * 16) (pool (s2_mm st))" "sanitized_page_hpa s = 0"
      using False m by (simp_all add: s_def init_stage2_page_pool_def ARM64_STAGE2_PAGE_NUM_def s2_mem_ok_def)
    moreover note init_page_pool_ok [of pages 16 "pool (s2_mm st)"]
    ultimately show ?thesis
      using m v False
      by (simp add: vms_ok_def mm_ok_def s2_mem_ok_def ARM64_STAGE2_PAGE_NUM_def disjoint_family_on_def pool_pages_def
          init_page_pool_def s2_free_def)
  qed
  then show "vms_ok zp vms s" "pool_pages (pool s) = 1024" "nfree (pool s) = s2_free st" by simp_all
qed

lemma init_stage2_sound:
  assumes inv: "s2_inv pages zp vms st" and c: "ram_ok c" and z: "zero_ok zp"
    and r: "init_stage2_identity_map pages zp c st = Some (root, st')"
  shows "s2_inv pages zp (vms @ [(root, c)]) st'"
proof -
  let ?st = "init_stage2_page_pool pages st"
  note p = pool_set_up [OF inv]
  have mm: "mm_ok (s2_mm ?st)" using p(1) by (simp add: vms_ok_def)
  obtain s0 s1 s2 where al: "alloc_page (s2_mm ?st) = Some (root, s0)"
    and a: "pgtable_add_map root (guest_ram_hpa c) (guest_ram_start c) (guest_ram_size c)
      (PAGE_S2_ATTR_NORMAL OR PAGE_BLOCK_DESC) stage2_pgtable s0 = Some s1"
    and b: "pgtable_add_map root (hva2hpa zp) 0 PAGE_SIZE zero_prot stage2_pgtable s1 = Some s2"
    and st': "st' = ?st\<lparr>s2_mm := s2\<rparr>"
    using r by (auto simp: init_stage2_identity_map_def Let_def pgtable_create_root_def bind_eq_Some_conv split: if_splits)
  note m = map_vm_sound [OF c z mm al a b]
  have "stage2_page_pool_initialized ?st" by (simp add: init_stage2_page_pool_def)
  moreover have "pool_pages (pool s2) = pool_pages (pool (s2_mm ?st))"
    using fresh_root(7) [OF mm al] m(1)
    by (simp add: table_step_def env_step_def Let_def same_pool_def pool_pages_def)
  ultimately show ?thesis
    using map_vm_keeps [OF p(1) al m] p(2) by (simp add: s2_inv_def st')
qed

lemma init_stage2_total:
  assumes inv: "s2_inv pages zp vms st" and c: "ram_ok c" and z: "zero_ok zp" and free: "ram_cost c \<le> s2_free st"
  shows "\<exists>root st'. init_stage2_identity_map pages zp c st = Some (root, st') \<and> s2_free st \<le> s2_free st' + ram_cost c"
proof -
  let ?st = "init_stage2_page_pool pages st"
  note p = pool_set_up [OF inv]
  have mm: "mm_ok (s2_mm ?st)" using p(1) by (simp add: vms_ok_def)
  obtain root s0 s1 s2 where m: "alloc_page (s2_mm ?st) = Some (root, s0)"
    "pgtable_add_map root (guest_ram_hpa c) (guest_ram_start c) (guest_ram_size c)
      (PAGE_S2_ATTR_NORMAL OR PAGE_BLOCK_DESC) stage2_pgtable s0 = Some s1"
    "pgtable_add_map root (hva2hpa zp) 0 PAGE_SIZE zero_prot stage2_pgtable s1 = Some s2"
    "nfree (pool (s2_mm ?st)) \<le> nfree (pool s2) + ram_cost c"
    using map_vm_total [OF c z mm] free p(3) by metis
  have "pool_ok (pool (s2_mm ?st))" using mm by (simp add: mm_ok_def)
  then have "root \<noteq> 0" using alloc_pageD(1) m(1) region_page(1) by blast
  moreover have "stage2_page_pool_initialized ?st" by (simp add: init_stage2_page_pool_def)
  ultimately show ?thesis
    using m ram_range(3) [OF c] p(3)
    by (simp add: init_stage2_identity_map_def Let_def pgtable_create_root_def s2_free_def)
qed

lemma created_simps [simp]:
  "created [] = []" "created (Init_vm c # cs) = c # created cs" "created (Deinit_vm # cs) = created cs"
  by (simp_all add: created_def)

lemma vm_calls_sound:
  assumes "vm_calls pages zp cs vms st = Some (vms', st')" "s2_inv pages zp vms st" "zero_ok zp"
    "\<forall>c\<in>set (created cs). ram_ok c"
  shows "s2_inv pages zp vms' st' \<and> map snd vms' = map snd vms @ created cs"
  using assms
proof (induction pages zp cs vms st rule: vm_calls.induct)
  case (2 pages zp c cs vms st)
  then obtain root st1 where r: "init_stage2_identity_map pages zp c st = Some (root, st1)"
    and cs: "vm_calls pages zp cs (vms @ [(root, c)]) st1 = Some (vms', st')" by (auto split: option.splits)
  have "s2_inv pages zp (vms @ [(root, c)]) st1" using init_stage2_sound [OF 2(3) _ 2(4) r] 2(5) by simp
  then show ?case using "2.IH" [OF r refl cs] 2(4,5) by simp
qed (auto simp: arch_deinit_vm_def)

lemma vm_calls_total:
  assumes "s2_inv pages zp vms st" "zero_ok zp" "\<forall>c\<in>set (created cs). ram_ok c"
    "sum_list (map ram_cost (created cs)) \<le> s2_free st"
  shows "\<exists>vms' st'. vm_calls pages zp cs vms st = Some (vms', st')"
  using assms
proof (induction cs arbitrary: vms st)
  case (Cons x cs)
  show ?case
  proof (cases x)
    case (Init_vm c)
    have c: "ram_ok c" "ram_cost c \<le> s2_free st" using Cons.prems Init_vm by simp_all
    obtain root st1 where r: "init_stage2_identity_map pages zp c st = Some (root, st1)" "s2_free st \<le> s2_free st1 + ram_cost c"
      using init_stage2_total [OF Cons.prems(1) c(1) Cons.prems(2) c(2)] by blast
    show ?thesis
      using Cons.IH [OF init_stage2_sound [OF Cons.prems(1) c(1) Cons.prems(2) r(1)]] Cons.prems r Init_vm by simp
  qed (use Cons in \<open>simp add: arch_deinit_vm_def\<close>)
qed simp

lemma vms_fit: "s2_inv pages zp vms st \<Longrightarrow> length vms \<le> 1024"
proof -
  assume inv: "s2_inv pages zp vms st"
  note p = pool_set_up [OF inv]
  let ?pl = "pool (s2_mm (init_stage2_page_pool pages st))"
  have "set (map fst vms) \<subseteq> used ?pl" using p(1) by (auto simp: vms_ok_def table_pages_def)
  then have "set (map fst vms) \<subseteq> region ?pl" using used_region by blast
  then have "card (set (map fst vms)) \<le> card (region ?pl)" by (intro card_mono) (simp_all add: region_def)
  moreover have "card (region ?pl) \<le> 1024" unfolding region_def p(2) using card_image_le [of "{..<1024 :: nat}"] by simp
  moreover have "card (set (map fst vms)) = length vms" using p(1) distinct_card [of "map fst vms"] by (simp add: vms_ok_def)
  ultimately show "length vms \<le> 1024" by simp
qed

section \<open>Copies\<close>

lemma write_bytes_apply:
  assumes "length bs \<le> 2 ^ 64"
  shows "write_bytes a bs m x = (if unat (x - a) < length bs then bs ! unat (x - a) else m x)"
  using assms
proof (induction a bs m rule: write_bytes.induct)
  case (2 a b bs m)
  have ih: "write_bytes (a + 1) bs (m(a := b)) x = (if unat (x - (a + 1)) < length bs then bs ! unat (x - (a + 1)) else (m(a := b)) x)"
    by (rule "2.IH") (use "2.prems" in simp)
  have d: "x - a = 1 + (x - (a + 1))" by simp
  show ?case
  proof (cases "x = a")
    case False
    then have "unat (x - a) = Suc (unat (x - (a + 1)))" unfolding d by (intro unatSuc) (simp flip: d)
    then show ?thesis using False ih by simp
  next
    case True
    have "unat (- 1 :: u64) = 2 ^ 64 - 1" by (simp only: unsigned_minus_1_eq_mask mask_eq_exp_minus_1) simp
    then show ?thesis using "2.prems" True ih by simp
  qed
qed simp

lemma read_write_bytes: "length bs \<le> 2 ^ 64 \<Longrightarrow> read_bytes (write_bytes a bs m) a (length bs) = bs"
  by (rule nth_equalityI) (simp_all add: read_bytes_def write_bytes_apply unat_of_nat)

lemma unat_u32: "unat (x :: u32) < 2 ^ 32"
  using unsigned_less [of x, where 'a = nat] by simp

lemma valid_range:
  assumes "ram_ok c"
  shows "gpa_range_is_valid c gpa sz \<longleftrightarrow> sz \<noteq> 0 \<and> unat (guest_ram_start c) \<le> unat gpa \<and>
    unat gpa + unat sz \<le> unat (guest_ram_start c) + unat (guest_ram_size c)"
proof -
  note b = ram_bounds [OF assms]
  have s: "unat sz < 2 ^ 32" by (rule unat_u32)
  have e: "unat (ucast sz :: u64) = unat sz" using s by (simp add: unsigned_ucast_eq take_bit_nat_eq_self)
  have le: "unat (guest_ram_start c) + unat (guest_ram_size c) \<le> 2 ^ 48" using assms by (simp add: ram_ok_def)
  show ?thesis
  proof (cases "unat gpa + unat sz < 2 ^ 64")
    case True
    then have "unat (gpa + ucast sz) = unat gpa + unat sz" using e by (subst unat_add_nowrap) simp_all
    then show ?thesis
      using b(3) by (auto simp: gpa_range_is_valid_def Let_def word_le_nat_alt word_less_nat_alt unat_gt_0 unat_eq_0)
  next
    case False
    have g: "unat gpa < 2 ^ 64" using unsigned_less [of gpa] by simp
    have "unat (gpa + ucast sz) = unat gpa + unat sz - 2 ^ 64"
      using False g s e by (simp add: unat_word_ariths) (simp add: mod_if)
    then have "\<not> gpa \<le> gpa + ucast sz" using False s g by (simp add: word_le_nat_alt)
    then show ?thesis using False le by (auto simp: gpa_range_is_valid_def Let_def)
  qed
qed

lemma gpa_identity:
  assumes "ram_ok c" "in_ram c gpa"
  shows "gpa2hpa c gpa = gpa" "gpa2hva c gpa = gpa"
proof -
  have "unat gpa < 2 ^ 48" using assms by (simp add: in_ram_def ram_ok_def)
  then have "gpa \<noteq> INVALID_HPA" by (auto simp: INVALID_HPA_def)
  moreover show "gpa2hpa c gpa = gpa"
    using assms ram_bounds(3) [OF assms(1)]
    by (simp add: gpa2hpa_def Let_def ram_ok_def in_ram_def word_le_nat_alt word_less_nat_alt)
  ultimately show "gpa2hva c gpa = gpa" by (simp add: gpa2hva_def Let_def hpa2hva_def)
qed

lemma valid_in_ram:
  assumes "ram_ok c" "gpa_range_is_valid c gpa sz" "i < unat sz"
  shows "in_ram c (gpa + of_nat i)" "unat (gpa + of_nat i) = unat gpa + i"
proof -
  note v = valid_range [OF assms(1), of gpa sz]
  have "unat sz < 2 ^ 32" by (rule unat_u32)
  then have i: "unat (of_nat i :: u64) = i" using assms(3) by (intro unat_of_nat_64) simp
  have "unat gpa + i < 2 ^ 64" using v assms by (simp add: ram_ok_def)
  then show u: "unat (gpa + of_nat i) = unat gpa + i" using i by (subst unat_add_nowrap) simp_all
  show "in_ram c (gpa + of_nat i)" using v assms(2,3) by (simp add: in_ram_def u)
qed

section \<open>Properties\<close>

text \<open>
  C3: VMs do not interfere through their stage-2 tables.  However creations and tear-downs are
  ordered, as long as the table pages suffice no creation fails, every VM sees exactly its own
  RAM window one to one with normal read-write attributes, page 0 as the read-only zero page, and
  nothing else, so that every access to a device window traps; the tables of two VMs share no page,
  and the pages in use are those of the tables.
\<close>

theorem stage2_vms_isolated:
  assumes "s2_mem_ok pages st" "zero_ok zp" "\<forall>c\<in>set (created cs). ram_ok c" "sum_list (map ram_cost (created cs)) \<le> 1024"
  shows "\<exists>vms st'. vm_calls pages zp cs [] st = Some (vms, st') \<and> map snd vms = created cs \<and>
    (\<forall>(root, c)\<in>set vms. \<forall>gpa. unat gpa < 2 ^ 48 \<longrightarrow> xlate stage2_pgtable (s2_mm st') root gpa = stage2_view zp c gpa) \<and>
    disjoint_family_on (\<lambda>(root, c). table_pages 3 (s2_mm st') root) (set vms) \<and>
    (vms \<noteq> [] \<longrightarrow> used (pool (s2_mm st')) = (\<Union>(root, c)\<in>set vms. table_pages 3 (s2_mm st') root))"
proof -
  have inv: "s2_inv pages zp [] st" "s2_free st = 1024" using assms(1) by (simp_all add: s2_inv_def s2_free_def s2_mem_ok_def)
  obtain vms st' where r: "vm_calls pages zp cs [] st = Some (vms, st')"
    using vm_calls_total [OF inv(1) assms(2,3)] assms(4) inv(2) by auto
  have i: "s2_inv pages zp vms st'" "map snd vms = created cs" using vm_calls_sound [OF r inv(1) assms(2,3)] by simp_all
  then have "vms \<noteq> [] \<Longrightarrow> vms_ok zp vms (s2_mm st')" by (auto simp: s2_inv_def split: if_splits)
  then show ?thesis using r i(2)
    by (cases "vms = []") (auto simp: vms_ok_def vm_table_def disjoint_family_on_def)
qed

text \<open>Two VMs as on the QEMU platform.\<close>

definition sample_vm :: "u64 \<Rightarrow> arch_vm_config" where
  "sample_vm ram = \<lparr>guest_ram_start = ram, guest_ram_size = 0x10000000, guest_ram_hpa = ram,
     guest_gicd_base = 0x08000000, guest_gicd_size = 0x10000, guest_gicr_base = 0x080a0000, guest_gicr_size = 0x40000,
     guest_gicr_stride = 0x20000, guest_its_base = 0, guest_its_size = 0, guest_uart_base = 0x09000000,
     guest_uart_size = 0x1000, guest_uart_irq = 33\<rparr>"

definition sample_stage2 :: stage2_state where
  "sample_stage2 = \<lparr>s2_mm = \<lparr>pool = \<lparr>start_page = 0, bitmap = [], bitmap_size = 0, last_hint_id = 0, dummy_page = 0\<rparr>,
     cell = (\<lambda>_ _. 0), sanitized_page_hpa = 0\<rparr>, stage2_page_pool_initialized = False\<rparr>"

lemma sample_stage2_ok:
  "s2_mem_ok 0x48400000 sample_stage2" "zero_ok 0x48300000" "ram_ok (sample_vm 0x50000000)" "ram_ok (sample_vm 0x60000000)"
  "ram_cost (sample_vm 0x50000000) \<le> 20" "ram_cost (sample_vm 0x60000000) \<le> 20"
  by (simp_all add: s2_mem_ok_def sample_stage2_def zero_ok_def ram_ok_def sample_vm_def lsz_def ARM64_STAGE2_PAGE_NUM_def
      ram_cost_def map_cost_def slots_def round_page_up_def round_page_down_def PAGE_SIZE_def PAGE_MASK_def PAGE_SHIFT_def)

theorem stage2_vms_isolated_witness:
  "\<exists>r1 r2 st'. vm_calls 0x48400000 0x48300000 [Init_vm (sample_vm 0x50000000), Init_vm (sample_vm 0x60000000)] [] sample_stage2 =
       Some ([(r1, sample_vm 0x50000000), (r2, sample_vm 0x60000000)], st') \<and>
     xlate stage2_pgtable (s2_mm st') r1 0x50001234 = Some (0x50001234, PAGE_S2_ATTR_NORMAL) \<and>
     xlate stage2_pgtable (s2_mm st') r1 0x60001234 = None \<and>
     xlate stage2_pgtable (s2_mm st') r2 0x60001234 = Some (0x60001234, PAGE_S2_ATTR_NORMAL) \<and>
     xlate stage2_pgtable (s2_mm st') r2 0x09000000 = None"
proof -
  let ?cs = "[Init_vm (sample_vm 0x50000000), Init_vm (sample_vm 0x60000000)]"
  have ok: "\<forall>c\<in>set (created ?cs). ram_ok c" "sum_list (map ram_cost (created ?cs)) \<le> 1024"
    using sample_stage2_ok by simp_all
  obtain vms st' where r: "vm_calls 0x48400000 0x48300000 ?cs [] sample_stage2 = Some (vms, st')"
    and m: "map snd vms = created ?cs"
    and v: "\<forall>(root, c)\<in>set vms. \<forall>gpa. unat gpa < 2 ^ 48 \<longrightarrow>
      xlate stage2_pgtable (s2_mm st') root gpa = stage2_view 0x48300000 c gpa"
    using stage2_vms_isolated [OF sample_stage2_ok(1,2) ok] by blast
  obtain r1 r2 where vs: "vms = [(r1, sample_vm 0x50000000), (r2, sample_vm 0x60000000)]"
    using m by (auto simp: map_eq_Cons_conv)
  show ?thesis
    using r v unfolding vs by (intro exI [of _ r1] exI [of _ r2] exI [of _ st'])
      (simp add: stage2_view_def in_ram_def sample_vm_def lsz_def)
qed

text \<open>
  C34: Table pages are never given back.  Whatever the order of creations and tear-downs, the
  1025th creation fails at the latest, even if at most one VM is alive at a time.
\<close>

theorem stage2_pool_exhausted:
  assumes "s2_mem_ok pages st" "zero_ok zp" "\<forall>c\<in>set (created cs). ram_ok c" "1024 < length (created cs)"
  shows "vm_calls pages zp cs [] st = None"
proof (rule ccontr)
  assume "vm_calls pages zp cs [] st \<noteq> None"
  then obtain vms st' where r: "vm_calls pages zp cs [] st = Some (vms, st')" by auto
  have "s2_inv pages zp [] st" using assms(1) by (simp add: s2_inv_def s2_mem_ok_def)
  from vm_calls_sound [OF r this assms(2,3)] have i: "s2_inv pages zp vms st'" "map snd vms = created cs" by simp_all
  have "length vms = length (created cs)" using i(2) length_map [of snd vms] by simp
  then show False using vms_fit [OF i(1)] assms(4) by simp
qed

lemma created_cycles: "created (concat (replicate n [Init_vm c, Deinit_vm])) = replicate n c"
  by (induction n) simp_all

theorem stage2_pool_exhausted_witness:
  "vm_calls 0x48400000 0x48300000 (concat (replicate 1025 [Init_vm (sample_vm 0x50000000), Deinit_vm])) [] sample_stage2 = None"
  by (rule stage2_pool_exhausted [OF sample_stage2_ok(1,2)])
     (simp_all only: created_cycles length_replicate set_replicate_conv_if, use sample_stage2_ok(3) in simp_all)

text \<open>
  C18: The hypervisor and the guest agree on guest memory: the bytes that \<^verbatim>\<open>copy_from_gpa\<close> reads are
  those the guest sees at the same addresses through its stage-2 table.
\<close>

theorem guest_copy_agrees_with_stage2:
  assumes "s2_mem_ok pages st" "zero_ok zp" "ram_ok c" "ram_cost c \<le> 1024" "gpa_range_is_valid c gpa sz"
  shows "\<exists>root st'. init_stage2_identity_map pages zp c st = Some (root, st') \<and>
    copy_from_gpa c gpa sz m =
      (0, map (\<lambda>i. m (of_nat (fst (the (xlate stage2_pgtable (s2_mm st') root (gpa + of_nat i)))))) [0..<unat sz])"
proof -
  have inv: "s2_inv pages zp [] st" "s2_free st = 1024" using assms(1) by (simp_all add: s2_inv_def s2_free_def s2_mem_ok_def)
  obtain root st' where r: "init_stage2_identity_map pages zp c st = Some (root, st')"
    using init_stage2_total [OF inv(1) assms(3,2)] assms(4) inv(2) by auto
  have "s2_inv pages zp [(root, c)] st'" using init_stage2_sound [OF inv(1) assms(3,2) r] by simp
  then have v: "xlate stage2_pgtable (s2_mm st') root a = stage2_view zp c a" if "unat a < 2 ^ 48" for a
    using that by (auto simp: s2_inv_def vms_ok_def vm_table_def split: if_splits)
  have t: "of_nat (fst (the (xlate stage2_pgtable (s2_mm st') root (gpa + of_nat i)))) = gpa + of_nat i" if "i < unat sz" for i
  proof -
    note ir = valid_in_ram(1) [OF assms(3,5) that]
    then have "unat (gpa + of_nat i) < 2 ^ 48" using assms(3) by (simp add: in_ram_def ram_ok_def)
    then show ?thesis using v ir by (simp add: stage2_view_def)
  qed
  have nz: "sz \<noteq> 0" using assms(5) by (auto simp: gpa_range_is_valid_def)
  then have "in_ram c gpa" using valid_in_ram(1) [OF assms(3,5), of 0] by (simp add: unat_gt_0)
  then have "copy_from_gpa c gpa sz m = (0, read_bytes m gpa (unat sz))"
    using assms(5) nz gpa_identity(2) [OF assms(3)] by (simp add: copy_from_gpa_def Let_def)
  then show ?thesis using r t by (auto simp: read_bytes_def)
qed

theorem guest_copy_agrees_with_stage2_witness:
  "\<exists>root st'. init_stage2_identity_map 0x48400000 0x48300000 (sample_vm 0x50000000) sample_stage2 = Some (root, st') \<and>
    copy_from_gpa (sample_vm 0x50000000) 0x50000ffe 4 (\<lambda>a. ucast a) =
      (0, map (\<lambda>i. ucast (of_nat (fst (the (xlate stage2_pgtable (s2_mm st') root (0x50000ffe + of_nat i)))) :: u64)) [0..<4])"
  using guest_copy_agrees_with_stage2 [OF sample_stage2_ok(1,2,3), where gpa = "0x50000ffe" and sz = 4 and m = "\<lambda>a. ucast a"]
    sample_stage2_ok(5)
  by (simp add: gpa_range_is_valid_def sample_vm_def)

text \<open>
  C32: What is copied into a guest can be read back.  A copy succeeds exactly when it is empty or
  its whole range lies in the VM's RAM; it then changes memory only inside that RAM; otherwise it
  reports -EFAULT and changes nothing.
\<close>

theorem guest_copy_roundtrip:
  assumes "ram_ok c" "length h = unat sz"
  shows "case copy_to_gpa c h gpa sz m of (ret, m') \<Rightarrow>
    (ret = 0 \<longleftrightarrow> sz = 0 \<or> unat (guest_ram_start c) \<le> unat gpa \<and>
       unat gpa + unat sz \<le> unat (guest_ram_start c) + unat (guest_ram_size c)) \<and>
    (ret = 0 \<longrightarrow> copy_from_gpa c gpa sz m' = (0, h) \<and> (\<forall>a. m' a \<noteq> m a \<longrightarrow> in_ram c a)) \<and>
    (ret \<noteq> 0 \<longrightarrow> ret = - EFAULT \<and> m' = m)"
proof -
  have len: "length h \<le> 2 ^ 64" using assms(2) unat_u32 [of sz] by simp
  show ?thesis
  proof (cases "gpa_range_is_valid c gpa sz")
    case True
    then have nz: "sz \<noteq> 0" by (auto simp: gpa_range_is_valid_def)
    have "in_ram c gpa" using valid_in_ram(1) [OF assms(1) True, of 0] nz by (simp add: unat_gt_0)
    then have h: "gpa2hva c gpa = gpa" using gpa_identity(2) assms(1) by blast
    have "in_ram c a" if "write_bytes gpa h m a \<noteq> m a" for a
    proof -
      have "unat (a - gpa) < unat sz" using that assms(2) write_bytes_apply [OF len] by (auto split: if_splits)
      from valid_in_ram(1) [OF assms(1) True this] show ?thesis by simp
    qed
    then show ?thesis
      using True nz h assms(2) read_write_bytes [OF len] valid_range [OF assms(1), of gpa sz]
      by (simp add: copy_to_gpa_def copy_from_gpa_def Let_def)
  next
    case False
    then show ?thesis
      using assms(2) valid_range [OF assms(1), of gpa sz] by (auto simp: copy_to_gpa_def copy_from_gpa_def EFAULT_def)
  qed
qed

theorem guest_copy_roundtrip_witness:
  "(case copy_to_gpa (sample_vm 0x50000000) [1, 2, 3] 0x50000fff 3 (\<lambda>_. 0) of (ret, m') \<Rightarrow>
      ret = 0 \<and> copy_from_gpa (sample_vm 0x50000000) 0x50000fff 3 m' = (0, [1, 2, 3])) \<and>
   fst (copy_to_gpa (sample_vm 0x50000000) [1, 2, 3] 0x5fffffff 3 (\<lambda>_. 0)) = - EFAULT"
  using guest_copy_roundtrip [OF sample_stage2_ok(3), of "[1, 2, 3]" 3 "0x50000fff" "\<lambda>_. 0"]
    guest_copy_roundtrip [OF sample_stage2_ok(3), of "[1, 2, 3]" 3 "0x5fffffff" "\<lambda>_. 0"]
  by (auto simp: sample_vm_def split: prod.splits)

end
