(* ===== verification/Vits.thy ===== *)
theory Vits
  imports Vgic_Calls Stage2
begin

text \<open>
  The virtual interrupt translation service (\<^verbatim>\<open>arch/arm64/guest/vgicv3_its.c\<close>): tables of devices,
  events and collections that turn a message (device, event) into an LPI of a vCPU, and the command
  queue in guest memory by which the guest fills them. Table entries are named by their index. The
  queue is read through \<open>copy_from_gpa\<close> of the guest-memory component.
\<close>

section \<open>Constants\<close>

definition GITS_CTLR :: nat where "GITS_CTLR = 0x0000"
definition GITS_IIDR :: nat where "GITS_IIDR = 0x0004"
definition GITS_TYPER :: nat where "GITS_TYPER = 0x0008"
definition GITS_MPIDR :: nat where "GITS_MPIDR = 0x0018"
definition GITS_CBASER :: nat where "GITS_CBASER = 0x0080"
definition GITS_CWRITER :: nat where "GITS_CWRITER = 0x0088"
definition GITS_CREADR :: nat where "GITS_CREADR = 0x0090"
definition GITS_BASER :: nat where "GITS_BASER = 0x0100"
definition GITS_TRANSLATER :: nat where "GITS_TRANSLATER = 0x10040"
definition GITS_PIDR2 :: nat where "GITS_PIDR2 = 0xFFE8"
definition GITS_CIDR0 :: nat where "GITS_CIDR0 = 0xFFF0"
definition GITS_CIDR1 :: nat where "GITS_CIDR1 = 0xFFF4"
definition GITS_CIDR2 :: nat where "GITS_CIDR2 = 0xFFF8"
definition GITS_CIDR3 :: nat where "GITS_CIDR3 = 0xFFFC"

definition GITS_CTLR_ENABLE :: u32 where "GITS_CTLR_ENABLE = BIT32 0"
definition GITS_CTLR_QUIESCENT :: u32 where "GITS_CTLR_QUIESCENT = BIT32 31"
definition GITS_CBASER_VALID :: u64 where "GITS_CBASER_VALID = push_bit 63 1"
definition GITS_CBASER_ADDRESS_MASK :: u64 where "GITS_CBASER_ADDRESS_MASK = 0x0000fffffffff000"
definition GITS_CBASER_SIZE_MASK :: u64 where "GITS_CBASER_SIZE_MASK = 0xff"
definition GITS_CMD_ITT_ADDRESS_MASK :: u64 where "GITS_CMD_ITT_ADDRESS_MASK = 0x000fffffffffff00"
definition GITS_BASER_TYPE_SHIFT :: nat where "GITS_BASER_TYPE_SHIFT = 56"
definition GITS_BASER_ENTRY_SIZE_SHIFT :: nat where "GITS_BASER_ENTRY_SIZE_SHIFT = 48"
definition GITS_BASER_TYPE_DEVICE :: u32 where "GITS_BASER_TYPE_DEVICE = 1"
definition GITS_BASER_TYPE_COLLECTION :: u32 where "GITS_BASER_TYPE_COLLECTION = 4"
definition GITS_TYPER_PLPIS :: u64 where "GITS_TYPER_PLPIS = push_bit 0 1"
definition GITS_TYPER_ITT_ENTRY_SIZE_SHIFT :: nat where "GITS_TYPER_ITT_ENTRY_SIZE_SHIFT = 4"
definition GITS_TYPER_IDBITS_SHIFT :: nat where "GITS_TYPER_IDBITS_SHIFT = 8"
definition GITS_TYPER_DEVBITS_SHIFT :: nat where "GITS_TYPER_DEVBITS_SHIFT = 13"
definition GITS_CMD_SIZE :: u64 where "GITS_CMD_SIZE = 32"
definition GITS_CMD_MAPD :: nat where "GITS_CMD_MAPD = 0x08"
definition GITS_CMD_MAPC :: nat where "GITS_CMD_MAPC = 0x09"
definition GITS_CMD_MAPTI :: nat where "GITS_CMD_MAPTI = 0x0a"
definition GITS_CMD_MAPI :: nat where "GITS_CMD_MAPI = 0x0b"
definition GITS_CMD_MOVI :: nat where "GITS_CMD_MOVI = 0x01"
definition GITS_CMD_INT :: nat where "GITS_CMD_INT = 0x03"
definition GITS_CMD_CLEAR :: nat where "GITS_CMD_CLEAR = 0x04"
definition GITS_CMD_DISCARD :: nat where "GITS_CMD_DISCARD = 0x0f"
definition GITS_DEVBITS :: nat where "GITS_DEVBITS = 15"
definition GITS_ITT_ENTRY_SIZE :: nat where "GITS_ITT_ENTRY_SIZE = 16"
definition GITS_CMD_QUEUE_BUDGET :: nat where "GITS_CMD_QUEUE_BUDGET = 1024"

definition VGIC_ITS_PRIORITY_DEFAULT :: u8 where "VGIC_ITS_PRIORITY_DEFAULT = 0x80"
definition VGIC_ITS_INVALID_VCPU_ID :: nat where "VGIC_ITS_INVALID_VCPU_ID = 0xffff"
definition VGIC_ITS_PIDR2_ARCH_GICV3 :: u32 where "VGIC_ITS_PIDR2_ARCH_GICV3 = push_bit 4 3"

definition ARM64_VGIC_ITS_DEVICE_NUM :: nat where "ARM64_VGIC_ITS_DEVICE_NUM = 16"
definition ARM64_VGIC_ITS_EVENT_NUM :: nat where "ARM64_VGIC_ITS_EVENT_NUM = 32"
definition ARM64_VGIC_ITS_COLLECTION_NUM :: nat where "ARM64_VGIC_ITS_COLLECTION_NUM = ARM64_VGIC_MAX_VCPUS"
definition ARM64_VGIC_ITS_BASER_NUM :: nat where "ARM64_VGIC_ITS_BASER_NUM = 8"

definition vgic_its_baser_type :: "u32 \<Rightarrow> u32 \<Rightarrow> u64" where
  "vgic_its_baser_type t entry_size =
     push_bit GITS_BASER_TYPE_SHIFT (ucast t) OR push_bit GITS_BASER_ENTRY_SIZE_SHIFT (ucast (entry_size - 1))"

definition vits_offset_aligned :: "u64 \<Rightarrow> bool" where
  "vits_offset_aligned x \<longleftrightarrow> x AND (GITS_CMD_SIZE - 1) = 0"

definition vits_word_access :: "nat \<Rightarrow> nat \<Rightarrow> bool" where
  "vits_word_access offset sz \<longleftrightarrow> sz = 4 \<and> offset mod 4 = 0"

definition vits_irq_is_lpi :: "nat \<Rightarrow> bool" where
  "vits_irq_is_lpi n \<longleftrightarrow> n \<ge> ARM64_VGIC_LPI_BASE \<and> n < ARM64_VGIC_LPI_BASE + ARM64_VGIC_LPI_NUM"

definition vits_lpi_index :: "nat \<Rightarrow> nat" where "vits_lpi_index n = n - ARM64_VGIC_LPI_BASE"

definition vits_valid_target_vcpu :: "arm64_vgicv3 \<Rightarrow> nat \<Rightarrow> nat" where
  "vits_valid_target_vcpu g t = (if t < vcpu_count g then t else 0)"

section \<open>The tables\<close>

definition empty_device :: arm64_vits_device where
  "empty_device = \<lparr>device_id = 0, itt_addr = 0, event_count = 0, dev_valid = False\<rparr>"

definition empty_event :: arm64_vits_event where
  "empty_event = \<lparr>ev_device_id = 0, event_id = 0, lpi_id = 0, ev_collection = 0, ev_valid = False\<rparr>"

definition upd_its :: "(arm64_vits \<Rightarrow> arm64_vits) \<Rightarrow> vsys \<Rightarrow> vsys" where
  "upd_its f s = s\<lparr>vgic := (vgic s)\<lparr>its := f (its (vgic s))\<rparr>\<rparr>"

definition upd_device :: "nat \<Rightarrow> (arm64_vits_device \<Rightarrow> arm64_vits_device) \<Rightarrow> arm64_vits \<Rightarrow> arm64_vits" where
  "upd_device i f t = t\<lparr>its_device := (its_device t)(i := f (its_device t i))\<rparr>"

definition upd_event :: "nat \<times> nat \<Rightarrow> (arm64_vits_event \<Rightarrow> arm64_vits_event) \<Rightarrow> arm64_vits \<Rightarrow> arm64_vits" where
  "upd_event p f t = t\<lparr>its_event := (its_event t)(fst p := (its_event t (fst p))(snd p := f (its_event t (fst p) (snd p))))\<rparr>"

definition upd_collection :: "nat \<Rightarrow> (arm64_vits_collection \<Rightarrow> arm64_vits_collection) \<Rightarrow> arm64_vits \<Rightarrow> arm64_vits" where
  "upd_collection i f t = t\<lparr>collection := (collection t)(i := f (collection t i))\<rparr>"

definition arm64_vgicv3_its_init :: "arm64_vgicv3 \<Rightarrow> arm64_vgicv3" where
  "arm64_vgicv3_its_init g = g\<lparr>its :=
     \<lparr>its_ctlr = GITS_CTLR_QUIESCENT,
      its_typer = GITS_TYPER_PLPIS OR
        push_bit GITS_TYPER_ITT_ENTRY_SIZE_SHIFT (of_nat (GITS_ITT_ENTRY_SIZE - 1)) OR
        push_bit GITS_TYPER_IDBITS_SHIFT (of_nat (ARM64_VGIC_LPI_IDBITS - 1)) OR
        push_bit GITS_TYPER_DEVBITS_SHIFT (of_nat (GITS_DEVBITS - 1)),
      cbaser = 0, cwriter = 0, creadr = 0,
      baser = (\<lambda>_. 0)(0 := vgic_its_baser_type GITS_BASER_TYPE_DEVICE 8, 1 := vgic_its_baser_type GITS_BASER_TYPE_COLLECTION 8),
      collection = (\<lambda>i. \<lparr>collection_id = of_nat i, coll_target = i, coll_valid = i < vcpu_count g\<rparr>),
      its_device = (\<lambda>_. empty_device), its_event = (\<lambda>_ _. empty_event)\<rparr>\<rparr>"

definition vits_find_collection :: "arm64_vits \<Rightarrow> u16 \<Rightarrow> nat option" where
  "vits_find_collection t cid = List.find (\<lambda>i. collection_id (collection t i) = cid) [0..<ARM64_VGIC_ITS_COLLECTION_NUM]"

definition vits_find_device :: "arm64_vits \<Rightarrow> u32 \<Rightarrow> nat option" where
  "vits_find_device t d =
     List.find (\<lambda>i. dev_valid (its_device t i) \<and> device_id (its_device t i) = d) [0..<ARM64_VGIC_ITS_DEVICE_NUM]"

definition vits_alloc_device :: "arm64_vits \<Rightarrow> u32 \<Rightarrow> nat option \<times> arm64_vits" where
  "vits_alloc_device t d =
     (case List.find (\<lambda>i. \<not> dev_valid (its_device t i)) [0..<ARM64_VGIC_ITS_DEVICE_NUM] of
        None \<Rightarrow> (None, t)
      | Some i \<Rightarrow> (Some i, upd_device i (\<lambda>x. x\<lparr>device_id := d, dev_valid := True\<rparr>) t))"

fun find_event_from :: "arm64_vits \<Rightarrow> u32 \<Rightarrow> u32 \<Rightarrow> nat list \<Rightarrow> (nat \<times> nat) option" where
  "find_event_from t d e [] = None"
| "find_event_from t d e (i # is) =
     (if \<not> dev_valid (its_device t i) \<or> device_id (its_device t i) \<noteq> d then find_event_from t d e is
      else case List.find (\<lambda>j. ev_valid (its_event t i j) \<and> event_id (its_event t i j) = e) [0..<ARM64_VGIC_ITS_EVENT_NUM] of
             Some j \<Rightarrow> Some (i, j)
           | None \<Rightarrow> find_event_from t d e is)"

definition vits_find_event :: "arm64_vits \<Rightarrow> u32 \<Rightarrow> u32 \<Rightarrow> (nat \<times> nat) option" where
  "vits_find_event t d e = find_event_from t d e [0..<ARM64_VGIC_ITS_DEVICE_NUM]"

fun alloc_event_from :: "arm64_vits \<Rightarrow> u32 \<Rightarrow> u32 \<Rightarrow> nat list \<Rightarrow> (nat \<times> nat) option" where
  "alloc_event_from t d e [] = None"
| "alloc_event_from t d e (i # is) =
     (if \<not> dev_valid (its_device t i) \<or> device_id (its_device t i) \<noteq> d then alloc_event_from t d e is
      else if unat e \<ge> event_count (its_device t i) then None
      else case List.find (\<lambda>j. \<not> ev_valid (its_event t i j)) [0..<ARM64_VGIC_ITS_EVENT_NUM] of
             Some j \<Rightarrow> Some (i, j)
           | None \<Rightarrow> alloc_event_from t d e is)"

definition vits_alloc_event :: "arm64_vits \<Rightarrow> u32 \<Rightarrow> u32 \<Rightarrow> (nat \<times> nat) option \<times> arm64_vits" where
  "vits_alloc_event t d e =
     (case alloc_event_from t d e [0..<ARM64_VGIC_ITS_DEVICE_NUM] of
        None \<Rightarrow> (None, t)
      | Some p \<Rightarrow> (Some p, upd_event p (\<lambda>x. x\<lparr>ev_device_id := d, event_id := e, ev_valid := True\<rparr>) t))"

definition vits_target_vcpu_id :: "arm64_vgicv3 \<Rightarrow> u16 \<Rightarrow> nat" where
  "vits_target_vcpu_id g cid =
     (case vits_find_collection (its g) cid of None \<Rightarrow> VGIC_ITS_INVALID_VCPU_ID
      | Some i \<Rightarrow> if coll_valid (collection (its g) i) then vits_valid_target_vcpu g (coll_target (collection (its g) i))
                  else VGIC_ITS_INVALID_VCPU_ID)"

section \<open>Messages\<close>

definition vits_inject_event_locked :: "(nat \<times> nat) option \<Rightarrow> vsys \<Rightarrow> vsys option" where
  "vits_inject_event_locked ev s =
     (case ev of None \<Rightarrow> Some s
      | Some (i, j) \<Rightarrow>
          (let e = its_event (its (vgic s)) i j;
               target = vits_target_vcpu_id (vgic s) (ev_collection e)
           in if \<not> ev_valid e \<or> \<not> vits_irq_is_lpi (lpi_id e) \<or> target \<ge> vcpu_count (vgic s) then Some s
              else
                (let s = set_desc (Lpi target (vits_lpi_index (lpi_id e))) (\<lambda>d. d\<lparr>target_vcpu := target mod 256\<rparr>) s;
                     (ret, s) = vgic_inject_locked target (lpi_id e) False s
                 in if ret = 0 \<and> state s target \<noteq> VCPU_OFFLINE
                    then (case request_and_signal target s of None \<Rightarrow> None
                          | Some s \<Rightarrow> Some (if state s target = VCPU_RUNNING then kick_vcpu target s else s))
                    else Some s)))"

definition arm64_vgicv3_its_inject_msi :: "u32 \<Rightarrow> u32 \<Rightarrow> vsys \<Rightarrow> (int \<times> vsys) option" where
  "arm64_vgicv3_its_inject_msi d e s =
     (case vits_find_event (its (vgic s)) d e of None \<Rightarrow> Some (- EINVAL, s)
      | Some p \<Rightarrow> map_option (Pair 0) (vits_inject_event_locked (Some p) s))"

definition arm64_vgicv3_inject_msi :: "u32 \<Rightarrow> u32 \<Rightarrow> vsys \<Rightarrow> (int \<times> vsys) option" where
  "arm64_vgicv3_inject_msi d e s =
     (if initialized (vgic s) \<and> its_enabled (vgic s) then arm64_vgicv3_its_inject_msi d e s else Some (- EINVAL, s))"

section \<open>Commands\<close>

definition vits_drop_device :: "arm64_vits \<Rightarrow> u32 \<Rightarrow> arm64_vits" where
  "vits_drop_device t d =
     (case vits_find_device t d of None \<Rightarrow> t
      | Some i \<Rightarrow> upd_device i (\<lambda>_. empty_device)
          (t\<lparr>its_event := (its_event t)(i := (\<lambda>j. if j < ARM64_VGIC_ITS_EVENT_NUM then (its_event t i j)\<lparr>ev_valid := False\<rparr>
                                           else its_event t i j))\<rparr>))"

definition mapd_event_count :: "u64 \<Rightarrow> nat" where
  "mapd_event_count c1 =
     (let sz = unat (c1 AND 0x1f) + 1
      in min (if sz < 16 then 2 ^ sz else ARM64_VGIC_ITS_EVENT_NUM) ARM64_VGIC_ITS_EVENT_NUM)"

definition vits_mapd :: "u32 \<Rightarrow> u64 \<Rightarrow> u64 \<Rightarrow> bool \<Rightarrow> arm64_vits \<Rightarrow> arm64_vits" where
  "vits_mapd d c1 c2 valid t =
     (if \<not> valid then vits_drop_device t d
      else
        (let (dev, t) = (case vits_find_device t d of Some i \<Rightarrow> (Some i, t) | None \<Rightarrow> vits_alloc_device t d)
         in case dev of None \<Rightarrow> t
            | Some i \<Rightarrow>
                (let addr = c2 AND GITS_CMD_ITT_ADDRESS_MASK;
                     n = mapd_event_count c1;
                     t = (if itt_addr (its_device t i) \<noteq> addr \<or> event_count (its_device t i) \<noteq> n
                          then t\<lparr>its_event := (its_event t)(i := (\<lambda>_. empty_event))\<rparr> else t)
                 in upd_device i (\<lambda>x. x\<lparr>itt_addr := addr, event_count := n\<rparr>) t)))"

definition vits_mapc :: "u16 \<Rightarrow> u64 \<Rightarrow> bool \<Rightarrow> arm64_vgicv3 \<Rightarrow> arm64_vgicv3" where
  "vits_mapc cid c2 valid g =
     (case vits_find_collection (its g) cid of None \<Rightarrow> g
      | Some i \<Rightarrow> g\<lparr>its := upd_collection i (\<lambda>c. c\<lparr>coll_valid := valid,
          coll_target := vits_valid_target_vcpu g (unat (drop_bit 16 c2 AND 0xffff))\<rparr>) (its g)\<rparr>)"

primrec enable_lpi_rows :: "nat \<Rightarrow> nat \<Rightarrow> vsys \<Rightarrow> vsys" where
  "enable_lpi_rows j 0 s = s"
| "enable_lpi_rows j (Suc k) s =
     set_desc (Lpi k j) (\<lambda>d. d\<lparr>enabled := True, priority := VGIC_ITS_PRIORITY_DEFAULT\<rparr>) (enable_lpi_rows j k s)"

definition vits_mapti :: "u32 \<Rightarrow> u32 \<Rightarrow> nat \<Rightarrow> u16 \<Rightarrow> vsys \<Rightarrow> vsys" where
  "vits_mapti d e n cid s =
     (let t = its (vgic s)
      in case (vits_find_device t d, vits_find_collection t cid) of
           (Some i, Some c) \<Rightarrow>
             if \<not> vits_irq_is_lpi n \<or> unat e \<ge> event_count (its_device t i) \<or> \<not> coll_valid (collection t c) then s
             else
               (let (ev, t) = (case vits_find_event t d e of Some p \<Rightarrow> (Some p, t) | None \<Rightarrow> vits_alloc_event t d e);
                    s = upd_its (\<lambda>_. t) s
                in case ev of None \<Rightarrow> s
                   | Some p \<Rightarrow> enable_lpi_rows (vits_lpi_index n) (vcpu_count (vgic s))
                       (upd_its (upd_event p (\<lambda>x. x\<lparr>lpi_id := n, ev_collection := cid\<rparr>)) s))
         | _ \<Rightarrow> s)"

definition vits_movi :: "u32 \<Rightarrow> u32 \<Rightarrow> u16 \<Rightarrow> arm64_vits \<Rightarrow> arm64_vits" where
  "vits_movi d e cid t =
     (case (vits_find_event t d e, vits_find_collection t cid) of
        (Some p, Some c) \<Rightarrow> if coll_valid (collection t c) then upd_event p (\<lambda>x. x\<lparr>ev_collection := cid\<rparr>) t else t
      | _ \<Rightarrow> t)"

definition vits_discard :: "u32 \<Rightarrow> u32 \<Rightarrow> arm64_vits \<Rightarrow> arm64_vits" where
  "vits_discard d e t =
     (case vits_find_event t d e of None \<Rightarrow> t | Some p \<Rightarrow> upd_event p (\<lambda>x. x\<lparr>ev_valid := False\<rparr>) t)"

definition vits_clear :: "u32 \<Rightarrow> u32 \<Rightarrow> vsys \<Rightarrow> vsys" where
  "vits_clear d e s =
     (case vits_find_event (its (vgic s)) d e of None \<Rightarrow> s
      | Some (i, j) \<Rightarrow>
          (let ev = its_event (its (vgic s)) i j;
               target = vits_target_vcpu_id (vgic s) (ev_collection ev);
               r = Lpi target (vits_lpi_index (lpi_id ev))
           in if vits_irq_is_lpi (lpi_id ev) \<and> target < vcpu_count (vgic s)
              then vgic_update_irq_row_lr target r (set_desc r (\<lambda>d. d\<lparr>active := False\<rparr>) (vgic_set_pending target r False s))
              else s))"

definition vits_execute_cmd :: "u64 \<times> u64 \<times> u64 \<Rightarrow> vsys \<Rightarrow> vsys option" where
  "vits_execute_cmd cmd s =
     (case cmd of (c0, c1, c2) \<Rightarrow>
        (let opcode = unat (c0 AND 0xff);
             d = ucast (drop_bit 32 c0);
             e = ucast c1;
             n = unat (ucast (drop_bit 32 c1) :: u32);
             cid = ucast c2;
             valid = c2 AND push_bit 63 1 \<noteq> 0
         in if opcode = GITS_CMD_MAPD then Some (upd_its (vits_mapd d c1 c2 valid) s)
            else if opcode = GITS_CMD_MAPC then Some (s\<lparr>vgic := vits_mapc cid c2 valid (vgic s)\<rparr>)
            else if opcode = GITS_CMD_MAPI then Some (vits_mapti d e (unat (of_nat ARM64_VGIC_LPI_BASE + e :: u32)) cid s)
            else if opcode = GITS_CMD_MAPTI then Some (vits_mapti d e n cid s)
            else if opcode = GITS_CMD_MOVI then Some (upd_its (vits_movi d e cid) s)
            else if opcode = GITS_CMD_DISCARD then Some (upd_its (vits_discard d e) s)
            else if opcode = GITS_CMD_INT then vits_inject_event_locked (vits_find_event (its (vgic s)) d e) s
            else if opcode = GITS_CMD_CLEAR then Some (vits_clear d e s)
            else Some s))"

section \<open>The command queue\<close>

definition vits_cmd_queue_base :: "arm64_vits \<Rightarrow> u64" where
  "vits_cmd_queue_base t = cbaser t AND GITS_CBASER_ADDRESS_MASK"

definition vits_cmd_queue_size :: "arm64_vits \<Rightarrow> u64" where
  "vits_cmd_queue_size t = ((cbaser t AND GITS_CBASER_SIZE_MASK) + 1) * 4096"

definition le_u64 :: "u8 list \<Rightarrow> u64" where
  "le_u64 bs = foldr (\<lambda>b w. push_bit 8 w OR ucast b) bs 0"

definition fetch_cmd :: "arch_vm_config \<Rightarrow> phys \<Rightarrow> u64 \<Rightarrow> (u64 \<times> u64 \<times> u64) option" where
  "fetch_cmd cfg m gpa =
     (let (ret, bs) = copy_from_gpa cfg gpa 32 m
      in if ret \<noteq> 0 then None else Some (le_u64 (take 8 bs), le_u64 (take 8 (drop 8 bs)), le_u64 (take 8 (drop 16 bs))))"

text \<open>The loop ends when the budget is used up; the result says whether a command was run.\<close>

primrec cmd_loop ::
  "arch_vm_config \<Rightarrow> phys \<Rightarrow> u64 \<Rightarrow> u64 \<Rightarrow> u64 \<Rightarrow> nat \<Rightarrow> bool \<Rightarrow> u64 \<Rightarrow> vsys \<Rightarrow> (bool \<times> u64 \<times> vsys) option" where
  "cmd_loop cfg m base sz writer 0 flush reader s = Some (flush, reader, s)"
| "cmd_loop cfg m base sz writer (Suc budget) flush reader s =
     (if reader = writer then Some (flush, reader, s)
      else case fetch_cmd cfg m (base + reader) of None \<Rightarrow> Some (flush, reader, s)
        | Some cmd \<Rightarrow>
            (case vits_execute_cmd cmd s of None \<Rightarrow> None
             | Some s \<Rightarrow> cmd_loop cfg m base sz writer budget True
                 (if reader + GITS_CMD_SIZE \<ge> sz then 0 else reader + GITS_CMD_SIZE) s))"

definition vits_process_command_queue :: "arch_vm_config \<Rightarrow> phys \<Rightarrow> vsys \<Rightarrow> (bool \<times> vsys) option" where
  "vits_process_command_queue cfg m s =
     (let t = its (vgic s);
          base = vits_cmd_queue_base t;
          sz = vits_cmd_queue_size t;
          reader = creadr t;
          writer = cwriter t
      in if its_ctlr t AND GITS_CTLR_ENABLE = 0 \<or> cbaser t AND GITS_CBASER_VALID = 0 \<or> sz < GITS_CMD_SIZE
         then Some (False, upd_its (\<lambda>t. t\<lparr>creadr := writer\<rparr>) s)
         else if reader \<ge> sz \<or> writer \<ge> sz \<or> \<not> vits_offset_aligned reader \<or> \<not> vits_offset_aligned writer
         then Some (False, upd_its (\<lambda>t. t\<lparr>creadr := writer\<rparr>) s)
         else case cmd_loop cfg m base sz writer GITS_CMD_QUEUE_BUDGET False reader s of None \<Rightarrow> None
           | Some (flush, reader, s) \<Rightarrow> Some (flush, upd_its (\<lambda>t. t\<lparr>creadr := reader\<rparr>) s))"

section \<open>Registers\<close>

datatype mmio_direction = ACRN_IOREQ_DIR_READ | ACRN_IOREQ_DIR_WRITE | Other_Direction

record acrn_mmio_request =
  direction :: mmio_direction
  address :: u64
  mmio_size :: nat
  mmio_value :: u64

definition low_word :: "u64 \<Rightarrow> u64" where "low_word x = x AND 0xffffffff"
definition high_word :: "u64 \<Rightarrow> u64" where "high_word x = drop_bit 32 x"
definition set_low :: "u64 \<Rightarrow> u64 \<Rightarrow> u64" where "set_low old x = (old AND 0xffffffff00000000) OR low_word x"
definition set_high :: "u64 \<Rightarrow> u64 \<Rightarrow> u64" where "set_high old x = low_word old OR push_bit 32 (low_word x)"

definition vits_write_translater :: "u32 \<Rightarrow> vsys \<Rightarrow> vsys option" where
  "vits_write_translater e s = vits_inject_event_locked (vits_find_event (its (vgic s)) 0 e) s"

definition vcpu_get_vmpidr :: "nat \<Rightarrow> u64" where "vcpu_get_vmpidr v = of_nat v"

definition vits_baser_index :: "nat \<Rightarrow> nat" where "vits_baser_index offset = (offset - GITS_BASER) div 8"

definition vits_mmio_read :: "arch_vm_config \<Rightarrow> u32 \<Rightarrow> phys \<Rightarrow> nat \<Rightarrow> vsys \<Rightarrow> (bool \<times> u64 \<times> vsys) option" where
  "vits_mmio_read cfg iidr m offset s =
     (let t = its (vgic s)
      in if offset \<ge> GITS_BASER \<and> offset < GITS_BASER + ARM64_VGIC_ITS_BASER_NUM * 8
         then (let x = baser t (vits_baser_index offset)
               in Some (False, if offset AND 4 = 0 then low_word x else high_word x, s))
         else if offset = GITS_CTLR then Some (False, ucast (its_ctlr t), s)
         else if offset = GITS_IIDR then Some (False, ucast iidr, s)
         else if offset = GITS_TYPER then Some (False, low_word (its_typer t), s)
         else if offset = GITS_TYPER + 4 then Some (False, high_word (its_typer t), s)
         else if offset = GITS_MPIDR then Some (False, vcpu_get_vmpidr BSP_CPU_ID, s)
         else if offset = GITS_CBASER then Some (False, low_word (cbaser t), s)
         else if offset = GITS_CBASER + 4 then Some (False, high_word (cbaser t), s)
         else if offset = GITS_CWRITER then Some (False, low_word (cwriter t), s)
         else if offset = GITS_CWRITER + 4 then Some (False, high_word (cwriter t), s)
         else if offset = GITS_CREADR
         then map_option (\<lambda>(flush, s). (flush, low_word (creadr (its (vgic s))), s)) (vits_process_command_queue cfg m s)
         else if offset = GITS_CREADR + 4
         then map_option (\<lambda>(flush, s). (flush, high_word (creadr (its (vgic s))), s)) (vits_process_command_queue cfg m s)
         else if offset = GITS_PIDR2 then Some (False, ucast VGIC_ITS_PIDR2_ARCH_GICV3, s)
         else if offset = GITS_CIDR0 then Some (False, 0x0d, s)
         else if offset = GITS_CIDR1 then Some (False, 0xf0, s)
         else if offset = GITS_CIDR2 then Some (False, 0x05, s)
         else if offset = GITS_CIDR3 then Some (False, 0xb1, s)
         else Some (False, 0, s))"

definition vits_mmio_write :: "arch_vm_config \<Rightarrow> phys \<Rightarrow> nat \<Rightarrow> u64 \<Rightarrow> vsys \<Rightarrow> (bool \<times> vsys) option" where
  "vits_mmio_write cfg m offset val s =
     (let x = low_word val
      in if offset \<ge> GITS_BASER \<and> offset < GITS_BASER + ARM64_VGIC_ITS_BASER_NUM * 8
         then (let i = vits_baser_index offset
               in Some (False, upd_its (\<lambda>t. t\<lparr>baser := (baser t)(i :=
                    if offset AND 4 = 0 then set_low (baser t i) x else set_high (baser t i) x)\<rparr>) s))
         else if offset = GITS_CTLR
         then (let s = upd_its (\<lambda>t. t\<lparr>its_ctlr := (ucast x AND GITS_CTLR_ENABLE) OR
                          (if ucast x AND GITS_CTLR_ENABLE = 0 then GITS_CTLR_QUIESCENT else 0)\<rparr>) s
               in if its_ctlr (its (vgic s)) AND GITS_CTLR_ENABLE \<noteq> 0 then vits_process_command_queue cfg m s
                  else Some (False, s))
         else if offset = GITS_CBASER
         then Some (False, upd_its (\<lambda>t. t\<lparr>cbaser := set_low (cbaser t) x, creadr := 0, cwriter := 0\<rparr>) s)
         else if offset = GITS_CBASER + 4
         then Some (False, upd_its (\<lambda>t. t\<lparr>cbaser := set_high (cbaser t) x, creadr := 0, cwriter := 0\<rparr>) s)
         else if offset = GITS_CWRITER
         then vits_process_command_queue cfg m (upd_its (\<lambda>t. t\<lparr>cwriter := set_low (cwriter t) x\<rparr>) s)
         else if offset = GITS_CWRITER + 4
         then vits_process_command_queue cfg m (upd_its (\<lambda>t. t\<lparr>cwriter := set_high (cwriter t) x\<rparr>) s)
         else if offset = GITS_TRANSLATER then map_option (Pair True) (vits_write_translater (ucast x) s)
         else Some (False, s))"

definition flush_if :: "nat \<Rightarrow> bool \<Rightarrow> vsys \<Rightarrow> vsys" where
  "flush_if v flush s = (if flush then vgicv3_flush_vm v s else s)"

definition arm64_vgicv3_its_mmio_access ::
  "arch_vm_config \<Rightarrow> u32 \<Rightarrow> phys \<Rightarrow> nat \<Rightarrow> acrn_mmio_request \<Rightarrow> vsys \<Rightarrow> (int \<times> acrn_mmio_request \<times> vsys) option" where
  "arm64_vgicv3_its_mmio_access cfg iidr m v mmio s =
     (let offset = unat (ucast (address mmio - guest_its_base cfg) :: u32)
      in if \<not> vits_word_access offset (mmio_size mmio) then Some (- EINVAL, mmio, s)
         else case direction mmio of
             ACRN_IOREQ_DIR_READ \<Rightarrow>
               map_option (\<lambda>(flush, x, s). (0, mmio\<lparr>mmio_value := x\<rparr>, flush_if v flush s)) (vits_mmio_read cfg iidr m offset s)
           | ACRN_IOREQ_DIR_WRITE \<Rightarrow>
               map_option (\<lambda>(flush, s). (0, mmio, flush_if v flush s)) (vits_mmio_write cfg m offset (mmio_value mmio) s)
           | Other_Direction \<Rightarrow> Some (- EINVAL, mmio, s))"

text \<open>The 64-bit access: \<open>None\<close> inside means that it is not handled here.\<close>

definition arm64_vgicv3_its_mmio_access64 ::
  "arch_vm_config \<Rightarrow> phys \<Rightarrow> nat \<Rightarrow> acrn_mmio_request \<Rightarrow> vsys \<Rightarrow> vsys option option" where
  "arm64_vgicv3_its_mmio_access64 cfg m v mmio s =
     (let offset = unat (ucast (address mmio - guest_its_base cfg) :: u32)
      in if offset = GITS_CWRITER \<and> mmio_size mmio = 8 \<and> direction mmio = ACRN_IOREQ_DIR_WRITE
         then map_option (\<lambda>(flush, s). Some (flush_if v flush s))
                (vits_process_command_queue cfg m (upd_its (\<lambda>t. t\<lparr>cwriter := mmio_value mmio\<rparr>) s))
         else Some None)"

end
