(* ===== verification/Vgic_Mmio.thy ===== *)
theory Vgic_Mmio
  imports Vits
begin

text \<open>
  The registers of the virtual distributor and redistributors (\<^verbatim>\<open>arch/arm64/guest/vgicv3.c\<close>): decoding
  an access, reading and writing the state of the interrupts it covers, and the handler that
  synchronises and flushes around it. Offsets and sizes are natural numbers.
\<close>

section \<open>Register map\<close>

definition VGICD_CTLR :: nat where "VGICD_CTLR = 0x0000"
definition VGICD_TYPER :: nat where "VGICD_TYPER = 0x0004"
definition VGICD_IIDR :: nat where "VGICD_IIDR = 0x0008"
definition VGICD_IGROUPR :: nat where "VGICD_IGROUPR = 0x0080"
definition VGICD_ISENABLER :: nat where "VGICD_ISENABLER = 0x0100"
definition VGICD_ICENABLER :: nat where "VGICD_ICENABLER = 0x0180"
definition VGICD_ISPENDR :: nat where "VGICD_ISPENDR = 0x0200"
definition VGICD_ICPENDR :: nat where "VGICD_ICPENDR = 0x0280"
definition VGICD_ISACTIVER :: nat where "VGICD_ISACTIVER = 0x0300"
definition VGICD_ICACTIVER :: nat where "VGICD_ICACTIVER = 0x0380"
definition VGICD_IPRIORITYR :: nat where "VGICD_IPRIORITYR = 0x0400"
definition VGICD_ITARGETSR :: nat where "VGICD_ITARGETSR = 0x0800"
definition VGICD_ICFGR :: nat where "VGICD_ICFGR = 0x0C00"
definition VGICD_IGRPMODR :: nat where "VGICD_IGRPMODR = 0x0D00"
definition VGICD_IROUTER :: nat where "VGICD_IROUTER = 0x6000"
definition VGICD_PIDR2 :: nat where "VGICD_PIDR2 = 0xFFE8"

definition VGICR_CTLR :: nat where "VGICR_CTLR = 0x0000"
definition VGICR_IIDR :: nat where "VGICR_IIDR = 0x0004"
definition VGICR_TYPER :: nat where "VGICR_TYPER = 0x0008"
definition VGICR_WAKER :: nat where "VGICR_WAKER = 0x0014"
definition VGICR_PROPBASER :: nat where "VGICR_PROPBASER = 0x0070"
definition VGICR_PENDBASER :: nat where "VGICR_PENDBASER = 0x0078"
definition VGICR_INVLPIR :: nat where "VGICR_INVLPIR = 0x00A0"
definition VGICR_INVALLR :: nat where "VGICR_INVALLR = 0x00B0"
definition VGICR_SYNCR :: nat where "VGICR_SYNCR = 0x00C0"
definition VGICR_PIDR2 :: nat where "VGICR_PIDR2 = 0xFFE8"
definition VGICR_SGI_BASE :: nat where "VGICR_SGI_BASE = 0x10000"
definition VGICR_SGI_END :: nat where "VGICR_SGI_END = VGICR_SGI_BASE + 0x10000"

definition VGICR_TYPER_LAST :: u64 where "VGICR_TYPER_LAST = push_bit 4 1"
definition VGICR_TYPER_PLPIS :: u64 where "VGICR_TYPER_PLPIS = push_bit 0 1"
definition VGICR_TYPER_PROCNUM_SHIFT :: nat where "VGICR_TYPER_PROCNUM_SHIFT = 8"
definition VGICR_TYPER_AFF_SHIFT :: nat where "VGICR_TYPER_AFF_SHIFT = 32"
definition VGICR_WAKER_PROCESSOR_SLEEP :: u32 where "VGICR_WAKER_PROCESSOR_SLEEP = BIT32 1"
definition VGICR_WAKER_CHILDREN_ASLEEP :: u32 where "VGICR_WAKER_CHILDREN_ASLEEP = BIT32 2"
definition VGICR_WAKER_READ_MASK :: u32 where
  "VGICR_WAKER_READ_MASK = VGICR_WAKER_PROCESSOR_SLEEP OR VGICR_WAKER_CHILDREN_ASLEEP"
definition VGICD_TYPER_NUM_LPIS_SHIFT :: nat where "VGICD_TYPER_NUM_LPIS_SHIFT = 11"
definition VGICD_TYPER_IDBITS_SHIFT :: nat where "VGICD_TYPER_IDBITS_SHIFT = 19"
definition GIC_IROUTER_IRM :: u64 where "GIC_IROUTER_IRM = push_bit 31 1"
definition GIC_IROUTER_AFF0_MASK :: u64 where "GIC_IROUTER_AFF0_MASK = 0xff"
definition GIC_IROUTER_AFF1_SHIFT :: nat where "GIC_IROUTER_AFF1_SHIFT = 8"
definition GIC_IROUTER_AFF2_SHIFT :: nat where "GIC_IROUTER_AFF2_SHIFT = 16"
definition GIC_IROUTER_AFF3_SHIFT :: nat where "GIC_IROUTER_AFF3_SHIFT = 32"
definition GIC_IROUTER_AFF_MASK :: u64 where "GIC_IROUTER_AFF_MASK = 0xff"
definition VGIC_ICFGR_IRQS_PER_REG :: nat where "VGIC_ICFGR_IRQS_PER_REG = 16"
definition VGIC_INVALID_AFFINITY :: u64 where "VGIC_INVALID_AFFINITY = 0xff"
definition ENODEV :: int where "ENODEV = 19"

lemmas vgic_regs = VGICD_CTLR_def VGICD_TYPER_def VGICD_IIDR_def VGICD_IGROUPR_def VGICD_ISENABLER_def VGICD_ICENABLER_def
  VGICD_ISPENDR_def VGICD_ICPENDR_def VGICD_ISACTIVER_def VGICD_ICACTIVER_def VGICD_IPRIORITYR_def VGICD_ITARGETSR_def
  VGICD_ICFGR_def VGICD_IGRPMODR_def VGICD_IROUTER_def VGICD_PIDR2_def VGICR_CTLR_def VGICR_IIDR_def VGICR_TYPER_def
  VGICR_WAKER_def VGICR_PROPBASER_def VGICR_PENDBASER_def VGICR_PIDR2_def VGICR_SGI_BASE_def VGICR_SGI_END_def
  VGIC_ICFGR_IRQS_PER_REG_def

section \<open>Decoding\<close>

definition reg_word_index :: "nat \<Rightarrow> nat \<Rightarrow> nat" where "reg_word_index offset base = (offset - base) div 4"

definition mmio_access_in_range :: "nat \<Rightarrow> nat \<Rightarrow> nat \<Rightarrow> nat \<Rightarrow> bool" where
  "mmio_access_in_range offset sz start fin \<longleftrightarrow> offset \<ge> start \<and> offset < fin \<and> sz \<le> fin - offset"

definition vgic_priority_access :: "nat \<Rightarrow> nat \<Rightarrow> bool" where
  "vgic_priority_access offset sz \<longleftrightarrow>
     (sz = 1 \<or> sz = 2 \<or> sz = 4) \<and> mmio_access_in_range offset sz VGICD_IPRIORITYR VGICD_ITARGETSR"

definition vgic_target_access :: "nat \<Rightarrow> nat \<Rightarrow> bool" where
  "vgic_target_access offset sz \<longleftrightarrow>
     (sz = 1 \<or> sz = 2 \<or> sz = 4) \<and> mmio_access_in_range offset sz VGICD_ITARGETSR VGICD_ICFGR"

definition vgic_word_access :: "nat \<Rightarrow> nat \<Rightarrow> bool" where
  "vgic_word_access offset sz \<longleftrightarrow> sz = 4 \<and> offset mod 4 = 0"

datatype bit_selector = IGROUPR | ISENABLER | ICENABLER | ISPENDR | ICPENDR | ISACTIVER | ICACTIVER | IGRPMODR

definition vgic_decode_irq_bit_reg :: "nat \<Rightarrow> bool \<Rightarrow> (bit_selector \<times> nat) option" where
  "vgic_decode_irq_bit_reg offset local_bank =
     (let max_words = (if local_bank then 1 else ARM64_VGIC_WORDS);
          reg =
            (if VGICD_IGROUPR \<le> offset \<and> offset < VGICD_ISENABLER then Some (IGROUPR, reg_word_index offset VGICD_IGROUPR * 32)
             else if VGICD_ISENABLER \<le> offset \<and> offset < VGICD_ICENABLER then Some (ISENABLER, reg_word_index offset VGICD_ISENABLER * 32)
             else if VGICD_ICENABLER \<le> offset \<and> offset < VGICD_ISPENDR then Some (ICENABLER, reg_word_index offset VGICD_ICENABLER * 32)
             else if VGICD_ISPENDR \<le> offset \<and> offset < VGICD_ICPENDR then Some (ISPENDR, reg_word_index offset VGICD_ISPENDR * 32)
             else if VGICD_ICPENDR \<le> offset \<and> offset < VGICD_ISACTIVER then Some (ICPENDR, reg_word_index offset VGICD_ICPENDR * 32)
             else if VGICD_ISACTIVER \<le> offset \<and> offset < VGICD_ICACTIVER then Some (ISACTIVER, reg_word_index offset VGICD_ISACTIVER * 32)
             else if VGICD_ICACTIVER \<le> offset \<and> offset < VGICD_IPRIORITYR then Some (ICACTIVER, reg_word_index offset VGICD_ICACTIVER * 32)
             else if VGICD_IGRPMODR \<le> offset \<and> offset < VGICD_IGRPMODR + max_words * 4
             then Some (IGRPMODR, reg_word_index offset VGICD_IGRPMODR * 32)
             else None)
      in case reg of None \<Rightarrow> None
         | Some (sel, base) \<Rightarrow> if local_bank \<and> base \<noteq> 0 then None else Some (sel, if local_bank then 0 else base))"

definition vgic_decode_irq_config_reg :: "nat \<Rightarrow> bool \<Rightarrow> nat option" where
  "vgic_decode_irq_config_reg offset local_bank =
     (let max_irqs = (if local_bank then ARM64_VGIC_LOCAL_IRQ_NUM else ARM64_VGIC_IRQ_NUM);
          fin = VGICD_ICFGR + (max_irqs div VGIC_ICFGR_IRQS_PER_REG) * 4
      in if offset \<ge> VGICD_ICFGR \<and> offset < fin then Some (reg_word_index offset VGICD_ICFGR * VGIC_ICFGR_IRQS_PER_REG)
         else None)"

definition vgic_decode_irouter_reg :: "nat \<Rightarrow> (nat \<times> nat) option" where
  "vgic_decode_irouter_reg offset =
     (if offset \<ge> VGICD_IROUTER
      then (let rel = offset - VGICD_IROUTER; n = rel div 8
            in if n \<ge> ARM64_VGIC_LOCAL_IRQ_NUM \<and> n < ARM64_VGIC_IRQ_NUM \<and> rel mod 4 = 0
               then Some (n, if rel AND 4 \<noteq> 0 then 1 else 0) else None)
      else None)"

section \<open>Interrupt state behind the registers\<close>

definition bank_desc :: "nat \<Rightarrow> nat \<Rightarrow> vsys \<Rightarrow> desc_ref option" where
  "bank_desc v n s = (if vgic_irq_is_spi n then Some (Irq 0 n) else vgic_irq_desc v n s)"

definition vgic_read_irq_priority :: "nat \<Rightarrow> nat \<Rightarrow> nat \<Rightarrow> vsys \<Rightarrow> u64" where
  "vgic_read_irq_priority v irq_base sz s =
     fold (\<lambda>b val. val OR push_bit (b * 8)
       (ucast (case bank_desc v (irq_base + b) s of Some r \<Rightarrow> priority (desc r s) | None \<Rightarrow> GIC_PRIORITY_DEFAULT))) [0..<sz] 0"

text \<open>A setting of an interrupt: of every row for an SPI, of the own row otherwise.\<close>

primrec set_spi_rows :: "nat \<Rightarrow> (arm64_vgic_irq \<Rightarrow> arm64_vgic_irq) \<Rightarrow> nat \<Rightarrow> vsys \<Rightarrow> vsys" where
  "set_spi_rows n f 0 s = s"
| "set_spi_rows n f (Suc k) s =
     vgic_update_irq_row_lr k (Irq k n) (set_desc (Irq k n) f (set_spi_rows n f k s))"

definition set_irq_field :: "nat \<Rightarrow> nat \<Rightarrow> (arm64_vgic_irq \<Rightarrow> arm64_vgic_irq) \<Rightarrow> vsys \<Rightarrow> vsys" where
  "set_irq_field v n f s =
     (if vgic_irq_is_spi n then set_spi_rows n f (vcpu_count (vgic s)) s
      else case vgic_irq_desc v n s of None \<Rightarrow> s | Some r \<Rightarrow> vgic_update_irq_lr v r (set_desc r f s))"

definition vgic_write_irq_priority :: "nat \<Rightarrow> nat \<Rightarrow> nat \<Rightarrow> u64 \<Rightarrow> vsys \<Rightarrow> vsys" where
  "vgic_write_irq_priority v irq_base sz val s =
     fold (\<lambda>b. set_irq_field v (irq_base + b) (\<lambda>d. d\<lparr>priority := ucast (drop_bit (b * 8) val)\<rparr>)) [0..<sz] s"

definition vgic_read_irq_bit_desc :: "nat \<Rightarrow> nat \<Rightarrow> bit_selector \<Rightarrow> vsys \<Rightarrow> desc_ref option" where
  "vgic_read_irq_bit_desc v n sel s =
     (if n \<ge> ARM64_VGIC_IRQ_NUM then None
      else
        (let target = (if vgic_irq_is_spi n
                       then if sel \<in> {ISPENDR, ICPENDR, ISACTIVER, ICACTIVER}
                            then vgic_valid_target_vcpu (vgic s) (target_vcpu (irq (vgic s) 0 n)) else 0
                       else v)
         in if target < ARM64_VGIC_MAX_VCPUS then Some (Irq target n) else None))"

definition irq_bit_set :: "bit_selector \<Rightarrow> arm64_vgic_irq \<Rightarrow> bool" where
  "irq_bit_set sel d =
     (case sel of IGROUPR \<Rightarrow> True | ISENABLER \<Rightarrow> enabled d | ICENABLER \<Rightarrow> enabled d | ISPENDR \<Rightarrow> pending d
      | ICPENDR \<Rightarrow> pending d | ISACTIVER \<Rightarrow> active d | ICACTIVER \<Rightarrow> active d | IGRPMODR \<Rightarrow> False)"

definition vgic_read_irq_bits :: "nat \<Rightarrow> nat \<Rightarrow> bit_selector \<Rightarrow> vsys \<Rightarrow> u32" where
  "vgic_read_irq_bits v irq_base sel s =
     fold (\<lambda>b val. case vgic_read_irq_bit_desc v (irq_base + b) sel s of None \<Rightarrow> val
       | Some r \<Rightarrow> if irq_bit_set sel (desc r s) then val OR BIT32 b else val) [0..<32] 0"

definition bit_target :: "nat \<Rightarrow> nat \<Rightarrow> vsys \<Rightarrow> nat" where
  "bit_target v n s = (if vgic_irq_is_spi n then vgic_valid_target_vcpu (vgic s) (target_vcpu (irq (vgic s) 0 n)) else v)"

definition write_irq_bit :: "nat \<Rightarrow> nat \<Rightarrow> bit_selector \<Rightarrow> u32 \<Rightarrow> nat \<Rightarrow> vsys \<Rightarrow> vsys" where
  "write_irq_bit v irq_base sel val b s =
     (let n = irq_base + b; t = bit_target v n s; r = Irq t n
      in if n \<ge> ARM64_VGIC_IRQ_NUM then s
         else if sel \<noteq> IGROUPR \<and> sel \<noteq> IGRPMODR \<and> val AND BIT32 b = 0 then s
         else case sel of
             IGROUPR \<Rightarrow> s
           | ISENABLER \<Rightarrow> set_irq_field v n (\<lambda>d. d\<lparr>enabled := True\<rparr>) s
           | ICENABLER \<Rightarrow> set_irq_field v n (\<lambda>d. d\<lparr>enabled := False\<rparr>) s
           | ISPENDR \<Rightarrow> vgic_update_irq_row_lr t r (vgic_set_pending t r True s)
           | ICPENDR \<Rightarrow> vgic_update_irq_row_lr t r (vgic_set_pending t r False s)
           | ISACTIVER \<Rightarrow> vgic_update_irq_row_lr t r (set_desc r (\<lambda>d. d\<lparr>active := True\<rparr>) s)
           | ICACTIVER \<Rightarrow> vgic_update_irq_row_lr t r (set_desc r (\<lambda>d. d\<lparr>active := False\<rparr>) s)
           | IGRPMODR \<Rightarrow> s)"

definition vgic_write_irq_bits :: "nat \<Rightarrow> nat \<Rightarrow> bit_selector \<Rightarrow> u32 \<Rightarrow> vsys \<Rightarrow> vsys" where
  "vgic_write_irq_bits v irq_base sel val s = fold (write_irq_bit v irq_base sel val) [0..<32] s"

definition vgic_read_irq_target :: "nat \<Rightarrow> nat \<Rightarrow> vsys \<Rightarrow> u64" where
  "vgic_read_irq_target irq_base sz s =
     fold (\<lambda>b val. val OR push_bit (b * 8)
       (ucast (if vgic_irq_is_spi (irq_base + b)
               then push_bit (vgic_valid_target_vcpu (vgic s) (target_vcpu (irq (vgic s) 0 (irq_base + b)))) 1 else 0 :: u8))) [0..<sz] 0"

definition vgic_write_irq_target :: "nat \<Rightarrow> nat \<Rightarrow> u64 \<Rightarrow> vsys \<Rightarrow> vsys" where
  "vgic_write_irq_target irq_base sz val s =
     fold (\<lambda>b s. if vgic_irq_is_spi (irq_base + b)
       then (let target_mask = ucast (drop_bit (b * 8) val) :: u8
             in vgic_set_spi_target (irq_base + b) (if target_mask \<noteq> 0 then unat (ffs64 (ucast target_mask)) else 0) s)
       else s) [0..<sz] s"

definition vgic_read_irq_config :: "nat \<Rightarrow> nat \<Rightarrow> vsys \<Rightarrow> u32" where
  "vgic_read_irq_config v irq_base s =
     fold (\<lambda>i val. if irq_base + i \<ge> ARM64_VGIC_IRQ_NUM then val
       else case bank_desc v (irq_base + i) s of None \<Rightarrow> val
         | Some r \<Rightarrow> if \<not> level (desc r s) then val OR BIT32 (i * 2 + 1) else val) [0..<VGIC_ICFGR_IRQS_PER_REG] 0"

definition write_irq_config :: "nat \<Rightarrow> nat \<Rightarrow> u32 \<Rightarrow> nat \<Rightarrow> vsys \<Rightarrow> vsys" where
  "write_irq_config v irq_base val i s =
     (let n = irq_base + i
      in if n \<ge> ARM64_VGIC_IRQ_NUM then s
         else if \<not> vgic_irq_configurable n
         then if n = ARM64_GIC_PPI_VIRTUAL_TIMER
              then (case vgic_irq_desc v n s of None \<Rightarrow> s
                    | Some r \<Rightarrow> vgic_update_irq_lr v r (set_desc r (\<lambda>d. d\<lparr>level := True\<rparr>) s))
              else s
         else set_irq_field v n (\<lambda>d. d\<lparr>level := val AND BIT32 (i * 2 + 1) = 0\<rparr>) s)"

definition vgic_write_irq_config :: "nat \<Rightarrow> nat \<Rightarrow> u32 \<Rightarrow> vsys \<Rightarrow> vsys" where
  "vgic_write_irq_config v irq_base val s = fold (write_irq_config v irq_base val) [0..<VGIC_ICFGR_IRQS_PER_REG] s"

definition vgic_irouter_target_vcpu :: "arm64_vgicv3 \<Rightarrow> u64 \<Rightarrow> nat" where
  "vgic_irouter_target_vcpu g router =
     (let aff0 = router AND GIC_IROUTER_AFF0_MASK;
          aff1 = drop_bit GIC_IROUTER_AFF1_SHIFT router AND GIC_IROUTER_AFF_MASK;
          aff2 = drop_bit GIC_IROUTER_AFF2_SHIFT router AND GIC_IROUTER_AFF_MASK;
          aff3 = drop_bit GIC_IROUTER_AFF3_SHIFT router AND GIC_IROUTER_AFF_MASK
      in if router AND GIC_IROUTER_IRM = 0 \<and> aff1 = 0 \<and> aff2 = 0 \<and> aff3 = 0 \<and> unat aff0 < vcpu_count g then unat aff0 else 0)"

definition vgic_read_irouter_word :: "arm64_vgicv3 \<Rightarrow> nat \<times> nat \<Rightarrow> u32" where
  "vgic_read_irouter_word g reg =
     (case reg of (n, word) \<Rightarrow>
        (let spi = n - ARM64_VGIC_LOCAL_IRQ_NUM;
             router = (if spi < ARM64_VGIC_SPI_NUM then spi_router g spi else 0)
         in if word = 0 then ucast router else if word = 1 then ucast (drop_bit 32 router) else 0))"

definition vgic_write_irouter_word :: "nat \<times> nat \<Rightarrow> u32 \<Rightarrow> vsys \<Rightarrow> vsys" where
  "vgic_write_irouter_word reg val s =
     (case reg of (n, word) \<Rightarrow>
        (let spi = n - ARM64_VGIC_LOCAL_IRQ_NUM;
             router = (if spi < ARM64_VGIC_SPI_NUM then spi_router (vgic s) spi else 0);
             router = (if word = 0 then set_low router (ucast val) else if word = 1 then set_high router (ucast val) else router);
             s = (if spi < ARM64_VGIC_SPI_NUM
                  then s\<lparr>vgic := (vgic s)\<lparr>spi_router := (spi_router (vgic s))(spi := router)\<rparr>\<rparr> else s)
         in vgic_set_spi_target n (vgic_irouter_target_vcpu (vgic s) router) s))"

section \<open>The distributor\<close>

definition vgicd_mmio_read :: "u32 \<Rightarrow> nat \<Rightarrow> nat \<Rightarrow> nat \<Rightarrow> vsys \<Rightarrow> u64" where
  "vgicd_mmio_read iidr v sz offset s =
     (case vgic_decode_irq_bit_reg offset False of Some (sel, base) \<Rightarrow> ucast (vgic_read_irq_bits v base sel s)
      | None \<Rightarrow>
          (case vgic_decode_irq_config_reg offset False of Some base \<Rightarrow> ucast (vgic_read_irq_config v base s)
           | None \<Rightarrow>
               if offset = VGICD_CTLR then ucast (gicd_ctlr (vgic s))
               else if offset = VGICD_TYPER then ucast (gicd_typer (vgic s))
               else if offset = VGICD_IIDR then ucast iidr
               else if VGICD_ITARGETSR \<le> offset \<and> offset < VGICD_ICFGR
               then vgic_read_irq_target (offset - VGICD_ITARGETSR) sz s
               else if VGICD_IROUTER \<le> offset \<and> offset < VGICD_PIDR2
               then (case vgic_decode_irouter_reg offset of Some reg \<Rightarrow> ucast (vgic_read_irouter_word (vgic s) reg) | None \<Rightarrow> 0)
               else if offset = VGICD_PIDR2 then ucast (gicd_pidr2 (vgic s))
               else 0))"

definition vgicd_mmio_write :: "nat \<Rightarrow> nat \<Rightarrow> u64 \<Rightarrow> nat \<Rightarrow> vsys \<Rightarrow> bool \<times> vsys" where
  "vgicd_mmio_write v sz val offset s =
     (case vgic_decode_irq_bit_reg offset False of Some (sel, base) \<Rightarrow> (True, vgic_write_irq_bits v base sel (ucast val) s)
      | None \<Rightarrow>
          (case vgic_decode_irq_config_reg offset False of Some base \<Rightarrow> (True, vgic_write_irq_config v base (ucast val) s)
           | None \<Rightarrow>
               if offset = VGICD_CTLR
               then (True, s\<lparr>vgic := (vgic s)\<lparr>gicd_ctlr := ucast val AND NOT VGICD_CTLR_RWP\<rparr>\<rparr>)
               else if VGICD_ITARGETSR \<le> offset \<and> offset < VGICD_ICFGR
               then (True, vgic_write_irq_target (offset - VGICD_ITARGETSR) sz val s)
               else if VGICD_IROUTER \<le> offset \<and> offset < VGICD_PIDR2
               then (case vgic_decode_irouter_reg offset of Some reg \<Rightarrow> (True, vgic_write_irouter_word reg (ucast val) s)
                     | None \<Rightarrow> (False, s))
               else (False, s)))"

definition vgicd_mmio_access ::
  "arch_vm_config \<Rightarrow> u32 \<Rightarrow> nat \<Rightarrow> acrn_mmio_request \<Rightarrow> vsys \<Rightarrow> int \<times> acrn_mmio_request \<times> vsys" where
  "vgicd_mmio_access cfg iidr v mmio s =
     (let offset = unat (ucast (address mmio - guest_gicd_base cfg) :: u32); sz = mmio_size mmio; val = mmio_value mmio
      in if vgic_priority_access offset sz
         then (case direction mmio of
                 ACRN_IOREQ_DIR_READ \<Rightarrow> (0, mmio\<lparr>mmio_value := vgic_read_irq_priority v (offset - VGICD_IPRIORITYR) sz s\<rparr>, s)
               | ACRN_IOREQ_DIR_WRITE \<Rightarrow> (0, mmio, vgicv3_flush_vm v (vgic_write_irq_priority v (offset - VGICD_IPRIORITYR) sz val s))
               | Other_Direction \<Rightarrow> (- EINVAL, mmio, s))
         else if vgic_target_access offset sz
         then (case direction mmio of
                 ACRN_IOREQ_DIR_READ \<Rightarrow> (0, mmio\<lparr>mmio_value := vgic_read_irq_target (offset - VGICD_ITARGETSR) sz s\<rparr>, s)
               | ACRN_IOREQ_DIR_WRITE \<Rightarrow> (0, mmio, vgicv3_flush_vm v (vgic_write_irq_target (offset - VGICD_ITARGETSR) sz val s))
               | Other_Direction \<Rightarrow> (- EINVAL, mmio, s))
         else if \<not> vgic_word_access offset sz then (- EINVAL, mmio, s)
         else case direction mmio of
             ACRN_IOREQ_DIR_READ \<Rightarrow> (0, mmio\<lparr>mmio_value := vgicd_mmio_read iidr v sz offset s\<rparr>, s)
           | ACRN_IOREQ_DIR_WRITE \<Rightarrow> (let (flush, s) = vgicd_mmio_write v sz val offset s in (0, mmio, flush_if v flush s))
           | Other_Direction \<Rightarrow> (- EINVAL, mmio, s))"

section \<open>The redistributors\<close>

record vgicr_frame =
  frame_pcpu :: nat
  frame_vcpu :: nat
  frame_offset :: nat

definition vgicr_pcpu_id :: "arch_vm_config \<Rightarrow> u64 \<Rightarrow> nat" where
  "vgicr_pcpu_id cfg addr = unat (ucast ((addr - guest_gicr_base cfg) div guest_gicr_stride cfg) :: u16)"

definition vgicr_offset :: "arch_vm_config \<Rightarrow> u64 \<Rightarrow> nat" where
  "vgicr_offset cfg addr = unat (ucast ((addr - guest_gicr_base cfg) mod guest_gicr_stride cfg) :: u32)"

definition vgicr_decode_frame :: "arch_vm_config \<Rightarrow> u64 \<Rightarrow> vsys \<Rightarrow> vgicr_frame option" where
  "vgicr_decode_frame cfg addr s =
     (let p = vgicr_pcpu_id cfg addr
      in if p < ARM64_VGIC_MAX_VCPUS \<and> p < rdist_count (vgic s)
         then (let v = rdist_vcpu (vgic s) p
               in Some \<lparr>frame_pcpu = p,
                    frame_vcpu = (if v \<noteq> VGIC_INVALID_VCPU_ID \<and> v \<ge> created_vcpus s then VGIC_INVALID_VCPU_ID else v),
                    frame_offset = vgicr_offset cfg addr\<rparr>)
         else None)"

definition vgicr_typer_value :: "arm64_vgicv3 \<Rightarrow> vgicr_frame \<Rightarrow> u64" where
  "vgicr_typer_value g f =
     (let affinity = (if frame_vcpu f = VGIC_INVALID_VCPU_ID then VGIC_INVALID_AFFINITY else of_nat (frame_vcpu f));
          typer = push_bit VGICR_TYPER_PROCNUM_SHIFT (of_nat (frame_pcpu f)) OR push_bit VGICR_TYPER_AFF_SHIFT affinity;
          typer = (if its_enabled g then typer OR VGICR_TYPER_PLPIS else typer)
      in if frame_pcpu f = rdist_count g - 1 then typer OR VGICR_TYPER_LAST else typer)"

definition vgicr_write_waker :: "nat \<Rightarrow> u32 \<Rightarrow> arm64_vgicv3 \<Rightarrow> arm64_vgicv3" where
  "vgicr_write_waker p val g = g\<lparr>gicr_waker := (gicr_waker g)(p :=
     if val AND VGICR_WAKER_PROCESSOR_SLEEP \<noteq> 0 then VGICR_WAKER_PROCESSOR_SLEEP OR VGICR_WAKER_CHILDREN_ASLEEP else 0)\<rparr>"

definition vgicr_sgi_mmio_read :: "nat \<Rightarrow> nat \<Rightarrow> nat \<Rightarrow> vsys \<Rightarrow> u64" where
  "vgicr_sgi_mmio_read t sz offset s =
     (case vgic_decode_irq_bit_reg offset True of Some (sel, base) \<Rightarrow> ucast (vgic_read_irq_bits t base sel s)
      | None \<Rightarrow>
          (case vgic_decode_irq_config_reg offset True of Some base \<Rightarrow> ucast (vgic_read_irq_config t base s)
           | None \<Rightarrow> if VGICD_IPRIORITYR \<le> offset \<and> offset < VGICD_ICFGR
                     then vgic_read_irq_priority t (offset - VGICD_IPRIORITYR) sz s else 0))"

definition vgicr_sgi_mmio_write :: "nat \<Rightarrow> nat \<Rightarrow> u64 \<Rightarrow> nat \<Rightarrow> vsys \<Rightarrow> bool \<times> vsys" where
  "vgicr_sgi_mmio_write t sz val offset s =
     (case vgic_decode_irq_bit_reg offset True of Some (sel, base) \<Rightarrow> (True, vgic_write_irq_bits t base sel (ucast val) s)
      | None \<Rightarrow>
          (case vgic_decode_irq_config_reg offset True of Some base \<Rightarrow> (True, vgic_write_irq_config t base (ucast val) s)
           | None \<Rightarrow> if VGICD_IPRIORITYR \<le> offset \<and> offset < VGICD_ICFGR
                     then (True, vgic_write_irq_priority t (offset - VGICD_IPRIORITYR) sz val s) else (False, s)))"

definition vgicr_mmio_read :: "u32 \<Rightarrow> nat option \<Rightarrow> nat \<Rightarrow> vgicr_frame \<Rightarrow> vsys \<Rightarrow> u64" where
  "vgicr_mmio_read iidr target sz f s =
     (let offset = frame_offset f; p = frame_pcpu f; g = vgic s
      in if offset = VGICR_CTLR then ucast (gicr_ctlr g p AND NOT VGICR_CTLR_RWP)
         else if offset = VGICR_IIDR then ucast iidr
         else if offset = VGICR_TYPER then low_word (vgicr_typer_value g f)
         else if offset = VGICR_TYPER + 4 then high_word (vgicr_typer_value g f)
         else if offset = VGICR_WAKER
         then ucast (gicr_waker g p AND VGICR_WAKER_READ_MASK)
         else if offset = VGICR_PROPBASER then low_word (gicr_propbaser g p)
         else if offset = VGICR_PROPBASER + 4 then high_word (gicr_propbaser g p)
         else if offset = VGICR_PENDBASER then low_word (gicr_pendbaser g p)
         else if offset = VGICR_PENDBASER + 4 then high_word (gicr_pendbaser g p)
         else if offset = VGICR_SYNCR then 0
         else if offset = VGICR_PIDR2 then ucast GIC_PIDR2_ARCH_GICV3
         else if VGICR_SGI_BASE \<le> offset \<and> offset < VGICR_SGI_END
         then (case target of Some t \<Rightarrow> vgicr_sgi_mmio_read t sz (offset - VGICR_SGI_BASE) s | None \<Rightarrow> 0)
         else 0)"

definition vgicr_mmio_write :: "nat option \<Rightarrow> nat \<Rightarrow> u64 \<Rightarrow> vgicr_frame \<Rightarrow> vsys \<Rightarrow> bool \<times> vsys" where
  "vgicr_mmio_write target sz val f s =
     (let offset = frame_offset f; p = frame_pcpu f; g = vgic s;
          upd = (\<lambda>h. (False, if its_enabled g then s\<lparr>vgic := h g\<rparr> else s))
      in if offset = VGICR_CTLR
         then if its_enabled g
              then (target \<noteq> None, s\<lparr>vgic := g\<lparr>gicr_ctlr := (gicr_ctlr g)(p := ucast val AND VGICR_CTLR_ENABLE_LPIS)\<rparr>\<rparr>)
              else (False, s)
         else if offset = VGICR_WAKER then (False, s\<lparr>vgic := vgicr_write_waker p (ucast val) g\<rparr>)
         else if offset = VGICR_PROPBASER
         then upd (\<lambda>g. g\<lparr>gicr_propbaser := (gicr_propbaser g)(p := set_low (gicr_propbaser g p) val)\<rparr>)
         else if offset = VGICR_PROPBASER + 4
         then upd (\<lambda>g. g\<lparr>gicr_propbaser := (gicr_propbaser g)(p := set_high (gicr_propbaser g p) val)\<rparr>)
         else if offset = VGICR_PENDBASER
         then upd (\<lambda>g. g\<lparr>gicr_pendbaser := (gicr_pendbaser g)(p := set_low (gicr_pendbaser g p) val)\<rparr>)
         else if offset = VGICR_PENDBASER + 4
         then upd (\<lambda>g. g\<lparr>gicr_pendbaser := (gicr_pendbaser g)(p := set_high (gicr_pendbaser g p) val)\<rparr>)
         else if offset \<in> {VGICR_INVLPIR, VGICR_INVLPIR + 4, VGICR_INVALLR, VGICR_INVALLR + 4} then (False, s)
         else if VGICR_SGI_BASE \<le> offset \<and> offset < VGICR_SGI_END
         then (case target of Some t \<Rightarrow> vgicr_sgi_mmio_write t sz val (offset - VGICR_SGI_BASE) s | None \<Rightarrow> (False, s))
         else (False, s))"

definition flush_target_if :: "nat \<Rightarrow> nat option \<Rightarrow> bool \<Rightarrow> vsys \<Rightarrow> vsys" where
  "flush_target_if v target flush s =
     (if flush then case target of Some t \<Rightarrow> vgicv3_flush_target_vcpu v t s | None \<Rightarrow> s else s)"

definition vgicr_mmio_access ::
  "arch_vm_config \<Rightarrow> u32 \<Rightarrow> nat \<Rightarrow> acrn_mmio_request \<Rightarrow> vsys \<Rightarrow> int \<times> acrn_mmio_request \<times> vsys" where
  "vgicr_mmio_access cfg iidr v mmio s =
     (case vgicr_decode_frame cfg (address mmio) s of None \<Rightarrow> (- EINVAL, mmio, s)
      | Some f \<Rightarrow>
          (let target = (if frame_vcpu f = VGIC_INVALID_VCPU_ID then None else Some (frame_vcpu f));
               offset = frame_offset f; sz = mmio_size mmio; val = mmio_value mmio;
               irq_base = offset - VGICR_SGI_BASE - VGICD_IPRIORITYR
           in if offset \<ge> VGICR_SGI_BASE \<and> vgic_priority_access (offset - VGICR_SGI_BASE) sz
              then (case direction mmio of
                      ACRN_IOREQ_DIR_READ \<Rightarrow>
                        (0, mmio\<lparr>mmio_value := (case target of Some t \<Rightarrow> vgic_read_irq_priority t irq_base sz s | None \<Rightarrow> 0)\<rparr>, s)
                    | ACRN_IOREQ_DIR_WRITE \<Rightarrow>
                        (0, mmio, case target of None \<Rightarrow> s
                           | Some t \<Rightarrow> vgicv3_flush_target_vcpu v t (vgic_write_irq_priority t irq_base sz val s))
                    | Other_Direction \<Rightarrow> (- EINVAL, mmio, s))
              else if \<not> vgic_word_access offset sz then (- EINVAL, mmio, s)
              else case direction mmio of
                  ACRN_IOREQ_DIR_READ \<Rightarrow> (0, mmio\<lparr>mmio_value := vgicr_mmio_read iidr target sz f s\<rparr>, s)
                | ACRN_IOREQ_DIR_WRITE \<Rightarrow>
                    (let (flush, s) = vgicr_mmio_write target sz val f s in (0, mmio, flush_target_if v target flush s))
                | Other_Direction \<Rightarrow> (- EINVAL, mmio, s)))"

section \<open>Dispatch\<close>

definition addr_in_range :: "u64 \<Rightarrow> u64 \<Rightarrow> u64 \<Rightarrow> bool" where
  "addr_in_range addr base sz \<longleftrightarrow> sz \<noteq> 0 \<and> addr \<ge> base \<and> addr - base < sz"

definition vgicv3_mmio_dispatch ::
  "arch_vm_config \<Rightarrow> u32 \<Rightarrow> phys \<Rightarrow> nat \<Rightarrow> acrn_mmio_request \<Rightarrow> vsys \<Rightarrow> (int \<times> acrn_mmio_request \<times> vsys) option" where
  "vgicv3_mmio_dispatch cfg iidr m v mmio s =
     (if addr_in_range (address mmio) (guest_gicd_base cfg) (guest_gicd_size cfg)
      then Some (vgicd_mmio_access cfg iidr v mmio s)
      else if addr_in_range (address mmio) (guest_gicr_base cfg) (guest_gicr_size cfg)
      then Some (vgicr_mmio_access cfg iidr v mmio s)
      else if its_enabled (vgic s) \<and> addr_in_range (address mmio) (guest_its_base cfg) (guest_its_size cfg)
      then arm64_vgicv3_its_mmio_access cfg iidr m v mmio s
      else Some (- ENODEV, mmio, s))"

definition mmio_split ::
  "arch_vm_config \<Rightarrow> u32 \<Rightarrow> phys \<Rightarrow> nat \<Rightarrow> acrn_mmio_request \<Rightarrow> vsys \<Rightarrow> (int \<times> acrn_mmio_request \<times> vsys) option" where
  "mmio_split cfg iidr m v mmio s =
     (let low = mmio\<lparr>mmio_size := 4\<rparr>;
          high = mmio\<lparr>mmio_size := 4, address := address mmio + 4\<rparr>;
          (low, high) = (if direction mmio = ACRN_IOREQ_DIR_WRITE
                         then (low\<lparr>mmio_value := low_word (mmio_value mmio)\<rparr>, high\<lparr>mmio_value := high_word (mmio_value mmio)\<rparr>)
                         else (low, high))
      in case vgicv3_mmio_dispatch cfg iidr m v low s of None \<Rightarrow> None
         | Some (ret, low, s) \<Rightarrow>
             if ret \<noteq> 0 then Some (ret, mmio, s)
             else case vgicv3_mmio_dispatch cfg iidr m v high s of None \<Rightarrow> None
               | Some (ret, high, s) \<Rightarrow>
                   Some (ret, if ret = 0 \<and> direction mmio = ACRN_IOREQ_DIR_READ
                     then mmio\<lparr>mmio_value := low_word (mmio_value low) OR push_bit 32 (mmio_value high)\<rparr> else mmio, s))"

definition vgicv3_mmio_dispatch64 ::
  "arch_vm_config \<Rightarrow> u32 \<Rightarrow> phys \<Rightarrow> nat \<Rightarrow> acrn_mmio_request \<Rightarrow> vsys \<Rightarrow> (int \<times> acrn_mmio_request \<times> vsys) option" where
  "vgicv3_mmio_dispatch64 cfg iidr m v mmio s =
     (if its_enabled (vgic s) \<and> addr_in_range (address mmio) (guest_its_base cfg) (guest_its_size cfg)
      then (case arm64_vgicv3_its_mmio_access64 cfg m v mmio s of None \<Rightarrow> None
            | Some (Some s) \<Rightarrow> Some (0, mmio, s)
            | Some None \<Rightarrow> mmio_split cfg iidr m v mmio s)
      else mmio_split cfg iidr m v mmio s)"

definition vgicv3_mmio_access ::
  "arch_vm_config \<Rightarrow> u32 \<Rightarrow> phys \<Rightarrow> nat \<Rightarrow> acrn_mmio_request \<Rightarrow> vsys \<Rightarrow> (int \<times> acrn_mmio_request \<times> vsys) option" where
  "vgicv3_mmio_access cfg iidr m v mmio s =
     (if mmio_size mmio \<in> {1, 2, 4} then vgicv3_mmio_dispatch cfg iidr m v mmio s
      else if mmio_size mmio = 8 then vgicv3_mmio_dispatch64 cfg iidr m v mmio s
      else Some (- EINVAL, mmio, s))"

definition vgicv3_lrs_changed :: "arm64_vgicv3_vcpu_ctx \<Rightarrow> arm64_vgicv3_vcpu_ctx \<Rightarrow> bool" where
  "vgicv3_lrs_changed c old \<longleftrightarrow>
     used_lrs c \<noteq> used_lrs old \<or> hcr c \<noteq> hcr old \<or> (\<exists>i \<in> set [0..<ARM64_VGIC_MAX_LRS]. lr c i \<noteq> lr old i)"

definition arm64_vgicv3_mmio_handler ::
  "arch_vm_config \<Rightarrow> u32 \<Rightarrow> phys \<Rightarrow> acrn_mmio_request \<Rightarrow> vsys \<Rightarrow> (int \<times> acrn_mmio_request \<times> vsys) option" where
  "arm64_vgicv3_mmio_handler cfg iidr m mmio s =
     (case get_running_vcpu (here s) s of None \<Rightarrow> Some (- ENODEV, mmio, s)
      | Some v \<Rightarrow>
          (let old = vctx s v; s = vgicv3_sync_vcpu v True s
           in case vgicv3_mmio_access cfg iidr m v mmio s of None \<Rightarrow> None
              | Some (ret, mmio, s) \<Rightarrow>
                  Some (ret, mmio, if vgicv3_lrs_changed (vctx s v) old then vgicv3_flush_vcpu v True s else s)))"

section \<open>Initialisation\<close>

text \<open>The loop clears the lowest set bit, so it ends; the counter is 16 bits wide.\<close>

lemma and_minus_one_less: "x \<noteq> 0 \<Longrightarrow> unat (x AND (x - 1)) < unat x" for x :: u64
proof -
  assume "x \<noteq> 0"
  then have "unat (x - 1) < unat x" by (simp add: unat_gt_0 unat_minus_one)
  moreover have "x AND (x - 1) \<le> x - 1" by (simp add: word_and_le1)
  ultimately show ?thesis by (simp add: word_le_nat_alt)
qed

function count_affinity :: "u64 \<Rightarrow> u16 \<Rightarrow> u16" where
  "count_affinity affinity n = (if affinity \<noteq> 0 then count_affinity (affinity AND (affinity - 1)) (n + 1) else n)"
  by auto
termination by (relation "measure (\<lambda>(a, _). unat a)") (auto intro: and_minus_one_less)

declare count_affinity.simps [simp del]

definition arm64_vcpu_count_from_affinity :: "u64 \<Rightarrow> u16" where
  "arm64_vcpu_count_from_affinity affinity = count_affinity affinity 0"

definition min_u32 :: "u32 \<Rightarrow> u32 \<Rightarrow> u32" where "min_u32 a b = (if a < b then a else b)"

text \<open>
  The two static variables \<^verbatim>\<open>vgic_global_initialized\<close> and \<^verbatim>\<open>vgic_lr_count\<close>, with the value of ICH_VTR_EL2
  as a parameter; \<open>None\<close> is the panic.
\<close>

definition arm64_vgicv3_global_init :: "u64 \<Rightarrow> bool \<times> nat \<Rightarrow> (bool \<times> nat) option" where
  "arm64_vgicv3_global_init vtr g =
     (case g of (vgic_global_initialized, count) \<Rightarrow>
        if vgic_global_initialized then Some g
        else
          (let count = unat ((vtr AND 0x1f) + 1);
               count = (if count > ARM64_VGIC_MAX_LRS then ARM64_VGIC_MAX_LRS else count)
           in if count = 0 then None else Some (True, count)))"

definition init_irq :: "nat \<Rightarrow> nat \<Rightarrow> arm64_vgic_irq" where
  "init_irq v n = \<lparr>virq = n, pirq = 0xffff, priority = GIC_PRIORITY_DEFAULT,
     target_vcpu = (if n < ARM64_VGIC_LOCAL_IRQ_NUM then v mod 256 else 0), enabled = False, pending = False, active = False,
     level = n \<ge> ARM64_VGIC_SGI_NUM, group1 = True, groupmod = False, hw = False\<rparr>"

definition init_lpi :: "nat \<Rightarrow> nat \<Rightarrow> arm64_vgic_irq" where
  "init_lpi v n = \<lparr>virq = ARM64_VGIC_LPI_BASE + n, pirq = 0xffff, priority = GIC_PRIORITY_DEFAULT,
     target_vcpu = v mod 256, enabled = True, pending = False, active = False,
     level = False, group1 = True, groupmod = False, hw = False\<rparr>"

definition zero_its :: arm64_vits where
  "zero_its = \<lparr>its_ctlr = 0, its_typer = 0, cbaser = 0, cwriter = 0, creadr = 0, baser = (\<lambda>_. 0),
     collection = (\<lambda>_. \<lparr>collection_id = 0, coll_target = 0, coll_valid = False\<rparr>),
     its_device = (\<lambda>_. empty_device), its_event = (\<lambda>_ _. empty_event)\<rparr>"

definition init_vgic :: "arch_vm_config \<Rightarrow> nat \<Rightarrow> nat \<Rightarrow> arm64_vgicv3" where
  "init_vgic cfg lrs n =
     (let its_on = guest_its_size cfg \<noteq> 0;
          typer = (of_nat (ARM64_VGIC_IRQ_NUM div 32 - 1) AND 0x1f) OR push_bit 5 (of_nat (n - 1) AND 0x7);
          g = \<lparr>initialized = False, its_enabled = its_on, vcpu_count = n, rdist_count = n, lr_count = lrs,
               vgic_vmcr = ucast (ICH_VMCR_VENG1 OR ICH_VMCR_DEFAULT_MASK),
               gicd_ctlr = VGIC_CTLR_ARE_NS OR VGIC_CTLR_ENABLE_G1,
               gicd_typer = (if its_on then typer OR (push_bit VGICD_TYPER_NUM_LPIS_SHIFT 12 OR VGICD_TYPER_LPIS OR
                               push_bit VGICD_TYPER_IDBITS_SHIFT (of_nat (ARM64_VGIC_LPI_IDBITS - 1))) else typer),
               gicd_pidr2 = GIC_PIDR2_ARCH_GICV3, rdist_vcpu = (\<lambda>_. VGIC_INVALID_VCPU_ID), gicr_waker = (\<lambda>_. 0),
               spi_router = (\<lambda>_. 0), pending_bitmap = (\<lambda>_ _. 0), lpi_pending_bitmap = (\<lambda>_ _. 0),
               irq = init_irq, lpi = init_lpi, gicr_ctlr = (\<lambda>_. 0), gicr_propbaser = (\<lambda>_. 0), gicr_pendbaser = (\<lambda>_. 0),
               its = zero_its\<rparr>;
          g = (if its_on then arm64_vgicv3_its_init g else g)
      in g\<lparr>initialized := True\<rparr>)"

text \<open>After \<^verbatim>\<open>arm64_vgicv3_global_init\<close>, which fixed the number of list registers.\<close>

definition arm64_vgicv3_init_vm :: "arch_vm_config \<Rightarrow> u64 \<Rightarrow> vsys \<Rightarrow> vsys" where
  "arm64_vgicv3_init_vm cfg cpu_affinity s =
     (let n = unat (min_u32 (ucast (arm64_vcpu_count_from_affinity cpu_affinity)) (of_nat ARM64_VGIC_MAX_VCPUS));
          n = (if n = 0 then 1 else n)
      in s\<lparr>vgic := init_vgic cfg (vgic_lr_count s) n\<rparr>)"

end
