(* ===== verification/Vgic_Keep.thy ===== *)
theory Vgic_Keep
  imports Vgic_Mmio
begin

text \<open>
  Every call into the virtual interrupt controller keeps its invariant \<open>vinv\<close>: injections, SGIs,
  trapped registers, idling, context switches, translation-service commands and register accesses.
  The facts are conditional rewrite rules, collected in \<open>keeps\<close>, so that each proof follows the
  text of the call.
\<close>

named_theorems keeps

section \<open>State the invariant does not see\<close>

lemma vinv_cong:
  "vgic s' = vgic s \<Longrightarrow> vctx s' = vctx s \<Longrightarrow> ich s' = ich s \<Longrightarrow> vgic_lr_count s' = vgic_lr_count s \<Longrightarrow> vinv k s' = vinv k s"
  by (simp add: vinv_def)

lemma vinv_blind [simp]:
  "vinv k (s\<lparr>host := h\<rparr>) = vinv k s" "vinv k (s\<lparr>kicks := ks\<rparr>) = vinv k s" "vinv k (s\<lparr>pending_req := pr\<rparr>) = vinv k s"
  "vinv k (s\<lparr>intr_event := ie\<rparr>) = vinv k s" "vinv k (upd_gctx v f s) = vinv k s" "vinv k (upd_cntv g s) = vinv k s"
  by (rule vinv_cong; simp add: upd_gctx_def upd_cntv_def)+

definition same_irqs :: "arm64_vgicv3 \<Rightarrow> arm64_vgicv3 \<Rightarrow> bool" where
  "same_irqs g' g \<longleftrightarrow> irq g' = irq g \<and> lpi g' = lpi g \<and> pending_bitmap g' = pending_bitmap g \<and>
     lpi_pending_bitmap g' = lpi_pending_bitmap g \<and> lr_count g' = lr_count g"

lemma same_irqs_wf: "same_irqs g' g \<Longrightarrow> vgic_wf g' = vgic_wf g"
proof -
  assume "same_irqs g' g"
  then have "get_desc r g' = get_desc r g" "pend_bit r g' = pend_bit r g" for r by (cases r; simp add: same_irqs_def)+
  then show ?thesis by (simp add: vgic_wf_def)
qed

lemma vinv_regs [keeps]: "vinv k s \<Longrightarrow> same_irqs g (vgic s) \<Longrightarrow> vinv k (s\<lparr>vgic := g\<rparr>)"
  using same_irqs_wf [of g "vgic s"] by (simp add: vinv_def same_irqs_def)

lemma vinv_its [keeps]: "vinv k s \<Longrightarrow> vinv k (upd_its f s)"
  by (simp add: upd_its_def vinv_regs same_irqs_def)

section \<open>Synchronising, flushing and requests\<close>

text \<open>
  The contract of a pass over one vCPU, on which all calls rely: it keeps the invariant and the
  configuration, and leaves the other vCPUs alone.
\<close>

locale vcpu_pass =
  fixes pass :: "nat \<Rightarrow> bool \<Rightarrow> vsys \<Rightarrow> vsys"
  assumes pass_go: "vinv k s \<Longrightarrow> vgo k v s (pass v c s)"
begin

lemma pass_inv: "vinv k s \<Longrightarrow> vinv k (pass v c s)"
  by (rule vgo_vinv [OF pass_go])

lemma pass_kept:
  assumes "vinv k s"
  shows "w \<noteq> v \<Longrightarrow> vctx (pass v c s) w = vctx s w" "ref_vcpu r \<noteq> v \<Longrightarrow> desc r (pass v c s) = desc r s"
    "initialized (vgic (pass v c s)) = initialized (vgic s)" "created_vcpus (pass v c s) = created_vcpus s"
    "state (pass v c s) = state s" "level (desc r (pass v c s)) = level (desc r s)"
  using pass_go [OF assms, of v c] vgo_frame [OF pass_go [OF assms, of v c]] by (simp_all add: vgo_def)

end

interpretation sync_pass: vcpu_pass vgicv3_sync_vcpu
  by unfold_locales (rule vgo_sync)

interpretation flush_pass: vcpu_pass vgicv3_flush_vcpu
  by unfold_locales (rule vgo_flush)

lemmas vinv_sync [keeps] = sync_pass.pass_inv
lemmas vinv_flush [keeps] = flush_pass.pass_inv

lemma vinv_live_cpuif [keeps]: "vinv k s \<Longrightarrow> vinv k (vgicv3_sync_live_cpuif v s)"
  by (rule vgo_vinv [OF vgo_ctl(2) [OF vgo_refl]])

lemma vinv_remove [keeps]: "vinv k s \<Longrightarrow> vinv k (upd_ctx v (remove_lr i) s)"
  by (rule vgo_vinv [OF vgo_remove [OF vgo_refl]])

lemma vinv_host_mask [keeps]: "vinv k s \<Longrightarrow> vinv k (vtimer_set_host_mask v m s)"
  by (rule vgo_vinv [OF vgo_line(1) [OF vgo_refl]])

lemma vinv_sample [keeps]: "vinv k s \<Longrightarrow> vinv k (snd (arm64_vtimer_sample_current v s))"
  by (rule vgo_vinv [OF vgo_line(2) [OF vgo_refl]])

lemma vinv_timers [keeps]: "vinv k s \<Longrightarrow> vinv k (cntv_timer_arm v s)" "vinv k s \<Longrightarrow> vinv k (cntv_timer_disarm v s)"
  "vinv k s \<Longrightarrow> vinv k (arm64_vtimer_init_vcpu v s)"
  by (subst timer_step_vinv [of s]; simp)+

lemma vinv_hcr [keeps]: "vinv k s \<Longrightarrow> vinv k (write_ich_hcr_el2 x s)"
  by (rule vgo_vinv [OF vgo_live(1) [OF vgo_refl]])

lemma vinv_ctl_fields [keeps]:
  "vinv k s \<Longrightarrow> (\<And>c. lr (f c) = lr c) \<Longrightarrow> (\<And>c. used_lrs (f c) = used_lrs c) \<Longrightarrow> vinv k (upd_ctx v f s)"
  using vinv_ctx [of k s v] by (auto intro!: vinv_upd_ctx simp: ctx_wf_def)

lemma vinv_cpuif [keeps]:
  "vinv k s \<Longrightarrow> (\<And>r. ich_lr (f r) = ich_lr r) \<Longrightarrow> vinv k (upd_live f s)"
  by (rule vgo_vinv [where v = 0, OF vgo_upd_live [OF vgo_refl]]) simp_all

lemma vinv_put [keeps]:
  assumes "vinv k s" and "ref_ok r" and "find_lr_for_virq (vctx s v) (ref_id r) = Some i"
  shows "vinv k (upd_ctx v (set_lr i (make_lr_state (desc r s) p a)) s)"
  by (rule vgo_vinv [OF vgo_set_lr [OF vgo_refl [OF assms(1)] assms(2,3)]])

lemma vinv_kick [keeps]: "vinv k s \<Longrightarrow> vinv k (kick_vcpu v s)"
  by (simp add: kick_vcpu_def Let_def)

lemma vinv_request: "vinv k s \<Longrightarrow> vcpu_make_request v e s = Some s' \<Longrightarrow> vinv k s'"
  by (auto simp: vcpu_make_request_def Let_def vinv_kick split: option.splits)

lemma vinv_signal: "vinv k s \<Longrightarrow> signal_vcpu v s = Some s' \<Longrightarrow> vinv k s'"
  by (auto simp: signal_vcpu_def split: option.splits)

lemma vinv_request_and_signal: "vinv k s \<Longrightarrow> request_and_signal v s = Some s' \<Longrightarrow> vinv k s'"
  by (auto simp: request_and_signal_def split: option.splits dest: vinv_request vinv_signal)

section \<open>The calls\<close>

lemma vinv_flush_target [keeps]: "vinv k s \<Longrightarrow> vinv k (vgicv3_flush_target_vcpu c t s)"
  by (simp add: vgicv3_flush_target_vcpu_def keeps)

lemma vinv_fold: "(\<And>x s. x \<in> set xs \<Longrightarrow> vinv k s \<Longrightarrow> vinv k (f x s)) \<Longrightarrow> vinv k s \<Longrightarrow> vinv k (fold f xs s)"
  by (induction xs arbitrary: s) auto

lemma vinv_flush_vm [keeps]: "vinv k s \<Longrightarrow> vinv k (vgicv3_flush_vm c s)"
  unfolding vgicv3_flush_vm_def by (rule vinv_fold) (simp_all add: keeps)

lemma vinv_simple_calls [keeps]:
  assumes "vinv k s"
  shows "vinv k (arm64_vgicv3_sync_vcpu v s)" "vinv k (arm64_vgicv3_sync_current_vcpu v s)" "vinv k (arm64_vgicv3_flush_vcpu v s)"
    "vinv k (arm64_vgicv3_flush_current_vcpu v s)" "vinv k (arm64_vgicv3_flush_current_vcpu_with_lock v s)"
    "vinv k (arm64_vgicv3_refresh_current_level_irq n s)" "vinv k (arm64_vgicv3_maintenance_irq_handler s)"
  using assms
  by (simp_all add: arm64_vgicv3_sync_vcpu_def arm64_vgicv3_sync_current_vcpu_def arm64_vgicv3_flush_vcpu_def
      arm64_vgicv3_flush_current_vcpu_def arm64_vgicv3_flush_current_vcpu_with_lock_def
      arm64_vgicv3_refresh_current_level_irq_def arm64_vgicv3_maintenance_irq_handler_def keeps split: option.split)

lemma vinv_inject_locked [keeps]: "vinv k s \<Longrightarrow> vinv k (snd (vgic_inject_locked t n l s))"
  using vgic_irq_desc_Some [of t n s]
  by (auto simp: vgic_inject_locked_def Let_def keeps vinv_set_pending vinv_set_desc split: option.split)

lemma vinv_inject:
  "vinv k s \<Longrightarrow> arm64_vgicv3_inject_irq_to t n l s = Some (ret, s') \<Longrightarrow> vinv k s'"
  "vinv k s \<Longrightarrow> arm64_vgicv3_inject_irq v n l s = Some (ret, s') \<Longrightarrow> vinv k s'"
  using vinv_inject_locked [of k s t n l] vinv_inject_locked [of k s "vgic_irq_target_vcpu v n s" n l]
  by (auto simp: arm64_vgicv3_inject_irq_to_def arm64_vgicv3_inject_irq_def Let_def split_beta
      split: if_splits dest: vinv_request_and_signal)

lemma vinv_drop_lr [keeps]:
  "vinv k s \<Longrightarrow> vinv k (case find_lr_for_virq c n of None \<Rightarrow> s | Some i \<Rightarrow> upd_ctx v (remove_lr i) s)"
  by (simp add: vinv_remove split: option.split)

lemma vinv_request_flushed:
  assumes "vinv k u" and "map_option (Pair 0) (vcpu_make_request v e (if b then vgicv3_flush_vcpu v False u else u)) = Some (ret, w)"
  shows "vinv k w"
proof -
  have "vinv k (if b then vgicv3_flush_vcpu v False u else u)" using assms(1) by (simp add: vinv_flush)
  from vinv_request [OF this] show ?thesis using assms(2) by (auto simp del: if_split)
qed

lemma vinv_clear:
  assumes "vinv k s" and "arm64_vgicv3_clear_irq v n s = Some (ret, s')"
  shows "vinv k s'"
proof (cases "vgic_irq_desc v n s")
  case (Some r)
  note r = vgic_irq_desc_Some [OF Some]
  show ?thesis
    by (rule vinv_request_flushed [OF _ assms(2) [unfolded arm64_vgicv3_clear_irq_def Let_def Some option.case]])
      (intro vinv_set_desc vinv_set_pending vinv_drop_lr vinv_sync assms r; simp)
qed (use assms in \<open>simp add: arm64_vgicv3_clear_irq_def\<close>)

lemma vinv_deassert:
  assumes "vinv k s" and "arm64_vgicv3_deassert_irq v n s = Some (ret, s')"
  shows "vinv k s'"
proof (cases "vgic_irq_desc v n s")
  case (Some r)
  note r = vgic_irq_desc_Some [OF Some]
  show ?thesis
    by (rule vinv_request_flushed [OF _ assms(2) [unfolded arm64_vgicv3_deassert_irq_def Let_def Some option.case]])
      (intro vinv_update_irq_lr vinv_set_pending vinv_sync assms r)
qed (use assms in \<open>simp add: arm64_vgicv3_deassert_irq_def\<close>)

lemma vinv_sgi_loop: "vinv k s \<Longrightarrow> sgi_loop v x ts s = Some s' \<Longrightarrow> vinv k s'"
proof (induction ts arbitrary: s)
  case (Cons t ts)
  show ?case
    using Cons.prems
    by (auto split: if_splits option.splits elim!: Cons.IH [rotated] intro!: vinv_kick elim: vinv_inject(1) [OF Cons.prems(1)])
qed simp

lemma vinv_sgi: "vinv k s \<Longrightarrow> arm64_vgicv3_handle_sgi1r v x s = Some (ret, s') \<Longrightarrow> vinv k s'"
  by (auto simp: arm64_vgicv3_handle_sgi1r_def dest: vinv_sgi_loop)

section \<open>The timer line and the CPU interface\<close>

lemma vinv_if: "(b \<Longrightarrow> vinv k s) \<Longrightarrow> (\<not> b \<Longrightarrow> vinv k t) \<Longrightarrow> vinv k (if b then s else t)"
  by simp

lemma vinv_line_lr:
  assumes "vinv k s" and "ref_ok r" and "ref_id r = n"
  shows "vinv k (case find_lr_for_virq (vctx s v) n of None \<Rightarrow> s
    | Some i \<Rightarrow> if b i then upd_ctx v (set_lr i (make_lr_state (desc r s) p (a i))) s else upd_ctx v (remove_lr i) s)"
  using assms vinv_put [OF assms(1,2)] vinv_remove [OF assms(1)] by (auto split: option.split)

lemma vinv_timer_line [keeps]: "vinv k s \<Longrightarrow> vinv k (vgicv3_sync_timer_line_locked v c l s)"
proof -
  assume inv: "vinv k s"
  define t where "t = upd_gctx v (timer_virq_update (\<lambda>_. ARM64_GIC_PPI_VIRTUAL_TIMER)) s"
  have t: "vinv k t" using inv by (simp add: t_def)
  show ?thesis
  proof (cases "vgic_irq_desc v ARM64_GIC_PPI_VIRTUAL_TIMER t")
    case (Some r)
    note r = vgic_irq_desc_Some [OF Some]
    have u: "vinv k (vgic_set_pending v r l (set_desc r (\<lambda>d. d\<lparr>level := True\<rparr>) t))"
      using t r by (intro vinv_set_pending vinv_set_desc) simp_all
    show ?thesis
      unfolding vgicv3_sync_timer_line_locked_def Let_def t_def [symmetric] Some option.case
      by (intro vinv_flush vinv_if vinv_timers vinv_host_mask vinv_line_lr [OF u r(1,3)])
  qed (use t in \<open>simp add: vgicv3_sync_timer_line_locked_def Let_def t_def [symmetric]\<close>)
qed

lemma vinv_current_timer_line [keeps]: "vinv k s \<Longrightarrow> vinv k (arm64_vgicv3_sync_current_timer_line v l s)"
  by (simp add: arm64_vgicv3_sync_current_timer_line_def keeps)

lemma vinv_deactivate [keeps]: "vinv k s \<Longrightarrow> vinv k (vgicv3_deactivate_irq_locked v n s)"
proof -
  assume inv: "vinv k s"
  define t where "t = vgicv3_sync_vcpu v True s"
  have t: "vinv k t" unfolding t_def by (rule vinv_sync [OF inv])
  show ?thesis
    using inv t unfolding vgicv3_deactivate_irq_locked_def Let_def t_def [symmetric] split_beta
    by (auto split: option.split dest: vgic_irq_desc_Some
        intro!: vinv_host_mask vinv_set_pending vinv_set_desc vinv_remove vinv_sample)
qed

lemma vinv_cpuif_write [keeps]: "vinv k s \<Longrightarrow> vinv k (snd (snd (cpuif_write v r x s)))"
  by (cases r) (auto simp: cpuif_write_def vinv_deactivate intro!: vinv_ctl_fields)

lemma vinv_cpuif_control [keeps]: "vinv k s \<Longrightarrow> vinv k (vgicv3_write_cpuif_control c s)"
  unfolding vgicv3_write_cpuif_control_def by (rule vinv_cpuif) simp_all

lemma vinv_cpuif_sysreg [keeps]: "vinv k s \<Longrightarrow> vinv k (snd (snd (arm64_vgicv3_handle_cpuif_sysreg v r rd x s)))"
  using vinv_cpuif_write [of k s v r x]
  by (auto simp: arm64_vgicv3_handle_cpuif_sysreg_def Let_def split_beta intro!: vinv_flush vinv_cpuif_control)

section \<open>Idling and context switches\<close>

lemma vinv_complete_timer [keeps]:
  "vinv k s \<Longrightarrow> ref_ok r \<Longrightarrow> ref_vcpu r = v \<Longrightarrow> vinv k (snd (snd (vgicv3_complete_timer_lr v r i s)))"
  by (auto simp: vgicv3_complete_timer_lr_def Let_def split_beta
      intro!: vinv_host_mask vinv_remove vinv_set_pending vinv_set_desc vinv_sample)

lemma vinv_wfi_lr: "vinv k s \<Longrightarrow> vinv k (snd (complete_wfi_lr v i s))"
  using vgic_irq_desc_Some [of v "lr_vintid (lr (vctx s v) i)" s]
  by (auto simp: complete_wfi_lr_def Let_def split_beta split: option.split
      intro!: vinv_remove vinv_set_desc vinv_complete_timer)

lemma vinv_wfi_loop: "vinv k s \<Longrightarrow> vinv k (complete_wfi_loop v i s)"
proof (induction v i s rule: complete_wfi_loop.induct)
  case (1 v i s)
  show ?case
  proof (cases "i < used_lrs (vctx s v)")
    case True
    then show ?thesis
      using "1.IH" [OF True prod.collapse vinv_wfi_lr [OF "1.prems"]]
      by (subst complete_wfi_loop.simps) (simp add: split_beta)
  qed (use 1 in \<open>simp add: complete_wfi_loop.simps\<close>)
qed

lemma vinv_wfi [keeps]: "vinv k s \<Longrightarrow> vinv k (arm64_vgicv3_complete_wfi_irqs v s)"
  by (simp add: arm64_vgicv3_complete_wfi_irqs_def vinv_flush vinv_wfi_loop vinv_sync)

lemma vinv_pending_queries [keeps]:
  "vinv k s \<Longrightarrow> vinv k (snd (arm64_vgicv3_has_pending_irq v s))"
  "vinv k s \<Longrightarrow> vinv k (snd (arm64_vgicv3_pending_irq_blocks_reschedule v s))"
  by (simp_all add: arm64_vgicv3_has_pending_irq_def arm64_vgicv3_pending_irq_blocks_reschedule_def Let_def vinv_live_cpuif)

lemma vinv_load [keeps]: "vinv k s \<Longrightarrow> vinv k (arm64_vgicv3_load_vcpu v s)"
proof -
  assume inv: "vinv k s"
  define t where "t = upd_live (\<lambda>r. r\<lparr>icc_pmr := pmr (vctx s v), ich_vmcr := vmcr (vctx s v), ich_ap0r0 := ap0r0 (vctx s v),
    ich_ap1r0 := ap1r0 (vctx s v)\<rparr>) (upd_live (\<lambda>r. r\<lparr>icc_sre := sre (vctx s v) OR ICC_SRE_SRE\<rparr>) s)"
  have "vinv k t" unfolding t_def by (intro vinv_cpuif inv) simp_all
  moreover have "vctx t = vctx s" by (simp add: t_def)
  ultimately have "vinv k (vgicv3_write_lrs (vctx s v) t)" using vgo_vinv [OF vgo_write_lrs [OF vgo_refl]] by metis
  then show ?thesis
    by (simp add: arm64_vgicv3_load_vcpu_def vgicv3_write_cpuif_def Let_def t_def [symmetric] vinv_hcr)
qed

lemma vinv_save [keeps]: "vinv k s \<Longrightarrow> vinv k (arm64_vgicv3_save_vcpu v s)"
proof -
  have read: "vinv k (upd_ctx v (vgicv3_read_lrs t) t)" if "vinv k t" for t
    using that vinv_live [OF that] vinv_hw_count [OF that] by (intro vinv_upd_ctx ctx_wf_read_lrs) simp_all
  assume "vinv k s"
  then show ?thesis
    unfolding arm64_vgicv3_save_vcpu_def Let_def by (intro vinv_hcr read vinv_ctl_fields vinv_live_cpuif) simp_all
qed

lemma vinv_init_vcpu [keeps]: "vinv k s \<Longrightarrow> vinv k (arm64_vgicv3_init_vcpu v s)"
proof -
  assume inv: "vinv k s"
  have "vinv k (upd_ctx v (\<lambda>_. empty_ctx\<lparr>hcr := a, vmcr := b, sre := c, pmr := d, ctlr := e\<rparr>) s)" for a b c d e
    using inv by (intro vinv_upd_ctx) (simp_all add: ctx_wf_def empty_ctx_def lrs_ok_def)
  then show ?thesis
    unfolding arm64_vgicv3_init_vcpu_def Let_def by (auto intro!: vinv_regs vinv_timers simp: same_irqs_def)
qed

lemma vinv_clear_irq_state: "vinv k s \<Longrightarrow> ref_ok r \<Longrightarrow> ref_vcpu r = v \<Longrightarrow> vinv k (clear_irq_state v r s)"
  by (simp add: clear_irq_state_def vinv_set_desc vinv_set_pending)

lemma vinv_reset [keeps]: "vinv k s \<Longrightarrow> vinv k (arm64_vgicv3_reset_vcpu_boot_state v s)"
proof -
  have "vinv k (vgicv3_clear_vcpu_boot_irqs v t)" if "vinv k t" for t
    using that unfolding vgicv3_clear_vcpu_boot_irqs_def Let_def
    by (auto intro!: vinv_fold vinv_clear_irq_state simp: vgic_sizes)
  then show "vinv k s \<Longrightarrow> ?thesis"
    by (simp add: arm64_vgicv3_reset_vcpu_boot_state_def Let_def vinv_init_vcpu vinv_timers)
qed

end
