(* ===== verification/Vgic_Run.thy ===== *)
theory Vgic_Run
  imports Vgic_Keep
begin

text \<open>
  Runs of the virtual interrupt controller. The translation service and the register accesses keep
  the invariant as well; a VM starts in it; and the hardware, which between calls may only retire or
  acknowledge what is in the list registers, does not break it. So it holds along every interleaving
  of calls on all CPUs with the hardware.
\<close>

section \<open>The translation service\<close>

lemma vinv_lpi_rows: "vinv k s \<Longrightarrow> vinv k (enable_lpi_rows j m s)"
  by (induction m) (auto intro!: vinv_set_desc)

lemma vinv_inject_event: "vinv k s \<Longrightarrow> vits_inject_event_locked ev s = Some s' \<Longrightarrow> vinv k s'"
proof -
  assume inv: "vinv k s" and run: "vits_inject_event_locked ev s = Some s'"
  have "vinv k (snd (vgic_inject_locked t n False (set_desc r (\<lambda>d. d\<lparr>target_vcpu := x\<rparr>) s)))" for t n r x
    by (intro vinv_inject_locked vinv_set_desc inv) simp_all
  then show ?thesis
    using inv run
    by (auto simp: vits_inject_event_locked_def Let_def split_beta split: option.splits if_splits prod.splits
        intro!: vinv_kick elim!: vinv_request_and_signal [rotated])
qed

lemma vinv_mapti: "vinv k s \<Longrightarrow> vinv k (vits_mapti d e n c s)"
  unfolding vits_mapti_def Let_def split_beta
  by (auto split: option.split prod.split intro!: vinv_lpi_rows vinv_its)

lemma vinv_clear_cmd: "vinv k s \<Longrightarrow> vinv k (vits_clear d e s)"
  by (auto simp: vits_clear_def Let_def vits_irq_is_lpi_def vits_lpi_index_def vgic_sizes split: option.split prod.split
      intro!: vinv_update_irq_row_lr vinv_set_desc vinv_set_pending)

lemma vinv_mapc: "vinv k s \<Longrightarrow> vinv k (s\<lparr>vgic := vits_mapc c x b (vgic s)\<rparr>)"
  by (auto intro!: vinv_regs simp: same_irqs_def vits_mapc_def split: option.split)

lemma vinv_execute_cmd: "vinv k s \<Longrightarrow> vits_execute_cmd cmd s = Some s' \<Longrightarrow> vinv k s'"
  by (cases cmd) (auto simp: vits_execute_cmd_def Let_def vinv_its vinv_mapc vinv_mapti vinv_clear_cmd
      split: if_splits elim: vinv_inject_event)

lemma vinv_cmd_loop: "vinv k s \<Longrightarrow> cmd_loop cfg m b z w n f r s = Some (f', r', s') \<Longrightarrow> vinv k s'"
  by (induction n arbitrary: f r s) (auto split: if_splits option.splits dest: vinv_execute_cmd)

lemma vinv_queue: "vinv k s \<Longrightarrow> vits_process_command_queue cfg m s = Some (f, s') \<Longrightarrow> vinv k s'"
  by (auto simp: vits_process_command_queue_def Let_def vinv_its split: if_splits option.splits dest: vinv_cmd_loop)

lemma vinv_msi: "vinv k s \<Longrightarrow> arm64_vgicv3_inject_msi d e s = Some (ret, s') \<Longrightarrow> vinv k s'"
  by (auto simp: arm64_vgicv3_inject_msi_def arm64_vgicv3_its_inject_msi_def split: if_splits option.splits
      dest: vinv_inject_event)

lemma vinv_its_read: "vinv k s \<Longrightarrow> vits_mmio_read cfg iidr m off s = Some (f, x, s') \<Longrightarrow> vinv k s'"
  by (auto simp: vits_mmio_read_def Let_def split: if_splits elim: vinv_queue)

lemma vinv_its_write:
  assumes "vinv k s" and "vits_mmio_write cfg m off x s = Some (f, s')"
  shows "vinv k s'"
  using assms vinv_its [OF assms(1)]
  by (auto simp: vits_mmio_write_def Let_def vits_write_translater_def split: if_splits
      elim!: vinv_queue [rotated] intro: assms(1) vinv_inject_event [OF assms(1)])

lemma vinv_flush_if: "vinv k s \<Longrightarrow> vinv k (flush_if v f s)"
  by (simp add: flush_if_def vinv_flush_vm)

lemma vinv_its_access: "vinv k s \<Longrightarrow> arm64_vgicv3_its_mmio_access cfg iidr m v q s = Some (ret, q', s') \<Longrightarrow> vinv k s'"
  by (auto simp: arm64_vgicv3_its_mmio_access_def Let_def vinv_flush_if split: if_splits mmio_direction.splits
      dest: vinv_its_read vinv_its_write)

lemma vinv_its_access64:
  assumes "vinv k s" and "arm64_vgicv3_its_mmio_access64 cfg m v q s = Some (Some s')"
  shows "vinv k s'"
  using assms(2)
  by (auto simp: arm64_vgicv3_its_mmio_access64_def Let_def split: if_splits
      intro!: vinv_flush_if dest: vinv_queue [OF vinv_its [OF assms(1)]])

section \<open>Register accesses\<close>

lemma vinv_spi_rows:
  assumes "vinv k s" and "n < ARM64_VGIC_IRQ_NUM" and "\<And>d. virq (f d) = virq d" and "\<And>d. pending (f d) = pending d"
  shows "vinv k (set_spi_rows n f m s)"
  using assms by (induction m) (auto intro!: vinv_update_irq_row_lr vinv_set_desc)

lemma vinv_irq_field:
  assumes "vinv k s" and "\<And>d. virq (f d) = virq d" and "\<And>d. pending (f d) = pending d"
  shows "vinv k (set_irq_field v n f s)"
  using assms vinv_spi_rows [OF assms(1) _ assms(2,3)]
  by (auto simp: set_irq_field_def vgic_irq_is_spi_def split: option.split
      intro!: vinv_update_irq_lr vinv_set_desc dest: vgic_irq_desc_Some)

lemma vinv_write_bit: "vinv k s \<Longrightarrow> vinv k (write_irq_bit v b sel x i s)"
  unfolding write_irq_bit_def Let_def
  by (cases sel) (auto intro!: vinv_irq_field vinv_update_irq_row_lr vinv_set_pending vinv_set_desc)

lemma vinv_write_config: "vinv k s \<Longrightarrow> vinv k (write_irq_config v b x i s)"
  unfolding write_irq_config_def Let_def
  by (auto intro!: vinv_irq_field vinv_update_irq_lr vinv_set_desc split: option.split dest: vgic_irq_desc_Some)

lemma vinv_irq_writes:
  assumes "vinv k s"
  shows "vinv k (vgic_write_irq_priority v b z x s)" "vinv k (vgic_write_irq_bits v b sel y s)"
    "vinv k (vgic_write_irq_target b z x s)" "vinv k (vgic_write_irq_config v b y s)"
  unfolding vgic_write_irq_priority_def vgic_write_irq_bits_def vgic_write_irq_target_def vgic_write_irq_config_def
  using assms by (auto intro!: vinv_fold vinv_irq_field vinv_write_bit vinv_write_config vinv_set_spi_target simp: Let_def)

lemma vinv_irouter: "vinv k s \<Longrightarrow> vinv k (vgic_write_irouter_word reg y s)"
  by (cases reg) (auto simp: vgic_write_irouter_word_def Let_def same_irqs_def intro!: vinv_set_spi_target vinv_regs)

lemma vinv_gicd_write: "vinv k s \<Longrightarrow> vinv k (snd (vgicd_mmio_write v z x off s))"
  by (auto simp: vgicd_mmio_write_def vinv_irq_writes vinv_irouter same_irqs_def split: option.split prod.split
      intro!: vinv_regs)

lemma vinv_gicd_access: "vinv k s \<Longrightarrow> vinv k (snd (snd (vgicd_mmio_access cfg iidr v q s)))"
  using vinv_gicd_write
  by (auto simp: vgicd_mmio_access_def Let_def split_beta vinv_irq_writes vinv_flush_vm vinv_flush_if
      split: mmio_direction.split)

lemma vinv_snd_if: "(b \<Longrightarrow> vinv k (snd p)) \<Longrightarrow> (\<not> b \<Longrightarrow> vinv k (snd q)) \<Longrightarrow> vinv k (snd (if b then p else q))"
  by simp

lemma vinv_gicr_sgi_write: "vinv k s \<Longrightarrow> vinv k (snd (vgicr_sgi_mmio_write t z x off s))"
  by (auto simp: vgicr_sgi_mmio_write_def vinv_irq_writes split: option.split prod.split)

lemma vinv_gicr_write:
  assumes "vinv k s"
  shows "vinv k (snd (vgicr_mmio_write t z x f s))"
proof -
  have regs: "vinv k (s\<lparr>vgic := g\<rparr>)" if "same_irqs g (vgic s)" for g using vinv_regs [OF assms that] .
  have sgi: "vinv k (snd (case t of Some t \<Rightarrow> vgicr_sgi_mmio_write t z x off s | None \<Rightarrow> (False, s)))" for off
    using assms by (simp add: vinv_gicr_sgi_write split: option.split)
  have upd: "vinv k (snd (False, if b then s\<lparr>vgic := g\<rparr> else s))" if "same_irqs g (vgic s)" for b g
    using regs [OF that] assms by simp
  show ?thesis
    unfolding vgicr_mmio_write_def Let_def vgicr_write_waker_def
    by (intro vinv_snd_if sgi upd) (simp_all add: same_irqs_def regs assms)
qed

lemma vinv_flush_target_if: "vinv k s \<Longrightarrow> vinv k (flush_target_if v t b s)"
  by (simp add: flush_target_if_def vinv_flush_target split: option.split)

lemma vinv_gicr_access: "vinv k s \<Longrightarrow> vinv k (snd (snd (vgicr_mmio_access cfg iidr v q s)))"
  using vinv_gicr_write
  by (auto simp: vgicr_mmio_access_def Let_def split_beta vinv_irq_writes vinv_flush_target vinv_flush_target_if
      split: mmio_direction.split option.split)

lemma vinv_dispatch: "vinv k s \<Longrightarrow> vgicv3_mmio_dispatch cfg iidr m v q s = Some (ret, q', s') \<Longrightarrow> vinv k s'"
  using vinv_gicd_access [of k s cfg iidr v q] vinv_gicr_access [of k s cfg iidr v q]
  by (auto simp: vgicv3_mmio_dispatch_def split: if_splits dest: vinv_its_access)

lemma vinv_split:
  assumes "vinv k s" and "mmio_split cfg iidr m v q s = Some (ret, q', s')"
  shows "vinv k s'"
  using assms(2)
  by (auto simp: mmio_split_def Let_def split_beta split: option.splits if_splits
      dest!: vinv_dispatch [OF assms(1)] dest: vinv_dispatch)

lemma vinv_access: "vinv k s \<Longrightarrow> vgicv3_mmio_access cfg iidr m v q s = Some (ret, q', s') \<Longrightarrow> vinv k s'"
  by (auto simp: vgicv3_mmio_access_def vgicv3_mmio_dispatch64_def split: if_splits option.splits
      dest: vinv_dispatch vinv_split vinv_its_access64)

lemma vinv_mmio: "vinv k s \<Longrightarrow> arm64_vgicv3_mmio_handler cfg iidr m q s = Some (ret, q', s') \<Longrightarrow> vinv k s'"
  by (auto simp: arm64_vgicv3_mmio_handler_def Let_def split: option.splits if_splits
      intro!: vinv_flush dest: vinv_access [OF vinv_sync])

section \<open>The initial state\<close>

lemma init_vgic_fields:
  "irq (init_vgic cfg l n) = init_irq" "lpi (init_vgic cfg l n) = init_lpi"
  "pending_bitmap (init_vgic cfg l n) = (\<lambda>_ _. 0)" "lpi_pending_bitmap (init_vgic cfg l n) = (\<lambda>_ _. 0)"
  "lr_count (init_vgic cfg l n) = l" "initialized (init_vgic cfg l n)" "vcpu_count (init_vgic cfg l n) = n"
  by (simp_all add: init_vgic_def Let_def arm64_vgicv3_its_init_def)

lemma vgic_wf_init: "vgic_wf (init_vgic cfg l n)"
proof -
  have "virq (get_desc r (init_vgic cfg l n)) = ref_id r \<and> pend_bit r (init_vgic cfg l n) = pending (get_desc r (init_vgic cfg l n))"
    for r by (cases r) (simp_all add: init_vgic_fields init_irq_def init_lpi_def)
  then show ?thesis by (simp add: vgic_wf_def)
qed

text \<open>Contexts without list registers and cleared hardware registers, as after reset.\<close>

definition boot_state :: "nat \<Rightarrow> vsys \<Rightarrow> bool" where
  "boot_state k s \<longleftrightarrow> vgic_lr_count s = k \<and> (\<forall>v. used_lrs (vctx s v) = 0) \<and> (\<forall>p i. ich_lr (ich s p) i = 0)"

lemma lr_zero [simp]: "\<not> lr_valid 0"
  by (simp add: lr_state_def ICH_LR_STATE_INVALID_def)

lemma vinv_init_vm:
  assumes "boot_state k s" and "k \<le> ARM64_VGIC_MAX_LRS"
  shows "vinv k (arm64_vgicv3_init_vm cfg affinity s)"
  using assms vgic_wf_init
  by (simp add: arm64_vgicv3_init_vm_def Let_def vinv_def boot_state_def init_vgic_fields ctx_wf_def lrs_ok_def)

lemma global_init_bound:
  "arm64_vgicv3_global_init vtr (False, c) = Some (True, k) \<Longrightarrow> 1 \<le> k \<and> k \<le> ARM64_VGIC_MAX_LRS"
  by (auto simp: arm64_vgicv3_global_init_def Let_def vgic_sizes split: if_splits)

section \<open>Runs\<close>

datatype vcall =
    Inject nat nat bool | Clear_Irq nat nat | Deassert nat nat | Sgi nat u64 | Msi u32 u32
  | Cpuif nat cpuif_reg bool u64 | Mmio acrn_mmio_request | Maintenance | Refresh nat | Timer_Line nat bool | Wfi nat
  | Query nat | Sync nat | Flush nat | Load nat | Save nat | Reset nat

fun vgic_exec :: "arch_vm_config \<Rightarrow> u32 \<Rightarrow> phys \<Rightarrow> vcall \<Rightarrow> vsys \<Rightarrow> vsys option" where
  "vgic_exec cfg iidr m (Inject v n l) s = map_option snd (arm64_vgicv3_inject_irq v n l s)"
| "vgic_exec cfg iidr m (Clear_Irq v n) s = map_option snd (arm64_vgicv3_clear_irq v n s)"
| "vgic_exec cfg iidr m (Deassert v n) s = map_option snd (arm64_vgicv3_deassert_irq v n s)"
| "vgic_exec cfg iidr m (Sgi v x) s = map_option snd (arm64_vgicv3_handle_sgi1r v x s)"
| "vgic_exec cfg iidr m (Msi d e) s = map_option snd (arm64_vgicv3_inject_msi d e s)"
| "vgic_exec cfg iidr m (Cpuif v r rd x) s = Some (snd (snd (arm64_vgicv3_handle_cpuif_sysreg v r rd x s)))"
| "vgic_exec cfg iidr m (Mmio q) s = map_option (snd \<circ> snd) (arm64_vgicv3_mmio_handler cfg iidr m q s)"
| "vgic_exec cfg iidr m Maintenance s = Some (arm64_vgicv3_maintenance_irq_handler s)"
| "vgic_exec cfg iidr m (Refresh n) s = Some (arm64_vgicv3_refresh_current_level_irq n s)"
| "vgic_exec cfg iidr m (Timer_Line v l) s = Some (arm64_vgicv3_sync_current_timer_line v l s)"
| "vgic_exec cfg iidr m (Wfi v) s = Some (arm64_vgicv3_complete_wfi_irqs v s)"
| "vgic_exec cfg iidr m (Query v) s = Some (snd (arm64_vgicv3_has_pending_irq v s))"
| "vgic_exec cfg iidr m (Sync v) s = Some (arm64_vgicv3_sync_current_vcpu v s)"
| "vgic_exec cfg iidr m (Flush v) s = Some (arm64_vgicv3_flush_current_vcpu_with_lock v s)"
| "vgic_exec cfg iidr m (Load v) s = Some (arm64_vgicv3_load_vcpu v s)"
| "vgic_exec cfg iidr m (Save v) s = Some (arm64_vgicv3_save_vcpu v s)"
| "vgic_exec cfg iidr m (Reset v) s = Some (arm64_vgicv3_reset_vcpu_boot_state v s)"

lemma vinv_exec: "vinv k s \<Longrightarrow> vgic_exec cfg iidr m c s = Some s' \<Longrightarrow> vinv k s'"
  by (cases c) (auto simp: vinv_cpuif_sysreg vinv_simple_calls vinv_current_timer_line vinv_wfi vinv_pending_queries
      vinv_load vinv_save vinv_reset elim: vinv_inject vinv_clear vinv_deassert vinv_sgi vinv_msi vinv_mmio)

text \<open>
  What the hardware may do to a list register between calls: it keeps the interrupt number and does
  not fill an empty register; acknowledging makes a pending interrupt active, completion empties the
  register. The scheduler, the timers, the comparator and all other registers may change in any way.
\<close>

definition hw_lr_step :: "u64 \<Rightarrow> u64 \<Rightarrow> bool" where
  "hw_lr_step x y \<longleftrightarrow> lr_vintid y = lr_vintid x \<and> (lr_valid y \<longrightarrow> lr_valid x)"

definition env_step :: "vsys \<Rightarrow> vsys \<Rightarrow> bool" where
  "env_step s s' \<longleftrightarrow> vgic s' = vgic s \<and> vctx s' = vctx s \<and> vgic_lr_count s' = vgic_lr_count s \<and>
     (\<forall>p i. hw_lr_step (ich_lr (ich s p) i) (ich_lr (ich s' p) i))"

lemma vinv_env:
  assumes "vinv k s" and "env_step s s'"
  shows "vinv k s'"
proof -
  have "lrs_ok (ich_lr (ich s' p)) k" for p
  proof -
    have ok: "lrs_ok (ich_lr (ich s p)) k" using assms(1) by (rule vinv_live)
    have "lr_valid (ich_lr (ich s' p) i) \<Longrightarrow> lr_valid (ich_lr (ich s p) i)"
      "lr_vintid (ich_lr (ich s' p) i) = lr_vintid (ich_lr (ich s p) i)" for i
      using assms(2) by (auto simp: env_step_def hw_lr_step_def)
    with ok show ?thesis unfolding lrs_ok_def by simp
  qed
  then show ?thesis using assms by (simp add: vinv_def env_step_def)
qed

inductive vgic_step :: "arch_vm_config \<Rightarrow> u32 \<Rightarrow> vsys \<Rightarrow> vsys \<Rightarrow> bool" for cfg iidr where
  call: "vgic_exec cfg iidr m c s = Some s' \<Longrightarrow> vgic_step cfg iidr s s'"
| env: "env_step s s' \<Longrightarrow> vgic_step cfg iidr s s'"

inductive_cases vgic_stepE: "vgic_step cfg iidr s s'"

lemma vinv_run: "(vgic_step cfg iidr)\<^sup>*\<^sup>* s s' \<Longrightarrow> vinv k s \<Longrightarrow> vinv k s'"
  by (induction rule: rtranclp_induct) (auto elim!: vgic_stepE intro: vinv_exec vinv_env)

end
