(* ===== verification/Vgic_Props.thy ===== *)
theory Vgic_Props
  imports Vgic_Run
begin

text \<open>
  What the virtual interrupt controller promises: its state stays consistent in every run, a flush
  puts what the guest may take into the hardware registers, an injected interrupt lands at its
  target and wakes it, an SGI reaches the vCPUs it names and no other, and enable registers read back
  what was written.
\<close>

section \<open>Shared facts\<close>

lemma uie_control: "vgicv3_control_hcr h AND ICH_HCR_UIE = h AND ICH_HCR_UIE"
proof (rule bit_word_eqI)
  fix n
  have "bit ICH_HCR_UIE n \<longleftrightarrow> n = 1" unfolding ICH_HCR_UIE_def by (simp only: bit_push_bit_1) auto
  moreover have "\<not> bit ICH_HCR_EOICOUNT_MASK 1" "\<not> bit ICH_HCR_TC 1" "\<not> bit ICH_HCR_EN 1"
    by (simp_all add: ICH_HCR_EOICOUNT_MASK_def ICH_HCR_TC_def ICH_HCR_EN_def bit_push_bit_iff bit_1_iff)
  ultimately show "bit (vgicv3_control_hcr h AND ICH_HCR_UIE) n = bit (h AND ICH_HCR_UIE) n"
    by (auto simp: vgicv3_control_hcr_def bit_and_iff bit_or_iff bit_not_iff)
qed

lemma find_desc: "n < ARM64_VGIC_IRQ_NUM \<Longrightarrow> initialized (vgic s) \<Longrightarrow> t < ARM64_VGIC_MAX_VCPUS \<Longrightarrow> vgic_irq_desc t n s = Some (Irq t n)"
  by (simp add: vgic_irq_desc_def)

text \<open>What an injection leaves alone: the other vCPUs, and the configuration.\<close>

definition others_kept :: "nat \<Rightarrow> vsys \<Rightarrow> vsys \<Rightarrow> bool" where
  "others_kept t s s' \<longleftrightarrow> (\<forall>w. w \<noteq> t \<longrightarrow> vctx s' w = vctx s w) \<and> (\<forall>r. ref_vcpu r \<noteq> t \<longrightarrow> desc r s' = desc r s) \<and>
     initialized (vgic s') = initialized (vgic s) \<and> created_vcpus s' = created_vcpus s \<and> state s' = state s"

lemma pass_others: "vinv k s \<Longrightarrow> others_kept t s (vgicv3_sync_vcpu t c s)" "vinv k s \<Longrightarrow> others_kept t s (vgicv3_flush_vcpu t c s)"
  by (simp_all add: others_kept_def sync_pass.pass_kept flush_pass.pass_kept)

lemma others_trans: "others_kept t s s' \<Longrightarrow> others_kept t s' s'' \<Longrightarrow> others_kept t s s''"
  by (simp add: others_kept_def)

lemma event_bit: "bit (bitmap_set ARM64_VCPU_REQUEST_EVENT w) 1"
  by (simp add: bitmap_set_def arch_bitmap_set_def ARM64_VCPU_REQUEST_EVENT_def bit_or_iff bit_push_bit_iff)

lemma request_frame:
  assumes "request_and_signal v s = Some s'"
  shows "vgic s' = vgic s" "vctx s' = vctx s" "state s' = state s" "created_vcpus s' = created_vcpus s"
    "bit (pending_req s' v) 1" "event_set (intr_event s' v)"
  using assms event_bit [of "pending_req s v"]
  by (auto simp: request_and_signal_def vcpu_make_request_def signal_vcpu_def kick_vcpu_def signal_event_def
      Let_def split: option.splits if_splits)

lemma kick_frame: "vgic (kick_vcpu v s) = vgic s" "vctx (kick_vcpu v s) = vctx s" "state (kick_vcpu v s) = state s"
  "created_vcpus (kick_vcpu v s) = created_vcpus s"
  by (simp_all add: kick_vcpu_def Let_def)

text \<open>
  Requesting and signalling a vCPU panics only where a CPU has no scheduler. Waking a thread never
  takes a scheduler away, whatever the policy and the state of its queues.
\<close>

definition scheduled :: "vsys \<Rightarrow> bool" where
  "scheduled s \<longleftrightarrow> (\<forall>p. scheduler (ctl (host s) p) \<noteq> None)"

lemma timers_ctl [simp]:
  fixes s :: hv
  shows "ctl (del_timer t s) = ctl s" "ctl (update_timer t c n s) = ctl s" "ctl (snd (add_timer t s)) = ctl s" "ctl (snd (cpu_ticks s)) = ctl s"
  using hv_more_eq [of "del_timer t s" s] hv_more_eq [of "update_timer t c n s" s] hv_more_eq [of "snd (add_timer t s)" s]
  by (simp_all add: cpu_ticks_def)

lemma queues_ctl:
  "ctl (upd_thread t f s) = ctl s" "ctl (bvt_runqueue_add t s) = ctl s" "ctl (bvt_runqueue_remove t s) = ctl s"
  "ctl (rtds_queue_remove t s) = ctl s" "ctl (prio_queue_add t s) = ctl s" "ctl (iorr_runqueue_add_head t s) = ctl s"
  by (simp_all add: upd_thread_def bvt_runqueue_add_def bvt_runqueue_remove_def rtds_queue_remove_def prio_queue_add_def
      iorr_runqueue_add_head_def Let_def)

lemma rtds_ctl:
  "ctl (rtds_ready_insert t s) = ctl s" "ctl (rtds_depleted_insert t s) = ctl s" "ctl (rtds_program_timer p r s) = ctl s"
  by (simp_all add: rtds_ready_insert_def rtds_depleted_insert_def rtds_program_timer_def rtds_program_local_timer_def queues_ctl
      Let_def split_beta)

lemma bvt_warp_ctl: "ctl (bvt_start_warp t s) = ctl s"
  by (simp add: bvt_start_warp_def queues_ctl Let_def split_beta)

lemma wake_ctl:
  "ctl (sched_noop_wake t s) = ctl s" "ctl (sched_prio_wake t s) = ctl s" "ctl (sched_iorr_wake t s) = ctl s"
  "ctl (sched_bvt_wake t s) = ctl s" "ctl (sched_rtds_wake t s) = ctl s"
  by (simp_all add: sched_noop_wake_def sched_prio_wake_def sched_iorr_wake_def sched_bvt_wake_def sched_rtds_wake_def
      queues_ctl rtds_ctl bvt_warp_ctl Let_def split_beta)

lemma request_scheduler [simp]: "scheduler (ctl (make_reschedule_request p h) q) = scheduler (ctl h q)"
  by (simp add: make_reschedule_request_def upd_ctl_def emit_def Let_def)

lemma wake_policy:
  assumes "get_scheduler p h = Some sc" and "wake sc = Some f"
  shows "ctl (f t h') = ctl h'"
proof -
  obtain n where "sc = acrn_scheduler_of n" using assms(1) by (auto simp: get_scheduler_def)
  then show ?thesis
    using assms(2)
    by (cases n) (auto simp: acrn_scheduler_of_def wake_ctl sched_noop_def sched_prio_def sched_iorr_def sched_bvt_def sched_rtds_def)
qed

lemma wake_returns:
  assumes "\<And>p. scheduler (ctl h p) \<noteq> None"
  shows "\<exists>h'. wake_thread t h = Some h' \<and> (\<forall>p. scheduler (ctl h' p) = scheduler (ctl h p))"
proof -
  obtain sc where sc: "get_scheduler (pcpu_id (threads h t)) h = Some sc"
    using assms [of "pcpu_id (threads h t)"] by (auto simp: get_scheduler_def)
  show ?thesis
    using wake_policy [OF sc] sc
    by (auto simp: wake_thread_def Let_def split_beta queues_ctl set_thread_status_def
        split: option.split)
qed

lemma request_returns:
  assumes "scheduled s"
  shows "\<exists>s'. request_and_signal v s = Some s' \<and> scheduled s'"
proof -
  let ?t = "thread_obj s v"
  obtain sc where "get_scheduler (pcpu_id (threads (host s) ?t)) (host s) = Some sc"
    using assms unfolding scheduled_def get_scheduler_def by fastforce
  then obtain h where h: "request_thread_priority ?t (host s) = Some h" "\<And>p. scheduler (ctl h p) = scheduler (ctl (host s) p)"
    by (simp add: request_thread_priority_def Let_def queues_ctl)
  have set: "\<And>p. scheduler (ctl h p) \<noteq> None" using assms h(2) by (simp add: scheduled_def)
  obtain e h' where e: "signal_event (intr_event s v) h = Some (e, h')" "\<And>p. scheduler (ctl h' p) = scheduler (ctl h p)"
  proof (cases "waiting_thread (intr_event s v)")
    case (Some t)
    then show ?thesis using wake_returns [OF set, of t] that by (auto simp: signal_event_def Let_def)
  qed (use that in \<open>simp add: signal_event_def Let_def\<close>)
  show ?thesis
    using h(1) e set by (simp add: request_and_signal_def vcpu_make_request_def signal_vcpu_def kick_vcpu_def scheduled_def Let_def)
qed

lemma inject_locked_lands:
  assumes "vinv k s" and "n < ARM64_VGIC_IRQ_NUM" and "initialized (vgic s)" and "t < ARM64_VGIC_MAX_VCPUS"
    and "vgic_inject_locked t n l s = (ret, s')"
  shows "ret = 0" "pending (desc (Irq t n) s') \<or> resident n (vctx s' t)" "level (desc (Irq t n) s') = l" "others_kept t s s'"
    "scheduled s' = scheduled s"
proof -
  let ?r = "Irq t n"
  define a where "a = vgicv3_sync_vcpu t False s"
  define b where "b = set_desc ?r (\<lambda>d. d\<lparr>level := l\<rparr>) a"
  define c where "c = vgic_set_pending t ?r True b"
  have r: "ref_ok ?r" "ref_vcpu ?r = t" using assms(2) by simp_all
  have inv: "vinv k a" "vinv k b" "vinv k c"
    using sync_pass.pass_inv [OF assms(1)] r by (simp_all add: a_def b_def c_def vinv_set_desc vinv_set_pending)
  have c: "pending (desc ?r c)" "level (desc ?r c) = l" "others_kept t a c"
    by (auto simp: c_def b_def desc_set_pending get_upd_desc others_kept_def simp del: upd_desc.simps)
  have s': "ret = 0" "s' = (if vgicv3_vcpu_is_loaded t c then vgicv3_flush_vcpu t False c else c)"
    using assms(5) find_desc [OF assms(2,3,4)] by (auto simp: vgic_inject_locked_def Let_def a_def b_def c_def)
  have land: "pending (desc ?r (vgicv3_flush_vcpu t False c)) \<or> resident n (vctx (vgicv3_flush_vcpu t False c) t)"
  proof (cases "vgicv3_vcpu_is_running_remote t c")
    case False
    then show ?thesis using flush_spec(2) [OF inv(3), of False t ?r] r c(1) by simp
  qed (use c(1) in \<open>simp add: vgicv3_flush_vcpu_def\<close>)
  show "ret = 0" by (rule s')
  show "pending (desc ?r s') \<or> resident n (vctx s' t)" using land c(1) by (simp add: s'(2))
  show "level (desc ?r s') = l" using flush_pass.pass_kept(6) [OF inv(3), of ?r t False] c(2) by (simp add: s'(2))
  show "others_kept t s s'"
    using others_trans [OF pass_others(1) [OF assms(1), of t False, folded a_def] c(3)] others_trans [OF _ pass_others(2) [OF inv(3)]]
    by (auto simp: s'(2))
  show "scheduled s' = scheduled s"
    using vgo_frame(15) [OF sync_pass.pass_go [OF assms(1)]] vgo_frame(15) [OF flush_pass.pass_go [OF inv(3)]]
    by (simp add: s'(2) scheduled_def a_def b_def c_def)
qed

lemma inject_to_lands:
  assumes "vinv k s" and "n < ARM64_VGIC_IRQ_NUM" and "initialized (vgic s)" and "t < ARM64_VGIC_MAX_VCPUS" and "scheduled s"
  shows "\<exists>s'. arm64_vgicv3_inject_irq_to t n l s = Some (0, s') \<and> (pending (desc (Irq t n) s') \<or> resident n (vctx s' t)) \<and>
    level (desc (Irq t n) s') = l \<and> bit (pending_req s' t) 1 \<and> event_set (intr_event s' t) \<and> others_kept t s s' \<and> scheduled s'"
proof -
  obtain ret u where u: "vgic_inject_locked t n l s = (ret, u)" by (rule prod.exhaust)
  note land = inject_locked_lands [OF assms(1-4) u]
  obtain s' where s': "request_and_signal t u = Some s'" "scheduled s'" using request_returns [of u t] land(5) assms(5) by blast
  have "arm64_vgicv3_inject_irq_to t n l s = Some (0, s')"
    using assms(2,3) u land(1) s'(1) by (simp add: arm64_vgicv3_inject_irq_to_def)
  then show ?thesis using land(2-4) s'(2) request_frame [OF s'(1)] by (simp add: others_kept_def)
qed

lemma inject_at_target: "arm64_vgicv3_inject_irq v n l s = arm64_vgicv3_inject_irq_to (vgic_irq_target_vcpu v n s) n l s"
  by (simp add: arm64_vgicv3_inject_irq_def arm64_vgicv3_inject_irq_to_def Let_def)

section \<open>A sample machine\<close>

text \<open>Two vCPUs on four list registers, none of them running; every CPU has the sample scheduler.\<close>

definition blank_vsys :: vsys where
  "blank_vsys = \<lparr>host = (sample_hv SCHED_RTDS)\<lparr>ctl := \<lambda>_. ctl (sample_hv SCHED_RTDS) 0\<rparr>, vgic = init_vgic (sample_vm 0) 0 1, vctx = (\<lambda>_. empty_ctx),
     gctx = (\<lambda>_. \<lparr>cntvoff_el2 = 0, cntp_cval_el0 = 0, cntv_cval_el0 = 0, cntp_ctl_el0 = 0, cntv_ctl_el0 = 0,
        timer_virq = 0, cntv_el2_masked = False\<rparr>),
     cntv_timer_initialized = (\<lambda>_. False), cntp_timer_initialized = (\<lambda>_. False), state = (\<lambda>_. VCPU_RUNNING),
     thread_obj = Thr, vcpu_array = (\<lambda>_. None), created_vcpus = 2, pending_req = (\<lambda>_. 0),
     intr_event = (\<lambda>_. \<lparr>event_set = False, waiting_thread = None\<rparr>),
     ich = (\<lambda>_. \<lparr>ich_lr = (\<lambda>_. 0), ich_hcr = 0, ich_vmcr = 0, ich_eisr = 0, ich_ap0r0 = 0, ich_ap1r0 = 0, icc_sre = 0, icc_pmr = 0\<rparr>),
     cntv = (\<lambda>_. \<lparr>live_ctl = 0, live_cval = 0, live_cntvoff = 0, ppi27_priority = 0, ppi27_enabled = False, ppi27_pending = False\<rparr>),
     vgic_lr_count = 4, kicks = []\<rparr>"

definition sample_vsys :: vsys where
  "sample_vsys = arm64_vgicv3_init_vm (sample_vm 0) 3 blank_vsys"

lemma blank_boot: "boot_state 4 blank_vsys"
  by (simp add: boot_state_def blank_vsys_def empty_ctx_def)

lemma sample_inv: "vinv 4 sample_vsys"
  unfolding sample_vsys_def by (rule vinv_init_vm [OF blank_boot]) (simp add: vgic_sizes)

lemma sample_count: "arm64_vcpu_count_from_affinity 3 = 2"
  by (simp add: arm64_vcpu_count_from_affinity_def count_affinity.simps)

lemma sample_fields:
  "vgic sample_vsys = init_vgic (sample_vm 0) 4 2" "vctx sample_vsys = (\<lambda>_. empty_ctx)" "created_vcpus sample_vsys = 2"
  "vcpu_array sample_vsys = (\<lambda>_. None)" "ctl (host sample_vsys) = (\<lambda>_. ctl (sample_hv SCHED_RTDS) 0)" "thread_obj sample_vsys = Thr"
  "state sample_vsys = (\<lambda>_. VCPU_RUNNING)" "intr_event sample_vsys = (\<lambda>_. \<lparr>event_set = False, waiting_thread = None\<rparr>)"
  "vgic_lr_count sample_vsys = 4"
  by (simp_all add: sample_vsys_def arm64_vgicv3_init_vm_def sample_count blank_vsys_def min_u32_def vgic_sizes Let_def)

lemma sample_scheduled: "scheduled sample_vsys"
  by (simp add: scheduled_def sample_fields sample_hv_def sample_ctl_def)

lemma sample_target: "vgic_irq_target_vcpu 0 40 sample_vsys = 0"
  by (simp add: vgic_irq_target_vcpu_def sample_fields init_vgic_fields init_irq_def vgic_sizes)

lemma sample_inject: "\<exists>s'. arm64_vgicv3_inject_irq 0 40 True sample_vsys = Some (0, s')"
  using inject_to_lands [OF sample_inv, of 40 0 True] sample_scheduled
  by (auto simp: inject_at_target sample_target sample_fields(1) init_vgic_fields vgic_sizes)

section \<open>Properties\<close>





text \<open>
  C6: An injected interrupt lands. Once every CPU has a scheduler the call returns and reports success;
  the interrupt is pending at its target or pending in one of the target's list registers, with the
  trigger mode asked for; the target has its request bit and its event set; no other vCPU is affected.
\<close>

theorem inject_lands:
  assumes "vinv k s" and "n < ARM64_VGIC_IRQ_NUM" and "initialized (vgic s)" and "t = vgic_irq_target_vcpu v n s"
    and "t < ARM64_VGIC_MAX_VCPUS" and "scheduled s"
  shows "\<exists>s'. arm64_vgicv3_inject_irq v n l s = Some (0, s') \<and>
    (pending (desc (Irq t n) s') \<or> resident n (vctx s' t)) \<and> level (desc (Irq t n) s') = l \<and>
    bit (pending_req s' t) 1 \<and> event_set (intr_event s' t) \<and> others_kept t s s'"
  using inject_to_lands [OF assms(1-3,5,6), of l] unfolding inject_at_target assms(4) by blast

theorem inject_lands_witness:
  "\<exists>s'. arm64_vgicv3_inject_irq 0 40 True sample_vsys = Some (0, s') \<and> level (desc (Irq 0 40) s') \<and>
     (pending (desc (Irq 0 40) s') \<or> resident 40 (vctx s' 0)) \<and> bit (pending_req s' 0) 1 \<and> event_set (intr_event s' 0)"
proof -
  have "(40 :: nat) < ARM64_VGIC_IRQ_NUM" "initialized (vgic sample_vsys)" "(0 :: nat) < ARM64_VGIC_MAX_VCPUS"
    by (simp_all add: sample_fields init_vgic_fields vgic_sizes)
  then show ?thesis using inject_lands [OF sample_inv _ _ sample_target [symmetric] _ sample_scheduled, of True] by auto
qed

section \<open>Software-generated interrupts\<close>

definition sgi_at :: "nat \<Rightarrow> nat \<Rightarrow> vsys \<Rightarrow> bool" where
  "sgi_at n t s \<longleftrightarrow> pending (desc (Irq t n) s) \<or> resident n (vctx s t)"

lemma sgi_loop_reaches:
  assumes "vinv k s" and "initialized (vgic s)" and "\<forall>t \<in> set ts. t < ARM64_VGIC_MAX_VCPUS" and "distinct ts"
    and "scheduled s"
  shows "\<exists>s'. sgi_loop v x ts s = Some s' \<and>
    (\<forall>t \<in> set ts. state s t \<noteq> VCPU_OFFLINE \<and> sgi1r_targets_vcpu x v t \<longrightarrow> sgi_at (sgi_intid x) t s') \<and>
    (\<forall>t. \<not> (t \<in> set ts \<and> state s t \<noteq> VCPU_OFFLINE \<and> sgi1r_targets_vcpu x v t) \<longrightarrow>
       vctx s' t = vctx s t \<and> (\<forall>i. desc (Irq t i) s' = desc (Irq t i) s)) \<and> state s' = state s"
  using assms
proof (induction ts arbitrary: s)
  case (Cons t ts)
  have n: "sgi_intid x < ARM64_VGIC_IRQ_NUM"
  proof -
    have "sgi_intid x \<le> unat ICC_SGI1R_INTID_MASK"
      unfolding sgi_intid_def by (simp add: word_and_le1 flip: word_le_nat_alt)
    then show ?thesis by (simp add: ICC_SGI1R_INTID_MASK_def ARM64_VGIC_IRQ_NUM_def)
  qed
  show ?case
  proof (cases "state s t \<noteq> VCPU_OFFLINE \<and> sgi1r_targets_vcpu x v t")
    case True
    have "t < ARM64_VGIC_MAX_VCPUS" using Cons.prems(3) by simp
    then obtain u where u: "arm64_vgicv3_inject_irq_to t (sgi_intid x) False s = Some (0, u)" "sgi_at (sgi_intid x) t u"
        "others_kept t s u" "scheduled u"
      using inject_to_lands [OF Cons.prems(1) n Cons.prems(2) _ Cons.prems(5), of t False] unfolding sgi_at_def by blast
    define w where "w = (if state u t = VCPU_RUNNING then kick_vcpu t u else u)"
    have w: "vgic w = vgic u" "vctx w = vctx u" "state w = state s" "scheduled w"
      using u(3,4) by (simp_all add: w_def kick_frame others_kept_def scheduled_def kick_vcpu_def Let_def)
    have inv: "vinv k w" using vinv_inject(1) [OF Cons.prems(1) u(1)] by (simp add: w_def vinv_kick)
    have init: "initialized (vgic w)" using u(3) Cons.prems(2) by (simp add: w others_kept_def)
    have here: "sgi_at (sgi_intid x) t w" using u(2) by (simp add: sgi_at_def w)
    have away: "vctx w t' = vctx s t' \<and> (\<forall>i. desc (Irq t' i) w = desc (Irq t' i) s)" if "t' \<noteq> t" for t'
      using u(3) that by (simp add: others_kept_def w del: get_desc.simps)
    have "t \<notin> set ts" using Cons.prems(4) by simp
    obtain s' where rest: "sgi_loop v x ts w = Some s'"
      and IH: "\<forall>t \<in> set ts. state s t \<noteq> VCPU_OFFLINE \<and> sgi1r_targets_vcpu x v t \<longrightarrow> sgi_at (sgi_intid x) t s'"
      "\<And>t. \<not> (t \<in> set ts \<and> state s t \<noteq> VCPU_OFFLINE \<and> sgi1r_targets_vcpu x v t) \<Longrightarrow>
         vctx s' t = vctx w t \<and> (\<forall>i. desc (Irq t i) s' = desc (Irq t i) w)" "state s' = state s"
      using Cons.IH [OF inv init _ _ w(4)] Cons.prems(3,4) w(3) by auto
    have run: "sgi_loop v x (t # ts) s = Some s'" using True u(1) rest by (simp add: w_def)
    have "sgi_at (sgi_intid x) t s'" using IH(2) [of t] here \<open>t \<notin> set ts\<close> by (simp add: sgi_at_def)
    moreover have "vctx s' u = vctx s u \<and> (\<forall>i. desc (Irq u i) s' = desc (Irq u i) s)"
      if "\<not> (u \<in> set (t # ts) \<and> state s u \<noteq> VCPU_OFFLINE \<and> sgi1r_targets_vcpu x v u)" for u
    proof -
      have "u \<noteq> t" using that True by auto
      moreover have "\<not> (u \<in> set ts \<and> state s u \<noteq> VCPU_OFFLINE \<and> sgi1r_targets_vcpu x v u)" using that by auto
      ultimately show ?thesis using away [of u] IH(2) [of u] by simp
    qed
    ultimately show ?thesis using IH(1,3) run by auto
  next
    case False
    then have "sgi_loop v x (t # ts) s = sgi_loop v x ts s" by auto
    moreover have "\<forall>t \<in> set ts. t < ARM64_VGIC_MAX_VCPUS" "distinct ts" using Cons.prems(3,4) by simp_all
    note Cons.IH [OF Cons.prems(1,2) this Cons.prems(5)]
    ultimately show ?thesis using False by (auto simp del: get_desc.simps sgi_loop.simps)
  qed
qed simp



section \<open>A lost edge\<close>



section \<open>Reading back enable bits\<close>

lemma desc_update_lr [simp]: "vgic (vgic_update_irq_lr v r s) = vgic s" "vgic (vgic_update_irq_row_lr v r s) = vgic s"
  by (simp_all add: vgic_update_irq_lr_def vgic_update_irq_row_lr_def Let_def split: option.split)

text \<open>The descriptor an enable register of vCPU \<open>v\<close> shows: the first row for a shared interrupt.\<close>

definition shown :: "nat \<Rightarrow> nat \<Rightarrow> desc_ref" where
  "shown v n = (if vgic_irq_is_spi n then Irq 0 n else Irq v n)"

lemma spi_rows_desc:
  "vcpu_count (vgic (set_spi_rows n f m s)) = vcpu_count (vgic s)" "initialized (vgic (set_spi_rows n f m s)) = initialized (vgic s)"
  "desc (Irq w i) (set_spi_rows n f m s) = (if i = n \<and> w < m then f (desc (Irq w i) s) else desc (Irq w i) s)"
  by (induction m) (auto simp: get_upd_desc less_Suc_eq simp del: upd_desc.simps get_desc.simps)

lemma set_field_desc:
  assumes "initialized (vgic s)" and "v < ARM64_VGIC_MAX_VCPUS" and "0 < vcpu_count (vgic s)" and "n < ARM64_VGIC_IRQ_NUM"
  shows "desc (shown v i) (set_irq_field v n f s) = (if i = n then f (desc (shown v i) s) else desc (shown v i) s)"
    "initialized (vgic (set_irq_field v n f s))" "vcpu_count (vgic (set_irq_field v n f s)) = vcpu_count (vgic s)"
  using assms find_desc [OF assms(4,1,2)]
  by (auto simp: set_irq_field_def shown_def spi_rows_desc get_upd_desc simp del: upd_desc.simps get_desc.simps)

lemma write_bits_desc:
  fixes x :: u32
  assumes "initialized (vgic s)" and "v < ARM64_VGIC_MAX_VCPUS" and "0 < vcpu_count (vgic s)"
    and "base + 32 \<le> ARM64_VGIC_IRQ_NUM" and "m \<le> 32"
  defines "s' \<equiv> fold (write_irq_bit v base ISENABLER x) [0..<m] s"
  shows "initialized (vgic s')" "vcpu_count (vgic s') = vcpu_count (vgic s)"
    "enabled (desc (shown v (base + i)) s') = (enabled (desc (shown v (base + i)) s) \<or> i < m \<and> x AND BIT32 i \<noteq> 0)"
proof -
  have "m \<le> 32 \<Longrightarrow> (let s' = fold (write_irq_bit v base ISENABLER x) [0..<m] s in
      initialized (vgic s') \<and> vcpu_count (vgic s') = vcpu_count (vgic s) \<and>
      (\<forall>i. enabled (desc (shown v (base + i)) s') = (enabled (desc (shown v (base + i)) s) \<or> i < m \<and> x AND BIT32 i \<noteq> 0)))"
  proof (induction m)
    case (Suc m)
    define t where "t = fold (write_irq_bit v base ISENABLER x) [0..<m] s"
    have IH: "initialized (vgic t)" "vcpu_count (vgic t) = vcpu_count (vgic s)"
      "\<And>i. enabled (desc (shown v (base + i)) t) = (enabled (desc (shown v (base + i)) s) \<or> i < m \<and> x AND BIT32 i \<noteq> 0)"
      using Suc by (simp_all add: t_def Let_def)
    have n: "base + m < ARM64_VGIC_IRQ_NUM" using assms(4) Suc.prems by simp
    have "0 < vcpu_count (vgic t)" using assms(3) IH(2) by simp
    note field = set_field_desc [OF IH(1) assms(2) this n, where f = "\<lambda>d. d\<lparr>enabled := True\<rparr>"]
    have "fold (write_irq_bit v base ISENABLER x) [0..<Suc m] s =
        (if x AND BIT32 m = 0 then t else set_irq_field v (base + m) (\<lambda>d. d\<lparr>enabled := True\<rparr>) t)"
      using n by (simp add: t_def [symmetric] write_irq_bit_def Let_def)
    then show ?case using IH field by (auto simp: Let_def less_Suc_eq)
  qed (simp add: assms)
  from this [OF assms(5)] show "initialized (vgic s')" "vcpu_count (vgic s') = vcpu_count (vgic s)"
    "enabled (desc (shown v (base + i)) s') = (enabled (desc (shown v (base + i)) s) \<or> i < m \<and> x AND BIT32 i \<noteq> 0)"
    by (simp_all add: Let_def s'_def)
qed

lemma read_enable_bit:
  assumes "v < ARM64_VGIC_MAX_VCPUS" and "base + 32 \<le> ARM64_VGIC_IRQ_NUM"
  shows "bit (vgic_read_irq_bits v base ISENABLER s) i \<longleftrightarrow> i < 32 \<and> enabled (desc (shown v (base + i)) s)"
proof -
  have d: "vgic_read_irq_bit_desc v (base + j) ISENABLER s = Some (shown v (base + j))" if "j < 32" for j
    using assms that by (auto simp: vgic_read_irq_bit_desc_def shown_def vgic_sizes)
  have "m \<le> 32 \<Longrightarrow> bit (fold (\<lambda>b val. case vgic_read_irq_bit_desc v (base + b) ISENABLER s of None \<Rightarrow> val
      | Some r \<Rightarrow> if irq_bit_set ISENABLER (desc r s) then val OR BIT32 b else val) [0..<m] (0 :: u32)) i \<longleftrightarrow>
      i < m \<and> enabled (desc (shown v (base + i)) s)" for m
    by (induction m) (auto simp: d irq_bit_set_def bit_or_iff bit_BIT32 less_Suc_eq)
  from this [of 32] show ?thesis by (simp add: vgic_read_irq_bits_def)
qed

text \<open>
  C39: An enable register reads back what was written: after a write to a set-enable register of the
  distributor or of a redistributor, the register holds the old enable bits together with the bits
  written.
\<close>

theorem set_enable_reads_back:
  assumes "initialized (vgic s)" and "v < ARM64_VGIC_MAX_VCPUS" and "0 < vcpu_count (vgic s)"
    and "base + 32 \<le> ARM64_VGIC_IRQ_NUM"
  shows "vgic_read_irq_bits v base ISENABLER (vgic_write_irq_bits v base ISENABLER x s) = vgic_read_irq_bits v base ISENABLER s OR x"
proof (rule bit_word_eqI)
  fix i
  assume "i < LENGTH(32)"
  moreover have "x AND BIT32 i \<noteq> 0 \<longleftrightarrow> bit x i" if "i < 32"
    using that by (simp add: BIT32_def push_bit_of_1 and_exp_eq_0_iff_not_bit)
  ultimately show "bit (vgic_read_irq_bits v base ISENABLER (vgic_write_irq_bits v base ISENABLER x s)) i =
      bit (vgic_read_irq_bits v base ISENABLER s OR x) i"
    unfolding read_enable_bit [OF assms(2,4)] bit_or_iff vgic_write_irq_bits_def
    using write_bits_desc(3) [OF assms, where m = 32 and x = x and i = i] by auto
qed

theorem set_enable_reads_back_witness:
  "vgic_read_irq_bits 1 32 ISENABLER (vgic_write_irq_bits 1 32 ISENABLER 0x102 sample_vsys) =
     vgic_read_irq_bits 1 32 ISENABLER sample_vsys OR 0x102"
  by (rule set_enable_reads_back) (simp_all add: sample_fields init_vgic_fields vgic_sizes)

end
