(* ===== verification/Spec2Isabelle.thy ===== *)
theory Spec2Isabelle
  imports Map_Calls Sbuf Vgic_Props
begin

text \<open>
  A verification of the BEAU hypervisor, in its arm64 configuration. Paths are relative to
  \<^verbatim>\<open>src/\<close>; definitions carry the names of the C functions, types and macros they translate.

  \<^bold>\<open>The program.\<close> BEAU runs guests at EL2. A scheduler framework runs vCPU threads on each
  CPU through one of five scheduling policies; threads wait for and signal events; software timers drive
  policies and guests. Two sets of page tables, built by one walker from fixed pools, translate the
  hypervisor's own addresses and those of each VM. A virtual interrupt controller with a translation
  service moves interrupts between descriptors, list registers and vCPUs, and wakes vCPUs through the
  scheduler.

  \<^bold>\<open>Conventions.\<close> Registers and machine integers are words of their width; indices and counters whose range
  an invariant bounds are natural numbers. State is a record passed along: \<open>timer_env\<close>, extended to \<open>hv\<close> by
  the scheduler, and \<open>vsys\<close>, which contains an \<open>hv\<close>. \<open>None\<close> is a panic, an exhausted pool or a loop that
  does not end; negative results are the C error codes. Assertions are compiled out. A call under a lock
  is one step; where code runs without one (events, cross-CPU calls) its steps are interleaved explicitly.

  \<^bold>\<open>Theories.\<close>
  \<^item> \<open>Prelude\<close>: machine types, lists, ordered queues (locale \<open>ordered_queue\<close>, insertion before the first element
    that a stop test accepts) and passes over a queue that changes (locale \<open>safe_pass\<close>).
  \<^item> \<open>Bits\<close>: \<^verbatim>\<open>lib/bits.c\<close>, \<^verbatim>\<open>include/lib/bits.h\<close> and the arm64 primitives; bit searches are exact.
  \<^item> \<open>List_Head\<close>, \<open>Linked_Queue\<close>: \<^verbatim>\<open>include/lib/list.h\<close> on a heap of nodes; any run of list operations refines the
    same run on abstract queues.
  \<^item> \<open>Timer\<close>: \<^verbatim>\<open>core/timer.c\<close>, \<^verbatim>\<open>core/ticks.c\<close>; timer lists stay sorted and the soft interrupt serves what is due.
  \<^item> \<open>Sched_Types\<close>, \<open>Sched_Contract\<close>: the data of \<^verbatim>\<open>include/common/schedule.h\<close> and the contract of a policy (locale
    \<open>sched_class\<close>). \<open>Sched_Noop\<close>, \<open>Sched_Prio\<close>, \<open>Sched_Iorr\<close>, \<open>Sched_Bvt\<close>, \<open>Sched_Rtds\<close>: the policies of
    \<^verbatim>\<open>core/sched_*.c\<close>; all but the single-thread one are interpretations of the contract.
  \<^item> \<open>Schedule\<close>: \<^verbatim>\<open>core/schedule.c\<close>; every call on every CPU in any order keeps the invariant \<open>sys_inv\<close> and does not panic.
  \<^item> \<open>Event\<close>: \<^verbatim>\<open>core/event.c\<close> interleaved with the scheduler. \<open>Notify\<close>: \<^verbatim>\<open>core/notify.c\<close> as interleaved steps.
  \<^item> \<open>Pgtable\<close>, \<open>Page_Pool\<close>, \<open>Mmu\<close>, \<open>Page_Walk\<close>, \<open>Mmu_Map\<close>, \<open>Mmu_Add\<close>, \<open>Mmu_Modify\<close>: \<^verbatim>\<open>include/common/pgtable.h\<close> and
    \<^verbatim>\<open>core/mmu.c\<close>. The locale \<open>pgt_hooks\<close> is what the walker needs of a table format; it is interpreted for
    host tables in \<open>Arm64_Mmu\<close> (\<^verbatim>\<open>arch/arm64/mmu.c\<close>) and for VM tables in \<open>Stage2\<close>
    (\<^verbatim>\<open>arch/arm64/guest/vm.c\<close>, \<^verbatim>\<open>guest_memory.c\<close>). \<open>Map_Calls\<close> states the calls as their users see them.
  \<^item> \<open>Memory\<close>, \<open>Sbuf\<close>: \<^verbatim>\<open>lib/memory.c\<close> on bytes, and the ring buffers of \<^verbatim>\<open>core/sbuf.c\<close>, which refine a bounded queue.
  \<^item> \<open>Vgic_Types\<close>, \<open>Vgic_Inv\<close>: the state of \<^verbatim>\<open>arch/arm64/guest/vgicv3.c\<close> and its invariant \<open>vinv\<close>. \<open>Vtimer\<close>: the part
    of \<^verbatim>\<open>vtimer.c\<close> it calls. \<open>Vgic_Sync\<close>, \<open>Vgic_Step\<close>, \<open>Vgic_Flush\<close>: moving interrupts in and out of list registers.
    \<open>Vgic_Calls\<close>: the calls. \<open>Vits\<close>: \<^verbatim>\<open>vgicv3_its.c\<close>. \<open>Vgic_Mmio\<close>: registers and initialisation. \<open>Vgic_Keep\<close>
    (locale \<open>vcpu_pass\<close>, interpreted for synchronising and flushing) and \<open>Vgic_Run\<close>: all calls keep \<open>vinv\<close>.
    \<open>Vgic_Props\<close>: the properties.

  \<^bold>\<open>Bounds and fuel.\<close> Walks of a pointer list take fuel; the refinement needs more than the length of the
  queue plus the number of operations, so it never runs out on a list that is well formed. The command
  queue of the translation service runs at most 1024 commands, which is the budget in the code. Loops whose
  end depends on the state, in the scheduler and in the page-table walker, have the value \<open>None\<close> where they
  do not end: under the invariants they are shown to return, and one theorem shows a call of the walker
  that does not. All other loops are total functions. The invariant of the interrupt controller
  exempts the virtual timer from "at most one list register": synchronising may queue it again before
  the next flush.

  \<^bold>\<open>Parameters.\<close> The environment of a run is arbitrary: what the guest does to list registers (it keeps the
  interrupt number and fills no empty register), the contents of guest memory, the counter, the number
  of list registers and the identification value of the interrupt controller.

  \<^bold>\<open>Not modelled.\<close> Host interrupt dispatch and soft-interrupt registration (\<^verbatim>\<open>core/irq.c\<close>, \<^verbatim>\<open>core/softirq.c\<close>), VM life cycle
  and hypercalls, decoding of guest exits and the register switch, which ends in assembly, the rest of the
  guest timer (trapped registers, callbacks, context switch), emulated devices, the host interrupt
  controller drivers, device trees, logging, the other architectures, vendored libraries and the
  user-space device model. Fields kept for debugging only, and the counter reads made for them, are left
  out of the modelled functions. Time between two reads of the counter is not bounded, and the
  memory model is sequentially consistent.
\<close>

end
